(* ===== verification/Beacon_Prelude.thy ===== *)
theory Beacon_Prelude
  imports Main "HOL-Library.Multiset"
begin

text \<open>
  Shared vocabulary of the SoroBeacon development: Go's clock and duration
  arithmetic, the \<open>int64\<close> wrap-around, ASCII string helpers, and the generic list
  lemmas the component theories use.

  A \<open>time.Time\<close> is its distance in nanoseconds from Go's zero time, so
  \<open>time.Time{}\<close> is \<open>0\<close> and \<open>IsZero\<close> is equality with \<open>0\<close>. \<open>Add\<close> is integer addition
  and \<open>Before\<close>/\<open>After\<close> are the integer order. A \<open>time.Duration\<close> is a signed 64-bit
  number of nanoseconds: \<open>Sub\<close> saturates at its two ends and arithmetic wraps, which
  \<open>time_sub\<close> and \<open>wrap64\<close> write out.
\<close>

named_theorems go_time "clock and duration arithmetic"
named_theorems inv_intros "preservation of the component invariants"

type_synonym gtime = int
type_synonym duration = int

definition max_i64 :: int where "max_i64 = 9223372036854775807"
definition min_i64 :: int where "min_i64 = -9223372036854775808"

definition wrap64 :: "int \<Rightarrow> int" where
  "wrap64 x = (x + 9223372036854775808) mod 18446744073709551616 - 9223372036854775808"

definition time_sub :: "gtime \<Rightarrow> gtime \<Rightarrow> duration" where
  "time_sub t u = max min_i64 (min max_i64 (t - u))"

definition millisecond :: duration where "millisecond = 1000000"
definition second :: duration where "second = 1000000000"
definition minute :: duration where "minute = 60000000000"

lemmas i64_defs = max_i64_def min_i64_def
lemmas duration_defs = millisecond_def second_def minute_def

lemma wrap64_id: "min_i64 \<le> x \<Longrightarrow> x \<le> max_i64 \<Longrightarrow> wrap64 x = x"
  by (simp add: wrap64_def i64_defs)

lemma wrap64_range: "min_i64 \<le> wrap64 x \<and> wrap64 x \<le> max_i64"
proof -
  have "0 \<le> (x + 9223372036854775808) mod 18446744073709551616"
    and "(x + 9223372036854775808) mod 18446744073709551616 < 18446744073709551616"
    by simp_all
  then show ?thesis
    unfolding wrap64_def i64_defs by linarith
qed

lemma time_sub_ge [go_time]:
  "min_i64 < d \<Longrightarrow> d \<le> max_i64 \<Longrightarrow> d \<le> time_sub t u \<longleftrightarrow> d \<le> t - u"
  by (auto simp: time_sub_def i64_defs)

lemma time_sub_less [go_time]:
  "min_i64 < d \<Longrightarrow> d \<le> max_i64 \<Longrightarrow> time_sub t u < d \<longleftrightarrow> t - u < d"
  by (auto simp: time_sub_def i64_defs)

lemma time_sub_gt [go_time]:
  "min_i64 \<le> d \<Longrightarrow> d < max_i64 \<Longrightarrow> d < time_sub t u \<longleftrightarrow> d < t - u"
  by (auto simp: time_sub_def i64_defs)

lemma time_sub_mono: "t \<le> t' \<Longrightarrow> time_sub t u \<le> time_sub t' u"
  by (auto simp: time_sub_def)

subsection \<open>Go slices that keep their newest entries\<close>

text \<open>\<open>keep_last n xs\<close> is \<open>if len(xs) > n { xs = xs[len(xs)-n:] }\<close>.\<close>

definition keep_last :: "nat \<Rightarrow> 'a list \<Rightarrow> 'a list" where
  "keep_last n xs = (if n < length xs then drop (length xs - n) xs else xs)"

lemma length_keep_last [simp]: "length (keep_last n xs) = min n (length xs)"
  by (auto simp: keep_last_def)

lemma keep_last_short [simp]: "length xs \<le> n \<Longrightarrow> keep_last n xs = xs"
  by (simp add: keep_last_def)

lemma set_keep_last: "set (keep_last n xs) \<subseteq> set xs"
  by (auto simp: keep_last_def dest: in_set_dropD)

lemma sorted_keep_last: "sorted xs \<Longrightarrow> sorted (keep_last n xs)"
  by (simp add: keep_last_def sorted_wrt_drop)

lemma last_keep_last: "0 < n \<Longrightarrow> xs \<noteq> [] \<Longrightarrow> last (keep_last n xs) = last xs"
  by (auto simp: keep_last_def)

lemma keep_last_eq_Nil [simp]: "keep_last n xs = [] \<longleftrightarrow> n = 0 \<or> xs = []"
  by (auto simp: keep_last_def)

lemma keep_last_append: "keep_last n (keep_last n xs @ ys) = keep_last n (xs @ ys)"
proof (cases "n < length xs")
  case True
  have "drop (n + length ys - n) (drop (length xs - n) xs @ ys) = drop (length xs + length ys - n) (xs @ ys)"
    using True by (simp add: drop_append add.commute)
  with True show ?thesis by (auto simp: keep_last_def drop_append)
qed simp

lemma dropWhile_keep_last:
  "sorted xs \<Longrightarrow> dropWhile (\<lambda>t. t < c) (keep_last n xs) = keep_last n (dropWhile (\<lambda>t. t < c) xs)"
proof (induction xs)
  case (Cons x xs)
  show ?case
  proof (cases "n < Suc (length xs)")
    case True
    then have k: "keep_last n (x # xs) = keep_last n xs"
      by (auto simp: keep_last_def Suc_diff_le)
    show ?thesis
    proof (cases "x < c")
      case False
      then have "\<forall>t \<in> set (x # xs). \<not> t < c" using Cons.prems by auto
      then have "dropWhile (\<lambda>t. t < c) ys = ys" if "set ys \<subseteq> set (x # xs)" for ys
        using that by (cases ys) auto
      then show ?thesis using set_keep_last [of n "x # xs"] False by simp
    next
      case x: True
      then show ?thesis using Cons k by simp
    qed
  next
    case False
    then have "length (dropWhile (\<lambda>t. t < c) (x # xs)) \<le> n"
      using length_dropWhile_le [of "\<lambda>t. t < c" "x # xs"] by simp
    with False show ?thesis by simp
  qed
qed simp

lemma dropWhile_sorted_filter:
  "sorted xs \<Longrightarrow> dropWhile (\<lambda>t. t < c) xs = filter (\<lambda>t. c \<le> t) xs" for c :: int
  by (induction xs) (auto simp: filter_True [symmetric] intro!: filter_True [symmetric])

lemma length_filter_bound: "length xs \<le> n \<Longrightarrow> length (filter P xs) \<le> n"
  using length_filter_le order_trans by blast

subsection \<open>ASCII strings\<close>

text \<open>
  \<open>strings.ToLower\<close>, \<open>strings.EqualFold\<close>, \<open>strings.Contains\<close>, \<open>strings.HasPrefix\<close> and
  \<open>strings.TrimSpace\<close> on ASCII text, which is what the sources apply them to.
\<close>

definition char_lower :: "char \<Rightarrow> char" where
  "char_lower c =
     (let n = of_char c :: nat in if 65 \<le> n \<and> n \<le> 90 then char_of (n + 32) else c)"

definition to_lower :: "string \<Rightarrow> string" where
  "to_lower s = map char_lower s"

definition equal_fold :: "string \<Rightarrow> string \<Rightarrow> bool" where
  "equal_fold s t \<longleftrightarrow> to_lower s = to_lower t"

fun has_prefix :: "string \<Rightarrow> string \<Rightarrow> bool" where
  "has_prefix s [] = True"
| "has_prefix [] (p # ps) = False"
| "has_prefix (c # s) (p # ps) = (c = p \<and> has_prefix s ps)"

fun str_contains :: "string \<Rightarrow> string \<Rightarrow> bool" where
  "str_contains [] sub = (sub = [])"
| "str_contains (c # s) sub = (has_prefix (c # s) sub \<or> str_contains s sub)"

definition is_space :: "char \<Rightarrow> bool" where
  "is_space c = (let n = of_char c :: nat in n = 32 \<or> (9 \<le> n \<and> n \<le> 13))"

definition trim_space :: "string \<Rightarrow> string" where
  "trim_space s = rev (dropWhile is_space (rev (dropWhile is_space s)))"

subsection \<open>Integers as text\<close>

text \<open>\<open>fmt_d\<close> is \<open>fmt.Sprintf("%d", i)\<close>; \<open>go_div\<close> is Go's integer division, truncating to zero.\<close>

fun nat_digits :: "nat \<Rightarrow> string" where
  "nat_digits n = (if n < 10 then [char_of (48 + n)] else nat_digits (n div 10) @ [char_of (48 + n mod 10)])"

declare nat_digits.simps [simp del]

definition fmt_d :: "int \<Rightarrow> string" where
  "fmt_d i = (if i < 0 then CHR ''-'' # nat_digits (nat (- i)) else nat_digits (nat i))"

definition go_div :: "int \<Rightarrow> int \<Rightarrow> int" where
  "go_div a b = sgn a * sgn b * (\<bar>a\<bar> div \<bar>b\<bar>)"

definition go_mod :: "int \<Rightarrow> int \<Rightarrow> int" where
  "go_mod a b = a - b * go_div a b"

definition digits_val :: "string \<Rightarrow> nat" where
  "digits_val s = foldl (\<lambda>a c. a * 10 + (of_char c - 48)) 0 s"

lemma of_char_digit: "d < 10 \<Longrightarrow> of_char (char_of (48 + d) :: char) = 48 + (d :: nat)"
  by (simp add: of_char_of)

lemma digits_val_nat_digits [simp]: "digits_val (nat_digits n) = n"
proof (induction n rule: nat_digits.induct)
  case (1 n)
  show ?case
  proof (cases "n < 10")
    case True
    then show ?thesis
      by (simp add: nat_digits.simps digits_val_def of_char_digit)
  next
    case False
    with 1 have "digits_val (nat_digits (n div 10)) = n div 10" by simp
    with False show ?thesis
      by (subst nat_digits.simps) (simp add: digits_val_def of_char_digit)
  qed
qed

lemma nat_digits_chars: "c \<in> set (nat_digits n) \<Longrightarrow> 48 \<le> (of_char c :: nat) \<and> (of_char c :: nat) < 58"
proof (induction n rule: nat_digits.induct)
  case (1 n)
  then show ?case
    by (cases "n < 10")
       (auto simp: nat_digits.simps [of n] of_char_digit [of n] of_char_digit [of "n mod 10"])
qed

lemma nat_digits_inj [simp]: "nat_digits m = nat_digits n \<longleftrightarrow> m = n"
  using digits_val_nat_digits by metis

lemma fmt_d_no_colon: "CHR '':'' \<notin> set (fmt_d i)"
  using nat_digits_chars [of "CHR '':''"] by (auto simp: fmt_d_def)

lemma dash_not_digit: "CHR ''-'' \<notin> set (nat_digits n)"
  using nat_digits_chars [of "CHR ''-''" n] by auto

lemma fmt_d_inj [simp]: "fmt_d i = fmt_d j \<longleftrightarrow> i = j"
proof
  assume e: "fmt_d i = fmt_d j"
  have "\<not> (i < 0 \<and> 0 \<le> j)" "\<not> (j < 0 \<and> 0 \<le> i)"
    using e dash_not_digit [of "nat i"] dash_not_digit [of "nat j"]
    by (auto simp: fmt_d_def) (metis list.set_intros(1))+
  then show "i = j"
    using e by (auto simp: fmt_d_def split: if_splits)
qed simp

text \<open>\<open>strings.Join\<close>.\<close>

fun join_with :: "string \<Rightarrow> string list \<Rightarrow> string" where
  "join_with sep [] = ''''"
| "join_with sep [x] = x"
| "join_with sep (x # y # ys) = x @ sep @ join_with sep (y # ys)"

text \<open>A text and a number joined by a separator that the number's text cannot contain.\<close>

lemma split_at_last:
  "c \<notin> set u \<Longrightarrow> c \<notin> set v \<Longrightarrow> s @ c # u = t @ c # v \<longleftrightarrow> s = t \<and> u = v"
proof (induction s arbitrary: t)
  case Nil
  then show ?case by (cases t) auto
next
  case (Cons a s)
  then show ?case
  proof (cases t)
    case Nil
    then show ?thesis using Cons.prems by auto
  next
    case (Cons b t')
    then show ?thesis using Cons.IH Cons.prems by simp
  qed
qed

subsection \<open>Grouping in order of first appearance\<close>

text \<open>The \<open>wsOrder\<close>/\<open>byWS\<close> loops: the elements of each key together, keys in the order they first appear.\<close>

definition group_by :: "('a \<Rightarrow> 'k) \<Rightarrow> 'a list \<Rightarrow> 'a list list" where
  "group_by f xs = map (\<lambda>k. filter (\<lambda>x. f x = k) xs) (rev (remdups (rev (map f xs))))"

lemma group_by_sub: "g \<in> set (group_by f xs) \<Longrightarrow> set g \<subseteq> set xs"
  by (auto simp: group_by_def)

lemma set_concat_group_by [simp]: "set (concat (group_by f xs)) = set xs"
  by (auto simp: group_by_def)

lemma group_by_same_key: "g \<in> set (group_by f xs) \<Longrightarrow> x \<in> set g \<Longrightarrow> y \<in> set g \<Longrightarrow> f x = f y"
  by (auto simp: group_by_def)

lemma length_concat_filter_keys:
  "distinct ks \<Longrightarrow> f ` set xs \<subseteq> set ks \<Longrightarrow> length (concat (map (\<lambda>k. filter (\<lambda>x. f x = k) xs) ks)) = length xs"
proof (induction ks arbitrary: xs)
  case (Cons k ks)
  have e: "map (\<lambda>k'. filter (\<lambda>x. f x = k') xs) ks = map (\<lambda>k'. filter (\<lambda>x. f x = k') (filter (\<lambda>x. f x \<noteq> k) xs)) ks"
    using Cons.prems(1) by (intro map_cong refl) (auto intro!: filter_cong)
  have "length (concat (map (\<lambda>k'. filter (\<lambda>x. f x = k') (filter (\<lambda>x. f x \<noteq> k) xs)) ks)) = length (filter (\<lambda>x. f x \<noteq> k) xs)"
    using Cons.prems by (intro Cons.IH) auto
  then show ?case
    using sum_length_filter_compl [of "\<lambda>x. f x = k" xs] by (simp add: e)
qed auto

lemma length_concat_group_by [simp]: "length (concat (group_by f xs)) = length xs"
  unfolding group_by_def by (rule length_concat_filter_keys) auto

lemma mset_concat_filter_keys:
  "distinct ks \<Longrightarrow> mset (concat (map (\<lambda>k. filter (\<lambda>x. f x = k) xs) ks)) = filter_mset (\<lambda>x. f x \<in> set ks) (mset xs)"
proof (induction ks)
  case (Cons k ks)
  have "filter_mset (\<lambda>x. f x = k) (mset xs) + filter_mset (\<lambda>x. f x \<in> set ks) (mset xs) = filter_mset (\<lambda>x. f x = k \<or> f x \<in> set ks) (mset xs)"
    using Cons.prems by (induction xs) auto
  then show ?case using Cons by (simp add: mset_filter)
qed simp

end
