(* ===== verification/Circuit_Breaker.thy ===== *)
theory Circuit_Breaker
  imports Beacon_Prelude
begin

text \<open>
  The contract both circuit breakers of the program promise (the per-channel one of
  \<open>internal/notify/breaker.go\<close> and the store's one of \<open>internal/store/breaker.go\<close>), as a
  locale, and the facts a caller may rely on, proved once from the contract.

  A breaker is a state, a gate \<open>allow\<close> that may move it (an expired cooldown turns open
  into half-open), and the two outcome records. \<open>deadline\<close> is the first instant at which an
  open breaker admits a probe. Each operation runs under the breaker's mutex and takes the
  instant its clock shows.
\<close>

datatype BreakerState = StateClosed | StateOpen | StateHalfOpen

datatype breaker_op = Ask gtime | Failed gtime

fun op_time :: "breaker_op \<Rightarrow> gtime" where
  "op_time (Ask t) = t"
| "op_time (Failed t) = t"

text \<open>The answers a caller sees to a sequence of requests and failure reports.\<close>

primrec breaker_run ::
  "('b \<Rightarrow> gtime \<Rightarrow> bool \<times> 'b) \<Rightarrow> ('b \<Rightarrow> gtime \<Rightarrow> 'b) \<Rightarrow> 'b \<Rightarrow> breaker_op list \<Rightarrow> bool list \<times> 'b" where
  "breaker_run allow failed b [] = ([], b)"
| "breaker_run allow failed b (x # xs) =
     (case x of
        Ask t \<Rightarrow>
          (let r = breaker_run allow failed (snd (allow b t)) xs in (fst (allow b t) # fst r, snd r))
      | Failed t \<Rightarrow> breaker_run allow failed (failed b t) xs)"

locale circuit_breaker =
  fixes st :: "'b \<Rightarrow> BreakerState"
    and allow :: "'b \<Rightarrow> gtime \<Rightarrow> bool \<times> 'b"
    and succeeded :: "'b \<Rightarrow> gtime \<Rightarrow> 'b"
    and failed :: "'b \<Rightarrow> gtime \<Rightarrow> 'b"
    and deadline :: "'b \<Rightarrow> gtime"
    and good :: "'b \<Rightarrow> bool"
  assumes good_allow: "good b \<Longrightarrow> good (snd (allow b t))"
    and good_succeeded: "good b \<Longrightarrow> good (succeeded b t)"
    and good_failed: "good b \<Longrightarrow> good (failed b t)"
    and succeeded_closed: "st (succeeded b t) = StateClosed"
    and closed_allows: "st b = StateClosed \<Longrightarrow> allow b t = (True, b)"
    and open_rejects: "good b \<Longrightarrow> st b = StateOpen \<Longrightarrow> t < deadline b \<Longrightarrow> allow b t = (False, b)"
    and open_probes: "good b \<Longrightarrow> st b = StateOpen \<Longrightarrow> deadline b \<le> t \<Longrightarrow>
          fst (allow b t) \<and> st (snd (allow b t)) = StateHalfOpen"
    and probe_fails: "good b \<Longrightarrow> st b = StateHalfOpen \<Longrightarrow>
          st (failed b t) = StateOpen \<and> t < deadline (failed b t)"
    and open_fails: "st b = StateOpen \<Longrightarrow>
          st (failed b t) = StateOpen \<and> deadline (failed b t) = deadline b"
begin

lemma fail_fast:
  "good b \<Longrightarrow> st b = StateOpen \<Longrightarrow> \<forall>x \<in> set xs. op_time x < deadline b \<Longrightarrow>
   True \<notin> set (fst (breaker_run allow failed b xs)) \<and> st (snd (breaker_run allow failed b xs)) = StateOpen \<and>
   deadline (snd (breaker_run allow failed b xs)) = deadline b \<and> good (snd (breaker_run allow failed b xs))"
proof (induction xs arbitrary: b)
  case Nil
  then show ?case by simp
next
  case (Cons x xs)
  show ?case
  proof (cases x)
    case (Ask t)
    with Cons.prems have "allow b t = (False, b)"
      by (simp add: open_rejects)
    with Ask Cons show ?thesis
      by (simp add: Let_def)
  next
    case (Failed t)
    from Cons.prems(2) have "st (failed b t) = StateOpen" "deadline (failed b t) = deadline b"
      using open_fails by blast+
    with Failed Cons show ?thesis
      by (simp add: good_failed)
  qed
qed

lemma probe_cycle:
  assumes "good b" "st b = StateOpen" "deadline b \<le> t"
  shows "fst (allow b t)"
    and "st (failed (snd (allow b t)) t') = StateOpen"
    and "t'' < deadline (failed (snd (allow b t)) t') \<Longrightarrow>
         \<not> fst (allow (failed (snd (allow b t)) t') t'')"
    and "fst (allow (succeeded (snd (allow b t)) t') t'')"
proof -
  let ?h = "snd (allow b t)"
  from assms have p: "fst (allow b t)" "st ?h = StateHalfOpen" and g: "good ?h"
    using open_probes good_allow by blast+
  from g p(2) have o: "st (failed ?h t') = StateOpen"
    using probe_fails by blast
  show "fst (allow b t)" by (rule p(1))
  show "st (failed ?h t') = StateOpen" by (rule o)
  show "t'' < deadline (failed ?h t') \<Longrightarrow> \<not> fst (allow (failed ?h t') t'')"
    using g o by (simp add: open_rejects good_failed)
  show "fst (allow (succeeded ?h t') t'')"
    by (simp add: closed_allows succeeded_closed)
qed

end

end
