(* ===== verification/Store_Resilience.thy ===== *)
theory Store_Resilience
  imports Circuit_Breaker
begin

text \<open>
  \<open>internal/store/resilience.go\<close>, \<open>internal/store/breaker.go\<close> and the read path of
  \<open>internal/store/postgres.go\<close>: how a database error is classified, how a transient one is
  retried, when the health tracker reports an outage, and the circuit breaker in front of
  the database.

  A Go error is the chain \<open>errors.Unwrap\<close> walks, outermost first, with the message of the
  outermost error: \<open>errors.Is\<close> and \<open>errors.As\<close> search that chain. Two things are supplied by
  the environment and are arguments here: \<open>rnd x\<close>, the value of
  \<open>time.Duration(randFloat() * float64(x))\<close>, of which the code relies on
  \<open>0 \<le> rnd x \<le> x\<close> (\<open>rand.Float64\<close> is in \<open>[0,1)\<close>), and the caller's context.
\<close>

datatype err_node =
    ErrUnavailable
  | ContextCanceled
  | ContextDeadlineExceeded
  | PgError string
  | ConnectError
  | NetError
  | NetOpError
  | DNSError
  | SyscallError
  | OtherError

record goerr =
  err_chain :: "err_node list"
  err_msg :: string

datatype failureKind = failurePermanent | failureTransient | failureUnavailable

definition transientMessages :: "string list" where
  "transientMessages =
     [''conn closed'', ''closed pool'', ''connection refused'', ''connection reset by peer'',
      ''broken pipe'', ''no such host'', ''i/o timeout'',
      ''server closed the connection unexpectedly'', ''unexpected eof'', ''failed to connect'',
      ''the database system is starting up'', ''the database system is in recovery mode'',
      ''too many connections'', ''too many clients'', ''cannot connect now'',
      ''terminating connection due to administrator command'']"

definition isTransientMessage :: "string \<Rightarrow> bool" where
  "isTransientMessage msg = list_ex (str_contains (to_lower msg)) transientMessages"

definition classifySQLState :: "string \<Rightarrow> failureKind" where
  "classifySQLState code =
     (if has_prefix code ''08'' then failureUnavailable
      else if code \<in> set [''40001'', ''40P01'', ''55006''] then failureTransient
      else if code \<in> set [''57P01'', ''57P02'', ''57P03'', ''53300''] then failureUnavailable
      else if code = ''57P04'' then failurePermanent
      else failurePermanent)"

fun as_PgError :: "err_node list \<Rightarrow> string option" where
  "as_PgError [] = None"
| "as_PgError (PgError code # _) = Some code"
| "as_PgError (_ # es) = as_PgError es"

definition classify :: "goerr option \<Rightarrow> failureKind" where
  "classify err =
     (case err of
        None \<Rightarrow> failurePermanent
      | Some e \<Rightarrow>
          if ErrUnavailable \<in> set (err_chain e) then failureUnavailable
          else if ContextCanceled \<in> set (err_chain e) \<or> ContextDeadlineExceeded \<in> set (err_chain e)
          then failurePermanent
          else
            (case as_PgError (err_chain e) of
               Some code \<Rightarrow> classifySQLState code
             | None \<Rightarrow>
                 if ConnectError \<in> set (err_chain e) then failureUnavailable
                 else if NetError \<in> set (err_chain e) then failureUnavailable
                 else if NetOpError \<in> set (err_chain e) then failureUnavailable
                 else if DNSError \<in> set (err_chain e) then failureUnavailable
                 else if SyscallError \<in> set (err_chain e) then failureUnavailable
                 else if isTransientMessage (err_msg e) then failureUnavailable
                 else failurePermanent))"

definition errUnavailable :: goerr where
  "errUnavailable = \<lparr>err_chain = [ErrUnavailable], err_msg = ''database unavailable''\<rparr>"

definition IsRetryable :: "goerr option \<Rightarrow> bool" where
  "IsRetryable err \<longleftrightarrow> classify err \<noteq> failurePermanent"

definition IsUnavailable :: "goerr option \<Rightarrow> bool" where
  "IsUnavailable err \<longleftrightarrow> classify err = failureUnavailable"

subsection \<open>Retry policy\<close>

record retry_policy =
  rp_Attempts :: int
  rp_Base :: duration
  rp_Max :: duration
  rp_Jitter :: bool

definition DefaultConnectAttempts :: int where "DefaultConnectAttempts = 5"
definition DefaultConnectDelay :: duration where "DefaultConnectDelay = 2 * second"
definition MaxConnectDelay :: duration where "MaxConnectDelay = 30 * second"
definition DefaultReadAttempts :: int where "DefaultReadAttempts = 3"
definition DefaultReadDelay :: duration where "DefaultReadDelay = 200 * millisecond"
definition MaxReadDelay :: duration where "MaxReadDelay = 2 * second"

lemmas retry_const_defs = DefaultConnectAttempts_def DefaultConnectDelay_def MaxConnectDelay_def
  DefaultReadAttempts_def DefaultReadDelay_def MaxReadDelay_def

definition ConnectPolicy :: "int \<Rightarrow> duration \<Rightarrow> retry_policy" where
  "ConnectPolicy attempts delay =
     \<lparr>rp_Attempts = (if attempts \<le> 0 then DefaultConnectAttempts else attempts),
      rp_Base = (if delay \<le> 0 then DefaultConnectDelay else delay),
      rp_Max = MaxConnectDelay, rp_Jitter = True\<rparr>"

definition ReadPolicy :: retry_policy where
  "ReadPolicy = \<lparr>rp_Attempts = DefaultReadAttempts, rp_Base = DefaultReadDelay,
                 rp_Max = MaxReadDelay, rp_Jitter = True\<rparr>"

definition jitter :: "duration \<Rightarrow> (duration \<Rightarrow> duration) \<Rightarrow> duration" where
  "jitter d rnd =
     (if d \<le> 0 then 0
      else let half = d div 2 in if half \<le> 0 then d else half + rnd (d - half))"

text \<open>The doubling loop of \<open>delay\<close>: \<open>n\<close> is the number of iterations left.\<close>

fun delay_loop :: "nat \<Rightarrow> duration \<Rightarrow> duration \<Rightarrow> duration" where
  "delay_loop 0 mx d = d"
| "delay_loop (Suc n) mx d =
     (let d' = wrap64 (d * 2) in if 0 < mx \<and> mx \<le> d' then mx else delay_loop n mx d')"

definition policy_delay :: "retry_policy \<Rightarrow> (duration \<Rightarrow> duration) \<Rightarrow> nat \<Rightarrow> duration" where
  "policy_delay p rnd attempt =
     (if rp_Base p \<le> 0 then 0
      else
        let d = delay_loop attempt (rp_Max p) (rp_Base p);
            d = (if 0 < rp_Max p \<and> rp_Max p < d then rp_Max p else d)
        in if rp_Jitter p then jitter d rnd else d)"

text \<open>
  \<open>Do\<close>: \<open>fn\<close> runs one attempt on the caller's state; \<open>ctxErr i\<close> is \<open>ctx.Err()\<close> before attempt
  \<open>i\<close> and \<open>waitErr i d\<close> the outcome of sleeping \<open>d\<close> after it. The result pairs the returned
  error with the final state and the delays slept, oldest first.
\<close>

fun do_loop ::
  "retry_policy \<Rightarrow> (nat \<Rightarrow> duration \<Rightarrow> duration) \<Rightarrow> (nat \<Rightarrow> goerr option) \<Rightarrow>
   (nat \<Rightarrow> duration \<Rightarrow> goerr option) \<Rightarrow> ('s \<Rightarrow> goerr option \<times> 's) \<Rightarrow>
   nat \<Rightarrow> nat \<Rightarrow> goerr option \<Rightarrow> 's \<Rightarrow> goerr option \<times> 's \<times> duration list" where
  "do_loop p rnd ctxErr waitErr fn 0 attempt err s = (err, s, [])"
| "do_loop p rnd ctxErr waitErr fn (Suc left) attempt err s =
     (case ctxErr attempt of
        Some e \<Rightarrow> (Some e, s, [])
      | None \<Rightarrow>
          (case fn s of (err', s') \<Rightarrow>
             (case err' of
                None \<Rightarrow> (None, s', [])
              | Some e \<Rightarrow>
                  if \<not> IsRetryable (Some e) then (Some e, s', [])
                  else if left = 0 then (Some e, s', [])
                  else
                    let d = policy_delay p (rnd attempt) attempt in
                    (case waitErr attempt d of
                       Some w \<Rightarrow> (Some w, s', [d])
                     | None \<Rightarrow>
                         (case do_loop p rnd ctxErr waitErr fn left (Suc attempt) (Some e) s' of
                            (r, s'', ds) \<Rightarrow> (r, s'', d # ds))))))"

definition policy_Do ::
  "retry_policy \<Rightarrow> (nat \<Rightarrow> duration \<Rightarrow> duration) \<Rightarrow> (nat \<Rightarrow> goerr option) \<Rightarrow>
   (nat \<Rightarrow> duration \<Rightarrow> goerr option) \<Rightarrow> ('s \<Rightarrow> goerr option \<times> 's) \<Rightarrow> 's \<Rightarrow>
   goerr option \<times> 's \<times> duration list" where
  "policy_Do p rnd ctxErr waitErr fn s =
     do_loop p rnd ctxErr waitErr fn (nat (if rp_Attempts p < 1 then 1 else rp_Attempts p)) 0 None s"

subsection \<open>Outage tracking\<close>

datatype health_log = LogUnavailable gtime | LogReachableAgain duration

record database_health =
  dh_degraded :: bool
  dh_since :: gtime
  dh_log :: "health_log list"

definition NewDatabaseHealth :: database_health where
  "NewDatabaseHealth = \<lparr>dh_degraded = False, dh_since = 0, dh_log = []\<rparr>"

definition health_Observe :: "database_health \<Rightarrow> goerr option \<Rightarrow> gtime \<Rightarrow> database_health" where
  "health_Observe h err now =
     (if err \<noteq> None \<and> IsUnavailable err then
        (if dh_degraded h then h
         else h\<lparr>dh_degraded := True, dh_since := now, dh_log := dh_log h @ [LogUnavailable now]\<rparr>)
      else if err = None then
        (if \<not> dh_degraded h then h
         else h\<lparr>dh_degraded := False, dh_since := 0,
                dh_log := dh_log h @ [LogReachableAgain (time_sub now (dh_since h))]\<rparr>)
      else h)"

subsection \<open>The store's circuit breaker\<close>

record store_breaker =
  sb_state :: BreakerState
  sb_consecutiveFails :: int
  sb_consecutiveLimit :: int
  sb_baseCooldown :: duration
  sb_currentCooldown :: duration
  sb_maxCooldown :: duration
  sb_lastStateChange :: gtime
  sb_probeInFlight :: bool

definition NewStoreBreaker :: "int \<Rightarrow> duration \<Rightarrow> gtime \<Rightarrow> store_breaker" where
  "NewStoreBreaker consecutiveLimit cooldown now =
     (let cd = (if cooldown \<le> 0 then 5 * second else cooldown) in
      \<lparr>sb_state = StateClosed, sb_consecutiveFails = 0,
       sb_consecutiveLimit = (if consecutiveLimit \<le> 0 then 3 else consecutiveLimit),
       sb_baseCooldown = cd, sb_currentCooldown = cd, sb_maxCooldown = 60 * second,
       sb_lastStateChange = now, sb_probeInFlight = False\<rparr>)"

definition sb_tripLocked :: "(duration \<Rightarrow> duration) \<Rightarrow> gtime \<Rightarrow> store_breaker \<Rightarrow> store_breaker" where
  "sb_tripLocked rnd now b =
     b\<lparr>sb_state := StateOpen, sb_lastStateChange := now,
       sb_currentCooldown := jitter (sb_currentCooldown b) rnd\<rparr>"

definition sb_checkTransitionLocked :: "gtime \<Rightarrow> store_breaker \<Rightarrow> store_breaker" where
  "sb_checkTransitionLocked now b =
     (if sb_state b = StateOpen \<and> sb_currentCooldown b \<le> time_sub now (sb_lastStateChange b)
      then b\<lparr>sb_state := StateHalfOpen, sb_lastStateChange := now, sb_probeInFlight := False\<rparr>
      else b)"

definition sb_State :: "store_breaker \<Rightarrow> gtime \<Rightarrow> BreakerState \<times> store_breaker" where
  "sb_State b now = (let b' = sb_checkTransitionLocked now b in (sb_state b', b'))"

definition sb_Degraded :: "store_breaker \<Rightarrow> gtime \<Rightarrow> bool \<times> store_breaker" where
  "sb_Degraded b now = (case sb_State b now of (s, b') \<Rightarrow> (s \<noteq> StateClosed, b'))"

definition sb_Allow :: "store_breaker \<Rightarrow> gtime \<Rightarrow> bool \<times> store_breaker" where
  "sb_Allow b now =
     (let b' = sb_checkTransitionLocked now b in
      case sb_state b' of
        StateClosed \<Rightarrow> (True, b')
      | StateHalfOpen \<Rightarrow>
          if \<not> sb_probeInFlight b' then (True, b'\<lparr>sb_probeInFlight := True\<rparr>) else (False, b')
      | StateOpen \<Rightarrow> (False, b'))"

definition sb_RemainingCooldown :: "store_breaker \<Rightarrow> gtime \<Rightarrow> duration" where
  "sb_RemainingCooldown b now =
     (if sb_state b \<noteq> StateOpen then 0
      else let elapsed = time_sub now (sb_lastStateChange b)
           in if sb_currentCooldown b \<le> elapsed then 0 else sb_currentCooldown b - elapsed)"

definition sb_RecordSuccess :: "store_breaker \<Rightarrow> gtime \<Rightarrow> store_breaker" where
  "sb_RecordSuccess b now =
     b\<lparr>sb_state := StateClosed, sb_consecutiveFails := 0, sb_currentCooldown := sb_baseCooldown b,
       sb_probeInFlight := False, sb_lastStateChange := now\<rparr>"

definition sb_RecordFailure ::
  "(duration \<Rightarrow> duration) \<Rightarrow> goerr option \<Rightarrow> store_breaker \<Rightarrow> gtime \<Rightarrow> store_breaker" where
  "sb_RecordFailure rnd err b now =
     (if err = None \<or> (\<not> IsUnavailable err \<and> err \<noteq> Some errUnavailable) then b
      else
        let b1 = b\<lparr>sb_probeInFlight := False, sb_consecutiveFails := sb_consecutiveFails b + 1\<rparr> in
        case sb_state b1 of
          StateClosed \<Rightarrow>
            if sb_consecutiveLimit b1 \<le> sb_consecutiveFails b1 then sb_tripLocked rnd now b1 else b1
        | StateHalfOpen \<Rightarrow>
            (let nxt = wrap64 (sb_currentCooldown b1 * 2);
                 nxt = (if sb_maxCooldown b1 < nxt then sb_maxCooldown b1 else nxt)
             in sb_tripLocked rnd now (b1\<lparr>sb_currentCooldown := nxt\<rparr>))
        | StateOpen \<Rightarrow> b1)"

subsection \<open>The guarded read of the Postgres store\<close>

record postgres =
  pg_health :: database_health
  pg_breaker :: store_breaker
  pg_retry :: retry_policy

definition pg_observe ::
  "(duration \<Rightarrow> duration) \<Rightarrow> gtime \<Rightarrow> goerr option \<Rightarrow> postgres \<Rightarrow> postgres" where
  "pg_observe rnd now err p =
     p\<lparr>pg_health := health_Observe (pg_health p) err now,
       pg_breaker := (case err of
          None \<Rightarrow> sb_RecordSuccess (pg_breaker p) now
        | Some _ \<Rightarrow> sb_RecordFailure rnd err (pg_breaker p) now)\<rparr>"

definition pg_Ping ::
  "(duration \<Rightarrow> duration) \<Rightarrow> gtime \<Rightarrow> goerr option \<Rightarrow> postgres \<Rightarrow> goerr option \<times> postgres" where
  "pg_Ping rnd now err p = (err, pg_observe rnd now err p)"

definition pg_Degraded :: "gtime \<Rightarrow> postgres \<Rightarrow> bool \<times> postgres" where
  "pg_Degraded now p =
     (if dh_degraded (pg_health p) then (True, p)
      else case sb_Degraded (pg_breaker p) now of (d, b) \<Rightarrow> (d, p\<lparr>pg_breaker := b\<rparr>))"

text \<open>
  \<open>read\<close>: the gate first, then the retried operation with every attempt observed. \<open>fn\<close> maps
  the database's own state to an outcome; the clock shows \<open>now\<close> throughout.
\<close>

definition pg_read ::
  "(nat \<Rightarrow> duration \<Rightarrow> duration) \<Rightarrow> (duration \<Rightarrow> duration) \<Rightarrow> (nat \<Rightarrow> goerr option) \<Rightarrow>
   (nat \<Rightarrow> duration \<Rightarrow> goerr option) \<Rightarrow> gtime \<Rightarrow> ('d \<Rightarrow> goerr option \<times> 'd) \<Rightarrow>
   postgres \<Rightarrow> 'd \<Rightarrow> goerr option \<times> postgres \<times> 'd" where
  "pg_read rndDelay rnd ctxErr waitErr now fn p db =
     (case sb_Allow (pg_breaker p) now of (ok, b) \<Rightarrow>
        let p1 = p\<lparr>pg_breaker := b\<rparr> in
        if \<not> ok then (Some errUnavailable, p1, db)
        else
          (case policy_Do (pg_retry p1) rndDelay ctxErr waitErr
                  (\<lambda>(q, d). case fn d of (err, d') \<Rightarrow> (err, (pg_observe rnd now err q, d'))) (p1, db)
           of (err, (p2, db'), _) \<Rightarrow> (err, p2, db')))"

subsection \<open>Classification\<close>

lemma IsUnavailable_sentinel [simp]: "IsUnavailable (Some errUnavailable)"
  by (simp add: IsUnavailable_def classify_def errUnavailable_def)

lemma IsRetryable_None [simp]: "\<not> IsRetryable None"
  by (simp add: IsRetryable_def classify_def)

lemma unavailable_retryable: "IsUnavailable err \<Longrightarrow> IsRetryable err"
  by (simp add: IsUnavailable_def IsRetryable_def)

subsection \<open>Delays\<close>

definition draws :: "(duration \<Rightarrow> duration) \<Rightarrow> bool" where
  "draws rnd \<longleftrightarrow> (\<forall>x \<ge> 0. 0 \<le> rnd x \<and> rnd x \<le> x)"

lemma jitter_bounds:
  assumes "draws rnd" and "0 < d"
  shows "d div 2 \<le> jitter d rnd" and "jitter d rnd \<le> d" and "0 < jitter d rnd"
proof -
  have r: "0 \<le> rnd (d - d div 2)" "rnd (d - d div 2) \<le> d - d div 2"
    using assms by (auto simp: draws_def)
  have j: "jitter d rnd = (if d div 2 \<le> 0 then d else d div 2 + rnd (d - d div 2))"
    using assms(2) by (simp add: jitter_def Let_def)
  have h: "d div 2 \<le> d"
    using assms(2) by simp
  show "d div 2 \<le> jitter d rnd" and "jitter d rnd \<le> d" and "0 < jitter d rnd"
    using r h assms(2) unfolding j by (auto split: if_splits)
qed

lemma delay_loop_closed:
  "0 < d \<Longrightarrow> 0 < mx \<Longrightarrow> d \<le> mx \<Longrightarrow> mx \<le> max_i64 div 2 \<Longrightarrow> delay_loop n mx d = min (d * 2 ^ n) mx"
proof (induction n arbitrary: d)
  case 0
  then show ?case by simp
next
  case (Suc n)
  then have w: "wrap64 (d * 2) = d * 2"
    by (simp add: wrap64_id i64_defs)
  show ?case
  proof (cases "mx \<le> d * 2")
    case True
    have "d * 2 \<le> d * (2 * 2 ^ n)"
      using Suc.prems(1) by simp
    with True have "mx \<le> d * (2 * 2 ^ n)" by linarith
    with True Suc.prems(2) show ?thesis
      by (simp add: w Let_def min_absorb2)
  next
    case False
    with Suc show ?thesis
      by (simp add: w Let_def mult.assoc)
  qed
qed

subsection \<open>The retry loop on a script of outcomes\<close>

text \<open>An operation that plays back a list of outcomes.\<close>

fun play :: "goerr option list \<Rightarrow> goerr option \<times> goerr option list" where
  "play [] = (None, [])"
| "play (x # xs) = (x, xs)"

lemma do_loop_play:
  "0 < left \<Longrightarrow> left \<le> length os \<Longrightarrow>
   (let j = min (length (takeWhile IsRetryable os)) (left - 1) in
    do_loop p rnd (\<lambda>_. None) (\<lambda>_ _. None) play left a e os =
      (os ! j, drop (Suc j) os, map (\<lambda>i. policy_delay p (rnd i) i) [a..<a + j]))"
proof (induction left arbitrary: a e os)
  case 0
  then show ?case by simp
next
  case (Suc left)
  then obtain x xs where os: "os = x # xs" by (cases os) auto
  show ?case
  proof (cases "IsRetryable x \<and> left \<noteq> 0")
    case True
    then obtain er where x: "x = Some er" by (cases x) auto
    from True Suc.prems os have l: "0 < left" "left \<le> length xs" by auto
    define j where "j = min (length (takeWhile IsRetryable xs)) (left - 1)"
    have IH: "do_loop p rnd (\<lambda>_. None) (\<lambda>_ _. None) play left (Suc a) (Some er) xs =
        (xs ! j, drop (Suc j) xs, map (\<lambda>i. policy_delay p (rnd i) i) [Suc a..<Suc a + j])"
      using Suc.IH [OF l, of "Suc a" "Some er"] by (simp add: j_def Let_def)
    have m: "min (length (takeWhile IsRetryable os)) (Suc left - 1) = Suc j"
      using True l os by (auto simp: j_def min_def)
    have u: "[a..<a + Suc j] = a # [Suc a..<Suc a + j]"
      by (simp add: upt_conv_Cons)
    show ?thesis
      unfolding m Let_def using True IH os x u by (simp add: Let_def)
  next
    case False
    then have m: "min (length (takeWhile IsRetryable os)) (Suc left - 1) = 0"
      using os by auto
    show ?thesis
      unfolding m Let_def using False os by (cases x) (auto simp: Let_def)
  qed
qed

subsection \<open>Invariant of the store breaker\<close>

definition sb_good :: "store_breaker \<Rightarrow> bool" where
  "sb_good b \<longleftrightarrow> 0 < sb_consecutiveLimit b \<and>
     0 < sb_baseCooldown b \<and> sb_baseCooldown b \<le> max_i64 div 2 \<and>
     0 < sb_currentCooldown b \<and> sb_currentCooldown b \<le> max_i64 div 2 \<and>
     0 < sb_maxCooldown b \<and> sb_maxCooldown b \<le> max_i64 div 2 \<and>
     (sb_state b \<noteq> StateHalfOpen \<longrightarrow> \<not> sb_probeInFlight b)"

definition sb_deadline :: "store_breaker \<Rightarrow> gtime" where
  "sb_deadline b = sb_lastStateChange b + sb_currentCooldown b"

lemma sb_expired:
  "sb_good b \<Longrightarrow> sb_currentCooldown b \<le> time_sub t (sb_lastStateChange b) \<longleftrightarrow> sb_deadline b \<le> t"
  by (auto simp: sb_good_def sb_deadline_def time_sub_ge i64_defs)

lemma sb_double:
  "sb_good b \<Longrightarrow> wrap64 (sb_currentCooldown b * 2) = sb_currentCooldown b * 2"
  by (simp add: sb_good_def wrap64_id i64_defs)

lemma NewStoreBreaker_good: "cooldown \<le> max_i64 div 2 \<Longrightarrow> sb_good (NewStoreBreaker n cooldown now)"
  by (auto simp: NewStoreBreaker_def sb_good_def Let_def second_def max_i64_def)

lemma sb_check_good: "sb_good b \<Longrightarrow> sb_good (sb_checkTransitionLocked t b)"
  by (auto simp: sb_checkTransitionLocked_def sb_good_def)

lemma sb_Allow_good: "sb_good b \<Longrightarrow> sb_good (snd (sb_Allow b t))"
  using sb_check_good [of b t]
  by (auto simp: sb_Allow_def Let_def sb_good_def split: BreakerState.splits)

lemma sb_trip_good:
  "draws rnd \<Longrightarrow> sb_good b \<Longrightarrow> \<not> sb_probeInFlight b \<Longrightarrow> sb_good (sb_tripLocked rnd t b)"
  using jitter_bounds [of rnd "sb_currentCooldown b"] by (auto simp: sb_tripLocked_def sb_good_def)

lemma sb_RecordFailure_good: "draws rnd \<Longrightarrow> sb_good b \<Longrightarrow> sb_good (sb_RecordFailure rnd e b t)"
  unfolding sb_RecordFailure_def Let_def
  by (auto split: BreakerState.splits intro!: sb_trip_good simp: sb_double)
     (auto simp: sb_good_def sb_double)

lemma sb_RecordSuccess_good: "sb_good b \<Longrightarrow> sb_good (sb_RecordSuccess b t)"
  by (simp add: sb_good_def sb_RecordSuccess_def)

lemma sb_RecordFailure_ignored:
  "\<not> IsUnavailable err \<Longrightarrow> sb_RecordFailure rnd err b t = b"
  by (auto simp: sb_RecordFailure_def)

text \<open>A failed probe: the cooldown doubles up to the cap and is then jittered.\<close>

lemma sb_probe_failure:
  fixes t :: gtime
  assumes "draws rnd" "sb_good b" "sb_state b = StateHalfOpen" "IsUnavailable (Some e)"
  defines "b' \<equiv> sb_RecordFailure rnd (Some e) b t"
  shows "sb_state b' = StateOpen" "sb_lastStateChange b' = t" "\<not> sb_probeInFlight b'"
    and "min (sb_currentCooldown b) (sb_maxCooldown b div 2) \<le> sb_currentCooldown b'"
    and "sb_currentCooldown b' \<le> sb_maxCooldown b" "0 < sb_currentCooldown b'"
proof -
  define nxt where "nxt = min (sb_currentCooldown b * 2) (sb_maxCooldown b)"
  have n: "0 < nxt" "nxt \<le> sb_maxCooldown b"
    using assms(2) by (auto simp: nxt_def sb_good_def)
  have b': "b' = b\<lparr>sb_probeInFlight := False, sb_consecutiveFails := sb_consecutiveFails b + 1,
      sb_state := StateOpen, sb_lastStateChange := t, sb_currentCooldown := jitter nxt rnd\<rparr>"
    using assms(3,4) sb_double [OF assms(2)]
    by (auto simp: b'_def sb_RecordFailure_def sb_tripLocked_def nxt_def min_def)
  show "sb_state b' = StateOpen" "sb_lastStateChange b' = t" "\<not> sb_probeInFlight b'"
    by (simp_all add: b')
  show "min (sb_currentCooldown b) (sb_maxCooldown b div 2) \<le> sb_currentCooldown b'"
    using jitter_bounds(1) [OF assms(1) n(1)] by (auto simp: b' nxt_def min_def split: if_splits)
  show "sb_currentCooldown b' \<le> sb_maxCooldown b" "0 < sb_currentCooldown b'"
    using jitter_bounds(2,3) [OF assms(1) n(1)] n(2) by (simp_all add: b')
qed

subsection \<open>The store breaker meets the circuit-breaker contract\<close>

text \<open>The random draws as a type, so that the contract holds for every one of them.\<close>

typedef rand_draw = "{rnd. draws rnd}"
  morphisms draw Abs_rand_draw
  by (rule exI [of _ "\<lambda>x. x"]) (simp add: draws_def)

lemma draws_draw [simp]: "draws (draw r)"
  using draw [of r] by simp

interpretation stb: circuit_breaker sb_state sb_Allow sb_RecordSuccess
  "sb_RecordFailure (draw r) (Some errUnavailable)" sb_deadline sb_good for r
proof (unfold_locales, goal_cases)
  case (1 b t)
  then show ?case by (rule sb_Allow_good)
next
  case (2 b t)
  then show ?case by (rule sb_RecordSuccess_good)
next
  case (3 b t)
  then show ?case by (intro sb_RecordFailure_good) simp_all
next
  case (4 b t)
  show ?case by (simp add: sb_RecordSuccess_def)
next
  case (5 b t)
  then show ?case by (simp add: sb_Allow_def sb_checkTransitionLocked_def)
next
  case (6 b t)
  then show ?case
    using sb_expired [of b t] by (simp add: sb_Allow_def sb_checkTransitionLocked_def)
next
  case (7 b t)
  then show ?case
    using sb_expired [of b t] by (auto simp: sb_Allow_def sb_checkTransitionLocked_def Let_def)
next
  case (8 b t)
  then show ?case
    using sb_probe_failure [of "draw r" b errUnavailable t] by (simp add: sb_deadline_def)
next
  case (9 b t)
  then show ?case by (simp add: sb_RecordFailure_def sb_deadline_def)
qed

subsection \<open>Outage log\<close>

text \<open>
  Replays a log: each outage line must come from the reachable state and each recovery line
  from the degraded one; the result is the state the log ends in.
\<close>

primrec log_replay :: "bool \<Rightarrow> health_log list \<Rightarrow> bool option" where
  "log_replay d [] = Some d"
| "log_replay d (x # xs) =
     (case x of
        LogUnavailable _ \<Rightarrow> if d then None else log_replay True xs
      | LogReachableAgain _ \<Rightarrow> if d then log_replay False xs else None)"

lemma log_replay_append:
  "log_replay d (xs @ ys) = Option.bind (log_replay d xs) (\<lambda>d'. log_replay d' ys)"
  by (induction xs arbitrary: d) (auto split: health_log.splits)

lemma health_Observe_replay:
  "log_replay False (dh_log h) = Some (dh_degraded h) \<Longrightarrow>
   log_replay False (dh_log (health_Observe h e t)) = Some (dh_degraded (health_Observe h e t))"
  by (simp add: health_Observe_def log_replay_append)

lemma sb_half_open_run:
  "sb_state b = StateHalfOpen \<Longrightarrow> sb_probeInFlight b \<Longrightarrow>
   breaker_run sb_Allow f b (map Ask ts) = (map (\<lambda>_. False) ts, b)"
  by (induction ts) (simp_all add: sb_Allow_def sb_checkTransitionLocked_def)

lemma policy_Do_settles_at_once:
  assumes "fn s = (r, s')" "\<not> IsRetryable r"
  shows "policy_Do p rnd (\<lambda>_. None) waitErr fn s = (r, s', [])"
proof -
  obtain k where k: "nat (if rp_Attempts p < 1 then 1 else rp_Attempts p) = Suc k"
    by (cases "nat (if rp_Attempts p < 1 then 1 else rp_Attempts p)") (auto split: if_splits)
  show ?thesis
    unfolding policy_Do_def k using assms by (cases r) simp_all
qed

lemma pg_read_refused:
  assumes "sb_state (pg_breaker p) = StateHalfOpen" "sb_probeInFlight (pg_breaker p)"
  shows "pg_read rndDelay rnd ctxErr waitErr now fn p db = (Some errUnavailable, p, db)"
  using assms by (simp add: pg_read_def sb_Allow_def sb_checkTransitionLocked_def)

subsection \<open>Properties\<close>

text \<open>
  The wait before a retry is the exponential backoff the policy describes: without
  jitter it is \<open>Base * 2^attempt\<close> capped at \<open>Max\<close>, with no 64-bit overflow however many
  attempts are made, and jitter keeps it within the upper half of that value.
\<close>

theorem retry_delay_is_capped_backoff:
  assumes "0 < rp_Base p" and "rp_Base p \<le> rp_Max p" and "rp_Max p \<le> max_i64 div 2"
    and "draws rnd"
  shows "let d = min (rp_Base p * 2 ^ attempt) (rp_Max p) in
         policy_delay p rnd attempt = (if rp_Jitter p then jitter d rnd else d) \<and>
         d div 2 \<le> policy_delay p rnd attempt \<and> policy_delay p rnd attempt \<le> d"
proof -
  define d where "d = min (rp_Base p * 2 ^ attempt) (rp_Max p)"
  have "delay_loop attempt (rp_Max p) (rp_Base p) = d"
    unfolding d_def using assms(1-3) by (intro delay_loop_closed) simp_all
  then have pd: "policy_delay p rnd attempt = (if rp_Jitter p then jitter d rnd else d)"
    using assms(1) by (simp add: policy_delay_def Let_def d_def)
  have "0 < d"
    using assms(1,2) by (simp add: d_def)
  moreover from this have "d div 2 \<le> d"
    by linarith
  ultimately have "0 < d" "d div 2 \<le> d"
    by simp_all
  with jitter_bounds [OF assms(4)] have "d div 2 \<le> policy_delay p rnd attempt"
    "policy_delay p rnd attempt \<le> d"
    by (simp_all add: pd)
  with pd show ?thesis
    by (simp add: Let_def d_def)
qed

theorem retry_delay_is_capped_backoff_witness:
  "policy_delay (ReadPolicy\<lparr>rp_Jitter := False\<rparr>) (\<lambda>x. x) 1 = 400 * millisecond \<and>
   policy_delay (ReadPolicy\<lparr>rp_Jitter := False\<rparr>) (\<lambda>x. x) 70 = 2 * second"
proof -
  let ?p = "ReadPolicy\<lparr>rp_Jitter := False\<rparr>"
  have h: "0 < rp_Base ?p" "rp_Base ?p \<le> rp_Max ?p" "rp_Max ?p \<le> max_i64 div 2"
    "draws (\<lambda>x. x)"
    by (simp_all add: ReadPolicy_def retry_const_defs duration_defs max_i64_def draws_def)
  show ?thesis
    using retry_delay_is_capped_backoff [OF h, of 1] retry_delay_is_capped_backoff [OF h, of 70]
    by (simp add: Let_def ReadPolicy_def retry_const_defs duration_defs)
qed

text \<open>
  C37. \<open>RetryPolicy.Do\<close> runs the operation until its first outcome that is not a retryable
  error, and at most \<open>Attempts\<close> times (at least once): it consumes exactly that prefix of the
  outcomes, returns the last one consumed, and sleeps one policy delay between two attempts.
\<close>

theorem policy_Do_runs_until_settled:
  assumes "n = nat (max 1 (rp_Attempts p))" and "n \<le> length os"
  shows "let j = min (length (takeWhile IsRetryable os)) (n - 1) in
         policy_Do p rnd (\<lambda>_. None) (\<lambda>_ _. None) play os =
           (os ! j, drop (Suc j) os, map (\<lambda>i. policy_delay p (rnd i) i) [0..<j])"
proof -
  have n: "nat (if rp_Attempts p < 1 then 1 else rp_Attempts p) = n" "0 < n"
    using assms(1) by auto
  show ?thesis
    using do_loop_play [OF n(2) assms(2), of p rnd 0 None] by (simp add: policy_Do_def n(1))
qed

definition dbDown :: goerr where
  "dbDown = \<lparr>err_chain = [NetOpError], err_msg = ''dial tcp: connection refused''\<rparr>"
definition dbConstraint :: goerr where
  "dbConstraint = \<lparr>err_chain = [PgError ''23505''], err_msg = ''duplicate key''\<rparr>"

lemma dbDown_retryable [simp]: "IsRetryable (Some dbDown)" "IsUnavailable (Some dbDown)"
  by (simp_all add: IsRetryable_def IsUnavailable_def classify_def dbDown_def)

lemma dbConstraint_permanent [simp]:
  "\<not> IsRetryable (Some dbConstraint)" "\<not> IsUnavailable (Some dbConstraint)"
  by (simp_all add: IsRetryable_def IsUnavailable_def classify_def dbConstraint_def
      classifySQLState_def)

theorem policy_Do_runs_until_settled_witness:
  "policy_Do (ReadPolicy\<lparr>rp_Jitter := False\<rparr>) (\<lambda>_ x. x) (\<lambda>_. None) (\<lambda>_ _. None) play
     [Some dbDown, Some dbConstraint, None] =
   (Some dbConstraint, [None], [200 * millisecond])"
proof -
  let ?p = "ReadPolicy\<lparr>rp_Jitter := False\<rparr>" and ?os = "[Some dbDown, Some dbConstraint, None]"
  have h: "3 = nat (max 1 (rp_Attempts ?p))" "3 \<le> length ?os"
    by (simp_all add: ReadPolicy_def retry_const_defs)
  show ?thesis
    using policy_Do_runs_until_settled [OF h, of "\<lambda>_ x. x"]
    by (simp add: Let_def policy_delay_def ReadPolicy_def retry_const_defs duration_defs)
qed

text \<open>
  The health tracker logs every outage exactly once and every recovery exactly once:
  for any sequence of operation outcomes its log alternates outage and recovery lines,
  starting with an outage, and the tracker is degraded exactly when the last line is an
  outage.
\<close>

theorem database_health_logs_alternate:
  "let h = fold (\<lambda>(e, t) h. health_Observe h e t) obs NewDatabaseHealth in
   log_replay False (dh_log h) = Some (dh_degraded h)"
proof -
  have "log_replay False (dh_log h) = Some (dh_degraded h) \<Longrightarrow>
        log_replay False (dh_log (fold (\<lambda>(e, t) h. health_Observe h e t) obs h)) =
        Some (dh_degraded (fold (\<lambda>(e, t) h. health_Observe h e t) obs h))" for h
    by (induction obs arbitrary: h) (auto simp: health_Observe_replay)
  then show ?thesis
    by (simp add: Let_def NewDatabaseHealth_def)
qed

text \<open>
  After the store breaker's cooldown exactly one probe reaches the database: the first
  request is admitted, and every further request is refused, at whatever time it comes, until
  the probe's outcome is recorded.
\<close>

theorem store_breaker_single_probe:
  assumes "sb_good b" and "sb_state b = StateOpen" and "sb_deadline b \<le> t"
  shows "fst (sb_Allow b t) \<and>
         (\<forall>ts. True \<notin> set (fst (breaker_run sb_Allow f (snd (sb_Allow b t)) (map Ask ts))))"
proof -
  have "sb_Allow b t = (True, b\<lparr>sb_state := StateHalfOpen, sb_lastStateChange := t,
      sb_probeInFlight := True\<rparr>)"
    using assms sb_expired [OF assms(1), of t]
    by (simp add: sb_Allow_def sb_checkTransitionLocked_def Let_def)
  then show ?thesis
    by (auto simp: sb_half_open_run)
qed

theorem store_breaker_single_probe_witness:
  "let b = sb_tripLocked (\<lambda>x. x) 10 (NewStoreBreaker 3 (5 * second) 0) in
   fst (sb_Allow b (10 + 5 * second)) \<and>
   \<not> fst (sb_Allow (snd (sb_Allow b (10 + 5 * second))) (10 + 500 * second))"
proof -
  let ?b = "sb_tripLocked (\<lambda>x. x) 10 (NewStoreBreaker 3 (5 * second) 0)"
  have h: "sb_good ?b" "sb_state ?b = StateOpen" "sb_deadline ?b \<le> 10 + 5 * second"
    by (simp_all add: sb_good_def sb_tripLocked_def NewStoreBreaker_def Let_def jitter_def
        sb_deadline_def second_def max_i64_def)
  note T = store_breaker_single_probe [OF h, of "\<lambda>b t. b"]
  have "\<not> fst (sb_Allow (snd (sb_Allow ?b (10 + 5 * second))) (10 + 500 * second))"
    using T [THEN conjunct2, rule_format, of "[10 + 500 * second]"] by (simp add: Let_def)
  with T [THEN conjunct1] show ?thesis
    by (simp add: Let_def)
qed

text \<open>
  A failed probe re-opens the store breaker from that instant with a cooldown that never
  exceeds \<open>maxCooldown\<close>, is never zero, and is at least the previous cooldown up to half the
  cap, whatever the jitter; every request before it elapses is refused.
\<close>

theorem store_breaker_backoff_bounds:
  assumes "draws rnd" and "sb_good b" and "sb_state b = StateHalfOpen" and "IsUnavailable (Some e)"
  shows "let b' = sb_RecordFailure rnd (Some e) b t in
         0 < sb_currentCooldown b' \<and> sb_currentCooldown b' \<le> sb_maxCooldown b \<and>
         min (sb_currentCooldown b) (sb_maxCooldown b div 2) \<le> sb_currentCooldown b' \<and>
         (\<forall>now. now < t + sb_currentCooldown b' \<longrightarrow> sb_Allow b' now = (False, b'))"
proof -
  let ?b' = "sb_RecordFailure rnd (Some e) b t"
  note P = sb_probe_failure [OF assms, of t]
  have g: "sb_good ?b'"
    using assms(1,2) by (rule sb_RecordFailure_good)
  have "sb_Allow ?b' now = (False, ?b')" if "now < t + sb_currentCooldown ?b'" for now
    using stb.open_rejects [OF g P(1)] that by (simp add: sb_deadline_def P(2))
  with P show ?thesis
    by (simp add: Let_def)
qed

theorem store_breaker_backoff_bounds_witness:
  "let b = (NewStoreBreaker 3 (5 * second) 0)\<lparr>sb_state := StateHalfOpen\<rparr>;
       b' = sb_RecordFailure (\<lambda>x. 0) (Some dbDown) b 7
   in 0 < sb_currentCooldown b' \<and> sb_currentCooldown b' \<le> 60 * second"
proof -
  let ?b = "(NewStoreBreaker 3 (5 * second) 0)\<lparr>sb_state := StateHalfOpen\<rparr>"
  have h: "draws (\<lambda>x. 0)" "sb_good ?b" "sb_state ?b = StateHalfOpen" "IsUnavailable (Some dbDown)"
    by (simp_all add: draws_def sb_good_def NewStoreBreaker_def Let_def second_def max_i64_def)
  have "sb_maxCooldown ?b = 60 * second"
    by (simp add: NewStoreBreaker_def Let_def)
  then show ?thesis
    using store_breaker_backoff_bounds [OF h, of 7] by (simp add: Let_def)
qed

text \<open>
  C7. A probe that reaches the database and is answered with an error that is not an outage
  (a constraint violation, a missing row, a cancelled request) leaves the breaker half-open
  with its probe marked in flight: every later read, at any time and for any operation, is
  refused with \<open>ErrUnavailable\<close> without touching the database, until a successful \<open>Ping\<close>
  closes the breaker.
\<close>

theorem pg_read_permanent_probe_error_sticks:
  fixes db db' :: 'd
  assumes "sb_good (pg_breaker p)" and "sb_state (pg_breaker p) = StateOpen"
    and "sb_deadline (pg_breaker p) \<le> now" and "fn db = (Some e, db')"
    and "\<not> IsRetryable (Some e)"
  shows "case pg_read rndDelay rnd (\<lambda>_. None) waitErr now fn p db of (r, p', d) \<Rightarrow>
           r = Some e \<and> d = db' \<and>
           (\<forall>rd r2 c w now' fn' (x :: 'd). pg_read rd r2 c w now' fn' p' x = (Some errUnavailable, p', x)) \<and>
           sb_state (pg_breaker (snd (pg_Ping rnd now' None p'))) = StateClosed"
proof -
  let ?b = "(pg_breaker p)\<lparr>sb_state := StateHalfOpen, sb_lastStateChange := now, sb_probeInFlight := True\<rparr>"
  let ?p = "p\<lparr>pg_breaker := ?b\<rparr>"
  have u: "\<not> IsUnavailable (Some e)"
    using assms(5) unavailable_retryable by blast
  have a: "sb_Allow (pg_breaker p) now = (True, ?b)"
    using assms(2,3) sb_expired [OF assms(1), of now]
    by (simp add: sb_Allow_def sb_checkTransitionLocked_def Let_def)
  have ob: "pg_observe rnd now (Some e) ?p = ?p"
    using u by (simp add: pg_observe_def health_Observe_def sb_RecordFailure_ignored)
  have r: "pg_read rndDelay rnd (\<lambda>_. None) waitErr now fn p db = (Some e, ?p, db')"
    unfolding pg_read_def a using assms(4,5) ob by (simp add: policy_Do_settles_at_once Let_def)
  have "pg_read rd r2 c w now' fn' ?p x = (Some errUnavailable, ?p, x)" for rd r2 c w now' fn' and x :: 'd
    by (rule pg_read_refused) simp_all
  then show ?thesis
    by (simp add: r pg_Ping_def pg_observe_def sb_RecordSuccess_def)
qed

theorem pg_read_permanent_probe_error_sticks_witness:
  "let p = \<lparr>pg_health = NewDatabaseHealth,
            pg_breaker = sb_tripLocked (\<lambda>x. x) 10 (NewStoreBreaker 3 (5 * second) 0),
            pg_retry = ReadPolicy\<rparr>;
       t = 10 + 5 * second
   in case pg_read (\<lambda>_ x. x) (\<lambda>x. x) (\<lambda>_. None) (\<lambda>_ _. None) t (\<lambda>d. (Some dbConstraint, d)) p (0::nat)
      of (r, p', d) \<Rightarrow>
        pg_read (\<lambda>_ x. x) (\<lambda>x. x) (\<lambda>_. None) (\<lambda>_ _. None) (t + 3600 * second) (\<lambda>d. (None, d + 1)) p' (0::nat) =
        (Some errUnavailable, p', 0)"
proof -
  let ?p = "\<lparr>pg_health = NewDatabaseHealth,
            pg_breaker = sb_tripLocked (\<lambda>x. x) 10 (NewStoreBreaker 3 (5 * second) 0),
            pg_retry = ReadPolicy\<rparr>"
  have h: "sb_good (pg_breaker ?p)" "sb_state (pg_breaker ?p) = StateOpen"
    "sb_deadline (pg_breaker ?p) \<le> 10 + 5 * second"
    by (simp_all add: sb_good_def sb_tripLocked_def NewStoreBreaker_def Let_def jitter_def
        sb_deadline_def second_def max_i64_def)
  show ?thesis
    using pg_read_permanent_probe_error_sticks [OF h, where fn = "\<lambda>d. (Some dbConstraint, d)"
        and db = "0::nat" and db' = 0 and e = dbConstraint and rndDelay = "\<lambda>_ x. x" and rnd = "\<lambda>x. x"
        and waitErr = "\<lambda>_ _. None" and now' = 0]
    by (auto simp: Let_def split: prod.splits)
qed

end
