(* ===== verification/Channel_Breaker.thy ===== *)
theory Channel_Breaker
  imports Circuit_Breaker
begin

text \<open>
  \<open>internal/notify/breaker.go\<close>: the per-channel circuit breaker in front of every
  notification channel and the registry that owns one breaker per channel id. A breaker
  method runs under its mutex and is one function of the breaker and of the instant
  \<open>time.Now()\<close> shows there.
\<close>

record channel_breaker =
  cb_state :: BreakerState
  cb_failures :: int
  cb_consecutiveLimit :: int
  cb_cooldown :: duration
  cb_lastStateChange :: gtime

definition NewChannelBreaker :: "int \<Rightarrow> duration \<Rightarrow> gtime \<Rightarrow> channel_breaker" where
  "NewChannelBreaker consecutiveLimit cooldown now =
     \<lparr>cb_state = StateClosed,
      cb_failures = 0,
      cb_consecutiveLimit = (if consecutiveLimit \<le> 0 then 3 else consecutiveLimit),
      cb_cooldown = (if cooldown \<le> 0 then 30 * second else cooldown),
      cb_lastStateChange = now\<rparr>"

definition cb_State :: "channel_breaker \<Rightarrow> gtime \<Rightarrow> BreakerState \<times> channel_breaker" where
  "cb_State cb now =
     (let cb' = (if cb_state cb = StateOpen \<and> cb_cooldown cb \<le> time_sub now (cb_lastStateChange cb)
                 then cb\<lparr>cb_state := StateHalfOpen, cb_lastStateChange := now\<rparr> else cb)
      in (cb_state cb', cb'))"

definition cb_Allow :: "channel_breaker \<Rightarrow> gtime \<Rightarrow> bool \<times> channel_breaker" where
  "cb_Allow cb now =
     (case cb_State cb now of (s, cb') \<Rightarrow> (s = StateClosed \<or> s = StateHalfOpen, cb'))"

definition cb_RecordSuccess :: "channel_breaker \<Rightarrow> gtime \<Rightarrow> channel_breaker" where
  "cb_RecordSuccess cb now =
     cb\<lparr>cb_state := StateClosed, cb_failures := 0, cb_lastStateChange := now\<rparr>"

definition cb_RecordFailure :: "channel_breaker \<Rightarrow> gtime \<Rightarrow> channel_breaker" where
  "cb_RecordFailure cb now =
     (case cb_state cb of
        StateClosed \<Rightarrow>
          (let cb' = cb\<lparr>cb_failures := cb_failures cb + 1\<rparr>
           in if cb_consecutiveLimit cb' \<le> cb_failures cb'
              then cb'\<lparr>cb_state := StateOpen, cb_lastStateChange := now\<rparr> else cb')
      | StateHalfOpen \<Rightarrow>
          cb\<lparr>cb_state := StateOpen, cb_failures := cb_consecutiveLimit cb, cb_lastStateChange := now\<rparr>
      | StateOpen \<Rightarrow> cb)"

record breaker_registry =
  br_breakers :: "int \<rightharpoonup> channel_breaker"
  br_consecutiveLimit :: int
  br_cooldown :: duration

definition NewBreakerRegistry :: "int \<Rightarrow> duration \<Rightarrow> breaker_registry" where
  "NewBreakerRegistry consecutiveLimit cooldown =
     \<lparr>br_breakers = Map.empty, br_consecutiveLimit = consecutiveLimit, br_cooldown = cooldown\<rparr>"

definition br_Get :: "breaker_registry \<Rightarrow> int \<Rightarrow> gtime \<Rightarrow> channel_breaker \<times> breaker_registry" where
  "br_Get r channelID now =
     (case br_breakers r channelID of
        Some cb \<Rightarrow> (cb, r)
      | None \<Rightarrow>
          (let cb = NewChannelBreaker (br_consecutiveLimit r) (br_cooldown r) now
           in (cb, r\<lparr>br_breakers := (br_breakers r)(channelID \<mapsto> cb)\<rparr>)))"

definition br_Remove :: "breaker_registry \<Rightarrow> int \<Rightarrow> breaker_registry" where
  "br_Remove r channelID = r\<lparr>br_breakers := (br_breakers r)(channelID := None)\<rparr>"

subsection \<open>Invariant and contract\<close>

definition cb_good :: "channel_breaker \<Rightarrow> bool" where
  "cb_good cb \<longleftrightarrow> 0 < cb_consecutiveLimit cb \<and> 0 < cb_cooldown cb \<and> cb_cooldown cb \<le> max_i64 \<and>
     0 \<le> cb_failures cb \<and> (cb_state cb = StateClosed \<longrightarrow> cb_failures cb < cb_consecutiveLimit cb)"

definition cb_deadline :: "channel_breaker \<Rightarrow> gtime" where
  "cb_deadline cb = cb_lastStateChange cb + cb_cooldown cb"

lemmas cb_defs = cb_State_def cb_Allow_def cb_RecordSuccess_def cb_RecordFailure_def
  cb_good_def cb_deadline_def Let_def

lemma cb_expired:
  "cb_good cb \<Longrightarrow> cb_cooldown cb \<le> time_sub t (cb_lastStateChange cb) \<longleftrightarrow> cb_deadline cb \<le> t"
  by (auto simp: cb_good_def cb_deadline_def time_sub_ge min_i64_def)

lemma NewChannelBreaker_good: "cooldown \<le> max_i64 \<Longrightarrow> cb_good (NewChannelBreaker n cooldown now)"
  by (auto simp: NewChannelBreaker_def cb_good_def second_def max_i64_def)

interpretation chan: circuit_breaker cb_state cb_Allow cb_RecordSuccess cb_RecordFailure
  cb_deadline cb_good
proof (unfold_locales, goal_cases)
  case (6 b t)
  then show ?case using cb_expired [of b t] by (auto simp: cb_Allow_def cb_State_def)
next
  case (7 b t)
  then show ?case using cb_expired [of b t] by (auto simp: cb_Allow_def cb_State_def Let_def)
qed (auto simp: cb_defs split: BreakerState.splits if_splits)

subsection \<open>Consecutive failures\<close>

lemma cb_RecordFailure_closed:
  "cb_state cb = StateClosed \<Longrightarrow> cb_failures cb + 1 < cb_consecutiveLimit cb \<Longrightarrow>
   cb_RecordFailure cb t = cb\<lparr>cb_failures := cb_failures cb + 1\<rparr>"
  by (simp add: cb_RecordFailure_def Let_def)

lemma cb_failures_below_limit:
  "cb_state cb = StateClosed \<Longrightarrow> cb_failures cb + int (length ts) < cb_consecutiveLimit cb \<Longrightarrow>
   fold (\<lambda>t b. cb_RecordFailure b t) ts cb = cb\<lparr>cb_failures := cb_failures cb + int (length ts)\<rparr>"
proof (induction ts arbitrary: cb)
  case Nil
  then show ?case by simp
next
  case (Cons t ts)
  then have "cb_RecordFailure cb t = cb\<lparr>cb_failures := cb_failures cb + 1\<rparr>"
    by (simp add: cb_RecordFailure_closed)
  with Cons show ?case by (simp add: add.assoc)
qed

lemma cb_RecordFailure_trips:
  "cb_state cb = StateClosed \<Longrightarrow> cb_failures cb + 1 = cb_consecutiveLimit cb \<Longrightarrow>
   cb_RecordFailure cb t =
     cb\<lparr>cb_state := StateOpen, cb_failures := cb_consecutiveLimit cb, cb_lastStateChange := t\<rparr>"
  by (simp add: cb_RecordFailure_def Let_def)

lemma cb_failures_reach_limit:
  assumes "cb_state cb = StateClosed"
    and "cb_failures cb + int (length ts) + 1 = cb_consecutiveLimit cb"
  shows "fold (\<lambda>t b. cb_RecordFailure b t) (ts @ [u]) cb =
    cb\<lparr>cb_state := StateOpen, cb_failures := cb_consecutiveLimit cb, cb_lastStateChange := u\<rparr>"
  using assms by (simp add: cb_failures_below_limit cb_RecordFailure_trips)

text \<open>
  A channel's breaker trips on exactly the configured number of consecutive failures:
  a fresh breaker admits every attempt while fewer than \<open>consecutiveLimit\<close> failures have
  been recorded, and the failure that reaches the limit opens it; from then on every
  attempt before the cooldown has elapsed is refused, whatever further failures in-flight
  deliveries report, and the first attempt after it is admitted as a probe.
\<close>

theorem channel_breaker_trips_at_limit:
  assumes "0 < n" and "0 < cooldown" and "cooldown \<le> max_i64" and "int (length ts) + 1 = n"
  shows "let b0 = NewChannelBreaker n cooldown t0;
             bn = fold (\<lambda>t b. cb_RecordFailure b t) (ts @ [u]) b0
         in (\<forall>k now. k \<le> length ts \<longrightarrow>
               fst (cb_Allow (fold (\<lambda>t b. cb_RecordFailure b t) (take k ts) b0) now)) \<and>
            (\<forall>ops. (\<forall>x \<in> set ops. op_time x < u + cooldown) \<longrightarrow>
               True \<notin> set (fst (breaker_run cb_Allow cb_RecordFailure bn ops))) \<and>
            (\<forall>now. u + cooldown \<le> now \<longrightarrow> fst (cb_Allow bn now))"
proof -
  define b0 where "b0 = NewChannelBreaker n cooldown t0"
  define bn where "bn = fold (\<lambda>t b. cb_RecordFailure b t) (ts @ [u]) b0"
  have b0: "cb_state b0 = StateClosed" "cb_failures b0 = 0" "cb_consecutiveLimit b0 = n"
    "cb_cooldown b0 = cooldown"
    using assms(1,2) by (simp_all add: b0_def NewChannelBreaker_def)
  have g0: "cb_good b0"
    using assms(3) by (simp add: b0_def NewChannelBreaker_good)
  have bn: "bn = b0\<lparr>cb_state := StateOpen, cb_failures := n, cb_lastStateChange := u\<rparr>"
    using b0 assms(4) unfolding bn_def by (subst cb_failures_reach_limit) simp_all
  have gn: "cb_good bn" and dn: "cb_deadline bn = u + cooldown" and sn: "cb_state bn = StateOpen"
    using g0 b0 assms(1) by (auto simp: bn cb_good_def cb_deadline_def)
  have "fst (cb_Allow (fold (\<lambda>t b. cb_RecordFailure b t) (take k ts) b0) now)"
    if "k \<le> length ts" for k now
    using b0 assms(4) that by (simp add: cb_failures_below_limit chan.closed_allows)
  moreover have "True \<notin> set (fst (breaker_run cb_Allow cb_RecordFailure bn ops))"
    if "\<forall>x \<in> set ops. op_time x < u + cooldown" for ops
    using chan.fail_fast [OF gn sn] dn that by simp
  moreover have "fst (cb_Allow bn now)" if "u + cooldown \<le> now" for now
    using chan.open_probes [OF gn sn] dn that by simp
  ultimately show ?thesis
    unfolding Let_def b0_def [symmetric] bn_def [symmetric] by blast
qed

theorem channel_breaker_trips_at_limit_witness:
  "let b0 = NewChannelBreaker 3 (30 * second) 0;
       bn = fold (\<lambda>t b. cb_RecordFailure b t) [1, 2, 5] b0
   in fst (cb_Allow b0 4) \<and> \<not> fst (cb_Allow bn 6) \<and> fst (cb_Allow bn (5 + 30 * second))"
proof -
  have h: "0 < (3::int)" "0 < 30 * second" "30 * second \<le> max_i64" "int (length [1::int, 2]) + 1 = 3"
    by (simp_all add: second_def max_i64_def)
  note T = channel_breaker_trips_at_limit [OF h, of 0 5, unfolded Let_def]
  have "fst (cb_Allow (NewChannelBreaker 3 (30 * second) 0) 4)"
    using T [THEN conjunct1, rule_format, of 0 4] by simp
  moreover have "\<not> fst (cb_Allow (fold (\<lambda>t b. cb_RecordFailure b t) [1, 2, 5]
      (NewChannelBreaker 3 (30 * second) 0)) 6)"
    using T [THEN conjunct2, THEN conjunct1, rule_format, of "[Ask 6]"] by (simp add: second_def)
  moreover have "fst (cb_Allow (fold (\<lambda>t b. cb_RecordFailure b t) [1, 2, 5]
      (NewChannelBreaker 3 (30 * second) 0)) (5 + 30 * second))"
    using T [THEN conjunct2, THEN conjunct2, rule_format, of "5 + 30 * second"] by simp
  ultimately show ?thesis
    by (simp add: Let_def)
qed

end
