(* ===== verification/Notify_Types.thy ===== *)
theory Notify_Types
  imports Beacon_Prelude
begin

text \<open>
  The vocabulary that the notification components share: severities and priorities
  (\<open>internal/store/store.go\<close>), the tenancy boundary (\<open>internal/workspace\<close>), the alert
  that travels to a channel (\<open>internal/notify/notify.go\<close>) and the channel row.
  Raw JSON columns and fields are carried as the text they hold.
\<close>

subsection \<open>Severities and priorities\<close>

definition SeverityInfo :: string where "SeverityInfo = ''info''"
definition SeverityWarning :: string where "SeverityWarning = ''warning''"
definition SeverityCritical :: string where "SeverityCritical = ''critical''"

lemmas severity_defs = SeverityInfo_def SeverityWarning_def SeverityCritical_def

definition ParseSeverity :: "string \<Rightarrow> string \<times> bool" where
  "ParseSeverity s =
     (if s = '''' then (SeverityWarning, True)
      else if s = SeverityInfo \<or> s = SeverityWarning \<or> s = SeverityCritical then (s, True)
      else ('''', False))"

definition Severity_Rank :: "string \<Rightarrow> int" where
  "Severity_Rank s = (if s = SeverityCritical then 2 else if s = SeverityInfo then 0 else 1)"

definition MeetsThreshold :: "string \<Rightarrow> string \<Rightarrow> bool" where
  "MeetsThreshold s minSev = (if minSev = '''' then True else Severity_Rank minSev \<le> Severity_Rank s)"

definition PriorityLow :: string where "PriorityLow = ''low''"
definition PriorityNormal :: string where "PriorityNormal = ''normal''"
definition PriorityHigh :: string where "PriorityHigh = ''high''"

lemmas priority_defs = PriorityLow_def PriorityNormal_def PriorityHigh_def

definition ParsePriority :: "string \<Rightarrow> string \<times> bool" where
  "ParsePriority s =
     (if s = '''' then (PriorityNormal, True)
      else if s = PriorityLow \<or> s = PriorityNormal \<or> s = PriorityHigh then (s, True)
      else ('''', False))"

definition Priority_Rank :: "string \<Rightarrow> int" where
  "Priority_Rank p = (if p = PriorityHigh then 2 else if p = PriorityLow then 0 else 1)"

subsection \<open>Workspaces\<close>

definition Default :: string where "Default = ''default''"
definition idMaxLen :: nat where "idMaxLen = 40"

definition isAlnum :: "char \<Rightarrow> bool" where
  "isAlnum c = (let n = of_char c :: nat in (97 \<le> n \<and> n \<le> 122) \<or> (48 \<le> n \<and> n \<le> 57))"

definition Valid :: "string \<Rightarrow> bool" where
  "Valid s =
     (if length s = 0 \<or> idMaxLen < length s then False
      else if \<not> isAlnum (hd s) then False
      else list_all (\<lambda>c. isAlnum c \<or> c = CHR ''-'' \<or> c = CHR ''_'') s)"

datatype workspace_error =
  ErrInvalidID | ErrDeletionConfirmationRequired | ErrCannotDeleteDefaultWorkspace

definition Parse :: "string \<Rightarrow> workspace_error + string" where
  "Parse s = (if s = '''' then Inr Default else if \<not> Valid s then Inl ErrInvalidID else Inr s)"

definition ValidateDeletionConfirmation :: "string \<Rightarrow> string \<Rightarrow> workspace_error option" where
  "ValidateDeletionConfirmation target confirm =
     (if \<not> Valid target then Some ErrInvalidID
      else if target = Default then Some ErrCannotDeleteDefaultWorkspace
      else if confirm = '''' \<or> confirm \<noteq> target then Some ErrDeletionConfirmationRequired
      else None)"

text \<open>The two values \<open>With\<close> and \<open>WithSystem\<close> put in a context.\<close>

record ctx =
  ctx_workspace :: "string option"
  ctx_system :: bool

definition With :: "ctx \<Rightarrow> string \<Rightarrow> ctx" where
  "With c i = c\<lparr>ctx_workspace := Some i\<rparr>"

definition From :: "ctx \<Rightarrow> string \<times> bool" where
  "From c = (case ctx_workspace c of None \<Rightarrow> ('''', False) | Some v \<Rightarrow> (v, True))"

definition WithSystem :: "ctx \<Rightarrow> ctx" where
  "WithSystem c = c\<lparr>ctx_system := True\<rparr>"

definition System :: "ctx \<Rightarrow> bool" where
  "System c = ctx_system c"

lemma Valid_Default: "Valid Default"
  by (simp add: Valid_def Default_def idMaxLen_def isAlnum_def)

lemma Valid_chars: "Valid s \<Longrightarrow> c \<in> set s \<Longrightarrow> isAlnum c \<or> c = CHR ''-'' \<or> c = CHR ''_''"
  by (auto simp: Valid_def list_all_iff split: if_splits)

lemma Valid_no_space: "Valid s \<Longrightarrow> c \<in> set s \<Longrightarrow> \<not> is_space c"
  using Valid_chars [of s c] by (auto simp: isAlnum_def is_space_def Let_def)

lemma dropWhile_none: "(\<And>c. c \<in> set s \<Longrightarrow> \<not> P c) \<Longrightarrow> dropWhile P s = s"
  by (cases s) auto

lemma trim_space_id: "(\<And>c. c \<in> set s \<Longrightarrow> \<not> is_space c) \<Longrightarrow> trim_space s = s"
  using dropWhile_none [of s is_space] dropWhile_none [of "rev s" is_space]
  by (simp add: trim_space_def)

lemma Valid_trim [simp]: "Valid s \<Longrightarrow> trim_space s = s"
  using Valid_no_space trim_space_id by blast

subsection \<open>Alerts and channels\<close>

record alert =
  al_ID :: int
  al_MonitorID :: int
  al_MonitorName :: string
  al_RuleID :: int
  al_RuleType :: string
  al_EventID :: string
  al_ContractID :: string
  al_EventName :: string
  al_Ledger :: int
  al_TxHash :: string
  al_Payload :: string
  al_Enrichment :: string
  al_CreatedAt :: gtime
  al_Severity :: string
  al_Digest :: string
  al_GroupCount :: int
  al_WindowStart :: gtime
  al_WindowEnd :: gtime
  al_Silence :: duration
  al_FederationOrigin :: string
  al_RunbookURL :: string
  al_ResponseGuidance :: string

text \<open>Go's zero value \<open>Alert{}\<close>.\<close>

definition alert0 :: alert where
  "alert0 = \<lparr>al_ID = 0, al_MonitorID = 0, al_MonitorName = '''', al_RuleID = 0, al_RuleType = '''',
     al_EventID = '''', al_ContractID = '''', al_EventName = '''', al_Ledger = 0, al_TxHash = '''',
     al_Payload = '''', al_Enrichment = '''', al_CreatedAt = 0, al_Severity = '''', al_Digest = '''',
     al_GroupCount = 0, al_WindowStart = 0, al_WindowEnd = 0, al_Silence = 0,
     al_FederationOrigin = '''', al_RunbookURL = '''', al_ResponseGuidance = ''''\<rparr>"

record channel =
  ch_ID :: int
  ch_Name :: string
  ch_Type :: string
  ch_Config :: string
  ch_Enabled :: bool
  ch_DigestMode :: string
  ch_DigestWindowSeconds :: int
  ch_MinSeverity :: string
  ch_CreatedAt :: gtime
  ch_Timeout :: duration
  ch_ConsecutiveFailures :: int
  ch_ConsecutivePermanentFailures :: int
  ch_LastError :: string
  ch_LastErrorAt :: "gtime option"
  ch_LastSuccessAt :: "gtime option"
  ch_DisabledAt :: "gtime option"
  ch_WorkspaceID :: string

definition channel0 :: channel where
  "channel0 = \<lparr>ch_ID = 0, ch_Name = '''', ch_Type = '''', ch_Config = '''', ch_Enabled = False,
     ch_DigestMode = '''', ch_DigestWindowSeconds = 0, ch_MinSeverity = '''', ch_CreatedAt = 0,
     ch_Timeout = 0, ch_ConsecutiveFailures = 0, ch_ConsecutivePermanentFailures = 0,
     ch_LastError = '''', ch_LastErrorAt = None, ch_LastSuccessAt = None, ch_DisabledAt = None,
     ch_WorkspaceID = ''''\<rparr>"

end
