(* ===== verification/Monitor_Budget.thy ===== *)
theory Monitor_Budget
  imports Notify_Types
begin

text \<open>
  \<open>internal/notify/monitor_budget.go\<close>: the per-monitor notification cap with a sliding
  window, hysteresis on recovery, and a separate allowance for critical alerts. Every
  method runs under the tracker's mutex, so a concurrent execution is a sequence of whole
  calls. Shared with other window limiters is the contract \<open>sliding_window\<close>: a log of
  admitted instants, pruned before every decision, that never grows past its limit admits
  at most that many calls in any window.
\<close>

definition DefaultMonitorCapMaxAlerts :: int where "DefaultMonitorCapMaxAlerts = 50"
definition DefaultMonitorCapWindow :: duration where "DefaultMonitorCapWindow = 10 * minute"
definition DefaultMonitorCapHysteresisPercent :: int where "DefaultMonitorCapHysteresisPercent = 50"
definition DefaultMonitorCapCriticalAllowance :: int where "DefaultMonitorCapCriticalAllowance = 200"

lemmas cap_defaults = DefaultMonitorCapMaxAlerts_def DefaultMonitorCapWindow_def
  DefaultMonitorCapHysteresisPercent_def DefaultMonitorCapCriticalAllowance_def

datatype CapOutcome = CapOutcomeAllow | CapOutcomeSummary | CapOutcomeSuppressed

record CapAction =
  ca_Outcome :: CapOutcome
  ca_Count :: int
  ca_Window :: duration

record MonitorCapConfig =
  mc_MaxAlerts :: int
  mc_Window :: duration
  mc_HysteresisPercent :: int
  mc_CriticalAllowance :: int

definition cap_Normalized :: "MonitorCapConfig \<Rightarrow> MonitorCapConfig" where
  "cap_Normalized c =
     \<lparr>mc_MaxAlerts = (if mc_MaxAlerts c \<le> 0 then DefaultMonitorCapMaxAlerts else mc_MaxAlerts c),
      mc_Window = (if mc_Window c \<le> 0 then DefaultMonitorCapWindow else mc_Window c),
      mc_HysteresisPercent =
        (if mc_HysteresisPercent c \<le> 0 \<or> 100 \<le> mc_HysteresisPercent c
         then DefaultMonitorCapHysteresisPercent else mc_HysteresisPercent c),
      mc_CriticalAllowance =
        (if mc_CriticalAllowance c \<le> 0 then DefaultMonitorCapCriticalAllowance
         else mc_CriticalAllowance c)\<rparr>"

record monitorBucket =
  mb_timestamps :: "gtime list"
  mb_criticalTimestamps :: "gtime list"
  mb_throttled :: bool

definition monitorBucket0 :: monitorBucket where
  "monitorBucket0 = \<lparr>mb_timestamps = [], mb_criticalTimestamps = [], mb_throttled = False\<rparr>"

record MonitorBudgetTracker =
  mt_defaultCfg :: MonitorCapConfig
  mt_overrides :: "string \<rightharpoonup> MonitorCapConfig"
  mt_buckets :: "string \<rightharpoonup> monitorBucket"

definition NewMonitorBudgetTracker :: "MonitorCapConfig \<Rightarrow> MonitorBudgetTracker" where
  "NewMonitorBudgetTracker cfg =
     \<lparr>mt_defaultCfg = cap_Normalized cfg, mt_overrides = Map.empty, mt_buckets = Map.empty\<rparr>"

definition budgetKey :: "string \<Rightarrow> int \<Rightarrow> string" where
  "budgetKey ws monitorID = (if ws = '''' then Default else ws) @ '':'' @ fmt_d monitorID"

definition SetOverride ::
    "MonitorBudgetTracker \<Rightarrow> string \<Rightarrow> int \<Rightarrow> MonitorCapConfig \<Rightarrow> MonitorBudgetTracker" where
  "SetOverride t ws monitorID cfg =
     t\<lparr>mt_overrides := (mt_overrides t)(budgetKey ws monitorID \<mapsto> cap_Normalized cfg)\<rparr>"

text \<open>The number of live alerts at which a throttled monitor recovers (Go's \<open>int\<close> product wraps).\<close>

definition recoveryThreshold :: "MonitorCapConfig \<Rightarrow> int" where
  "recoveryThreshold cfg =
     (let r = go_div (wrap64 (mc_MaxAlerts cfg * mc_HysteresisPercent cfg)) 100
      in if r < 1 then 1 else r)"

definition pruneBucket :: "MonitorCapConfig \<Rightarrow> gtime \<Rightarrow> monitorBucket \<Rightarrow> monitorBucket" where
  "pruneBucket cfg now b =
     b\<lparr>mb_timestamps := filter (\<lambda>ts. \<not> ts < now - mc_Window cfg) (mb_timestamps b),
       mb_criticalTimestamps := filter (\<lambda>ts. \<not> ts < now - mc_Window cfg) (mb_criticalTimestamps b)\<rparr>"

definition recordCritical ::
    "MonitorCapConfig \<Rightarrow> gtime \<Rightarrow> monitorBucket \<Rightarrow> CapAction \<times> monitorBucket" where
  "recordCritical cfg now b =
     (if mc_CriticalAllowance cfg \<le> int (length (mb_criticalTimestamps b))
      then (\<lparr>ca_Outcome = CapOutcomeSuppressed, ca_Count = int (length (mb_criticalTimestamps b)),
             ca_Window = mc_Window cfg\<rparr>, b)
      else (let b' = b\<lparr>mb_criticalTimestamps := mb_criticalTimestamps b @ [now]\<rparr>
            in (\<lparr>ca_Outcome = CapOutcomeAllow, ca_Count = int (length (mb_criticalTimestamps b')),
                 ca_Window = mc_Window cfg\<rparr>, b')))"

definition recordUnthrottled ::
    "MonitorCapConfig \<Rightarrow> gtime \<Rightarrow> monitorBucket \<Rightarrow> CapAction \<times> monitorBucket" where
  "recordUnthrottled cfg now b =
     (let currentCount = int (length (mb_timestamps b)) in
      if currentCount + 1 = mc_MaxAlerts cfg
      then (\<lparr>ca_Outcome = CapOutcomeSummary, ca_Count = currentCount + 1, ca_Window = mc_Window cfg\<rparr>,
            b\<lparr>mb_throttled := True, mb_timestamps := mb_timestamps b @ [now]\<rparr>)
      else if mc_MaxAlerts cfg < currentCount + 1
      then (\<lparr>ca_Outcome = CapOutcomeSuppressed, ca_Count = currentCount, ca_Window = mc_Window cfg\<rparr>,
            b\<lparr>mb_throttled := True\<rparr>)
      else (\<lparr>ca_Outcome = CapOutcomeAllow, ca_Count = currentCount + 1, ca_Window = mc_Window cfg\<rparr>,
            b\<lparr>mb_timestamps := mb_timestamps b @ [now]\<rparr>))"

definition recordNormal ::
    "MonitorCapConfig \<Rightarrow> gtime \<Rightarrow> monitorBucket \<Rightarrow> CapAction \<times> monitorBucket" where
  "recordNormal cfg now b =
     (let currentCount = int (length (mb_timestamps b)) in
      if mb_throttled b then
        (if currentCount \<le> recoveryThreshold cfg
         then recordUnthrottled cfg now (b\<lparr>mb_throttled := False\<rparr>)
         else (\<lparr>ca_Outcome = CapOutcomeSuppressed, ca_Count = currentCount,
                ca_Window = mc_Window cfg\<rparr>, b))
      else recordUnthrottled cfg now b)"

text \<open>The part of \<open>RecordAlert\<close> after the bucket has been found.\<close>

definition recordBucket ::
    "MonitorCapConfig \<Rightarrow> string \<Rightarrow> gtime \<Rightarrow> monitorBucket \<Rightarrow> CapAction \<times> monitorBucket" where
  "recordBucket cfg severity now b =
     (let b' = pruneBucket cfg now b in
      if equal_fold severity ''critical'' then recordCritical cfg now b' else recordNormal cfg now b')"

definition capWorkspace :: "ctx \<Rightarrow> string" where
  "capWorkspace c = (case From c of (ws, ok) \<Rightarrow> if ok \<and> ws \<noteq> '''' then ws else Default)"

definition capKey :: "ctx \<Rightarrow> alert \<Rightarrow> string" where
  "capKey c a = budgetKey (capWorkspace c) (al_MonitorID a)"

definition capConfig :: "MonitorBudgetTracker \<Rightarrow> string \<Rightarrow> MonitorCapConfig" where
  "capConfig t key = (case mt_overrides t key of Some o' \<Rightarrow> o' | None \<Rightarrow> mt_defaultCfg t)"

definition capBucket :: "MonitorBudgetTracker \<Rightarrow> string \<Rightarrow> monitorBucket" where
  "capBucket t key = (case mt_buckets t key of Some b \<Rightarrow> b | None \<Rightarrow> monitorBucket0)"

definition RecordAlert ::
    "MonitorBudgetTracker \<Rightarrow> ctx \<Rightarrow> alert \<Rightarrow> gtime \<Rightarrow> CapAction \<times> MonitorBudgetTracker" where
  "RecordAlert t c a now =
     (if al_MonitorID a \<le> 0
      then (\<lparr>ca_Outcome = CapOutcomeAllow, ca_Count = 0, ca_Window = 0\<rparr>, t)
      else (let key = capKey c a in
            case recordBucket (capConfig t key) (al_Severity a) now (capBucket t key) of
              (act, b) \<Rightarrow> (act, t\<lparr>mt_buckets := (mt_buckets t)(key \<mapsto> b)\<rparr>)))"

definition IsThrottled :: "MonitorBudgetTracker \<Rightarrow> string \<Rightarrow> int \<Rightarrow> bool" where
  "IsThrottled t ws monitorID =
     (case mt_buckets t (budgetKey ws monitorID) of None \<Rightarrow> False | Some b \<Rightarrow> mb_throttled b)"

subsection \<open>Calls over time\<close>

type_synonym cap_call = "ctx \<times> alert \<times> gtime"

abbreviation call_time :: "cap_call \<Rightarrow> gtime" where "call_time c \<equiv> snd (snd c)"
abbreviation call_alert :: "cap_call \<Rightarrow> alert" where "call_alert c \<equiv> fst (snd c)"

fun budget_run :: "MonitorBudgetTracker \<Rightarrow> cap_call list \<Rightarrow> CapAction list" where
  "budget_run t [] = []"
| "budget_run t ((c, a, now) # calls) =
     (case RecordAlert t c a now of (act, t') \<Rightarrow> act # budget_run t' calls)"

fun bucket_run :: "MonitorCapConfig \<Rightarrow> monitorBucket \<Rightarrow> (string \<times> gtime) list \<Rightarrow> CapAction list" where
  "bucket_run cfg b [] = []"
| "bucket_run cfg b ((sev, now) # calls) =
     (case recordBucket cfg sev now b of (act, b') \<Rightarrow> act # bucket_run cfg b' calls)"

definition for_monitor :: "string \<Rightarrow> int \<Rightarrow> cap_call \<Rightarrow> bool" where
  "for_monitor ws m c \<longleftrightarrow> capWorkspace (fst c) = ws \<and> al_MonitorID (call_alert c) = m"

abbreviation critical :: "alert \<Rightarrow> bool" where
  "critical a \<equiv> equal_fold (al_Severity a) ''critical''"

text \<open>The calls for one monitor of one severity class that were delivered within \<open>[s, s + w]\<close>.\<close>

definition delivered_in ::
    "string \<Rightarrow> int \<Rightarrow> bool \<Rightarrow> gtime \<Rightarrow> duration \<Rightarrow> (cap_call \<times> CapAction) list \<Rightarrow> (cap_call \<times> CapAction) list"
where
  "delivered_in ws m crit s w run =
     filter (\<lambda>(c, act). for_monitor ws m c \<and> critical (call_alert c) = crit \<and>
               ca_Outcome act \<noteq> CapOutcomeSuppressed \<and> s \<le> call_time c \<and> call_time c \<le> s + w)
       run"

subsection \<open>The sliding-window contract\<close>

locale sliding_window =
  fixes limit :: nat and window :: duration
    and log :: "'b \<Rightarrow> gtime list"
    and step :: "'b \<Rightarrow> 'c \<Rightarrow> bool \<times> 'b"
    and time :: "'c \<Rightarrow> gtime"
  assumes admit:
      "fst (step b c) \<Longrightarrow>
         log (snd (step b c)) = filter (\<lambda>x. time c - window \<le> x) (log b) @ [time c] \<and>
         length (log (snd (step b c))) \<le> limit"
    and refuse:
      "\<not> fst (step b c) \<Longrightarrow>
         log (snd (step b c)) = filter (\<lambda>x. time c - window \<le> x) (log b)"
begin

fun admitted :: "'b \<Rightarrow> 'c list \<Rightarrow> gtime list" where
  "admitted b [] = []"
| "admitted b (c # cs) =
     (if fst (step b c) then time c # admitted (snd (step b c)) cs else admitted (snd (step b c)) cs)"

abbreviation within :: "gtime \<Rightarrow> gtime list \<Rightarrow> nat" where
  "within s ts \<equiv> length (filter (\<lambda>x. s \<le> x \<and> x \<le> s + window) ts)"

lemma within_prune: "now \<le> s + window \<Longrightarrow> within s (filter (\<lambda>x. now - window \<le> x) ts) = within s ts"
  by (induction ts) auto

lemma step_length: "length (log b) \<le> limit \<Longrightarrow> length (log (snd (step b c))) \<le> limit"
  using admit [of b c] refuse [of b c] by (cases "fst (step b c)") (auto simp: length_filter_bound)

lemma admitted_times: "x \<in> set (admitted b cs) \<Longrightarrow> x \<in> time ` set cs"
  by (induction b cs rule: admitted.induct) (auto split: if_splits)

lemma window_cap:
  "length (log b) \<le> limit \<Longrightarrow> sorted (map time cs) \<Longrightarrow>
   within s (log b) + within s (admitted b cs) \<le> limit"
proof (induction cs arbitrary: b)
  case Nil
  then show ?case
    by (simp add: length_filter_bound)
next
  case (Cons c cs)
  let ?b = "snd (step b c)"
  have IH: "within s (log ?b) + within s (admitted ?b cs) \<le> limit"
    using Cons step_length by simp
  show ?case
  proof (cases "time c \<le> s + window")
    case True
    then show ?thesis
      using IH admit [of b c] refuse [of b c] within_prune [OF True, of "log b"]
      by (cases "fst (step b c)") auto
  next
    case False
    have "\<not> x \<le> s + window" if "x \<in> set (admitted b (c # cs))" for x
      using admitted_times [OF that] False Cons.prems(2) by auto
    then have "within s (admitted b (c # cs)) = 0"
      by (auto simp only: length_0_conv filter_empty_conv)
    then show ?thesis
      using Cons.prems(1) by (simp add: length_filter_bound)
  qed
qed

end

subsection \<open>The two lanes of a bucket keep the contract\<close>

definition lane_step ::
    "bool \<Rightarrow> MonitorCapConfig \<Rightarrow> monitorBucket \<Rightarrow> string \<times> gtime \<Rightarrow> bool \<times> monitorBucket" where
  "lane_step crit cfg b c =
     (case recordBucket cfg (fst c) (snd c) b of (act, b') \<Rightarrow>
        (equal_fold (fst c) ''critical'' = crit \<and> ca_Outcome act \<noteq> CapOutcomeSuppressed, b'))"

lemmas record_defs = recordBucket_def recordCritical_def recordNormal_def recordUnthrottled_def
  pruneBucket_def Let_def

interpretation normal: sliding_window "nat (mc_MaxAlerts cfg)" "mc_Window cfg" mb_timestamps
  "lane_step False cfg" snd for cfg
  by unfold_locales (auto simp: lane_step_def record_defs not_less split: if_splits)

interpretation crit: sliding_window "nat (mc_CriticalAllowance cfg)" "mc_Window cfg"
  mb_criticalTimestamps "lane_step True cfg" snd for cfg
  by unfold_locales (auto simp: lane_step_def record_defs not_less split: if_splits)

subsection \<open>Isolation of monitors\<close>

lemma budgetKey_eq:
  "budgetKey ws m = budgetKey ws' m' \<longleftrightarrow>
     (if ws = '''' then Default else ws) = (if ws' = '''' then Default else ws') \<and> m = m'"
  using split_at_last [OF fmt_d_no_colon fmt_d_no_colon] by (simp add: budgetKey_def)

lemma capWorkspace_nonempty: "capWorkspace c \<noteq> ''''"
  by (auto simp: capWorkspace_def Default_def split: prod.splits)

lemma capKey_eq:
  "capKey c a = budgetKey ws m \<longleftrightarrow>
     capWorkspace c = (if ws = '''' then Default else ws) \<and> al_MonitorID a = m"
  using capWorkspace_nonempty [of c] by (simp add: capKey_def budgetKey_eq)

lemma RecordAlert_frame [simp]:
  "mt_overrides (snd (RecordAlert t c a now)) = mt_overrides t"
  "mt_defaultCfg (snd (RecordAlert t c a now)) = mt_defaultCfg t"
  "k \<noteq> capKey c a \<or> al_MonitorID a \<le> 0 \<Longrightarrow> mt_buckets (snd (RecordAlert t c a now)) k = mt_buckets t k"
  by (auto simp: RecordAlert_def Let_def split: prod.splits)

lemma RecordAlert_own:
  "0 < al_MonitorID a \<Longrightarrow>
     fst (RecordAlert t c a now) =
       fst (recordBucket (capConfig t (capKey c a)) (al_Severity a) now (capBucket t (capKey c a))) \<and>
     capBucket (snd (RecordAlert t c a now)) (capKey c a) =
       snd (recordBucket (capConfig t (capKey c a)) (al_Severity a) now (capBucket t (capKey c a)))"
  by (auto simp: RecordAlert_def Let_def capBucket_def split: prod.splits)

lemma capConfig_RecordAlert [simp]: "capConfig (snd (RecordAlert t c a now)) k = capConfig t k"
  by (simp add: capConfig_def split: option.split)

lemma capBucket_RecordAlert_other:
  "k \<noteq> capKey c a \<or> al_MonitorID a \<le> 0 \<Longrightarrow> capBucket (snd (RecordAlert t c a now)) k = capBucket t k"
  by (simp add: capBucket_def)

definition bucket_calls :: "cap_call list \<Rightarrow> (string \<times> gtime) list" where
  "bucket_calls calls = map (\<lambda>(c, a, now). (al_Severity a, now)) calls"

lemma budget_run_bucket:
  assumes m: "0 < m" and ws: "ws \<noteq> ''''"
  shows "map snd (filter (\<lambda>(c, act). for_monitor ws m c) (zip calls (budget_run t calls))) =
     bucket_run (capConfig t (budgetKey ws m)) (capBucket t (budgetKey ws m))
       (bucket_calls (filter (for_monitor ws m) calls))"
proof (induction calls arbitrary: t)
  case Nil
  then show ?case by (simp add: bucket_calls_def)
next
  case (Cons call calls)
  obtain c a now where call: "call = (c, a, now)" by (cases call)
  show ?case
  proof (cases "for_monitor ws m call")
    case True
    then have "capKey c a = budgetKey ws m" "0 < al_MonitorID a"
      using m by (auto simp: call for_monitor_def capKey_def)
    with True show ?thesis
      using RecordAlert_own [of a t c now] Cons [of "snd (RecordAlert t c a now)"]
      by (simp add: call bucket_calls_def split_beta)
  next
    case False
    then have "budgetKey ws m \<noteq> capKey c a"
      using capKey_eq [of c a ws m] ws by (auto simp: call for_monitor_def)
    with False show ?thesis
      using Cons [of "snd (RecordAlert t c a now)"] capBucket_RecordAlert_other [of "budgetKey ws m" c a t now]
      by (simp add: call bucket_calls_def split_beta)
  qed
qed

lemma run_zip_filter:
  "filter (\<lambda>(c, act). P c) (zip calls acts) =
     zip (filter P calls) (map snd (filter (\<lambda>(c, act). P c) (zip calls acts)))"
  if "length acts = length calls"
  using that by (induction acts calls rule: list_induct2) auto

lemma length_budget_run [simp]: "length (budget_run t calls) = length calls"
  by (induction calls arbitrary: t) (auto split: prod.splits)

text \<open>\<open>capped_run\<close>: the part of a run that concerns one monitor.\<close>

definition capped_run :: "string \<Rightarrow> int \<Rightarrow> cap_call list \<Rightarrow> CapAction list \<Rightarrow> (cap_call \<times> CapAction) list" where
  "capped_run ws m calls acts = filter (\<lambda>(c, act). for_monitor ws m c) (zip calls acts)"

lemma capped_run_bucket:
  "0 < m \<Longrightarrow> ws \<noteq> '''' \<Longrightarrow>
   capped_run ws m calls (budget_run t calls) =
     zip (filter (for_monitor ws m) calls)
       (bucket_run (capConfig t (budgetKey ws m)) (capBucket t (budgetKey ws m))
         (bucket_calls (filter (for_monitor ws m) calls)))"
  unfolding capped_run_def
  by (subst run_zip_filter) (simp_all add: budget_run_bucket)

text \<open>What a bucket delivered in one lane is what the lane's window contract admitted.\<close>

lemma lane_step_pair:
  "recordBucket cfg sev now b = (act, b') \<Longrightarrow>
   lane_step k cfg b (sev, now) =
     (equal_fold sev ''critical'' = k \<and> ca_Outcome act \<noteq> CapOutcomeSuppressed, b')"
  by (simp add: lane_step_def)

definition lane_delivered ::
    "bool \<Rightarrow> (cap_call \<times> CapAction) list \<Rightarrow> gtime list" where
  "lane_delivered k run =
     map (\<lambda>(c, act). call_time c)
       (filter (\<lambda>(c, act). critical (call_alert c) = k \<and> ca_Outcome act \<noteq> CapOutcomeSuppressed) run)"

lemma normal_admitted:
  "lane_delivered False (zip calls (bucket_run cfg b (bucket_calls calls))) =
     normal.admitted cfg b (bucket_calls calls)"
proof (induction calls arbitrary: b)
  case Nil
  then show ?case by (simp add: bucket_calls_def lane_delivered_def)
next
  case (Cons call calls)
  obtain c a now where call: "call = (c, a, now)" by (cases call)
  obtain act b' where r: "recordBucket cfg (al_Severity a) now b = (act, b')" by fastforce
  show ?case
    using Cons.IH [of b'] by (simp add: call r lane_step_pair [OF r] bucket_calls_def lane_delivered_def)
qed

lemma crit_admitted:
  "lane_delivered True (zip calls (bucket_run cfg b (bucket_calls calls))) =
     crit.admitted cfg b (bucket_calls calls)"
proof (induction calls arbitrary: b)
  case Nil
  then show ?case by (simp add: bucket_calls_def lane_delivered_def)
next
  case (Cons call calls)
  obtain c a now where call: "call = (c, a, now)" by (cases call)
  obtain act b' where r: "recordBucket cfg (al_Severity a) now b = (act, b')" by fastforce
  show ?case
    using Cons.IH [of b'] by (simp add: call r lane_step_pair [OF r] bucket_calls_def lane_delivered_def)
qed

lemma delivered_in_length:
  "length (delivered_in ws m k s w (zip calls acts)) =
     length (filter (\<lambda>x. s \<le> x \<and> x \<le> s + w) (lane_delivered k (capped_run ws m calls acts)))"
  by (simp add: delivered_in_def lane_delivered_def capped_run_def filter_map case_prod_unfold o_def
      conj_ac)

lemma sorted_bucket_calls:
  "sorted (map call_time calls) \<Longrightarrow> sorted (map snd (bucket_calls (filter P calls)))"
  by (induction calls) (auto simp: bucket_calls_def)

text \<open>
  C24. In every interleaving of alerts of all workspaces and monitors with a clock that does
  not run backwards, and for every interval as long as the monitor's window, at most
  \<open>MaxAlerts\<close> non-critical alerts of a monitor are delivered in the interval (the summary
  included), and at most \<open>CriticalAllowance\<close> critical ones.
\<close>

theorem monitor_budget_caps_window:
  fixes t :: MonitorBudgetTracker and m :: int and ws :: string and s :: gtime
  assumes fresh: "mt_buckets t = Map.empty"
    and clock: "sorted (map call_time calls)"
    and mon: "0 < m" "ws \<noteq> ''''"
  shows "let cfg = capConfig t (budgetKey ws m); run = zip calls (budget_run t calls)
         in length (delivered_in ws m False s (mc_Window cfg) run) \<le> nat (mc_MaxAlerts cfg) \<and>
            length (delivered_in ws m True s (mc_Window cfg) run) \<le> nat (mc_CriticalAllowance cfg)"
proof -
  have b0: "capBucket t (budgetKey ws m) = monitorBucket0"
    by (simp add: capBucket_def fresh)
  note cs = sorted_bucket_calls [OF clock, of "for_monitor ws m"]
  let ?cfg = "capConfig t (budgetKey ws m)"
  show ?thesis
    using normal.window_cap [OF _ cs, of monitorBucket0 ?cfg s] crit.window_cap [OF _ cs, of monitorBucket0 ?cfg s]
    by (simp add: Let_def delivered_in_length capped_run_bucket mon b0 normal_admitted crit_admitted
        monitorBucket0_def)
qed

definition cap_demo :: MonitorBudgetTracker where
  "cap_demo = NewMonitorBudgetTracker
     \<lparr>mc_MaxAlerts = 2, mc_Window = 10, mc_HysteresisPercent = 50, mc_CriticalAllowance = 1\<rparr>"

definition cap_demo_calls :: "cap_call list" where
  "cap_demo_calls =
     (let c = \<lparr>ctx_workspace = None, ctx_system = False\<rparr>; a = alert0\<lparr>al_MonitorID := 7\<rparr>
      in [(c, a, 1), (c, a, 2), (c, a\<lparr>al_Severity := ''Critical''\<rparr>, 3), (c, a, 4)])"

lemmas cap_demo_simps = cap_demo_def cap_demo_calls_def NewMonitorBudgetTracker_def cap_Normalized_def
  alert0_def

theorem monitor_budget_caps_window_witness:
  "let cfg = capConfig cap_demo (budgetKey Default 7);
       run = zip cap_demo_calls (budget_run cap_demo cap_demo_calls)
   in length (delivered_in Default 7 False 0 (mc_Window cfg) run) \<le> nat (mc_MaxAlerts cfg) \<and>
      length (delivered_in Default 7 True 0 (mc_Window cfg) run) \<le> nat (mc_CriticalAllowance cfg)"
  by (rule monitor_budget_caps_window) (simp_all add: cap_demo_simps Let_def Default_def)

lemma uncapped_run:
  "m \<le> 0 \<Longrightarrow>
   map snd (filter (\<lambda>(c, act). for_monitor ws m c) (zip calls (budget_run t calls))) =
     map (\<lambda>c. \<lparr>ca_Outcome = CapOutcomeAllow, ca_Count = 0, ca_Window = 0\<rparr>) (filter (for_monitor ws m) calls)"
proof (induction calls arbitrary: t)
  case (Cons call calls)
  then show ?case
    by (cases call) (auto simp: for_monitor_def RecordAlert_def split: prod.splits)
qed simp

lemma for_monitor_run_id:
  "map snd (filter (\<lambda>(c, act). for_monitor ws m c)
     (zip (filter (for_monitor ws m) calls) (budget_run t (filter (for_monitor ws m) calls)))) =
   budget_run t (filter (for_monitor ws m) calls)"
  by (subst filter_True) (auto dest: set_zip_leftD)

text \<open>
  Monitors do not influence each other: what a monitor of one workspace is answered in an
  interleaved run is exactly what it is answered when its own alerts are the only ones, whatever
  the other monitors and workspaces send. This rests on \<open>budgetKey\<close> telling two pairs of
  workspace and monitor apart.
\<close>

theorem monitor_budget_isolation:
  "map snd (filter (\<lambda>(c, act). for_monitor ws m c) (zip calls (budget_run t calls))) =
     budget_run t (filter (for_monitor ws m) calls)"
proof -
  let ?own = "filter (for_monitor ws m) calls"
  consider "m \<le> 0" | "0 < m" "ws \<noteq> ''''" | "ws = ''''" by fastforce
  then show ?thesis
  proof cases
    case 1
    then show ?thesis
      using uncapped_run [of m ws calls t] uncapped_run [of m ws ?own t] for_monitor_run_id [of ws m calls t]
      by simp
  next
    case 2
    then show ?thesis
      using budget_run_bucket [of m ws calls t] budget_run_bucket [of m ws ?own t]
        for_monitor_run_id [of ws m calls t] by simp
  next
    case 3
    then have "\<not> for_monitor ws m c" for c
      using capWorkspace_nonempty by (auto simp: for_monitor_def)
    then show ?thesis by (simp add: filter_empty_conv case_prod_unfold)
  qed
qed

text \<open>
  Hysteresis: a throttled monitor leaves the throttled state only on a non-critical alert
  of that monitor that is allowed, at an instant at which the alerts it delivered within the
  last window have fallen to the recovery threshold. Nothing else ends throttling: no critical alert
  and no alert of another monitor or workspace.
\<close>

theorem monitor_throttle_hysteresis:
  fixes t :: MonitorBudgetTracker and ws :: string and m :: int
  assumes throttled: "IsThrottled t ws m"
    and recovered: "\<not> IsThrottled (snd (RecordAlert t c a now)) ws m"
  shows "capKey c a = budgetKey ws m \<and> \<not> critical a \<and>
     ca_Outcome (fst (RecordAlert t c a now)) = CapOutcomeAllow \<and>
     int (length (filter (\<lambda>ts. now - mc_Window (capConfig t (budgetKey ws m)) \<le> ts)
            (mb_timestamps (capBucket t (budgetKey ws m))))) \<le>
       recoveryThreshold (capConfig t (budgetKey ws m))"
proof -
  obtain b where b: "mt_buckets t (budgetKey ws m) = Some b" "mb_throttled b"
    using throttled by (auto simp: IsThrottled_def split: option.splits)
  have own: "capKey c a = budgetKey ws m" "0 < al_MonitorID a"
    using throttled recovered RecordAlert_frame(3) [of "budgetKey ws m" c a t now]
    by (fastforce simp: IsThrottled_def)+
  have "\<not> mb_throttled (snd (recordBucket (capConfig t (budgetKey ws m)) (al_Severity a) now b))"
    using recovered own b by (auto simp: IsThrottled_def RecordAlert_def Let_def capBucket_def split: prod.splits)
  then show ?thesis
    using own b RecordAlert_own [of a t c now]
    by (auto simp: capBucket_def record_defs not_less split: if_splits)
qed

theorem monitor_throttle_hysteresis_witness:
  "let c = \<lparr>ctx_workspace = None, ctx_system = False\<rparr>; a = alert0\<lparr>al_MonitorID := 7\<rparr>;
       t1 = snd (RecordAlert cap_demo c a 1); t2 = snd (RecordAlert t1 c a 8)
   in IsThrottled t2 Default 7 \<and> \<not> IsThrottled (snd (RecordAlert t2 c a 30)) Default 7 \<and>
      ca_Outcome (fst (RecordAlert t2 c a 30)) = CapOutcomeAllow"
proof -
  define c a where "c = \<lparr>ctx_workspace = None, ctx_system = False\<rparr>" and "a = alert0\<lparr>al_MonitorID := 7\<rparr>"
  define t2 where "t2 = snd (RecordAlert (snd (RecordAlert cap_demo c a 1)) c a 8)"
  have h: "IsThrottled t2 Default 7" "\<not> IsThrottled (snd (RecordAlert t2 c a 30)) Default 7"
    by (simp_all add: t2_def c_def a_def cap_demo_simps RecordAlert_def capKey_def capWorkspace_def
        From_def Default_def budgetKey_def capConfig_def capBucket_def monitorBucket0_def record_defs
        equal_fold_def to_lower_def char_lower_def IsThrottled_def recoveryThreshold_def wrap64_def go_div_def)
  then show ?thesis
    using monitor_throttle_hysteresis [OF h] by (simp add: Let_def c_def a_def t2_def)
qed

end
