(* ===== verification/Fairness_Gates.thy ===== *)
theory Fairness_Gates
  imports Beacon_Prelude
begin

text \<open>
  The two slot gates of \<open>internal/notify/fairness.go\<close>: \<open>laneGate\<close>, one FIFO of waiters, and
  \<open>channelGate\<close>, whose first attempts overtake retries. An \<open>acquire\<close> is two critical
  sections around a \<open>select\<close>: the entry takes a slot, queues a fresh wait channel or reports
  a full queue; a waiter then either sees its channel closed or, when its context ends first,
  leaves through the second section, which must hand a slot that was granted meanwhile to
  the next waiter. A wait channel is an identity and the lane of the attempt that waits on it.

  \<open>gate_step\<close> interleaves these sections in every order; \<open>slot_gate\<close> is the contract that
  its invariant needs of a gate.
\<close>

type_synonym waiter = "nat \<times> bool"

datatype entry = Acquired | Queued | Full

subsection \<open>laneGate\<close>

record laneGate =
  lg_maxActive :: int
  lg_maxQueue :: int
  lg_inFlight :: int
  lg_waiters :: "waiter list"

definition newLaneGate :: "int \<Rightarrow> int \<Rightarrow> laneGate" where
  "newLaneGate maxActive maxQueue =
     \<lparr>lg_maxActive = maxActive, lg_maxQueue = maxQueue, lg_inFlight = 0, lg_waiters = []\<rparr>"

definition lg_counts :: "laneGate \<Rightarrow> int \<times> int" where
  "lg_counts g = (lg_inFlight g, int (length (lg_waiters g)))"

text \<open>The entry section; \<open>extra\<close> is what \<open>extraQueue()\<close> returns, \<open>0\<close> when there is none.\<close>

definition lg_enter :: "int \<Rightarrow> laneGate \<Rightarrow> waiter \<Rightarrow> entry \<times> laneGate" where
  "lg_enter extra g w =
     (if lg_inFlight g < lg_maxActive g \<and> length (lg_waiters g) = 0
      then (Acquired, g\<lparr>lg_inFlight := lg_inFlight g + 1\<rparr>)
      else if lg_maxQueue g \<le> int (length (lg_waiters g)) + extra then (Full, g)
      else (Queued, g\<lparr>lg_waiters := lg_waiters g @ [w]\<rparr>))"

text \<open>\<open>removeWaiter\<close>: whether the channel was found, and the slice without its first occurrence.\<close>

fun removeWaiter :: "waiter list \<Rightarrow> waiter \<Rightarrow> bool \<times> waiter list" where
  "removeWaiter [] target = (False, [])"
| "removeWaiter (ch # s) target =
     (if ch = target then (True, s)
      else (case removeWaiter s target of (r, s') \<Rightarrow> (r, ch # s')))"

text \<open>\<open>releaseLocked\<close> returns the wait channel it closes, if any.\<close>

definition lg_releaseLocked :: "laneGate \<Rightarrow> waiter option \<times> laneGate" where
  "lg_releaseLocked g =
     (case lg_waiters g of
        next # rest \<Rightarrow> (Some next, g\<lparr>lg_waiters := rest\<rparr>)
      | [] \<Rightarrow> (None, if 0 < lg_inFlight g then g\<lparr>lg_inFlight := lg_inFlight g - 1\<rparr> else g))"

text \<open>The section after \<open>ctx.Done()\<close>.\<close>

definition lg_cancel :: "laneGate \<Rightarrow> waiter \<Rightarrow> waiter option \<times> laneGate" where
  "lg_cancel g w =
     (case removeWaiter (lg_waiters g) w of
        (True, ws) \<Rightarrow> (None, g\<lparr>lg_waiters := ws\<rparr>)
      | (False, ws) \<Rightarrow> lg_releaseLocked g)"

subsection \<open>channelGate\<close>

record channelGate =
  cg_maxActive :: int
  cg_maxQueue :: int
  cg_inFlight :: int
  cg_firstWaiters :: "waiter list"
  cg_retryWaiters :: "waiter list"

definition newChannelGate :: "int \<Rightarrow> int \<Rightarrow> channelGate" where
  "newChannelGate maxActive maxQueue =
     \<lparr>cg_maxActive = maxActive, cg_maxQueue = maxQueue, cg_inFlight = 0,
      cg_firstWaiters = [], cg_retryWaiters = []\<rparr>"

definition cg_counts :: "channelGate \<Rightarrow> int \<times> int" where
  "cg_counts g =
     (cg_inFlight g, int (length (cg_firstWaiters g)) + int (length (cg_retryWaiters g)))"

definition cg_enter :: "channelGate \<Rightarrow> waiter \<Rightarrow> entry \<times> channelGate" where
  "cg_enter g w =
     (let totalWaiters = int (length (cg_firstWaiters g)) + int (length (cg_retryWaiters g)) in
      if cg_inFlight g < cg_maxActive g \<and> totalWaiters = 0
      then (Acquired, g\<lparr>cg_inFlight := cg_inFlight g + 1\<rparr>)
      else if cg_maxQueue g \<le> totalWaiters then (Full, g)
      else (Queued,
            if snd w then g\<lparr>cg_retryWaiters := cg_retryWaiters g @ [w]\<rparr>
            else g\<lparr>cg_firstWaiters := cg_firstWaiters g @ [w]\<rparr>))"

definition cg_releaseLocked :: "channelGate \<Rightarrow> waiter option \<times> channelGate" where
  "cg_releaseLocked g =
     (case cg_firstWaiters g of
        next # rest \<Rightarrow> (Some next, g\<lparr>cg_firstWaiters := rest\<rparr>)
      | [] \<Rightarrow>
          (case cg_retryWaiters g of
             next # rest \<Rightarrow> (Some next, g\<lparr>cg_retryWaiters := rest\<rparr>)
           | [] \<Rightarrow> (None, if 0 < cg_inFlight g then g\<lparr>cg_inFlight := cg_inFlight g - 1\<rparr> else g)))"

definition cg_cancel :: "channelGate \<Rightarrow> waiter \<Rightarrow> waiter option \<times> channelGate" where
  "cg_cancel g w =
     (if snd w
      then (case removeWaiter (cg_retryWaiters g) w of
              (True, ws) \<Rightarrow> (None, g\<lparr>cg_retryWaiters := ws\<rparr>)
            | (False, ws) \<Rightarrow> cg_releaseLocked g)
      else (case removeWaiter (cg_firstWaiters g) w of
              (True, ws) \<Rightarrow> (None, g\<lparr>cg_firstWaiters := ws\<rparr>)
            | (False, ws) \<Rightarrow> cg_releaseLocked g))"

lemma length_remove1_int: "w \<in> set xs \<Longrightarrow> int (length (remove1 w xs)) = int (length xs) - 1"
  by (induction xs) auto

lemma sorted_wrt_remove1: "sorted_wrt R xs \<Longrightarrow> sorted_wrt R (remove1 x xs)"
  by (induction xs) (auto dest: set_remove1_subset [THEN subsetD])

text \<open>The waiters of one lane in an order of service.\<close>

abbreviation of_lane :: "bool \<Rightarrow> waiter list \<Rightarrow> waiter list" where
  "of_lane r ws \<equiv> filter (\<lambda>w. snd w = r) ws"

abbreviation older :: "waiter \<Rightarrow> waiter \<Rightarrow> bool" where
  "older a b \<equiv> fst a < fst b"

lemma removeWaiter_eq: "removeWaiter ws w = (w \<in> set ws, remove1 w ws)"
  by (induction ws) auto

subsection \<open>Interleaved executions\<close>

text \<open>
  \<open>gs_holders\<close> are the attempts that returned from \<open>acquire\<close> with a slot and have not called
  the release function, \<open>gs_granted\<close> the waiters whose channel was closed and that have not
  run since; \<open>gs_next\<close> numbers the wait channels. A release function runs once
  (\<open>sync.Once\<close>): a release consumes its holder.
\<close>

record 'g gate_sys =
  gs_gate :: 'g
  gs_holders :: "waiter list"
  gs_granted :: "waiter list"
  gs_next :: nat

abbreviation wake_list :: "waiter option \<Rightarrow> waiter list" where
  "wake_list x \<equiv> (case x of None \<Rightarrow> [] | Some w \<Rightarrow> [w])"

inductive gate_step ::
    "('e \<Rightarrow> 'g \<Rightarrow> waiter \<Rightarrow> entry \<times> 'g) \<Rightarrow> ('g \<Rightarrow> waiter option \<times> 'g) \<Rightarrow>
     ('g \<Rightarrow> waiter \<Rightarrow> waiter option \<times> 'g) \<Rightarrow> ('g \<Rightarrow> waiter list) \<Rightarrow>
     'g gate_sys \<Rightarrow> 'g gate_sys \<Rightarrow> bool"
  for enter release cancel waiting where
  acquired:
    "enter e (gs_gate s) (gs_next s, r) = (Acquired, g) \<Longrightarrow>
     gate_step enter release cancel waiting s
       (s\<lparr>gs_gate := g, gs_holders := (gs_next s, r) # gs_holders s, gs_next := gs_next s + 1\<rparr>)"
| queued:
    "enter e (gs_gate s) (gs_next s, r) = (Queued, g) \<Longrightarrow>
     gate_step enter release cancel waiting s (s\<lparr>gs_gate := g, gs_next := gs_next s + 1\<rparr>)"
| refused:
    "enter e (gs_gate s) (gs_next s, r) = (Full, g) \<Longrightarrow>
     gate_step enter release cancel waiting s (s\<lparr>gs_gate := g, gs_next := gs_next s + 1\<rparr>)"
| woken:
    "w \<in> set (gs_granted s) \<Longrightarrow>
     gate_step enter release cancel waiting s
       (s\<lparr>gs_granted := remove1 w (gs_granted s), gs_holders := w # gs_holders s\<rparr>)"
| released:
    "w \<in> set (gs_holders s) \<Longrightarrow> release (gs_gate s) = (x, g) \<Longrightarrow>
     gate_step enter release cancel waiting s
       (s\<lparr>gs_gate := g, gs_holders := remove1 w (gs_holders s),
          gs_granted := gs_granted s @ wake_list x\<rparr>)"
| cancelled:
    "w \<in> set (waiting (gs_gate s)) \<union> set (gs_granted s) \<Longrightarrow> cancel (gs_gate s) w = (x, g) \<Longrightarrow>
     gate_step enter release cancel waiting s
       (s\<lparr>gs_gate := g, gs_granted := remove1 w (gs_granted s) @ wake_list x\<rparr>)"

inductive_cases gate_stepE: "gate_step enter release cancel waiting s s'"

abbreviation gate_reach where
  "gate_reach enter release cancel waiting \<equiv> (gate_step enter release cancel waiting)\<^sup>*\<^sup>*"

definition gate_idle :: "'g \<Rightarrow> 'g gate_sys" where
  "gate_idle g = \<lparr>gs_gate = g, gs_holders = [], gs_granted = [], gs_next = 0\<rparr>"

subsection \<open>The contract of a gate\<close>

locale slot_gate =
  fixes enter :: "'e \<Rightarrow> 'g \<Rightarrow> waiter \<Rightarrow> entry \<times> 'g"
    and release :: "'g \<Rightarrow> waiter option \<times> 'g"
    and cancel :: "'g \<Rightarrow> waiter \<Rightarrow> waiter option \<times> 'g"
    and waiting :: "'g \<Rightarrow> waiter list"
    and inFlight maxActive maxQueue :: "'g \<Rightarrow> int"
    and ok :: "'g \<Rightarrow> bool"
  assumes enter_acquired:
      "ok g \<Longrightarrow> enter e g w = (Acquired, g') \<Longrightarrow>
         ok g' \<and> waiting g = [] \<and> waiting g' = [] \<and> inFlight g < maxActive g \<and>
         inFlight g' = inFlight g + 1 \<and> maxActive g' = maxActive g \<and> maxQueue g' = maxQueue g"
    and enter_queued:
      "ok g \<Longrightarrow> enter e g w = (Queued, g') \<Longrightarrow>
         ok g' \<and> (waiting g = [] \<longrightarrow> maxActive g \<le> inFlight g) \<and>
         set (waiting g') = insert w (set (waiting g)) \<and> length (waiting g') = Suc (length (waiting g)) \<and>
         int (length (waiting g')) \<le> maxQueue g \<and>
         (\<forall>r. of_lane r (waiting g') = of_lane r (waiting g) @ of_lane r [w]) \<and>
         inFlight g' = inFlight g \<and> maxActive g' = maxActive g \<and> maxQueue g' = maxQueue g"
    and enter_full: "ok g \<Longrightarrow> enter e g w = (Full, g') \<Longrightarrow> g' = g"
    and release_next:
      "ok g \<Longrightarrow> waiting g = w # ws \<Longrightarrow> release g = (x, g') \<Longrightarrow>
         ok g' \<and> x = Some w \<and> waiting g' = ws \<and>
         inFlight g' = inFlight g \<and> maxActive g' = maxActive g \<and> maxQueue g' = maxQueue g"
    and release_idle:
      "ok g \<Longrightarrow> waiting g = [] \<Longrightarrow> 0 < inFlight g \<Longrightarrow> release g = (x, g') \<Longrightarrow>
         ok g' \<and> x = None \<and> waiting g' = [] \<and>
         inFlight g' = inFlight g - 1 \<and> maxActive g' = maxActive g \<and> maxQueue g' = maxQueue g"
    and cancel_waiting:
      "ok g \<Longrightarrow> w \<in> set (waiting g) \<Longrightarrow> cancel g w = (x, g') \<Longrightarrow>
         ok g' \<and> x = None \<and> waiting g' = remove1 w (waiting g) \<and>
         inFlight g' = inFlight g \<and> maxActive g' = maxActive g \<and> maxQueue g' = maxQueue g"
    and cancel_late: "ok g \<Longrightarrow> w \<notin> set (waiting g) \<Longrightarrow> cancel g w = release g"
begin

definition gate_inv :: "int \<Rightarrow> int \<Rightarrow> 'g gate_sys \<Rightarrow> bool" where
  "gate_inv A Q s \<longleftrightarrow>
     ok (gs_gate s) \<and> maxActive (gs_gate s) = A \<and> maxQueue (gs_gate s) = Q \<and>
     distinct (gs_holders s @ gs_granted s @ waiting (gs_gate s)) \<and>
     (\<forall>w \<in> set (gs_holders s @ gs_granted s @ waiting (gs_gate s)). fst w < gs_next s) \<and>
     inFlight (gs_gate s) = int (length (gs_holders s)) + int (length (gs_granted s)) \<and>
     inFlight (gs_gate s) \<le> A \<and>
     (waiting (gs_gate s) \<noteq> [] \<longrightarrow> inFlight (gs_gate s) = A) \<and>
     int (length (waiting (gs_gate s))) \<le> Q"

lemma fresh_waiter: "gate_inv A Q s \<Longrightarrow> (gs_next s, r) \<notin> set (gs_holders s @ gs_granted s @ waiting (gs_gate s))"
  unfolding gate_inv_def by force

lemma inv_busy: "gate_inv A Q s \<Longrightarrow> w \<in> set (gs_holders s) \<union> set (gs_granted s) \<Longrightarrow> 0 < inFlight (gs_gate s)"
  unfolding gate_inv_def by (elim UnE; drule length_pos_if_in_set; linarith)

lemma inv_acquired:
  assumes inv: "gate_inv A Q s" and e: "enter e (gs_gate s) (gs_next s, r) = (Acquired, g)"
  shows "gate_inv A Q
    (s\<lparr>gs_gate := g, gs_holders := (gs_next s, r) # gs_holders s, gs_next := gs_next s + 1\<rparr>)"
proof -
  have "ok (gs_gate s)" using inv by (simp add: gate_inv_def)
  then show ?thesis
    using enter_acquired [OF _ e] inv fresh_waiter [OF inv, of r]
    by (auto simp: gate_inv_def less_Suc_eq)
qed

lemma inv_queued:
  assumes inv: "gate_inv A Q s" and e: "enter e (gs_gate s) (gs_next s, r) = (Queued, g)"
  shows "gate_inv A Q (s\<lparr>gs_gate := g, gs_next := gs_next s + 1\<rparr>)"
proof -
  have ok: "ok (gs_gate s)" using inv by (simp add: gate_inv_def)
  note q = enter_queued [OF ok e]
  have "card (set (waiting g)) = length (waiting g)"
    using q inv fresh_waiter [OF inv, of r] by (auto simp: gate_inv_def distinct_card)
  then have "distinct (waiting g)" by (rule card_distinct)
  then show ?thesis
    using q inv fresh_waiter [OF inv, of r] by (auto simp: gate_inv_def less_Suc_eq)
qed

lemma inv_woken:
  assumes inv: "gate_inv A Q s" and w: "w \<in> set (gs_granted s)"
  shows "gate_inv A Q (s\<lparr>gs_granted := remove1 w (gs_granted s), gs_holders := w # gs_holders s\<rparr>)"
proof -
  show ?thesis
    using inv w by (auto simp: gate_inv_def length_remove1_int dest: set_remove1_subset [THEN subsetD])
qed

text \<open>Handing a slot on, whether from a holder or from a granted waiter that gave up.\<close>

lemma release_slot:
  assumes "ok g" "release g = (x, g')" "0 < inFlight g"
  shows "ok g' \<and> maxActive g' = maxActive g \<and> maxQueue g' = maxQueue g \<and>
     waiting g = wake_list x @ waiting g' \<and>
     inFlight g' = inFlight g - 1 + int (length (wake_list x)) \<and>
     (x = None \<longrightarrow> waiting g' = [])"
  using release_idle [OF assms(1) _ assms(3,2)] release_next [OF assms(1) _ assms(2)] assms
  by (cases "waiting g") auto

lemma inv_handover:
  assumes inv: "gate_inv A Q s" and rel: "release (gs_gate s) = (x, g)"
    and w: "w \<in> set (gs_holders s) \<and> H = remove1 w (gs_holders s) \<and> G = gs_granted s \<or>
            w \<in> set (gs_granted s) \<and> H = gs_holders s \<and> G = remove1 w (gs_granted s)"
  shows "gate_inv A Q (s\<lparr>gs_gate := g, gs_holders := H, gs_granted := G @ wake_list x\<rparr>)"
proof -
  have len: "int (length (gs_holders s)) + int (length (gs_granted s)) = int (length H) + int (length G) + 1"
    using w by (auto simp: length_remove1_int)
  have sub: "set H \<subseteq> set (gs_holders s)" "set G \<subseteq> set (gs_granted s)" "distinct H" "distinct G"
    using w inv set_remove1_subset [of w] by (auto simp: gate_inv_def)
  have pos: "0 < inFlight (gs_gate s)" "ok (gs_gate s)"
    using inv len by (auto simp: gate_inv_def)
  note r = release_slot [OF pos(2) rel pos(1)]
  have W: "waiting (gs_gate s) = wake_list x @ waiting g" using r by simp
  have "distinct (H @ (G @ wake_list x) @ waiting g)"
    using inv sub unfolding gate_inv_def W by auto
  moreover have "\<forall>w \<in> set (H @ (G @ wake_list x) @ waiting g). fst w < gs_next s"
    using inv sub unfolding gate_inv_def W by auto
  moreover have "waiting g \<noteq> [] \<longrightarrow> inFlight g = A"
    using r inv by (cases x) (auto simp: gate_inv_def)
  moreover have "inFlight g = int (length H) + int (length (G @ wake_list x)) \<and> inFlight g \<le> A"
    using r inv len by (cases x) (auto simp: gate_inv_def)
  moreover have "ok g \<and> maxActive g = A \<and> maxQueue g = Q \<and> int (length (waiting g)) \<le> Q"
    using r inv by (auto simp: gate_inv_def)
  ultimately show ?thesis by (simp add: gate_inv_def)
qed

lemma inv_cancelled:
  assumes inv: "gate_inv A Q s" and c: "cancel (gs_gate s) w = (x, g)"
    and w: "w \<in> set (waiting (gs_gate s)) \<union> set (gs_granted s)"
  shows "gate_inv A Q (s\<lparr>gs_gate := g, gs_granted := remove1 w (gs_granted s) @ wake_list x\<rparr>)"
proof (cases "w \<in> set (waiting (gs_gate s))")
  case True
  have ok: "ok (gs_gate s)" using inv by (simp add: gate_inv_def)
  have "w \<notin> set (gs_granted s)" using True inv by (auto simp: gate_inv_def)
  then show ?thesis
    using cancel_waiting [OF ok True c] inv set_remove1_subset [of w "waiting (gs_gate s)"]
      length_remove1 [of w "waiting (gs_gate s)"] True
    by (auto simp: gate_inv_def remove1_idem)
next
  case False
  have ok: "ok (gs_gate s)" using inv by (simp add: gate_inv_def)
  have "release (gs_gate s) = (x, g)" using cancel_late [OF ok False] c by simp
  from inv_handover [OF inv this, of w "gs_holders s" "remove1 w (gs_granted s)"] False w
  show ?thesis by simp
qed

lemma inv_step [inv_intros]:
  assumes "gate_inv A Q s" "gate_step enter release cancel waiting s s'"
  shows "gate_inv A Q s'"
  using assms(2)
proof cases
  case (acquired e r g)
  then show ?thesis using inv_acquired [OF assms(1)] by simp
next
  case (queued e r g)
  then show ?thesis using inv_queued [OF assms(1)] by simp
next
  case (refused e r g)
  then show ?thesis
    using assms(1) enter_full [OF _ refused(2)] by (auto simp: gate_inv_def less_Suc_eq)
next
  case (woken w)
  then show ?thesis using inv_woken [OF assms(1)] by simp
next
  case (released w x g)
  then show ?thesis
    using inv_handover [OF assms(1) released(3), of w "remove1 w (gs_holders s)" "gs_granted s"] by simp
next
  case (cancelled w x g)
  then show ?thesis using inv_cancelled [OF assms(1) cancelled(3,2)] by simp
qed

definition gate_fifo :: "'g gate_sys \<Rightarrow> bool" where
  "gate_fifo s \<longleftrightarrow> (\<forall>r. sorted_wrt older (of_lane r (waiting (gs_gate s))))"

lemma fifo_handover:
  assumes "gate_inv A Q s" "gate_fifo s" "release (gs_gate s) = (x, g)" "0 < inFlight (gs_gate s)"
  shows "\<forall>r. sorted_wrt older (of_lane r (waiting g))"
  using release_slot [OF _ assms(3,4)] assms(1,2)
  by (auto simp: gate_inv_def gate_fifo_def sorted_wrt_append)

lemma fifo_step:
  assumes inv: "gate_inv A Q s" and fifo: "gate_fifo s"
    and step: "gate_step enter release cancel waiting s s'"
  shows "gate_fifo s'"
proof -
  have ok: "ok (gs_gate s)" using inv by (simp add: gate_inv_def)
  show ?thesis
    using step
  proof cases
    case (acquired e r g)
    then show ?thesis using enter_acquired [OF ok acquired(2)] by (simp add: gate_fifo_def)
  next
    case (queued e r g)
    have "\<forall>w \<in> set (waiting (gs_gate s)). fst w < gs_next s"
      using inv by (simp add: gate_inv_def)
    moreover have "of_lane k (waiting g) = of_lane k (waiting (gs_gate s)) @ of_lane k [(gs_next s, r)]" for k
      using enter_queued [OF ok queued(2)] by blast
    ultimately show ?thesis
      using fifo queued(1) by (auto simp: gate_fifo_def sorted_wrt_append)
  next
    case (refused e r g)
    then show ?thesis using enter_full [OF ok refused(2)] fifo by (simp add: gate_fifo_def)
  next
    case (woken w)
    then show ?thesis using fifo by (simp add: gate_fifo_def)
  next
    case (released w x g)
    then have "0 < inFlight (gs_gate s)"
      using inv_busy [OF inv, of w] by simp
    then show ?thesis
      using fifo_handover [OF inv fifo released(3)] released by (simp add: gate_fifo_def)
  next
    case (cancelled w x g)
    show ?thesis
    proof (cases "w \<in> set (waiting (gs_gate s))")
      case True
      then show ?thesis
        using cancel_waiting [OF ok True cancelled(3)] fifo cancelled(1)
        by (simp add: gate_fifo_def filter_remove1 sorted_wrt_remove1)
    next
      case False
      with cancelled(2) have "0 < inFlight (gs_gate s)"
        using inv_busy [OF inv, of w] by simp
      then show ?thesis
        using fifo_handover [OF inv fifo, of x g] cancel_late [OF ok False] cancelled(1,3)
        by (simp add: gate_fifo_def)
    qed
  qed
qed

lemma reach_inv:
  assumes "gate_reach enter release cancel waiting s s'" "gate_inv A Q s" "gate_fifo s"
  shows "gate_inv A Q s' \<and> gate_fifo s'"
  using assms by (induction rule: rtranclp_induct) (auto intro: inv_step fifo_step)

lemma idle_inv:
  "ok g \<Longrightarrow> waiting g = [] \<Longrightarrow> inFlight g = 0 \<Longrightarrow> 0 \<le> maxActive g \<Longrightarrow> 0 \<le> maxQueue g \<Longrightarrow>
   gate_inv (maxActive g) (maxQueue g) (gate_idle g) \<and> gate_fifo (gate_idle g)"
  by (simp add: gate_inv_def gate_fifo_def gate_idle_def)

text \<open>Everything a client relies on, for every state reachable from an idle gate.\<close>

lemma reach_safe:
  assumes "gate_reach enter release cancel waiting (gate_idle g) s"
    and "ok g" "waiting g = []" "inFlight g = 0" "0 < maxActive g" "0 \<le> maxQueue g"
  shows "int (length (gs_holders s)) + int (length (gs_granted s)) = inFlight (gs_gate s) \<and>
     inFlight (gs_gate s) \<le> maxActive g \<and>
     int (length (waiting (gs_gate s))) \<le> maxQueue g \<and>
     (waiting (gs_gate s) \<noteq> [] \<longrightarrow> inFlight (gs_gate s) = maxActive g) \<and> ok (gs_gate s)"
  using reach_inv [OF assms(1)] idle_inv [of g] assms by (auto simp: gate_inv_def)

lemma reach_handover:
  assumes "gate_reach enter release cancel waiting (gate_idle g) s"
    and "ok g" "waiting g = []" "inFlight g = 0" "0 < maxActive g" "0 \<le> maxQueue g"
    and "w \<in> set (gs_holders s)" "waiting (gs_gate s) \<noteq> []"
  shows "fst (release (gs_gate s)) = Some (hd (waiting (gs_gate s))) \<and>
     (\<forall>v \<in> set (tl (waiting (gs_gate s))). snd v = snd (hd (waiting (gs_gate s))) \<longrightarrow>
        fst (hd (waiting (gs_gate s))) < fst v)"
proof -
  obtain h t where ht: "waiting (gs_gate s) = h # t" using assms(8) by (cases "waiting (gs_gate s)") auto
  have i: "gate_inv (maxActive g) (maxQueue g) s" "gate_fifo s"
    using reach_inv [OF assms(1)] idle_inv [of g] assms by auto
  have "fst (release (gs_gate s)) = Some h"
    using release_next [OF _ ht] i(1) by (cases "release (gs_gate s)") (auto simp: gate_inv_def)
  moreover have "\<forall>v \<in> set t. snd v = snd h \<longrightarrow> fst h < fst v"
    using i(2) [unfolded gate_fifo_def, rule_format, of "snd h"] by (auto simp: ht)
  ultimately show ?thesis by (simp add: ht)
qed

end

subsection \<open>Both gates keep the contract\<close>

interpretation lane: slot_gate "\<lambda>extra :: nat. lg_enter (int extra)" lg_releaseLocked lg_cancel
  lg_waiters lg_inFlight lg_maxActive lg_maxQueue "\<lambda>g. True"
  by unfold_locales
    (auto simp: lg_enter_def lg_releaseLocked_def lg_cancel_def removeWaiter_eq split: if_splits)

definition cg_waiting :: "channelGate \<Rightarrow> waiter list" where
  "cg_waiting g = cg_firstWaiters g @ cg_retryWaiters g"

definition cg_ok :: "channelGate \<Rightarrow> bool" where
  "cg_ok g \<longleftrightarrow> list_all (\<lambda>w. \<not> snd w) (cg_firstWaiters g) \<and> list_all snd (cg_retryWaiters g)"

lemma list_all_remove1: "list_all P xs \<Longrightarrow> list_all P (remove1 x xs)"
  by (induction xs) auto

lemma no_waiters [simp]: "int (length xs) + int (length ys) = 0 \<longleftrightarrow> xs = [] \<and> ys = []"
  by (cases xs; cases ys) auto

lemma other_lane: "list_all (\<lambda>w. snd w \<noteq> r) ws \<Longrightarrow> snd w = r \<Longrightarrow> w \<notin> set ws"
  by (auto simp: list_all_iff)

lemma cg_cancel_waiting:
  assumes "cg_ok g" "w \<in> set (cg_waiting g)" "cg_cancel g w = (x, g')"
  shows "cg_ok g' \<and> x = None \<and> cg_waiting g' = remove1 w (cg_waiting g) \<and>
    cg_inFlight g' = cg_inFlight g \<and> cg_maxActive g' = cg_maxActive g \<and> cg_maxQueue g' = cg_maxQueue g"
  using assms other_lane [of "snd w" "cg_firstWaiters g" w] other_lane [of "snd w" "cg_retryWaiters g" w]
  by (cases "snd w")
    (auto simp: cg_ok_def cg_waiting_def cg_cancel_def removeWaiter_eq remove1_append list_all_remove1)

lemma cg_cancel_late: "cg_ok g \<Longrightarrow> w \<notin> set (cg_waiting g) \<Longrightarrow> cg_cancel g w = cg_releaseLocked g"
  by (auto simp: cg_waiting_def cg_cancel_def removeWaiter_eq)

interpretation chgate: slot_gate "\<lambda>u :: unit. cg_enter" cg_releaseLocked cg_cancel
  cg_waiting cg_inFlight cg_maxActive cg_maxQueue cg_ok
proof (unfold_locales, goal_cases)
  case (1 g e w g')
  then show ?case by (auto simp: cg_enter_def cg_waiting_def cg_ok_def Let_def split: if_splits)
next
  case (2 g e w g')
  then show ?case
    by (cases "snd w") (auto simp: cg_enter_def cg_waiting_def cg_ok_def Let_def filter_empty_conv list_all_iff split: if_splits)
next
  case (3 g e w g')
  then show ?case by (auto simp: cg_enter_def Let_def split: if_splits)
next
  case (4 g w ws x g')
  then show ?case
    by (cases "cg_firstWaiters g") (auto simp: cg_releaseLocked_def cg_waiting_def cg_ok_def)
next
  case (5 g x g')
  then show ?case by (auto simp: cg_releaseLocked_def cg_waiting_def cg_ok_def)
next
  case (6 g w x g')
  then show ?case using cg_cancel_waiting by blast
next
  case (7 g w)
  then show ?case by (rule cg_cancel_late)
qed

abbreviation lane_reach :: "laneGate gate_sys \<Rightarrow> laneGate gate_sys \<Rightarrow> bool" where
  "lane_reach \<equiv> gate_reach (\<lambda>extra :: nat. lg_enter (int extra)) lg_releaseLocked lg_cancel lg_waiters"

abbreviation channel_reach :: "channelGate gate_sys \<Rightarrow> channelGate gate_sys \<Rightarrow> bool" where
  "channel_reach \<equiv> gate_reach (\<lambda>u :: unit. cg_enter) cg_releaseLocked cg_cancel cg_waiting"

text \<open>
  C14. A workspace lane, under every interleaving of arrivals, releases, wake-ups and context
  cancellations: the slots out are exactly the attempts that hold one or have just been
  handed one (none leaks when a waiter gives up while it is being granted a slot), they never exceed
  \<open>maxActive\<close>, the queue never exceeds \<open>maxQueue\<close>, no slot is idle while an attempt waits, and a
  released slot goes to the attempt that has waited longest.
\<close>

theorem lane_gate_safe:
  fixes A Q :: int
  assumes reach: "lane_reach (gate_idle (newLaneGate A Q)) s" and pos: "0 < A" "0 \<le> Q"
  shows "lg_inFlight (gs_gate s) = int (length (gs_holders s)) + int (length (gs_granted s)) \<and>
     lg_inFlight (gs_gate s) \<le> A \<and> int (length (lg_waiters (gs_gate s))) \<le> Q \<and>
     (lg_waiters (gs_gate s) \<noteq> [] \<longrightarrow> lg_inFlight (gs_gate s) = A) \<and>
     (\<forall>w ws. gs_holders s \<noteq> [] \<and> lg_waiters (gs_gate s) = w # ws \<longrightarrow>
        fst (lg_releaseLocked (gs_gate s)) = Some w \<and>
        (\<forall>v \<in> set ws. snd v = snd w \<longrightarrow> fst w < fst v))"
proof -
  have g: "lg_waiters (newLaneGate A Q) = []" "lg_inFlight (newLaneGate A Q) = 0"
    "lg_maxActive (newLaneGate A Q) = A" "lg_maxQueue (newLaneGate A Q) = Q"
    by (simp_all add: newLaneGate_def)
  have hand: "fst (lg_releaseLocked (gs_gate s)) = Some w \<and> (\<forall>v \<in> set ws. snd v = snd w \<longrightarrow> fst w < fst v)"
    if "gs_holders s \<noteq> []" "lg_waiters (gs_gate s) = w # ws" for w ws
    using lane.reach_handover [OF reach, of "hd (gs_holders s)"] that g pos by simp
  show ?thesis
    using lane.reach_safe [OF reach] hand g pos by auto
qed

text \<open>
  The per-channel gate keeps the same bounds over its two queues, and a slot freed while a
  first attempt waits goes to the oldest first attempt, never to a retry; retries are served
  in their own arrival order once no first attempt waits.
\<close>

theorem channel_gate_safe:
  fixes A Q :: int
  assumes reach: "channel_reach (gate_idle (newChannelGate A Q)) s" and pos: "0 < A" "0 \<le> Q"
  shows "cg_inFlight (gs_gate s) = int (length (gs_holders s)) + int (length (gs_granted s)) \<and>
     cg_inFlight (gs_gate s) \<le> A \<and> snd (cg_counts (gs_gate s)) \<le> Q \<and>
     (snd (cg_counts (gs_gate s)) \<noteq> 0 \<longrightarrow> cg_inFlight (gs_gate s) = A) \<and>
     (gs_holders s \<noteq> [] \<longrightarrow>
        (\<forall>w ws. cg_firstWaiters (gs_gate s) = w # ws \<longrightarrow>
           fst (cg_releaseLocked (gs_gate s)) = Some w \<and> \<not> snd w \<and> (\<forall>v \<in> set ws. fst w < fst v)) \<and>
        (\<forall>w ws. cg_firstWaiters (gs_gate s) = [] \<and> cg_retryWaiters (gs_gate s) = w # ws \<longrightarrow>
           fst (cg_releaseLocked (gs_gate s)) = Some w \<and> snd w \<and> (\<forall>v \<in> set ws. fst w < fst v)))"
proof -
  have g: "cg_waiting (newChannelGate A Q) = []" "cg_inFlight (newChannelGate A Q) = 0" "cg_ok (newChannelGate A Q)"
    "cg_maxActive (newChannelGate A Q) = A" "cg_maxQueue (newChannelGate A Q) = Q"
    by (simp_all add: newChannelGate_def cg_waiting_def cg_ok_def)
  have hand: "fst (cg_releaseLocked (gs_gate s)) = Some (hd (cg_waiting (gs_gate s))) \<and>
     (\<forall>v \<in> set (tl (cg_waiting (gs_gate s))). snd v = snd (hd (cg_waiting (gs_gate s))) \<longrightarrow>
        fst (hd (cg_waiting (gs_gate s))) < fst v)"
    if "gs_holders s \<noteq> []" "cg_waiting (gs_gate s) \<noteq> []"
    using chgate.reach_handover [OF reach, of "hd (gs_holders s)"] that g pos by simp
  note safe = chgate.reach_safe [OF reach]
  have okg: "list_all (\<lambda>w. \<not> snd w) (cg_firstWaiters (gs_gate s))" "list_all snd (cg_retryWaiters (gs_gate s))"
    using safe g pos by (simp_all add: cg_ok_def)
  have first: "fst (cg_releaseLocked (gs_gate s)) = Some w \<and> \<not> snd w \<and> (\<forall>v \<in> set ws. fst w < fst v)"
    if h: "gs_holders s \<noteq> []" and w: "cg_firstWaiters (gs_gate s) = w # ws" for w ws
    using hand [OF h] okg(1) by (simp add: w cg_waiting_def list_all_iff)
  have retry: "fst (cg_releaseLocked (gs_gate s)) = Some w \<and> snd w \<and> (\<forall>v \<in> set ws. fst w < fst v)"
    if h: "gs_holders s \<noteq> []" and w: "cg_firstWaiters (gs_gate s) = []" "cg_retryWaiters (gs_gate s) = w # ws" for w ws
    using hand [OF h] okg(2) by (simp add: w cg_waiting_def list_all_iff)
  show ?thesis
    using safe first retry g pos by (simp add: cg_waiting_def cg_counts_def)
qed

text \<open>One holder, one waiter.\<close>

lemma lane_demo:
  "lane_reach (gate_idle (newLaneGate 1 2))
     \<lparr>gs_gate = \<lparr>lg_maxActive = 1, lg_maxQueue = 2, lg_inFlight = 1, lg_waiters = [(1, False)]\<rparr>,
      gs_holders = [(0, False)], gs_granted = [], gs_next = 2\<rparr>"
proof -
  let ?g1 = "\<lparr>lg_maxActive = 1, lg_maxQueue = 2, lg_inFlight = 1, lg_waiters = []\<rparr>"
  let ?s1 = "\<lparr>gs_gate = ?g1, gs_holders = [(0, False)], gs_granted = [], gs_next = 1\<rparr>"
  have 1: "gate_step (\<lambda>extra :: nat. lg_enter (int extra)) lg_releaseLocked lg_cancel lg_waiters
      (gate_idle (newLaneGate 1 2)) ?s1"
    using gate_step.acquired [where s = "gate_idle (newLaneGate 1 2)" and e = 0 and r = False and g = ?g1
        and enter = "\<lambda>extra :: nat. lg_enter (int extra)"]
    by (simp add: gate_idle_def newLaneGate_def lg_enter_def)
  have 2: "gate_step (\<lambda>extra :: nat. lg_enter (int extra)) lg_releaseLocked lg_cancel lg_waiters ?s1
      (?s1\<lparr>gs_gate := ?g1\<lparr>lg_waiters := [(1, False)]\<rparr>, gs_next := 2\<rparr>)"
    using gate_step.queued [where s = ?s1 and e = 0 and r = False and g = "?g1\<lparr>lg_waiters := [(1, False)]\<rparr>"
        and enter = "\<lambda>extra :: nat. lg_enter (int extra)"]
    by (simp add: lg_enter_def numeral_2_eq_2)
  from 1 2 show ?thesis by simp
qed

theorem lane_gate_safe_witness:
  "fst (lg_releaseLocked \<lparr>lg_maxActive = 1, lg_maxQueue = 2, lg_inFlight = 1, lg_waiters = [(1, False)]\<rparr>) =
     Some (1, False)"
  using lane_gate_safe [OF lane_demo] by simp

lemma channel_demo:
  "channel_reach (gate_idle (newChannelGate 1 2))
     \<lparr>gs_gate = \<lparr>cg_maxActive = 1, cg_maxQueue = 2, cg_inFlight = 1, cg_firstWaiters = [(2, False)],
        cg_retryWaiters = [(1, True)]\<rparr>,
      gs_holders = [(0, False)], gs_granted = [], gs_next = 3\<rparr>"
proof -
  let ?g1 = "\<lparr>cg_maxActive = 1, cg_maxQueue = 2, cg_inFlight = 1, cg_firstWaiters = [], cg_retryWaiters = []\<rparr>"
  let ?g2 = "?g1\<lparr>cg_retryWaiters := [(1, True)]\<rparr>"
  let ?s1 = "\<lparr>gs_gate = ?g1, gs_holders = [(0, False)], gs_granted = [], gs_next = 1\<rparr>"
  let ?s2 = "?s1\<lparr>gs_gate := ?g2, gs_next := 2\<rparr>"
  let ?step = "gate_step (\<lambda>u :: unit. cg_enter) cg_releaseLocked cg_cancel cg_waiting"
  have 1: "?step (gate_idle (newChannelGate 1 2)) ?s1"
    using gate_step.acquired [where s = "gate_idle (newChannelGate 1 2)" and r = False and g = ?g1
        and enter = "\<lambda>u :: unit. cg_enter"]
    by (simp add: gate_idle_def newChannelGate_def cg_enter_def)
  have 2: "?step ?s1 ?s2"
    using gate_step.queued [where s = ?s1 and r = True and g = ?g2 and enter = "\<lambda>u :: unit. cg_enter"]
    by (simp add: cg_enter_def numeral_2_eq_2)
  have 3: "?step ?s2 (?s2\<lparr>gs_gate := ?g2\<lparr>cg_firstWaiters := [(2, False)]\<rparr>, gs_next := 3\<rparr>)"
    using gate_step.queued [where s = ?s2 and r = False and g = "?g2\<lparr>cg_firstWaiters := [(2, False)]\<rparr>"
        and enter = "\<lambda>u :: unit. cg_enter"]
    by (simp add: cg_enter_def)
  from 1 2 3 show ?thesis by simp
qed

theorem channel_gate_safe_witness:
  "fst (cg_releaseLocked \<lparr>cg_maxActive = 1, cg_maxQueue = 2, cg_inFlight = 1,
      cg_firstWaiters = [(2, False)], cg_retryWaiters = [(1, True)]\<rparr>) = Some (2, False)"
  using channel_gate_safe [OF channel_demo] by simp

end
