(* ===== verification/Fairness.thy ===== *)
theory Fairness
  imports Fairness_Gates Notify_Types
begin

text \<open>
  \<open>internal/notify/fairness.go\<close> above the gates: the configuration, the per-workspace and
  per-channel pools, the scheduler that creates them, the bounded asynchronous submission queue
  with its workers, and the teardown of a workspace. Metrics callbacks (\<open>onChange\<close>,
  \<open>sync*Metrics\<close>) only export the backlog and are left out. Each critical section is one
  function; \<open>pool_run\<close> interleaves submissions with the turns of the workers.
\<close>

datatype fair_err = ErrWorkspaceQueueFull | ErrRetryQueueFull | ErrChannelQueueFull

definition DefaultWorkspaceMaxInFlight :: int where "DefaultWorkspaceMaxInFlight = 8"
definition DefaultWorkspaceMaxQueue :: int where "DefaultWorkspaceMaxQueue = 64"
definition DefaultWorkspaceMaxRetryInFlight :: int where "DefaultWorkspaceMaxRetryInFlight = 2"
definition DefaultWorkspaceMaxRetryQueue :: int where "DefaultWorkspaceMaxRetryQueue = 16"
definition DefaultChannelMaxInFlight :: int where "DefaultChannelMaxInFlight = 1"
definition DefaultChannelMaxQueue :: int where "DefaultChannelMaxQueue = 32"

lemmas fair_defaults = DefaultWorkspaceMaxInFlight_def DefaultWorkspaceMaxQueue_def
  DefaultWorkspaceMaxRetryInFlight_def DefaultWorkspaceMaxRetryQueue_def
  DefaultChannelMaxInFlight_def DefaultChannelMaxQueue_def

record FairnessConfig =
  fc_MaxWorkspaceInFlight :: int
  fc_MaxWorkspaceQueue :: int
  fc_MaxWorkspaceRetryInFlight :: int
  fc_MaxWorkspaceRetryQueue :: int
  fc_MaxChannelInFlight :: int
  fc_MaxChannelQueue :: int
  fc_AsyncDispatch :: bool

definition fair_Normalized :: "FairnessConfig \<Rightarrow> FairnessConfig" where
  "fair_Normalized c =
     (let inFlight = (if fc_MaxWorkspaceInFlight c \<le> 0 then DefaultWorkspaceMaxInFlight
                      else fc_MaxWorkspaceInFlight c);
          half = go_div inFlight 2;
          half1 = (if half < 1 then 1 else half);
          half2 = (if DefaultWorkspaceMaxRetryInFlight < half1
                   then DefaultWorkspaceMaxRetryInFlight else half1)
      in \<lparr>fc_MaxWorkspaceInFlight = inFlight,
          fc_MaxWorkspaceQueue =
            (if fc_MaxWorkspaceQueue c \<le> 0 then DefaultWorkspaceMaxQueue else fc_MaxWorkspaceQueue c),
          fc_MaxWorkspaceRetryInFlight =
            (if fc_MaxWorkspaceRetryInFlight c \<le> 0
             then (if 0 < fc_MaxWorkspaceInFlight c then half2 else DefaultWorkspaceMaxRetryInFlight)
             else fc_MaxWorkspaceRetryInFlight c),
          fc_MaxWorkspaceRetryQueue =
            (if fc_MaxWorkspaceRetryQueue c \<le> 0 then DefaultWorkspaceMaxRetryQueue
             else fc_MaxWorkspaceRetryQueue c),
          fc_MaxChannelInFlight =
            (if fc_MaxChannelInFlight c \<le> 0 then DefaultChannelMaxInFlight else fc_MaxChannelInFlight c),
          fc_MaxChannelQueue =
            (if fc_MaxChannelQueue c \<le> 0 then DefaultChannelMaxQueue else fc_MaxChannelQueue c),
          fc_AsyncDispatch = fc_AsyncDispatch c\<rparr>)"

record WorkspaceBacklog =
  wb_WorkspaceID :: string
  wb_InFlight :: int
  wb_QueueDepth :: int
  wb_RetryInFlight :: int
  wb_RetryQueueDepth :: int
  wb_OverflowTotal :: int

record ChannelBacklog =
  cbl_ChannelID :: int
  cbl_InFlight :: int
  cbl_QueueDepth :: int

record FairnessSnapshot =
  snap_Workspaces :: "string \<rightharpoonup> WorkspaceBacklog"
  snap_Channels :: "int \<rightharpoonup> ChannelBacklog"

type_synonym submittedAlert = "ctx \<times> alert"

record workspaceSlotPool =
  wp_workspaceID :: string
  wp_firstAttemptGate :: laneGate
  wp_retryGate :: laneGate
  wp_overflowTotal :: int
  wp_submitQueue :: "submittedAlert list"
  wp_activeWorkers :: int
  wp_maxWorkers :: int
  wp_maxQueue :: int

definition newWorkspaceSlotPool :: "string \<Rightarrow> FairnessConfig \<Rightarrow> workspaceSlotPool" where
  "newWorkspaceSlotPool wsID cfg =
     \<lparr>wp_workspaceID = wsID,
      wp_firstAttemptGate = newLaneGate (fc_MaxWorkspaceInFlight cfg) (fc_MaxWorkspaceQueue cfg),
      wp_retryGate = newLaneGate (fc_MaxWorkspaceRetryInFlight cfg) (fc_MaxWorkspaceRetryQueue cfg),
      wp_overflowTotal = 0,
      wp_submitQueue = [],
      wp_activeWorkers = 0,
      wp_maxWorkers = fc_MaxWorkspaceInFlight cfg,
      wp_maxQueue = fc_MaxWorkspaceQueue cfg\<rparr>"

definition submitQueueLen :: "workspaceSlotPool \<Rightarrow> nat" where
  "submitQueueLen p = length (wp_submitQueue p)"

definition wp_backlog :: "workspaceSlotPool \<Rightarrow> WorkspaceBacklog" where
  "wp_backlog p =
     (case (lg_counts (wp_firstAttemptGate p), lg_counts (wp_retryGate p)) of
        ((firstInFlight, firstWaiters), (retryInFlight, retryWaiters)) \<Rightarrow>
          \<lparr>wb_WorkspaceID = wp_workspaceID p,
           wb_InFlight = firstInFlight,
           wb_QueueDepth = firstWaiters + int (submitQueueLen p),
           wb_RetryInFlight = retryInFlight,
           wb_RetryQueueDepth = retryWaiters,
           wb_OverflowTotal = wp_overflowTotal p\<rparr>)"

record channelSlotPool =
  cp_channelID :: int
  cp_gate :: channelGate

definition newChannelSlotPool :: "int \<Rightarrow> FairnessConfig \<Rightarrow> channelSlotPool" where
  "newChannelSlotPool channelID cfg =
     \<lparr>cp_channelID = channelID,
      cp_gate = newChannelGate (fc_MaxChannelInFlight cfg) (fc_MaxChannelQueue cfg)\<rparr>"

definition cp_backlog :: "channelSlotPool \<Rightarrow> ChannelBacklog" where
  "cp_backlog p =
     (case cg_counts (cp_gate p) of (inFlight, queued) \<Rightarrow>
        \<lparr>cbl_ChannelID = cp_channelID p, cbl_InFlight = inFlight, cbl_QueueDepth = queued\<rparr>)"

record FairnessScheduler =
  fs_cfg :: FairnessConfig
  fs_workspaces :: "string \<rightharpoonup> workspaceSlotPool"
  fs_channels :: "int \<rightharpoonup> channelSlotPool"

definition NewFairnessScheduler :: "FairnessConfig \<Rightarrow> FairnessScheduler" where
  "NewFairnessScheduler cfg =
     \<lparr>fs_cfg = fair_Normalized cfg, fs_workspaces = Map.empty, fs_channels = Map.empty\<rparr>"

definition normalizeWorkspaceID :: "string \<Rightarrow> string" where
  "normalizeWorkspaceID wsID = (let ws = trim_space wsID in if ws = '''' then ''default'' else ws)"

definition resolveWorkspaceID :: "ctx \<Rightarrow> channel \<Rightarrow> string" where
  "resolveWorkspaceID c ch =
     (let own = trim_space (ch_WorkspaceID ch); (ws, ok) = From c in
      if own \<noteq> '''' then own
      else if ok \<and> \<not> System c \<and> trim_space ws \<noteq> '''' then trim_space ws
      else ''default'')"

definition workspacePool :: "FairnessScheduler \<Rightarrow> string \<Rightarrow> workspaceSlotPool \<times> FairnessScheduler" where
  "workspacePool s wsID =
     (let ws = normalizeWorkspaceID wsID in
      case fs_workspaces s ws of
        Some p \<Rightarrow> (p, s)
      | None \<Rightarrow>
          (let p = newWorkspaceSlotPool ws (fs_cfg s)
           in (p, s\<lparr>fs_workspaces := (fs_workspaces s)(ws \<mapsto> p)\<rparr>)))"

definition channelPool :: "FairnessScheduler \<Rightarrow> int \<Rightarrow> channelSlotPool \<times> FairnessScheduler" where
  "channelPool s channelID =
     (case fs_channels s channelID of
        Some p \<Rightarrow> (p, s)
      | None \<Rightarrow>
          (let p = newChannelSlotPool channelID (fs_cfg s)
           in (p, s\<lparr>fs_channels := (fs_channels s)(channelID \<mapsto> p)\<rparr>)))"

definition putPool :: "FairnessScheduler \<Rightarrow> string \<Rightarrow> workspaceSlotPool \<Rightarrow> FairnessScheduler" where
  "putPool s wsID p = s\<lparr>fs_workspaces := (fs_workspaces s)(normalizeWorkspaceID wsID \<mapsto> p)\<rparr>"

definition recordOverflow :: "FairnessScheduler \<Rightarrow> string \<Rightarrow> FairnessScheduler" where
  "recordOverflow s wsID =
     (case workspacePool s wsID of (p, s') \<Rightarrow>
        putPool s' wsID (p\<lparr>wp_overflowTotal := wp_overflowTotal p + 1\<rparr>))"

subsection \<open>Asynchronous submission\<close>

text \<open>
  What \<open>Submit\<close> does under \<open>submitMu\<close>: hand the alert to a new worker, queue it (spawning a
  worker when one more is allowed), or report saturation. \<open>gateWaiters\<close> was read from the
  first-attempt gate just before.
\<close>

datatype submitted = ToWorker | ToQueue bool | Saturated

definition pool_Submit ::
    "workspaceSlotPool \<Rightarrow> nat \<Rightarrow> submittedAlert \<Rightarrow> submitted \<times> workspaceSlotPool" where
  "pool_Submit p gateWaiters item =
     (if wp_activeWorkers p < wp_maxWorkers p \<and> length (wp_submitQueue p) = 0
      then (ToWorker, p\<lparr>wp_activeWorkers := wp_activeWorkers p + 1\<rparr>)
      else if wp_maxQueue p \<le> int (length (wp_submitQueue p)) + int gateWaiters then (Saturated, p)
      else (let p' = p\<lparr>wp_submitQueue := wp_submitQueue p @ [item]\<rparr> in
            if wp_activeWorkers p' < wp_maxWorkers p'
            then (ToQueue True, p'\<lparr>wp_activeWorkers := wp_activeWorkers p' + 1\<rparr>)
            else (ToQueue False, p')))"

text \<open>One turn of the loop of \<open>runWorkspaceWorker\<close>: leave, or take the next alert to its handler.\<close>

definition worker_turn :: "workspaceSlotPool \<Rightarrow> submittedAlert option \<times> workspaceSlotPool" where
  "worker_turn p =
     (case wp_submitQueue p of
        [] \<Rightarrow> (None, p\<lparr>wp_activeWorkers := wp_activeWorkers p - 1\<rparr>)
      | item # rest \<Rightarrow> (Some item, p\<lparr>wp_submitQueue := rest\<rparr>))"

definition fs_Submit ::
    "FairnessScheduler \<Rightarrow> string \<Rightarrow> submittedAlert \<Rightarrow> fair_err option \<times> submitted \<times> FairnessScheduler" where
  "fs_Submit s wsID item =
     (case workspacePool s wsID of (p, s') \<Rightarrow>
        (case pool_Submit p (length (lg_waiters (wp_firstAttemptGate p))) item of
           (Saturated, p') \<Rightarrow> (Some ErrWorkspaceQueueFull, Saturated, recordOverflow s' wsID)
         | (r, p') \<Rightarrow> (None, r, putPool s' wsID p')))"

subsection \<open>Slots\<close>

text \<open>
  \<open>AcquireSlot\<close> takes the workspace lane of the attempt and then the channel. Its sections,
  on the two pools it looked up: entering the lane; entering the channel gate, which on a full
  queue gives the lane slot back; and the release of both, channel first.
\<close>

definition isRetry :: "int \<Rightarrow> bool" where
  "isRetry attempt = (2 \<le> attempt)"

definition enterLane :: "workspaceSlotPool \<Rightarrow> int \<Rightarrow> nat \<Rightarrow> (fair_err option \<times> entry) \<times> workspaceSlotPool" where
  "enterLane p attempt w =
     (if isRetry attempt
      then (case lg_enter 0 (wp_retryGate p) (w, True) of (e, g) \<Rightarrow>
              ((if e = Full then Some ErrRetryQueueFull else None, e), p\<lparr>wp_retryGate := g\<rparr>))
      else (case lg_enter (int (submitQueueLen p)) (wp_firstAttemptGate p) (w, False) of (e, g) \<Rightarrow>
              ((if e = Full then Some ErrWorkspaceQueueFull else None, e), p\<lparr>wp_firstAttemptGate := g\<rparr>)))"

definition releaseLane :: "workspaceSlotPool \<Rightarrow> int \<Rightarrow> waiter option \<times> workspaceSlotPool" where
  "releaseLane p attempt =
     (if isRetry attempt
      then (case lg_releaseLocked (wp_retryGate p) of (x, g) \<Rightarrow> (x, p\<lparr>wp_retryGate := g\<rparr>))
      else (case lg_releaseLocked (wp_firstAttemptGate p) of (x, g) \<Rightarrow> (x, p\<lparr>wp_firstAttemptGate := g\<rparr>)))"

definition enterChannel ::
    "workspaceSlotPool \<Rightarrow> channelSlotPool \<Rightarrow> int \<Rightarrow> nat \<Rightarrow>
     (fair_err option \<times> entry \<times> waiter option) \<times> workspaceSlotPool \<times> channelSlotPool" where
  "enterChannel p q attempt w =
     (case cg_enter (cp_gate q) (w, isRetry attempt) of
        (Full, g) \<Rightarrow>
          (case releaseLane p attempt of (x, p') \<Rightarrow>
             ((Some ErrChannelQueueFull, Full, x), p', q\<lparr>cp_gate := g\<rparr>))
      | (e, g) \<Rightarrow> ((None, e, None), p, q\<lparr>cp_gate := g\<rparr>))"

definition releaseSlot ::
    "workspaceSlotPool \<Rightarrow> channelSlotPool \<Rightarrow> int \<Rightarrow>
     (waiter option \<times> waiter option) \<times> workspaceSlotPool \<times> channelSlotPool" where
  "releaseSlot p q attempt =
     (case cg_releaseLocked (cp_gate q) of (x, g) \<Rightarrow>
        (case releaseLane p attempt of (y, p') \<Rightarrow> ((x, y), p', q\<lparr>cp_gate := g\<rparr>)))"

subsection \<open>Reading and tearing down\<close>

definition fs_WorkspaceBacklog :: "FairnessScheduler \<Rightarrow> string \<Rightarrow> WorkspaceBacklog" where
  "fs_WorkspaceBacklog s wsID =
     (let ws = normalizeWorkspaceID wsID in
      case fs_workspaces s ws of
        None \<Rightarrow> \<lparr>wb_WorkspaceID = ws, wb_InFlight = 0, wb_QueueDepth = 0, wb_RetryInFlight = 0,
                 wb_RetryQueueDepth = 0, wb_OverflowTotal = 0\<rparr>
      | Some p \<Rightarrow> wp_backlog p)"

definition fs_ChannelBacklog :: "FairnessScheduler \<Rightarrow> int \<Rightarrow> ChannelBacklog" where
  "fs_ChannelBacklog s channelID =
     (case fs_channels s channelID of
        None \<Rightarrow> \<lparr>cbl_ChannelID = channelID, cbl_InFlight = 0, cbl_QueueDepth = 0\<rparr>
      | Some p \<Rightarrow> cp_backlog p)"

text \<open>Pools are filed under the workspace and channel they carry, so the snapshot has their keys.\<close>

definition fs_Snapshot :: "FairnessScheduler \<Rightarrow> FairnessSnapshot" where
  "fs_Snapshot s =
     \<lparr>snap_Workspaces = (\<lambda>ws. map_option wp_backlog (fs_workspaces s ws)),
      snap_Channels = (\<lambda>ch. map_option cp_backlog (fs_channels s ch))\<rparr>"

text \<open>
  The pool is unlinked and its queue emptied; workers that still run on it find the queue empty
  and leave, so it is returned beside the scheduler.
\<close>

definition fs_StopWorkspace ::
    "FairnessScheduler \<Rightarrow> string \<Rightarrow> int list \<Rightarrow> (nat \<times> workspaceSlotPool option) \<times> FairnessScheduler" where
  "fs_StopWorkspace s wsID channelIDs =
     (let ws = normalizeWorkspaceID wsID; wsPool = fs_workspaces s ws in
      ((case wsPool of None \<Rightarrow> 0 | Some p \<Rightarrow> length (wp_submitQueue p),
        map_option (\<lambda>p. p\<lparr>wp_submitQueue := []\<rparr>) wsPool),
       s\<lparr>fs_workspaces := (fs_workspaces s)(ws := None),
         fs_channels := foldl (\<lambda>m ch. m(ch := None)) (fs_channels s) channelIDs\<rparr>))"

subsection \<open>Submissions are neither lost nor reordered\<close>

datatype pool_event = Submits submittedAlert nat | WorkerTurn

text \<open>
  A history of a pool: the pool, the alerts that reached a handler, the accepted and the refused
  ones, each in order. A worker takes its turn only while one exists.
\<close>

record pool_hist =
  ph_pool :: workspaceSlotPool
  ph_started :: "submittedAlert list"
  ph_accepted :: "submittedAlert list"
  ph_refused :: "submittedAlert list"

definition pool_event_step :: "pool_hist \<Rightarrow> pool_event \<Rightarrow> pool_hist" where
  "pool_event_step h ev =
     (case ev of
        Submits item gateWaiters \<Rightarrow>
          (case pool_Submit (ph_pool h) gateWaiters item of
             (ToWorker, p) \<Rightarrow> h\<lparr>ph_pool := p, ph_started := ph_started h @ [item],
                                ph_accepted := ph_accepted h @ [item]\<rparr>
           | (ToQueue _, p) \<Rightarrow> h\<lparr>ph_pool := p, ph_accepted := ph_accepted h @ [item]\<rparr>
           | (Saturated, p) \<Rightarrow> h\<lparr>ph_pool := p, ph_refused := ph_refused h @ [item]\<rparr>)
      | WorkerTurn \<Rightarrow>
          (if 0 < wp_activeWorkers (ph_pool h)
           then (case worker_turn (ph_pool h) of
                   (None, p) \<Rightarrow> h\<lparr>ph_pool := p\<rparr>
                 | (Some item, p) \<Rightarrow> h\<lparr>ph_pool := p, ph_started := ph_started h @ [item]\<rparr>)
           else h))"

definition pool_run :: "workspaceSlotPool \<Rightarrow> pool_event list \<Rightarrow> pool_hist" where
  "pool_run p evs =
     foldl pool_event_step \<lparr>ph_pool = p, ph_started = [], ph_accepted = [], ph_refused = []\<rparr> evs"

definition pool_inv :: "int \<Rightarrow> int \<Rightarrow> pool_hist \<Rightarrow> bool" where
  "pool_inv W Q h \<longleftrightarrow>
     wp_maxWorkers (ph_pool h) = W \<and> wp_maxQueue (ph_pool h) = Q \<and>
     ph_started h @ wp_submitQueue (ph_pool h) = ph_accepted h \<and>
     0 \<le> wp_activeWorkers (ph_pool h) \<and> wp_activeWorkers (ph_pool h) \<le> W \<and>
     int (length (wp_submitQueue (ph_pool h))) \<le> Q \<and>
     (wp_submitQueue (ph_pool h) \<noteq> [] \<longrightarrow> wp_activeWorkers (ph_pool h) = W)"

lemma pool_inv_step [inv_intros]: "pool_inv W Q h \<Longrightarrow> pool_inv W Q (pool_event_step h ev)"
  by (cases ev)
    (auto simp: pool_inv_def pool_event_step_def pool_Submit_def worker_turn_def Let_def split: list.splits)

lemma pool_inv_run:
  "pool_inv W Q h \<Longrightarrow> pool_inv W Q (foldl pool_event_step h evs)"
  by (induction evs arbitrary: h) (simp_all add: pool_inv_step)

text \<open>
  C33. Under every interleaving of submissions and worker turns, the accepted alerts are exactly those
  that reached a handler followed by those still queued, in submission order; the workers never
  exceed \<open>maxWorkers\<close> and the queue never exceeds \<open>maxQueue\<close>; while an alert is queued every worker
  is running, so once no worker is left every accepted alert has been handled.
\<close>

theorem submit_queue_keeps_every_alert:
  fixes cfg :: FairnessConfig
  shows "let n = fair_Normalized cfg; h = pool_run (newWorkspaceSlotPool ws n) evs; p = ph_pool h in
     ph_started h @ wp_submitQueue p = ph_accepted h \<and>
     wp_activeWorkers p \<le> fc_MaxWorkspaceInFlight n \<and>
     int (length (wp_submitQueue p)) \<le> fc_MaxWorkspaceQueue n \<and>
     (wp_submitQueue p \<noteq> [] \<longrightarrow> wp_activeWorkers p = fc_MaxWorkspaceInFlight n) \<and>
     (wp_activeWorkers p = 0 \<longrightarrow> ph_started h = ph_accepted h)"
proof -
  define n where "n = fair_Normalized cfg"
  define h where "h = pool_run (newWorkspaceSlotPool ws n) evs"
  have pos: "0 < fc_MaxWorkspaceInFlight n" "0 < fc_MaxWorkspaceQueue n"
    by (simp_all add: n_def fair_Normalized_def fair_defaults Let_def)
  then have "pool_inv (fc_MaxWorkspaceInFlight n) (fc_MaxWorkspaceQueue n) h"
    unfolding h_def pool_run_def
    by (intro pool_inv_run) (simp add: pool_inv_def newWorkspaceSlotPool_def)
  then show ?thesis
    using pos unfolding n_def [symmetric] h_def [symmetric] Let_def pool_inv_def by auto
qed

definition fair_demo_cfg :: FairnessConfig where
  "fair_demo_cfg = \<lparr>fc_MaxWorkspaceInFlight = 1, fc_MaxWorkspaceQueue = 2, fc_MaxWorkspaceRetryInFlight = 0,
     fc_MaxWorkspaceRetryQueue = 0, fc_MaxChannelInFlight = 0, fc_MaxChannelQueue = 0, fc_AsyncDispatch = True\<rparr>"

definition fair_demo_events :: "pool_event list" where
  "fair_demo_events =
     (let item = (\<lambda>i. (\<lparr>ctx_workspace = None, ctx_system = False\<rparr>, alert0\<lparr>al_ID := i\<rparr>))
      in [Submits (item 1) 0, Submits (item 2) 0, Submits (item 3) 0, Submits (item 4) 0, WorkerTurn])"

theorem submit_queue_keeps_every_alert_witness:
  "let h = pool_run (newWorkspaceSlotPool ''a'' (fair_Normalized fair_demo_cfg)) fair_demo_events in
     map (al_ID \<circ> snd) (ph_started h) = [1, 2] \<and> map (al_ID \<circ> snd) (ph_accepted h) = [1, 2, 3] \<and>
     map (al_ID \<circ> snd) (ph_refused h) = [4] \<and>
     ph_started h @ wp_submitQueue (ph_pool h) = ph_accepted h"
proof -
  let ?h = "pool_run (newWorkspaceSlotPool ''a'' (fair_Normalized fair_demo_cfg)) fair_demo_events"
  have 1: "map (al_ID \<circ> snd) (ph_started ?h) = [1, 2]" "map (al_ID \<circ> snd) (ph_accepted ?h) = [1, 2, 3]"
    "map (al_ID \<circ> snd) (ph_refused ?h) = [4]"
    by (simp_all add: pool_run_def fair_demo_events_def fair_demo_cfg_def pool_event_step_def Let_def
        pool_Submit_def worker_turn_def newWorkspaceSlotPool_def fair_Normalized_def alert0_def)
  moreover have "ph_started ?h @ wp_submitQueue (ph_pool ?h) = ph_accepted ?h"
    using submit_queue_keeps_every_alert [of fair_demo_cfg "''a''" fair_demo_events] by (simp add: Let_def)
  ultimately show ?thesis by (simp add: Let_def)
qed

text \<open>
  An attempt that was given its lane slot and then finds the channel's queue full leaves both
  gates as it found them: the lane slot goes to the attempt that waits for it or back to the
  lane, the channel gate is unchanged, and the error is the channel's.
\<close>

theorem channel_overflow_returns_lane_slot:
  fixes p :: workspaceSlotPool and q :: channelSlotPool
  assumes lane: "enterLane p attempt w = ((None, Acquired), p1)" and nonneg: "0 \<le> lg_inFlight (wp_firstAttemptGate p)"
      "0 \<le> lg_inFlight (wp_retryGate p)"
    and full: "fst (cg_enter (cp_gate q) (w', isRetry attempt)) = Full"
  shows "enterChannel p1 q attempt w' = ((Some ErrChannelQueueFull, Full, None), p, q)"
proof -
  have "cg_enter (cp_gate q) (w', isRetry attempt) = (Full, cp_gate q)"
    using full by (auto simp: cg_enter_def Let_def split: if_splits)
  moreover have "releaseLane p1 attempt = (None, p)"
    using lane nonneg
    by (auto simp: enterLane_def releaseLane_def lg_enter_def lg_releaseLocked_def split: if_splits)
  ultimately show ?thesis by (simp add: enterChannel_def)
qed

theorem channel_overflow_returns_lane_slot_witness:
  "let p = newWorkspaceSlotPool ''a'' (fair_Normalized fair_demo_cfg);
       q = \<lparr>cp_channelID = 5, cp_gate = \<lparr>cg_maxActive = 1, cg_maxQueue = 0, cg_inFlight = 1,
             cg_firstWaiters = [], cg_retryWaiters = []\<rparr>\<rparr>
   in enterChannel (snd (enterLane p 1 3)) q 1 4 = ((Some ErrChannelQueueFull, Full, None), p, q)"
  unfolding Let_def
  by (rule channel_overflow_returns_lane_slot [where w = 3])
    (simp_all add: enterLane_def newWorkspaceSlotPool_def newLaneGate_def lg_enter_def isRetry_def
      fair_Normalized_def fair_demo_cfg_def cg_enter_def submitQueueLen_def Let_def)

end
