(* ===== verification/Channel_Health.thy ===== *)
theory Channel_Health
  imports Notify_Types
begin

text \<open>
  \<open>internal/notify/health.go\<close>: the classification of a delivery error, the weighted health
  score of a channel with its bounded history, and the two predicates the dispatcher asks of an
  error (\<open>IsPermanent\<close>, \<open>Retryable\<close>). An error is the chain that \<open>errors.As\<close> walks, outermost
  first, with the text of \<open>Error()\<close>. The sanitised text stored beside an outcome is an argument,
  since only its presence matters here. Counters are unbounded integers: a channel does not
  see \<open>2^63\<close> deliveries.
\<close>

subsection \<open>Delivery errors\<close>

datatype send_node = HTTPStatusError int | StatusError int | SMTPError int | NetError bool | OtherError

record send_err =
  se_chain :: "send_node list"
  se_text :: string

fun as_http :: "send_node list \<Rightarrow> int option" where
  "as_http [] = None"
| "as_http (HTTPStatusError c # ns) = Some c"
| "as_http (_ # ns) = as_http ns"

fun as_status :: "send_node list \<Rightarrow> int option" where
  "as_status [] = None"
| "as_status (StatusError c # ns) = Some c"
| "as_status (_ # ns) = as_status ns"

fun as_smtp :: "send_node list \<Rightarrow> int option" where
  "as_smtp [] = None"
| "as_smtp (SMTPError c # ns) = Some c"
| "as_smtp (_ # ns) = as_smtp ns"

fun as_net :: "send_node list \<Rightarrow> bool option" where
  "as_net [] = None"
| "as_net (NetError t # ns) = Some t"
| "as_net (_ # ns) = as_net ns"

datatype OutcomeClass =
  OutcomeSuccess | OutcomeRateLimited | OutcomeTimeout | OutcomeTransientServer
| OutcomeAuthFailure | OutcomePermanent | OutcomeUnknown

definition classifyHTTPStatus :: "int \<Rightarrow> OutcomeClass" where
  "classifyHTTPStatus code =
     (if code = 401 then OutcomeAuthFailure
      else if code = 403 \<or> code = 404 then OutcomePermanent
      else if code = 429 \<or> code = 408 \<or> code = 425 then OutcomeRateLimited
      else if code = 400 then OutcomeUnknown
      else if 500 \<le> code \<and> code \<le> 599 then OutcomeTransientServer
      else OutcomeUnknown)"

definition ClassifyOutcome :: "send_err option \<Rightarrow> OutcomeClass" where
  "ClassifyOutcome err =
     (case err of
        None \<Rightarrow> OutcomeSuccess
      | Some e \<Rightarrow>
          (case as_http (se_chain e) of
             Some c \<Rightarrow> classifyHTTPStatus c
           | None \<Rightarrow>
               (case as_status (se_chain e) of
                  Some c \<Rightarrow> classifyHTTPStatus c
                | None \<Rightarrow>
                    (case as_smtp (se_chain e) of
                       Some c \<Rightarrow> (if c = 535 then OutcomeAuthFailure
                                  else if 500 \<le> c then OutcomePermanent else OutcomeTransientServer)
                     | None \<Rightarrow>
                         (let msg = to_lower (se_text e) in
                          if as_net (se_chain e) = Some True then OutcomeTimeout
                          else if str_contains msg ''context deadline exceeded'' \<or>
                                  str_contains msg ''i/o timeout'' \<or> str_contains msg ''timeout''
                          then OutcomeTimeout else OutcomeUnknown)))))"

definition IsPermanent :: "send_err option \<Rightarrow> bool" where
  "IsPermanent err =
     (case err of
        None \<Rightarrow> False
      | Some e \<Rightarrow> (let outcome = ClassifyOutcome err
                  in outcome = OutcomePermanent \<or> outcome = OutcomeAuthFailure))"

definition retryableStatus :: "int \<Rightarrow> bool" where
  "retryableStatus code =
     (if code < 400 \<or> 499 < code then True else code = 408 \<or> code = 425 \<or> code = 429)"

definition Retryable :: "send_err option \<Rightarrow> bool" where
  "Retryable err =
     (case err of
        None \<Rightarrow> True
      | Some e \<Rightarrow>
          (case as_http (se_chain e) of
             Some c \<Rightarrow> retryableStatus c
           | None \<Rightarrow>
               (case as_status (se_chain e) of
                  Some c \<Rightarrow> retryableStatus c
                | None \<Rightarrow>
                    (case as_smtp (se_chain e) of
                       Some c \<Rightarrow> (if c = 535 then False else True)
                     | None \<Rightarrow> True))))"

text \<open>The stored health update of a "send test" click; \<open>safe\<close> is the sanitised message.\<close>

record ChannelHealthUpdate =
  hu_Success :: bool
  hu_Error :: string
  hu_Permanent :: bool
  hu_At :: gtime
  hu_DisableAfter :: int

definition TestHealthUpdate :: "send_err option \<Rightarrow> string \<Rightarrow> gtime \<Rightarrow> ChannelHealthUpdate" where
  "TestHealthUpdate sendErr safe at' =
     (let u = \<lparr>hu_Success = False, hu_Error = '''', hu_Permanent = False, hu_At = at', hu_DisableAfter = 0\<rparr>
      in if sendErr = None then u\<lparr>hu_Success := True\<rparr>
         else u\<lparr>hu_Error := safe, hu_Permanent := IsPermanent sendErr\<rparr>)"

subsection \<open>The health score\<close>

datatype ChannelStatus =
  ChannelStatusUnknown | ChannelStatusHealthy | ChannelStatusDegraded | ChannelStatusDisabled

record HealthEvent =
  he_At :: gtime
  he_Outcome :: OutcomeClass
  he_Score :: int
  he_Error :: string

record ChannelHealthScore =
  hs_ChannelID :: int
  hs_Score :: int
  hs_Status :: ChannelStatus
  hs_Deliveries :: int
  hs_ConsecutiveFailures :: int
  hs_LastOutcome :: "OutcomeClass option"
  hs_LastOutcomeAt :: gtime
  hs_LastSuccessAt :: gtime
  hs_LastErrorAt :: gtime
  hs_NeedsHumanAttention :: bool
  hs_History :: "HealthEvent list"

definition DefaultInitialHealthScore :: int where "DefaultInitialHealthScore = 100"
definition DefaultMaxHealthHistory :: nat where "DefaultMaxHealthHistory = 20"

text \<open>An entry as \<open>GetHealth\<close> and \<open>RecordOutcome\<close> start it; \<open>None\<close> is the empty last outcome.\<close>

definition newHealthScore :: "int \<Rightarrow> ChannelHealthScore" where
  "newHealthScore channelID =
     \<lparr>hs_ChannelID = channelID, hs_Score = DefaultInitialHealthScore, hs_Status = ChannelStatusUnknown,
      hs_Deliveries = 0, hs_ConsecutiveFailures = 0, hs_LastOutcome = None, hs_LastOutcomeAt = 0,
      hs_LastSuccessAt = 0, hs_LastErrorAt = 0, hs_NeedsHumanAttention = False, hs_History = []\<rparr>"

record ChannelHealthManager =
  hm_scores :: "int \<rightharpoonup> ChannelHealthScore"
  hm_maxHistory :: nat
  hm_threshold :: int

definition NewChannelHealthManager :: ChannelHealthManager where
  "NewChannelHealthManager =
     \<lparr>hm_scores = Map.empty, hm_maxHistory = DefaultMaxHealthHistory, hm_threshold = 0\<rparr>"

definition GetHealth :: "ChannelHealthManager \<Rightarrow> int \<Rightarrow> ChannelHealthScore" where
  "GetHealth m channelID =
     (case hm_scores m channelID of Some hs \<Rightarrow> hs | None \<Rightarrow> newHealthScore channelID)"

text \<open>The failing classes share a branch that differs in the penalty.\<close>

definition penalize :: "int \<Rightarrow> int \<Rightarrow> gtime \<Rightarrow> ChannelHealthScore \<Rightarrow> ChannelHealthScore" where
  "penalize threshold points at' hs =
     (let hs' = hs\<lparr>hs_Score := hs_Score hs - points,
                   hs_ConsecutiveFailures := hs_ConsecutiveFailures hs + 1, hs_LastErrorAt := at'\<rparr>
      in if threshold < hs_Score hs' then hs'\<lparr>hs_Status := ChannelStatusDegraded\<rparr> else hs')"

definition applyOutcome :: "int \<Rightarrow> OutcomeClass \<Rightarrow> gtime \<Rightarrow> ChannelHealthScore \<Rightarrow> ChannelHealthScore" where
  "applyOutcome threshold outcome at' hs =
     (case outcome of
        OutcomeSuccess \<Rightarrow>
          hs\<lparr>hs_Score := (if 100 < hs_Score hs + 25 then 100 else hs_Score hs + 25),
             hs_ConsecutiveFailures := 0, hs_LastSuccessAt := at', hs_Status := ChannelStatusHealthy,
             hs_NeedsHumanAttention := False\<rparr>
      | OutcomeRateLimited \<Rightarrow>
          (if hs_Status hs = ChannelStatusUnknown then hs\<lparr>hs_Status := ChannelStatusHealthy\<rparr> else hs)
      | OutcomeTimeout \<Rightarrow> penalize threshold 15 at' hs
      | OutcomeTransientServer \<Rightarrow> penalize threshold 20 at' hs
      | OutcomeAuthFailure \<Rightarrow> (penalize threshold 50 at' hs)\<lparr>hs_NeedsHumanAttention := True\<rparr>
      | OutcomePermanent \<Rightarrow> penalize threshold 50 at' hs
      | OutcomeUnknown \<Rightarrow> penalize threshold 10 at' hs)"

text \<open>
  \<open>RecordOutcome\<close>; \<open>now\<close> is the clock, used when \<open>at\<close> is the zero time, and \<open>safe\<close> the
  sanitised text of a non-nil error.
\<close>

definition RecordOutcome ::
    "ChannelHealthManager \<Rightarrow> int \<Rightarrow> send_err option \<Rightarrow> string \<Rightarrow> gtime \<Rightarrow> gtime \<Rightarrow>
     (int \<times> bool \<times> OutcomeClass) \<times> ChannelHealthManager" where
  "RecordOutcome m channelID err safe at0 now =
     (let at' = (if at0 = 0 then now else at0);
          outcome = ClassifyOutcome err;
          hs = (case hm_scores m channelID of Some hs \<Rightarrow> hs | None \<Rightarrow> newHealthScore channelID);
          hs1 = hs\<lparr>hs_Deliveries := hs_Deliveries hs + 1, hs_LastOutcome := Some outcome,
                   hs_LastOutcomeAt := at'\<rparr>;
          hs2 = applyOutcome (hm_threshold m) outcome at' hs1;
          hs3 = (if hs_Score hs2 < 0 then hs2\<lparr>hs_Score := 0\<rparr> else hs2);
          disabled = (hs_Score hs3 \<le> hm_threshold m);
          hs4 = (if disabled then hs3\<lparr>hs_Status := ChannelStatusDisabled\<rparr> else hs3);
          event = \<lparr>he_At = at', he_Outcome = outcome, he_Score = hs_Score hs4,
                   he_Error = (if err = None then '''' else safe)\<rparr>;
          hs5 = hs4\<lparr>hs_History := keep_last (hm_maxHistory m) (hs_History hs4 @ [event])\<rparr>
      in ((hs_Score hs5, disabled, outcome),
          m\<lparr>hm_scores := (hm_scores m)(channelID \<mapsto> hs5)\<rparr>))"

definition ProbeSuccess :: "ChannelHealthManager \<Rightarrow> int \<Rightarrow> gtime \<Rightarrow> gtime \<Rightarrow> ChannelHealthManager" where
  "ProbeSuccess m channelID at0 now =
     (let at' = (if at0 = 0 then now else at0);
          hs = (case hm_scores m channelID of
                  Some hs \<Rightarrow> hs
                | None \<Rightarrow> (newHealthScore channelID)\<lparr>hs_Score := 0\<rparr>);
          hs1 = hs\<lparr>hs_Score := 100, hs_Status := ChannelStatusHealthy, hs_ConsecutiveFailures := 0,
                   hs_LastSuccessAt := at', hs_LastOutcome := Some OutcomeSuccess,
                   hs_LastOutcomeAt := at', hs_NeedsHumanAttention := False\<rparr>;
          event = \<lparr>he_At = at', he_Outcome = OutcomeSuccess, he_Score = 100, he_Error = ''''\<rparr>
      in m\<lparr>hm_scores := (hm_scores m)(channelID \<mapsto>
             hs1\<lparr>hs_History := keep_last (hm_maxHistory m) (hs_History hs1 @ [event])\<rparr>)\<rparr>)"

text \<open>
  The alert that announces an auto-disabled channel; \<open>quoted\<close> is the channel name as \<open>%q\<close>
  prints it.
\<close>

definition BuildDisabledNotification :: "int \<Rightarrow> string \<Rightarrow> channel \<Rightarrow> string \<Rightarrow> string \<Rightarrow> alert" where
  "BuildDisabledNotification monitorID monitorName disabledCh quoted reason =
     alert0\<lparr>al_MonitorID := monitorID, al_MonitorName := monitorName, al_Severity := ''critical'',
       al_Digest := ''CRITICAL: Notification channel '' @ quoted @ '' (type: '' @ ch_Type disabledCh @
         '', ID: '' @ fmt_d (ch_ID disabledCh) @ '') was auto-disabled due to health failure ('' @ reason @
         ''). Immediate attention required.''\<rparr>"

subsection \<open>Invariant\<close>

definition hs_ok :: "ChannelHealthScore \<Rightarrow> bool" where
  "hs_ok hs \<longleftrightarrow>
     0 \<le> hs_Score hs \<and> hs_Score hs \<le> 100 \<and> 0 \<le> hs_ConsecutiveFailures hs \<and>
     hs_Status hs \<noteq> ChannelStatusUnknown \<and>
     (hs_Status hs = ChannelStatusDisabled \<longleftrightarrow> hs_Score hs = 0) \<and>
     hs_History hs \<noteq> [] \<and> length (hs_History hs) \<le> DefaultMaxHealthHistory \<and>
     he_Score (last (hs_History hs)) = hs_Score hs"

definition hm_ok :: "ChannelHealthManager \<Rightarrow> bool" where
  "hm_ok m \<longleftrightarrow> hm_threshold m = 0 \<and> hm_maxHistory m = DefaultMaxHealthHistory \<and>
     (\<forall>c hs. hm_scores m c = Some hs \<longrightarrow> hs_ok hs)"

text \<open>What holds of an entry before an outcome is applied: a new entry is not \<open>hs_ok\<close> yet.\<close>

definition hs_pre :: "ChannelHealthScore \<Rightarrow> bool" where
  "hs_pre hs \<longleftrightarrow> 0 \<le> hs_Score hs \<and> hs_Score hs \<le> 100 \<and> 0 \<le> hs_ConsecutiveFailures hs \<and>
     (hs_Status hs = ChannelStatusDisabled \<longleftrightarrow> hs_Score hs = 0) \<and>
     length (hs_History hs) \<le> DefaultMaxHealthHistory"

lemma hs_ok_pre: "hs_ok hs \<Longrightarrow> hs_pre hs"
  by (simp add: hs_ok_def hs_pre_def)

lemma new_pre: "hs_pre (newHealthScore c)"
  by (simp add: hs_pre_def newHealthScore_def DefaultInitialHealthScore_def DefaultMaxHealthHistory_def)

lemma entry_pre: "hm_ok m \<Longrightarrow> hs_pre (case hm_scores m c of Some hs \<Rightarrow> hs | None \<Rightarrow> newHealthScore c)"
  using new_pre hs_ok_pre by (auto simp: hm_ok_def split: option.split)

text \<open>The effect of one outcome on an entry, with the clamping and disabling that follow it.\<close>

definition settle :: "OutcomeClass \<Rightarrow> gtime \<Rightarrow> ChannelHealthScore \<Rightarrow> ChannelHealthScore" where
  "settle outcome at' hs =
     (let hs2 = applyOutcome 0 outcome at'
            (hs\<lparr>hs_Deliveries := hs_Deliveries hs + 1, hs_LastOutcome := Some outcome, hs_LastOutcomeAt := at'\<rparr>);
          hs3 = (if hs_Score hs2 < 0 then hs2\<lparr>hs_Score := 0\<rparr> else hs2)
      in if hs_Score hs3 \<le> 0 then hs3\<lparr>hs_Status := ChannelStatusDisabled\<rparr> else hs3)"

lemma settle_ok:
  assumes "hs_pre hs"
  shows "0 \<le> hs_Score (settle out at' hs) \<and> hs_Score (settle out at' hs) \<le> 100 \<and>
    0 \<le> hs_ConsecutiveFailures (settle out at' hs) \<and>
    hs_Status (settle out at' hs) \<noteq> ChannelStatusUnknown \<and>
    (hs_Status (settle out at' hs) = ChannelStatusDisabled \<longleftrightarrow> hs_Score (settle out at' hs) = 0) \<and>
    hs_History (settle out at' hs) = hs_History hs"
  using assms
  by (cases out; cases "hs_Status hs") (auto simp: settle_def applyOutcome_def penalize_def hs_pre_def Let_def)

text \<open>\<open>RecordOutcome\<close> of a well-formed manager, in terms of \<open>settle\<close>.\<close>

lemma RecordOutcome_settle:
  assumes "hm_ok m"
  shows "let at' = (if at0 = 0 then now else at0); out = ClassifyOutcome err;
      hs = settle out at' (GetHealth m c);
      ev = \<lparr>he_At = at', he_Outcome = out, he_Score = hs_Score hs, he_Error = (if err = None then '''' else safe)\<rparr>
    in RecordOutcome m c err safe at0 now =
      ((hs_Score hs, hs_Score hs \<le> 0, out),
       m\<lparr>hm_scores := (hm_scores m)(c \<mapsto>
          hs\<lparr>hs_History := keep_last DefaultMaxHealthHistory (hs_History hs @ [ev])\<rparr>)\<rparr>)"
  using assms by (simp add: RecordOutcome_def settle_def GetHealth_def hm_ok_def Let_def)

lemma GetHealth_upd [simp]: "GetHealth (m\<lparr>hm_scores := f(c \<mapsto> h)\<rparr>) c = h"
  by (simp add: GetHealth_def)

lemma GetHealth_RecordOutcome:
  assumes "hm_ok m"
  shows "\<exists>at' evs. GetHealth (snd (RecordOutcome m c err safe at0 now)) c =
    (settle (ClassifyOutcome err) at' (GetHealth m c))\<lparr>hs_History := evs\<rparr>"
  using RecordOutcome_settle [OF assms, of at0 now err c safe] by (auto simp: Let_def)

lemma settle_rate_limited:
  "hs_pre hs \<Longrightarrow> hs_Score (settle OutcomeRateLimited at' hs) = hs_Score hs \<and>
     hs_ConsecutiveFailures (settle OutcomeRateLimited at' hs) = hs_ConsecutiveFailures hs \<and>
     (hs_Status (settle OutcomeRateLimited at' hs) = ChannelStatusDisabled \<longleftrightarrow> hs_Status hs = ChannelStatusDisabled) \<and>
     hs_NeedsHumanAttention (settle OutcomeRateLimited at' hs) = hs_NeedsHumanAttention hs"
  by (auto simp: settle_def applyOutcome_def hs_pre_def Let_def)

lemma RecordOutcome_ok [inv_intros]: "hm_ok m \<Longrightarrow> hm_ok (snd (RecordOutcome m c err safe at0 now))"
  using RecordOutcome_settle [of m at0 now err c safe] entry_pre [of m c]
    settle_ok [of "GetHealth m c" "ClassifyOutcome err" "if at0 = 0 then now else at0"]
  by (auto simp: Let_def hm_ok_def hs_ok_def GetHealth_def last_keep_last DefaultMaxHealthHistory_def)

lemma ProbeSuccess_ok [inv_intros]: "hm_ok m \<Longrightarrow> hm_ok (ProbeSuccess m c at0 now)"
  by (auto simp: ProbeSuccess_def Let_def hm_ok_def hs_ok_def last_keep_last DefaultMaxHealthHistory_def
      split: option.split)

datatype health_op = HOutcome int "send_err option" string gtime gtime | HProbe int gtime gtime

fun health_step :: "ChannelHealthManager \<Rightarrow> health_op \<Rightarrow> ChannelHealthManager" where
  "health_step m (HOutcome c err safe at0 now) = snd (RecordOutcome m c err safe at0 now)"
| "health_step m (HProbe c at0 now) = ProbeSuccess m c at0 now"

definition health_run :: "health_op list \<Rightarrow> ChannelHealthManager" where
  "health_run ops = foldl health_step NewChannelHealthManager ops"

lemma health_run_ok: "hm_ok (health_run ops)"
proof -
  have "hm_ok m \<Longrightarrow> hm_ok (foldl health_step m ops)" for m
  proof (induction ops arbitrary: m)
    case (Cons op ops)
    then show ?case by (cases op) (simp_all add: inv_intros)
  qed simp
  moreover have "hm_ok NewChannelHealthManager"
    by (simp add: hm_ok_def NewChannelHealthManager_def)
  ultimately show ?thesis by (simp add: health_run_def)
qed

text \<open>
  After any sequence of delivery outcomes and probes, the score of every channel lies between 0
  and 100, a channel is disabled exactly when its score is 0, a channel with a recorded outcome is never
  "unknown" and one without is, and the history holds at most twenty events, the newest of
  which carries the current score.
\<close>

theorem health_score_invariant:
  "let hs = GetHealth (health_run ops) c in
     0 \<le> hs_Score hs \<and> hs_Score hs \<le> 100 \<and>
     (hs_Status hs = ChannelStatusDisabled \<longleftrightarrow> hs_Score hs = 0) \<and>
     (hs_Status hs = ChannelStatusUnknown \<longleftrightarrow> hm_scores (health_run ops) c = None) \<and>
     (hs_History hs = [] \<longleftrightarrow> hm_scores (health_run ops) c = None) \<and>
     length (hs_History hs) \<le> 20 \<and>
     (if hs_History hs = [] then hs_Score hs = 100 else he_Score (last (hs_History hs)) = hs_Score hs)"
  using health_run_ok [of ops]
  by (cases "hm_scores (health_run ops) c")
    (auto simp: Let_def GetHealth_def hm_ok_def hs_ok_def newHealthScore_def
      DefaultInitialHealthScore_def DefaultMaxHealthHistory_def)

text \<open>
  A delivery that was rate limited (408, 425, 429) never costs the channel anything: its score, its
  failure count and whether it is disabled are what they were, whatever happened before.
\<close>

theorem rate_limiting_never_penalised:
  fixes ops :: "health_op list" and c :: int
  assumes "ClassifyOutcome err = OutcomeRateLimited"
  shows "let m = health_run ops; hs = GetHealth m c;
             hs' = GetHealth (snd (RecordOutcome m c err safe at0 now)) c in
     hs_Score hs' = hs_Score hs \<and> hs_ConsecutiveFailures hs' = hs_ConsecutiveFailures hs \<and>
     (hs_Status hs' = ChannelStatusDisabled \<longleftrightarrow> hs_Status hs = ChannelStatusDisabled) \<and>
     hs_NeedsHumanAttention hs' = hs_NeedsHumanAttention hs"
proof -
  define m where "m = health_run ops"
  have ok: "hm_ok m" by (simp add: m_def health_run_ok)
  have pre: "hs_pre (GetHealth m c)"
    using entry_pre [OF ok] by (simp add: GetHealth_def)
  obtain at' evs where "GetHealth (snd (RecordOutcome m c err safe at0 now)) c =
      (settle OutcomeRateLimited at' (GetHealth m c))\<lparr>hs_History := evs\<rparr>"
    using GetHealth_RecordOutcome [OF ok] assms by metis
  then show ?thesis
    using settle_rate_limited [OF pre] unfolding m_def [symmetric] Let_def by simp
qed

theorem rate_limiting_never_penalised_witness:
  "let err = Some \<lparr>se_chain = [StatusError 429], se_text = ''429''\<rparr>; m = health_run [HOutcome 1 (Some \<lparr>se_chain = [StatusError 503], se_text = ''''\<rparr>) ''x'' 5 5]
   in hs_Score (GetHealth (snd (RecordOutcome m 1 err ''slow down'' 9 9)) 1) = hs_Score (GetHealth m 1) \<and>
      hs_Score (GetHealth m 1) = 80"
proof -
  have c: "ClassifyOutcome (Some \<lparr>se_chain = [StatusError 429], se_text = ''429''\<rparr>) = OutcomeRateLimited"
    by (simp add: ClassifyOutcome_def classifyHTTPStatus_def)
  show ?thesis
    using rate_limiting_never_penalised [OF c, of "[HOutcome 1 (Some \<lparr>se_chain = [StatusError 503], se_text = ''''\<rparr>) ''x'' 5 5]" 1 "''slow down''" 9 9]
    by (simp add: Let_def health_run_def RecordOutcome_def GetHealth_def NewChannelHealthManager_def
        newHealthScore_def applyOutcome_def penalize_def ClassifyOutcome_def classifyHTTPStatus_def
        DefaultInitialHealthScore_def)
qed

text \<open>
  The dispatcher's questions about an error agree with its class: a rate-limited error is
  retryable and not permanent; an authentication failure is permanent and not retryable; an error that is not
  retryable is never a timeout, a server error or a rate limit; an HTTP answer that is permanent
  is not retryable.
\<close>

theorem delivery_error_predicates_agree:
  "(ClassifyOutcome err = OutcomeRateLimited \<longrightarrow> Retryable err \<and> \<not> IsPermanent err) \<and>
   (ClassifyOutcome err = OutcomeAuthFailure \<longrightarrow> \<not> Retryable err \<and> IsPermanent err) \<and>
   (\<not> Retryable err \<longrightarrow> ClassifyOutcome err \<in> {OutcomeAuthFailure, OutcomePermanent, OutcomeUnknown}) \<and>
   (\<forall>e. err = Some e \<and> as_smtp (se_chain e) = None \<and> IsPermanent err \<longrightarrow> \<not> Retryable err)"
  by (cases err)
    (auto simp: ClassifyOutcome_def Retryable_def IsPermanent_def classifyHTTPStatus_def retryableStatus_def
      Let_def split: option.splits if_splits)

theorem delivery_error_predicates_agree_witness:
  "IsPermanent (Some \<lparr>se_chain = [HTTPStatusError 404], se_text = ''404''\<rparr>) \<and>
   \<not> Retryable (Some \<lparr>se_chain = [HTTPStatusError 404], se_text = ''404''\<rparr>)"
proof -
  have "IsPermanent (Some \<lparr>se_chain = [HTTPStatusError 404], se_text = ''404''\<rparr>)"
    by (simp add: IsPermanent_def ClassifyOutcome_def classifyHTTPStatus_def)
  then show ?thesis
    using delivery_error_predicates_agree [of "Some \<lparr>se_chain = [HTTPStatusError 404], se_text = ''404''\<rparr>"]
    by simp
qed

text \<open>
  A recipient rejected by the mail server (SMTP 5xx other than 535) is a permanent failure that is
  nevertheless answered as retryable.
\<close>

theorem smtp_rejection_permanent_yet_retryable:
  fixes e :: send_err
  assumes "as_http (se_chain e) = None" "as_status (se_chain e) = None"
    and "as_smtp (se_chain e) = Some code" "500 \<le> code" "code \<noteq> 535"
  shows "ClassifyOutcome (Some e) = OutcomePermanent \<and> IsPermanent (Some e) \<and> Retryable (Some e)"
  using assms by (simp add: ClassifyOutcome_def IsPermanent_def Retryable_def)

theorem smtp_rejection_permanent_yet_retryable_witness:
  "Retryable (Some \<lparr>se_chain = [SMTPError 550], se_text = ''550 no such user''\<rparr>)"
  using smtp_rejection_permanent_yet_retryable [of "\<lparr>se_chain = [SMTPError 550], se_text = ''550 no such user''\<rparr>" 550]
  by simp

end
