(* ===== verification/Failover.thy ===== *)
theory Failover
  imports Beacon_Prelude
begin

text \<open>
  \<open>internal/stellar/failover.go\<close>: several RPC endpoints behind one client. A call tries the
  endpoints that are not quarantined in priority order; a failure that is the endpoint's fault
  parks it for an exponentially growing time and the call moves on.

  The five RPC methods (\<open>GetEvents\<close>, \<open>GetLatestLedger\<close>, \<open>GetHealth\<close>, \<open>GetNetwork\<close>,
  \<open>GetLedgerEntries\<close>) are \<open>call\<close> at five result types. What an endpoint's HTTP client answers, whether the
  caller's context has ended by then, and the clock at that moment are arguments, indexed by the endpoint.
\<close>

definition failoverQuarantineBase :: duration where "failoverQuarantineBase = 5 * second"
definition failoverQuarantineMax :: duration where "failoverQuarantineMax = 5 * minute"

lemmas quarantine_defs = failoverQuarantineBase_def failoverQuarantineMax_def duration_defs

subsection \<open>Endpoints and errors\<close>

record rpcEndpoint =
  ep_url :: string
  ep_failures :: int
  ep_quarantineUntil :: gtime

definition quarantined :: "rpcEndpoint \<Rightarrow> gtime \<Rightarrow> bool" where
  "quarantined ep now = (ep_quarantineUntil ep \<noteq> 0 \<and> now < ep_quarantineUntil ep)"

type_synonym FailoverClient = "rpcEndpoint list"

definition NewFailoverClient :: "string list \<Rightarrow> FailoverClient" where
  "NewFailoverClient urls = map (\<lambda>u. \<lparr>ep_url = u, ep_failures = 0, ep_quarantineUntil = 0\<rparr>) urls"

record EndpointStat =
  es_URL :: string
  es_Failures :: int
  es_Quarantined :: bool
  es_RetryAt :: gtime

definition Stats :: "FailoverClient \<Rightarrow> gtime \<Rightarrow> EndpointStat list" where
  "Stats c now =
     map (\<lambda>ep. \<lparr>es_URL = ep_url ep, es_Failures = ep_failures ep, es_Quarantined = quarantined ep now,
                es_RetryAt = ep_quarantineUntil ep\<rparr>) c"

text \<open>The chain \<open>errors.As\<close> walks: an HTTP status, a JSON-RPC error object, or anything else.\<close>

datatype rpc_node = RpcHTTPStatus int | RPCError | RpcOther

type_synonym rpc_err = "rpc_node list"

fun as_rpc_status :: "rpc_err \<Rightarrow> int option" where
  "as_rpc_status [] = None"
| "as_rpc_status (RpcHTTPStatus c # ns) = Some c"
| "as_rpc_status (_ # ns) = as_rpc_status ns"

definition isFailoverError :: "rpc_err \<Rightarrow> bool" where
  "isFailoverError err =
     (case as_rpc_status err of
        Some code \<Rightarrow> code = 429 \<or> 500 \<le> code
      | None \<Rightarrow> RPCError \<notin> set err)"

text \<open>
  What \<open>call\<close> returns as an error: the context's, the one naming every quarantined endpoint with
  its failures and the time left, the answer of an endpoint as it is, or the errors of all the
  endpoints tried, each with its URL.
\<close>

datatype call_err =
  CtxErr rpc_err | QuarantinedError "(string \<times> int \<times> duration) list"
| Answer rpc_err | Failures "(string \<times> rpc_err) list"

definition candidates :: "FailoverClient \<Rightarrow> gtime \<Rightarrow> nat list" where
  "candidates c now = filter (\<lambda>i. \<not> quarantined (c ! i) now) [0..<length c]"

definition quarantinedError :: "FailoverClient \<Rightarrow> gtime \<Rightarrow> call_err" where
  "quarantinedError c now =
     QuarantinedError (map (\<lambda>ep.
       (ep_url ep, ep_failures ep,
        let remaining = time_sub (ep_quarantineUntil ep) now in if remaining < 0 then 0 else remaining)) c)"

text \<open>The doubling loop; \<open>n\<close> is the number of iterations \<open>i < failures\<close> still allows.\<close>

fun backoff_loop :: "nat \<Rightarrow> duration \<Rightarrow> duration" where
  "backoff_loop 0 backoff = backoff"
| "backoff_loop (Suc n) backoff =
     (if backoff < failoverQuarantineMax then backoff_loop n (backoff * 2) else backoff)"

definition quarantineFor :: "int \<Rightarrow> duration" where
  "quarantineFor failures =
     (let backoff = backoff_loop (nat (failures - 1)) failoverQuarantineBase
      in if failoverQuarantineMax < backoff then failoverQuarantineMax else backoff)"

definition recordFailure :: "rpcEndpoint \<Rightarrow> gtime \<Rightarrow> rpcEndpoint" where
  "recordFailure ep now =
     ep\<lparr>ep_failures := ep_failures ep + 1,
        ep_quarantineUntil := now + quarantineFor (ep_failures ep + 1)\<rparr>"

definition recordSuccess :: "rpcEndpoint \<Rightarrow> rpcEndpoint" where
  "recordSuccess ep = ep\<lparr>ep_failures := 0, ep_quarantineUntil := 0\<rparr>"

text \<open>
  The loop over the candidates: \<open>fn i\<close> is the outcome of the request on endpoint \<open>i\<close>,
  \<open>gone i\<close> whether the context has ended by then, and \<open>clk i\<close> the clock then.
\<close>

fun call_loop ::
    "(nat \<Rightarrow> rpc_err + 'r) \<Rightarrow> (nat \<Rightarrow> bool) \<Rightarrow> (nat \<Rightarrow> gtime) \<Rightarrow> nat list \<Rightarrow> (string \<times> rpc_err) list \<Rightarrow>
     FailoverClient \<Rightarrow> (call_err + 'r) \<times> FailoverClient" where
  "call_loop fn gone clk [] errs c = (Inl (Failures errs), c)"
| "call_loop fn gone clk (i # is) errs c =
     (case fn i of
        Inr r \<Rightarrow> (Inr r, c[i := recordSuccess (c ! i)])
      | Inl err \<Rightarrow>
          (if gone i then (Inl (Answer err), c)
           else if \<not> isFailoverError err then (Inl (Answer err), c)
           else call_loop fn gone clk is (errs @ [(ep_url (c ! i), err)])
                  (c[i := recordFailure (c ! i) (clk i)])))"

definition call ::
    "rpc_err option \<Rightarrow> gtime \<Rightarrow> (nat \<Rightarrow> rpc_err + 'r) \<Rightarrow> (nat \<Rightarrow> bool) \<Rightarrow> (nat \<Rightarrow> gtime) \<Rightarrow>
     FailoverClient \<Rightarrow> (call_err + 'r) \<times> FailoverClient" where
  "call ctxErr now fn gone clk c =
     (case ctxErr of
        Some e \<Rightarrow> (Inl (CtxErr e), c)
      | None \<Rightarrow>
          (if candidates c now = [] then (Inl (quarantinedError c now), c)
           else call_loop fn gone clk (candidates c now) [] c))"

subsection \<open>Backoff\<close>

lemma backoff_loop_closed:
  "0 < b \<Longrightarrow> min (backoff_loop n b) failoverQuarantineMax = min (b * 2 ^ n) failoverQuarantineMax"
proof (induction n arbitrary: b)
  case 0
  then show ?case by simp
next
  case (Suc n)
  show ?case
  proof (cases "b < failoverQuarantineMax")
    case True
    then show ?thesis using Suc.IH [of "b * 2"] Suc.prems by (simp add: mult.assoc)
  next
    case False
    have "b * 1 \<le> b * 2 ^ Suc n" using Suc.prems by (intro mult_left_mono one_le_power) simp_all
    with False have "failoverQuarantineMax \<le> b" "failoverQuarantineMax \<le> b * 2 ^ Suc n" by linarith+
    with False show ?thesis by (simp add: min_absorb2 del: power_Suc)
  qed
qed

lemma quarantineFor_closed:
  "quarantineFor failures = min (failoverQuarantineBase * 2 ^ nat (failures - 1)) failoverQuarantineMax"
  using backoff_loop_closed [of failoverQuarantineBase "nat (failures - 1)"]
  by (simp add: quarantineFor_def Let_def min_def quarantine_defs split: if_splits)

lemma quarantineFor_bounds: "failoverQuarantineBase \<le> quarantineFor n \<and> quarantineFor n \<le> failoverQuarantineMax"
proof -
  have "failoverQuarantineBase * 1 \<le> failoverQuarantineBase * 2 ^ nat (n - 1)"
    by (intro mult_left_mono) (simp_all add: quarantine_defs)
  then show ?thesis
    by (simp add: quarantineFor_closed) (simp add: quarantine_defs)
qed

subsection \<open>One call\<close>

lemma call_loop_length [simp]: "length (snd (call_loop fn gone clk is errs c)) = length c"
  by (induction "is" arbitrary: errs c) (auto split: sum.splits)

lemma call_loop_other: "j \<notin> set is \<Longrightarrow> snd (call_loop fn gone clk is errs c) ! j = c ! j"
  by (induction "is" arbitrary: errs c) (auto split: sum.splits)

text \<open>A prefix of candidates that all fail through their own fault is parked and passed over.\<close>

definition fails_over :: "(nat \<Rightarrow> rpc_err + 'r) \<Rightarrow> (nat \<Rightarrow> bool) \<Rightarrow> nat \<Rightarrow> bool" where
  "fails_over fn gone i \<longleftrightarrow> (\<exists>err. fn i = Inl err \<and> \<not> gone i \<and> isFailoverError err)"

definition park :: "(nat \<Rightarrow> gtime) \<Rightarrow> nat list \<Rightarrow> FailoverClient \<Rightarrow> FailoverClient" where
  "park clk is c = foldl (\<lambda>c i. c[i := recordFailure (c ! i) (clk i)]) c is"

lemma call_loop_prefix:
  "list_all (fails_over fn gone) xs \<Longrightarrow>
   \<exists>errs'. call_loop fn gone clk (xs @ ys) errs c = call_loop fn gone clk ys (errs @ errs') (park clk xs c) \<and>
     map snd errs' = map (\<lambda>i. projl (fn i)) xs"
proof (induction xs arbitrary: errs c)
  case (Cons x xs)
  then obtain err where e: "fn x = Inl err" "\<not> gone x" "isFailoverError err"
    by (auto simp: fails_over_def)
  obtain errs' where "call_loop fn gone clk (xs @ ys) (errs @ [(ep_url (c ! x), err)]) (c[x := recordFailure (c ! x) (clk x)]) =
      call_loop fn gone clk ys ((errs @ [(ep_url (c ! x), err)]) @ errs') (park clk xs (c[x := recordFailure (c ! x) (clk x)]))"
    "map snd errs' = map (\<lambda>i. projl (fn i)) xs"
    using Cons by fastforce
  with e show ?case
    by (intro exI [of _ "(ep_url (c ! x), err) # errs'"]) (simp add: park_def)
qed (simp add: park_def)

lemma park_nth:
  "distinct is \<Longrightarrow> j < length c \<Longrightarrow>
   park clk is c ! j = (if j \<in> set is then recordFailure (c ! j) (clk j) else c ! j)"
  unfolding park_def
proof (induction "is" arbitrary: c)
  case (Cons i "is")
  then show ?case by (cases "j = i") auto
qed simp

lemma length_park [simp]: "length (park clk is c) = length c"
  unfolding park_def by (induction "is" arbitrary: c) auto

lemma candidates_distinct [simp]: "distinct (candidates c now)"
  by (simp add: candidates_def)

lemma candidates_set: "i \<in> set (candidates c now) \<longleftrightarrow> i < length c \<and> \<not> quarantined (c ! i) now"
  by (auto simp: candidates_def)

lemma candidates_sorted: "sorted_wrt (<) (candidates c now)"
  by (simp add: candidates_def sorted_wrt_filter strict_sorted_iff [symmetric])

text \<open>The candidates in front of a candidate are the eligible endpoints of higher priority.\<close>

lemma candidates_split:
  assumes "i < length c" "\<not> quarantined (c ! i) now"
  shows "\<exists>xs ys. candidates c now = xs @ i # ys \<and> set xs = {j. j < i \<and> \<not> quarantined (c ! j) now}"
proof -
  have "i \<in> set (candidates c now)" using assms by (simp add: candidates_set)
  then obtain xs ys where s: "candidates c now = xs @ i # ys" by (meson split_list)
  have before: "j < i" if "j \<in> set xs" for j
    using candidates_sorted [of c now] that by (simp add: s sorted_wrt_append)
  have after: "i < j" if "j \<in> set ys" for j
    using candidates_sorted [of c now] that by (simp add: s sorted_wrt_append)
  have mem: "j = i \<or> j \<in> set xs \<or> j \<in> set ys \<longleftrightarrow> j < length c \<and> \<not> quarantined (c ! j) now" for j
    using candidates_set [of j c now] by (simp add: s)
  have "j \<in> set xs \<longleftrightarrow> j < i \<and> \<not> quarantined (c ! j) now" for j
    using before [of j] after [of j] mem [of j] assms(1) by (metis less_asym less_irrefl less_trans)
  then have "set xs = {j. j < i \<and> \<not> quarantined (c ! j) now}" by blast
  with s show ?thesis by blast
qed

subsection \<open>Properties\<close>

text \<open>
  C36. A call whose context is alive answers with the first endpoint in priority order that
  is in rotation and works, whenever the endpoints before it fail through their own
  fault: the call succeeds with that endpoint's result. That endpoint has no failures left and is in rotation at any
  time. Each endpoint that was tried and failed before it has one failure more than it had and is out of rotation from
  then on for five seconds doubled once per earlier failure, at most five minutes, and back in after that. Endpoints that
  were out of rotation and those behind the one that answered are as they were. (The clock does not run before Go's
  zero time.)
\<close>

theorem failover_reaches_first_working_endpoint:
  fixes c :: FailoverClient and now :: gtime and r :: 'r
  assumes i: "i < length c" "\<not> quarantined (c ! i) now" "fn i = Inr r"
    and before: "\<forall>j < i. quarantined (c ! j) now \<or> fails_over fn gone j"
    and clock: "\<forall>j < i. 0 \<le> clk j"
  shows "let (res, c') = call None now fn gone clk c in
     res = Inr r \<and> map ep_url c' = map ep_url c \<and>
     ep_failures (c' ! i) = 0 \<and> (\<forall>t. \<not> quarantined (c' ! i) t) \<and>
     (\<forall>j < i. \<not> quarantined (c ! j) now \<longrightarrow>
        ep_failures (c' ! j) = ep_failures (c ! j) + 1 \<and>
        (\<forall>t. quarantined (c' ! j) t \<longleftrightarrow> t < clk j + min (5 * second * 2 ^ nat (ep_failures (c ! j))) (5 * minute))) \<and>
     (\<forall>j < length c. quarantined (c ! j) now \<or> i < j \<longrightarrow> c' ! j = c ! j)"
proof -
  obtain xs ys where s: "candidates c now = xs @ i # ys"
    and xs: "set xs = {j. j < i \<and> \<not> quarantined (c ! j) now}"
    using candidates_split [OF i(1,2)] by blast
  have d: "distinct xs" using candidates_distinct [of c now] by (simp add: s)
  have "list_all (fails_over fn gone) xs"
    using before xs by (auto simp: list_all_iff)
  from call_loop_prefix [OF this, of clk "i # ys" "[]" c]
  have run: "call None now fn gone clk c = (Inr r, (park clk xs c)[i := recordSuccess (park clk xs c ! i)])"
    using i(3) by (auto simp: call_def s)
  let ?c = "(park clk xs c)[i := recordSuccess (park clk xs c ! i)]"
  have at_i: "?c ! i = recordSuccess (c ! i)" using i(1) xs by (simp add: park_nth [OF d])
  have failed: "?c ! j = recordFailure (c ! j) (clk j)" if "j < i" "\<not> quarantined (c ! j) now" for j
    using i(1) xs that by (simp add: park_nth [OF d])
  have rest: "?c ! j = c ! j" if "j < length c" "quarantined (c ! j) now \<or> i < j" for j
  proof -
    have "j \<noteq> i" "j \<notin> set xs" unfolding xs using i(2) that(2) by auto
    then show ?thesis using that(1) by (simp add: park_nth [OF d])
  qed
  have urls: "map ep_url ?c = map ep_url c"
  proof (rule nth_equalityI)
    fix j
    assume j: "j < length (map ep_url ?c)"
    have j: "j < length c" using j by simp
    consider "j = i" | "j < i" "\<not> quarantined (c ! j) now" | "quarantined (c ! j) now \<or> i < j" using linorder_neqE_nat by blast
    then have "ep_url (?c ! j) = ep_url (c ! j)"
    proof cases
      case 1
      show ?thesis unfolding 1 at_i by (simp add: recordSuccess_def)
    next
      case 2
      show ?thesis unfolding failed [OF 2] by (simp add: recordFailure_def)
    next
      case 3
      show ?thesis unfolding rest [OF j 3] ..
    qed
    then show "map ep_url ?c ! j = map ep_url c ! j" using j by (simp del: nth_list_update)
  qed simp
  have parked: "quarantined (recordFailure ep n) t \<longleftrightarrow> t < n + min (5 * second * 2 ^ nat (ep_failures ep)) (5 * minute)" if "0 \<le> n" for ep n t
  proof -
    have "0 < n + quarantineFor (ep_failures ep + 1)" using quarantineFor_bounds [of "ep_failures ep + 1"] that by (simp add: quarantine_defs)
    then show ?thesis by (simp add: quarantined_def recordFailure_def quarantineFor_closed failoverQuarantineBase_def failoverQuarantineMax_def)
  qed
  have cleared: "ep_failures (recordSuccess ep) = 0" "\<not> quarantined (recordSuccess ep) t" for ep t by (simp_all add: recordSuccess_def quarantined_def)
  have more: "ep_failures (recordFailure ep n) = ep_failures ep + 1" for ep n by (simp add: recordFailure_def)
  show ?thesis unfolding run Let_def prod.case at_i
    by (intro conjI allI impI refl urls cleared) (use failed rest clock parked more in \<open>auto simp del: nth_list_update\<close>)
qed

definition failover_demo :: FailoverClient where
  "failover_demo = NewFailoverClient [''a'', ''b'', ''c'']"

theorem failover_reaches_first_working_endpoint_witness:
  "let (res, c') = call None 100 (\<lambda>i. if i = 0 then Inl [RpcHTTPStatus 503] else Inr (7 :: int))
       (\<lambda>i. False) (\<lambda>i. 100) failover_demo
   in res = Inr 7 \<and> ep_failures (c' ! 0) = 1 \<and> quarantined (c' ! 0) (99 + 5 * second) \<and> \<not> quarantined (c' ! 0) (100 + 5 * second)
      \<and> c' ! 2 = failover_demo ! 2"
proof -
  let ?fn = "\<lambda>i :: nat. if i = 0 then Inl [RpcHTTPStatus 503] else Inr (7 :: int)"
  have "1 < length failover_demo" "\<not> quarantined (failover_demo ! 1) 100" "?fn 1 = Inr 7"
    "\<forall>j < 1. quarantined (failover_demo ! j) 100 \<or> fails_over ?fn (\<lambda>i. False) j" "\<forall>j < 1. 0 \<le> (100 :: gtime)"
    by (simp_all add: failover_demo_def NewFailoverClient_def quarantined_def fails_over_def isFailoverError_def)
  note claim = failover_reaches_first_working_endpoint [OF this]
  have fresh: "\<not> quarantined (failover_demo ! 0) 100" "ep_failures (failover_demo ! 0) = 0" "length failover_demo = 3"
    by (simp_all add: failover_demo_def NewFailoverClient_def quarantined_def)
  have lengths: "5 * second * 2 ^ nat 0 \<le> 5 * minute" by (simp add: duration_defs)
  show ?thesis using claim fresh lengths by (auto simp: Let_def min_absorb1 split: prod.splits)
qed

text \<open>
  An answer that is the request's fault (a 4xx other than 429, a JSON-RPC error object), and any failure
  after the caller gave up, ends the call with that very error: no further endpoint is asked
  and the endpoint that answered keeps its standing.
\<close>

theorem failover_returns_request_errors:
  fixes c :: FailoverClient and now :: gtime and fn :: "nat \<Rightarrow> rpc_err + 'r"
  assumes i: "i < length c" "\<not> quarantined (c ! i) now" "fn i = Inl err"
    and own: "gone i \<or> \<not> isFailoverError err"
    and before: "\<forall>j < i. quarantined (c ! j) now \<or> fails_over fn gone j"
  shows "let (res, c') = call None now fn gone clk c in
     res = Inl (Answer err) \<and> (\<forall>j < length c. i \<le> j \<longrightarrow> c' ! j = c ! j)"
proof -
  obtain xs ys where s: "candidates c now = xs @ i # ys"
    and xs: "set xs = {j. j < i \<and> \<not> quarantined (c ! j) now}"
    using candidates_split [OF i(1,2)] by blast
  have d: "distinct xs" using candidates_distinct [of c now] by (simp add: s)
  have "list_all (fails_over fn gone) xs"
    using before xs by (auto simp: list_all_iff)
  from call_loop_prefix [OF this, of clk "i # ys" "[]" c]
  have "call None now fn gone clk c = (Inl (Answer err), park clk xs c)"
    using i(3) own by (auto simp: call_def s)
  then show ?thesis
    using i(1) xs by (simp add: park_nth [OF d])
qed

theorem failover_returns_request_errors_witness:
  "let (res, c') = call None 100 (\<lambda>i. Inl [RpcHTTPStatus 404] :: rpc_err + int) (\<lambda>i. False) (\<lambda>i. 100) failover_demo
   in res = Inl (Answer [RpcHTTPStatus 404]) \<and> (\<forall>j < length failover_demo. 0 \<le> j \<longrightarrow> c' ! j = failover_demo ! j)"
  by (rule failover_returns_request_errors)
    (simp_all add: failover_demo_def NewFailoverClient_def quarantined_def isFailoverError_def)

subsection \<open>Runs of calls\<close>

text \<open>The state after any sequence of calls, each with its own answers and clock readings.\<close>

record 'r rpc_call =
  rc_ctxErr :: "rpc_err option"
  rc_now :: gtime
  rc_fn :: "nat \<Rightarrow> rpc_err + 'r"
  rc_gone :: "nat \<Rightarrow> bool"
  rc_clk :: "nat \<Rightarrow> gtime"

definition failover_run :: "string list \<Rightarrow> 'r rpc_call list \<Rightarrow> FailoverClient" where
  "failover_run urls calls =
     foldl (\<lambda>c k. snd (call (rc_ctxErr k) (rc_now k) (rc_fn k) (rc_gone k) (rc_clk k) c))
       (NewFailoverClient urls) calls"

definition ep_ok :: "gtime \<Rightarrow> rpcEndpoint \<Rightarrow> bool" where
  "ep_ok T ep \<longleftrightarrow> 0 \<le> ep_failures ep \<and>
     (ep_failures ep = 0 \<longrightarrow> ep_quarantineUntil ep = 0) \<and>
     (0 < ep_failures ep \<longrightarrow> ep_quarantineUntil ep \<le> T + quarantineFor (ep_failures ep))"

lemma ep_ok_success: "ep_ok T (recordSuccess ep)"
  by (simp add: ep_ok_def recordSuccess_def)

lemma ep_ok_failure: "ep_ok T ep \<Longrightarrow> now \<le> T \<Longrightarrow> ep_ok T (recordFailure ep now)"
  by (auto simp: ep_ok_def recordFailure_def)

lemma call_loop_ok:
  "list_all (ep_ok T) c \<Longrightarrow> \<forall>i \<in> set is. i < length c \<and> clk i \<le> T \<Longrightarrow>
   list_all (ep_ok T) (snd (call_loop fn gone clk is errs c))"
proof (induction "is" arbitrary: errs c)
  case (Cons i "is")
  have "list_all (ep_ok T) (c[i := recordSuccess (c ! i)])" "list_all (ep_ok T) (c[i := recordFailure (c ! i) (clk i)])"
    using Cons.prems by (auto simp: list_all_length nth_list_update ep_ok_success ep_ok_failure)
  with Cons show ?case by (auto split: sum.splits)
qed simp

lemma call_length [simp]: "length (snd (call e now fn gone clk c)) = length c"
  by (simp add: call_def split: option.split)

lemma failover_run_ok:
  assumes "\<forall>k \<in> set calls. \<forall>i. rc_clk k i \<le> T"
  shows "list_all (ep_ok T) (failover_run urls calls) \<and> length (failover_run urls calls) = length urls"
proof -
  have step: "list_all (ep_ok T) (snd (call e now fn gone clk c))"
    if "list_all (ep_ok T) c" "\<forall>i. clk i \<le> T" for e now clk c and fn :: "nat \<Rightarrow> rpc_err + 'r" and gone
    using that call_loop_ok [of T c "candidates c now" clk fn gone "[]"]
    by (simp add: call_def candidates_set split: option.split)
  have runs: "list_all (ep_ok T) c \<Longrightarrow> \<forall>k \<in> set calls. \<forall>i. rc_clk k i \<le> T \<Longrightarrow>
     list_all (ep_ok T) (foldl (\<lambda>c k. snd (call (rc_ctxErr k) (rc_now k) (rc_fn k) (rc_gone k) (rc_clk k) c)) c calls) \<and>
     length (foldl (\<lambda>c k. snd (call (rc_ctxErr k) (rc_now k) (rc_fn k) (rc_gone k) (rc_clk k) c)) c calls) = length c"
    for c and calls :: "'r rpc_call list"
    by (induction calls arbitrary: c) (simp_all add: step)
  have "list_all (ep_ok T) (NewFailoverClient urls)" "length (NewFailoverClient urls) = length urls"
    by (simp_all add: NewFailoverClient_def list_all_iff ep_ok_def)
  then show ?thesis
    using runs [OF _ assms, of "NewFailoverClient urls"] by (simp add: failover_run_def)
qed

text \<open>
  C1. Quarantine is bounded: whatever calls were made up to an instant \<open>T\<close>, an endpoint with \<open>n\<close>
  consecutive failures is parked until at most \<open>min (5s * 2^(n-1)) 5min\<close> after \<open>T\<close>, and an endpoint that has not failed since its
  last success is not parked. Five minutes after the last call every endpoint is in rotation again.
\<close>

theorem failover_quarantine_is_bounded:
  fixes urls :: "string list" and calls :: "'r rpc_call list" and T :: gtime
  assumes "\<forall>k \<in> set calls. \<forall>i. rc_clk k i \<le> T"
  shows "let c = failover_run urls calls in
     (\<forall>ep \<in> set c. ep_failures ep = 0 \<longrightarrow> ep_quarantineUntil ep = 0) \<and>
     (\<forall>ep \<in> set c. 0 < ep_failures ep \<longrightarrow>
        ep_quarantineUntil ep \<le> T + min (5 * second * 2 ^ nat (ep_failures ep - 1)) (5 * minute)) \<and>
     (\<forall>now \<ge> T + 5 * minute. candidates c now = [0..<length urls])"
proof -
  define c where "c = failover_run urls calls"
  have ok: "list_all (ep_ok T) c" "length c = length urls"
    using failover_run_ok [OF assms] by (simp_all add: c_def)
  have "candidates c now = [0..<length urls]" if "T + 5 * minute \<le> now" for now
  proof -
    have "\<not> quarantined (c ! i) now" if "i < length c" for i
    proof -
      have "ep_ok T (c ! i)" using ok that by (simp add: list_all_length)
      then show ?thesis
        using quarantineFor_bounds [of "ep_failures (c ! i)"] \<open>T + 5 * minute \<le> now\<close>
        by (auto simp: ep_ok_def quarantined_def failoverQuarantineMax_def)
    qed
    then show ?thesis by (simp add: candidates_def ok(2) [symmetric])
  qed
  then show ?thesis
    using ok unfolding c_def [symmetric] Let_def
    by (auto simp: list_all_iff ep_ok_def quarantineFor_closed failoverQuarantineBase_def failoverQuarantineMax_def)
qed

definition failover_demo_call :: "int rpc_call" where
  "failover_demo_call = \<lparr>rc_ctxErr = None, rc_now = 100, rc_fn = (\<lambda>i. Inl [RpcOther]), rc_gone = (\<lambda>i. False),
     rc_clk = (\<lambda>i. 100)\<rparr>"

theorem failover_quarantine_is_bounded_witness:
  "candidates (failover_run [''a'', ''b''] [failover_demo_call]) 100 = [] \<and>
   candidates (failover_run [''a'', ''b''] [failover_demo_call]) (100 + 5 * minute) = [0, 1]"
proof -
  have "\<forall>k \<in> set [failover_demo_call]. \<forall>i. rc_clk k i \<le> 100"
    by (simp add: failover_demo_call_def)
  from failover_quarantine_is_bounded [OF this, of "[''a'', ''b'']"]
  have "candidates (failover_run [''a'', ''b''] [failover_demo_call]) (100 + 5 * minute) = [0..<2]"
    by (simp add: Let_def numeral_2_eq_2)
  moreover have "candidates (failover_run [''a'', ''b''] [failover_demo_call]) 100 = []"
    by (simp add: failover_run_def failover_demo_call_def NewFailoverClient_def call_def candidates_def
        quarantined_def isFailoverError_def recordFailure_def quarantineFor_def quarantine_defs)
  ultimately show ?thesis by (simp add: upt_rec)
qed

end
