(* ===== verification/Escalation.thy ===== *)
theory Escalation
  imports Notify_Types "HOL-Library.Product_Lexorder"
begin

text \<open>
  Tiered notification: \<open>internal/notify/escalation.go\<close> over the statements of
  \<open>internal/store/escalation.go\<close>. The database is a record of the tables the statements touch:
  alerts, rules, policies and channels by id, and the escalation rows, one per alert. Every statement is a function on it.

  A delivered step is an entry of \<open>db_sent\<close>: the alert's id, the notification, the step and the channels it went to; what a delivery does is the
  dispatcher's. \<open>fails op id\<close> says which statements fail for which alert during a pass, so that
  every error branch is taken for some argument. JSON encoding of the snapshot is a pair of
  arguments. The workspace goroutines of a pass touch disjoint rows (the alert id is the
  primary key), so a pass runs the groups one after the other. A pass is atomic in \<open>ProcessDueEscalations\<close>; where the
  interleaving with acknowledgements matters, \<open>scheduler_step\<close> runs its due read, checks and deliveries one by one.
\<close>

subsection \<open>Tables\<close>

record EscalationStep =
  st_DelaySeconds :: int
  st_ChannelIDs :: "int list"

record EscalationPolicy =
  po_ID :: int
  po_MonitorID :: int
  po_Steps :: "EscalationStep list"

record EscalationRun =
  er_AlertID :: int
  er_PolicyID :: int
  er_NextStep :: int
  er_NextDueAt :: gtime
  er_Snapshot :: string

text \<open>A row of \<open>alert_escalations\<close>: the run and \<open>completed_at\<close>.\<close>

record escalation_row = EscalationRun +
  er_completed :: "gtime option"

record alert_row =
  ar_ID :: int
  ar_workspace :: string
  ar_rule :: "int option"
  ar_ruleVersion :: int
  ar_createdAt :: gtime
  ar_RetractedAt :: "gtime option"
  ar_AcknowledgedAt :: "gtime option"
  ar_AcknowledgedBy :: string

record rule_row =
  rr_enabled :: bool
  rr_version :: int

record escalation_db =
  db_alerts :: "int \<rightharpoonup> alert_row"
  db_rules :: "int \<rightharpoonup> rule_row"
  db_policies :: "int \<rightharpoonup> EscalationPolicy"
  db_channels :: "int \<rightharpoonup> channel"
  db_escalations :: "escalation_row list"
  db_sent :: "(int \<times> alert \<times> int \<times> int list) list"

datatype store_err = ErrNotFound | ErrStore | ErrCtx

datatype store_op = OpGetPolicy | OpGetAlert | OpListChannels | OpAdvance | OpComplete | OpSchedule

type_synonym failures = "store_op \<Rightarrow> int \<Rightarrow> bool"

subsection \<open>Statements\<close>

definition workspaceID :: "ctx \<Rightarrow> string" where
  "workspaceID c = (case From c of (i, ok) \<Rightarrow> if ok then i else Default)"

text \<open>\<open>GetAlert\<close> reads within the caller's workspace; \<open>cutoff\<close> is the workspace's retention cutoff, if any.\<close>

definition GetAlert :: "ctx \<Rightarrow> gtime option \<Rightarrow> escalation_db \<Rightarrow> int \<Rightarrow> store_err + alert_row" where
  "GetAlert c cutoff db i =
     (case db_alerts db i of
        None \<Rightarrow> Inl ErrNotFound
      | Some a \<Rightarrow>
          (if ar_workspace a \<noteq> workspaceID c then Inl ErrNotFound
           else (case cutoff of
                   Some t \<Rightarrow> if ar_createdAt a < t then Inl ErrNotFound else Inr a
                 | None \<Rightarrow> Inr a)))"

definition GetEscalationPolicy :: "escalation_db \<Rightarrow> int \<Rightarrow> store_err + EscalationPolicy" where
  "GetEscalationPolicy db policyID =
     (case db_policies db policyID of None \<Rightarrow> Inl ErrNotFound | Some p \<Rightarrow> Inr p)"

definition ListChannelsByIDs :: "escalation_db \<Rightarrow> int list \<Rightarrow> channel list" where
  "ListChannelsByIDs db ids =
     (if ids = [] then []
      else map (\<lambda>i. the (db_channels db i))
             (filter (\<lambda>i. case db_channels db i of None \<Rightarrow> False | Some ch \<Rightarrow> ch_Enabled ch) (sort (remdups ids))))"

definition ScheduleEscalation ::
    "escalation_db \<Rightarrow> int \<Rightarrow> int \<Rightarrow> string \<Rightarrow> int \<Rightarrow> gtime \<Rightarrow> store_err option \<times> escalation_db" where
  "ScheduleEscalation db alertID policyID snapshot nextStep nextDue =
     (if db_alerts db alertID = None then (Some ErrNotFound, db)
      else (let row = \<lparr>er_AlertID = alertID, er_PolicyID = policyID, er_NextStep = nextStep,
                       er_NextDueAt = nextDue, er_Snapshot = snapshot, er_completed = None\<rparr>
            in (None,
                if alertID \<in> er_AlertID ` set (db_escalations db)
                then db\<lparr>db_escalations := map (\<lambda>r. if er_AlertID r = alertID then row else r) (db_escalations db)\<rparr>
                else db\<lparr>db_escalations := db_escalations db @ [row]\<rparr>)))"

definition is_due :: "escalation_db \<Rightarrow> gtime \<Rightarrow> escalation_row \<Rightarrow> bool" where
  "is_due db now e =
     (er_completed e = None \<and> er_NextDueAt e \<le> now \<and>
      (case db_alerts db (er_AlertID e) of
         None \<Rightarrow> False
       | Some a \<Rightarrow>
           ar_AcknowledgedAt a = None \<and>
           (case ar_rule a of
              None \<Rightarrow> True
            | Some r \<Rightarrow> (case db_rules db r of
                          None \<Rightarrow> False
                        | Some rule \<Rightarrow> rr_enabled rule \<and> rr_version rule = ar_ruleVersion a))))"

definition DueEscalations :: "escalation_db \<Rightarrow> gtime \<Rightarrow> int \<Rightarrow> EscalationRun list" where
  "DueEscalations db now limit =
     take (nat (if limit \<le> 0 then 100 else limit))
       (map EscalationRun.truncate
         (sort_key (\<lambda>e. (er_NextDueAt e, er_AlertID e)) (filter (is_due db now) (db_escalations db))))"

definition AdvanceEscalation :: "escalation_db \<Rightarrow> int \<Rightarrow> int \<Rightarrow> gtime \<Rightarrow> escalation_db" where
  "AdvanceEscalation db alertID nextStep nextDue =
     db\<lparr>db_escalations :=
          map (\<lambda>r. if er_AlertID r = alertID \<and> er_completed r = None
                   then r\<lparr>er_NextStep := nextStep, er_NextDueAt := nextDue\<rparr> else r) (db_escalations db)\<rparr>"

definition CompleteEscalation :: "escalation_db \<Rightarrow> int \<Rightarrow> gtime \<Rightarrow> escalation_db" where
  "CompleteEscalation db alertID now =
     db\<lparr>db_escalations :=
          map (\<lambda>r. if er_AlertID r = alertID then r\<lparr>er_completed := Some now\<rparr> else r) (db_escalations db)\<rparr>"

definition AcknowledgeAlert ::
    "ctx \<Rightarrow> escalation_db \<Rightarrow> int \<Rightarrow> string \<Rightarrow> gtime \<Rightarrow> store_err option \<times> escalation_db" where
  "AcknowledgeAlert c db alertID actor now =
     (case db_alerts db alertID of
        None \<Rightarrow> (Some ErrNotFound, db)
      | Some a \<Rightarrow>
          (if ar_workspace a \<noteq> workspaceID c then (Some ErrNotFound, db)
           else
             (let a' = (if ar_AcknowledgedAt a = None
                        then a\<lparr>ar_AcknowledgedAt := Some now, ar_AcknowledgedBy := actor\<rparr> else a)
              in (None,
                  db\<lparr>db_alerts := (db_alerts db)(alertID \<mapsto> a'),
                     db_escalations :=
                       map (\<lambda>r. if er_AlertID r = alertID \<and> er_completed r = None
                                then r\<lparr>er_completed := Some now\<rparr> else r) (db_escalations db)\<rparr>))))"

subsection \<open>The scheduler\<close>

definition seconds :: "int \<Rightarrow> duration" where
  "seconds n =
     (let maxSeconds = max_i64 div second in
      if n \<le> 0 then 0 else wrap64 ((if maxSeconds < n then maxSeconds else n) * second))"

definition deliverStep ::
    "failures \<Rightarrow> escalation_db \<Rightarrow> int \<Rightarrow> alert \<Rightarrow> int \<Rightarrow> EscalationStep \<Rightarrow> escalation_db" where
  "deliverStep fails db i a idx step =
     (if st_ChannelIDs step = [] then db
      else if fails OpListChannels i then db
      else db\<lparr>db_sent := db_sent db @ [(i, a, idx, map ch_ID (ListChannelsByIDs db (st_ChannelIDs step)))]\<rparr>)"

text \<open>\<open>Steps[0]\<close> of an empty policy panics in Go; the dispatcher only starts a policy that has steps.\<close>

definition startEscalation ::
    "(alert \<Rightarrow> string option) \<Rightarrow> failures \<Rightarrow> gtime \<Rightarrow> escalation_db \<Rightarrow> alert \<Rightarrow> EscalationPolicy \<Rightarrow> escalation_db option"
where
  "startEscalation marshal fails now db a policy =
     (case po_Steps policy of
        [] \<Rightarrow> None
      | first # rest \<Rightarrow>
          (let db1 = deliverStep fails db (al_ID a) a 0 first in
           Some (case rest of
             [] \<Rightarrow> db1
           | next # _ \<Rightarrow>
               (case marshal a of
                  None \<Rightarrow> db1
                | Some snapshot \<Rightarrow>
                    (if fails OpSchedule (al_ID a) then db1
                     else snd (ScheduleEscalation db1 (al_ID a) (po_ID policy) snapshot 1
                                 (now + seconds (st_DelaySeconds next))))))))"

definition alertAcknowledged :: "failures \<Rightarrow> ctx \<Rightarrow> gtime option \<Rightarrow> escalation_db \<Rightarrow> int \<Rightarrow> bool" where
  "alertAcknowledged fails c cutoff db alertID =
     (if fails OpGetAlert alertID then False
      else (case GetAlert c cutoff db alertID of
              Inl e \<Rightarrow> False
            | Inr a \<Rightarrow> ar_AcknowledgedAt a \<noteq> None))"

definition complete :: "failures \<Rightarrow> gtime \<Rightarrow> escalation_db \<Rightarrow> int \<Rightarrow> escalation_db" where
  "complete fails now db alertID = (if fails OpComplete alertID then db else CompleteEscalation db alertID now)"

text \<open>What a pass is given: the context and its end, the clock, decoding, and the failing statements.\<close>

record pass =
  ps_ctx :: ctx
  ps_cutoff :: "gtime option"
  ps_now :: gtime
  ps_unmarshal :: "string \<Rightarrow> alert option"
  ps_fails :: failures
  ps_cancelled :: "int \<Rightarrow> bool"
  ps_ctxDone :: bool
  ps_batch :: int
  ps_dueFails :: bool
  ps_workspaceOf :: "EscalationRun \<Rightarrow> string"

text \<open>
  The body of the loop for one run, after the context check, in its two halves. \<open>check_run\<close> ends with the re-read of the
  acknowledgement: either the escalation is completed there, or the step may be delivered. \<open>deliver_run\<close> delivers it
  and moves the row on. Other goroutines may run between the due read, the check and the delivery.
\<close>

definition check_run :: "pass \<Rightarrow> escalation_db \<Rightarrow> EscalationRun \<Rightarrow> escalation_db + alert \<times> EscalationPolicy" where
  "check_run ps db run =
     (let i = er_AlertID run; fails = ps_fails ps; now = ps_now ps in
      case ps_unmarshal ps (er_Snapshot run) of
        None \<Rightarrow> Inl (complete fails now db i)
      | Some a \<Rightarrow>
          (case (if fails OpGetPolicy i then Inl ErrStore else GetEscalationPolicy db (er_PolicyID run)) of
             Inl e \<Rightarrow> Inl (complete fails now db i)
           | Inr policy \<Rightarrow>
               (let k = er_NextStep run; n = int (length (po_Steps policy)) in
                if k < 0 \<or> n \<le> k then Inl (complete fails now db i)
                else if alertAcknowledged fails (ps_ctx ps) (ps_cutoff ps) db i then Inl (complete fails now db i)
                else Inr (a, policy))))"

definition deliver_run :: "pass \<Rightarrow> escalation_db \<Rightarrow> EscalationRun \<Rightarrow> alert \<times> EscalationPolicy \<Rightarrow> escalation_db" where
  "deliver_run ps db run checked =
     (case checked of (a, policy) \<Rightarrow>
      let i = er_AlertID run; fails = ps_fails ps; now = ps_now ps; k = er_NextStep run; n = int (length (po_Steps policy));
          db1 = deliverStep fails db i a k (po_Steps policy ! nat k)
      in if k + 1 < n
         then (if fails OpAdvance i then db1
               else AdvanceEscalation db1 i (k + 1)
                      (now + seconds (st_DelaySeconds (po_Steps policy ! nat (k + 1)))))
         else complete fails now db1 i)"

text \<open>Both halves with nothing in between; the flag is \<open>delivered++\<close>.\<close>

definition processRun :: "pass \<Rightarrow> escalation_db \<Rightarrow> EscalationRun \<Rightarrow> bool \<times> escalation_db" where
  "processRun ps db run =
     (case check_run ps db run of
        Inl db' \<Rightarrow> (False, db')
      | Inr checked \<Rightarrow> (True, deliver_run ps db run checked))"

lemmas processRun_defs = processRun_def check_run_def deliver_run_def

text \<open>\<open>ps_cancelled i\<close>: the context has ended when the run of alert \<open>i\<close> comes up.\<close>

fun processEscalationSlice ::
    "pass \<Rightarrow> escalation_db \<Rightarrow> EscalationRun list \<Rightarrow> (nat \<times> store_err option) \<times> escalation_db" where
  "processEscalationSlice ps db [] = ((0, None), db)"
| "processEscalationSlice ps db (run # runs) =
     (if ps_cancelled ps (er_AlertID run) then ((0, Some ErrCtx), db)
      else (case processRun ps db run of (sent, db1) \<Rightarrow>
              (case processEscalationSlice ps db1 runs of ((n, err), db2) \<Rightarrow>
                 (((if sent then 1 else 0) + n, err), db2))))"

text \<open>The runs of each workspace together, workspaces in order of first appearance.\<close>

definition groupRuns :: "(EscalationRun \<Rightarrow> string) \<Rightarrow> EscalationRun list \<Rightarrow> EscalationRun list list" where
  "groupRuns wsOf runs = group_by wsOf runs"

fun processGroups :: "pass \<Rightarrow> escalation_db \<Rightarrow> EscalationRun list list \<Rightarrow> nat \<times> escalation_db" where
  "processGroups ps db [] = (0, db)"
| "processGroups ps db (g # gs) =
     (case processEscalationSlice ps db g of ((n, err), db1) \<Rightarrow>
        (case processGroups ps db1 gs of (m, db2) \<Rightarrow> (n + m, db2)))"

definition DefaultEscalationBatch :: int where "DefaultEscalationBatch = 100"

definition ProcessDueEscalations :: "pass \<Rightarrow> escalation_db \<Rightarrow> (nat \<times> store_err option) \<times> escalation_db" where
  "ProcessDueEscalations ps db =
     (if ps_dueFails ps then ((0, Some ErrStore), db)
      else (let batch = (if ps_batch ps \<le> 0 then DefaultEscalationBatch else ps_batch ps);
                runs = DueEscalations db (ps_now ps) batch;
                groups = groupRuns (ps_workspaceOf ps) runs
            in if runs = [] then ((0, None), db)
               else if length groups \<le> 1 then processEscalationSlice ps db runs
               else (case processGroups ps db groups of (n, db') \<Rightarrow>
                       ((n, if ps_ctxDone ps then Some ErrCtx else None), db'))))"

subsection \<open>What one run changes\<close>

definition sent_for :: "int \<Rightarrow> escalation_db \<Rightarrow> (int \<times> alert \<times> int \<times> int list) list" where
  "sent_for i db = filter (\<lambda>x. fst x = i) (db_sent db)"

abbreviation sent_step :: "int \<times> alert \<times> int \<times> int list \<Rightarrow> int" where
  "sent_step x \<equiv> fst (snd (snd x))"

lemma deliverStep_frame [simp]:
  "db_alerts (deliverStep fails db i a k st) = db_alerts db"
  "db_rules (deliverStep fails db i a k st) = db_rules db"
  "db_policies (deliverStep fails db i a k st) = db_policies db"
  "db_escalations (deliverStep fails db i a k st) = db_escalations db"
  by (simp_all add: deliverStep_def)

lemma deliverStep_sent:
  "db_sent (deliverStep fails db i a k st) = db_sent db \<or>
   (\<exists>chs. db_sent (deliverStep fails db i a k st) = db_sent db @ [(i, a, k, chs)])"
  by (auto simp: deliverStep_def)

lemma Advance_frame [simp]:
  "db_alerts (AdvanceEscalation db i k t) = db_alerts db" "db_rules (AdvanceEscalation db i k t) = db_rules db"
  "db_policies (AdvanceEscalation db i k t) = db_policies db" "db_sent (AdvanceEscalation db i k t) = db_sent db"
  by (simp_all add: AdvanceEscalation_def)

lemma complete_frame [simp]:
  "db_alerts (complete fails now db i) = db_alerts db" "db_rules (complete fails now db i) = db_rules db"
  "db_policies (complete fails now db i) = db_policies db" "db_sent (complete fails now db i) = db_sent db"
  by (simp_all add: complete_def CompleteEscalation_def)

text \<open>Only the row of the run's alert is rewritten, and its id is kept.\<close>

definition row_update :: "int \<Rightarrow> escalation_db \<Rightarrow> escalation_db \<Rightarrow> bool" where
  "row_update i db db' \<longleftrightarrow>
     (\<exists>f. db_escalations db' = map f (db_escalations db) \<and>
          (\<forall>r. er_AlertID (f r) = er_AlertID r) \<and> (\<forall>r. er_AlertID r \<noteq> i \<longrightarrow> f r = r) \<and>
          (\<forall>r. er_completed r \<noteq> None \<longrightarrow> er_completed (f r) \<noteq> None))"

lemma row_update_id: "db_escalations db' = db_escalations db \<Longrightarrow> row_update i db db'"
  unfolding row_update_def by (rule exI [of _ id]) simp

lemma row_update_Advance: "db_escalations db1 = db_escalations db \<Longrightarrow> row_update i db (AdvanceEscalation db1 i k t)"
  unfolding row_update_def AdvanceEscalation_def
  by (rule exI [of _ "\<lambda>r. if er_AlertID r = i \<and> er_completed r = None
       then r\<lparr>er_NextStep := k, er_NextDueAt := t\<rparr> else r"]) auto

lemma row_update_complete: "db_escalations db1 = db_escalations db \<Longrightarrow> row_update i db (complete fails now db1 i)"
  unfolding row_update_def complete_def CompleteEscalation_def
  by (rule exI [of _ "if fails OpComplete i then id
       else (\<lambda>r. if er_AlertID r = i then r\<lparr>er_completed := Some now\<rparr> else r)"]) auto

lemma processRun_frame:
  assumes "processRun ps db run = (s, db')"
  shows "db_alerts db' = db_alerts db \<and> db_rules db' = db_rules db \<and> db_policies db' = db_policies db \<and>
    row_update (er_AlertID run) db db' \<and>
    (db_sent db' = db_sent db \<or> (\<exists>a chs. db_sent db' = db_sent db @ [(er_AlertID run, a, er_NextStep run, chs)]))"
proof -
  let ?i = "er_AlertID run"
  show ?thesis
    using assms deliverStep_sent [of "ps_fails ps" db ?i _ "er_NextStep run"]
    by (fastforce simp: processRun_defs Let_def row_update_complete row_update_Advance row_update_id
        split: option.splits sum.splits if_splits)
qed

lemma processRun_alerts [simp]: "db_alerts (snd (processRun ps db run)) = db_alerts db"
  using processRun_frame [of ps db run] by (metis prod.collapse)

lemma processRun_other: "i \<noteq> er_AlertID run \<Longrightarrow> sent_for i (snd (processRun ps db run)) = sent_for i db"
  using processRun_frame [of ps db run "fst (processRun ps db run)" "snd (processRun ps db run)"]
  by (auto simp: sent_for_def)

lemma slice_snd:
  "snd (processEscalationSlice ps db (run # runs)) =
     (if ps_cancelled ps (er_AlertID run) then db
      else snd (processEscalationSlice ps (snd (processRun ps db run)) runs))"
  by (simp split: prod.splits)

lemma groups_snd:
  "snd (processGroups ps db (g # gs)) = snd (processGroups ps (snd (processEscalationSlice ps db g)) gs)"
  by (simp split: prod.splits)

lemma slice_alerts [simp]: "db_alerts (snd (processEscalationSlice ps db runs)) = db_alerts db"
  by (induction runs arbitrary: db) (simp_all add: slice_snd del: processEscalationSlice.simps(2))

lemma slice_other:
  "i \<notin> er_AlertID ` set runs \<Longrightarrow> sent_for i (snd (processEscalationSlice ps db runs)) = sent_for i db"
  by (induction runs arbitrary: db) (auto simp: slice_snd processRun_other simp del: processEscalationSlice.simps(2))

lemma groups_alerts [simp]: "db_alerts (snd (processGroups ps db gs)) = db_alerts db"
  by (induction gs arbitrary: db) (simp_all add: groups_snd del: processGroups.simps(2))

lemma groups_other:
  "\<forall>g \<in> set gs. i \<notin> er_AlertID ` set g \<Longrightarrow> sent_for i (snd (processGroups ps db gs)) = sent_for i db"
  by (induction gs arbitrary: db) (simp_all add: groups_snd slice_other del: processGroups.simps(2))

lemma groupRuns_sub: "g \<in> set (groupRuns wsOf runs) \<Longrightarrow> set g \<subseteq> set runs"
  by (auto simp: groupRuns_def dest: group_by_sub)

lemma due_ids:
  "i \<in> er_AlertID ` set (DueEscalations db now limit) \<Longrightarrow>
   \<exists>e \<in> set (db_escalations db). er_AlertID e = i \<and> is_due db now e"
proof -
  assume "i \<in> er_AlertID ` set (DueEscalations db now limit)"
  then obtain e where "e \<in> set (db_escalations db)" "is_due db now e" "er_AlertID e = i"
    by (auto simp: DueEscalations_def EscalationRun.truncate_def dest!: in_set_takeD)
  then show ?thesis by blast
qed

text \<open>What a pass leaves alone: the alerts, and the deliveries of an alert that was not due.\<close>

definition due_runs :: "pass \<Rightarrow> escalation_db \<Rightarrow> EscalationRun list" where
  "due_runs ps db =
     DueEscalations db (ps_now ps) (if ps_batch ps \<le> 0 then DefaultEscalationBatch else ps_batch ps)"

lemma pass_snd:
  "snd (ProcessDueEscalations ps db) =
     (if ps_dueFails ps \<or> due_runs ps db = [] then db
      else if length (groupRuns (ps_workspaceOf ps) (due_runs ps db)) \<le> 1
      then snd (processEscalationSlice ps db (due_runs ps db))
      else snd (processGroups ps db (groupRuns (ps_workspaceOf ps) (due_runs ps db))))"
  unfolding ProcessDueEscalations_def due_runs_def Let_def by (simp add: case_prod_unfold)

lemma pass_alerts [simp]: "db_alerts (snd (ProcessDueEscalations ps db)) = db_alerts db"
  by (simp add: pass_snd)

lemma pass_other:
  assumes "\<forall>e \<in> set (db_escalations db). er_AlertID e = i \<longrightarrow> \<not> is_due db (ps_now ps) e"
  shows "sent_for i (snd (ProcessDueEscalations ps db)) = sent_for i db"
proof -
  have n: "i \<notin> er_AlertID ` set (due_runs ps db)"
    using due_ids [of i db "ps_now ps"] assms unfolding due_runs_def by blast
  have "sent_for i (snd (processGroups ps db (groupRuns (ps_workspaceOf ps) (due_runs ps db)))) = sent_for i db"
    using n groupRuns_sub by (intro groups_other) blast
  then show ?thesis
    using slice_other [OF n] by (simp add: pass_snd)
qed

text \<open>Everything that happens to the tables after an acknowledgement.\<close>

datatype escalation_event =
  EPass pass | ESchedule int int string int gtime | EAck ctx int string gtime

fun escalation_event_step :: "escalation_db \<Rightarrow> escalation_event \<Rightarrow> escalation_db" where
  "escalation_event_step db (EPass ps) = snd (ProcessDueEscalations ps db)"
| "escalation_event_step db (ESchedule i p s k due) = snd (ScheduleEscalation db i p s k due)"
| "escalation_event_step db (EAck c i actor t) = snd (AcknowledgeAlert c db i actor t)"

definition acked :: "escalation_db \<Rightarrow> int \<Rightarrow> bool" where
  "acked db i \<longleftrightarrow> (\<exists>a. db_alerts db i = Some a \<and> ar_AcknowledgedAt a \<noteq> None)"

lemma acked_not_due: "acked db (er_AlertID e) \<Longrightarrow> \<not> is_due db now e"
  by (auto simp: acked_def is_due_def)

lemma acked_step:
  assumes "acked db i"
  shows "acked (escalation_event_step db ev) i \<and> sent_for i (escalation_event_step db ev) = sent_for i db"
proof (cases ev)
  case (EPass ps)
  have "\<forall>e \<in> set (db_escalations db). er_AlertID e = i \<longrightarrow> \<not> is_due db (ps_now ps) e"
    using acked_not_due assms by blast
  with EPass assms show ?thesis by (simp add: acked_def pass_other)
next
  case (ESchedule j p s k due)
  then show ?thesis using assms by (simp add: acked_def ScheduleEscalation_def sent_for_def Let_def)
next
  case (EAck c j actor t)
  then show ?thesis using assms
    by (auto simp: acked_def AcknowledgeAlert_def sent_for_def Let_def split: option.split)
qed

lemma acked_run:
  "acked db i \<Longrightarrow> sent_for i (foldl escalation_event_step db evs) = sent_for i db"
  by (induction evs arbitrary: db) (simp_all add: acked_step)

text \<open>
  The scheduler and what runs beside it, step by step: a due read puts its runs in flight, a check takes one of them and
  ends at the re-read, a delivery takes a checked one; schedulings and acknowledgements happen between any two of these, and
  the goroutines of several workspaces, or several passes, have their runs in flight together.
\<close>

record scheduler =
  sc_db :: escalation_db
  sc_due :: "(pass \<times> EscalationRun) list"
  sc_checked :: "(pass \<times> EscalationRun \<times> alert \<times> EscalationPolicy) list"

inductive scheduler_step :: "scheduler \<Rightarrow> scheduler \<Rightarrow> bool" where
  due_read: "\<not> ps_dueFails ps \<Longrightarrow> scheduler_step s (s\<lparr>sc_due := sc_due s @ map (Pair ps) (due_runs ps (sc_db s))\<rparr>)"
| cancelled: "sc_due s = xs @ (ps, run) # ys \<Longrightarrow> scheduler_step s (s\<lparr>sc_due := xs @ ys\<rparr>)"
| refused: "sc_due s = xs @ (ps, run) # ys \<Longrightarrow> check_run ps (sc_db s) run = Inl db
    \<Longrightarrow> scheduler_step s (s\<lparr>sc_db := db, sc_due := xs @ ys\<rparr>)"
| passed: "sc_due s = xs @ (ps, run) # ys \<Longrightarrow> check_run ps (sc_db s) run = Inr c
    \<Longrightarrow> scheduler_step s (s\<lparr>sc_due := xs @ ys, sc_checked := sc_checked s @ [(ps, run, c)]\<rparr>)"
| delivers: "sc_checked s = xs @ (ps, run, c) # ys
    \<Longrightarrow> scheduler_step s (s\<lparr>sc_db := deliver_run ps (sc_db s) run c, sc_checked := xs @ ys\<rparr>)"
| scheduled: "scheduler_step s (s\<lparr>sc_db := snd (ScheduleEscalation (sc_db s) i p snapshot k due)\<rparr>)"
| acknowledged: "scheduler_step s (s\<lparr>sc_db := snd (AcknowledgeAlert c (sc_db s) i actor t)\<rparr>)"

text \<open>The scheduler's own read of the alert can answer: it does not fail, and finds the alert in its workspace and inside the retention.\<close>

definition reads_alert :: "pass \<Rightarrow> alert_row \<Rightarrow> int \<Rightarrow> bool" where
  "reads_alert ps a i \<longleftrightarrow> \<not> ps_fails ps OpGetAlert i \<and> ar_workspace a = workspaceID (ps_ctx ps)
     \<and> (\<forall>t. ps_cutoff ps = Some t \<longrightarrow> t \<le> ar_createdAt a)"

text \<open>
  What holds from an acknowledgement on: the row stays acknowledged, no delivery of the alert is under way, and
  the runs still in flight for it can read it.
\<close>

definition halted :: "int \<Rightarrow> alert_row \<Rightarrow> (int \<times> alert \<times> int \<times> int list) list \<Rightarrow> scheduler \<Rightarrow> bool" where
  "halted i a sent s \<longleftrightarrow> db_alerts (sc_db s) i = Some a \<and> ar_AcknowledgedAt a \<noteq> None \<and> sent_for i (sc_db s) = sent
     \<and> (\<forall>(ps, run, c) \<in> set (sc_checked s). er_AlertID run \<noteq> i)
     \<and> (\<forall>(ps, run) \<in> set (sc_due s). er_AlertID run = i \<longrightarrow> reads_alert ps a i)"

lemma check_run_frame: "check_run ps db run = Inl db' \<Longrightarrow> db_alerts db' = db_alerts db \<and> db_sent db' = db_sent db"
  by (auto simp: check_run_def Let_def split: option.splits sum.splits if_splits)

lemma check_run_sees_ack:
  assumes "check_run ps db run = Inr c" "db_alerts db (er_AlertID run) = Some a" "reads_alert ps a (er_AlertID run)"
  shows "ar_AcknowledgedAt a = None"
  using assms by (auto simp: check_run_def Let_def reads_alert_def alertAcknowledged_def GetAlert_def not_less
      split: option.splits sum.splits if_splits)

lemma deliver_run_frame:
  "db_alerts (deliver_run ps db run c) = db_alerts db \<and> (i \<noteq> er_AlertID run \<longrightarrow> sent_for i (deliver_run ps db run c) = sent_for i db)"
  using deliverStep_sent [of "ps_fails ps" db "er_AlertID run" "fst c" "er_NextStep run" "po_Steps (snd c) ! nat (er_NextStep run)"]
  by (auto simp: deliver_run_def sent_for_def Let_def split: prod.splits)

lemma due_runs_unacked: "run \<in> set (due_runs ps db) \<Longrightarrow> \<not> acked db (er_AlertID run)"
  using due_ids [of "er_AlertID run" db "ps_now ps"] acked_not_due unfolding due_runs_def by (metis image_eqI)

lemma halted_step: "scheduler_step s s' \<Longrightarrow> halted i a sent s \<Longrightarrow> halted i a sent s'"
proof (induction rule: scheduler_step.induct)
  case (due_read ps s)
  have "acked (sc_db s) i" using due_read.prems by (auto simp: halted_def acked_def)
  then show ?case using due_read.prems due_runs_unacked [of _ ps "sc_db s"] by (auto simp: halted_def)
next
  case (cancelled s xs ps run ys)
  then show ?case by (auto simp: halted_def)
next
  case (refused s xs ps run ys db)
  then show ?case using check_run_frame [OF refused(2)] by (auto simp: halted_def sent_for_def)
next
  case (passed s xs ps run ys c)
  have "er_AlertID run \<noteq> i"
    using check_run_sees_ack [OF passed(2)] passed.prems passed(1) by (auto simp: halted_def)
  then show ?case using passed by (auto simp: halted_def)
next
  case (delivers s xs ps run c ys)
  then have "er_AlertID run \<noteq> i" by (auto simp: halted_def)
  then show ?case using delivers deliver_run_frame [of ps "sc_db s" run c i] by (auto simp: halted_def)
next
  case (scheduled s j p snapshot k due)
  then show ?case by (simp add: halted_def ScheduleEscalation_def sent_for_def Let_def)
next
  case (acknowledged s c j actor t)
  then show ?case by (auto simp: halted_def AcknowledgeAlert_def sent_for_def Let_def split: option.splits)
qed

lemma halted_run: "scheduler_step\<^sup>*\<^sup>* s s' \<Longrightarrow> halted i a sent s \<Longrightarrow> halted i a sent s'"
  by (induction rule: rtranclp_induct) (auto dest: halted_step)

text \<open>
  C12. Once an alert has been acknowledged, no escalation step is delivered for it any more, however the scheduler's steps
  interleave with the acknowledgement: not by runs that were read as due before it and are still in flight, not by later due
  reads at any time, with any failing policy reads, writes and deliveries, and not after its escalation has been
  scheduled anew. Two things are needed: no run of the alert is between its re-check and its delivery at that moment, and the
  scheduler can read the alert, which is so for the default workspace when the read does not fail.
\<close>

theorem acknowledged_alert_never_escalates:
  assumes ack: "AcknowledgeAlert c (sc_db s) i actor t = (None, db')" and row: "db_alerts (sc_db s) i = Some a"
    and sending: "\<forall>(p, run, x) \<in> set (sc_checked s). er_AlertID run \<noteq> i"
    and reads: "\<forall>(ps, run) \<in> set (sc_due s). er_AlertID run = i \<longrightarrow> reads_alert ps a i"
    and later: "scheduler_step\<^sup>*\<^sup>* (s\<lparr>sc_db := db'\<rparr>) s'"
  shows "sent_for i (sc_db s') = sent_for i (sc_db s)"
proof -
  obtain a' where a': "db_alerts db' i = Some a'" "ar_AcknowledgedAt a' \<noteq> None" "ar_workspace a' = ar_workspace a" "ar_createdAt a' = ar_createdAt a"
    "sent_for i db' = sent_for i (sc_db s)"
    using ack row by (auto simp: AcknowledgeAlert_def sent_for_def Let_def split: if_splits)
  have "halted i a' (sent_for i (sc_db s)) (s\<lparr>sc_db := db'\<rparr>)"
    using a' sending reads by (auto simp: halted_def reads_alert_def)
  from halted_run [OF later this] show ?thesis by (simp add: halted_def)
qed

subsection \<open>Steps fire in order, each at most once\<close>

text \<open>A pass whose writes of the escalation row succeed; reads and deliveries may still fail.\<close>

definition writes_ok :: "pass \<Rightarrow> bool" where
  "writes_ok ps \<longleftrightarrow> (\<forall>j. \<not> ps_fails ps OpAdvance j \<and> \<not> ps_fails ps OpComplete j)"

definition fresh :: "escalation_db \<Rightarrow> EscalationRun \<Rightarrow> bool" where
  "fresh db run \<longleftrightarrow>
     (\<exists>e \<in> set (db_escalations db). er_completed e = None \<and> EscalationRun.truncate e = run)"

text \<open>The steps delivered for an alert, oldest first.\<close>

definition steps_for :: "int \<Rightarrow> escalation_db \<Rightarrow> int list" where
  "steps_for i db = map sent_step (sent_for i db)"

definition order_inv :: "int \<Rightarrow> escalation_db \<Rightarrow> bool" where
  "order_inv i db \<longleftrightarrow>
     distinct (map er_AlertID (db_escalations db)) \<and>
     sorted_wrt (<) (steps_for i db) \<and>
     (\<forall>e \<in> set (db_escalations db). er_AlertID e = i \<and> er_completed e = None \<longrightarrow>
        (\<forall>k \<in> set (steps_for i db). k < er_NextStep e))"

lemma truncate_fields [simp]:
  "er_AlertID (EscalationRun.truncate e) = er_AlertID e"
  "er_NextStep (EscalationRun.truncate e) = er_NextStep e"
  by (simp_all add: EscalationRun.truncate_def)

lemma row_update_distinct:
  "row_update i db db' \<Longrightarrow> map er_AlertID (db_escalations db') = map er_AlertID (db_escalations db)"
  unfolding row_update_def by (auto simp: o_def)

lemma row_update_fresh:
  assumes u: "row_update i db db'" and f: "fresh db run" and n: "er_AlertID run \<noteq> i"
  shows "fresh db' run"
proof -
  obtain g where g: "db_escalations db' = map g (db_escalations db)" "\<forall>r. er_AlertID r \<noteq> i \<longrightarrow> g r = r"
    using u unfolding row_update_def by blast
  obtain e where e: "e \<in> set (db_escalations db)" "er_completed e = None" "EscalationRun.truncate e = run"
    using f unfolding fresh_def by blast
  have "g e = e" using g(2) e(3) n truncate_fields(1) [of e] by metis
  then have "e \<in> set (db_escalations db')" using g(1) e(1) by (metis image_eqI list.set_map)
  with e(2,3) show ?thesis unfolding fresh_def by blast
qed

lemma row_update_other_rows:
  assumes u: "row_update i db db'" and n: "j \<noteq> i" and e: "e \<in> set (db_escalations db')" "er_AlertID e = j"
  shows "e \<in> set (db_escalations db)"
proof -
  obtain g where g: "db_escalations db' = map g (db_escalations db)" "\<forall>r. er_AlertID (g r) = er_AlertID r"
      "\<forall>r. er_AlertID r \<noteq> i \<longrightarrow> g r = r"
    using u unfolding row_update_def by blast
  obtain r where "r \<in> set (db_escalations db)" "e = g r" using e(1) g(1) by (metis imageE list.set_map)
  then show ?thesis using g(2,3) e(2) n by metis
qed

text \<open>After its run the row is finished or waits for a later step.\<close>

lemma complete_finishes:
  assumes "writes_ok ps" "e \<in> set (db_escalations (complete (ps_fails ps) now db i))" "er_AlertID e = i"
  shows "er_completed e \<noteq> None"
proof -
  have "e \<in> (\<lambda>r. if er_AlertID r = i then r\<lparr>er_completed := Some now\<rparr> else r) ` set (db_escalations db)"
    using assms by (simp add: writes_ok_def complete_def CompleteEscalation_def)
  then obtain r where "e = (if er_AlertID r = i then r\<lparr>er_completed := Some now\<rparr> else r)" by blast
  then show ?thesis using assms(3) by (cases "er_AlertID r = i") simp_all
qed

lemma advance_moves:
  assumes "e \<in> set (db_escalations (AdvanceEscalation db i k t))" "er_AlertID e = i" "er_completed e = None"
  shows "er_NextStep e = k"
proof -
  have "e \<in> (\<lambda>r. if er_AlertID r = i \<and> er_completed r = None
       then r\<lparr>er_NextStep := k, er_NextDueAt := t\<rparr> else r) ` set (db_escalations db)"
    using assms(1) by (simp add: AdvanceEscalation_def)
  then obtain r where "e = (if er_AlertID r = i \<and> er_completed r = None
       then r\<lparr>er_NextStep := k, er_NextDueAt := t\<rparr> else r)" by blast
  then show ?thesis using assms(2,3) by (cases "er_AlertID r = i \<and> er_completed r = None") auto
qed

lemma processRun_moves_on:
  assumes ok: "writes_ok ps" and e: "e \<in> set (db_escalations (snd (processRun ps db run)))"
    and i: "er_AlertID e = er_AlertID run" and open': "er_completed e = None"
  shows "er_NextStep run < er_NextStep e"
proof -
  have nf: "\<not> ps_fails ps OpAdvance j" for j using ok by (simp add: writes_ok_def)
  have nc: "e \<notin> set (db_escalations (complete (ps_fails ps) now db1 (er_AlertID run)))" for now db1
    using complete_finishes [OF ok _ i] open' by blast
  have adv: "er_NextStep e = k"
    if "e \<in> set (db_escalations (AdvanceEscalation db1 (er_AlertID run) k t))" for db1 k t
    using advance_moves [OF that i open'] .
  show ?thesis
    using e nc adv nf by (auto simp: processRun_defs Let_def split: option.splits sum.splits if_splits)
qed

lemma order_inv_run:
  assumes ok: "writes_ok ps" and inv: "order_inv i db" and f: "fresh db run"
  shows "order_inv i (snd (processRun ps db run))"
proof -
  obtain s db' where r: "processRun ps db run = (s, db')" by fastforce
  have fr: "row_update (er_AlertID run) db db'"
    and snt: "db_sent db' = db_sent db \<or> (\<exists>a chs. db_sent db' = db_sent db @ [(er_AlertID run, a, er_NextStep run, chs)])"
    using processRun_frame [OF r] by blast+
  have d: "distinct (map er_AlertID (db_escalations db'))"
    using inv row_update_distinct [OF fr] by (simp add: order_inv_def)
  show ?thesis
  proof (cases "i = er_AlertID run")
    case False
    have "steps_for i db' = steps_for i db"
      using processRun_other [OF False, of ps db] r by (simp add: steps_for_def)
    moreover have "e \<in> set (db_escalations db)" if "e \<in> set (db_escalations db')" "er_AlertID e = i" for e
      using row_update_other_rows [OF fr False that] .
    ultimately show ?thesis
      using inv d r unfolding order_inv_def by (metis snd_conv)
  next
    case True
    obtain e where e: "e \<in> set (db_escalations db)" "er_completed e = None" "EscalationRun.truncate e = run"
      using f by (auto simp: fresh_def)
    have "er_AlertID e = i" "er_NextStep run = er_NextStep e"
      using e(3) True truncate_fields [of e] by metis+
    with e inv have old: "\<forall>k \<in> set (steps_for i db). k < er_NextStep run"
      unfolding order_inv_def by metis
    have new: "er_NextStep run < er_NextStep e'"
      if "e' \<in> set (db_escalations db')" "er_AlertID e' = i" "er_completed e' = None" for e'
      using processRun_moves_on [OF ok, of e' db run] that r True by simp
    have st: "steps_for i db' = steps_for i db \<or> steps_for i db' = steps_for i db @ [er_NextStep run]"
      using snt True by (auto simp: steps_for_def sent_for_def)
    then have srt: "sorted_wrt (<) (steps_for i db')" and le: "\<forall>k \<in> set (steps_for i db'). k \<le> er_NextStep run"
      using inv old by (auto simp: order_inv_def sorted_wrt_append less_imp_le)
    have "\<forall>k \<in> set (steps_for i db'). k < er_NextStep e'"
      if "e' \<in> set (db_escalations db')" "er_AlertID e' = i" "er_completed e' = None" for e'
      using new [OF that] le by fastforce
    then show ?thesis
      using d srt r unfolding order_inv_def by (metis snd_conv)
  qed
qed

lemma order_inv_slice:
  assumes "writes_ok ps" "order_inv i db" "\<forall>r \<in> set runs. fresh db r" "distinct (map er_AlertID runs)"
  shows "order_inv i (snd (processEscalationSlice ps db runs)) \<and>
    (\<forall>r. fresh db r \<and> er_AlertID r \<notin> er_AlertID ` set runs \<longrightarrow> fresh (snd (processEscalationSlice ps db runs)) r)"
  using assms
proof (induction runs arbitrary: db)
  case (Cons run runs)
  let ?db = "snd (processRun ps db run)"
  have keep: "fresh ?db r" if "fresh db r" "er_AlertID r \<noteq> er_AlertID run" for r
    using processRun_frame [of ps db run "fst (processRun ps db run)" ?db] that row_update_fresh by auto
  have "order_inv i ?db" using Cons.prems order_inv_run by simp
  moreover have "\<forall>r \<in> set runs. fresh ?db r"
    using Cons.prems keep by (metis image_eqI list.set_intros(2) list.set_map distinct.simps(2) list.simps(9))
  ultimately show ?case
    using Cons.IH [of ?db] Cons.prems keep
    by (simp add: slice_snd del: processEscalationSlice.simps)
qed simp

lemma order_inv_groups:
  assumes "writes_ok ps" "order_inv i db" "\<forall>r \<in> set (concat gs). fresh db r" "distinct (map er_AlertID (concat gs))"
  shows "order_inv i (snd (processGroups ps db gs))"
  using assms
proof (induction gs arbitrary: db)
  case (Cons g gs)
  let ?db = "snd (processEscalationSlice ps db g)"
  have d: "distinct (map er_AlertID g)" "distinct (map er_AlertID (concat gs))"
    "er_AlertID ` set g \<inter> er_AlertID ` set (concat gs) = {}"
    using Cons.prems(4) by auto
  have s: "fresh ?db r" if "fresh db r" "er_AlertID r \<notin> er_AlertID ` set g" for r
    using order_inv_slice [OF Cons.prems(1,2) _ d(1)] Cons.prems(3) that by auto
  have "order_inv i ?db" using order_inv_slice [OF Cons.prems(1,2) _ d(1)] Cons.prems(3) by simp
  moreover have "\<forall>r \<in> set (concat gs). fresh ?db r"
    using s Cons.prems(3) d(3) by (metis (no_types, lifting) IntI UnCI concat.simps(2) empty_iff image_eqI set_append)
  ultimately show ?case
    using Cons.IH [of ?db] Cons.prems(1) d(2) by (simp add: groups_snd del: processGroups.simps)
qed simp

lemma groupRuns_concat:
  "distinct (map er_AlertID runs) \<Longrightarrow>
   distinct (map er_AlertID (concat (groupRuns w runs))) \<and> set (concat (groupRuns w runs)) \<subseteq> set runs"
proof -
  assume d: "distinct (map er_AlertID runs)"
  have g: "distinct (map er_AlertID (concat (map (\<lambda>ws. filter (\<lambda>r. w r = ws) runs) wss)))" if "distinct wss" for wss
    using that
  proof (induction wss)
    case (Cons ws wss)
    have "er_AlertID ` set (filter (\<lambda>r. w r = ws) runs) \<inter>
        er_AlertID ` set (concat (map (\<lambda>ws. filter (\<lambda>r. w r = ws) runs) wss)) = {}"
    proof -
      have "inj_on er_AlertID (set runs)" using d by (simp add: distinct_map)
      then show ?thesis using Cons.prems by (auto dest: inj_onD)
    qed
    then show ?case using Cons d by (auto simp: distinct_map_filter)
  qed simp
  show ?thesis
    using g [of "rev (remdups (rev (map w runs)))"] by (auto simp: groupRuns_def group_by_def)
qed

lemma due_runs_fresh: "r \<in> set (due_runs ps db) \<Longrightarrow> fresh db r"
  by (auto simp: due_runs_def DueEscalations_def fresh_def is_due_def dest!: in_set_takeD)

lemma due_runs_distinct: "distinct (map er_AlertID (db_escalations db)) \<Longrightarrow> distinct (map er_AlertID (due_runs ps db))"
proof -
  let ?f = "\<lambda>e. (er_NextDueAt e, er_AlertID e)"
  assume d: "distinct (map er_AlertID (db_escalations db))"
  have "distinct (map er_AlertID (sort_key ?f (filter (is_due db (ps_now ps)) (db_escalations db))))"
    using d by (simp add: distinct_map inj_on_def)
  then show ?thesis
    by (simp add: due_runs_def DueEscalations_def take_map [symmetric] o_def)
qed

lemma order_inv_pass: "writes_ok ps \<Longrightarrow> order_inv i db \<Longrightarrow> order_inv i (snd (ProcessDueEscalations ps db))"
proof -
  assume ok: "writes_ok ps" and inv: "order_inv i db"
  have d: "distinct (map er_AlertID (due_runs ps db))"
    using inv due_runs_distinct by (simp add: order_inv_def)
  note g = groupRuns_concat [OF d, of "ps_workspaceOf ps"]
  have "order_inv i (snd (processGroups ps db (groupRuns (ps_workspaceOf ps) (due_runs ps db))))"
    using g due_runs_fresh by (intro order_inv_groups [OF ok inv]) blast+
  then show ?thesis
    using order_inv_slice [OF ok inv _ d] due_runs_fresh inv by (simp add: pass_snd)
qed

text \<open>
  C32. Over any number of passes, at any times and in any order, with any failing reads and deliveries, an
  alert's escalation steps are delivered in increasing order and each at most once, as long as the writes of
  the escalation row itself succeed.
\<close>

theorem escalation_steps_in_order_at_most_once:
  fixes db :: escalation_db
  assumes rows: "distinct (map er_AlertID (db_escalations db))"
    and new: "sent_for i db = []"
    and ok: "\<forall>ps \<in> set passes. writes_ok ps"
  shows "sorted_wrt (<) (map sent_step (sent_for i (foldl (\<lambda>db ps. snd (ProcessDueEscalations ps db)) db passes)))"
proof -
  have "order_inv i db" using rows new by (simp add: order_inv_def steps_for_def)
  then have "order_inv i (foldl (\<lambda>db ps. snd (ProcessDueEscalations ps db)) db passes)"
    using ok by (induction passes arbitrary: db) (simp_all add: order_inv_pass)
  then show ?thesis by (simp add: order_inv_def steps_for_def)
qed

subsection \<open>One step\<close>

lemma seconds_value:
  "seconds n = (if n \<le> 0 then 0 else min n (max_i64 div second) * second)"
proof -
  have "wrap64 (m * second) = m * second" if "0 \<le> m" "m \<le> max_i64 div second" for m
    using that by (intro wrap64_id) (simp_all add: i64_defs duration_defs)
  then show ?thesis
    by (auto simp: seconds_def Let_def min_def i64_defs duration_defs)
qed

text \<open>
  A due step of an unacknowledged alert is delivered to its enabled channels, and the row moves on:
  to the following step, due its delay after this pass, or to completion after the last one. With a positive delay a second
  pass at the same instant finds nothing due for the alert.
\<close>

theorem escalation_step_fires_and_advances:
  fixes db :: escalation_db and e :: escalation_row and ps :: pass
  assumes row: "e \<in> set (db_escalations db)" "distinct (map er_AlertID (db_escalations db))" "is_due db (ps_now ps) e"
    and policy: "db_policies db (er_PolicyID e) = Some p" "0 \<le> er_NextStep e" "er_NextStep e < int (length (po_Steps p))"
    and snap: "ps_unmarshal ps (er_Snapshot e) = Some a"
    and store: "\<forall>op j. \<not> ps_fails ps op j"
    and chans: "st_ChannelIDs (po_Steps p ! nat (er_NextStep e)) \<noteq> []"
  shows "let (sent, db') = processRun ps db (EscalationRun.truncate e); i = er_AlertID e; k = er_NextStep e in
     sent \<and>
     db_sent db' = db_sent db @ [(i, a, k, map ch_ID (ListChannelsByIDs db (st_ChannelIDs (po_Steps p ! nat k))))] \<and>
     (\<forall>e' \<in> set (db_escalations db'). er_AlertID e' = i \<longrightarrow>
        (if k + 1 < int (length (po_Steps p))
         then er_completed e' = None \<and> er_NextStep e' = k + 1 \<and>
              er_NextDueAt e' = ps_now ps + seconds (st_DelaySeconds (po_Steps p ! nat (k + 1)))
         else er_completed e' \<noteq> None) \<and>
        (k + 1 < int (length (po_Steps p)) \<and> 0 < st_DelaySeconds (po_Steps p ! nat (k + 1)) \<longrightarrow>
           \<not> is_due db' (ps_now ps) e'))"
proof -
  let ?i = "er_AlertID e" and ?k = "er_NextStep e" and ?n = "int (length (po_Steps p))"
  let ?t = "ps_now ps + seconds (st_DelaySeconds (po_Steps p ! nat (?k + 1)))"
  let ?db1 = "deliverStep (ps_fails ps) db ?i a ?k (po_Steps p ! nat ?k)"
  obtain al where al: "db_alerts db ?i = Some al" "ar_AcknowledgedAt al = None"
    using row(3) by (auto simp: is_due_def split: option.splits)
  have ack: "\<not> alertAcknowledged (ps_fails ps) (ps_ctx ps) (ps_cutoff ps) db ?i"
    using al by (auto simp: alertAcknowledged_def GetAlert_def split: option.splits)
  have r: "processRun ps db (EscalationRun.truncate e) =
      (True, if ?k + 1 < ?n then AdvanceEscalation ?db1 ?i (?k + 1) ?t else complete (ps_fails ps) (ps_now ps) ?db1 ?i)"
    using snap policy store ack
    by (simp add: processRun_defs Let_def GetEscalationPolicy_def EscalationRun.truncate_def)
  have sent: "db_sent ?db1 = db_sent db @ [(?i, a, ?k, map ch_ID (ListChannelsByIDs db (st_ChannelIDs (po_Steps p ! nat ?k))))]"
    using chans store by (simp add: deliverStep_def)
  have only: "r = e" if "r \<in> set (db_escalations db)" "er_AlertID r = ?i" for r
    using row(1,2) that by (simp add: distinct_map inj_on_def)
  have adv: "e' = e\<lparr>er_NextStep := ?k + 1, er_NextDueAt := ?t\<rparr>"
    if mem: "e' \<in> set (db_escalations (AdvanceEscalation ?db1 ?i (?k + 1) ?t))" and id: "er_AlertID e' = ?i" for e'
  proof -
    obtain r where r: "r \<in> set (db_escalations db)"
      "e' = (if er_AlertID r = ?i \<and> er_completed r = None then r\<lparr>er_NextStep := ?k + 1, er_NextDueAt := ?t\<rparr> else r)"
      using mem unfolding AdvanceEscalation_def by auto
    have "er_AlertID r = ?i" using r(2) id by (cases "er_AlertID r = ?i \<and> er_completed r = None") auto
    then have "r = e" using only r(1) by blast
    then show ?thesis using r(2) row(3) by (simp add: is_due_def)
  qed
  have cmp: "er_completed e' \<noteq> None"
    if "e' \<in> set (db_escalations (complete (ps_fails ps) (ps_now ps) ?db1 ?i))" "er_AlertID e' = ?i" for e'
    using complete_finishes [OF _ that] store by (simp add: writes_ok_def)
  have late: "0 < seconds d" if "0 < d" for d
    using that by (simp add: seconds_value i64_defs duration_defs)
  have open': "er_completed e = None" using row(3) by (simp add: is_due_def)
  show ?thesis
  proof (cases "?k + 1 < ?n")
    case True
    define dbA where "dbA = AdvanceEscalation ?db1 ?i (?k + 1) ?t"
    have row': "er_completed e' = None \<and> er_NextStep e' = ?k + 1 \<and> er_NextDueAt e' = ?t \<and>
        (0 < st_DelaySeconds (po_Steps p ! nat (?k + 1)) \<longrightarrow> \<not> is_due dbA (ps_now ps) e')"
      if m: "e' \<in> set (db_escalations dbA)" and id: "er_AlertID e' = ?i" for e'
    proof -
      have eq: "e' = e\<lparr>er_NextStep := ?k + 1, er_NextDueAt := ?t\<rparr>"
        using adv [OF _ id] m unfolding dbA_def .
      have "er_completed e' = None" "er_NextStep e' = ?k + 1" "er_NextDueAt e' = ?t"
        unfolding eq by (simp_all add: open')
      moreover have "\<not> is_due dbA (ps_now ps) e'" if "0 < st_DelaySeconds (po_Steps p ! nat (?k + 1))"
        using late [OF that] unfolding is_due_def \<open>er_NextDueAt e' = ?t\<close> by linarith
      ultimately show ?thesis by blast
    qed
    have "db_sent dbA = db_sent ?db1" by (simp add: dbA_def)
    with row' sent show ?thesis
      unfolding r Let_def if_P [OF True] dbA_def [symmetric] prod.case using True by metis
  next
    case False
    define dbC where "dbC = complete (ps_fails ps) (ps_now ps) ?db1 ?i"
    have "db_sent dbC = db_sent ?db1" by (simp add: dbC_def)
    with cmp [folded dbC_def] sent show ?thesis
      unfolding r Let_def if_not_P [OF False] dbC_def [symmetric] prod.case using False by metis
  qed
qed

definition esc_demo_db :: escalation_db where
  "esc_demo_db =
     \<lparr>db_alerts = [7 \<mapsto> \<lparr>ar_ID = 7, ar_workspace = ''acme'', ar_rule = None, ar_ruleVersion = 1, ar_createdAt = 1,
        ar_RetractedAt = None, ar_AcknowledgedAt = None, ar_AcknowledgedBy = ''''\<rparr>],
      db_rules = Map.empty,
      db_policies = [9 \<mapsto> \<lparr>po_ID = 9, po_MonitorID = 3,
        po_Steps = [\<lparr>st_DelaySeconds = 0, st_ChannelIDs = [1]\<rparr>, \<lparr>st_DelaySeconds = 60, st_ChannelIDs = [2]\<rparr>]\<rparr>],
      db_channels = [1 \<mapsto> channel0\<lparr>ch_ID := 1, ch_Enabled := True\<rparr>, 2 \<mapsto> channel0\<lparr>ch_ID := 2, ch_Enabled := True\<rparr>],
      db_escalations = [\<lparr>er_AlertID = 7, er_PolicyID = 9, er_NextStep = 1, er_NextDueAt = 100, er_Snapshot = ''s'', er_completed = None\<rparr>],
      db_sent = []\<rparr>"

definition esc_demo_pass :: pass where
  "esc_demo_pass = \<lparr>ps_ctx = \<lparr>ctx_workspace = None, ctx_system = True\<rparr>, ps_cutoff = None, ps_now = 200,
     ps_unmarshal = (\<lambda>t. Some (alert0\<lparr>al_ID := 7\<rparr>)), ps_fails = (\<lambda>op j. False), ps_cancelled = (\<lambda>j. False),
     ps_ctxDone = False, ps_batch = 0, ps_dueFails = False, ps_workspaceOf = (\<lambda>r. ''acme'')\<rparr>"

lemmas esc_demo_simps = esc_demo_db_def esc_demo_pass_def is_due_def

theorem escalation_step_fires_and_advances_witness:
  "let (sent, db') = processRun esc_demo_pass esc_demo_db (EscalationRun.truncate (hd (db_escalations esc_demo_db)))
   in sent \<and> (\<forall>e' \<in> set (db_escalations db'). er_AlertID e' = 7 \<longrightarrow> er_completed e' \<noteq> None)"
proof -
  let ?e = "hd (db_escalations esc_demo_db)"
  let ?p = "\<lparr>po_ID = 9, po_MonitorID = 3,
        po_Steps = [\<lparr>st_DelaySeconds = 0, st_ChannelIDs = [1]\<rparr>, \<lparr>st_DelaySeconds = 60, st_ChannelIDs = [2]\<rparr>]\<rparr>"
  have h: "?e \<in> set (db_escalations esc_demo_db)" "distinct (map er_AlertID (db_escalations esc_demo_db))"
    "is_due esc_demo_db (ps_now esc_demo_pass) ?e" "db_policies esc_demo_db (er_PolicyID ?e) = Some ?p"
    "0 \<le> er_NextStep ?e" "er_NextStep ?e < int (length (po_Steps ?p))"
    "ps_unmarshal esc_demo_pass (er_Snapshot ?e) = Some (alert0\<lparr>al_ID := 7\<rparr>)"
    "\<forall>op j. \<not> ps_fails esc_demo_pass op j" "st_ChannelIDs (po_Steps ?p ! nat (er_NextStep ?e)) \<noteq> []"
    by (simp_all add: esc_demo_simps)
  have "er_AlertID ?e = 7" "er_NextStep ?e = 1" by (simp_all add: esc_demo_db_def)
  with escalation_step_fires_and_advances [OF h] show ?thesis
    by (simp add: Let_def split: prod.splits)
qed

theorem escalation_steps_in_order_at_most_once_witness:
  "sorted_wrt (<) (map sent_step (sent_for 7
     (foldl (\<lambda>db ps. snd (ProcessDueEscalations ps db)) esc_demo_db [esc_demo_pass, esc_demo_pass])))"
  by (rule escalation_steps_in_order_at_most_once)
    (simp_all add: esc_demo_simps sent_for_def writes_ok_def)

text \<open>An alert of the default workspace whose step is in flight when it is acknowledged; the run then comes to its re-check.\<close>

definition esc_demo_flight :: scheduler where
  "esc_demo_flight =
     \<lparr>sc_db = esc_demo_db\<lparr>db_alerts := [7 \<mapsto> \<lparr>ar_ID = 7, ar_workspace = Default, ar_rule = None, ar_ruleVersion = 1, ar_createdAt = 1,
        ar_RetractedAt = None, ar_AcknowledgedAt = None, ar_AcknowledgedBy = ''''\<rparr>]\<rparr>,
      sc_due = [(esc_demo_pass, EscalationRun.truncate (hd (db_escalations esc_demo_db)))], sc_checked = []\<rparr>"

theorem acknowledged_alert_never_escalates_witness:
  "\<exists>s'. scheduler_step (esc_demo_flight\<lparr>sc_db := snd (AcknowledgeAlert \<lparr>ctx_workspace = None, ctx_system = False\<rparr> (sc_db esc_demo_flight) 7 ''ops'' 150)\<rparr>) s'
     \<and> sc_due s' = [] \<and> sent_for 7 (sc_db s') = []"
proof -
  let ?c = "\<lparr>ctx_workspace = None, ctx_system = False\<rparr>"
  let ?run = "EscalationRun.truncate (hd (db_escalations esc_demo_db))"
  let ?db = "snd (AcknowledgeAlert ?c (sc_db esc_demo_flight) 7 ''ops'' 150)"
  let ?s = "esc_demo_flight\<lparr>sc_db := ?db\<rparr>"
  note defs = esc_demo_flight_def esc_demo_db_def esc_demo_pass_def workspaceID_def From_def EscalationRun.truncate_def
  have ack: "AcknowledgeAlert ?c (sc_db esc_demo_flight) 7 ''ops'' 150 = (None, ?db)" by (simp add: AcknowledgeAlert_def defs Let_def)
  obtain db where "check_run esc_demo_pass ?db ?run = Inl db"
    by (simp add: check_run_def alertAcknowledged_def GetAlert_def AcknowledgeAlert_def GetEscalationPolicy_def defs Let_def)
  then have step: "scheduler_step ?s (?s\<lparr>sc_db := db, sc_due := [] @ []\<rparr>)"
    by (intro scheduler_step.refused) (simp_all add: esc_demo_flight_def)
  then have steps: "scheduler_step\<^sup>*\<^sup>* ?s (?s\<lparr>sc_db := db, sc_due := [] @ []\<rparr>)" by (rule rtranclp.rtrancl_into_rtrancl [OF rtranclp.rtrancl_refl])
  obtain a where row: "db_alerts (sc_db esc_demo_flight) 7 = Some a" "ar_workspace a = Default" by (simp add: defs)
  have "sent_for 7 (sc_db (?s\<lparr>sc_db := db, sc_due := [] @ []\<rparr>)) = sent_for 7 (sc_db esc_demo_flight)"
    by (rule acknowledged_alert_never_escalates [OF ack row(1) _ _ steps])
       (use row(2) in \<open>simp_all add: defs reads_alert_def Default_def\<close>)
  moreover have "sent_for 7 (sc_db esc_demo_flight) = []" by (simp add: sent_for_def defs)
  ultimately show ?thesis using step by (intro exI [of _ "?s\<lparr>sc_db := db, sc_due := [] @ []\<rparr>"]) simp
qed

subsection \<open>Where the scheduler falls short\<close>

text \<open>
  The check before a delivery reads the alert in the scheduler's own workspace. The
  scheduler runs without one, so for an alert of any workspace but the default the check never sees an
  acknowledgement: a step that was read as due before the acknowledgement is delivered after it.
\<close>

theorem escalation_recheck_misses_other_workspaces:
  fixes db :: escalation_db and run :: EscalationRun and ps :: pass
  assumes ack: "AcknowledgeAlert c db (er_AlertID run) actor t = (None, db')"
    and other: "db_alerts db (er_AlertID run) = Some al" "ar_workspace al \<noteq> Default"
    and sched: "ctx_workspace (ps_ctx ps) = None"
    and run: "ps_unmarshal ps (er_Snapshot run) = Some a" "db_policies db (er_PolicyID run) = Some p"
      "0 \<le> er_NextStep run" "er_NextStep run < int (length (po_Steps p))" "\<not> ps_fails ps OpGetPolicy (er_AlertID run)"
  shows "acked db' (er_AlertID run) \<and> fst (processRun ps db' run)"
proof -
  have db': "acked db' (er_AlertID run)" "db_policies db' = db_policies db"
      "\<exists>al'. db_alerts db' (er_AlertID run) = Some al' \<and> ar_workspace al' = ar_workspace al"
    using ack other by (auto simp: AcknowledgeAlert_def acked_def Let_def split: if_splits)
  then have "\<not> alertAcknowledged (ps_fails ps) (ps_ctx ps) (ps_cutoff ps) db' (er_AlertID run)"
    using other(2) sched by (auto simp: alertAcknowledged_def GetAlert_def workspaceID_def From_def)
  then show ?thesis
    using db' run by (simp add: processRun_defs Let_def GetEscalationPolicy_def)
qed

theorem escalation_recheck_misses_other_workspaces_witness:
  "let run = EscalationRun.truncate (hd (db_escalations esc_demo_db));
       db' = snd (AcknowledgeAlert \<lparr>ctx_workspace = Some ''acme'', ctx_system = False\<rparr> esc_demo_db 7 ''ops'' 150)
   in acked db' 7 \<and> fst (processRun esc_demo_pass db' run)"
proof -
  let ?c = "\<lparr>ctx_workspace = Some ''acme'', ctx_system = False\<rparr>"
  let ?run = "EscalationRun.truncate (hd (db_escalations esc_demo_db))"
  let ?p = "\<lparr>po_ID = 9, po_MonitorID = 3,
        po_Steps = [\<lparr>st_DelaySeconds = 0, st_ChannelIDs = [1]\<rparr>, \<lparr>st_DelaySeconds = 60, st_ChannelIDs = [2]\<rparr>]\<rparr>"
  have i: "er_AlertID ?run = 7" by (simp add: esc_demo_db_def)
  have h: "AcknowledgeAlert ?c esc_demo_db (er_AlertID ?run) ''ops'' 150 =
        (None, snd (AcknowledgeAlert ?c esc_demo_db 7 ''ops'' 150))"
      "db_alerts esc_demo_db (er_AlertID ?run) = Some (the (db_alerts esc_demo_db 7))"
      "ar_workspace (the (db_alerts esc_demo_db 7)) \<noteq> Default" "ctx_workspace (ps_ctx esc_demo_pass) = None"
      "ps_unmarshal esc_demo_pass (er_Snapshot ?run) = Some (alert0\<lparr>al_ID := 7\<rparr>)"
      "db_policies esc_demo_db (er_PolicyID ?run) = Some ?p"
      "0 \<le> er_NextStep ?run" "er_NextStep ?run < int (length (po_Steps ?p))"
      "\<not> ps_fails esc_demo_pass OpGetPolicy (er_AlertID ?run)"
    by (simp_all add: i AcknowledgeAlert_def workspaceID_def From_def Let_def Default_def esc_demo_db_def
        esc_demo_pass_def EscalationRun.truncate_def)
  show ?thesis
    using escalation_recheck_misses_other_workspaces [OF h] unfolding Let_def i .
qed

text \<open>
  Any error of the policy read, and not only a deleted policy, ends the escalation: a statement that fails once
  leaves the remaining steps undelivered for good.
\<close>

theorem escalation_dropped_by_policy_read_error:
  fixes db :: escalation_db and e :: escalation_row and ps :: pass
  assumes e: "e \<in> set (db_escalations db)"
    and err: "ps_fails ps OpGetPolicy (er_AlertID e)" "\<not> ps_fails ps OpComplete (er_AlertID e)"
  shows "let (sent, db') = processRun ps db (EscalationRun.truncate e) in
     \<not> sent \<and> db_sent db' = db_sent db \<and>
     (\<forall>e' \<in> set (db_escalations db'). er_AlertID e' = er_AlertID e \<longrightarrow> (\<forall>now. \<not> is_due db' now e'))"
proof -
  let ?i = "er_AlertID e"
  have r: "processRun ps db (EscalationRun.truncate e) = (False, CompleteEscalation db ?i (ps_now ps))"
    using err by (simp add: processRun_defs Let_def complete_def split: option.splits)
  have "er_completed e' \<noteq> None" if "e' \<in> set (db_escalations (CompleteEscalation db ?i (ps_now ps)))" "er_AlertID e' = ?i" for e'
    using complete_finishes [of "ps\<lparr>ps_fails := \<lambda>op j. False\<rparr>" e' "ps_now ps" db ?i] that
    by (simp add: writes_ok_def complete_def)
  moreover have "db_sent (CompleteEscalation db ?i (ps_now ps)) = db_sent db" by (simp add: CompleteEscalation_def)
  ultimately show ?thesis
    unfolding r Let_def prod.case is_due_def by blast
qed

theorem escalation_dropped_by_policy_read_error_witness:
  "let ps = esc_demo_pass\<lparr>ps_fails := \<lambda>op j. op = OpGetPolicy\<rparr>;
       (sent, db') = processRun ps esc_demo_db (EscalationRun.truncate (hd (db_escalations esc_demo_db)))
   in \<not> sent \<and> db_sent db' = db_sent esc_demo_db"
proof -
  have "hd (db_escalations esc_demo_db) \<in> set (db_escalations esc_demo_db)" by (simp add: esc_demo_db_def)
  from escalation_dropped_by_policy_read_error [OF this, of "esc_demo_pass\<lparr>ps_fails := \<lambda>op j. op = OpGetPolicy\<rparr>"]
  show ?thesis by (simp add: Let_def split: prod.splits)
qed

end
