(* ===== verification/Alert_Decisions.thy ===== *)
theory Alert_Decisions
  imports Beacon_Prelude "HOL-Library.Multiset"
begin

text \<open>
  The delivery-time decisions of \<open>internal/alerts\<close> that need no database: flapping detection
  (\<open>flapping.go\<close> and the detector of \<open>lifecycle.go\<close>), grouping (\<open>group.go\<close>) and inhibition
  (\<open>inhibit.go\<close>).
\<close>

subsection \<open>Flapping\<close>

definition DefaultFlappingEpisodes :: int where "DefaultFlappingEpisodes = 3"
definition DefaultFlappingWindow :: duration where "DefaultFlappingWindow = 15 * minute"
definition DefaultFlappingQuietAfter :: duration where "DefaultFlappingQuietAfter = 2 * minute"

lemmas flapping_defaults = DefaultFlappingEpisodes_def DefaultFlappingWindow_def DefaultFlappingQuietAfter_def

record FlappingConfig =
  fl_Episodes :: int
  fl_Window :: duration
  fl_QuietAfter :: duration

record FlappingState =
  fs_Flapping :: bool
  fs_Episodes :: int
  fs_AlertCount :: int
  fs_CurrentEpisodeAlerts :: int

definition flapping_defaulted :: "FlappingConfig \<Rightarrow> FlappingConfig" where
  "flapping_defaulted c =
     \<lparr>fl_Episodes = (if fl_Episodes c \<le> 0 then DefaultFlappingEpisodes else fl_Episodes c),
      fl_Window = (if fl_Window c \<le> 0 then DefaultFlappingWindow else fl_Window c),
      fl_QuietAfter = (if fl_QuietAfter c \<le> 0 then DefaultFlappingQuietAfter else fl_QuietAfter c)\<rparr>"

text \<open>One turn of the loop; the flag is \<open>currentEpisodeInWindow\<close> and the time the previous alert.\<close>

definition flap_step ::
    "duration \<Rightarrow> gtime \<Rightarrow> gtime option \<times> bool \<times> FlappingState \<Rightarrow> gtime \<Rightarrow> gtime option \<times> bool \<times> FlappingState" where
  "flap_step quiet cutoff acc alertTime =
     (case acc of (prev, inWindow, st) \<Rightarrow>
        let startsEpisode = (case prev of None \<Rightarrow> True | Some p \<Rightarrow> quiet < time_sub alertTime p);
            inWindow1 = (if startsEpisode then False else inWindow);
            st1 = (if startsEpisode then st\<lparr>fs_CurrentEpisodeAlerts := 0\<rparr> else st);
            hit = (\<not> alertTime < cutoff);
            st2 = (if hit
                   then st1\<lparr>fs_AlertCount := fs_AlertCount st1 + 1,
                            fs_Episodes := fs_Episodes st1 + (if startsEpisode \<or> \<not> inWindow1 then 1 else 0)\<rparr>
                   else st1);
            inWindow2 = (if hit then True else inWindow1);
            st3 = (if inWindow2 then st2\<lparr>fs_CurrentEpisodeAlerts := fs_CurrentEpisodeAlerts st2 + 1\<rparr> else st2)
        in (Some alertTime, inWindow2, st3))"

definition flap_times :: "gtime list \<Rightarrow> gtime \<Rightarrow> duration \<Rightarrow> duration \<Rightarrow> gtime list" where
  "flap_times alertTimes at' window quiet =
     sort (filter (\<lambda>t. \<not> (t < at' - window - quiet \<or> at' < t)) alertTimes)"

definition flap_state0 :: FlappingState where
  "flap_state0 = \<lparr>fs_Flapping = False, fs_Episodes = 0, fs_AlertCount = 0, fs_CurrentEpisodeAlerts = 0\<rparr>"

definition DetectFlapping :: "gtime list \<Rightarrow> gtime \<Rightarrow> FlappingConfig \<Rightarrow> FlappingState" where
  "DetectFlapping alertTimes at' config0 =
     (let config = flapping_defaulted config0;
          cutoff = at' - fl_Window config;
          times = flap_times alertTimes at' (fl_Window config) (fl_QuietAfter config);
          (prev, inWindow, st) = foldl (flap_step (fl_QuietAfter config) cutoff) (None, False, flap_state0) times
      in st\<lparr>fs_Flapping := (fl_Episodes config \<le> fs_Episodes st)\<rparr>)"

text \<open>\<open>NewFlappingDetector\<close> applies the same defaults, and \<open>Evaluate\<close> detects at the detector's clock.\<close>

definition NewFlappingDetector :: "FlappingConfig \<Rightarrow> FlappingConfig" where
  "NewFlappingDetector config = flapping_defaulted config"

definition detector_Evaluate :: "FlappingConfig \<Rightarrow> gtime list \<Rightarrow> gtime \<Rightarrow> FlappingState" where
  "detector_Evaluate d alertTimes now = DetectFlapping alertTimes now d"

definition IsFlapping :: "FlappingConfig \<Rightarrow> gtime list \<Rightarrow> gtime \<Rightarrow> bool" where
  "IsFlapping d alertTimes now = fs_Flapping (detector_Evaluate d alertTimes now)"

subsection \<open>Grouping\<close>

record GroupKey =
  gk_MonitorID :: int
  gk_RuleID :: int
  gk_ContractID :: string

definition GroupKey_String :: "GroupKey \<Rightarrow> string" where
  "GroupKey_String k = fmt_d (gk_MonitorID k) @ '':'' @ fmt_d (gk_RuleID k) @ '':'' @ gk_ContractID k"

definition MakeGroupKey :: "int \<Rightarrow> int \<Rightarrow> string \<Rightarrow> GroupKey" where
  "MakeGroupKey monitorID ruleID contractID =
     \<lparr>gk_MonitorID = monitorID, gk_RuleID = ruleID, gk_ContractID = contractID\<rparr>"

definition ShouldDeliver :: "int \<Rightarrow> bool" where
  "ShouldDeliver n = (n = 1)"

definition WindowBounds :: "gtime \<Rightarrow> duration \<Rightarrow> gtime \<times> gtime" where
  "WindowBounds windowStart windowDuration =
     (if windowDuration \<le> 0 then (windowStart, 0) else (windowStart, windowStart + windowDuration))"

subsection \<open>Inhibition\<close>

record Inhibition =
  in_SourceRuleID :: int
  in_TargetRuleID :: int
  in_FiringWindowSeconds :: int

definition DefaultInhibitionWindowSeconds :: int where "DefaultInhibitionWindowSeconds = 300"

text \<open>
  \<open>firedWithin\<close> is the store query (\<open>None\<close> for a nil function); an error of it is \<open>Inl\<close>. The loop
  after the two guards is \<open>inhibit_loop\<close>.
\<close>

definition inhibitWindow :: "Inhibition \<Rightarrow> duration" where
  "inhibitWindow i =
     (let window = wrap64 (in_FiringWindowSeconds i * second)
      in if window \<le> 0 then DefaultInhibitionWindowSeconds * second else window)"

fun inhibit_loop ::
    "int \<Rightarrow> (int \<Rightarrow> duration \<Rightarrow> 'e + bool) \<Rightarrow> Inhibition list \<Rightarrow> 'e + (int \<times> bool)" where
  "inhibit_loop target firedWithin [] = Inr (0, False)"
| "inhibit_loop target firedWithin (i # is) =
     (if in_TargetRuleID i \<noteq> target then inhibit_loop target firedWithin is
      else (case firedWithin (in_SourceRuleID i) (inhibitWindow i) of
              Inl e \<Rightarrow> Inl e
            | Inr True \<Rightarrow> Inr (in_SourceRuleID i, True)
            | Inr False \<Rightarrow> inhibit_loop target firedWithin is))"

definition InhibitedBy ::
    "int \<Rightarrow> Inhibition list \<Rightarrow> (int \<Rightarrow> duration \<Rightarrow> 'e + bool) option \<Rightarrow> 'e + (int \<times> bool)" where
  "InhibitedBy target inhibitions firedWithin =
     (case firedWithin of
        None \<Rightarrow> Inr (0, False)
      | Some f \<Rightarrow> if inhibitions = [] then Inr (0, False) else inhibit_loop target f inhibitions)"

subsection \<open>Flapping against a declarative count\<close>

text \<open>
  Alert \<open>i\<close> opens an episode of the window: it lies in the window, and the alert before it does not
  or lies more than a quiet period back.
\<close>

definition opens_episode :: "duration \<Rightarrow> gtime \<Rightarrow> gtime list \<Rightarrow> nat \<Rightarrow> bool" where
  "opens_episode quiet cutoff ts i \<longleftrightarrow>
     cutoff \<le> ts ! i \<and>
     (i = 0 \<or> ts ! (i - 1) < cutoff \<or> quiet < time_sub (ts ! i) (ts ! (i - 1)))"

definition episodes_of :: "duration \<Rightarrow> gtime \<Rightarrow> gtime list \<Rightarrow> nat" where
  "episodes_of quiet cutoff ts = length (filter (opens_episode quiet cutoff ts) [0..<length ts])"

lemma episodes_of_snoc:
  "episodes_of quiet cutoff (ts @ [t]) =
     episodes_of quiet cutoff ts + (if opens_episode quiet cutoff (ts @ [t]) (length ts) then 1 else 0)"
proof -
  have "filter (opens_episode quiet cutoff (ts @ [t])) [0..<length ts] = filter (opens_episode quiet cutoff ts) [0..<length ts]"
    by (rule filter_cong) (auto simp: opens_episode_def nth_append)
  then show ?thesis by (simp add: episodes_of_def)
qed

definition flap_ok :: "duration \<Rightarrow> gtime \<Rightarrow> gtime list \<Rightarrow> gtime option \<times> bool \<times> FlappingState \<Rightarrow> bool" where
  "flap_ok quiet cutoff ts acc \<longleftrightarrow>
     (case acc of (prev, inWindow, st) \<Rightarrow>
        prev = (if ts = [] then None else Some (last ts)) \<and>
        (inWindow \<longleftrightarrow> ts \<noteq> [] \<and> cutoff \<le> last ts) \<and>
        fs_AlertCount st = int (length (filter (\<lambda>t. cutoff \<le> t) ts)) \<and>
        fs_Episodes st = int (episodes_of quiet cutoff ts) \<and>
        0 \<le> fs_CurrentEpisodeAlerts st \<and> fs_CurrentEpisodeAlerts st \<le> fs_AlertCount st)"

lemma flap_ok_step:
  assumes ok: "flap_ok quiet cutoff ts acc" and srt: "sorted (ts @ [t])"
  shows "flap_ok quiet cutoff (ts @ [t]) (flap_step quiet cutoff acc t)"
proof -
  obtain prev w st where acc: "acc = (prev, w, st)" by (metis prod_cases3)
  have op: "opens_episode quiet cutoff (ts @ [t]) (length ts) \<longleftrightarrow>
      cutoff \<le> t \<and> (ts = [] \<or> last ts < cutoff \<or> quiet < time_sub t (last ts))"
    by (cases "ts = []") (auto simp: opens_episode_def nth_append last_conv_nth)
  have le: "ts \<noteq> [] \<Longrightarrow> last ts \<le> t"
    using srt by (simp add: sorted_append)
  define n where "n = episodes_of quiet cutoff (ts @ [t])"
  have n: "int n = fs_Episodes st +
      (if cutoff \<le> t \<and> (ts = [] \<or> last ts < cutoff \<or> quiet < time_sub t (last ts)) then 1 else 0)"
    using ok by (simp add: n_def episodes_of_snoc op flap_ok_def acc)
  show ?thesis
  proof (cases prev)
    case None
    then have "ts = []" using ok by (simp add: flap_ok_def acc split: if_splits)
    with None n [unfolded n_def] ok show ?thesis
      by (simp add: flap_ok_def acc flap_step_def Let_def not_less)
  next
    case (Some p)
    then have "ts \<noteq> []" "p = last ts" "w \<longleftrightarrow> cutoff \<le> p" using ok by (auto simp: flap_ok_def acc split: if_splits)
    with Some n ok le show ?thesis
      by (auto simp: flap_ok_def acc flap_step_def Let_def n_def [symmetric] not_less)
  qed
qed

lemma flap_fold:
  "sorted ts \<Longrightarrow> flap_ok quiet cutoff ts (foldl (flap_step quiet cutoff) (None, False, flap_state0) ts)"
proof (induction ts rule: rev_induct)
  case Nil
  then show ?case by (simp add: flap_ok_def flap_state0_def episodes_of_def)
next
  case (snoc t ts)
  then show ?case using flap_ok_step [of quiet cutoff ts] by (simp add: sorted_append)
qed

text \<open>
  Flapping detection, on alert times in any order: the alert count is the number of alerts inside the window, the episode
  count is the number of alerts of the window that are not preceded within a quiet period by another alert of the
  window, the current episode never counts more alerts than the window has, and the rule flaps exactly when the episodes
  reach the configured number.
\<close>

theorem detect_flapping_counts_episodes:
  "let c = flapping_defaulted config; cutoff = at' - fl_Window c; r = DetectFlapping alertTimes at' config;
       ts = sort (filter (\<lambda>t. cutoff - fl_QuietAfter c \<le> t \<and> t \<le> at') alertTimes)
   in fs_AlertCount r = int (length (filter (\<lambda>t. cutoff \<le> t \<and> t \<le> at') alertTimes)) \<and>
      fs_Episodes r = int (episodes_of (fl_QuietAfter c) cutoff ts) \<and>
      0 \<le> fs_CurrentEpisodeAlerts r \<and> fs_CurrentEpisodeAlerts r \<le> fs_AlertCount r \<and>
      (fs_Flapping r \<longleftrightarrow> fl_Episodes c \<le> fs_Episodes r)"
proof -
  define c where "c = flapping_defaulted config"
  define cutoff where "cutoff = at' - fl_Window c"
  define ts where "ts = sort (filter (\<lambda>t. cutoff - fl_QuietAfter c \<le> t \<and> t \<le> at') alertTimes)"
  have pos: "0 < fl_QuietAfter c" by (simp add: c_def flapping_defaulted_def flapping_defaults duration_defs)
  have times: "flap_times alertTimes at' (fl_Window c) (fl_QuietAfter c) = ts"
    by (simp add: flap_times_def ts_def cutoff_def not_less)
  obtain prev w st where f: "foldl (flap_step (fl_QuietAfter c) cutoff) (None, False, flap_state0) ts = (prev, w, st)"
    by (metis prod_cases3)
  have r: "DetectFlapping alertTimes at' config = st\<lparr>fs_Flapping := (fl_Episodes c \<le> fs_Episodes st)\<rparr>"
    unfolding DetectFlapping_def c_def [symmetric] cutoff_def [symmetric] times Let_def f by simp
  have "length (filter (\<lambda>t. cutoff \<le> t) ts) = length (filter (\<lambda>t. cutoff \<le> t \<and> t \<le> at') alertTimes)"
  proof -
    have "mset (filter (\<lambda>t. cutoff \<le> t) ts) = mset (filter (\<lambda>t. cutoff \<le> t \<and> t \<le> at') alertTimes)"
      using pos by (simp add: ts_def filter_filter_mset conj_ac) (metis (mono_tags, opaque_lifting) diff_le_eq le_add_same_cancel1 less_imp_le order_trans)
    then show ?thesis by (metis size_mset)
  qed
  moreover have "sorted ts" by (simp add: ts_def)
  ultimately show ?thesis
    using flap_fold [where ts = ts and quiet = "fl_QuietAfter c" and cutoff = cutoff] f unfolding flap_ok_def
    unfolding c_def [symmetric] cutoff_def [symmetric] ts_def [symmetric] r Let_def by simp
qed

text \<open>
  The text of a group key identifies its monitor, rule and contract: two keys with the same text
  are equal, whatever characters the contract id contains.
\<close>

theorem group_key_string_injective:
  "GroupKey_String k = GroupKey_String k' \<longleftrightarrow> k = k'"
proof -
  have split: "u @ CHR '':'' # s = v @ CHR '':'' # t \<longleftrightarrow> u = v \<and> s = t"
    if "CHR '':'' \<notin> set u" "CHR '':'' \<notin> set v" for u v s t :: string
    using that
  proof (induction u arbitrary: v)
    case Nil
    then show ?case by (cases v) auto
  next
    case (Cons a u)
    then show ?case by (cases v) auto
  qed
  show ?thesis
    using fmt_d_no_colon by (cases k; cases k') (simp add: GroupKey_String_def split)
qed

text \<open>
  Inhibition looks one hop back: a delivery is suppressed exactly when a source of the rule's own pairs fired within its
  window, the source reported is the first such pair in order, and pairs for other targets are never consulted. A failing
  query stops the search with its error.
\<close>

theorem inhibition_first_firing_source:
  fixes f :: "int \<Rightarrow> duration \<Rightarrow> 'e + bool"
  shows "InhibitedBy target inhibitions (Some f) =
     (case dropWhile (\<lambda>i. f (in_SourceRuleID i) (inhibitWindow i) = Inr False)
             (filter (\<lambda>i. in_TargetRuleID i = target) inhibitions) of
        [] \<Rightarrow> Inr (0, False)
      | i # _ \<Rightarrow> map_sum id (\<lambda>_. (in_SourceRuleID i, True)) (f (in_SourceRuleID i) (inhibitWindow i)))"
proof -
  have "inhibit_loop target f inhibitions =
     (case dropWhile (\<lambda>i. f (in_SourceRuleID i) (inhibitWindow i) = Inr False)
             (filter (\<lambda>i. in_TargetRuleID i = target) inhibitions) of
        [] \<Rightarrow> Inr (0, False)
      | i # _ \<Rightarrow> map_sum id (\<lambda>_. (in_SourceRuleID i, True)) (f (in_SourceRuleID i) (inhibitWindow i)))"
    by (induction inhibitions) (auto split: sum.splits bool.splits)
  then show ?thesis by (simp add: InhibitedBy_def)
qed

end
