(* ===== verification/Alert_Lifecycle.thy ===== *)
theory Alert_Lifecycle
  imports Escalation
begin

text \<open>
  Acknowledging and resolving an alert (\<open>internal/alerts/lifecycle.go\<close>) over the tables of
  \<open>Escalation\<close>. The resolutions live in a map of the process, keyed by the alert's id, beside
  the database, and are lost when the process ends (\<open>LRestart\<close>). Store failures other than a missing row are left to \<open>Escalation\<close>.
\<close>

record lifecycle =
  lc_db :: escalation_db
  lc_resolved :: "int \<rightharpoonup> gtime \<times> string"

definition ResolvedAt :: "lifecycle \<Rightarrow> int \<Rightarrow> gtime option" where
  "ResolvedAt lc i = map_option fst (lc_resolved lc i)"

definition IsResolved :: "lifecycle \<Rightarrow> int \<Rightarrow> bool" where
  "IsResolved lc i = (ResolvedAt lc i \<noteq> None)"

text \<open>\<open>now\<close> is the database clock; \<open>cutoff\<close> as for \<open>GetAlert\<close>.\<close>

definition Acknowledge ::
    "ctx \<Rightarrow> gtime option \<Rightarrow> lifecycle \<Rightarrow> int \<Rightarrow> string \<Rightarrow> gtime \<Rightarrow> (store_err + alert_row) \<times> lifecycle" where
  "Acknowledge c cutoff lc i who now =
     (case GetAlert c cutoff (lc_db lc) i of
        Inl e \<Rightarrow> (Inl e, lc)
      | Inr existing \<Rightarrow>
          (if ar_RetractedAt existing \<noteq> None \<or> IsResolved lc i then (Inr existing, lc)
           else (case AcknowledgeAlert c (lc_db lc) i (trim_space who) now of
                   (Some e, db) \<Rightarrow> (Inl e, lc\<lparr>lc_db := db\<rparr>)
                 | (None, db) \<Rightarrow> (GetAlert c cutoff db i, lc\<lparr>lc_db := db\<rparr>))))"

definition ResolveAt ::
    "ctx \<Rightarrow> gtime option \<Rightarrow> lifecycle \<Rightarrow> int \<Rightarrow> string \<Rightarrow> gtime \<Rightarrow> gtime \<Rightarrow> (store_err + alert_row) \<times> lifecycle" where
  "ResolveAt c cutoff lc i who at' now =
     (case GetAlert c cutoff (lc_db lc) i of
        Inl e \<Rightarrow> (Inl e, lc)
      | Inr existing \<Rightarrow>
          (if IsResolved lc i then (Inr existing, lc)
           else
             (let actor = trim_space who in
              case AcknowledgeAlert c (lc_db lc) i actor now of
                (Some e, db) \<Rightarrow> (Inl e, lc\<lparr>lc_db := db\<rparr>)
              | (None, db) \<Rightarrow>
                  (let resolved = (if lc_resolved lc i = None
                                   then (lc_resolved lc)(i \<mapsto> (at', actor)) else lc_resolved lc)
                   in (GetAlert c cutoff db i, \<lparr>lc_db = db, lc_resolved = resolved\<rparr>)))))"

datatype life_event =
  LAck ctx "gtime option" int string gtime
| LResolve ctx "gtime option" int string gtime gtime
| LEscalation escalation_event
| LRestart

fun life_step :: "lifecycle \<Rightarrow> life_event \<Rightarrow> lifecycle" where
  "life_step lc (LAck c cutoff i who now) = snd (Acknowledge c cutoff lc i who now)"
| "life_step lc (LResolve c cutoff i who at' now) = snd (ResolveAt c cutoff lc i who at' now)"
| "life_step lc (LEscalation ev) = lc\<lparr>lc_db := escalation_event_step (lc_db lc) ev\<rparr>"
| "life_step lc LRestart = lc\<lparr>lc_resolved := Map.empty\<rparr>"

subsection \<open>First writer wins\<close>

lemma AcknowledgeAlert_keeps:
  assumes "db_alerts db i = Some a" "ar_AcknowledgedAt a \<noteq> None"
  shows "db_alerts (snd (AcknowledgeAlert c db j actor now)) i = Some a"
  using assms by (auto simp: AcknowledgeAlert_def Let_def split: option.split)

lemma event_keeps_row:
  assumes "db_alerts db i = Some a" "ar_AcknowledgedAt a \<noteq> None"
  shows "db_alerts (escalation_event_step db ev) i = Some a"
  using assms AcknowledgeAlert_keeps [OF assms]
  by (cases ev) (simp_all add: ScheduleEscalation_def Let_def)

lemma event_sent: "acked db i \<Longrightarrow> sent_for i (escalation_event_step db ev) = sent_for i db"
  using acked_step by blast

lemma AcknowledgeAlert_sent [simp]: "sent_for i (snd (AcknowledgeAlert c db j actor now)) = sent_for i db"
  by (simp add: AcknowledgeAlert_def sent_for_def Let_def split: option.split)

lemma Acknowledge_db:
  "lc_db (snd (Acknowledge c cutoff lc i who now)) = lc_db lc \<or>
   lc_db (snd (Acknowledge c cutoff lc i who now)) = snd (AcknowledgeAlert c (lc_db lc) i (trim_space who) now)"
  by (auto simp: Acknowledge_def split: sum.split option.split prod.split)

lemma Acknowledge_resolved [simp]: "lc_resolved (snd (Acknowledge c cutoff lc i who now)) = lc_resolved lc"
  by (auto simp: Acknowledge_def split: sum.split option.split prod.split)

lemma ResolveAt_db:
  "lc_db (snd (ResolveAt c cutoff lc i who at' now)) = lc_db lc \<or>
   lc_db (snd (ResolveAt c cutoff lc i who at' now)) = snd (AcknowledgeAlert c (lc_db lc) i (trim_space who) now)"
  by (auto simp: ResolveAt_def Let_def split: sum.split option.split prod.split)

lemma ResolveAt_keeps_resolved:
  "lc_resolved lc i = Some r \<Longrightarrow> lc_resolved (snd (ResolveAt c cutoff lc j who at' now)) i = Some r"
  by (auto simp: ResolveAt_def Let_def split: sum.split option.split prod.split)

text \<open>What later events leave of an acknowledged alert.\<close>

lemma life_step_acked:
  assumes a: "db_alerts (lc_db lc) i = Some a" "ar_AcknowledgedAt a \<noteq> None"
  shows "db_alerts (lc_db (life_step lc ev)) i = Some a \<and>
     sent_for i (lc_db (life_step lc ev)) = sent_for i (lc_db lc) \<and>
     (\<forall>r. ev \<noteq> LRestart \<longrightarrow> lc_resolved lc i = Some r \<longrightarrow> lc_resolved (life_step lc ev) i = Some r)"
proof (cases ev)
  case (LAck c cutoff j who now)
  then show ?thesis
    using AcknowledgeAlert_keeps [OF a, of c j "trim_space who" now] Acknowledge_db [of c cutoff lc j who now] a
    by auto
next
  case (LResolve c cutoff j who at' now)
  then show ?thesis
    using AcknowledgeAlert_keeps [OF a, of c j "trim_space who" now] ResolveAt_db [of c cutoff lc j who at' now] a
    by (auto simp: ResolveAt_keeps_resolved)
next
  case (LEscalation e)
  have "acked (lc_db lc) i" using a by (simp add: acked_def)
  with LEscalation show ?thesis using event_keeps_row [OF a, of e] event_sent by simp
qed (use a in simp)

lemma life_run_acked:
  assumes "db_alerts (lc_db lc) i = Some a" "ar_AcknowledgedAt a \<noteq> None"
  shows "db_alerts (lc_db (foldl life_step lc evs)) i = Some a \<and>
     sent_for i (lc_db (foldl life_step lc evs)) = sent_for i (lc_db lc) \<and>
     (\<forall>r. LRestart \<notin> set evs \<longrightarrow> lc_resolved lc i = Some r \<longrightarrow> lc_resolved (foldl life_step lc evs) i = Some r)"
  using assms(1)
proof (induction evs arbitrary: lc)
  case (Cons ev evs)
  then show ?case using life_step_acked [OF Cons.prems assms(2), of ev] by fastforce
qed simp

lemma AcknowledgeAlert_acks:
  "AcknowledgeAlert c db i actor now = (None, db') \<Longrightarrow>
   \<exists>a. db_alerts db' i = Some a \<and> ar_AcknowledgedAt a \<noteq> None"
  by (auto simp: AcknowledgeAlert_def Let_def split: option.splits if_splits)

text \<open>
  Within one process, and with passes that are not under way at the moment of the resolution, an alert that was resolved stays
  as it was resolved: whatever acknowledgements, resolutions, schedulings and escalation passes follow, by anybody and in any
  order, its resolution time and actor and its acknowledgement stay, and no further escalation step is delivered for it.
\<close>

theorem resolved_alert_is_final:
  fixes lc :: lifecycle
  assumes new: "\<not> IsResolved lc i" and res: "ResolveAt c cutoff lc i who at' now = (Inr a, lc')"
    and up: "LRestart \<notin> set evs"
  shows "let lc'' = foldl life_step lc' evs in
     ResolvedAt lc'' i = Some at' \<and> lc_resolved lc'' i = lc_resolved lc' i \<and>
     db_alerts (lc_db lc'') i = db_alerts (lc_db lc') i \<and>
     sent_for i (lc_db lc'') = sent_for i (lc_db lc)"
proof -
  obtain db where ack: "AcknowledgeAlert c (lc_db lc) i (trim_space who) now = (None, db)"
    and lc': "lc' = \<lparr>lc_db = db, lc_resolved = (lc_resolved lc)(i \<mapsto> (at', trim_space who))\<rparr>"
    using new res
    by (auto simp: ResolveAt_def IsResolved_def ResolvedAt_def Let_def split: sum.splits option.splits prod.splits if_splits)
  obtain a' where a': "db_alerts db i = Some a'" "ar_AcknowledgedAt a' \<noteq> None"
    using AcknowledgeAlert_acks [OF ack] by blast
  have "sent_for i db = sent_for i (lc_db lc)" using ack AcknowledgeAlert_sent by (metis snd_conv)
  then show ?thesis
    using life_run_acked [of lc' i a' evs] a' up by (simp add: lc' Let_def ResolvedAt_def)
qed

definition life_demo :: lifecycle where
  "life_demo = \<lparr>lc_db = esc_demo_db, lc_resolved = Map.empty\<rparr>"

definition acme_ctx :: ctx where
  "acme_ctx = \<lparr>ctx_workspace = Some ''acme'', ctx_system = False\<rparr>"

theorem resolved_alert_is_final_witness:
  "let lc' = snd (ResolveAt acme_ctx None life_demo 7 ''ann'' 150 150);
       lc'' = foldl life_step lc' [LAck acme_ctx None 7 ''bob'' 160, LEscalation (EPass esc_demo_pass)]
   in ResolvedAt lc'' 7 = Some 150 \<and> sent_for 7 (lc_db lc'') = []"
proof -
  let ?r = "ResolveAt acme_ctx None life_demo 7 ''ann'' 150 150"
  have n: "\<not> IsResolved life_demo 7" by (simp add: life_demo_def IsResolved_def ResolvedAt_def)
  have "\<exists>a. fst ?r = Inr a"
    by (simp add: ResolveAt_def life_demo_def acme_ctx_def esc_demo_db_def GetAlert_def AcknowledgeAlert_def
        workspaceID_def From_def IsResolved_def ResolvedAt_def Let_def)
  then obtain a where "?r = (Inr a, snd ?r)" by (metis prod.collapse)
  moreover have "sent_for 7 (lc_db life_demo) = []" by (simp add: sent_for_def life_demo_def esc_demo_db_def)
  ultimately show ?thesis
    using resolved_alert_is_final [OF n, of acme_ctx None "''ann''" 150 150 a "snd ?r"
        "[LAck acme_ctx None 7 ''bob'' 160, LEscalation (EPass esc_demo_pass)]"]
    unfolding Let_def by simp
qed

text \<open>
  A restart forgets every resolution, because the map is a variable of the package: afterwards the alert counts as
  unresolved, and resolving it again stores a second time and actor although \<open>Resolve\<close> documents the first as preserved.
\<close>

lemma restart_forgets_the_resolution:
  "let lc1 = snd (ResolveAt acme_ctx None life_demo 7 ''ann'' 150 150); lc2 = life_step lc1 LRestart
   in lc_resolved lc1 7 = Some (150, ''ann'') \<and> \<not> IsResolved lc2 7 \<and>
      lc_resolved (snd (ResolveAt acme_ctx None lc2 7 ''bob'' 900 900)) 7 = Some (900, ''bob'')"
  by code_simp

text \<open>
  Acknowledging is idempotent and tenant-scoped: a second acknowledgement succeeds and returns the alert with the first
  actor and time, and an acknowledgement or resolution from another workspace answers "not found" and changes nothing.
\<close>

theorem acknowledge_first_wins_and_is_scoped:
  fixes lc :: lifecycle
  assumes row: "db_alerts (lc_db lc) i = Some a" "ar_workspace a = workspaceID c" "ar_RetractedAt a = None"
    and live: "\<not> IsResolved lc i" "ar_AcknowledgedAt a = None" and other: "workspaceID c' \<noteq> workspaceID c"
  shows "(let (r1, lc1) = Acknowledge c None lc i who now; (r2, lc2) = Acknowledge c None lc1 i who2 now2;
             first = a\<lparr>ar_AcknowledgedAt := Some now, ar_AcknowledgedBy := trim_space who\<rparr>
          in r1 = Inr first \<and> r2 = Inr first \<and> db_alerts (lc_db lc2) i = Some first) \<and>
     Acknowledge c' None lc i who now = (Inl ErrNotFound, lc) \<and>
     ResolveAt c' None lc i who at' now = (Inl ErrNotFound, lc)"
  using assms
  by (auto simp: Acknowledge_def ResolveAt_def GetAlert_def AcknowledgeAlert_def IsResolved_def ResolvedAt_def Let_def
      split: sum.splits option.splits prod.splits)

theorem acknowledge_first_wins_and_is_scoped_witness:
  "fst (Acknowledge \<lparr>ctx_workspace = None, ctx_system = False\<rparr> None life_demo 7 ''eve'' 150) = Inl ErrNotFound"
proof -
  let ?a = "the (db_alerts (lc_db life_demo) 7)"
  have h: "db_alerts (lc_db life_demo) 7 = Some ?a" "ar_workspace ?a = workspaceID acme_ctx" "ar_RetractedAt ?a = None"
    "\<not> IsResolved life_demo 7" "ar_AcknowledgedAt ?a = None"
    "workspaceID \<lparr>ctx_workspace = None, ctx_system = False\<rparr> \<noteq> workspaceID acme_ctx"
    by (simp_all add: life_demo_def esc_demo_db_def acme_ctx_def workspaceID_def From_def IsResolved_def ResolvedAt_def Default_def)
  show ?thesis
    using acknowledge_first_wins_and_is_scoped [OF h, of "''eve''" 150 "''''" 0 0] by simp
qed

end
