(* ===== verification/Poll_Schedule.thy ===== *)
theory Poll_Schedule
  imports Notify_Types "HOL-Library.Multiset"
begin

text \<open>
  \<open>internal/poller/schedule.go\<close>: the weighted round-robin that orders a cycle's watch list. The
  buckets and the cursors are functions of the priority, like Go maps that read as zero where they have no
  entry.
\<close>

record Watch =
  wt_ContractID :: string
  wt_Topics :: "string list list"

record scheduledContract =
  sc_ContractID :: string
  sc_Topics :: "string list list"
  sc_Priority :: string

definition Priority_Normalized :: "string \<Rightarrow> string" where
  "Priority_Normalized p = (if p = '''' then PriorityNormal else p)"

definition prioritiesInServiceOrder :: "string list" where
  "prioritiesInServiceOrder = [PriorityHigh, PriorityNormal, PriorityLow]"

definition tierWeight :: "string \<Rightarrow> nat" where
  "tierWeight p = (if p = PriorityHigh then 4 else if p = PriorityLow then 1 else 2)"

type_synonym Scheduler = "string \<Rightarrow> nat"
type_synonym buckets = "string \<Rightarrow> scheduledContract list"

definition NewScheduler :: Scheduler where
  "NewScheduler = (\<lambda>p. 0)"

definition bucketize :: "scheduledContract list \<Rightarrow> buckets" where
  "bucketize items = (\<lambda>p. filter (\<lambda>it. Priority_Normalized (sc_Priority it) = p) items)"

definition rotateBucket :: "nat \<Rightarrow> 'a list \<Rightarrow> 'a list" where
  "rotateBucket cursor b = (if b = [] then b else (let c = cursor mod length b in drop c b @ take c b))"

definition toWatch :: "scheduledContract \<Rightarrow> Watch" where
  "toWatch it = \<lparr>wt_ContractID = sc_ContractID it, wt_Topics = sc_Topics it\<rparr>"

text \<open>One walk over the tiers: what it emits, the buckets left, and whether it emitted anything.\<close>

fun serve_round :: "string list \<Rightarrow> buckets \<Rightarrow> scheduledContract list \<times> buckets \<times> bool" where
  "serve_round [] bs = ([], bs, False)"
| "serve_round (p # ps) bs =
     (let b = bs p in
      if b = [] then serve_round ps bs
      else (let n = min (tierWeight p) (length b) in
            case serve_round ps (bs(p := drop n b)) of (out, bs', emitted) \<Rightarrow> (take n b @ out, bs', True)))"

definition pending :: "buckets \<Rightarrow> nat" where
  "pending bs = (\<Sum>p\<leftarrow>prioritiesInServiceOrder. length (bs p))"

lemma tiers_distinct: "distinct prioritiesInServiceOrder"
  by (simp add: prioritiesInServiceOrder_def priority_defs)

lemma tierWeight_pos: "0 < tierWeight p"
  by (simp add: tierWeight_def)

lemma serve_round_closed:
  "distinct ps \<Longrightarrow>
   serve_round ps bs =
     (concat (map (\<lambda>p. take (tierWeight p) (bs p)) ps),
      (\<lambda>p. if p \<in> set ps then drop (tierWeight p) (bs p) else bs p),
      \<exists>p \<in> set ps. bs p \<noteq> [])"
proof (induction ps arbitrary: bs)
  case (Cons p ps)
  have t: "take (min (tierWeight p) (length (bs p))) (bs p) = take (tierWeight p) (bs p)"
    "drop (min (tierWeight p) (length (bs p))) (bs p) = drop (tierWeight p) (bs p)"
    by (simp_all add: min_def)
  let ?bs = "bs(p := drop (tierWeight p) (bs p))"
  have c: "map (\<lambda>q. take (tierWeight q) (?bs q)) ps = map (\<lambda>q. take (tierWeight q) (bs q)) ps"
    using Cons.prems by (intro map_cong) auto
  have d: "(\<lambda>q. if q \<in> set ps then drop (tierWeight q) (?bs q) else ?bs q) =
      (\<lambda>q. if q \<in> set (p # ps) then drop (tierWeight q) (bs q) else bs q)"
    using Cons.prems by (intro ext) auto
  have IH: "serve_round ps b = (concat (map (\<lambda>p. take (tierWeight p) (b p)) ps),
      (\<lambda>p. if p \<in> set ps then drop (tierWeight p) (b p) else b p), \<exists>p \<in> set ps. b p \<noteq> [])" for b
    using Cons by simp
  show ?case
  proof (cases "bs p = []")
    case True
    then have "(\<lambda>q. if q \<in> set (p # ps) then drop (tierWeight q) (bs q) else bs q) =
        (\<lambda>q. if q \<in> set ps then drop (tierWeight q) (bs q) else bs q)"
      by (intro ext) auto
    with True IH [of bs] show ?thesis by simp
  next
    case False
    have "serve_round (p # ps) bs = (take (tierWeight p) (bs p) @ fst (serve_round ps ?bs), fst (snd (serve_round ps ?bs)), True)"
      using False by (simp only: serve_round.simps Let_def t if_False case_prod_unfold)
    then show ?thesis
      using False by (simp only: IH [of ?bs] c d fst_conv snd_conv) simp
  qed
qed (auto simp: fun_eq_iff)

lemma tierWeight_values [simp]:
  "tierWeight PriorityHigh = 4" "tierWeight PriorityNormal = 2" "tierWeight PriorityLow = 1"
  by (simp_all add: tierWeight_def priority_defs)

lemma serve_round_pending:
  assumes "serve_round prioritiesInServiceOrder bs = (out, bs', True)"
  shows "pending bs' < pending bs"
proof -
  have b': "bs' = (\<lambda>p. if p \<in> set prioritiesInServiceOrder then drop (tierWeight p) (bs p) else bs p)"
    and ne: "\<exists>p \<in> set prioritiesInServiceOrder. bs p \<noteq> []"
    using assms unfolding serve_round_closed [OF tiers_distinct] by auto
  have "0 < length (bs PriorityHigh) \<or> 0 < length (bs PriorityNormal) \<or> 0 < length (bs PriorityLow)"
    using ne by (simp add: prioritiesInServiceOrder_def)
  then show ?thesis
    unfolding pending_def b' by (simp add: prioritiesInServiceOrder_def del: length_greater_0_conv) linarith
qed

function serve_loop :: "buckets \<Rightarrow> scheduledContract list" where
  "serve_loop bs =
     (case serve_round prioritiesInServiceOrder bs of
        (out, bs', emitted) \<Rightarrow> if emitted then out @ serve_loop bs' else out)"
  by pat_completeness auto
termination
  by (relation "measure pending") (simp, simp, metis serve_round_pending)

declare serve_loop.simps [simp del]

definition Order :: "Scheduler \<Rightarrow> scheduledContract list \<Rightarrow> Watch list \<times> Scheduler" where
  "Order s items =
     (let bs = bucketize items;
          rotated = (\<lambda>p. if p \<in> set prioritiesInServiceOrder then rotateBucket (s p) (bs p) else bs p)
      in (map toWatch (serve_loop rotated),
          (\<lambda>p. if p \<in> set prioritiesInServiceOrder \<and> 0 < length (bs p)
               then (s p + 1) mod length (bs p) else s p)))"

subsection \<open>The loop, round by round\<close>

definition block :: "buckets \<Rightarrow> scheduledContract list" where
  "block bs = concat (map (\<lambda>p. take (tierWeight p) (bs p)) prioritiesInServiceOrder)"

definition served :: "buckets \<Rightarrow> buckets" where
  "served bs = (\<lambda>p. if p \<in> set prioritiesInServiceOrder then drop (tierWeight p) (bs p) else bs p)"

lemma serve_loop_unfold:
  "serve_loop bs =
     (if \<exists>p \<in> set prioritiesInServiceOrder. bs p \<noteq> [] then block bs @ serve_loop (served bs) else [])"
proof -
  have "serve_round prioritiesInServiceOrder bs = (block bs, served bs, \<exists>p \<in> set prioritiesInServiceOrder. bs p \<noteq> [])"
    by (simp only: serve_round_closed [OF tiers_distinct] block_def served_def)
  moreover have "block bs = []" if "\<not> (\<exists>p \<in> set prioritiesInServiceOrder. bs p \<noteq> [])"
    using that by (simp add: block_def)
  ultimately show ?thesis by (subst serve_loop.simps) simp
qed

lemma serve_loop_induct [case_names step]:
  assumes "\<And>bs. (\<exists>p \<in> set prioritiesInServiceOrder. bs p \<noteq> [] \<Longrightarrow> P (served bs)) \<Longrightarrow> P bs"
  shows "P bs"
proof (induction bs rule: serve_loop.induct)
  case (1 bs)
  have "serve_round prioritiesInServiceOrder bs = (block bs, served bs, \<exists>p \<in> set prioritiesInServiceOrder. bs p \<noteq> [])"
    by (simp only: serve_round_closed [OF tiers_distinct] block_def served_def)
  then show ?case using 1 assms [of bs] by simp
qed

lemma block_length: "length (block bs) \<le> 7"
  by (simp add: block_def prioritiesInServiceOrder_def)

lemma serve_loop_mset:
  "mset (serve_loop bs) = mset (bs PriorityHigh) + mset (bs PriorityNormal) + mset (bs PriorityLow)"
proof (induction bs rule: serve_loop_induct)
  case (step bs)
  have split: "mset xs = mset (take n xs) + mset (drop n xs)" for n and xs :: "scheduledContract list"
    by (metis append_take_drop_id mset_append)
  show ?case
  proof (cases "\<exists>p \<in> set prioritiesInServiceOrder. bs p \<noteq> []")
    case True
    then show ?thesis
      using step [OF True] split [of "bs PriorityHigh" 4] split [of "bs PriorityNormal" 2] split [of "bs PriorityLow" 1]
      by (subst serve_loop_unfold)
        (simp add: block_def served_def prioritiesInServiceOrder_def ac_simps del: append_take_drop_id)
  next
    case False
    then show ?thesis by (subst serve_loop_unfold) (simp add: prioritiesInServiceOrder_def)
  qed
qed

lemma rotate_mset [simp]: "mset (rotateBucket n b) = mset b"
proof -
  have "mset (drop c b @ take c b) = mset b" for c
    by (metis append_take_drop_id mset_append add.commute)
  then show ?thesis by (simp add: rotateBucket_def Let_def)
qed

lemma serve_loop_position:
  "p \<in> set prioritiesInServiceOrder \<Longrightarrow> k < length (bs p) \<Longrightarrow>
   bs p ! k \<in> set (take (7 * (k div tierWeight p + 1)) (serve_loop bs))"
proof (induction bs arbitrary: k rule: serve_loop_induct)
  case (step bs)
  have ne: "\<exists>p \<in> set prioritiesInServiceOrder. bs p \<noteq> []" using step.prems by force
  note u = serve_loop_unfold [of bs, unfolded if_P [OF ne]]
  show ?case
  proof (cases "k < tierWeight p")
    case True
    then have "bs p ! k \<in> set (take (tierWeight p) (bs p))"
      using step.prems nth_mem [of k "take (tierWeight p) (bs p)"] by simp
    then have "bs p ! k \<in> set (block bs)"
      using step.prems(1) by (auto simp: block_def)
    then show ?thesis using True block_length [of bs] by (simp add: u)
  next
    case False
    let ?w = "tierWeight p"
    have "served bs p ! (k - ?w) \<in> set (take (7 * ((k - ?w) div ?w + 1)) (serve_loop (served bs)))"
      using step.prems False by (intro step.IH [OF ne]) (auto simp: served_def)
    moreover have "served bs p ! (k - ?w) = bs p ! k"
      using step.prems False by (simp add: served_def)
    moreover have "7 * (k div ?w + 1) = 7 + 7 * ((k - ?w) div ?w + 1)"
      using False tierWeight_pos [of p] by (simp add: le_div_geq)
    moreover have "set (take m (serve_loop (served bs))) \<subseteq> set (take (7 + m) (serve_loop bs))" for m
    proof -
      have "m \<le> 7 + m - length (block bs)" using block_length [of bs] by simp
      from set_take_subset_set_take [OF this, of "serve_loop (served bs)"] show ?thesis unfolding u by auto
    qed
    ultimately show ?thesis by fastforce
  qed
qed

subsection \<open>Properties\<close>

definition known_priority :: "scheduledContract \<Rightarrow> bool" where
  "known_priority it \<longleftrightarrow> Priority_Normalized (sc_Priority it) \<in> set prioritiesInServiceOrder"

lemma bucket_mset:
  "list_all known_priority items \<Longrightarrow>
   mset (bucketize items PriorityHigh) + mset (bucketize items PriorityNormal) + mset (bucketize items PriorityLow) =
   mset items"
  by (induction items) (auto simp: bucketize_def known_priority_def prioritiesInServiceOrder_def priority_defs)

definition rotated :: "Scheduler \<Rightarrow> scheduledContract list \<Rightarrow> buckets" where
  "rotated s items =
     (\<lambda>p. if p \<in> set prioritiesInServiceOrder then rotateBucket (s p) (bucketize items p) else bucketize items p)"

lemma Order_plan: "fst (Order s items) = map toWatch (serve_loop (rotated s items))"
  by (simp add: Order_def rotated_def Let_def)

text \<open>
  The plan of a cycle contains every contract of the watch list exactly as often as the list does, whatever the
  cursors of earlier cycles, provided every priority is one of the three tiers or unset.
\<close>

theorem schedule_keeps_every_contract:
  assumes "list_all known_priority items"
  shows "mset (fst (Order s items)) = mset (map toWatch items)"
proof -
  have "mset (serve_loop (rotated s items)) = mset items"
    using bucket_mset [OF assms] by (simp add: serve_loop_mset rotated_def prioritiesInServiceOrder_def)
  then show ?thesis by (simp add: Order_plan)
qed

definition sched_demo :: "scheduledContract list" where
  "sched_demo = [\<lparr>sc_ContractID = ''a'', sc_Topics = [], sc_Priority = ''low''\<rparr>,
     \<lparr>sc_ContractID = ''b'', sc_Topics = [], sc_Priority = ''''\<rparr>,
     \<lparr>sc_ContractID = ''c'', sc_Topics = [], sc_Priority = ''high''\<rparr>]"

lemma sched_demo_known: "list_all known_priority sched_demo"
  by (simp add: sched_demo_def known_priority_def Priority_Normalized_def prioritiesInServiceOrder_def priority_defs)

theorem schedule_keeps_every_contract_witness:
  "mset (fst (Order NewScheduler sched_demo)) = mset (map toWatch sched_demo)"
  by (rule schedule_keeps_every_contract [OF sched_demo_known])

lemma order_position:
  assumes "p \<in> set prioritiesInServiceOrder" and "k < length (bucketize items p)"
  shows "toWatch (rotateBucket (s p) (bucketize items p) ! k) \<in>
     set (take (7 * (k div tierWeight p + 1)) (fst (Order s items)))"
proof -
  have "length (rotateBucket (s p) (bucketize items p)) = length (bucketize items p)"
    by (metis rotate_mset size_mset)
  then show ?thesis
    using serve_loop_position [of p k "rotated s items"] assms
    by (auto simp: Order_plan rotated_def take_map)
qed

text \<open>
  No tier starves: in every plan the \<open>k\<close>-th contract of a tier's rotated queue is among the first
  \<open>7 * (k div weight + 1)\<close> contracts, so the first contract of each tier is among the first seven however long the queues
  of the other tiers are.
\<close>

theorem schedule_bounds_every_position:
  assumes "p \<in> set prioritiesInServiceOrder" and "k < length (bucketize items p)"
  shows "toWatch (rotateBucket (s p) (bucketize items p) ! k) \<in>
     set (take (7 * (k div tierWeight p + 1)) (fst (Order s items)))"
  by (rule order_position [OF assms])

theorem schedule_bounds_every_position_witness:
  "toWatch (rotateBucket (NewScheduler PriorityLow) (bucketize sched_demo PriorityLow) ! 0) \<in>
     set (take (7 * (0 div tierWeight PriorityLow + 1)) (fst (Order NewScheduler sched_demo)))"
  by (rule schedule_bounds_every_position)
    (simp_all add: prioritiesInServiceOrder_def bucketize_def sched_demo_def Priority_Normalized_def priority_defs)

text \<open>The cursors after \<open>n\<close> cycles over the same watch list.\<close>

primrec cycles :: "nat \<Rightarrow> scheduledContract list \<Rightarrow> Scheduler" where
  "cycles 0 items = NewScheduler"
| "cycles (Suc n) items = snd (Order (cycles n items) items)"

lemma cycles_cursor:
  "p \<in> set prioritiesInServiceOrder \<Longrightarrow> 0 < length (bucketize items p) \<Longrightarrow>
   cycles n items p = n mod length (bucketize items p)"
  by (induction n) (simp_all add: NewScheduler_def Order_def Let_def mod_Suc_eq)

text \<open>
  C40. No contract starves within its tier. From a fresh scheduler, with the same watch list every cycle, a contract with a
  known priority (high, normal or low, and the empty one, which counts as normal; \<open>Order\<close> drops any other) is among the
  first seven contracts polled in one of the first \<open>k\<close> cycles, where \<open>k\<close> is the number of contracts of its own tier,
  however many the other tiers have.
\<close>

theorem schedule_serves_every_contract_early:
  assumes it: "it \<in> set items" "known_priority it"
  shows "\<exists>n < length (bucketize items (Priority_Normalized (sc_Priority it))).
    toWatch it \<in> set (take 7 (fst (Order (cycles n items) items)))"
proof -
  let ?p = "Priority_Normalized (sc_Priority it)"
  let ?b = "bucketize items ?p"
  have p: "?p \<in> set prioritiesInServiceOrder" using it(2) by (simp add: known_priority_def)
  have "it \<in> set ?b" using it(1) by (simp add: bucketize_def)
  then obtain j where j: "j < length ?b" "?b ! j = it" by (auto simp: in_set_conv_nth)
  moreover have "0 < length ?b" using j(1) by linarith
  ultimately have c: "cycles j items ?p = j" using cycles_cursor [OF p] by simp
  have hd: "rotateBucket j ?b ! 0 = it"
    using j by (cases "?b = []") (simp_all add: rotateBucket_def Let_def nth_append)
  have "?b \<noteq> []" using j(1) by auto
  then have "toWatch it \<in> set (take 7 (fst (Order (cycles j items) items)))"
    using order_position [of ?p 0 items "cycles j items"] p hd c by simp
  then show ?thesis using j(1) by blast
qed

theorem schedule_serves_every_contract_early_witness:
  "\<exists>n < length (bucketize sched_demo (Priority_Normalized (sc_Priority (sched_demo ! 0)))).
    toWatch (sched_demo ! 0) \<in> set (take 7 (fst (Order (cycles n sched_demo) sched_demo)))"
  by (rule schedule_serves_every_contract_early)
    (simp_all add: sched_demo_def known_priority_def Priority_Normalized_def prioritiesInServiceOrder_def priority_defs)

end
