(* ===== verification/Frequency_Rule.thy ===== *)
theory Frequency_Rule
  imports Beacon_Prelude
begin

text \<open>
  The stateful rule of \<open>internal/rules/frequency_threshold.go\<close>: fire when a rolling window holds at
  least \<open>count\<close> matching events, then stay armed until the window that produced the alert has passed.
  \<open>time.ParseDuration\<close>, \<open>time.Parse\<close> and the RFC3339 text of an instant are arguments, as are the
  durable match log and the order in which Go iterates over the state map. \<open>Evaluate\<close> is one
  function of the states: two evaluations of the same rule do not overlap.
\<close>

definition MaxFrequencyMatchesPerRule :: nat where "MaxFrequencyMatchesPerRule = 10000"
definition MaxTrackedStatefulRules :: nat where "MaxTrackedStatefulRules = 10000"

record frequencyThresholdParams =
  fp_EventName :: string
  fp_Count :: int
  fp_Window :: string

record MatchRecord =
  mr_At :: gtime
  mr_EventID :: string
  mr_RuleVersion :: int

record freqState =
  fq_matches :: "gtime list"
  fq_armed :: bool
  fq_episode :: gtime
  fq_seeded :: bool
  fq_version :: int
  fq_paramsKey :: string

definition freqState0 :: freqState where
  "freqState0 = \<lparr>fq_matches = [], fq_armed = False, fq_episode = 0, fq_seeded = False,
     fq_version = 0, fq_paramsKey = ''''\<rparr>"

type_synonym freqStates = "int \<rightharpoonup> freqState"

definition frequencyEventPrefix :: string where "frequencyEventPrefix = ''frequency:''"

datatype freq_err = FreqCtx | FreqBadParams | FreqBadCount | FreqBadWindow | FreqNonPositiveWindow

subsection \<open>Parameters\<close>

definition canonicalParamsKey :: "frequencyThresholdParams \<Rightarrow> string" where
  "canonicalParamsKey p = fp_EventName p @ ''|'' @ fmt_d (fp_Count p) @ ''|'' @ fp_Window p"

text \<open>The field errors of \<open>Validate\<close>, by field; \<open>None\<close> for parameters that do not decode.\<close>

definition freq_Validate :: "(string \<Rightarrow> duration option) \<Rightarrow> frequencyThresholdParams option \<Rightarrow> string list option" where
  "freq_Validate parseDuration params =
     (case params of
        None \<Rightarrow> None
      | Some p \<Rightarrow>
          Some ((if fp_Count p \<le> 0 then [''count''] else []) @
                (if fp_Window p = '''' then [''window'']
                 else (case parseDuration (fp_Window p) of
                         None \<Rightarrow> [''window'']
                       | Some d \<Rightarrow> if d \<le> 0 then [''window''] else []))))"

definition freq_EventNames :: "frequencyThresholdParams option \<Rightarrow> string list option" where
  "freq_EventNames params =
     (case params of None \<Rightarrow> None | Some p \<Rightarrow> if fp_EventName p = '''' then None else Some [fp_EventName p])"

definition frequencyWindow :: "(string \<Rightarrow> duration option) \<Rightarrow> frequencyThresholdParams \<Rightarrow> freq_err + duration" where
  "frequencyWindow parseDuration p =
     (if fp_Count p \<le> 0 then Inl FreqBadCount
      else (case parseDuration (fp_Window p) of
              None \<Rightarrow> Inl FreqBadWindow
            | Some d \<Rightarrow> if d \<le> 0 then Inl FreqNonPositiveWindow else Inr d))"

subsection \<open>State\<close>

text \<open>\<open>evictOldestRuleLocked\<close>: an empty state first met, or else the one whose last match is oldest.\<close>

fun evict_victim :: "freqStates \<Rightarrow> int list \<Rightarrow> (int \<times> gtime) option \<Rightarrow> int option" where
  "evict_victim st [] v = map_option fst v"
| "evict_victim st (i # is) v =
     (case st i of
        None \<Rightarrow> Some i
      | Some s \<Rightarrow>
          (if fq_matches s = [] then Some i
           else (let last' = last (fq_matches s) in
                 evict_victim st is
                   (case v of None \<Rightarrow> Some (i, last')
                            | Some (j, t) \<Rightarrow> if last' < t then Some (i, last') else v))))"

definition evictOldestRuleLocked :: "int list \<Rightarrow> freqStates \<Rightarrow> freqStates" where
  "evictOldestRuleLocked ord st =
     (case evict_victim st ord None of None \<Rightarrow> st | Some i \<Rightarrow> st(i := None))"

definition freq_state :: "int list \<Rightarrow> freqStates \<Rightarrow> int \<Rightarrow> freqState \<times> freqStates" where
  "freq_state ord st ruleID =
     (case st ruleID of
        Some s \<Rightarrow> (s, st)
      | None \<Rightarrow>
          (let st' = (if MaxTrackedStatefulRules \<le> length ord then evictOldestRuleLocked ord st else st)
           in (freqState0, st'(ruleID \<mapsto> freqState0))))"

definition ResetRule :: "freqStates \<Rightarrow> int \<Rightarrow> freqStates" where
  "ResetRule st ruleID = st(ruleID := None)"

definition SnapshotRule :: "freqStates \<Rightarrow> int \<Rightarrow> freqState option" where
  "SnapshotRule st ruleID = st ruleID"

definition RestoreRule :: "freqStates \<Rightarrow> int \<Rightarrow> freqState option \<Rightarrow> freqStates" where
  "RestoreRule st ruleID snapshot = st(ruleID := snapshot)"

definition decodeEpisode :: "(string \<Rightarrow> gtime option) \<Rightarrow> string \<Rightarrow> gtime option" where
  "decodeEpisode parseTime i =
     (if has_prefix i frequencyEventPrefix then parseTime (drop (length frequencyEventPrefix) i) else None)"

definition same_revision :: "int \<Rightarrow> MatchRecord \<Rightarrow> bool" where
  "same_revision ruleVersion r \<longleftrightarrow> \<not> (0 < ruleVersion \<and> 0 < mr_RuleVersion r \<and> mr_RuleVersion r \<noteq> ruleVersion)"

definition applySeedRecords ::
    "(string \<Rightarrow> gtime option) \<Rightarrow> freqState \<Rightarrow> MatchRecord list \<Rightarrow> int \<Rightarrow> gtime \<Rightarrow> duration \<Rightarrow> freqState" where
  "applySeedRecords parseTime s records ruleVersion now window =
     (let recs = filter (same_revision ruleVersion) records;
          episodeAt = foldl (\<lambda>e r. if \<not> mr_At r < now - window \<and> e < mr_At r then mr_At r else e) 0 recs;
          s1 = s\<lparr>fq_seeded := True,
                 fq_matches := keep_last MaxFrequencyMatchesPerRule (sort (fq_matches s @ map mr_At recs))\<rparr>
      in if episodeAt = 0 then s1
         else (let start = (case filter (\<lambda>r. mr_At r = episodeAt) recs of
                              [] \<Rightarrow> episodeAt
                            | r # _ \<Rightarrow> (case decodeEpisode parseTime (mr_EventID r) of
                                         Some t \<Rightarrow> t | None \<Rightarrow> episodeAt))
               in s1\<lparr>fq_armed := True, fq_episode := start\<rparr>))"

definition pruneBefore :: "gtime list \<Rightarrow> gtime \<Rightarrow> gtime list" where
  "pruneBefore matches cutoff = dropWhile (\<lambda>t. t < cutoff) matches"

text \<open>The end of \<open>Evaluate\<close>, once the state is seeded and current.\<close>

definition freq_observe :: "int \<Rightarrow> duration \<Rightarrow> gtime \<Rightarrow> freqState \<Rightarrow> bool \<times> freqState" where
  "freq_observe cnt window now s =
     (let ms = keep_last MaxFrequencyMatchesPerRule (pruneBefore (fq_matches s) (now - window) @ [now]);
          armed = (if fq_armed s \<and> fq_episode s + window < now then False else fq_armed s);
          s1 = s\<lparr>fq_matches := ms, fq_armed := armed\<rparr>
      in if \<not> armed \<and> cnt \<le> int (length ms)
         then (True, s1\<lparr>fq_armed := True, fq_episode := hd ms\<rparr>)
         else (False, s1))"

record freq_env =
  fe_parseDuration :: "string \<Rightarrow> duration option"
  fe_parseTime :: "string \<Rightarrow> gtime option"
  fe_matchLog :: "(int \<Rightarrow> gtime \<Rightarrow> MatchRecord list option) option"

text \<open>
  \<open>Evaluate\<close> for rule \<open>ruleID\<close> at version \<open>ruleVersion\<close> of an event called \<open>evName\<close>, at clock \<open>now\<close>; the match log
  answers \<open>None\<close> when it cannot be read.
\<close>

definition freq_refresh :: "int \<Rightarrow> string \<Rightarrow> freqState \<Rightarrow> freqState" where
  "freq_refresh ruleVersion pKey s =
     (if fq_seeded s \<and>
         ((0 < ruleVersion \<and> 0 < fq_version s \<and> fq_version s \<noteq> ruleVersion) \<or>
          (fq_paramsKey s \<noteq> '''' \<and> fq_paramsKey s \<noteq> pKey))
      then s\<lparr>fq_matches := [], fq_armed := False, fq_episode := 0, fq_version := ruleVersion, fq_paramsKey := pKey\<rparr>
      else s)"

definition freq_stamp :: "int \<Rightarrow> string \<Rightarrow> freqState \<Rightarrow> freqState" where
  "freq_stamp ruleVersion pKey s =
     s\<lparr>fq_version := (if fq_version s = 0 \<and> 0 < ruleVersion then ruleVersion else fq_version s),
       fq_paramsKey := (if fq_paramsKey s = '''' then pKey else fq_paramsKey s)\<rparr>"

definition freq_seed ::
    "freq_env \<Rightarrow> int \<Rightarrow> int \<Rightarrow> string \<Rightarrow> gtime \<Rightarrow> duration \<Rightarrow> freqState \<Rightarrow> freqState option" where
  "freq_seed env ruleID ruleVersion pKey now window s =
     (if fq_seeded s then Some s
      else (case fe_matchLog env of
              Some log \<Rightarrow>
                (if ruleID \<noteq> 0
                 then (case log ruleID (now - window) of
                         None \<Rightarrow> None
                       | Some records \<Rightarrow>
                           Some ((applySeedRecords (fe_parseTime env) s records ruleVersion now window)
                                  \<lparr>fq_version := ruleVersion, fq_paramsKey := pKey\<rparr>))
                 else Some (s\<lparr>fq_seeded := True, fq_version := ruleVersion, fq_paramsKey := pKey\<rparr>))
            | None \<Rightarrow> Some (s\<lparr>fq_seeded := True, fq_version := ruleVersion, fq_paramsKey := pKey\<rparr>)))"

definition freq_Evaluate ::
    "freq_env \<Rightarrow> int list \<Rightarrow> bool \<Rightarrow> frequencyThresholdParams option \<Rightarrow> int \<Rightarrow> int \<Rightarrow> string \<Rightarrow> gtime \<Rightarrow> freqStates \<Rightarrow>
     (freq_err + bool) \<times> freqStates" where
  "freq_Evaluate env ord ctxDone params ruleID ruleVersion evName now st =
     (if ctxDone then (Inl FreqCtx, st)
      else (case params of
        None \<Rightarrow> (Inl FreqBadParams, st)
      | Some p \<Rightarrow>
          (case frequencyWindow (fe_parseDuration env) p of
             Inl e \<Rightarrow> (Inl e, st)
           | Inr window \<Rightarrow>
               (if fp_EventName p \<noteq> '''' \<and> evName \<noteq> fp_EventName p then (Inr False, st)
                else
                  (let pKey = canonicalParamsKey p;
                       (base, st1) = freq_state ord st ruleID
                   in case freq_seed env ruleID ruleVersion pKey now window (freq_refresh ruleVersion pKey base) of
                        None \<Rightarrow> (Inr False, st1)
                      | Some s \<Rightarrow>
                          (case freq_observe (fp_Count p) window now (freq_stamp ruleVersion pKey s) of
                             (matched, s') \<Rightarrow> (Inr matched, st1(ruleID \<mapsto> s'))))))))"

definition AlertEventID :: "(gtime \<Rightarrow> string) \<Rightarrow> freqStates \<Rightarrow> int \<Rightarrow> string" where
  "AlertEventID fmtTime st ruleID =
     (case st ruleID of
        None \<Rightarrow> ''''
      | Some s \<Rightarrow> if \<not> fq_armed s \<or> fq_episode s = 0 then '''' else frequencyEventPrefix @ fmtTime (fq_episode s))"

subsection \<open>A rule over time\<close>

text \<open>The alerts of a sequence of matching events: the instant of each and its episode.\<close>

fun freq_fires :: "int \<Rightarrow> duration \<Rightarrow> freqState \<Rightarrow> gtime list \<Rightarrow> (gtime \<times> gtime) list \<times> freqState" where
  "freq_fires cnt window s [] = ([], s)"
| "freq_fires cnt window s (now # ts) =
     (case freq_observe cnt window now s of (matched, s1) \<Rightarrow>
        case freq_fires cnt window s1 ts of (fs, s2) \<Rightarrow>
          (if matched then (now, fq_episode s1) # fs else fs, s2))"

lemma freq_fires_append:
  "freq_fires cnt w s (ts @ us) =
     (case freq_fires cnt w s ts of (fs, s1) \<Rightarrow> case freq_fires cnt w s1 us of (gs, s2) \<Rightarrow> (fs @ gs, s2))"
  by (induction ts arbitrary: s) (auto split: prod.splits)

text \<open>The window is exact: the matches kept are the last ones of the events inside it.\<close>

definition window_of :: "duration \<Rightarrow> gtime list \<Rightarrow> gtime list" where
  "window_of w ts = (if ts = [] then [] else filter (\<lambda>t. last ts - w \<le> t) ts)"

definition enough :: "int \<Rightarrow> duration \<Rightarrow> gtime list \<Rightarrow> gtime \<times> gtime \<Rightarrow> bool" where
  "enough cnt w ts f \<longleftrightarrow>
     fst f - w \<le> snd f \<and> snd f \<le> fst f \<and>
     cnt \<le> int (length (filter (\<lambda>u. fst f - w \<le> u \<and> u \<le> fst f) ts))"

definition freq_inv :: "int \<Rightarrow> duration \<Rightarrow> gtime list \<Rightarrow> (gtime \<times> gtime) list \<Rightarrow> freqState \<Rightarrow> bool" where
  "freq_inv cnt w ts fs s \<longleftrightarrow>
     fq_matches s = keep_last MaxFrequencyMatchesPerRule (window_of w ts) \<and>
     sorted_wrt (<) (map snd fs) \<and>
     (\<forall>e \<in> set (map snd fs). e \<le> fq_episode s \<and> (fq_armed s \<or> (ts \<noteq> [] \<and> fq_episode s + w < last ts))) \<and>
     list_all (enough cnt w ts) fs"

lemma window_step:
  assumes s: "sorted (ts @ [now])" and w: "0 < w"
  shows "keep_last n (pruneBefore (keep_last n (window_of w ts)) (now - w) @ [now]) = keep_last n (window_of w (ts @ [now]))"
proof -
  have st: "sorted ts" using s by (simp add: sorted_append)
  have "dropWhile (\<lambda>t. t < now - w) (window_of w ts) = filter (\<lambda>t. now - w \<le> t) ts"
  proof (cases "ts = []")
    case False
    then have "last ts \<le> now" using s by (simp add: sorted_append)
    moreover have "sorted (window_of w ts)" using st False by (simp add: window_of_def sorted_wrt_filter)
    ultimately show ?thesis
      using False by (auto simp: dropWhile_sorted_filter window_of_def intro!: filter_cong)
  qed (simp add: window_of_def)
  moreover have "sorted (window_of w ts)" using st by (simp add: window_of_def sorted_wrt_filter)
  ultimately show ?thesis
    using w by (simp add: pruneBefore_def dropWhile_keep_last keep_last_append window_of_def)
qed

lemma freq_inv_step:
  assumes inv: "freq_inv cnt w ts fs s" and srt: "sorted (ts @ [now])" and w: "0 < w"
    and o: "freq_observe cnt w now s = (m, s1)"
  shows "freq_inv cnt w (ts @ [now]) (if m then fs @ [(now, fq_episode s1)] else fs) s1"
proof -
  let ?M = "MaxFrequencyMatchesPerRule"
  define ms where "ms = keep_last ?M (window_of w (ts @ [now]))"
  have ms: "keep_last ?M (pruneBefore (fq_matches s) (now - w) @ [now]) = ms"
    using inv window_step [OF srt w, of ?M] by (simp add: freq_inv_def ms_def)
  have le: "t \<le> now" if "t \<in> set ts" for t using srt that by (simp add: sorted_append)
  have "window_of w (ts @ [now]) \<noteq> []" using w by (simp add: window_of_def)
  then have ne: "ms \<noteq> []" by (simp add: ms_def MaxFrequencyMatchesPerRule_def)
  then have hd: "hd ms \<in> set (window_of w (ts @ [now]))"
    using set_keep_last [of ?M "window_of w (ts @ [now])"] hd_in_set by (auto simp: ms_def)
  then have hd': "now - w \<le> hd ms" "hd ms \<le> now" using le w by (auto simp: window_of_def)
  have "length ms \<le> length (filter (\<lambda>u. now - w \<le> u \<and> u \<le> now) (ts @ [now]))"
  proof -
    have "filter (\<lambda>u. now - w \<le> u \<and> u \<le> now) (ts @ [now]) = window_of w (ts @ [now])"
      using le by (auto simp: window_of_def intro!: filter_cong)
    then show ?thesis by (simp add: ms_def)
  qed
  then have many: "enough cnt w (ts @ [now]) (now, hd ms)" if "cnt \<le> int (length ms)"
    using that hd' by (simp add: enough_def)
  have mono: "list_all (enough cnt w (ts @ [now])) fs"
    using inv by (auto simp: freq_inv_def enough_def list_all_iff)
  define ar where "ar = (if fq_armed s \<and> fq_episode s + w < now then False else fq_armed s)"
  have gone: "e \<le> fq_episode s" "\<not> ar \<Longrightarrow> fq_episode s + w < now" if "e \<in> set (map snd fs)" for e
  proof -
    have c: "e \<le> fq_episode s" "fq_armed s \<or> (ts \<noteq> [] \<and> fq_episode s + w < last ts)"
      using inv that unfolding freq_inv_def by blast+
    show "e \<le> fq_episode s" by (rule c(1))
    show "fq_episode s + w < now" if "\<not> ar"
      using c(2) that le [OF last_in_set] unfolding ar_def by (auto split: if_splits)
  qed
  have o': "freq_observe cnt w now s =
      (if \<not> ar \<and> cnt \<le> int (length ms) then (True, s\<lparr>fq_matches := ms, fq_armed := True, fq_episode := hd ms\<rparr>)
       else (False, s\<lparr>fq_matches := ms, fq_armed := ar\<rparr>))"
    by (simp add: freq_observe_def ms ar_def Let_def)
  have srt': "sorted_wrt (<) (map snd fs)" using inv by (simp add: freq_inv_def)
  show ?thesis
  proof (cases "\<not> ar \<and> cnt \<le> int (length ms)")
    case True
    have "\<forall>e \<in> set (map snd fs). e < hd ms" using gone True hd'(1) by force
    then show ?thesis
      using True o o' many mono srt' unfolding freq_inv_def ms_def [symmetric]
      by (auto simp: sorted_wrt_append less_imp_le)
  next
    case False
    then have "\<forall>e \<in> set (map snd fs). e \<le> fq_episode s \<and> (ar \<or> fq_episode s + w < now)" using gone by blast
    moreover have "\<not> m" "s1 = s\<lparr>fq_matches := ms, fq_armed := ar\<rparr>" using False o o' by auto
    ultimately show ?thesis
      using mono srt' unfolding freq_inv_def ms_def [symmetric] by simp
  qed
qed

lemma freq_inv_run:
  "sorted ts \<Longrightarrow> 0 < w \<Longrightarrow> fq_matches s = [] \<Longrightarrow> \<not> fq_armed s \<Longrightarrow>
   case freq_fires cnt w s ts of (fs, s') \<Rightarrow> freq_inv cnt w ts fs s'"
proof (induction ts rule: rev_induct)
  case Nil
  then show ?case by (simp add: freq_inv_def window_of_def)
next
  case (snoc now ts)
  obtain fs s1 where f: "freq_fires cnt w s ts = (fs, s1)" by fastforce
  obtain m s2 where o: "freq_observe cnt w now s1 = (m, s2)" by fastforce
  have "freq_inv cnt w ts fs s1" using snoc f by (simp add: sorted_append)
  from freq_inv_step [OF this snoc.prems(1,2) o] show ?case
    by (cases m) (simp_all add: freq_fires_append f o)
qed

text \<open>\<open>Evaluate\<close> of one rule over a sequence of events, without a match log and without edits of the rule.\<close>

fun freq_run ::
    "freq_env \<Rightarrow> frequencyThresholdParams \<Rightarrow> int \<Rightarrow> int \<Rightarrow> freqStates \<Rightarrow> (string \<times> gtime) list \<Rightarrow> (gtime \<times> gtime) list" where
  "freq_run env p rid ver st [] = []"
| "freq_run env p rid ver st ((evName, now) # evs) =
     (case freq_Evaluate env [] False (Some p) rid ver evName now st of
        (Inr True, st') \<Rightarrow> (now, fq_episode (the (st' rid))) # freq_run env p rid ver st' evs
      | (_, st') \<Rightarrow> freq_run env p rid ver st' evs)"

definition counts :: "frequencyThresholdParams \<Rightarrow> string \<times> gtime \<Rightarrow> bool" where
  "counts p e \<longleftrightarrow> fp_EventName p = '''' \<or> fst e = fp_EventName p"

definition current :: "frequencyThresholdParams \<Rightarrow> int \<Rightarrow> freqState \<Rightarrow> bool" where
  "current p ver s \<longleftrightarrow> fq_seeded s \<and> fq_version s = ver \<and> fq_paramsKey s = canonicalParamsKey p"

lemma key_nonempty: "canonicalParamsKey p \<noteq> ''''"
  by (simp add: canonicalParamsKey_def)

lemma observe_current: "current p ver s \<Longrightarrow> current p ver (snd (freq_observe cnt w now s))"
  by (simp add: current_def freq_observe_def Let_def)

lemma Evaluate_current:
  assumes w: "frequencyWindow (fe_parseDuration env) p = Inr w" and c: "counts p (evName, now)"
    and s: "st rid = Some s" "current p ver s"
  shows "freq_Evaluate env [] False (Some p) rid ver evName now st =
    (Inr (fst (freq_observe (fp_Count p) w now s)), st(rid \<mapsto> snd (freq_observe (fp_Count p) w now s)))"
proof -
  have "freq_refresh ver (canonicalParamsKey p) s = s" "freq_stamp ver (canonicalParamsKey p) s = s"
    using s(2) key_nonempty by (auto simp: current_def freq_refresh_def freq_stamp_def)
  then show ?thesis
    using assms by (auto simp: freq_Evaluate_def counts_def freq_state_def freq_seed_def current_def split: prod.splits)
qed

text \<open>The state a rule starts with: empty, stamped with its revision and parameters.\<close>

definition freq_start :: "frequencyThresholdParams \<Rightarrow> int \<Rightarrow> freqState" where
  "freq_start p ver = freqState0\<lparr>fq_seeded := True, fq_version := ver, fq_paramsKey := canonicalParamsKey p\<rparr>"

lemma Evaluate_first:
  assumes w: "frequencyWindow (fe_parseDuration env) p = Inr w" and c: "counts p (evName, now)"
    and log: "fe_matchLog env = None" and st: "st rid = None"
  shows "freq_Evaluate env [] False (Some p) rid ver evName now st =
    (Inr (fst (freq_observe (fp_Count p) w now (freq_start p ver))),
     st(rid \<mapsto> snd (freq_observe (fp_Count p) w now (freq_start p ver))))"
proof -
  have "freq_refresh ver (canonicalParamsKey p) freqState0 = freqState0"
    by (simp add: freq_refresh_def freqState0_def)
  moreover have "freq_stamp ver (canonicalParamsKey p) (freq_start p ver) = freq_start p ver"
    using key_nonempty by (simp add: freq_start_def freq_stamp_def)
  ultimately show ?thesis
    using assms
    by (auto simp: freq_Evaluate_def counts_def freq_state_def freq_seed_def MaxTrackedStatefulRules_def
        freq_start_def [symmetric] freqState0_def freq_start_def split: prod.splits)
qed

lemma Evaluate_other:
  "frequencyWindow (fe_parseDuration env) p = Inr w \<Longrightarrow> \<not> counts p (evName, now) \<Longrightarrow>
   freq_Evaluate env ord False (Some p) rid ver evName now st = (Inr False, st)"
  by (simp add: freq_Evaluate_def counts_def)

lemma start_current: "current p ver (freq_start p ver)"
  by (simp add: current_def freq_start_def)

lemma freq_run_fires:
  assumes w: "frequencyWindow (fe_parseDuration env) p = Inr w" and log: "fe_matchLog env = None"
  shows "(st rid = Some s \<and> current p ver s) \<or> (st rid = None \<and> s = freq_start p ver) \<Longrightarrow>
    freq_run env p rid ver st evs = fst (freq_fires (fp_Count p) w s (map snd (filter (counts p) evs)))"
proof (induction evs arbitrary: st s)
  case (Cons e evs)
  obtain nm now where e: "e = (nm, now)" by fastforce
  show ?case
  proof (cases "counts p (nm, now)")
    case False
    then show ?thesis using Cons Evaluate_other [OF w False, of "[]" rid ver st] by (simp add: e)
  next
    case True
    obtain m s1 where o: "freq_observe (fp_Count p) w now s = (m, s1)" by fastforce
    have ev: "freq_Evaluate env [] False (Some p) rid ver nm now st = (Inr m, st(rid \<mapsto> s1))"
      using Cons.prems Evaluate_current [OF w True, of st rid s ver] Evaluate_first [OF w True log, of st rid ver] o
      by auto
    have "current p ver s1"
      using Cons.prems observe_current [of p ver s "fp_Count p" w now] start_current o by auto
    then have "freq_run env p rid ver (st(rid \<mapsto> s1)) evs =
        fst (freq_fires (fp_Count p) w s1 (map snd (filter (counts p) evs)))"
      by (intro Cons.IH) simp
    then show ?thesis
      using True by (cases m) (simp_all add: e ev o split: prod.splits)
  qed
qed simp

lemma start_empty: "fq_matches (freq_start p ver) = []" "\<not> fq_armed (freq_start p ver)"
  by (simp_all add: freq_start_def freqState0_def)

lemma window_pos: "frequencyWindow pd p = Inr w \<Longrightarrow> 0 < w"
  by (auto simp: frequencyWindow_def split: if_splits option.splits)

lemma run_inv:
  assumes "frequencyWindow (fe_parseDuration env) p = Inr w" "fe_matchLog env = None" "sorted (map snd evs)"
  shows "\<exists>s. freq_fires (fp_Count p) w (freq_start p ver) (map snd (filter (counts p) evs)) =
      (freq_run env p rid ver Map.empty evs, s) \<and>
    freq_inv (fp_Count p) w (map snd (filter (counts p) evs)) (freq_run env p rid ver Map.empty evs) s"
proof -
  let ?ts = "map snd (filter (counts p) evs)"
  obtain fs s where f: "freq_fires (fp_Count p) w (freq_start p ver) ?ts = (fs, s)" by fastforce
  have "sorted ?ts" using assms(3) by (induction evs) auto
  then have "freq_inv (fp_Count p) w ?ts fs s"
    using freq_inv_run [of ?ts w "freq_start p ver" "fp_Count p"] window_pos [OF assms(1)] start_empty f by simp
  moreover have "freq_run env p rid ver Map.empty evs = fs"
    using freq_run_fires [OF assms(1,2), of Map.empty rid "freq_start p ver" ver evs] f by simp
  ultimately show ?thesis using f by blast
qed

text \<open>
  Without a match log, from an empty state, for one version of the rule's params and as long as the state is not evicted for
  other rules: over any sequence of events with a clock that does not run backwards, every alert of a frequency rule is
  backed by at least \<open>count\<close> matching events inside the window that ends with it, and the episodes of its
  alerts, which name them in the store, strictly increase: no alert is taken for a duplicate of an earlier one. The
  deployed poller wires a match log (\<open>cmd/sorobeacon/main.go\<close>), so there this describes the fallback only.
\<close>

theorem frequency_alerts_are_backed_and_distinct:
  fixes env :: freq_env and p :: frequencyThresholdParams
  assumes w: "frequencyWindow (fe_parseDuration env) p = Inr w" and log: "fe_matchLog env = None"
    and clock: "sorted (map snd evs)"
  shows "let fires = freq_run env p rid ver Map.empty evs; ts = map snd (filter (counts p) evs) in
     sorted_wrt (<) (map snd fires) \<and>
     (\<forall>f \<in> set fires. fp_Count p \<le> int (length (filter (\<lambda>u. fst f - w \<le> u \<and> u \<le> fst f) ts)) \<and>
        fst f - w \<le> snd f \<and> snd f \<le> fst f)"
  using run_inv [OF assms, of ver rid] unfolding Let_def freq_inv_def list_all_iff enough_def by blast

definition freq_demo_env :: freq_env where
  "freq_demo_env = \<lparr>fe_parseDuration = (\<lambda>s. Some 10), fe_parseTime = (\<lambda>s. None), fe_matchLog = None\<rparr>"

definition freq_demo :: frequencyThresholdParams where
  "freq_demo = \<lparr>fp_EventName = ''mint'', fp_Count = 2, fp_Window = ''10ns''\<rparr>"

lemma freq_demo_window: "frequencyWindow (fe_parseDuration freq_demo_env) freq_demo = Inr 10"
  by (simp add: frequencyWindow_def freq_demo_env_def freq_demo_def)

theorem frequency_alerts_are_backed_and_distinct_witness:
  "sorted_wrt (<) (map snd (freq_run freq_demo_env freq_demo 1 1 Map.empty
     [(''mint'', 100), (''burn'', 105), (''mint'', 109), (''mint'', 111)]))"
proof -
  have "fe_matchLog freq_demo_env = None" by (simp add: freq_demo_env_def)
  from frequency_alerts_are_backed_and_distinct [OF freq_demo_window this,
      of "[(''mint'', 100), (''burn'', 105), (''mint'', 109), (''mint'', 111)]" 1 1]
  show ?thesis by (simp add: Let_def)
qed

text \<open>
  A crossing is not missed: while a frequency rule whose count is within the retained matches has never alerted, the
  window ending at the last matching event has always held fewer than \<open>count\<close> of them.
\<close>

theorem frequency_first_crossing_alerts:
  fixes env :: freq_env and p :: frequencyThresholdParams
  assumes w: "frequencyWindow (fe_parseDuration env) p = Inr w" and log: "fe_matchLog env = None"
    and clock: "sorted (map snd evs)" and cap: "fp_Count p \<le> int MaxFrequencyMatchesPerRule"
    and quiet: "freq_run env p rid ver Map.empty evs = []"
  shows "int (length (window_of w (map snd (filter (counts p) evs)))) < fp_Count p"
proof -
  let ?ts = "map snd (filter (counts p) evs)" and ?s0 = "freq_start p ver"
  have pos: "0 < fp_Count p" using w by (auto simp: frequencyWindow_def split: if_splits option.splits)
  have srt: "sorted ?ts" using clock by (induction evs) auto
  obtain s where f: "freq_fires (fp_Count p) w ?s0 ?ts = ([], s)"
    using run_inv [OF w log clock, of ver rid] quiet by auto
  show ?thesis
  proof (cases ?ts rule: rev_cases)
    case Nil
    then show ?thesis using pos by (simp add: window_of_def)
  next
    case (snoc us now)
    obtain fs s1 where f1: "freq_fires (fp_Count p) w ?s0 us = (fs, s1)" by fastforce
    obtain m s2 where o: "freq_observe (fp_Count p) w now s1 = (m, s2)" by fastforce
    have e: "fs = []" "\<not> m"
      using f f1 o by (auto simp: snoc freq_fires_append split: if_splits)
    have inv: "freq_inv (fp_Count p) w us fs s1"
      using freq_inv_run [of us w ?s0 "fp_Count p"] srt window_pos [OF w] start_empty f1
      by (simp add: snoc sorted_append)
    have unarmed: "\<not> fq_armed s1"
      using f1 e(1) start_empty(2)
    proof (induction us arbitrary: s1 rule: rev_induct)
      case (snoc u us)
      obtain gs s' where g: "freq_fires (fp_Count p) w ?s0 us = (gs, s')" by fastforce
      obtain m' s'' where o': "freq_observe (fp_Count p) w u s' = (m', s'')" by fastforce
      have "gs = []" "\<not> m'" "s1 = s''" using snoc.prems g o' by (auto simp: freq_fires_append split: if_splits)
      moreover have "\<not> fq_armed s'" using snoc.IH [of s'] g \<open>gs = []\<close> snoc.prems(3) e(1) by simp
      ultimately show ?case using o' by (auto simp: freq_observe_def Let_def split: if_splits)
    qed auto
    have "keep_last MaxFrequencyMatchesPerRule (pruneBefore (fq_matches s1) (now - w) @ [now]) =
        keep_last MaxFrequencyMatchesPerRule (window_of w ?ts)"
      using window_step [of us now w] srt window_pos [OF w] inv by (simp add: freq_inv_def snoc)
    then show ?thesis
      using o e(2) unarmed cap by (auto simp: freq_observe_def Let_def split: if_splits)
  qed
qed

theorem frequency_first_crossing_alerts_witness:
  "int (length (window_of 10 (map snd (filter (counts freq_demo) [(''mint'', 100), (''burn'', 101), (''mint'', 115)])))) < 2"
proof -
  have h1: "fe_matchLog freq_demo_env = None" by (simp add: freq_demo_env_def)
  have h2: "sorted (map snd [(''mint'', 100 :: gtime), (''burn'', 101), (''mint'', 115)])" by simp
  have c: "fp_Count freq_demo = 2" by (simp add: freq_demo_def)
  have h3: "fp_Count freq_demo \<le> int MaxFrequencyMatchesPerRule"
    by (simp add: c MaxFrequencyMatchesPerRule_def)
  have h4: "freq_run freq_demo_env freq_demo 1 1 Map.empty [(''mint'', 100), (''burn'', 101), (''mint'', 115)] = []"
    by (simp add: freq_Evaluate_def freq_demo_window freq_demo_def freq_demo_env_def frequencyWindow_def freq_state_def
        freq_refresh_def freq_seed_def freq_stamp_def freq_observe_def freqState0_def canonicalParamsKey_def pruneBefore_def
        MaxTrackedStatefulRules_def MaxFrequencyMatchesPerRule_def keep_last_def)
  show ?thesis
    using frequency_first_crossing_alerts [OF freq_demo_window h1 h2 h3 h4] unfolding c .
qed

text \<open>
  A rule whose \<open>count\<close> exceeds the number of matches the state retains is accepted by \<open>Validate\<close> and can never alert, whatever
  events arrive.
\<close>

theorem frequency_count_above_cap_never_alerts:
  fixes env :: freq_env and p :: frequencyThresholdParams
  assumes big: "int MaxFrequencyMatchesPerRule < fp_Count p"
    and win: "fp_Window p \<noteq> ''''" "fe_parseDuration env (fp_Window p) = Some d" "0 < d"
  shows "freq_Validate (fe_parseDuration env) (Some p) = Some [] \<and>
     fst (freq_Evaluate env ord ctxDone (Some p) rid ver evName now st) \<noteq> Inr True"
proof -
  have "\<not> fst (freq_observe (fp_Count p) w now s)" for w s
    using big by (auto simp: freq_observe_def Let_def)
  moreover have "freq_Validate (fe_parseDuration env) (Some p) = Some []"
    using assms by (simp add: freq_Validate_def)
  ultimately show ?thesis
    by (auto simp: freq_Evaluate_def Let_def split: sum.split option.split prod.split) (metis fst_conv)+
qed

theorem frequency_count_above_cap_never_alerts_witness:
  "fst (freq_Evaluate freq_demo_env [] False (Some (freq_demo\<lparr>fp_Count := 10001\<rparr>)) 1 1 ''mint'' 5 Map.empty) \<noteq> Inr True"
proof -
  have "int MaxFrequencyMatchesPerRule < fp_Count (freq_demo\<lparr>fp_Count := 10001\<rparr>)"
      "fp_Window (freq_demo\<lparr>fp_Count := 10001\<rparr>) \<noteq> ''''"
      "fe_parseDuration freq_demo_env (fp_Window (freq_demo\<lparr>fp_Count := 10001\<rparr>)) = Some 10" "(0::int) < 10"
    by (simp_all add: freq_demo_def freq_demo_env_def MaxFrequencyMatchesPerRule_def)
  from frequency_count_above_cap_never_alerts [OF this] show ?thesis by blast
qed

text \<open>
  The quiet time after an alert is counted from the first match of its window, not from the alert: with \<open>count\<close> 2 and a window of 10, events at
  100, 109 and 111 raise alerts at 109 and again at 111.
\<close>

theorem frequency_realerts_within_one_window:
  "freq_run freq_demo_env freq_demo 1 1 Map.empty [(''mint'', 100), (''mint'', 109), (''mint'', 111)] = [(109, 100), (111, 109)]"
  by (simp add: freq_Evaluate_def freq_demo_def freq_demo_env_def frequencyWindow_def freq_state_def
      freq_refresh_def freq_seed_def freq_stamp_def freq_observe_def freqState0_def canonicalParamsKey_def pruneBefore_def
      MaxTrackedStatefulRules_def MaxFrequencyMatchesPerRule_def keep_last_def)

end
