(* ===== verification/Delivery.thy ===== *)
theory Delivery
  imports Channel_Health Channel_Breaker Fairness
begin

text \<open>
  The delivery of one alert to one channel, \<open>Dispatcher.deliver\<close> in \<open>internal/notify/dispatcher.go\<close>, with the
  bookkeeping it does (\<open>record\<close>, \<open>recordHealth\<close>, \<open>deadLetter\<close>), the redaction of error texts and the channel row
  update \<open>RecordChannelHealth\<close> of \<open>internal/store/postgres.go\<close>.

  A delivery is a function of what its surroundings answer (\<open>delivery_env\<close>): the rate limiter, the notifier factory, the
  slot of each attempt, each send, and at every place where the code looks, whether the context ended or the
  workspace or channel was stopped. Other deliveries to the same channel share its breaker; \<open>dv_before\<close> and \<open>dv_between\<close> are
  whatever they do to it in the meantime. The statements a delivery issues never steer it (their
  errors are logged), so they are its output, in order. Metrics, spans and logs are left out.
\<close>

subsection \<open>Redaction\<close>

text \<open>The pattern of \<open>redactSecretText\<close>, for ASCII text: a word boundary, a credential word, a word boundary, a separator
  (colon or equals sign with optional space, or space), and a run of value characters.\<close>

definition re_space :: "char \<Rightarrow> bool" where
  "re_space c = (c \<in> set [CHR 0x09, CHR 0x0A, CHR 0x0C, CHR 0x0D, CHR '' ''])"

definition word_char :: "char \<Rightarrow> bool" where
  "word_char c = (let n = of_char c :: nat in
     (48 \<le> n \<and> n \<le> 57) \<or> (65 \<le> n \<and> n \<le> 90) \<or> (97 \<le> n \<and> n \<le> 122) \<or> n = 95)"

definition secret_char :: "char \<Rightarrow> bool" where
  "secret_char c = (word_char c \<or> c \<in> set (CHR 0x27 # ''.~:/?#[]@!$&()*+,;=%-''))"

definition secret_words :: "string list" where
  "secret_words =
     [''token'', ''secret'', ''password'', ''passwd'', ''api_key'', ''api-key'', ''apikey'',
      ''auth_token'', ''auth-token'', ''authtoken'', ''access_token'', ''access-token'', ''accesstoken'', ''bearer'']"

definition strip_word :: "string \<Rightarrow> string \<Rightarrow> string option" where
  "strip_word s w =
     (let r = drop (length w) s in
      if to_lower (take (length w) s) = w \<and> (r = [] \<or> \<not> word_char (hd r)) then Some r else None)"

definition value_run :: "string \<Rightarrow> string option" where
  "value_run v = (if v \<noteq> [] \<and> secret_char (hd v) then Some (dropWhile secret_char v) else None)"

definition secret_tail :: "string \<Rightarrow> string option" where
  "secret_tail r =
     (let r1 = dropWhile re_space r;
          assigned = (if r1 \<noteq> [] \<and> (hd r1 = CHR '':'' \<or> hd r1 = CHR ''='') then value_run (dropWhile re_space (tl r1)) else None)
      in case assigned of
           Some rest \<Rightarrow> Some rest
         | None \<Rightarrow> (if r \<noteq> [] \<and> re_space (hd r) then value_run r1 else None))"

text \<open>The text after a match at the front of \<open>s\<close>, where \<open>prev\<close> is the character before it.\<close>

definition secret_match :: "char option \<Rightarrow> string \<Rightarrow> string option" where
  "secret_match prev s =
     (if (case prev of Some c \<Rightarrow> word_char c | None \<Rightarrow> False) then None
      else (case List.find (\<lambda>w. strip_word s w \<noteq> None) secret_words of
              None \<Rightarrow> None
            | Some w \<Rightarrow> secret_tail (the (strip_word s w))))"

lemma length_value_run: "value_run v = Some r \<Longrightarrow> length r < length v"
  by (cases v) (auto simp: value_run_def less_Suc_eq_le length_dropWhile_le split: if_splits)

lemma length_secret_tail: "secret_tail s = Some r \<Longrightarrow> length r \<le> length s"
proof -
  assume h: "secret_tail s = Some r"
  let ?s1 = "dropWhile re_space s"
  have a: "length ?s1 \<le> length s" by (rule length_dropWhile_le)
  have b: "length (dropWhile re_space (tl ?s1)) \<le> length ?s1"
    by (rule order_trans [OF length_dropWhile_le]) simp
  show ?thesis
    using h a b length_value_run [of ?s1 r] length_value_run [of "dropWhile re_space (tl ?s1)" r]
    by (auto simp: secret_tail_def Let_def split: option.splits if_splits)
qed

lemma length_secret_match: "secret_match prev s = Some r \<Longrightarrow> length r < length s"
proof -
  assume h: "secret_match prev s = Some r"
  then obtain w where f: "List.find (\<lambda>w. strip_word s w \<noteq> None) secret_words = Some w"
    and t: "secret_tail (the (strip_word s w)) = Some r"
    by (auto simp: secret_match_def split: if_splits option.splits)
  have w: "w \<in> set secret_words" "strip_word s w \<noteq> None"
    using f by (auto simp: find_Some_iff)
  have l: "0 < length w" using w(1) by (auto simp: secret_words_def)
  have s: "to_lower (take (length w) s) = w" "the (strip_word s w) = drop (length w) s"
    using w(2) by (auto simp: strip_word_def Let_def split: if_splits)
  have "s \<noteq> []" using l s(1) by (auto simp: to_lower_def)
  then have "length (drop (length w) s) < length s" using l by simp
  then show ?thesis using length_secret_tail [OF t] s(2) by simp
qed

function redact_from :: "char option \<Rightarrow> string \<Rightarrow> string" where
  "redact_from prev [] = []"
| "redact_from prev (c # s) =
     (case secret_match prev (c # s) of
        Some rest \<Rightarrow> ''[redacted]'' @ redact_from (Some ((c # s) ! (length s - length rest))) rest
      | None \<Rightarrow> c # redact_from (Some c) s)"
  by pat_completeness auto
termination
  by (relation "measure (length \<circ> snd)") (auto dest: length_secret_match)

definition redactSecretText :: "string \<Rightarrow> string" where
  "redactSecretText s = redact_from None s"

definition sanitize_text :: "string \<Rightarrow> string" where
  "sanitize_text s =
     (let msg = trim_space s in
      if msg = '''' then ''delivery failed''
      else (let red = redactSecretText msg in if red = '''' then ''delivery failed'' else red))"

definition sanitizeDeliveryError :: "send_err \<Rightarrow> string" where
  "sanitizeDeliveryError e = sanitize_text (se_text e)"

text \<open>\<open>unwrap\<close> is the error's own \<open>Unwrap\<close> method, if it has one and it answers with an error.\<close>

definition redactURLError :: "(send_err \<Rightarrow> send_err option) \<Rightarrow> send_err \<Rightarrow> send_err" where
  "redactURLError unwrap e = (case unwrap e of Some inner \<Rightarrow> inner | None \<Rightarrow> e)"

subsection \<open>What a delivery writes\<close>

definition DeliveryStatusSuccess :: string where "DeliveryStatusSuccess = ''success''"
definition DeliveryStatusFailed :: string where "DeliveryStatusFailed = ''failed''"

record DeliveryAttempt =
  da_AlertID :: int
  da_ChannelID :: int
  da_Status :: string
  da_ResponseSnippet :: string
  da_AttemptedAt :: gtime

record DeadLetter =
  dl_AlertID :: int
  dl_ChannelID :: int
  dl_LastError :: string
  dl_AttemptCount :: int
  dl_LastStatus :: int

text \<open>\<open>EUsage\<close> is the notification counter of the workspace, \<open>EWait\<close> the pause before the next attempt.\<close>

datatype effect =
  EAttempt DeliveryAttempt | EHealth int ChannelHealthUpdate | EDead DeadLetter | EUsage string string string | EWait duration

definition attempt_row :: "int \<Rightarrow> int \<Rightarrow> string \<Rightarrow> string \<Rightarrow> DeliveryAttempt" where
  "attempt_row alertID channelID status snippet =
     (let s = redactSecretText (if 500 < length snippet then take 500 snippet else snippet) in
      \<lparr>da_AlertID = alertID, da_ChannelID = channelID, da_Status = status,
       da_ResponseSnippet = (if s = '''' then ''delivery failed'' else s), da_AttemptedAt = 0\<rparr>)"

definition record_attempt :: "int \<Rightarrow> int \<Rightarrow> string \<Rightarrow> string \<Rightarrow> effect" where
  "record_attempt alertID channelID status snippet = EAttempt (attempt_row alertID channelID status snippet)"

definition recordHealth :: "int \<Rightarrow> int \<Rightarrow> ChannelHealthUpdate \<Rightarrow> effect" where
  "recordHealth disableAfter channelID u = EHealth channelID (u\<lparr>hu_DisableAfter := disableAfter\<rparr>)"

definition health_success :: ChannelHealthUpdate where
  "health_success = \<lparr>hu_Success = True, hu_Error = '''', hu_Permanent = False, hu_At = 0, hu_DisableAfter = 0\<rparr>"

definition health_failure :: "string \<Rightarrow> bool \<Rightarrow> ChannelHealthUpdate" where
  "health_failure err permanent = \<lparr>hu_Success = False, hu_Error = err, hu_Permanent = permanent, hu_At = 0, hu_DisableAfter = 0\<rparr>"

definition deadLetter :: "(send_err \<Rightarrow> send_err option) \<Rightarrow> alert \<Rightarrow> channel \<Rightarrow> send_err \<Rightarrow> int \<Rightarrow> effect" where
  "deadLetter unwrap a ch e attempts =
     EDead \<lparr>dl_AlertID = al_ID a, dl_ChannelID = ch_ID ch,
            dl_LastError = sanitizeDeliveryError (redactURLError unwrap e), dl_AttemptCount = attempts,
            dl_LastStatus = (case as_status (se_chain e) of Some code \<Rightarrow> code | None \<Rightarrow> 0)\<rparr>"

definition recordWorkspaceNotification :: "ctx \<Rightarrow> channel \<Rightarrow> string \<Rightarrow> effect" where
  "recordWorkspaceNotification c ch outcome =
     (let (ws, ok) = From c in
      EUsage (if ch_WorkspaceID ch = '''' \<and> ok \<and> \<not> System c then ws else ch_WorkspaceID ch) (ch_Type ch) outcome)"

subsection \<open>One delivery\<close>

datatype send_result = Sent | SendError send_err | Panicked

definition sendWithRecovery :: "send_result \<Rightarrow> send_err option" where
  "sendWithRecovery r =
     (case r of Sent \<Rightarrow> None | SendError e \<Rightarrow> Some e
      | Panicked \<Rightarrow> Some \<lparr>se_chain = [OtherError], se_text = ''delivery failed''\<rparr>)"

record delivery_cfg =
  dc_MaxAttempts :: int
  dc_BaseBackoff :: duration
  dc_disableAfterFailures :: int

text \<open>Attempts are numbered from 1. \<open>dv_gone\<close>: the context ended or the workspace or channel was stopped when the attempt
  began; \<open>dv_slot\<close>: the error of the fairness slot and whether it is \<open>ErrFairnessQueueFull\<close>, \<open>dv_slotGone\<close> the check
  after it; \<open>dv_stopped\<close>: stopped after a failed send; \<open>dv_ctxDone\<close>, \<open>dv_cancelled\<close>: the context ended before or during the pause.\<close>

record delivery_env =
  dv_ctx :: ctx
  dv_waitErr :: bool
  dv_waitGone :: bool
  dv_factory :: "send_err option"
  dv_unwrap :: "send_err \<Rightarrow> send_err option"
  dv_stateAt :: gtime
  dv_allowAt :: gtime
  dv_configAt :: gtime
  dv_gone :: "int \<Rightarrow> bool"
  dv_slot :: "int \<Rightarrow> (send_err \<times> bool) option"
  dv_slotGone :: "int \<Rightarrow> bool"
  dv_send :: "int \<Rightarrow> send_result"
  dv_stopped :: "int \<Rightarrow> bool"
  dv_before :: "int \<Rightarrow> channel_breaker \<Rightarrow> channel_breaker"
  dv_recordAt :: "int \<Rightarrow> gtime"
  dv_between :: "int \<Rightarrow> channel_breaker \<Rightarrow> channel_breaker"
  dv_checkAt :: "int \<Rightarrow> gtime"
  dv_ctxDone :: "int \<Rightarrow> bool"
  dv_cancelled :: "int \<Rightarrow> bool"

text \<open>Which of its returns the function took.\<close>

datatype delivery_end = Delivered | Rejected | Exhausted | Shed | Tripped | Gone | Skipped | Misconfigured

definition throttleOutcome :: "send_err \<Rightarrow> string" where
  "throttleOutcome e =
     (if str_contains (se_text e) ''Retry-After'' \<or> str_contains (se_text e) ''429'' then ''throttled'' else ''error'')"

function deliver_loop ::
    "delivery_cfg \<Rightarrow> delivery_env \<Rightarrow> alert \<Rightarrow> channel \<Rightarrow> int \<Rightarrow> duration \<Rightarrow> bool \<Rightarrow> channel_breaker \<Rightarrow>
     effect list \<times> channel_breaker \<times> delivery_end" where
  "deliver_loop cfg env a ch attempt backoff permanent cb =
     (let usage = recordWorkspaceNotification (dv_ctx env) ch;
          health = recordHealth (dc_disableAfterFailures cfg) (ch_ID ch) in
      if dv_gone env attempt then ([], cb, Gone)
      else (case dv_slot env attempt of
        Some (slotErr, full) \<Rightarrow>
          (if dv_slotGone env attempt \<or> \<not> full then ([], cb, Gone)
           else ([usage ''throttled'',
                  record_attempt (al_ID a) (ch_ID ch) DeliveryStatusFailed (sanitizeDeliveryError slotErr),
                  health (health_failure (sanitizeDeliveryError slotErr) permanent),
                  deadLetter (dv_unwrap env) a ch slotErr attempt], cb, Shed))
      | None \<Rightarrow>
          (case sendWithRecovery (dv_send env attempt) of
             None \<Rightarrow>
               ([usage ''ok'', record_attempt (al_ID a) (ch_ID ch) DeliveryStatusSuccess '''', health health_success],
                cb_RecordSuccess (dv_before env attempt cb) (dv_recordAt env attempt), Delivered)
           | Some e \<Rightarrow>
               (if dv_stopped env attempt then ([], cb, Gone)
                else
                  (let cb1 = cb_RecordFailure (dv_before env attempt cb) (dv_recordAt env attempt);
                       safeErr = sanitizeDeliveryError e;
                       failed = [record_attempt (al_ID a) (ch_ID ch) DeliveryStatusFailed safeErr, usage (throttleOutcome e)];
                       permanent1 = (permanent \<or> IsPermanent (Some e));
                       last = [health (health_failure safeErr permanent1), deadLetter (dv_unwrap env) a ch e attempt]
                   in if \<not> Retryable (Some e) then (failed @ last, cb1, Rejected)
                      else if dc_MaxAttempts cfg \<le> attempt then (failed @ last, cb1, Exhausted)
                      else if dv_ctxDone env attempt then (failed, cb1, Gone)
                      else (case cb_State (dv_between env attempt cb1) (dv_checkAt env attempt) of (st, cb2) \<Rightarrow>
                              if st = StateOpen then (failed, cb2, Tripped)
                              else if dv_cancelled env attempt then (failed @ [EWait backoff], cb2, Gone)
                              else (case deliver_loop cfg env a ch (attempt + 1) (wrap64 (backoff * 2)) permanent1 cb2 of
                                      (es, cb3, e) \<Rightarrow> (failed @ [EWait backoff] @ es, cb3, e))))))))"
  by pat_completeness auto
termination
  by (relation "measure (\<lambda>(cfg, env, a, ch, attempt, backoff, permanent, cb). nat (dc_MaxAttempts cfg - attempt))") auto

definition deliver ::
    "delivery_cfg \<Rightarrow> delivery_env \<Rightarrow> alert \<Rightarrow> channel \<Rightarrow> channel_breaker \<Rightarrow> effect list \<times> channel_breaker \<times> delivery_end" where
  "deliver cfg env a ch cb =
     (if dv_waitErr env \<and> dv_waitGone env then ([], cb, Gone)
      else
        (let usage = recordWorkspaceNotification (dv_ctx env) ch;
             throttled = (if dv_waitErr env then [usage ''throttled''] else []);
             (allowed, cb1) = cb_Allow (snd (cb_State cb (dv_stateAt env))) (dv_allowAt env)
         in if \<not> allowed then (throttled, cb1, Skipped)
            else (case dv_factory env of
              Some e \<Rightarrow>
                (throttled @
                 [record_attempt (al_ID a) (ch_ID ch) DeliveryStatusFailed (sanitizeDeliveryError e),
                  recordHealth (dc_disableAfterFailures cfg) (ch_ID ch) (health_failure (sanitizeDeliveryError e) True),
                  usage ''error''], cb_RecordFailure cb1 (dv_configAt env), Misconfigured)
            | None \<Rightarrow>
                (case deliver_loop cfg env a ch 1 (dc_BaseBackoff cfg) False cb1 of
                   (es, cb2, e) \<Rightarrow> (throttled @ es, cb2, e)))))"

declare deliver_loop.simps [simp del]

subsection \<open>What a delivery leaves behind\<close>

fun attempts_of :: "effect list \<Rightarrow> DeliveryAttempt list" where
  "attempts_of [] = []"
| "attempts_of (EAttempt d # es) = d # attempts_of es"
| "attempts_of (_ # es) = attempts_of es"

fun deads_of :: "effect list \<Rightarrow> DeadLetter list" where
  "deads_of [] = []"
| "deads_of (EDead d # es) = d # deads_of es"
| "deads_of (_ # es) = deads_of es"

fun healths_of :: "effect list \<Rightarrow> (int \<times> ChannelHealthUpdate) list" where
  "healths_of [] = []"
| "healths_of (EHealth i u # es) = (i, u) # healths_of es"
| "healths_of (_ # es) = healths_of es"

fun waits_of :: "effect list \<Rightarrow> duration list" where
  "waits_of [] = []"
| "waits_of (EWait d # es) = d # waits_of es"
| "waits_of (_ # es) = waits_of es"

lemma attempts_of_append [simp]: "attempts_of (xs @ ys) = attempts_of xs @ attempts_of ys"
  by (induction xs rule: attempts_of.induct) auto

lemma deads_of_append [simp]: "deads_of (xs @ ys) = deads_of xs @ deads_of ys"
  by (induction xs rule: deads_of.induct) auto

lemma healths_of_append [simp]: "healths_of (xs @ ys) = healths_of xs @ healths_of ys"
  by (induction xs rule: healths_of.induct) auto

lemma waits_of_append [simp]: "waits_of (xs @ ys) = waits_of xs @ waits_of ys"
  by (induction xs rule: waits_of.induct) auto

lemma usage_invisible [simp]:
  "attempts_of (recordWorkspaceNotification c ch o' # es) = attempts_of es"
  "deads_of (recordWorkspaceNotification c ch o' # es) = deads_of es"
  "healths_of (recordWorkspaceNotification c ch o' # es) = healths_of es"
  "waits_of (recordWorkspaceNotification c ch o' # es) = waits_of es"
  by (simp_all add: recordWorkspaceNotification_def split: prod.split)

lemma writes_visible [simp]:
  "attempts_of (record_attempt i c st sn # es) = attempt_row i c st sn # attempts_of es"
  "deads_of (record_attempt i c st sn # es) = deads_of es"
  "healths_of (record_attempt i c st sn # es) = healths_of es"
  "waits_of (record_attempt i c st sn # es) = waits_of es"
  "attempts_of (recordHealth d c u # es) = attempts_of es"
  "deads_of (recordHealth d c u # es) = deads_of es"
  "healths_of (recordHealth d c u # es) = (c, u\<lparr>hu_DisableAfter := d\<rparr>) # healths_of es"
  "waits_of (recordHealth d c u # es) = waits_of es"
  "attempts_of (deadLetter un a ch e k # es) = attempts_of es"
  "healths_of (deadLetter un a ch e k # es) = healths_of es"
  "waits_of (deadLetter un a ch e k # es) = waits_of es"
  by (simp_all add: record_attempt_def recordHealth_def deadLetter_def)

lemma deads_of_deadLetter [simp]:
  "deads_of (deadLetter un a ch e k # es) =
     \<lparr>dl_AlertID = al_ID a, dl_ChannelID = ch_ID ch, dl_LastError = sanitizeDeliveryError (redactURLError un e),
      dl_AttemptCount = k, dl_LastStatus = (case as_status (se_chain e) of Some code \<Rightarrow> code | None \<Rightarrow> 0)\<rparr> # deads_of es"
  by (simp add: deadLetter_def)

lemma attempt_row_sel [simp]:
  "da_AlertID (attempt_row i c st sn) = i" "da_ChannelID (attempt_row i c st sn) = c" "da_Status (attempt_row i c st sn) = st"
  by (simp_all add: attempt_row_def Let_def)

text \<open>The rows of a delivery whose first attempt is number \<open>k\<close>.\<close>

definition outcome_ok :: "int \<Rightarrow> int \<Rightarrow> alert \<Rightarrow> channel \<Rightarrow> effect list \<Rightarrow> delivery_end \<Rightarrow> bool" where
  "outcome_ok m k a ch es e =
     (let rows = attempts_of es; n = int (length rows); final = e \<in> {Rejected, Exhausted, Shed} in
      list_all (\<lambda>d. da_AlertID d = al_ID a \<and> da_ChannelID d = ch_ID ch) rows \<and>
      map da_Status rows = (if e = Delivered then replicate (length rows - 1) DeliveryStatusFailed @ [DeliveryStatusSuccess]
                            else replicate (length rows) DeliveryStatusFailed) \<and>
      n \<le> max 1 (m - k + 1) \<and>
      map dl_AttemptCount (deads_of es) = (if final then [k - 1 + n] else []) \<and>
      list_all (\<lambda>d. dl_AlertID d = al_ID a \<and> dl_ChannelID d = ch_ID ch) (deads_of es) \<and>
      map (\<lambda>(i, u). (i, hu_Success u)) (healths_of es) =
        (if e = Delivered then [(ch_ID ch, True)] else if final \<or> e = Misconfigured then [(ch_ID ch, False)] else []) \<and>
      (e = Exhausted \<longrightarrow> n = max 1 (m - k + 1)))"

lemma health_sel [simp]:
  "hu_Success health_success" "hu_Success (health_failure s p) = False" "hu_Permanent (health_failure s p) = p"
  by (simp_all add: health_success_def health_failure_def)

lemma outcome_ok_nil: "e \<notin> {Delivered, Rejected, Exhausted, Shed, Misconfigured} \<Longrightarrow> outcome_ok m k a ch [] e"
  by (simp add: outcome_ok_def)

lemma outcome_ok_step:
  assumes ok: "outcome_ok m (k + 1) a ch es e" and m: "k < m" and e: "e \<noteq> Misconfigured"
    and pre: "attempts_of pre = [attempt_row (al_ID a) (ch_ID ch) DeliveryStatusFailed sn]" "deads_of pre = []" "healths_of pre = []"
  shows "outcome_ok m k a ch (pre @ es) e"
proof -
  let ?rows = "attempts_of es"
  have n: "int (length ?rows) \<le> max 1 (m - (k + 1) + 1)"
    and sts: "map da_Status ?rows = (if e = Delivered then replicate (length ?rows - 1) DeliveryStatusFailed @ [DeliveryStatusSuccess]
                else replicate (length ?rows) DeliveryStatusFailed)"
    and full: "e = Exhausted \<Longrightarrow> int (length ?rows) = max 1 (m - (k + 1) + 1)"
    using ok by (simp_all only: outcome_ok_def Let_def)
  have "e = Delivered \<Longrightarrow> length ?rows = Suc (length ?rows - 1)"
    using arg_cong [OF sts, of length] by simp
  then have "map da_Status (attempts_of (pre @ es)) = (if e = Delivered
      then replicate (length (attempts_of (pre @ es)) - 1) DeliveryStatusFailed @ [DeliveryStatusSuccess]
      else replicate (length (attempts_of (pre @ es))) DeliveryStatusFailed)"
    using sts pre(1) by (simp split: if_splits) (metis append_Cons replicate_Suc)
  moreover have "int (length (attempts_of (pre @ es))) \<le> max 1 (m - k + 1)" using n m pre(1) by simp
  moreover have "e = Exhausted \<Longrightarrow> int (length (attempts_of (pre @ es))) = max 1 (m - k + 1)" using full m pre(1) by simp
  ultimately show ?thesis
    using ok pre unfolding outcome_ok_def Let_def by simp
qed

lemma deliver_loop_ends:
  "dv_gone env k \<Longrightarrow> deliver_loop cfg env a ch k backoff perm cb = ([], cb, Gone)"
  "\<not> dv_gone env k \<Longrightarrow> dv_slot env k = Some (err, full) \<Longrightarrow>
   deliver_loop cfg env a ch k backoff perm cb =
     (if dv_slotGone env k \<or> \<not> full then ([], cb, Gone)
      else ([recordWorkspaceNotification (dv_ctx env) ch ''throttled'',
             record_attempt (al_ID a) (ch_ID ch) DeliveryStatusFailed (sanitizeDeliveryError err),
             recordHealth (dc_disableAfterFailures cfg) (ch_ID ch) (health_failure (sanitizeDeliveryError err) perm),
             deadLetter (dv_unwrap env) a ch err k], cb, Shed))"
  "\<not> dv_gone env k \<Longrightarrow> dv_slot env k = None \<Longrightarrow> sendWithRecovery (dv_send env k) = None \<Longrightarrow>
   deliver_loop cfg env a ch k backoff perm cb =
     ([recordWorkspaceNotification (dv_ctx env) ch ''ok'', record_attempt (al_ID a) (ch_ID ch) DeliveryStatusSuccess '''',
       recordHealth (dc_disableAfterFailures cfg) (ch_ID ch) health_success],
      cb_RecordSuccess (dv_before env k cb) (dv_recordAt env k), Delivered)"
  "\<not> dv_gone env k \<Longrightarrow> dv_slot env k = None \<Longrightarrow> sendWithRecovery (dv_send env k) = Some e \<Longrightarrow> dv_stopped env k \<Longrightarrow>
   deliver_loop cfg env a ch k backoff perm cb = ([], cb, Gone)"
  by (subst deliver_loop.simps, simp add: Let_def)+

text \<open>An attempt that reached the notifier and failed.\<close>

definition fails_at :: "delivery_env \<Rightarrow> int \<Rightarrow> send_err \<Rightarrow> bool" where
  "fails_at env k e \<longleftrightarrow> \<not> dv_gone env k \<and> dv_slot env k = None \<and> sendWithRecovery (dv_send env k) = Some e \<and> \<not> dv_stopped env k"

definition failed_effects :: "delivery_env \<Rightarrow> alert \<Rightarrow> channel \<Rightarrow> send_err \<Rightarrow> effect list" where
  "failed_effects env a ch e =
     [record_attempt (al_ID a) (ch_ID ch) DeliveryStatusFailed (sanitizeDeliveryError e),
      recordWorkspaceNotification (dv_ctx env) ch (throttleOutcome e)]"

lemma deliver_loop_failed:
  assumes f: "fails_at env k e" and r: "Retryable (Some e)" "k < dc_MaxAttempts cfg" "\<not> dv_ctxDone env k"
    and s: "cb_State (dv_between env k (cb_RecordFailure (dv_before env k cb) (dv_recordAt env k))) (dv_checkAt env k) = (st, cb2)"
  shows "deliver_loop cfg env a ch k backoff perm cb =
     (if st = StateOpen then (failed_effects env a ch e, cb2, Tripped)
      else if dv_cancelled env k then (failed_effects env a ch e @ [EWait backoff], cb2, Gone)
      else (case deliver_loop cfg env a ch (k + 1) (wrap64 (backoff * 2)) (perm \<or> IsPermanent (Some e)) cb2 of
              (es, cb3, e') \<Rightarrow> (failed_effects env a ch e @ [EWait backoff] @ es, cb3, e')))"
  using assms unfolding fails_at_def failed_effects_def by (subst deliver_loop.simps) (simp add: Let_def)

lemma deliver_loop_final:
  assumes f: "fails_at env k e" and r: "\<not> Retryable (Some e) \<or> dc_MaxAttempts cfg \<le> k \<or> dv_ctxDone env k"
  shows "deliver_loop cfg env a ch k backoff perm cb =
     (failed_effects env a ch e @
        (if \<not> Retryable (Some e) \<or> dc_MaxAttempts cfg \<le> k
         then [recordHealth (dc_disableAfterFailures cfg) (ch_ID ch)
                 (health_failure (sanitizeDeliveryError e) (perm \<or> IsPermanent (Some e))),
               deadLetter (dv_unwrap env) a ch e k] else []),
      cb_RecordFailure (dv_before env k cb) (dv_recordAt env k),
      if \<not> Retryable (Some e) then Rejected else if dc_MaxAttempts cfg \<le> k then Exhausted else Gone)"
  using assms unfolding fails_at_def failed_effects_def by (subst deliver_loop.simps) (auto simp: Let_def)

lemma deliver_loop_outcome:
  "case deliver_loop cfg env a ch k backoff perm cb of (es, cb', e) \<Rightarrow>
     outcome_ok (dc_MaxAttempts cfg) k a ch es e \<and> e \<notin> {Skipped, Misconfigured}"
proof (induction "nat (dc_MaxAttempts cfg - k)" arbitrary: k backoff perm cb rule: less_induct)
  case less
  consider (gone) "dv_gone env k" | (slot) err full where "\<not> dv_gone env k" "dv_slot env k = Some (err, full)"
    | (sent) "\<not> dv_gone env k" "dv_slot env k = None" "sendWithRecovery (dv_send env k) = None"
    | (stopped) e where "\<not> dv_gone env k" "dv_slot env k = None" "sendWithRecovery (dv_send env k) = Some e" "dv_stopped env k"
    | (failed) e where "fails_at env k e"
    unfolding fails_at_def by (metis not_None_eq surj_pair)
  then show ?case
  proof cases
    case (failed e)
    define cb1 where "cb1 = cb_RecordFailure (dv_before env k cb) (dv_recordAt env k)"
    obtain st cb2 where s: "cb_State (dv_between env k cb1) (dv_checkAt env k) = (st, cb2)" by fastforce
    obtain es cb3 e' where r: "deliver_loop cfg env a ch (k + 1) (wrap64 (backoff * 2)) (perm \<or> IsPermanent (Some e)) cb2 = (es, cb3, e')"
      by (metis prod_cases3)
    consider (final) "\<not> Retryable (Some e) \<or> dc_MaxAttempts cfg \<le> k \<or> dv_ctxDone env k"
      | (stop) "Retryable (Some e)" "k < dc_MaxAttempts cfg" "\<not> dv_ctxDone env k" "st = StateOpen \<or> dv_cancelled env k"
      | (more) "Retryable (Some e)" "k < dc_MaxAttempts cfg" "\<not> dv_ctxDone env k" "st \<noteq> StateOpen" "\<not> dv_cancelled env k"
      by force
    then show ?thesis
    proof cases
      case final
      then show ?thesis by (simp add: deliver_loop_final [OF failed] failed_effects_def outcome_ok_def Let_def)
    next
      case stop
      then show ?thesis
        by (auto simp: deliver_loop_failed [OF failed stop(1-3) s [unfolded cb1_def]] failed_effects_def outcome_ok_def Let_def)
    next
      case more
      have ih: "outcome_ok (dc_MaxAttempts cfg) (k + 1) a ch es e' \<and> e' \<notin> {Skipped, Misconfigured}"
        using less [of "k + 1" "wrap64 (backoff * 2)" "perm \<or> IsPermanent (Some e)" cb2] r more(2) by simp
      then have "outcome_ok (dc_MaxAttempts cfg) k a ch ((failed_effects env a ch e @ [EWait backoff]) @ es) e'"
        by (intro outcome_ok_step [OF _ more(2)]) (auto simp: failed_effects_def)
      then show ?thesis
        using ih more r by (simp add: deliver_loop_failed [OF failed more(1-3) s [unfolded cb1_def]])
    qed
  qed (simp_all add: deliver_loop_ends outcome_ok_nil, simp_all add: outcome_ok_def Let_def)
qed

lemma deliver_cases:
  obtains (gone) "dv_waitErr env" "dv_waitGone env" "deliver cfg env a ch cb = ([], cb, Gone)"
  | (run) allowed cb1 where "cb_Allow (snd (cb_State cb (dv_stateAt env))) (dv_allowAt env) = (allowed, cb1)"
      "deliver cfg env a ch cb =
        (let pre = (if dv_waitErr env then [recordWorkspaceNotification (dv_ctx env) ch ''throttled''] else []);
             rest = (if \<not> allowed then ([], cb1, Skipped)
               else (case dv_factory env of
                 Some e \<Rightarrow> ([record_attempt (al_ID a) (ch_ID ch) DeliveryStatusFailed (sanitizeDeliveryError e),
                     recordHealth (dc_disableAfterFailures cfg) (ch_ID ch) (health_failure (sanitizeDeliveryError e) True),
                     recordWorkspaceNotification (dv_ctx env) ch ''error''], cb_RecordFailure cb1 (dv_configAt env), Misconfigured)
               | None \<Rightarrow> deliver_loop cfg env a ch 1 (dc_BaseBackoff cfg) False cb1))
         in (pre @ fst rest, snd rest))"
proof (cases "dv_waitErr env \<and> dv_waitGone env")
  case True
  then show ?thesis using gone by (simp add: deliver_def)
next
  case False
  obtain allowed cb1 where c: "cb_Allow (snd (cb_State cb (dv_stateAt env))) (dv_allowAt env) = (allowed, cb1)" by fastforce
  show ?thesis
    by (rule run [OF c]) (use False in \<open>auto simp: deliver_def c Let_def split: option.split prod.split\<close>)
qed

lemma outcome_ok_pre:
  "attempts_of pre = [] \<Longrightarrow> deads_of pre = [] \<Longrightarrow> healths_of pre = [] \<Longrightarrow> outcome_ok m k a ch (pre @ es) e = outcome_ok m k a ch es e"
  by (simp add: outcome_ok_def)

text \<open>
  C22. A delivery that comes to an end leaves exactly one outcome behind. Every attempt writes one row for this alert and
  channel, at most \<open>MaxAttempts\<close> of them, all failed but the last of a delivery that succeeded. A success updates the
  channel's health once and leaves no dead letter. A delivery that was rejected, exhausted its attempts or was shed leaves
  one health failure and one dead letter that counts its attempts, all of \<open>MaxAttempts\<close> when they were exhausted. No
  delivery leaves more than one dead letter, or a dead letter and a success. The ends not named here (stopped or cancelled,
  refused or tripped by the breaker, a configuration that builds no notifier) are no outcome in this sense.
\<close>

theorem delivery_leaves_one_outcome:
  assumes "deliver cfg env a ch cb = (es, cb', e)"
  shows "let rows = attempts_of es; n = int (length rows) in
      list_all (\<lambda>d. da_AlertID d = al_ID a \<and> da_ChannelID d = ch_ID ch) rows \<and>
      map da_Status rows = (if e = Delivered then replicate (length rows - 1) DeliveryStatusFailed @ [DeliveryStatusSuccess]
                            else replicate (length rows) DeliveryStatusFailed) \<and>
      n \<le> max 1 (dc_MaxAttempts cfg) \<and>
      (e = Delivered \<longrightarrow> rows \<noteq> [] \<and> deads_of es = [] \<and> map (\<lambda>(i, u). (i, hu_Success u)) (healths_of es) = [(ch_ID ch, True)]) \<and>
      (e \<in> {Rejected, Exhausted, Shed} \<longrightarrow>
         map dl_AttemptCount (deads_of es) = [n] \<and> map (\<lambda>(i, u). (i, hu_Success u)) (healths_of es) = [(ch_ID ch, False)]) \<and>
      (e = Exhausted \<longrightarrow> n = max 1 (dc_MaxAttempts cfg)) \<and>
      length (deads_of es) \<le> 1 \<and>
      list_all (\<lambda>d. dl_AlertID d = al_ID a \<and> dl_ChannelID d = ch_ID ch) (deads_of es)"
proof -
  have "outcome_ok (dc_MaxAttempts cfg) 1 a ch es e"
  proof (cases cfg env a ch cb rule: deliver_cases)
    case gone
    then show ?thesis using assms by (simp add: outcome_ok_nil)
  next
    case (run allowed cb1)
    define pre where "pre = (if dv_waitErr env then [recordWorkspaceNotification (dv_ctx env) ch ''throttled''] else [])"
    have pre: "attempts_of pre = []" "deads_of pre = []" "healths_of pre = []"
      by (simp_all add: pre_def)
    note r = run(2) [folded pre_def, unfolded Let_def] assms
    show ?thesis
    proof (cases "allowed \<and> dv_factory env = None")
      case True
      obtain es' where "deliver_loop cfg env a ch 1 (dc_BaseBackoff cfg) False cb1 = (es', cb', e)" "es = pre @ es'"
        using r True by (cases "deliver_loop cfg env a ch 1 (dc_BaseBackoff cfg) False cb1") auto
      then show ?thesis
        using deliver_loop_outcome [where cfg = cfg and env = env and a = a and ch = ch and k = 1
            and backoff = "dc_BaseBackoff cfg" and perm = False and cb = cb1] pre by (simp add: outcome_ok_pre)
    next
      case False
      show ?thesis
      proof (cases allowed)
        case True
        with False obtain e' where "dv_factory env = Some e'" by auto
        with True show ?thesis using r pre by (auto simp: outcome_ok_pre) (simp add: outcome_ok_def)
      next
        case False
        then show ?thesis using r outcome_ok_pre [OF pre, where es = "[]"] outcome_ok_nil [of Skipped] by auto
      qed
    qed
  qed
  then show ?thesis unfolding outcome_ok_def Let_def by (auto dest: arg_cong [where f = length])
qed

definition send_500 :: send_err where
  "send_500 = \<lparr>se_chain = [StatusError 500], se_text = ''status 500: token=abc''\<rparr>"

definition demo_env :: delivery_env where
  "demo_env = \<lparr>dv_ctx = \<lparr>ctx_workspace = None, ctx_system = True\<rparr>, dv_waitErr = False, dv_waitGone = False, dv_factory = None,
     dv_unwrap = (\<lambda>e. None), dv_stateAt = 0, dv_allowAt = 0, dv_configAt = 0, dv_gone = (\<lambda>k. False), dv_slot = (\<lambda>k. None),
     dv_slotGone = (\<lambda>k. False), dv_send = (\<lambda>k. if k < 3 then SendError send_500 else Sent), dv_stopped = (\<lambda>k. False),
     dv_before = (\<lambda>k cb. cb), dv_recordAt = (\<lambda>k. k), dv_between = (\<lambda>k cb. cb), dv_checkAt = (\<lambda>k. k),
     dv_ctxDone = (\<lambda>k. False), dv_cancelled = (\<lambda>k. False)\<rparr>"

definition demo_cfg :: delivery_cfg where
  "demo_cfg = \<lparr>dc_MaxAttempts = 3, dc_BaseBackoff = second, dc_disableAfterFailures = 0\<rparr>"

definition demo_breaker :: channel_breaker where
  "demo_breaker = NewChannelBreaker 3 (30 * second) 0"

lemma send_500_retryable: "Retryable (Some send_500)" "\<not> IsPermanent (Some send_500)"
  by (simp_all add: send_500_def Retryable_def retryableStatus_def IsPermanent_def ClassifyOutcome_def classifyHTTPStatus_def)

theorem delivery_leaves_one_outcome_witness:
  "map da_Status (attempts_of (fst (deliver demo_cfg demo_env alert0 channel0 demo_breaker))) = [''failed'', ''failed'', ''success''] \<and>
   list_all (\<lambda>d. da_AlertID d = 0 \<and> da_ChannelID d = 0) (attempts_of (fst (deliver demo_cfg demo_env alert0 channel0 demo_breaker)))"
proof -
  obtain es cb' where d: "deliver demo_cfg demo_env alert0 channel0 demo_breaker = (es, cb', Delivered)" and n: "length (attempts_of es) = 3"
    by (simp add: deliver_def demo_cfg_def demo_env_def demo_breaker_def cb_State_def cb_Allow_def NewChannelBreaker_def
        deliver_loop.simps sendWithRecovery_def send_500_retryable cb_RecordFailure_def Let_def eval_nat_numeral)
  show ?thesis
    using delivery_leaves_one_outcome [OF d] n unfolding d
    by (simp add: Let_def DeliveryStatusFailed_def DeliveryStatusSuccess_def alert0_def channel0_def eval_nat_numeral)
qed

subsection \<open>Pauses\<close>

lemma waits_failed_effects [simp]: "waits_of (failed_effects env a ch e) = []"
  by (simp add: failed_effects_def)

lemma deliver_loop_waits:
  assumes "0 \<le> backoff" and "backoff * 2 ^ nat (dc_MaxAttempts cfg - k) \<le> max_i64"
  shows "\<exists>n. waits_of (fst (deliver_loop cfg env a ch k backoff perm cb)) = map (\<lambda>i. backoff * 2 ^ i) [0..<n] \<and>
     n \<le> nat (dc_MaxAttempts cfg - k)"
  using assms
proof (induction "nat (dc_MaxAttempts cfg - k)" arbitrary: k backoff perm cb rule: less_induct)
  case less
  show ?case
  proof (cases "\<exists>e. fails_at env k e")
    case False
    then consider "dv_gone env k" | err full where "\<not> dv_gone env k" "dv_slot env k = Some (err, full)"
      | "\<not> dv_gone env k" "dv_slot env k = None" "sendWithRecovery (dv_send env k) = None"
      | e where "\<not> dv_gone env k" "dv_slot env k = None" "sendWithRecovery (dv_send env k) = Some e" "dv_stopped env k"
      unfolding fails_at_def by (metis not_None_eq surj_pair)
    then show ?thesis by cases (simp_all add: deliver_loop_ends exI [of _ 0])
  next
    case True
    then obtain e where f: "fails_at env k e" ..
    obtain st cb2 where s: "cb_State (dv_between env k (cb_RecordFailure (dv_before env k cb) (dv_recordAt env k))) (dv_checkAt env k) = (st, cb2)"
      by fastforce
    show ?thesis
    proof (cases "Retryable (Some e) \<and> k < dc_MaxAttempts cfg \<and> \<not> dv_ctxDone env k")
      case False
      then show ?thesis by (intro exI [of _ 0]) (auto simp: deliver_loop_final [OF f])
    next
      case True
      define m where "m = nat (dc_MaxAttempts cfg - (k + 1))"
      have m: "nat (dc_MaxAttempts cfg - k) = Suc m" using True unfolding m_def by linarith
      have b: "backoff * 2 * 2 ^ m \<le> max_i64" using less.prems(2) by (simp add: m mult.assoc)
      have "backoff * 2 \<le> backoff * 2 * 2 ^ m" using less.prems(1) by (simp add: mult_le_cancel_left1)
      then have w: "wrap64 (backoff * 2) = backoff * 2"
        using b less.prems(1) by (intro wrap64_id) (auto simp: i64_defs)
      obtain n where n: "waits_of (fst (deliver_loop cfg env a ch (k + 1) (backoff * 2) (perm \<or> IsPermanent (Some e)) cb2)) =
          map (\<lambda>i. backoff * 2 * 2 ^ i) [0..<n]" "n \<le> m"
        using less.hyps [of "k + 1" "backoff * 2" "perm \<or> IsPermanent (Some e)" cb2] m b less.prems(1) by (auto simp: m_def)
      have "backoff # map (\<lambda>i. backoff * 2 * 2 ^ i) [0..<n] = map (\<lambda>i. backoff * 2 ^ i) [0..<Suc n]"
        by (simp add: upt_conv_Cons map_Suc_upt [symmetric] mult.assoc del: upt_Suc)
      moreover have "[backoff] = map (\<lambda>i. backoff * 2 ^ i) [0..<1]" by simp
      ultimately show ?thesis
        unfolding deliver_loop_failed [OF f conjunct1 [OF True] conjunct1 [OF conjunct2 [OF True]] conjunct2 [OF conjunct2 [OF True]] s] w
        using n m by (auto simp: fst_def split: prod.splits if_splits intro: exI [of _ 0] exI [of _ 1] exI [of _ "Suc n"])
    qed
  qed
qed

text \<open>
  The pauses between the attempts of a delivery start at \<open>BaseBackoff\<close> and double, and there are fewer of them than attempts
  allowed, as long as the longest fits the 64-bit duration.
\<close>

theorem delivery_pauses_double:
  assumes "0 \<le> dc_BaseBackoff cfg" and "dc_BaseBackoff cfg * 2 ^ nat (dc_MaxAttempts cfg - 1) \<le> max_i64"
  shows "\<exists>n. waits_of (fst (deliver cfg env a ch cb)) = map (\<lambda>i. dc_BaseBackoff cfg * 2 ^ i) [0..<n] \<and>
     int n < max 1 (dc_MaxAttempts cfg)"
proof (cases cfg env a ch cb rule: deliver_cases)
  case gone
  then show ?thesis by (simp add: exI [of _ 0])
next
  case (run allowed cb1)
  obtain n where n: "waits_of (fst (deliver_loop cfg env a ch 1 (dc_BaseBackoff cfg) False cb1)) = map (\<lambda>i. dc_BaseBackoff cfg * 2 ^ i) [0..<n]"
      "n \<le> nat (dc_MaxAttempts cfg - 1)"
    using deliver_loop_waits [OF assms] by blast
  have "int n < max 1 (dc_MaxAttempts cfg)" using n(2) by linarith
  moreover have "\<exists>n. [] = map (\<lambda>i. dc_BaseBackoff cfg * 2 ^ i) [0..<n] \<and> int n < max 1 (dc_MaxAttempts cfg)"
    by (rule exI [of _ 0]) simp
  ultimately show ?thesis
    using n(1) unfolding run(2) by (auto simp: Let_def split: option.split)
qed

theorem delivery_pauses_double_witness:
  "\<exists>n. waits_of (fst (deliver demo_cfg demo_env alert0 channel0 demo_breaker)) = map (\<lambda>i. second * 2 ^ i) [0..<n] \<and> int n < 3"
proof -
  have "0 \<le> dc_BaseBackoff demo_cfg" "dc_BaseBackoff demo_cfg * 2 ^ nat (dc_MaxAttempts demo_cfg - 1) \<le> max_i64"
    by (simp_all add: demo_cfg_def second_def max_i64_def)
  from delivery_pauses_double [OF this, of demo_env alert0 channel0 demo_breaker] show ?thesis
    by (simp add: demo_cfg_def)
qed

subsection \<open>Answers that end a delivery\<close>

text \<open>
  A destination that rejects the request itself (a 4xx answer other than 408, 425 and 429, so also 401, 403 and 404) ends the
  delivery at once, however many attempts are left: one failed row for that attempt, one health update that is permanent for 401, 403
  and 404, and one dead letter with the status.
\<close>

theorem rejected_delivery_is_not_retried:
  assumes f: "fails_at env k e" and s: "as_http (se_chain e) = None" "as_status (se_chain e) = Some code"
    and code: "400 \<le> code" "code < 500" "code \<notin> {408, 425, 429}"
  shows "deliver_loop cfg env a ch k backoff permanent cb =
     (failed_effects env a ch e @
        [recordHealth (dc_disableAfterFailures cfg) (ch_ID ch)
           (health_failure (sanitizeDeliveryError e) (permanent \<or> code \<in> {401, 403, 404})),
         EDead \<lparr>dl_AlertID = al_ID a, dl_ChannelID = ch_ID ch, dl_LastError = sanitizeDeliveryError (redactURLError (dv_unwrap env) e),
                dl_AttemptCount = k, dl_LastStatus = code\<rparr>],
      cb_RecordFailure (dv_before env k cb) (dv_recordAt env k), Rejected)"
proof -
  have r: "\<not> Retryable (Some e)" using s code by (auto simp: Retryable_def retryableStatus_def)
  have p: "IsPermanent (Some e) \<longleftrightarrow> code \<in> {401, 403, 404}"
    using s code by (auto simp: IsPermanent_def ClassifyOutcome_def classifyHTTPStatus_def Let_def)
  show ?thesis
    using r p s(2) by (simp add: deliver_loop_final [OF f] deadLetter_def)
qed

definition send_404 :: send_err where
  "send_404 = \<lparr>se_chain = [StatusError 404], se_text = ''status 404: gone''\<rparr>"

theorem rejected_delivery_is_not_retried_witness:
  "snd (snd (deliver_loop demo_cfg (demo_env\<lparr>dv_send := \<lambda>k. SendError send_404\<rparr>) alert0 channel0 1 second False demo_breaker)) = Rejected"
proof -
  have f: "fails_at (demo_env\<lparr>dv_send := \<lambda>k. SendError send_404\<rparr>) 1 send_404"
    by (simp add: fails_at_def demo_env_def sendWithRecovery_def)
  have s: "as_http (se_chain send_404) = None" "as_status (se_chain send_404) = Some 404" by (simp_all add: send_404_def)
  show ?thesis by (subst rejected_delivery_is_not_retried [OF f s]) simp_all
qed

subsection \<open>The breaker trips during a delivery\<close>

lemma cb_State_stays_open:
  "cb_state cb = StateOpen \<Longrightarrow> time_sub t (cb_lastStateChange cb) < cb_cooldown cb \<Longrightarrow> cb_State cb t = (StateOpen, cb)"
  by (simp add: cb_State_def)

lemma cb_State_closed: "cb_state cb = StateClosed \<Longrightarrow> cb_State cb t = (StateClosed, cb)"
  by (simp add: cb_State_def)

text \<open>Every attempt fails in a way that is retried, nobody interferes, and the breaker is looked at within its cooldown.\<close>

definition keeps_failing :: "delivery_env \<Rightarrow> duration \<Rightarrow> bool" where
  "keeps_failing env cooldown \<longleftrightarrow>
     (\<forall>k. (\<exists>e. fails_at env k e \<and> Retryable (Some e)) \<and> \<not> dv_ctxDone env k \<and> \<not> dv_cancelled env k \<and>
          (\<forall>cb. dv_before env k cb = cb \<and> dv_between env k cb = cb) \<and>
          time_sub (dv_checkAt env k) (dv_recordAt env k) < cooldown)"

lemma failing_delivery_trips:
  assumes "keeps_failing env (cb_cooldown cb)" and "cb_state cb = StateClosed"
    and "cb_failures cb + 1 + int n = cb_consecutiveLimit cb" and "k + int n < dc_MaxAttempts cfg"
  shows "case deliver_loop cfg env a ch k backoff perm cb of (es, cb', e) \<Rightarrow>
     e = Tripped \<and> deads_of es = [] \<and> healths_of es = [] \<and> map da_Status (attempts_of es) = replicate (Suc n) DeliveryStatusFailed"
  using assms
proof (induction n arbitrary: k backoff perm cb)
  case 0
  obtain e where f: "fails_at env k e" "Retryable (Some e)" using "0.prems"(1) by (auto simp: keeps_failing_def)
  let ?cb1 = "cb\<lparr>cb_failures := cb_failures cb + 1, cb_state := StateOpen, cb_lastStateChange := dv_recordAt env k\<rparr>"
  have "cb_RecordFailure cb (dv_recordAt env k) = ?cb1" using "0.prems"(2,3) by (simp add: cb_RecordFailure_def Let_def)
  moreover have "cb_State ?cb1 (dv_checkAt env k) = (StateOpen, ?cb1)"
    using "0.prems"(1) by (intro cb_State_stays_open) (auto simp: keeps_failing_def)
  ultimately have "cb_State (dv_between env k (cb_RecordFailure (dv_before env k cb) (dv_recordAt env k))) (dv_checkAt env k) = (StateOpen, ?cb1)"
    using "0.prems"(1) by (simp add: keeps_failing_def)
  from deliver_loop_failed [OF f _ _ this] show ?case
    using "0.prems"(1,4) by (simp add: keeps_failing_def failed_effects_def)
next
  case (Suc n)
  obtain e where f: "fails_at env k e" "Retryable (Some e)" using Suc.prems(1) by (auto simp: keeps_failing_def)
  let ?cb1 = "cb\<lparr>cb_failures := cb_failures cb + 1\<rparr>"
  have "cb_RecordFailure cb (dv_recordAt env k) = ?cb1" using Suc.prems(2,3) by (simp add: cb_RecordFailure_def Let_def)
  moreover have "cb_State ?cb1 (dv_checkAt env k) = (StateClosed, ?cb1)" using Suc.prems(2) by (simp add: cb_State_closed)
  ultimately have s: "cb_State (dv_between env k (cb_RecordFailure (dv_before env k cb) (dv_recordAt env k))) (dv_checkAt env k) = (StateClosed, ?cb1)"
    using Suc.prems(1) by (simp add: keeps_failing_def)
  have c: "k < dc_MaxAttempts cfg" "\<not> dv_ctxDone env k" "\<not> dv_cancelled env k"
    using Suc.prems(1,4) by (auto simp: keeps_failing_def)
  have "case deliver_loop cfg env a ch (k + 1) (wrap64 (backoff * 2)) (perm \<or> IsPermanent (Some e)) ?cb1 of (es, cb', e) \<Rightarrow>
     e = Tripped \<and> deads_of es = [] \<and> healths_of es = [] \<and> map da_Status (attempts_of es) = replicate (Suc n) DeliveryStatusFailed"
    using Suc.prems by (intro Suc.IH) auto
  then show ?case
    using c unfolding deliver_loop_failed [OF f c(1,2) s] by (auto simp: failed_effects_def split: prod.splits)
qed

text \<open>
  A delivery that keeps failing on a channel that has failed before leaves no dead letter: when the breaker's limit is reached before
  the last attempt, the loop returns after that attempt with only failed rows, no dead letter and no health update, and nothing will
  deliver the alert later.
\<close>

theorem tripped_delivery_leaves_no_dead_letter:
  assumes fail: "keeps_failing env (cb_cooldown cb)" and ok: "\<not> dv_waitErr env" "dv_factory env = None"
    and closed: "cb_state cb = StateClosed" "cb_failures cb < cb_consecutiveLimit cb"
    and before: "cb_consecutiveLimit cb - cb_failures cb < dc_MaxAttempts cfg"
  shows "case deliver cfg env a ch cb of (es, cb', e) \<Rightarrow> e = Tripped \<and> deads_of es = [] \<and> healths_of es = [] \<and>
     map da_Status (attempts_of es) = replicate (nat (cb_consecutiveLimit cb - cb_failures cb)) DeliveryStatusFailed"
proof -
  define n where "n = nat (cb_consecutiveLimit cb - cb_failures cb - 1)"
  have n: "cb_failures cb + 1 + int n = cb_consecutiveLimit cb" "Suc n = nat (cb_consecutiveLimit cb - cb_failures cb)"
    using closed(2) unfolding n_def by linarith+
  have "deliver cfg env a ch cb = deliver_loop cfg env a ch 1 (dc_BaseBackoff cfg) False cb"
    using ok closed(1) by (simp add: deliver_def cb_State_def cb_Allow_def split: prod.split)
  then show ?thesis
    using failing_delivery_trips [OF fail closed(1) n(1), of 1 cfg a ch "dc_BaseBackoff cfg" False] before n by simp
qed

theorem tripped_delivery_leaves_no_dead_letter_witness:
  "case deliver demo_cfg (demo_env\<lparr>dv_send := \<lambda>k. SendError send_500\<rparr>) alert0 channel0 (demo_breaker\<lparr>cb_failures := 1\<rparr>) of (es, cb', e) \<Rightarrow>
     e = Tripped \<and> deads_of es = [] \<and> map da_Status (attempts_of es) = [DeliveryStatusFailed, DeliveryStatusFailed]"
proof -
  let ?env = "demo_env\<lparr>dv_send := \<lambda>k. SendError send_500\<rparr>" and ?cb = "demo_breaker\<lparr>cb_failures := 1\<rparr>"
  have b: "cb_cooldown ?cb = 30000000000" "cb_state ?cb = StateClosed" "cb_consecutiveLimit ?cb = 3" "cb_failures ?cb = 1"
    by (simp_all add: demo_breaker_def NewChannelBreaker_def second_def)
  have k: "keeps_failing ?env (cb_cooldown ?cb)"
    using send_500_retryable(1) unfolding b keeps_failing_def
    by (auto simp: demo_env_def fails_at_def sendWithRecovery_def time_sub_def i64_defs)
  have "case deliver demo_cfg ?env alert0 channel0 ?cb of (es, cb', e) \<Rightarrow> e = Tripped \<and> deads_of es = [] \<and> healths_of es = [] \<and>
     map da_Status (attempts_of es) = replicate (nat (cb_consecutiveLimit ?cb - cb_failures ?cb)) DeliveryStatusFailed"
    by (rule tripped_delivery_leaves_no_dead_letter [OF k]) (simp_all add: b, simp_all add: demo_env_def demo_cfg_def)
  then show ?thesis by (auto simp: b eval_nat_numeral split: prod.splits)
qed

end
