(* ===== verification/Delivery_Control.thy ===== *)
theory Delivery_Control
  imports Delivery
begin

text \<open>
  The dispatcher's controls in \<open>internal/notify/dispatcher.go\<close>: stopping and resuming a workspace with the register of
  active deliveries, the gate of manual retries, the retry itself and the redrive of dead letters; and the channel row update
  \<open>RecordChannelHealth\<close> of \<open>internal/store/postgres.go\<close> that health updates end in. The critical sections under
  \<open>stopMu\<close> are single steps. \<open>Retry\<close> and \<open>RedriveDeadLetter\<close> send without entering their delivery in the register, so what is
  shown of a stopped workspace is about registered deliveries.
\<close>

subsection \<open>Stopping a workspace\<close>

record activeDelivery =
  ad_workspaceID :: string
  ad_channelID :: int

text \<open>\<open>ds_cancelled\<close> collects the deliveries whose \<open>cancel\<close> was called.\<close>

record dispatcher =
  ds_stoppedWorkspaces :: "string set"
  ds_stoppedChannels :: "int set"
  ds_activeSeq :: nat
  ds_activeDeliveries :: "(nat \<times> activeDelivery) list"
  ds_cancelled :: "nat set"
  ds_fairness :: FairnessScheduler
  ds_registry :: breaker_registry
  ds_limiters :: "int set"

definition NewDispatcher :: dispatcher where
  "NewDispatcher = \<lparr>ds_stoppedWorkspaces = {}, ds_stoppedChannels = {}, ds_activeSeq = 0, ds_activeDeliveries = [],
     ds_cancelled = {},
     ds_fairness = NewFairnessScheduler
       \<lparr>fc_MaxWorkspaceInFlight = 0, fc_MaxWorkspaceQueue = 0, fc_MaxWorkspaceRetryInFlight = 0, fc_MaxWorkspaceRetryQueue = 0,
        fc_MaxChannelInFlight = 0, fc_MaxChannelQueue = 0, fc_AsyncDispatch = False\<rparr>,
     ds_registry = NewBreakerRegistry 3 (30 * second), ds_limiters = {}\<rparr>"

definition isWorkspaceStopped :: "dispatcher \<Rightarrow> string \<Rightarrow> bool" where
  "isWorkspaceStopped d wsID = (normalizeWorkspaceID wsID \<in> ds_stoppedWorkspaces d)"

definition isChannelStopped :: "dispatcher \<Rightarrow> int \<Rightarrow> bool" where
  "isChannelStopped d channelID = (if channelID \<le> 0 then False else channelID \<in> ds_stoppedChannels d)"

definition beginActiveDelivery :: "dispatcher \<Rightarrow> string \<Rightarrow> int \<Rightarrow> nat option \<times> dispatcher" where
  "beginActiveDelivery d wsID channelID =
     (let ws = normalizeWorkspaceID wsID in
      if ws \<in> ds_stoppedWorkspaces d then (None, d)
      else if channelID \<in> ds_stoppedChannels d then (None, d)
      else (let seq = (ds_activeSeq d + 1) mod 2 ^ 64 in
            (Some seq, d\<lparr>ds_activeSeq := seq,
               ds_activeDeliveries := (seq, \<lparr>ad_workspaceID = ws, ad_channelID = channelID\<rparr>) #
                  filter (\<lambda>(s, ad). s \<noteq> seq) (ds_activeDeliveries d)\<rparr>)))"

definition endActive :: "dispatcher \<Rightarrow> nat \<Rightarrow> dispatcher" where
  "endActive d seq =
     d\<lparr>ds_cancelled := insert seq (ds_cancelled d),
       ds_activeDeliveries := filter (\<lambda>(s, ad). s \<noteq> seq) (ds_activeDeliveries d)\<rparr>"

definition hit :: "string \<Rightarrow> int list \<Rightarrow> nat \<times> activeDelivery \<Rightarrow> bool" where
  "hit ws channelIDs = (\<lambda>(s, ad). ad_workspaceID ad = ws \<or> ad_channelID ad \<in> set channelIDs)"

text \<open>The result: deliveries cancelled and submissions dropped. Invalidating the secret cache has no effect on the rest.\<close>

definition StopWorkspace :: "dispatcher \<Rightarrow> string \<Rightarrow> int list \<Rightarrow> (nat \<times> nat) \<times> dispatcher" where
  "StopWorkspace d wsID channelIDs =
     (let ws = normalizeWorkspaceID wsID;
          cancels = filter (hit ws channelIDs) (ds_activeDeliveries d);
          ((dropped, _), fair) = fs_StopWorkspace (ds_fairness d) ws channelIDs
      in ((length cancels, dropped),
          d\<lparr>ds_stoppedWorkspaces := insert ws (ds_stoppedWorkspaces d),
            ds_stoppedChannels := set channelIDs \<union> ds_stoppedChannels d,
            ds_activeDeliveries := filter (\<lambda>e. \<not> hit ws channelIDs e) (ds_activeDeliveries d),
            ds_cancelled := fst ` set cancels \<union> ds_cancelled d,
            ds_fairness := fair,
            ds_registry := foldl br_Remove (ds_registry d) channelIDs,
            ds_limiters := ds_limiters d - set channelIDs\<rparr>))"

definition ResumeWorkspace :: "dispatcher \<Rightarrow> string \<Rightarrow> dispatcher" where
  "ResumeWorkspace d wsID = d\<lparr>ds_stoppedWorkspaces := ds_stoppedWorkspaces d - {normalizeWorkspaceID wsID}\<rparr>"

datatype control_op = CBegin string int | CEnd nat | CStop string "int list" | CResume string

fun control_step :: "dispatcher \<Rightarrow> control_op \<Rightarrow> dispatcher" where
  "control_step d (CBegin ws ch) = snd (beginActiveDelivery d ws ch)"
| "control_step d (CEnd seq) = endActive d seq"
| "control_step d (CStop ws chs) = snd (StopWorkspace d ws chs)"
| "control_step d (CResume ws) = ResumeWorkspace d ws"

definition control_run :: "dispatcher \<Rightarrow> control_op list \<Rightarrow> dispatcher" where
  "control_run d ops = foldl control_step d ops"

lemma control_run_simps [simp]:
  "control_run d [] = d" "control_run d (o' # ops) = control_run (control_step d o') ops"
  "control_run d (xs @ ys) = control_run (control_run d xs) ys"
  by (simp_all add: control_run_def)

lemma StopWorkspace_sel:
  "ds_stoppedWorkspaces (snd (StopWorkspace d ws chs)) = insert (normalizeWorkspaceID ws) (ds_stoppedWorkspaces d)"
  "ds_stoppedChannels (snd (StopWorkspace d ws chs)) = set chs \<union> ds_stoppedChannels d"
  "ds_activeDeliveries (snd (StopWorkspace d ws chs)) = filter (\<lambda>e. \<not> hit (normalizeWorkspaceID ws) chs e) (ds_activeDeliveries d)"
  "ds_cancelled (snd (StopWorkspace d ws chs)) =
     fst ` set (filter (hit (normalizeWorkspaceID ws) chs) (ds_activeDeliveries d)) \<union> ds_cancelled d"
  "ds_activeSeq (snd (StopWorkspace d ws chs)) = ds_activeSeq d"
  "ds_registry (snd (StopWorkspace d ws chs)) = foldl br_Remove (ds_registry d) chs"
  "fst (fst (StopWorkspace d ws chs)) = length (filter (hit (normalizeWorkspaceID ws) chs) (ds_activeDeliveries d))"
  by (simp_all add: StopWorkspace_def Let_def split: prod.split)

text \<open>Nothing stopped is active, and every delivery ever begun is active or was cancelled.\<close>

definition control_inv :: "dispatcher \<Rightarrow> bool" where
  "control_inv d \<longleftrightarrow>
     (\<forall>s ad. (s, ad) \<in> set (ds_activeDeliveries d) \<longrightarrow>
        ad_workspaceID ad \<notin> ds_stoppedWorkspaces d \<and> ad_channelID ad \<notin> ds_stoppedChannels d \<and> s \<le> ds_activeSeq d) \<and>
     (\<forall>s. 1 \<le> s \<and> s \<le> ds_activeSeq d \<longrightarrow> s \<in> fst ` set (ds_activeDeliveries d) \<union> ds_cancelled d)"

lemma control_inv_begin:
  assumes inv: "control_inv d" and room: "ds_activeSeq d + 1 < 2 ^ 64"
  shows "control_inv (snd (beginActiveDelivery d ws ch))"
proof (cases "normalizeWorkspaceID ws \<in> ds_stoppedWorkspaces d \<or> ch \<in> ds_stoppedChannels d")
  case True
  then show ?thesis using inv by (auto simp: beginActiveDelivery_def Let_def)
next
  case False
  define seq where "seq = ds_activeSeq d + 1"
  have s: "(ds_activeSeq d + 1) mod 2 ^ 64 = seq" using room by (simp add: seq_def)
  have f: "filter (\<lambda>(s, ad). s \<noteq> seq) (ds_activeDeliveries d) = ds_activeDeliveries d"
    using inv by (intro filter_True) (fastforce simp: control_inv_def seq_def)
  have e: "snd (beginActiveDelivery d ws ch) = d\<lparr>ds_activeSeq := seq,
      ds_activeDeliveries := (seq, \<lparr>ad_workspaceID = normalizeWorkspaceID ws, ad_channelID = ch\<rparr>) # ds_activeDeliveries d\<rparr>"
    using False unfolding beginActiveDelivery_def s f by (simp add: Let_def s f)
  have le: "t \<le> seq \<longleftrightarrow> t = seq \<or> t \<le> ds_activeSeq d" for t by (auto simp: seq_def)
  show ?thesis
    using inv False unfolding e control_inv_def by (auto simp: le)
qed

lemma control_inv_end: "control_inv d \<Longrightarrow> control_inv (endActive d seq)"
  unfolding control_inv_def endActive_def by auto force

lemma control_inv_stop: "control_inv d \<Longrightarrow> control_inv (snd (StopWorkspace d ws chs))"
  unfolding control_inv_def StopWorkspace_sel by (auto simp: hit_def) force

lemma control_inv_resume: "control_inv d \<Longrightarrow> control_inv (ResumeWorkspace d ws)"
  by (auto simp: control_inv_def ResumeWorkspace_def)

lemma activeSeq_step: "ds_activeSeq (control_step d op) \<le> ds_activeSeq d + 1"
  by (cases op) (auto simp: beginActiveDelivery_def endActive_def StopWorkspace_sel ResumeWorkspace_def Let_def intro: mod_less_eq_dividend)

lemma control_inv_run:
  "control_inv d \<Longrightarrow> ds_activeSeq d + length ops < 2 ^ 64 \<Longrightarrow>
   control_inv (control_run d ops) \<and> ds_activeSeq (control_run d ops) \<le> ds_activeSeq d + length ops"
proof (induction ops arbitrary: d)
  case (Cons op ops)
  have "control_inv (control_step d op)"
    using Cons.prems by (cases op) (auto intro: control_inv_begin control_inv_end control_inv_stop control_inv_resume)
  then show ?case
    using Cons.IH [of "control_step d op"] Cons.prems(2) activeSeq_step [of d op] by simp
qed simp

lemma control_inv_new: "control_inv NewDispatcher"
  by (simp add: control_inv_def NewDispatcher_def)

lemma stoppedChannels_step: "ds_stoppedChannels d \<subseteq> ds_stoppedChannels (control_step d op)"
  by (cases op) (auto simp: beginActiveDelivery_def endActive_def StopWorkspace_sel ResumeWorkspace_def Let_def)

lemma stoppedChannels_run: "ds_stoppedChannels d \<subseteq> ds_stoppedChannels (control_run d ops)"
  by (induction ops arbitrary: d) (use stoppedChannels_step in \<open>auto, blast\<close>)

lemma stoppedWorkspaces_step:
  "w \<in> ds_stoppedWorkspaces d \<Longrightarrow> (\<And>r. op = CResume r \<Longrightarrow> normalizeWorkspaceID r \<noteq> w) \<Longrightarrow> w \<in> ds_stoppedWorkspaces (control_step d op)"
  by (cases op) (auto simp: beginActiveDelivery_def endActive_def StopWorkspace_sel ResumeWorkspace_def Let_def)

lemma stoppedWorkspaces_run:
  "w \<in> ds_stoppedWorkspaces d \<Longrightarrow> (\<And>r. CResume r \<in> set ops \<Longrightarrow> normalizeWorkspaceID r \<noteq> w) \<Longrightarrow>
   w \<in> ds_stoppedWorkspaces (control_run d ops)"
proof (induction ops arbitrary: d)
  case (Cons op ops)
  have "w \<in> ds_stoppedWorkspaces (control_step d op)"
    using Cons.prems by (intro stoppedWorkspaces_step) auto
  then show ?case using Cons by simp
qed simp

text \<open>
  C35. Stopping a workspace is final until it is resumed: whatever deliveries begin, end and are stopped before and after, right after the stop
  every delivery of the workspace or of its channels has been cancelled, later none of them is active and none can begin, and for the
  stopped channels this holds even after the workspace is resumed.
\<close>

theorem stopped_workspace_stays_silent:
  fixes ws :: string and chs :: "int list" and earlier later :: "control_op list"
  assumes len: "length earlier + length later < 2 ^ 64"
  defines "d \<equiv> control_run NewDispatcher earlier"
  defines "d1 \<equiv> snd (StopWorkspace d ws chs)"
  defines "d2 \<equiv> control_run d1 later"
  shows "(\<forall>s ad. (s, ad) \<in> set (ds_activeDeliveries d) \<and> (ad_workspaceID ad = normalizeWorkspaceID ws \<or> ad_channelID ad \<in> set chs) \<longrightarrow>
            s \<in> ds_cancelled d1) \<and>
         (\<forall>ch ws'. ch \<in> set chs \<longrightarrow> ch \<notin> ad_channelID ` snd ` set (ds_activeDeliveries d2) \<and> fst (beginActiveDelivery d2 ws' ch) = None) \<and>
         ((\<forall>r. CResume r \<in> set later \<longrightarrow> normalizeWorkspaceID r \<noteq> normalizeWorkspaceID ws) \<longrightarrow>
            normalizeWorkspaceID ws \<notin> ad_workspaceID ` snd ` set (ds_activeDeliveries d2) \<and> (\<forall>ch. fst (beginActiveDelivery d2 ws ch) = None))"
proof -
  have d: "control_inv d" "ds_activeSeq d \<le> length earlier"
    using control_inv_run [OF control_inv_new, of earlier] len by (auto simp: d_def NewDispatcher_def)
  have d1: "control_inv d1" "ds_activeSeq d1 = ds_activeSeq d" "set chs \<subseteq> ds_stoppedChannels d1"
      "normalizeWorkspaceID ws \<in> ds_stoppedWorkspaces d1"
    using control_inv_stop [OF d(1)] by (auto simp: d1_def StopWorkspace_sel)
  have d2: "control_inv d2" unfolding d2_def using control_inv_run [OF d1(1), of later] d1(2) d(2) len by simp
  have ch: "set chs \<subseteq> ds_stoppedChannels d2"
    using stoppedChannels_run [of d1 later] d1(3) by (auto simp: d2_def)
  have "s \<in> ds_cancelled d1" if "(s, ad) \<in> set (ds_activeDeliveries d)"
      "ad_workspaceID ad = normalizeWorkspaceID ws \<or> ad_channelID ad \<in> set chs" for s ad
    using that by (force simp: d1_def StopWorkspace_sel hit_def)
  moreover have "c \<notin> ad_channelID ` snd ` set (ds_activeDeliveries d2) \<and> fst (beginActiveDelivery d2 ws' c) = None"
    if "c \<in> set chs" for c ws'
    using that ch d2 by (auto simp: control_inv_def beginActiveDelivery_def Let_def)
  moreover have "normalizeWorkspaceID ws \<notin> ad_workspaceID ` snd ` set (ds_activeDeliveries d2) \<and> fst (beginActiveDelivery d2 ws c) = None"
    if "\<forall>r. CResume r \<in> set later \<longrightarrow> normalizeWorkspaceID r \<noteq> normalizeWorkspaceID ws" for c
  proof -
    have "normalizeWorkspaceID ws \<in> ds_stoppedWorkspaces d2"
      unfolding d2_def using stoppedWorkspaces_run [OF d1(4)] that by blast
    then show ?thesis using d2 by (auto simp: control_inv_def beginActiveDelivery_def Let_def)
  qed
  ultimately show ?thesis by blast
qed

theorem stopped_workspace_stays_silent_witness:
  "fst (beginActiveDelivery (control_run (snd (StopWorkspace (control_run NewDispatcher [CBegin ''acme'' 7, CBegin ''beta'' 8]) '' acme '' [7]))
     [CBegin ''acme'' 9, CResume ''acme'', CBegin ''acme'' 7]) ''acme'' 7) = None"
proof -
  have "length [CBegin ''acme'' 7, CBegin ''beta'' 8] + length [CBegin ''acme'' 9, CResume ''acme'', CBegin ''acme'' 7] < 2 ^ 64" by simp
  from stopped_workspace_stays_silent [OF this, of "'' acme ''" "[7]"] show ?thesis by (simp del: control_run_simps)
qed

subsection \<open>Manual retries\<close>

datatype retry_err = ErrAlreadySucceeded | ErrChannelDisabled | ErrNoAttempt | ErrRetryCooldown

definition DefaultRetryCooldown :: duration where "DefaultRetryCooldown = 30 * second"

text \<open>The loop of \<open>GateRetry\<close>: whether a row of the channel was seen, and the newest of them so far; \<open>None\<close> when one succeeded.\<close>

fun gate_loop :: "int \<Rightarrow> DeliveryAttempt list \<Rightarrow> DeliveryAttempt option \<Rightarrow> DeliveryAttempt option option" where
  "gate_loop channelID [] lst = Some lst"
| "gate_loop channelID (d # ds) lst =
     (if da_ChannelID d \<noteq> channelID then gate_loop channelID ds lst
      else if da_Status d = ''success'' then None
      else gate_loop channelID ds
             (case lst of None \<Rightarrow> Some d | Some l \<Rightarrow> if da_AttemptedAt l < da_AttemptedAt d then Some d else Some l))"

definition GateRetry :: "DeliveryAttempt list \<Rightarrow> int \<Rightarrow> channel \<Rightarrow> gtime \<Rightarrow> duration \<Rightarrow> retry_err option" where
  "GateRetry attempts channelID ch now cooldown =
     (if \<not> ch_Enabled ch then Some ErrChannelDisabled
      else (case gate_loop channelID attempts None of
        None \<Rightarrow> Some ErrAlreadySucceeded
      | Some None \<Rightarrow> Some ErrNoAttempt
      | Some (Some lst) \<Rightarrow>
          (if 0 < cooldown \<and> da_AttemptedAt lst \<noteq> 0 \<and> time_sub now (da_AttemptedAt lst) < cooldown then Some ErrRetryCooldown else None)))"

definition severityMeetsThreshold :: "string \<Rightarrow> string \<Rightarrow> bool" where
  "severityMeetsThreshold alertSeverity channelMinSeverity =
     (if channelMinSeverity = '''' then True
      else MeetsThreshold (if alertSeverity = '''' then SeverityWarning else alertSeverity) channelMinSeverity)"

text \<open>\<open>Retry\<close> sends once; \<open>waitErr\<close> is the rate limiter's answer and \<open>sent\<close> the notifier's. The row returned is the one recorded.\<close>

definition Retry ::
    "delivery_cfg \<Rightarrow> ctx \<Rightarrow> bool \<Rightarrow> send_err option \<Rightarrow> send_err option \<Rightarrow> alert \<Rightarrow> channel \<Rightarrow> effect list \<times> DeliveryAttempt" where
  "Retry cfg c waitErr factory sent a ch =
     (let row = attempt_row (al_ID a) (ch_ID ch); usage = recordWorkspaceNotification c ch;
          health = recordHealth (dc_disableAfterFailures cfg) (ch_ID ch);
          throttled = (if waitErr then [usage ''throttled''] else []) in
      if \<not> severityMeetsThreshold (al_Severity a) (ch_MinSeverity ch)
      then (let r = row ''failed'' ''alert severity below channel minimum'' in ([EAttempt r], r))
      else (case factory of
        Some e \<Rightarrow> (let r = row ''failed'' (se_text e) in (throttled @ [health (health_failure (se_text e) True), usage ''error'', EAttempt r], r))
      | None \<Rightarrow>
          (case sent of
             None \<Rightarrow> (let r = row ''success'' '''' in (throttled @ [usage ''ok'', health health_success, EAttempt r], r))
           | Some e \<Rightarrow>
               (let r = row ''failed'' (se_text e) in
                (throttled @ [usage ''error'', health (health_failure (se_text e) (IsPermanent sent)), EAttempt r], r)))))"

text \<open>\<open>RedriveDeadLetter\<close>: the rows read are arguments; \<open>RDelete\<close> deletes the dead letter. The flag says whether the notifier was asked to send.\<close>

datatype redrive_err = RedriveRead | RedriveGate retry_err | RedriveBuild | RedriveSend string

datatype redrive_effect = RDelete int | RWrite effect

definition RedriveDeadLetter ::
    "ctx \<Rightarrow> (send_err \<Rightarrow> send_err option) \<Rightarrow> bool \<Rightarrow> channel option \<Rightarrow> DeliveryAttempt list option \<Rightarrow> send_err option \<Rightarrow> send_err option \<Rightarrow>
     int \<Rightarrow> DeadLetter \<Rightarrow> redrive_err option \<times> bool \<times> redrive_effect list" where
  "RedriveDeadLetter c unwrap haveAlert channel attempts factory sent deadLetterID dl =
     (if \<not> haveAlert then (Some RedriveRead, False, [])
      else (case channel of
        None \<Rightarrow> (Some RedriveRead, False, [])
      | Some ch \<Rightarrow>
          (if \<not> ch_Enabled ch then (Some (RedriveGate ErrChannelDisabled), False, [])
           else (case attempts of
             None \<Rightarrow> (Some RedriveRead, False, [])
           | Some rows \<Rightarrow>
               (if \<exists>d \<in> set rows. da_ChannelID d = dl_ChannelID dl \<and> da_Status d = DeliveryStatusSuccess
                then (Some (RedriveGate ErrAlreadySucceeded), False, [RDelete deadLetterID])
                else if factory \<noteq> None then (Some RedriveBuild, False, [])
                else (case sent of
                  Some e \<Rightarrow>
                    (let safe = sanitizeDeliveryError (redactURLError unwrap e) in
                     (Some (RedriveSend safe), True,
                      [RWrite (recordWorkspaceNotification c ch ''error''),
                       RWrite (record_attempt (dl_AlertID dl) (ch_ID ch) ''failed'' (''redrive: '' @ safe))]))
                | None \<Rightarrow>
                    (None, True,
                     [RWrite (recordWorkspaceNotification c ch ''ok''),
                      RWrite (record_attempt (dl_AlertID dl) (ch_ID ch) ''success'' ''redrive: success''),
                      RDelete deadLetterID])))))))"

lemma gate_loop_None: "gate_loop channelID ds lst = None \<longleftrightarrow> (\<exists>d \<in> set ds. da_ChannelID d = channelID \<and> da_Status d = ''success'')"
  by (induction ds arbitrary: lst) auto

definition newest :: "DeliveryAttempt option \<Rightarrow> gtime set \<Rightarrow> bool" where
  "newest lst T = (case lst of None \<Rightarrow> T = {} | Some l \<Rightarrow> da_AttemptedAt l \<in> T \<and> (\<forall>t \<in> T. t \<le> da_AttemptedAt l))"

lemma gate_loop_newest:
  "gate_loop channelID ds lst = Some r \<Longrightarrow> newest lst T \<Longrightarrow>
   newest r (T \<union> da_AttemptedAt ` {d \<in> set ds. da_ChannelID d = channelID})"
proof (induction ds arbitrary: lst T)
  case (Cons d ds)
  show ?case
  proof (cases "da_ChannelID d = channelID")
    case False
    then have "{x \<in> set (d # ds). da_ChannelID x = channelID} = {x \<in> set ds. da_ChannelID x = channelID}" by auto
    then show ?thesis using Cons False by simp
  next
    case True
    let ?l = "case lst of None \<Rightarrow> Some d | Some l \<Rightarrow> if da_AttemptedAt l < da_AttemptedAt d then Some d else Some l"
    have "newest ?l (insert (da_AttemptedAt d) T)"
      using Cons.prems(2) by (auto simp: newest_def split: option.splits)
    moreover have "gate_loop channelID ds ?l = Some r" using Cons.prems(1) True by (simp split: if_splits)
    ultimately have "newest r (insert (da_AttemptedAt d) T \<union> da_AttemptedAt ` {x \<in> set ds. da_ChannelID x = channelID})"
      by (intro Cons.IH)
    moreover have "insert (da_AttemptedAt d) T \<union> da_AttemptedAt ` {x \<in> set ds. da_ChannelID x = channelID} =
        T \<union> da_AttemptedAt ` {x \<in> set (d # ds). da_ChannelID x = channelID}"
      using True by auto
    ultimately show ?thesis by simp
  qed
qed simp

text \<open>
  A manual retry passes the gate exactly when the channel is enabled, it has been tried for this alert, no try succeeded, and the newest
  try is at least the cooldown ago; the order of the rows does not matter.
\<close>

theorem retry_gate_opens_after_cooldown:
  assumes "0 < cooldown" and "cooldown \<le> max_i64" and times: "\<forall>d \<in> set attempts. da_AttemptedAt d \<noteq> 0"
  shows "GateRetry attempts channelID ch now cooldown = None \<longleftrightarrow>
     ch_Enabled ch \<and> (\<exists>d \<in> set attempts. da_ChannelID d = channelID) \<and>
     (\<forall>d \<in> set attempts. da_ChannelID d = channelID \<longrightarrow> da_Status d \<noteq> DeliveryStatusSuccess \<and> cooldown \<le> now - da_AttemptedAt d)"
proof (cases "gate_loop channelID attempts None")
  case None
  then have "\<exists>d \<in> set attempts. da_ChannelID d = channelID \<and> da_Status d = ''success''" using gate_loop_None by blast
  then show ?thesis using None by (auto simp: GateRetry_def DeliveryStatusSuccess_def)
next
  case (Some r)
  let ?mine = "{d \<in> set attempts. da_ChannelID d = channelID}"
  have n: "newest r (da_AttemptedAt ` ?mine)"
    using gate_loop_newest [OF Some, of "{}"] by (simp add: newest_def)
  have ok: "\<forall>d \<in> ?mine. da_Status d \<noteq> DeliveryStatusSuccess"
    using Some gate_loop_None [of channelID attempts None] by (auto simp: DeliveryStatusSuccess_def)
  show ?thesis
  proof (cases r)
    case None
    then show ?thesis using n Some by (auto simp: newest_def GateRetry_def)
  next
    case (Some l)
    have l: "da_AttemptedAt l \<in> da_AttemptedAt ` ?mine" "\<forall>d \<in> ?mine. da_AttemptedAt d \<le> da_AttemptedAt l"
      using n Some by (auto simp: newest_def)
    have z: "da_AttemptedAt l \<noteq> 0" using l(1) times by auto
    have "time_sub now (da_AttemptedAt l) < cooldown \<longleftrightarrow> now - da_AttemptedAt l < cooldown"
      using assms(1,2) by (intro time_sub_less) (auto simp: min_i64_def)
    then have "GateRetry attempts channelID ch now cooldown = None \<longleftrightarrow> ch_Enabled ch \<and> cooldown \<le> now - da_AttemptedAt l"
      using \<open>gate_loop channelID attempts None = Some r\<close> Some z assms(1) by (auto simp: GateRetry_def)
    moreover have "cooldown \<le> now - da_AttemptedAt l \<longleftrightarrow> (\<forall>d \<in> ?mine. cooldown \<le> now - da_AttemptedAt d)"
      using l by fastforce
    moreover have "\<exists>d \<in> set attempts. da_ChannelID d = channelID" using l(1) by auto
    ultimately show ?thesis using ok by auto
  qed
qed

theorem retry_gate_opens_after_cooldown_witness:
  "GateRetry [\<lparr>da_AlertID = 1, da_ChannelID = 7, da_Status = ''failed'', da_ResponseSnippet = '''', da_AttemptedAt = 5\<rparr>] 7
     (channel0\<lparr>ch_Enabled := True\<rparr>) (40 * second) DefaultRetryCooldown = None"
  using retry_gate_opens_after_cooldown [of DefaultRetryCooldown
      "[\<lparr>da_AlertID = 1, da_ChannelID = 7, da_Status = ''failed'', da_ResponseSnippet = '''', da_AttemptedAt = 5\<rparr>]" 7
      "channel0\<lparr>ch_Enabled := True\<rparr>" "40 * second"]
  by (simp add: DefaultRetryCooldown_def second_def max_i64_def DeliveryStatusSuccess_def)

fun redrive_rows :: "redrive_effect list \<Rightarrow> DeliveryAttempt list" where
  "redrive_rows [] = []"
| "redrive_rows (RWrite w # es) = attempts_of [w] @ redrive_rows es"
| "redrive_rows (_ # es) = redrive_rows es"

text \<open>
  A redrive sends only through an enabled channel and only if no earlier attempt on it succeeded; it deletes the dead letter exactly when the
  alert has been delivered, now or before, and keeps it on every error. Once a redrive succeeded, a later one that sees its
  row does not send again.
\<close>

theorem redrive_sends_once:
  assumes r: "RedriveDeadLetter c unwrap have_alert chan rows factory sent dlID dl = (err, asked, es)"
    and own: "\<And>ch. chan = Some ch \<Longrightarrow> ch_ID ch = dl_ChannelID dl"
  shows "(asked \<longrightarrow> (\<exists>ch ds. chan = Some ch \<and> ch_Enabled ch \<and> rows = Some ds \<and>
            (\<forall>d \<in> set ds. da_ChannelID d = dl_ChannelID dl \<longrightarrow> da_Status d \<noteq> DeliveryStatusSuccess))) \<and>
         (RDelete dlID \<in> set es \<longleftrightarrow> err = None \<or> err = Some (RedriveGate ErrAlreadySucceeded)) \<and>
         (err = None \<longleftrightarrow> asked \<and> sent = None) \<and>
         (err = None \<and> set (redrive_rows es) \<subseteq> set rows' \<longrightarrow>
            \<not> fst (snd (RedriveDeadLetter c unwrap have_alert' chan' (Some rows') factory' sent' dlID dl)))"
proof (cases "asked")
  case False
  then have "es = [] \<and> err \<noteq> None \<and> err \<noteq> Some (RedriveGate ErrAlreadySucceeded) \<or>
      es = [RDelete dlID] \<and> err = Some (RedriveGate ErrAlreadySucceeded)"
    using r unfolding RedriveDeadLetter_def Let_def by (cases chan; cases rows; cases sent; simp split: if_splits; clarsimp)
  then show ?thesis using False by auto
next
  case True
  then obtain ch ds where h: "have_alert" "chan = Some ch" "ch_Enabled ch" "rows = Some ds" "factory = None"
      "\<not> (\<exists>d \<in> set ds. da_ChannelID d = dl_ChannelID dl \<and> da_Status d = DeliveryStatusSuccess)"
    using r unfolding RedriveDeadLetter_def Let_def by (cases chan; cases rows; cases sent; simp split: if_splits; clarsimp)
  have w: "RDelete i \<noteq> RWrite x" for i x by simp
  show ?thesis
  proof (cases sent)
    case None
    let ?row = "attempt_row (dl_AlertID dl) (ch_ID ch) ''success'' ''redrive: success''"
    have e: "err = None" "es = [RWrite (recordWorkspaceNotification c ch ''ok''),
        RWrite (record_attempt (dl_AlertID dl) (ch_ID ch) ''success'' ''redrive: success''), RDelete dlID]"
      using r h None by (simp_all add: RedriveDeadLetter_def)
    have rr: "redrive_rows es = [?row]" by (simp add: e(2))
    have "\<not> fst (snd (RedriveDeadLetter c unwrap have_alert' chan' (Some rows') factory' sent' dlID dl))"
      if "set (redrive_rows es) \<subseteq> set rows'"
    proof -
      have "\<exists>d \<in> set rows'. da_ChannelID d = dl_ChannelID dl \<and> da_Status d = DeliveryStatusSuccess"
        using that own [OF h(2)] by (intro bexI [of _ ?row]) (auto simp: rr DeliveryStatusSuccess_def)
      then show ?thesis by (auto simp: RedriveDeadLetter_def split: option.split)
    qed
    then show ?thesis using True None h e by auto
  next
    case (Some x)
    then have "err = Some (RedriveSend (sanitizeDeliveryError (redactURLError unwrap x)))" "RDelete dlID \<notin> set es"
      using r h by (auto simp: RedriveDeadLetter_def Let_def)
    then show ?thesis using True Some h by auto
  qed
qed

theorem redrive_sends_once_witness:
  "RDelete 4 \<in> set (snd (snd (RedriveDeadLetter \<lparr>ctx_workspace = None, ctx_system = False\<rparr> (\<lambda>e. None) True
     (Some (channel0\<lparr>ch_Enabled := True\<rparr>)) (Some []) None None 4
     \<lparr>dl_AlertID = 1, dl_ChannelID = 0, dl_LastError = '''', dl_AttemptCount = 3, dl_LastStatus = 500\<rparr>)))"
proof -
  let ?dl = "\<lparr>dl_AlertID = 1, dl_ChannelID = 0, dl_LastError = '''', dl_AttemptCount = 3, dl_LastStatus = 500\<rparr>"
  let ?ch = "channel0\<lparr>ch_Enabled := True\<rparr>"
  obtain es where r: "RedriveDeadLetter \<lparr>ctx_workspace = None, ctx_system = False\<rparr> (\<lambda>e. None) True (Some ?ch) (Some []) None None 4 ?dl = (None, True, es)"
    by (simp add: RedriveDeadLetter_def)
  show ?thesis
    using redrive_sends_once [OF r, of "[]" True None None None] unfolding r by (simp add: channel0_def)
qed

subsection \<open>The health columns of a channel\<close>

text \<open>\<open>RecordChannelHealth\<close> on the row it updates; \<open>now\<close> replaces a zero \<open>At\<close>.\<close>

definition RecordChannelHealth :: "gtime \<Rightarrow> ChannelHealthUpdate \<Rightarrow> channel \<Rightarrow> channel" where
  "RecordChannelHealth now u row =
     (let at' = (if hu_At u = 0 then now else hu_At u);
          success = hu_Success u;
          permanent = (hu_Permanent u \<and> \<not> success);
          disable = (permanent \<and> 0 < hu_DisableAfter u \<and> hu_DisableAfter u \<le> ch_ConsecutivePermanentFailures row + 1)
      in row\<lparr>ch_ConsecutiveFailures := (if success then 0 else ch_ConsecutiveFailures row + 1),
             ch_ConsecutivePermanentFailures :=
               (if success then 0 else if permanent then ch_ConsecutivePermanentFailures row + 1 else ch_ConsecutivePermanentFailures row),
             ch_LastError := (if success then '''' else hu_Error u),
             ch_LastErrorAt := (if success then None else Some at'),
             ch_LastSuccessAt := (if success then Some at' else ch_LastSuccessAt row),
             ch_DisabledAt :=
               (if success then (if ch_Enabled row then None else ch_DisabledAt row)
                else if disable then (case ch_DisabledAt row of Some t \<Rightarrow> Some t | None \<Rightarrow> Some at')
                else ch_DisabledAt row),
             ch_Enabled := (if success then ch_Enabled row else if disable then False else ch_Enabled row)\<rparr>)"

definition health_rows :: "channel \<Rightarrow> (gtime \<times> ChannelHealthUpdate) list \<Rightarrow> channel" where
  "health_rows row us = foldl (\<lambda>r (now, u). RecordChannelHealth now u r) row us"

definition permanent_streak :: "(gtime \<times> ChannelHealthUpdate) list \<Rightarrow> int" where
  "permanent_streak us = int (length (filter (\<lambda>(t, u). hu_Permanent u) (takeWhile (\<lambda>(t, u). \<not> hu_Success u) (rev us))))"

lemma permanent_streak_snoc:
  "permanent_streak (us @ [(t, u)]) =
     (if hu_Success u then 0 else if hu_Permanent u then permanent_streak us + 1 else permanent_streak us)"
  by (simp add: permanent_streak_def)

lemma health_rows_snoc: "health_rows row (us @ [(t, u)]) = RecordChannelHealth t u (health_rows row us)"
  by (simp add: health_rows_def)

text \<open>
  C1. Automatic disabling: with a threshold \<open>n\<close> an enabled channel is switched off by the update that completes the first streak of \<open>n\<close>
  permanent failures without a success between them, transient failures neither counting nor breaking the streak; from then on it stays
  off, whatever outcomes follow, and without a threshold it is never switched off.
\<close>

theorem channel_disabled_by_permanent_streak:
  assumes row: "ch_Enabled row" "ch_ConsecutivePermanentFailures row = 0"
    and n: "\<forall>(t, u) \<in> set us. hu_DisableAfter u = n"
  shows "ch_ConsecutivePermanentFailures (health_rows row us) = permanent_streak us \<and>
     (ch_Enabled (health_rows row us) \<longleftrightarrow> n \<le> 0 \<or> (\<forall>k \<le> length us. permanent_streak (take k us) < n))"
  using n
proof (induction us rule: rev_induct)
  case Nil
  then show ?case using row by (auto simp: health_rows_def permanent_streak_def)
next
  case (snoc x us)
  obtain t u where x: "x = (t, u)" by fastforce
  have ih: "ch_ConsecutivePermanentFailures (health_rows row us) = permanent_streak us"
      "ch_Enabled (health_rows row us) \<longleftrightarrow> n \<le> 0 \<or> (\<forall>k \<le> length us. permanent_streak (take k us) < n)"
    and u: "hu_DisableAfter u = n"
    using snoc x by auto
  have split: "(\<forall>k \<le> length (us @ [x]). permanent_streak (take k (us @ [x])) < n) \<longleftrightarrow>
      (\<forall>k \<le> length us. permanent_streak (take k us) < n) \<and> permanent_streak (us @ [x]) < n"
    by (auto simp: le_Suc_eq)
  have last: "(\<forall>k \<le> length us. permanent_streak (take k us) < n) \<Longrightarrow> permanent_streak us < n"
    by (drule spec [of _ "length us"]) simp
  show ?case
    using ih last unfolding split [unfolded x] x health_rows_snoc permanent_streak_snoc
    by (auto simp: RecordChannelHealth_def Let_def u)
qed

theorem channel_disabled_by_permanent_streak_witness:
  "\<not> ch_Enabled (health_rows (channel0\<lparr>ch_Enabled := True\<rparr>)
     [(1, (health_failure ''gone'' True)\<lparr>hu_DisableAfter := 2\<rparr>), (2, (health_failure ''busy'' False)\<lparr>hu_DisableAfter := 2\<rparr>),
      (3, (health_failure ''gone'' True)\<lparr>hu_DisableAfter := 2\<rparr>), (4, health_success\<lparr>hu_DisableAfter := 2\<rparr>)])"
proof -
  let ?us = "[(1, (health_failure ''gone'' True)\<lparr>hu_DisableAfter := 2\<rparr>), (2, (health_failure ''busy'' False)\<lparr>hu_DisableAfter := 2\<rparr>),
      (3, (health_failure ''gone'' True)\<lparr>hu_DisableAfter := 2\<rparr>), (4, health_success\<lparr>hu_DisableAfter := 2\<rparr>)]"
  have row: "ch_Enabled (channel0\<lparr>ch_Enabled := True\<rparr>)" "ch_ConsecutivePermanentFailures (channel0\<lparr>ch_Enabled := True\<rparr>) = 0"
    by (simp_all add: channel0_def)
  have n: "\<forall>(t, u) \<in> set ?us. hu_DisableAfter u = 2" by simp
  have s: "\<not> permanent_streak (take 3 ?us) < 2" by (simp add: permanent_streak_def eval_nat_numeral)
  then have "\<not> (\<forall>k \<le> length ?us. permanent_streak (take k ?us) < 2)" by (intro notI) (drule spec [of _ 3], simp)
  then show ?thesis
    using channel_disabled_by_permanent_streak [OF row n] by auto
qed

end
