(* ===== verification/Dispatch.thy ===== *)
theory Dispatch
  imports Delivery_Control Escalation Alert_Decisions Monitor_Budget "HOL-Library.Multiset"
begin

text \<open>
  What happens to an alert before it is delivered: \<open>dispatchSync\<close> of \<open>internal/notify/dispatcher.go\<close> with its suppression checks in order
  (stopped workspace, inhibition, maintenance window, monitor budget, flapping), the choice between escalation and flat fan-out, the fan-out
  itself, and the overflow path of asynchronous submission. The statements \<open>ListChannelsForMonitor\<close> and
  \<open>ActiveMaintenanceWindow\<close> of \<open>internal/store/postgres.go\<close> are modelled on their tables; what the other reads answer, errors
  included, is part of the environment. Formatting of durations and quoting are arguments.
\<close>

subsection \<open>Channels of a monitor\<close>

record channel_db =
  cd_channels :: "channel list"
  cd_attached :: "(int \<times> int) list"
  cd_monitorWorkspace :: "int \<rightharpoonup> string"

definition tenantWorkspace :: "ctx \<Rightarrow> string \<times> bool" where
  "tenantWorkspace c = (if System c then ('''', False) else (workspaceID c, True))"

text \<open>The columns \<open>scanChannel\<close> reads: every field of the row except \<open>min_severity\<close>, which keeps its zero value. Decryption of the
  configuration either fails, which is an error of the read, or restores it.\<close>

definition scanChannel :: "channel \<Rightarrow> channel" where
  "scanChannel row = row\<lparr>ch_MinSeverity := ''''\<rparr>"

definition ListChannelsForMonitor :: "channel_db \<Rightarrow> ctx \<Rightarrow> int \<Rightarrow> channel list" where
  "ListChannelsForMonitor db c monitorID =
     (let (ws, scoped) = tenantWorkspace c in
      case cd_monitorWorkspace db monitorID of
        None \<Rightarrow> []
      | Some mws \<Rightarrow>
          (if scoped \<and> mws \<noteq> ws then []
           else map scanChannel (sort_key ch_ID (filter (\<lambda>row. (monitorID, ch_ID row) \<in> set (cd_attached db) \<and> ch_Enabled row)
                  (cd_channels db)))))"

subsection \<open>Maintenance windows\<close>

record MaintenanceWindow =
  mw_ID :: int
  mw_Reason :: string
  mw_Scope :: string
  mw_MonitorID :: "int option"
  mw_ContractID :: "string option"
  mw_StartAt :: gtime
  mw_EndAt :: gtime

definition window_covers :: "int \<Rightarrow> string \<Rightarrow> gtime \<Rightarrow> MaintenanceWindow \<Rightarrow> bool" where
  "window_covers monitorID contractID at' w \<longleftrightarrow>
     mw_StartAt w \<le> at' \<and> at' < mw_EndAt w \<and>
     (mw_Scope w = ''global'' \<or> (mw_Scope w = ''monitor'' \<and> mw_MonitorID w = Some monitorID) \<or>
      (mw_Scope w = ''contract'' \<and> mw_ContractID w = Some contractID))"

definition scope_rank :: "MaintenanceWindow \<Rightarrow> nat" where
  "scope_rank w = (if mw_Scope w = ''contract'' then 0 else if mw_Scope w = ''monitor'' then 1 else 2)"

text \<open>\<open>ORDER BY\<close> scope, then \<open>start_at DESC\<close>, \<open>LIMIT 1\<close>; ties are broken by the order of the table.\<close>

definition ActiveMaintenanceWindow :: "MaintenanceWindow list \<Rightarrow> int \<Rightarrow> string \<Rightarrow> gtime \<Rightarrow> MaintenanceWindow option" where
  "ActiveMaintenanceWindow ws monitorID contractID at' =
     (case sort_key scope_rank (sort_key (\<lambda>w. - mw_StartAt w) (filter (window_covers monitorID contractID at') ws)) of
        [] \<Rightarrow> None | w # _ \<Rightarrow> Some w)"

subsection \<open>The checks before a delivery\<close>

record dispatch_env =
  de_ctx :: ctx
  de_now :: gtime
  de_wallclock :: gtime
  de_wsChannels :: "store_err + channel list"
  de_inhibitions :: "store_err + Inhibition list"
  de_firedWithin :: "int \<Rightarrow> duration \<Rightarrow> store_err + bool"
  de_window :: "int \<Rightarrow> string \<Rightarrow> gtime \<Rightarrow> store_err + MaintenanceWindow option"
  de_alertTimes :: "int \<Rightarrow> gtime \<Rightarrow> store_err + gtime list"
  de_policy :: "store_err + EscalationPolicy"
  de_flapping :: FlappingConfig
  de_showDuration :: "duration \<Rightarrow> string"
  de_quote :: "string \<Rightarrow> string"

definition resolveAlertWorkspace :: "ctx \<Rightarrow> store_err + channel list \<Rightarrow> alert \<Rightarrow> string" where
  "resolveAlertWorkspace c channels a =
     (let (ws, ok) = From c in
      if ok \<and> \<not> System c \<and> trim_space ws \<noteq> '''' then trim_space ws
      else if 0 < al_MonitorID a
      then (case channels of
              Inl e \<Rightarrow> ''default''
            | Inr chs \<Rightarrow> (case List.find (\<lambda>ch. trim_space (ch_WorkspaceID ch) \<noteq> '''') chs of
                            Some ch \<Rightarrow> trim_space (ch_WorkspaceID ch) | None \<Rightarrow> ''default''))
      else ''default'')"

text \<open>The source rule when the alert is inhibited; every error answers \<open>None\<close>.\<close>

definition inhibited :: "dispatch_env \<Rightarrow> alert \<Rightarrow> int option" where
  "inhibited env a =
     (case de_inhibitions env of
        Inl e \<Rightarrow> None
      | Inr is \<Rightarrow>
          (case InhibitedBy (al_RuleID a) is (Some (de_firedWithin env)) of
             Inl e \<Rightarrow> None
           | Inr (source, supp) \<Rightarrow> if supp then Some source else None))"

definition suppressed :: "dispatch_env \<Rightarrow> alert \<Rightarrow> string option" where
  "suppressed env a =
     (let at' = (if al_CreatedAt a = 0 then de_wallclock env else al_CreatedAt a) in
      case de_window env (al_MonitorID a) (al_ContractID a) at' of
        Inl e \<Rightarrow> None | Inr None \<Rightarrow> None | Inr (Some w) \<Rightarrow> Some (mw_Reason w))"

definition budget_check ::
    "dispatch_env \<Rightarrow> MonitorBudgetTracker option \<Rightarrow> alert \<Rightarrow> (string + alert) \<times> MonitorBudgetTracker option" where
  "budget_check env budget a =
     (case budget of
        None \<Rightarrow> (Inr a, None)
      | Some t \<Rightarrow>
          (if al_MonitorID a \<le> 0 then (Inr a, Some t)
           else (case RecordAlert t (de_ctx env) a (de_now env) of (action, t') \<Rightarrow>
             (case ca_Outcome action of
                CapOutcomeSuppressed \<Rightarrow>
                  Inl (''monitor '' @ fmt_d (al_MonitorID a) @ '' notification volume cap reached ('' @ fmt_d (ca_Count action) @
                       '' in '' @ de_showDuration env (ca_Window action) @ '')'')
              | CapOutcomeSummary \<Rightarrow>
                  Inr (a\<lparr>al_Digest := ''Monitor '' @ de_quote env (al_MonitorName a) @ '' reached notification volume cap: '' @
                     fmt_d (ca_Count action) @ '' alerts in '' @ de_showDuration env (ca_Window action) @
                     ''. Subsequent notifications are throttled.''\<rparr>)
              | CapOutcomeAllow \<Rightarrow> Inr a, Some t'))))"

definition flappingWindowLabel :: "(duration \<Rightarrow> string) \<Rightarrow> duration \<Rightarrow> string" where
  "flappingWindowLabel showDuration window =
     (if go_mod window minute = 0
      then (let minutes = go_div window minute in fmt_d minutes @ '' '' @ (if minutes = 1 then ''minute'' else ''minutes''))
      else showDuration window)"

definition flappingState :: "dispatch_env \<Rightarrow> alert \<Rightarrow> FlappingState option" where
  "flappingState env a =
     (let at' = (if al_CreatedAt a = 0 then de_now env else al_CreatedAt a);
          since = at' - fl_Window (de_flapping env) - fl_QuietAfter (de_flapping env) in
      case de_alertTimes env (al_RuleID a) since of
        Inl e \<Rightarrow> None | Inr ts \<Rightarrow> Some (DetectFlapping ts at' (de_flapping env)))"

definition flapping_check :: "dispatch_env \<Rightarrow> alert \<Rightarrow> string + alert" where
  "flapping_check env a =
     (if al_RuleID a \<le> 0 then Inr a
      else (case flappingState env a of
        None \<Rightarrow> Inr a
      | Some st \<Rightarrow>
          (if fs_Flapping st \<and> 1 < fs_CurrentEpisodeAlerts st
           then (if 2 < fs_CurrentEpisodeAlerts st
                 then Inl (''flapping: notification damped after '' @ fmt_d (fs_CurrentEpisodeAlerts st) @ '' alerts in the current episode'')
                 else Inr (a\<lparr>al_Digest := ''Rule '' @ fmt_d (al_RuleID a) @ '' is flapping: '' @ fmt_d (fs_AlertCount st) @
                        '' alerts in the last '' @ flappingWindowLabel (de_showDuration env) (fl_Window (de_flapping env)) @
                        '' across '' @ fmt_d (fs_Episodes st) @ '' episodes.''\<rparr>))
           else Inr a)))"

text \<open>What \<open>dispatchSync\<close> does with the alert: marks it and drops it, or hands it on.\<close>

datatype dispatch_out =
  DStopped | DInhibited int | DSuppressed string | DFlat alert | DEscalate alert EscalationPolicy

definition choose_delivery :: "dispatch_env \<Rightarrow> alert \<Rightarrow> dispatch_out" where
  "choose_delivery env a =
     (case de_policy env of
        Inl e \<Rightarrow> DFlat a
      | Inr policy \<Rightarrow> if po_Steps policy = [] then DFlat a else DEscalate a policy)"

definition dispatchSync ::
    "dispatch_env \<Rightarrow> dispatcher \<Rightarrow> MonitorBudgetTracker option \<Rightarrow> alert \<Rightarrow> dispatch_out \<times> MonitorBudgetTracker option" where
  "dispatchSync env d budget a =
     (if isWorkspaceStopped d (resolveAlertWorkspace (de_ctx env) (de_wsChannels env) a) then (DStopped, budget)
      else (case inhibited env a of
        Some source \<Rightarrow> (DInhibited source, budget)
      | None \<Rightarrow>
          (case suppressed env a of
             Some reason \<Rightarrow> (DSuppressed reason, budget)
           | None \<Rightarrow>
               (case budget_check env budget a of
                  (Inl reason, budget') \<Rightarrow> (DSuppressed reason, budget')
                | (Inr a1, budget') \<Rightarrow>
                    (case flapping_check env a1 of
                       Inl reason \<Rightarrow> (DSuppressed reason, budget')
                     | Inr a2 \<Rightarrow> (choose_delivery env a2, budget'))))))"

subsection \<open>Fan-out\<close>

definition digestEnabled :: "channel \<Rightarrow> bool" where
  "digestEnabled ch \<longleftrightarrow> ch_DigestMode ch = ''window'' \<and> 0 < ch_DigestWindowSeconds ch"

text \<open>The channels that receive the alert now and those it is queued for; \<open>digestOn\<close>: a digest queue is attached.\<close>

definition dispatchFlat :: "bool \<Rightarrow> alert \<Rightarrow> store_err + channel list \<Rightarrow> channel list \<times> channel list" where
  "dispatchFlat digestOn a channels =
     (case channels of
        Inl e \<Rightarrow> ([], [])
      | Inr chs \<Rightarrow>
          (let ok = filter (\<lambda>ch. severityMeetsThreshold (al_Severity a) (ch_MinSeverity ch)) chs in
           (filter (\<lambda>ch. \<not> (digestOn \<and> digestEnabled ch)) ok, filter (\<lambda>ch. digestOn \<and> digestEnabled ch) ok)))"

text \<open>The groups of \<open>deliverChannelGroup\<close> run concurrently, the channels within one in order.\<close>

definition deliverChannelGroup :: "ctx \<Rightarrow> channel list \<Rightarrow> channel list list" where
  "deliverChannelGroup c channels =
     (case channels of [] \<Rightarrow> [] | [ch] \<Rightarrow> [[ch]] | _ \<Rightarrow> group_by (resolveWorkspaceID c) channels)"

text \<open>What \<open>shedAlertOnOverflow\<close> writes when the workspace queue is saturated.\<close>

definition shed_channel :: "ctx \<Rightarrow> (send_err \<Rightarrow> send_err option) \<Rightarrow> int \<Rightarrow> alert \<Rightarrow> send_err \<Rightarrow> channel \<Rightarrow> effect list" where
  "shed_channel c unwrap disableAfter a err ch =
     (if \<not> severityMeetsThreshold (al_Severity a) (ch_MinSeverity ch) then []
      else [recordWorkspaceNotification c ch ''throttled'',
            record_attempt (al_ID a) (ch_ID ch) ''failed'' (sanitizeDeliveryError err),
            recordHealth disableAfter (ch_ID ch) (health_failure (sanitizeDeliveryError err) False),
            deadLetter unwrap a ch err 1])"

definition shedAlertOnOverflow ::
    "ctx \<Rightarrow> (send_err \<Rightarrow> send_err option) \<Rightarrow> int \<Rightarrow> alert \<Rightarrow> send_err \<Rightarrow> store_err + channel list \<Rightarrow> effect list" where
  "shedAlertOnOverflow c unwrap disableAfter a err channels =
     (case channels of Inl e \<Rightarrow> [] | Inr chs \<Rightarrow> concat (map (shed_channel c unwrap disableAfter a err) chs))"

subsection \<open>Why an alert is not delivered\<close>

lemma inhibit_loop_source:
  "inhibit_loop target fired is = Inr (source, True) \<Longrightarrow>
   \<exists>i \<in> set is. in_TargetRuleID i = target \<and> in_SourceRuleID i = source \<and> fired source (inhibitWindow i) = Inr True"
  by (induction "is") (auto split: if_splits sum.splits bool.splits)

lemma inhibited_source:
  "inhibited env a = Some source \<Longrightarrow>
   \<exists>is. de_inhibitions env = Inr is \<and> (\<exists>i \<in> set is. in_TargetRuleID i = al_RuleID a \<and> in_SourceRuleID i = source \<and>
      de_firedWithin env source (inhibitWindow i) = Inr True)"
  by (auto simp: inhibited_def InhibitedBy_def dest: inhibit_loop_source split: sum.splits if_splits)

definition cap_refuses :: "dispatch_env \<Rightarrow> MonitorBudgetTracker option \<Rightarrow> alert \<Rightarrow> bool" where
  "cap_refuses env budget a \<longleftrightarrow> 0 < al_MonitorID a \<and>
     (\<exists>t. budget = Some t \<and> ca_Outcome (fst (RecordAlert t (de_ctx env) a (de_now env))) = CapOutcomeSuppressed)"

definition flapping_refuses :: "dispatch_env \<Rightarrow> alert \<Rightarrow> bool" where
  "flapping_refuses env a \<longleftrightarrow> 0 < al_RuleID a \<and>
     (\<exists>st. flappingState env a = Some st \<and> fs_Flapping st \<and> 2 < fs_CurrentEpisodeAlerts st)"

lemma budget_check_Inl: "budget_check env budget a = (Inl reason, budget') \<Longrightarrow> cap_refuses env budget a"
  by (auto simp: budget_check_def cap_refuses_def split: option.splits if_splits prod.splits CapOutcome.splits)

lemma budget_check_Inr:
  "budget_check env budget a = (Inr a1, budget') \<Longrightarrow> a1 = a\<lparr>al_Digest := al_Digest a1\<rparr> \<and> \<not> cap_refuses env budget a"
  by (auto simp: budget_check_def cap_refuses_def split: option.splits if_splits prod.splits CapOutcome.splits)

lemma flappingState_digest [simp]: "flappingState env (a\<lparr>al_Digest := g\<rparr>) = flappingState env a"
  by (simp add: flappingState_def)

lemma flapping_refuses_digest [simp]: "flapping_refuses env (a\<lparr>al_Digest := g\<rparr>) = flapping_refuses env a"
  by (simp add: flapping_refuses_def)

lemma flapping_check_Inl: "flapping_check env a = Inl reason \<Longrightarrow> flapping_refuses env a"
  by (auto simp: flapping_check_def flapping_refuses_def split: option.splits if_splits)

lemma flapping_check_Inr: "flapping_check env a = Inr a1 \<Longrightarrow> a1 = a\<lparr>al_Digest := al_Digest a1\<rparr> \<and> \<not> flapping_refuses env a"
  by (auto simp: flapping_check_def flapping_refuses_def split: option.splits if_splits)

definition covering_window :: "dispatch_env \<Rightarrow> alert \<Rightarrow> MaintenanceWindow \<Rightarrow> bool" where
  "covering_window env a w \<longleftrightarrow>
     de_window env (al_MonitorID a) (al_ContractID a) (if al_CreatedAt a = 0 then de_wallclock env else al_CreatedAt a) = Inr (Some w)"

text \<open>
  C31. The decision about an alert, before any channel is read. It is to drop the alert only for a reason that was
  positively established: its workspace is stopped, an own source rule answered that it is firing, a maintenance window was
  found, the monitor's cap refuses it, or its rule is flapping with more than two alerts in the current episode. Otherwise
  the decision is to hand it on, changed in nothing but its digest text: to escalation when a policy with steps was read,
  and to the monitor's channels in every other case. None of the reads this decision rests on (inhibitions, windows, alert
  times, policy) drops the alert by failing.
\<close>

theorem alert_dropped_only_for_a_reason:
  assumes "dispatchSync env d budget a = (out, budget')"
  shows "(case out of
      DStopped \<Rightarrow> isWorkspaceStopped d (resolveAlertWorkspace (de_ctx env) (de_wsChannels env) a)
    | DInhibited source \<Rightarrow> (\<exists>is. de_inhibitions env = Inr is \<and> (\<exists>i \<in> set is. in_TargetRuleID i = al_RuleID a \<and>
        in_SourceRuleID i = source \<and> de_firedWithin env source (inhibitWindow i) = Inr True))
    | DSuppressed reason \<Rightarrow> (\<exists>w. covering_window env a w \<and> reason = mw_Reason w) \<or> cap_refuses env budget a \<or> flapping_refuses env a
    | DFlat a' \<Rightarrow> a' = a\<lparr>al_Digest := al_Digest a'\<rparr> \<and> \<not> (\<exists>p. de_policy env = Inr p \<and> po_Steps p \<noteq> [])
    | DEscalate a' p \<Rightarrow> a' = a\<lparr>al_Digest := al_Digest a'\<rparr> \<and> de_policy env = Inr p \<and> po_Steps p \<noteq> []) \<and>
    (out \<noteq> DStopped \<and> (\<forall>s. out \<noteq> DInhibited s) \<and> (\<forall>w. \<not> covering_window env a w) \<and> \<not> cap_refuses env budget a \<and> \<not> flapping_refuses env a \<longrightarrow>
      (\<exists>a'. out = DFlat a' \<or> (\<exists>p. out = DEscalate a' p)))"
proof -
  have w: "suppressed env a = Some r \<longleftrightarrow> (\<exists>w. covering_window env a w \<and> r = mw_Reason w)" for r
    by (auto simp: suppressed_def covering_window_def Let_def split: sum.splits option.splits)
  consider (stop) "isWorkspaceStopped d (resolveAlertWorkspace (de_ctx env) (de_wsChannels env) a)"
    | (inh) source where "\<not> isWorkspaceStopped d (resolveAlertWorkspace (de_ctx env) (de_wsChannels env) a)" "inhibited env a = Some source"
    | (win) reason where "\<not> isWorkspaceStopped d (resolveAlertWorkspace (de_ctx env) (de_wsChannels env) a)" "inhibited env a = None"
        "suppressed env a = Some reason"
    | (on) "\<not> isWorkspaceStopped d (resolveAlertWorkspace (de_ctx env) (de_wsChannels env) a)" "inhibited env a = None" "suppressed env a = None"
    by (cases "inhibited env a"; cases "suppressed env a") auto
  then show ?thesis
  proof cases
    case stop
    then show ?thesis using assms by (simp add: dispatchSync_def)
  next
    case inh
    then have "out = DInhibited source" using assms by (simp add: dispatchSync_def)
    then show ?thesis using inhibited_source [OF inh(2)] by simp
  next
    case win
    then have "out = DSuppressed reason" using assms by (simp add: dispatchSync_def)
    then show ?thesis using w win(3) by auto
  next
    case on
    obtain r b1 where b: "budget_check env budget a = (r, b1)" by fastforce
    show ?thesis
    proof (cases r)
      case (Inl reason)
      then have "out = DSuppressed reason" using assms on b by (simp add: dispatchSync_def)
      then show ?thesis using budget_check_Inl [of env budget a reason b1] b Inl by simp
    next
      case (Inr a1)
      then obtain g where g: "a1 = a\<lparr>al_Digest := g\<rparr>" using budget_check_Inr b by blast
      show ?thesis
      proof (cases "flapping_check env a1")
        case (Inl reason)
        then have "out = DSuppressed reason" using assms on b \<open>r = Inr a1\<close> by (simp add: dispatchSync_def)
        then show ?thesis using flapping_check_Inl [OF Inl] by (simp add: g)
      next
        case (Inr a2)
        then have "a2 = a\<lparr>al_Digest := al_Digest a2\<rparr>" using flapping_check_Inr [of env a1 a2] by (simp add: g)
        moreover have "out = choose_delivery env a2"
          using assms on b \<open>r = Inr a1\<close> Inr by (simp add: dispatchSync_def)
        ultimately show ?thesis by (auto simp: choose_delivery_def split: sum.splits if_splits)
      qed
    qed
  qed
qed

definition quiet_env :: dispatch_env where
  "quiet_env = \<lparr>de_ctx = \<lparr>ctx_workspace = None, ctx_system = True\<rparr>, de_now = 1, de_wallclock = 1, de_wsChannels = Inl ErrStore,
     de_inhibitions = Inl ErrStore, de_firedWithin = (\<lambda>i w. Inl ErrStore), de_window = (\<lambda>m c t. Inl ErrStore),
     de_alertTimes = (\<lambda>r t. Inl ErrStore), de_policy = Inl ErrStore,
     de_flapping = \<lparr>fl_Episodes = 3, fl_Window = minute, fl_QuietAfter = second\<rparr>, de_showDuration = fmt_d, de_quote = (\<lambda>s. s)\<rparr>"

theorem alert_dropped_only_for_a_reason_witness:
  "\<exists>a'. fst (dispatchSync quiet_env NewDispatcher None (alert0\<lparr>al_RuleID := 4, al_MonitorID := 2\<rparr>)) = DFlat a' \<or>
     (\<exists>p. fst (dispatchSync quiet_env NewDispatcher None (alert0\<lparr>al_RuleID := 4, al_MonitorID := 2\<rparr>)) = DEscalate a' p)"
proof -
  let ?a = "alert0\<lparr>al_RuleID := 4, al_MonitorID := 2\<rparr>"
  obtain out b where r: "dispatchSync quiet_env NewDispatcher None ?a = (out, b)" by fastforce
  have "out \<noteq> DStopped" "\<forall>s. out \<noteq> DInhibited s"
    using r by (auto simp: dispatchSync_def quiet_env_def isWorkspaceStopped_def NewDispatcher_def inhibited_def suppressed_def Let_def
        budget_check_def flapping_check_def flappingState_def choose_delivery_def split: if_splits)
  moreover have "\<forall>w. \<not> covering_window quiet_env ?a w" "\<not> cap_refuses quiet_env None ?a" "\<not> flapping_refuses quiet_env ?a"
    by (auto simp: covering_window_def cap_refuses_def flapping_refuses_def flappingState_def quiet_env_def Let_def)
  ultimately show ?thesis
    using alert_dropped_only_for_a_reason [OF r] unfolding r by simp
qed

subsection \<open>Which window, which channels\<close>

lemma hd_sort_key: "sort_key f xs = w # ys \<Longrightarrow> w \<in> set xs \<and> (\<forall>v \<in> set xs. f w \<le> f v)"
  by (metis list.set_intros(1) set_ConsD set_sort sorted_sort_key list.simps(9) sorted_wrt.simps(2) order_refl imageI set_map)

text \<open>
  A maintenance window applies exactly when one covers the alert's instant, its monitor or its contract. The window reported is among
  the most specific that cover it (contract before monitor before global), and no other of that scope started later.
\<close>

theorem maintenance_window_most_specific:
  "case ActiveMaintenanceWindow ws m c t of
     None \<Rightarrow> \<not> (\<exists>w \<in> set ws. window_covers m c t w)
   | Some w \<Rightarrow> w \<in> set ws \<and> window_covers m c t w \<and>
       (\<forall>v \<in> set ws. window_covers m c t v \<longrightarrow> scope_rank w \<le> scope_rank v \<and> (scope_rank v = scope_rank w \<longrightarrow> mw_StartAt v \<le> mw_StartAt w))"
proof -
  define xs where "xs = filter (window_covers m c t) ws"
  define ys where "ys = sort_key (\<lambda>w. - mw_StartAt w) xs"
  have xs: "set xs = {w \<in> set ws. window_covers m c t w}" by (auto simp: xs_def)
  have ys: "set ys = set xs" by (simp add: ys_def)
  have a: "ActiveMaintenanceWindow ws m c t = (case sort_key scope_rank ys of [] \<Rightarrow> None | w # _ \<Rightarrow> Some w)"
    by (simp add: ActiveMaintenanceWindow_def xs_def ys_def)
  show ?thesis
  proof (cases "sort_key scope_rank ys")
    case Nil
    then have "set xs = {}" using ys by (metis set_sort list.set(1))
    then show ?thesis using a Nil xs by auto
  next
    case (Cons w zs)
    have w: "w \<in> set xs" "\<forall>v \<in> set xs. scope_rank w \<le> scope_rank v" using hd_sort_key [OF Cons] ys by auto
    have "filter (\<lambda>v. scope_rank v = scope_rank w) (sort_key scope_rank ys) = filter (\<lambda>v. scope_rank v = scope_rank w) ys"
      by (rule sort_key_stable)
    then have "filter (\<lambda>v. scope_rank v = scope_rank w) ys = w # filter (\<lambda>v. scope_rank v = scope_rank w) zs"
      unfolding Cons by simp
    moreover have "sorted (map (\<lambda>w. - mw_StartAt w) (filter (\<lambda>v. scope_rank v = scope_rank w) ys))"
      unfolding ys_def by (intro sorted_filter sorted_sort_key)
    ultimately have s: "\<forall>v \<in> set (filter (\<lambda>v. scope_rank v = scope_rank w) ys). - mw_StartAt w \<le> - mw_StartAt v"
      by auto
    have "mw_StartAt v \<le> mw_StartAt w" if "v \<in> set xs" "scope_rank v = scope_rank w" for v
      using s that ys by auto
    then show ?thesis using a Cons w xs by auto
  qed
qed

theorem maintenance_window_most_specific_witness:
  "\<exists>w. ActiveMaintenanceWindow
     [\<lparr>mw_ID = 1, mw_Reason = ''all'', mw_Scope = ''global'', mw_MonitorID = None, mw_ContractID = None, mw_StartAt = 5, mw_EndAt = 20\<rparr>,
      \<lparr>mw_ID = 2, mw_Reason = ''one'', mw_Scope = ''monitor'', mw_MonitorID = Some 7, mw_ContractID = None, mw_StartAt = 1, mw_EndAt = 20\<rparr>]
     7 ''C'' 10 = Some w \<and> scope_rank w \<le> 1"
proof -
  let ?g = "\<lparr>mw_ID = 1, mw_Reason = ''all'', mw_Scope = ''global'', mw_MonitorID = None, mw_ContractID = None, mw_StartAt = 5, mw_EndAt = 20\<rparr>"
  let ?m = "\<lparr>mw_ID = 2, mw_Reason = ''one'', mw_Scope = ''monitor'', mw_MonitorID = Some 7, mw_ContractID = None, mw_StartAt = 1, mw_EndAt = 20\<rparr>"
  have c: "window_covers 7 ''C'' 10 ?m" and r: "scope_rank ?m = 1" by (simp_all add: window_covers_def scope_rank_def)
  show ?thesis
    using maintenance_window_most_specific [of "[?g, ?m]" 7 "''C''" 10] c r
    by (cases "ActiveMaintenanceWindow [?g, ?m] 7 ''C'' 10") (simp_all del: One_nat_def)
qed

lemma mset_concat_group_by: "mset (concat (group_by f xs)) = mset xs"
  unfolding group_by_def by (subst mset_concat_filter_keys) (auto simp: filter_mset_eq_conv)

lemma deliverChannelGroup_perm: "mset (concat (deliverChannelGroup c chs)) = mset chs"
  by (cases chs rule: remdups_adj.cases) (simp_all add: deliverChannelGroup_def mset_concat_group_by del: mset_concat)

lemma map_filter_const: "map f (filter (\<lambda>x. f x = k) xs) = replicate (length (filter (\<lambda>x. f x = k) xs)) k"
  by (induction xs) auto

lemma group_by_one_key: "g \<in> set (group_by f xs) \<Longrightarrow> \<exists>k. map f g = replicate (length g) k"
  unfolding group_by_def using map_filter_const by fastforce

text \<open>
  The fan-out of an alert reaches every channel that meets its severity exactly once: now or through the digest queue, and no
  other channel; the immediate deliveries fall into groups of one workspace each, so that channels of different workspaces
  never wait for each other.
\<close>

theorem fan_out_reaches_each_channel_once:
  "mset (concat (deliverChannelGroup c (fst (dispatchFlat digestOn a (Inr chs))))) + mset (snd (dispatchFlat digestOn a (Inr chs))) =
     filter_mset (\<lambda>ch. severityMeetsThreshold (al_Severity a) (ch_MinSeverity ch)) (mset chs) \<and>
   list_all (\<lambda>g. \<exists>ws. map (resolveWorkspaceID c) g = replicate (length g) ws) (deliverChannelGroup c (fst (dispatchFlat digestOn a (Inr chs))))"
proof
  let ?ok = "filter (\<lambda>ch. severityMeetsThreshold (al_Severity a) (ch_MinSeverity ch)) chs"
  have "mset (filter (\<lambda>ch. \<not> (digestOn \<and> digestEnabled ch)) ?ok) + mset (filter (\<lambda>ch. digestOn \<and> digestEnabled ch) ?ok) = mset ?ok"
    by (induction chs) auto
  then show "mset (concat (deliverChannelGroup c (fst (dispatchFlat digestOn a (Inr chs))))) + mset (snd (dispatchFlat digestOn a (Inr chs))) =
     filter_mset (\<lambda>ch. severityMeetsThreshold (al_Severity a) (ch_MinSeverity ch)) (mset chs)"
    unfolding deliverChannelGroup_perm dispatchFlat_def Let_def by (simp only: sum.case fst_conv snd_conv mset_filter [symmetric])
next
  have "\<exists>ws. map (resolveWorkspaceID c) g = replicate (length g) ws" if "g \<in> set (deliverChannelGroup c xs)" for g xs
    using that by (cases xs rule: remdups_adj.cases) (auto simp: deliverChannelGroup_def dest: group_by_one_key)
  then show "list_all (\<lambda>g. \<exists>ws. map (resolveWorkspaceID c) g = replicate (length g) ws) (deliverChannelGroup c (fst (dispatchFlat digestOn a (Inr chs))))"
    by (simp add: list_all_iff)
qed

text \<open>
  What comes after that decision is not as careful: when the monitor's channels cannot be read, \<open>dispatchFlat\<close> returns, and the
  alert reaches no channel and no digest queue; nothing is written about it.
\<close>

lemma unreadable_channels_silence_the_alert: "dispatchFlat digestOn a (Inl e) = ([], []) \<and> deliverChannelGroup c (fst (dispatchFlat digestOn a (Inl e))) = []"
  by (simp add: dispatchFlat_def deliverChannelGroup_def)

text \<open>
  The minimum severity stored with a channel is never applied: the rows a dispatch reads come without it, so an alert of any severity
  reaches every enabled channel attached to its monitor.
\<close>

theorem stored_minimum_severity_never_filters:
  assumes "cd_monitorWorkspace db m = Some mws" and "System c \<or> mws = workspaceID c"
  shows "ch_ID ` set (fst (dispatchFlat digestOn a (Inr (ListChannelsForMonitor db c m)))) \<union>
         ch_ID ` set (snd (dispatchFlat digestOn a (Inr (ListChannelsForMonitor db c m)))) =
         ch_ID ` {row \<in> set (cd_channels db). ch_Enabled row \<and> (m, ch_ID row) \<in> set (cd_attached db)}"
proof -
  have l: "ListChannelsForMonitor db c m =
      map scanChannel (sort_key ch_ID (filter (\<lambda>row. (m, ch_ID row) \<in> set (cd_attached db) \<and> ch_Enabled row) (cd_channels db)))"
    using assms by (auto simp: ListChannelsForMonitor_def tenantWorkspace_def Let_def)
  have s: "severityMeetsThreshold sev (ch_MinSeverity ch) \<and> ch_ID (scanChannel row) = ch_ID row" if "ch = scanChannel row" for ch row sev
    using that by (simp add: scanChannel_def severityMeetsThreshold_def)
  have "filter (\<lambda>ch. severityMeetsThreshold (al_Severity a) (ch_MinSeverity ch)) (ListChannelsForMonitor db c m) = ListChannelsForMonitor db c m"
    using s by (auto simp: l intro!: filter_True)
  then have "set (fst (dispatchFlat digestOn a (Inr (ListChannelsForMonitor db c m)))) \<union>
      set (snd (dispatchFlat digestOn a (Inr (ListChannelsForMonitor db c m)))) = set (ListChannelsForMonitor db c m)"
    by (auto simp: dispatchFlat_def Let_def)
  then have "ch_ID ` set (fst (dispatchFlat digestOn a (Inr (ListChannelsForMonitor db c m)))) \<union>
      ch_ID ` set (snd (dispatchFlat digestOn a (Inr (ListChannelsForMonitor db c m)))) = ch_ID ` set (ListChannelsForMonitor db c m)"
    by (simp only: image_Un [symmetric])
  also have "\<dots> = ch_ID ` {row \<in> set (cd_channels db). ch_Enabled row \<and> (m, ch_ID row) \<in> set (cd_attached db)}"
    using s by (simp add: l image_image) (intro image_cong, auto)
  finally show ?thesis .
qed

theorem stored_minimum_severity_never_filters_witness:
  "ch_ID ` set (fst (dispatchFlat False (alert0\<lparr>al_Severity := ''info''\<rparr>) (Inr (ListChannelsForMonitor
      \<lparr>cd_channels = [channel0\<lparr>ch_ID := 9, ch_Enabled := True, ch_MinSeverity := ''critical''\<rparr>], cd_attached = [(4, 9)],
       cd_monitorWorkspace = [4 \<mapsto> ''acme'']\<rparr> \<lparr>ctx_workspace = None, ctx_system = True\<rparr> 4)))) = {9}"
proof -
  let ?db = "\<lparr>cd_channels = [channel0\<lparr>ch_ID := 9, ch_Enabled := True, ch_MinSeverity := ''critical''\<rparr>], cd_attached = [(4, 9)],
       cd_monitorWorkspace = [4 \<mapsto> ''acme'']\<rparr>"
  have "cd_monitorWorkspace ?db 4 = Some ''acme''" "System \<lparr>ctx_workspace = None, ctx_system = True\<rparr> \<or> ''acme'' = workspaceID \<lparr>ctx_workspace = None, ctx_system = True\<rparr>"
    by (simp_all add: System_def)
  from stored_minimum_severity_never_filters [OF this, of False "alert0\<lparr>al_Severity := ''info''\<rparr>"]
  have "ch_ID ` set (fst (dispatchFlat False (alert0\<lparr>al_Severity := ''info''\<rparr>) (Inr (ListChannelsForMonitor ?db \<lparr>ctx_workspace = None, ctx_system = True\<rparr> 4)))) =
      ch_ID ` {row \<in> set (cd_channels ?db). ch_Enabled row \<and> (4, ch_ID row) \<in> set (cd_attached ?db)}"
    by (simp add: dispatchFlat_def)
  also have "\<dots> = {9}" by auto
  finally show ?thesis .
qed

end
