(* ===== verification/Digest.thy ===== *)
theory Digest
  imports Dispatch "HOL-Library.Sublist"
begin

text \<open>
  Digest channels: the queue statements of \<open>internal/store/postgres.go\<close>, the flush of due windows in
  \<open>internal/notify/dispatcher.go\<close> and the summary text \<open>RenderDigest\<close> of \<open>internal/notify/notify.go\<close>. Texts are byte
  lists; the formatted time of a digest line is an argument. Flushes of different workspaces run concurrently, but each touches
  only the rows of its own channel, so they are taken one after another.
\<close>

subsection \<open>The summary\<close>

definition DefaultDigestMaxLen :: int where "DefaultDigestMaxLen = 2000"

definition nl :: char where "nl = CHR 0x0A"

definition trim_right_nl :: "string \<Rightarrow> string" where
  "trim_right_nl s = rev (dropWhile (\<lambda>c. c = nl) (rev s))"

definition digest_monitor :: "alert \<Rightarrow> string" where
  "digest_monitor a = (if al_MonitorName a = '''' then ''(unknown monitor)'' else al_MonitorName a)"

fun join :: "string \<Rightarrow> string list \<Rightarrow> string" where
  "join sep [] = ''''"
| "join sep [s] = s"
| "join sep (s # t # ts) = s @ sep @ join sep (t # ts)"

definition digestLine :: "(gtime \<Rightarrow> string) \<Rightarrow> alert \<Rightarrow> string" where
  "digestLine fmtTime a =
     join ''  '' ([al_EventName a] @ (if al_ContractID a \<noteq> '''' then [al_ContractID a] else []) @ [''ledger '' @ fmt_d (al_Ledger a)] @
       (if al_CreatedAt a \<noteq> 0 then [fmtTime (al_CreatedAt a) @ '' UTC''] else []))"

definition digest_line :: "(gtime \<Rightarrow> string) \<Rightarrow> alert \<Rightarrow> string" where
  "digest_line fmtTime a = ''- '' @ digestLine fmtTime a @ [nl]"

text \<open>The inner loop: the text so far, and how many alerts were omitted.\<close>

fun digest_lines :: "(gtime \<Rightarrow> string) \<Rightarrow> int \<Rightarrow> alert list \<Rightarrow> string \<times> nat \<Rightarrow> string \<times> nat" where
  "digest_lines fmtTime maxLen [] (b, omitted) = (b, omitted)"
| "digest_lines fmtTime maxLen (a # as) (b, omitted) =
     (let line = digest_line fmtTime a in
      if maxLen < int (length b + length line) then digest_lines fmtTime maxLen as (b, omitted + 1)
      else digest_lines fmtTime maxLen as (b @ line, omitted))"

definition group_header :: "alert list \<Rightarrow> string" where
  "group_header g = nl # digest_monitor (hd g) @ '' ('' @ fmt_d (int (length g)) @ '')'' @ [nl]"

fun digest_groups :: "(gtime \<Rightarrow> string) \<Rightarrow> int \<Rightarrow> alert list list \<Rightarrow> string \<times> nat \<Rightarrow> string \<times> nat" where
  "digest_groups fmtTime maxLen [] (b, omitted) = (b, omitted)"
| "digest_groups fmtTime maxLen (g # gs) (b, omitted) =
     (let header = group_header g in
      if maxLen < int (length b + length header) then digest_groups fmtTime maxLen gs (b, omitted + length g)
      else digest_groups fmtTime maxLen gs (digest_lines fmtTime maxLen g (b @ header, omitted)))"

definition digest_title :: "nat \<Rightarrow> nat \<Rightarrow> string" where
  "digest_title n m = ''SoroBeacon digest: '' @ fmt_d (int n) @ '' alert(s) across '' @ fmt_d (int m) @ '' monitor(s)'' @ [nl]"

definition digest_more :: "nat \<Rightarrow> string" where
  "digest_more omitted = (if 0 < omitted then nl # ''... and '' @ fmt_d (int omitted) @ '' more'' @ [nl] else '''')"

definition RenderDigest :: "(gtime \<Rightarrow> string) \<Rightarrow> alert list \<Rightarrow> int \<Rightarrow> string" where
  "RenderDigest fmtTime alerts maxLen0 =
     (if alerts = [] then ''''
      else (let maxLen = (if maxLen0 \<le> 0 then DefaultDigestMaxLen else maxLen0);
                groups = group_by digest_monitor alerts;
                (b, omitted) = digest_groups fmtTime maxLen groups (digest_title (length alerts) (length groups), 0)
            in trim_right_nl (b @ digest_more omitted)))"

subsection \<open>The queue and its flush\<close>

record DigestAlert =
  dg_ID :: int
  dg_ChannelID :: int
  dg_Payload :: string
  dg_CreatedAt :: gtime

definition PushDigestAlert :: "DigestAlert list \<Rightarrow> int \<Rightarrow> int \<Rightarrow> string \<Rightarrow> gtime \<Rightarrow> DigestAlert list" where
  "PushDigestAlert rows newID channelID payload now =
     rows @ [\<lparr>dg_ID = newID, dg_ChannelID = channelID, dg_Payload = payload, dg_CreatedAt = now\<rparr>]"

definition ListDigestAlerts :: "DigestAlert list \<Rightarrow> int \<Rightarrow> DigestAlert list" where
  "ListDigestAlerts rows channelID = sort_key dg_ID (filter (\<lambda>r. dg_ChannelID r = channelID) rows)"

definition DeleteDigestAlerts :: "DigestAlert list \<Rightarrow> int \<Rightarrow> int list \<Rightarrow> DigestAlert list" where
  "DeleteDigestAlerts rows channelID ids = filter (\<lambda>r. \<not> (dg_ChannelID r = channelID \<and> dg_ID r \<in> set ids)) rows"

definition enqueueDigest ::
    "(alert \<Rightarrow> string option) \<Rightarrow> bool \<Rightarrow> int \<Rightarrow> gtime \<Rightarrow> DigestAlert list \<Rightarrow> alert \<Rightarrow> channel \<Rightarrow> DigestAlert list" where
  "enqueueDigest marshal pushFails newID now rows a ch =
     (case marshal a of
        None \<Rightarrow> rows
      | Some payload \<Rightarrow> if pushFails then rows else PushDigestAlert rows newID (ch_ID ch) payload now)"

text \<open>What the surroundings answer to one channel's flush; \<open>fl_arrived\<close> are the rows pushed between the read and the deletion.\<close>

record flush_env =
  fl_unmarshal :: "string \<Rightarrow> alert option"
  fl_fmtTime :: "gtime \<Rightarrow> string"
  fl_factoryErr :: bool
  fl_slotErr :: bool
  fl_send :: send_result
  fl_deleteErr :: bool
  fl_listErr :: bool
  fl_arrived :: "DigestAlert list"

definition clearDigest :: "flush_env \<Rightarrow> DigestAlert list \<Rightarrow> int \<Rightarrow> int list \<Rightarrow> DigestAlert list" where
  "clearDigest env rows channelID ids = (if fl_deleteErr env then rows else DeleteDigestAlerts rows channelID ids)"

text \<open>The alerts a flush decodes and that meet the channel's threshold.\<close>

definition flush_alerts :: "flush_env \<Rightarrow> channel \<Rightarrow> DigestAlert list \<Rightarrow> alert list" where
  "flush_alerts env ch pending =
     filter (\<lambda>a. severityMeetsThreshold (al_Severity a) (ch_MinSeverity ch)) (List.map_filter (\<lambda>p. fl_unmarshal env (dg_Payload p)) pending)"

text \<open>The result: the summary if it was delivered, and the table.\<close>

definition flushDigest ::
    "flush_env \<Rightarrow> channel \<Rightarrow> DigestAlert list \<Rightarrow> DigestAlert list \<Rightarrow> alert option \<times> DigestAlert list" where
  "flushDigest env ch pending rows0 =
     (let rows = rows0 @ fl_arrived env; alerts = flush_alerts env ch pending; ids = map dg_ID pending in
      if alerts = [] then (None, clearDigest env rows (ch_ID ch) ids)
      else if fl_factoryErr env then (None, rows)
      else if fl_slotErr env then (None, rows)
      else (case sendWithRecovery (fl_send env) of
              Some e \<Rightarrow> (None, rows)
            | None \<Rightarrow>
                (Some (alert0\<lparr>al_MonitorID := al_MonitorID (hd alerts), al_MonitorName := al_MonitorName (hd alerts),
                              al_Digest := RenderDigest (fl_fmtTime env) alerts DefaultDigestMaxLen\<rparr>),
                 clearDigest env rows (ch_ID ch) ids)))"

definition digest_due :: "gtime \<Rightarrow> channel \<Rightarrow> DigestAlert list \<Rightarrow> bool" where
  "digest_due now ch pending =
     (case pending of [] \<Rightarrow> False
      | p # _ \<Rightarrow> \<not> time_sub now (dg_CreatedAt p) < wrap64 (ch_DigestWindowSeconds ch * second))"

text \<open>First every channel's pending rows are read, then the due ones are flushed.\<close>

definition due_digests :: "(int \<Rightarrow> flush_env) \<Rightarrow> gtime \<Rightarrow> channel list \<Rightarrow> DigestAlert list \<Rightarrow> (channel \<times> DigestAlert list) list" where
  "due_digests env now channels rows =
     filter (\<lambda>(ch, pending). digest_due now ch pending)
       (map (\<lambda>ch. (ch, ListDigestAlerts rows (ch_ID ch)))
          (filter (\<lambda>ch. digestEnabled ch \<and> \<not> fl_listErr (env (ch_ID ch))) channels))"

fun flush_all :: "(int \<Rightarrow> flush_env) \<Rightarrow> (channel \<times> DigestAlert list) list \<Rightarrow> DigestAlert list \<Rightarrow> (int \<times> alert) list \<times> DigestAlert list" where
  "flush_all env [] rows = ([], rows)"
| "flush_all env ((ch, pending) # due) rows =
     (case flushDigest (env (ch_ID ch)) ch pending rows of (sent, rows1) \<Rightarrow>
        (case flush_all env due rows1 of (others, rows2) \<Rightarrow>
           ((case sent of Some a \<Rightarrow> [(ch_ID ch, a)] | None \<Rightarrow> []) @ others, rows2)))"

definition FlushDigests ::
    "(int \<Rightarrow> flush_env) \<Rightarrow> gtime \<Rightarrow> store_err + channel list \<Rightarrow> DigestAlert list \<Rightarrow> (int \<times> alert) list \<times> DigestAlert list" where
  "FlushDigests env now channels rows =
     (case channels of Inl e \<Rightarrow> ([], rows) | Inr chs \<Rightarrow> flush_all env (due_digests env now chs rows) rows)"

subsection \<open>No alert disappears from a summary\<close>

lemma digest_lines_shown:
  "\<exists>shown n'. subseq shown as \<and>
     digest_lines f m as (b, n) = (b @ concat (map (digest_line f) shown), n') \<and> n' + length shown = n + length as \<and>
     (int (length b) \<le> m \<longrightarrow> int (length (b @ concat (map (digest_line f) shown))) \<le> m)"
proof (induction as arbitrary: b n)
  case (Cons a as)
  let ?line = "digest_line f a"
  show ?case
  proof (cases "m < int (length b + length ?line)")
    case True
    from Cons.IH [of b "n + 1"] obtain shown n' where s: "subseq shown as" "digest_lines f m as (b, n + 1) = (b @ concat (map (digest_line f) shown), n')"
        "n' + length shown = n + 1 + length as"
        "int (length b) \<le> m \<longrightarrow> int (length (b @ concat (map (digest_line f) shown))) \<le> m" by blast
    then show ?thesis using True list_emb_Cons [OF s(1), of a] by (intro exI [of _ shown] exI [of _ n']) (simp add: Let_def)
  next
    case False
    from Cons.IH [of "b @ ?line" n] obtain shown n' where s: "subseq shown as"
        "digest_lines f m as (b @ ?line, n) = ((b @ ?line) @ concat (map (digest_line f) shown), n')" "n' + length shown = n + length as"
        "int (length (b @ ?line)) \<le> m \<longrightarrow> int (length ((b @ ?line) @ concat (map (digest_line f) shown))) \<le> m" by blast
    then show ?thesis using False by (intro exI [of _ "a # shown"] exI [of _ n']) (simp add: Let_def)
  qed
qed (simp add: exI [of _ "[]"])

definition digest_block :: "(gtime \<Rightarrow> string) \<Rightarrow> alert list \<times> alert list \<Rightarrow> string" where
  "digest_block f = (\<lambda>(g, shown). group_header g @ concat (map (digest_line f) shown))"

lemma digest_groups_blocks:
  "\<exists>blocks. subseq (map fst blocks) gs \<and> list_all (\<lambda>(g, shown). subseq shown g) blocks \<and>
     (\<exists>n'. digest_groups f m gs (b, n) = (b @ concat (map (digest_block f) blocks), n') \<and>
        n' + sum_list (map (\<lambda>b. length (snd b)) blocks) = n + length (concat gs)) \<and>
     (int (length b) \<le> m \<longrightarrow> int (length (b @ concat (map (digest_block f) blocks))) \<le> m)"
proof (induction gs arbitrary: b n)
  case (Cons g gs)
  let ?h = "group_header g"
  show ?case
  proof (cases "m < int (length b + length ?h)")
    case True
    from Cons.IH [of b "n + length g"] obtain blocks n' where s: "subseq (map fst blocks) gs" "list_all (\<lambda>(g, shown). subseq shown g) blocks"
        "digest_groups f m gs (b, n + length g) = (b @ concat (map (digest_block f) blocks), n')"
        "n' + sum_list (map (\<lambda>b. length (snd b)) blocks) = n + length g + length (concat gs)"
        "int (length b) \<le> m \<longrightarrow> int (length (b @ concat (map (digest_block f) blocks))) \<le> m" by blast
    then show ?thesis using True list_emb_Cons [OF s(1), of g] by (intro exI [of _ blocks]) (auto simp: Let_def)
  next
    case False
    from digest_lines_shown [of g f m "b @ ?h" n] obtain shown k where l: "subseq shown g"
        "digest_lines f m g (b @ ?h, n) = ((b @ ?h) @ concat (map (digest_line f) shown), k)" "k + length shown = n + length g"
        "int (length (b @ ?h)) \<le> m \<longrightarrow> int (length ((b @ ?h) @ concat (map (digest_line f) shown))) \<le> m" by blast
    define b1 where "b1 = b @ digest_block f (g, shown)"
    have b1: "(b @ ?h) @ concat (map (digest_line f) shown) = b1" by (simp add: b1_def digest_block_def)
    from Cons.IH [of b1 k] obtain blocks n' where s: "subseq (map fst blocks) gs" "list_all (\<lambda>(g, shown). subseq shown g) blocks"
        "digest_groups f m gs (b1, k) = (b1 @ concat (map (digest_block f) blocks), n')"
        "n' + sum_list (map (\<lambda>b. length (snd b)) blocks) = k + length (concat gs)"
        "int (length b1) \<le> m \<longrightarrow> int (length (b1 @ concat (map (digest_block f) blocks))) \<le> m" by blast
    have d: "digest_groups f m (g # gs) (b, n) = (b1 @ concat (map (digest_block f) blocks), n')"
      using False l(2) s(3) unfolding b1 by (simp only: digest_groups.simps Let_def if_False)
    have e: "b1 @ concat (map (digest_block f) blocks) = b @ concat (map (digest_block f) ((g, shown) # blocks))" by (simp add: b1_def)
    have "int (length (b @ ?h)) \<le> m" using False by simp
    then have "int (length (b1 @ concat (map (digest_block f) blocks))) \<le> m" using l(4) s(5) unfolding b1 by blast
    moreover have "n' + sum_list (map (\<lambda>b. length (snd b)) ((g, shown) # blocks)) = n + length (concat (g # gs))"
      using s(4) l(3) by simp
    ultimately show ?thesis
      using d s(1,2) l(1) unfolding e by (intro exI [of _ "(g, shown) # blocks"]) auto
  qed
qed (simp add: exI [of _ "[]"])

text \<open>
  A digest accounts for every alert of the window: after the title come the monitors in the order they first appear, each with its
  full count and a selection of its alerts in order, and the closing line counts exactly the alerts that are not listed. Everything before that
  closing line fits the byte limit as soon as the title does.
\<close>

theorem digest_accounts_for_every_alert:
  assumes "alerts \<noteq> []" and "0 < maxLen"
  shows "\<exists>blocks omitted.
     (let body = digest_title (length alerts) (length (group_by digest_monitor alerts)) @ concat (map (digest_block fmtTime) blocks) in
      RenderDigest fmtTime alerts maxLen = trim_right_nl (body @ digest_more omitted) \<and>
      (int (length (digest_title (length alerts) (length (group_by digest_monitor alerts)))) \<le> maxLen \<longrightarrow> int (length body) \<le> maxLen)) \<and>
     subseq (map fst blocks) (group_by digest_monitor alerts) \<and> list_all (\<lambda>(g, shown). subseq shown g) blocks \<and>
     omitted + sum_list (map (\<lambda>b. length (snd b)) blocks) = length alerts"
proof -
  let ?t = "digest_title (length alerts) (length (group_by digest_monitor alerts))"
  from digest_groups_blocks [of "group_by digest_monitor alerts" fmtTime maxLen ?t 0] obtain blocks n'
    where b: "subseq (map fst blocks) (group_by digest_monitor alerts)" "list_all (\<lambda>(g, shown). subseq shown g) blocks"
      "digest_groups fmtTime maxLen (group_by digest_monitor alerts) (?t, 0) = (?t @ concat (map (digest_block fmtTime) blocks), n')"
      "n' + sum_list (map (\<lambda>b. length (snd b)) blocks) = 0 + length (concat (group_by digest_monitor alerts))"
      "int (length ?t) \<le> maxLen \<longrightarrow> int (length (?t @ concat (map (digest_block fmtTime) blocks))) \<le> maxLen" by blast
  show ?thesis
    using assms b by (intro exI [of _ blocks] exI [of _ n']) (simp add: RenderDigest_def Let_def)
qed

theorem digest_accounts_for_every_alert_witness:
  "\<exists>(blocks :: (alert list \<times> alert list) list) omitted. omitted + sum_list (map (\<lambda>b. length (snd b)) blocks) = (2 :: nat) \<and>
     subseq (map fst blocks) (group_by digest_monitor [alert0, alert0\<lparr>al_MonitorName := ''pool''\<rparr>])"
proof -
  let ?as = "[alert0, alert0\<lparr>al_MonitorName := ''pool''\<rparr>]"
  have "?as \<noteq> []" "0 < DefaultDigestMaxLen" by (simp_all add: DefaultDigestMaxLen_def)
  from digest_accounts_for_every_alert [OF this, where fmtTime = fmt_d] obtain blocks :: "(alert list \<times> alert list) list" and omitted
    where "subseq (map fst blocks) (group_by digest_monitor ?as)" "omitted + sum_list (map (\<lambda>b. length (snd b)) blocks) = length ?as"
    by (elim exE conjE) (rule that)
  moreover have "length ?as = 2" by simp
  ultimately show ?thesis by metis
qed

subsection \<open>No queued alert is lost\<close>

text \<open>The row was covered by the flush: it cannot be decoded, it is below the channel's threshold, or it is in the summary that was sent.\<close>

definition covered :: "flush_env \<Rightarrow> channel \<Rightarrow> DigestAlert list \<Rightarrow> alert option \<Rightarrow> DigestAlert \<Rightarrow> bool" where
  "covered env ch pending sent r \<longleftrightarrow> r \<in> set pending \<and>
     (case fl_unmarshal env (dg_Payload r) of
        None \<Rightarrow> True
      | Some a \<Rightarrow> \<not> severityMeetsThreshold (al_Severity a) (ch_MinSeverity ch) \<or>
                  (a \<in> set (flush_alerts env ch pending) \<and>
                   (\<exists>s. sent = Some s \<and> al_Digest s = RenderDigest (fl_fmtTime env) (flush_alerts env ch pending) DefaultDigestMaxLen)))"

lemma flush_alerts_mem:
  "a \<in> set (flush_alerts env ch pending) \<longleftrightarrow>
     (\<exists>p \<in> set pending. fl_unmarshal env (dg_Payload p) = Some a \<and> severityMeetsThreshold (al_Severity a) (ch_MinSeverity ch))"
  by (auto simp: flush_alerts_def map_filter_def) (metis (mono_tags, lifting) imageI mem_Collect_eq option.sel option.distinct(1))

text \<open>
  C38. Flushing a digest never loses an alert: a row leaves the queue only if it belongs to the channel and was read for this flush, and then it
  could not be decoded, is below the channel's threshold, or is part of the summary that was delivered. When the notifier cannot be built, no
  slot is free or the send fails, the queue keeps every row, and rows that arrive during the flush always stay.
\<close>

theorem digest_flush_never_loses_an_alert:
  assumes ids: "distinct (map dg_ID (rows @ fl_arrived env))" and p: "set pending \<subseteq> set rows"
    and f: "flushDigest env ch pending rows = (sent, rows')"
  shows "set rows' \<subseteq> set (rows @ fl_arrived env) \<and> set (fl_arrived env) \<subseteq> set rows' \<and>
     (\<forall>r \<in> set rows - set rows'. dg_ChannelID r = ch_ID ch \<and> covered env ch pending sent r) \<and>
     (sent = None \<and> flush_alerts env ch pending \<noteq> [] \<longrightarrow> set rows \<subseteq> set rows')"
proof -
  let ?all = "rows @ fl_arrived env"
  have uniq: "r = r'" if "r \<in> set ?all" "r' \<in> set ?all" "dg_ID r = dg_ID r'" for r r'
    using inj_onD [OF conjunct2 [OF ids [unfolded distinct_map]] that(3,1,2)] .
  have gone: "r \<in> set pending" if "r \<in> set ?all" "dg_ID r \<in> dg_ID ` set pending" for r
  proof -
    note h = that
    obtain q where q: "q \<in> set pending" "dg_ID r = dg_ID q" using h(2) by auto
    then have "r = q" using uniq [OF h(1), of q] p by auto
    then show ?thesis using q(1) by simp
  qed
  have "set rows \<inter> set (fl_arrived env) = {}"
    using ids unfolding map_append distinct_append by auto
  then have new: "r \<notin> set pending" if "r \<in> set (fl_arrived env)" for r
    using that p by blast
  have out: "rows' = ?all \<and> (flush_alerts env ch pending \<noteq> [] \<or> fl_deleteErr env) \<or>
      rows' = DeleteDigestAlerts ?all (ch_ID ch) (map dg_ID pending) \<and> (flush_alerts env ch pending \<noteq> [] \<longrightarrow>
        (\<exists>s. sent = Some s \<and> al_Digest s = RenderDigest (fl_fmtTime env) (flush_alerts env ch pending) DefaultDigestMaxLen))"
    using f unfolding flushDigest_def clearDigest_def Let_def
    by (cases "sendWithRecovery (fl_send env)") (simp_all split: if_splits, auto)
  have arrived: "set (fl_arrived env) \<subseteq> set rows'"
  proof
    fix r
    assume r: "r \<in> set (fl_arrived env)"
    then have "dg_ID r \<notin> dg_ID ` set pending" using gone [of r] new [OF r] by auto
    then show "r \<in> set rows'" using out r by (auto simp: DeleteDigestAlerts_def)
  qed
  have lost: "dg_ChannelID r = ch_ID ch \<and> covered env ch pending sent r" if "r \<in> set rows - set rows'" for r
  proof -
    have d: "rows' = DeleteDigestAlerts ?all (ch_ID ch) (map dg_ID pending)" 
        "flush_alerts env ch pending \<noteq> [] \<Longrightarrow>
        \<exists>s. sent = Some s \<and> al_Digest s = RenderDigest (fl_fmtTime env) (flush_alerts env ch pending) DefaultDigestMaxLen"
      using out that by auto
    have c: "dg_ChannelID r = ch_ID ch" "dg_ID r \<in> dg_ID ` set pending"
      using that unfolding d(1) by (auto simp: DeleteDigestAlerts_def)
    have r: "r \<in> set pending" using gone [of r] c(2) that by simp
    show ?thesis
    proof (cases "fl_unmarshal env (dg_Payload r)")
      case None
      then show ?thesis using c(1) r by (simp add: covered_def)
    next
      case (Some a)
      show ?thesis
      proof (cases "severityMeetsThreshold (al_Severity a) (ch_MinSeverity ch)")
        case True
        then have "a \<in> set (flush_alerts env ch pending)" using Some r flush_alerts_mem by blast
        moreover from this have "flush_alerts env ch pending \<noteq> []" by auto
        ultimately show ?thesis using c(1) r Some d(2) by (simp add: covered_def)
      qed (use c(1) r Some in \<open>simp add: covered_def\<close>)
    qed
  qed
  have "set rows \<subseteq> set rows'" if "sent = None" "flush_alerts env ch pending \<noteq> []"
    using out that by auto
  moreover have "set rows' \<subseteq> set ?all" using out by (auto simp: DeleteDigestAlerts_def)
  ultimately show ?thesis using arrived lost by blast
qed

definition digest_demo_env :: flush_env where
  "digest_demo_env = \<lparr>fl_unmarshal = (\<lambda>p. if p = ''bad'' then None else Some (alert0\<lparr>al_EventName := p\<rparr>)), fl_fmtTime = fmt_d, fl_factoryErr = False,
     fl_slotErr = False, fl_send = Sent, fl_deleteErr = False, fl_listErr = False,
     fl_arrived = [\<lparr>dg_ID = 3, dg_ChannelID = 0, dg_Payload = ''late'', dg_CreatedAt = 9\<rparr>]\<rparr>"

theorem digest_flush_never_loses_an_alert_witness:
  "\<lparr>dg_ID = 3, dg_ChannelID = 0, dg_Payload = ''late'', dg_CreatedAt = 9\<rparr> \<in>
     set (snd (flushDigest digest_demo_env channel0 [\<lparr>dg_ID = 1, dg_ChannelID = 0, dg_Payload = ''mint'', dg_CreatedAt = 1\<rparr>]
       [\<lparr>dg_ID = 1, dg_ChannelID = 0, dg_Payload = ''mint'', dg_CreatedAt = 1\<rparr>]))"
proof -
  let ?r = "\<lparr>dg_ID = 1, dg_ChannelID = 0, dg_Payload = ''mint'', dg_CreatedAt = 1\<rparr>"
  obtain sent rows' where f: "flushDigest digest_demo_env channel0 [?r] [?r] = (sent, rows')" by fastforce
  have ids: "distinct (map dg_ID ([?r] @ fl_arrived digest_demo_env))" by (simp add: digest_demo_env_def)
  from digest_flush_never_loses_an_alert [OF ids _ f] show ?thesis
    unfolding f by (simp add: digest_demo_env_def)
qed

lemma flushDigest_enabled [simp]: "flushDigest env (ch\<lparr>ch_Enabled := b\<rparr>) pending rows = flushDigest env ch pending rows"
  by (simp add: flushDigest_def flush_alerts_def Let_def split: option.split)

lemma flush_all_enabled:
  "flush_all env (map (\<lambda>(ch, p). (ch\<lparr>ch_Enabled := b\<rparr>, p)) due) rows = flush_all env due rows"
  by (induction env due rows rule: flush_all.induct) (auto split: prod.split option.split)

text \<open>
  Whether a channel is enabled makes no difference to the flush of its digest: a channel that was switched off with alerts in
  its window still receives the summary.
\<close>

theorem disabled_channels_receive_digests:
  "FlushDigests env now (Inr (map (\<lambda>ch. ch\<lparr>ch_Enabled := b\<rparr>) chs)) rows = FlushDigests env now (Inr chs) rows"
proof -
  have "due_digests env now (map (\<lambda>ch. ch\<lparr>ch_Enabled := b\<rparr>) chs) rows = map (\<lambda>(ch, p). (ch\<lparr>ch_Enabled := b\<rparr>, p)) (due_digests env now chs rows)"
    unfolding due_digests_def by (induction chs) (auto simp: digestEnabled_def digest_due_def split: list.split)
  then show ?thesis by (simp add: FlushDigests_def flush_all_enabled)
qed

end
