(* ===== verification/Rule_Isolation.thy ===== *)
theory Rule_Isolation
  imports Beacon_Prelude
begin

text \<open>
  \<open>internal/rules/isolation.go\<close>: the boundary the registry runs every rule evaluation in. It rolls the rule's
  in-memory state back when the evaluation fails, attributes the failure to the rule or to the database, and
  quarantines a rule after consecutive failures of its own.

  The evaluators' in-memory state is kept per rule id: \<open>rg_states r\<close> is what \<open>SnapshotRule(r)\<close> returns over
  all stateful evaluators, and \<open>'s\<close> stays abstract. The evaluation itself is a parameter: from the state it
  starts in it gives what came back, the state it left, and the clock readings around it. A Go map is
  iterated in an arbitrary order, which is the argument \<open>order\<close> of the eviction. Observer callbacks are not
  modelled; the calls of the quarantine hook are outputs. Two effects outside the evaluated rule's own call are left out: an evaluation
  that outlives the grace period is abandoned by the code and may write after the roll-back, and
  \<open>frequency_threshold\<close> may evict the state of another rule when its table is full.
\<close>

definition DefaultEvalTimeout :: duration where "DefaultEvalTimeout = 100 * millisecond"
definition DefaultQuarantineThreshold :: int where "DefaultQuarantineThreshold = 3"
definition MaxTrackedStatefulRules :: nat where "MaxTrackedStatefulRules = 10000"

datatype EvalFailureKind =
    EvalFailureNone
  | EvalFailureTimeout
  | EvalFailurePanic
  | EvalFailureError
  | EvalFailureQuarantined
  | EvalFailureStorage

text \<open>What an evaluator returns as an error, as far as \<open>errors.Is\<close> and \<open>errors.As\<close> look into it.\<close>

record eval_err =
  ee_storage :: bool
  ee_deadline :: bool
  ee_text :: string

datatype iso_err =
    RuleEvalError EvalFailureKind bool "eval_err option"
  | WrapStorageError eval_err
  | PlainError eval_err

definition IsStorageError :: "iso_err \<Rightarrow> bool" where
  "IsStorageError err =
     (case err of
        WrapStorageError e \<Rightarrow> True
      | PlainError e \<Rightarrow> ee_storage e
      | RuleEvalError kind q cause \<Rightarrow>
          kind \<notin> {EvalFailurePanic, EvalFailureTimeout, EvalFailureQuarantined}
            \<and> (case cause of None \<Rightarrow> False | Some e \<Rightarrow> ee_storage e))"

definition IsRuleIsolatedFailure :: "iso_err option \<Rightarrow> bool" where
  "IsRuleIsolatedFailure err =
     (case err of
        None \<Rightarrow> False
      | Some e \<Rightarrow>
          if IsStorageError e then False
          else case e of RuleEvalError kind q cause \<Rightarrow> kind \<noteq> EvalFailureStorage | _ \<Rightarrow> True)"

subsection \<open>Time spent in the database\<close>

record dbDurationTracker =
  dt_accumNanos :: duration
  dt_inFlight :: nat
  dt_startedAt :: gtime
  dt_storageErr :: bool

definition WithDBTimeTracker :: dbDurationTracker where
  "WithDBTimeTracker = \<lparr>dt_accumNanos = 0, dt_inFlight = 0, dt_startedAt = 0, dt_storageErr = False\<rparr>"

definition EnterDB :: "gtime \<Rightarrow> dbDurationTracker \<Rightarrow> dbDurationTracker" where
  "EnterDB now t =
     (let t1 = (if dt_inFlight t = 0 then t\<lparr>dt_startedAt := now\<rparr> else t) in t1\<lparr>dt_inFlight := dt_inFlight t1 + 1\<rparr>)"

definition LeaveDB :: "gtime \<Rightarrow> bool \<Rightarrow> dbDurationTracker \<Rightarrow> dbDurationTracker" where
  "LeaveDB end failed t =
     (let t1 = (if 0 < dt_inFlight t
                then (let t2 = t\<lparr>dt_inFlight := dt_inFlight t - 1\<rparr> in
                      if dt_inFlight t2 = 0 \<and> dt_startedAt t2 \<noteq> 0
                      then t2\<lparr>dt_accumNanos := dt_accumNanos t2 +
                                (let d = time_sub end (dt_startedAt t2) in if 0 < d then d else 0),
                              dt_startedAt := 0\<rparr>
                      else t2)
                else t)
      in if failed then t1\<lparr>dt_storageErr := True\<rparr> else t1)"

definition RecordDBDuration :: "duration \<Rightarrow> bool \<Rightarrow> dbDurationTracker \<Rightarrow> dbDurationTracker" where
  "RecordDBDuration d failed t =
     (let t1 = t\<lparr>dt_accumNanos := dt_accumNanos t + (if d < 0 then 0 else d)\<rparr> in
      if failed then t1\<lparr>dt_storageErr := True\<rparr> else t1)"

definition AttributedDBDuration :: "gtime \<Rightarrow> dbDurationTracker \<Rightarrow> duration \<times> bool" where
  "AttributedDBDuration now t =
     (dt_accumNanos t +
        (if 0 < dt_inFlight t \<and> dt_startedAt t \<noteq> 0
         then (let d = time_sub now (dt_startedAt t) in if 0 < d then d else 0) else 0),
      dt_storageErr t)"

subsection \<open>The registry's view of a rule\<close>

record RuleQuarantineState =
  qs_RuleID :: int
  qs_RuleVersion :: int
  qs_RuleType :: string
  qs_ConsecutiveFailures :: nat
  qs_TotalFailures :: nat
  qs_TotalTimeouts :: nat
  qs_TotalPanics :: nat
  qs_Quarantined :: bool
  qs_QuarantinedAt :: gtime
  qs_Reason :: EvalFailureKind
  qs_LastError :: string
  qs_LastDuration :: duration

definition fresh_entry :: "int \<Rightarrow> int \<Rightarrow> string \<Rightarrow> RuleQuarantineState" where
  "fresh_entry ruleID version ruleType =
     \<lparr>qs_RuleID = ruleID, qs_RuleVersion = version, qs_RuleType = ruleType, qs_ConsecutiveFailures = 0,
      qs_TotalFailures = 0, qs_TotalTimeouts = 0, qs_TotalPanics = 0, qs_Quarantined = False, qs_QuarantinedAt = 0,
      qs_Reason = EvalFailureNone, qs_LastError = '''', qs_LastDuration = 0\<rparr>"

record 's registry =
  rg_evalTimeout :: duration
  rg_quarantineThreshold :: int
  rg_isolation :: "(int \<times> RuleQuarantineState) list"
  rg_states :: "int \<Rightarrow> 's"

definition entryOf :: "int \<Rightarrow> 's registry \<Rightarrow> RuleQuarantineState option" where
  "entryOf ruleID r = map_of (rg_isolation r) ruleID"

definition drop_key :: "int \<Rightarrow> (int \<times> 'v) list \<Rightarrow> (int \<times> 'v) list" where
  "drop_key k rows = filter (\<lambda>(k', v). k' \<noteq> k) rows"

definition put_key :: "int \<Rightarrow> 'v \<Rightarrow> (int \<times> 'v) list \<Rightarrow> (int \<times> 'v) list" where
  "put_key k v rows = drop_key k rows @ [(k, v)]"

definition QuarantineState :: "int \<Rightarrow> 's registry \<Rightarrow> RuleQuarantineState option" where
  "QuarantineState ruleID r = (if ruleID = 0 then None else entryOf ruleID r)"

definition QuarantinedRules :: "'s registry \<Rightarrow> RuleQuarantineState list" where
  "QuarantinedRules r = filter qs_Quarantined (map snd (rg_isolation r))"

definition QuarantinedCount :: "'s registry \<Rightarrow> nat" where
  "QuarantinedCount r = length (QuarantinedRules r)"

text \<open>\<open>clearIsolationState\<close>: whether the rule was quarantined, and the hook call that reports it.\<close>

definition clearIsolationState :: "int \<Rightarrow> 's registry \<Rightarrow> 's registry \<times> bool \<times> RuleQuarantineState list" where
  "clearIsolationState ruleID r =
     (if ruleID = 0 then (r, False, [])
      else case entryOf ruleID r of
             None \<Rightarrow> (r, False, [])
           | Some st \<Rightarrow>
               (r\<lparr>rg_isolation := drop_key ruleID (rg_isolation r)\<rparr>, qs_Quarantined st,
                if qs_Quarantined st
                then [st\<lparr>qs_Quarantined := False, qs_ConsecutiveFailures := 0, qs_QuarantinedAt := 0\<rparr>] else []))"

definition reset_states :: "'s \<Rightarrow> int \<Rightarrow> 's registry \<Rightarrow> 's registry" where
  "reset_states none ruleID r = r\<lparr>rg_states := (rg_states r)(ruleID := none)\<rparr>"

definition ReenableRule :: "'s \<Rightarrow> int \<Rightarrow> 's registry \<Rightarrow> 's registry \<times> bool \<times> RuleQuarantineState list" where
  "ReenableRule none ruleID r =
     (if ruleID = 0 then (r, False, []) else clearIsolationState ruleID (reset_states none ruleID r))"

definition restoreRuleStates :: "int \<Rightarrow> 's \<Rightarrow> 's registry \<Rightarrow> 's registry" where
  "restoreRuleStates ruleID snap r = (if ruleID = 0 then r else r\<lparr>rg_states := (rg_states r)(ruleID := snap)\<rparr>)"

definition checkQuarantineBeforeEval ::
  "'s \<Rightarrow> int \<Rightarrow> int \<Rightarrow> 's registry \<Rightarrow> 's registry \<times> bool \<times> RuleQuarantineState list" where
  "checkQuarantineBeforeEval none ruleID ruleVersion r =
     (if ruleID = 0 then (r, False, [])
      else case entryOf ruleID r of
             None \<Rightarrow> (r, False, [])
           | Some st \<Rightarrow>
               if \<not> qs_Quarantined st then (r, False, [])
               else if 0 < ruleVersion \<and> 0 < qs_RuleVersion st \<and> ruleVersion \<noteq> qs_RuleVersion st
               then (let r1 = r\<lparr>rg_isolation := drop_key ruleID (rg_isolation r)\<rparr>;
                         (r2, was, hooks) = ReenableRule none ruleID r1
                     in (r2, False, hooks @ [st\<lparr>qs_Quarantined := False, qs_ConsecutiveFailures := 0, qs_RuleVersion := ruleVersion\<rparr>]))
               else (r, True, []))"

subsection \<open>Recording an outcome\<close>

fun evict :: "int list \<Rightarrow> (int \<times> RuleQuarantineState) list \<Rightarrow> (int \<times> RuleQuarantineState) list" where
  "evict [] rows = rows"
| "evict (k # ks) rows =
     (case map_of rows k of
        Some v \<Rightarrow> if \<not> qs_Quarantined v then drop_key k rows else evict ks rows
      | None \<Rightarrow> evict ks rows)"

definition strike ::
  "int \<Rightarrow> gtime \<Rightarrow> int \<Rightarrow> string \<Rightarrow> duration \<Rightarrow> EvalFailureKind \<Rightarrow> string option \<Rightarrow> RuleQuarantineState \<Rightarrow> RuleQuarantineState \<times> bool" where
  "strike threshold now ruleVersion ruleType ruleDuration kind errText st =
     (let st1 = st\<lparr>qs_RuleType := ruleType,
                   qs_RuleVersion := (if 0 < ruleVersion then ruleVersion else qs_RuleVersion st),
                   qs_ConsecutiveFailures := qs_ConsecutiveFailures st + 1,
                   qs_TotalFailures := qs_TotalFailures st + 1,
                   qs_TotalTimeouts := qs_TotalTimeouts st + (if kind = EvalFailureTimeout then 1 else 0),
                   qs_TotalPanics := qs_TotalPanics st + (if kind = EvalFailurePanic then 1 else 0),
                   qs_LastDuration := ruleDuration,
                   qs_LastError := (case errText of None \<Rightarrow> qs_LastError st | Some e \<Rightarrow> e)\<rparr>
      in if 0 < threshold \<and> \<not> qs_Quarantined st1 \<and> threshold \<le> int (qs_ConsecutiveFailures st1)
         then (st1\<lparr>qs_Quarantined := True, qs_QuarantinedAt := now, qs_Reason := kind\<rparr>, True)
         else (st1, False))"

definition recordEvalOutcome ::
  "int list \<Rightarrow> gtime \<Rightarrow> int \<Rightarrow> int \<Rightarrow> string \<Rightarrow> duration \<Rightarrow> EvalFailureKind \<Rightarrow> string option \<Rightarrow> 's registry
     \<Rightarrow> 's registry \<times> bool \<times> RuleQuarantineState list" where
  "recordEvalOutcome order now ruleID ruleVersion ruleType ruleDuration kind errText r =
     (if ruleID = 0 then (r, False, [])
      else case kind of
        EvalFailureNone \<Rightarrow>
          (case entryOf ruleID r of
             Some st \<Rightarrow>
               if \<not> qs_Quarantined st
               then (r\<lparr>rg_isolation := put_key ruleID (st\<lparr>qs_ConsecutiveFailures := 0, qs_LastDuration := ruleDuration\<rparr>) (rg_isolation r)\<rparr>,
                     False, [])
               else (r, False, [])
           | None \<Rightarrow> (r, False, []))
      | EvalFailureStorage \<Rightarrow> (r, False, [])
      | EvalFailureQuarantined \<Rightarrow>
          (r, case entryOf ruleID r of None \<Rightarrow> False | Some st \<Rightarrow> qs_Quarantined st, [])
      | _ \<Rightarrow>
          (let rows = (if entryOf ruleID r = None \<and> MaxTrackedStatefulRules \<le> length (rg_isolation r)
                       then evict order (rg_isolation r) else rg_isolation r);
               st = (case entryOf ruleID r of None \<Rightarrow> fresh_entry ruleID ruleVersion ruleType | Some st \<Rightarrow> st);
               (st', transitioned) = strike (rg_quarantineThreshold r) now ruleVersion ruleType ruleDuration kind errText st
           in (r\<lparr>rg_isolation := put_key ruleID st' rows\<rparr>, qs_Quarantined st', if transitioned then [st'] else [])))"

subsection \<open>Waiting for an evaluation\<close>

text \<open>
  The wait with a timeout: each timer that fires while the evaluation runs reads the wall time since the start
  and the database time so far. The result says whether a timer ended the wait, and the waits armed.
\<close>

fun wait_loop :: "duration \<Rightarrow> (duration \<times> duration) list \<Rightarrow> bool \<times> duration list" where
  "wait_loop timeout [] = (False, [])"
| "wait_loop timeout ((elapsed, db) # fires) =
     (let ruleSoFar = elapsed - db in
      if ruleSoFar < timeout
      then (let w = (if timeout - ruleSoFar < millisecond then millisecond else timeout - ruleSoFar);
                (t, ws) = wait_loop timeout fires in (t, w # ws))
      else (True, []))"

datatype call_result = Returned bool "eval_err option" | CallPanicked string

record 's eval_run =
  er_result :: call_result
  er_state :: 's
  er_fires :: "(duration \<times> duration) list"
  er_total :: duration
  er_db :: duration
  er_storageErr :: bool

definition timed_out :: "duration \<Rightarrow> 's eval_run \<Rightarrow> bool" where
  "timed_out timeout run = (0 < timeout \<and> fst (wait_loop timeout (er_fires run)))"

definition rule_duration :: "'s eval_run \<Rightarrow> duration" where
  "rule_duration run = (let d = er_total run - er_db run in if d < 0 then 0 else d)"

subsection \<open>The isolation boundary\<close>

definition is_deadline :: "eval_err option \<Rightarrow> bool" where
  "is_deadline err = (case err of None \<Rightarrow> False | Some e \<Rightarrow> ee_deadline e)"

definition is_storage :: "eval_err option \<Rightarrow> bool" where
  "is_storage err = (case err of None \<Rightarrow> False | Some e \<Rightarrow> ee_storage e)"

text \<open>
  What the boundary makes of a finished call: the failure it records, the answer it gives, and whether the
  rule's state is rolled back.
\<close>

definition classify :: "duration \<Rightarrow> 's eval_run \<Rightarrow> EvalFailureKind \<times> (bool \<Rightarrow> iso_err + bool) \<times> bool" where
  "classify timeout run =
     (case er_result run of
        CallPanicked v \<Rightarrow> (EvalFailurePanic, (\<lambda>q. Inl (RuleEvalError EvalFailurePanic q None)), True)
      | Returned matched err \<Rightarrow>
          if er_storageErr run \<or> is_storage err
          then (case err of
                  Some e \<Rightarrow> (EvalFailureStorage, (\<lambda>q. Inl (RuleEvalError EvalFailureStorage False (Some e))), True)
                | None \<Rightarrow> (EvalFailureStorage, (\<lambda>q. Inr matched), False))
          else if timed_out timeout run \<or> is_deadline err \<or> (0 < timeout \<and> timeout \<le> rule_duration run)
          then (if 0 < timeout \<and> 0 < er_db run \<and> rule_duration run < timeout
                then (EvalFailureNone,
                      (\<lambda>q. case err of
                             None \<Rightarrow> Inr matched
                           | Some e \<Rightarrow> if ee_deadline e then Inl (WrapStorageError e) else Inl (PlainError e)),
                      is_deadline err)
                else (EvalFailureTimeout, (\<lambda>q. Inl (RuleEvalError EvalFailureTimeout q None)), True))
          else (case err of
                  Some e \<Rightarrow> (EvalFailureError, (\<lambda>q. Inl (RuleEvalError EvalFailureError q (Some e))), True)
                | None \<Rightarrow> (EvalFailureNone, (\<lambda>q. Inr matched), False)))"

text \<open>The text of the error a failed evaluation is recorded with; \<open>durText\<close> is \<open>time.Duration.String\<close>.\<close>

definition eval_error_text :: "(duration \<Rightarrow> string) \<Rightarrow> int \<Rightarrow> string \<Rightarrow> EvalFailureKind \<Rightarrow> 's eval_run \<Rightarrow> string option" where
  "eval_error_text durText ruleID ruleType kind run =
     (let head = ''rule '' @ fmt_d ruleID @ '' ('' @ ruleType @ '')'' in
      case kind of
        EvalFailurePanic \<Rightarrow> (case er_result run of CallPanicked v \<Rightarrow> Some (head @ '' panicked: '' @ v) | _ \<Rightarrow> None)
      | EvalFailureTimeout \<Rightarrow>
          Some (head @ '' evaluation timed out after '' @ durText (rule_duration run) @ '' (db='' @ durText (er_db run) @ '')'')
      | EvalFailureError \<Rightarrow> (case er_result run of Returned m (Some e) \<Rightarrow> Some (ee_text e) | _ \<Rightarrow> None)
      | EvalFailureStorage \<Rightarrow> (case er_result run of Returned m (Some e) \<Rightarrow> Some (ee_text e) | _ \<Rightarrow> None)
      | _ \<Rightarrow> None)"

definition evaluateIsolated ::
  "(duration \<Rightarrow> string) \<Rightarrow> 's \<Rightarrow> int list \<Rightarrow> gtime \<Rightarrow> int \<Rightarrow> int \<Rightarrow> string \<Rightarrow> ('s \<Rightarrow> 's eval_run) \<Rightarrow> 's registry
     \<Rightarrow> 's registry \<times> (iso_err + bool) \<times> RuleQuarantineState list" where
  "evaluateIsolated durText none order now ruleID ruleVersion ruleType evaluate r =
     (case checkQuarantineBeforeEval none ruleID ruleVersion r of
        (r1, True, hooks) \<Rightarrow>
          (case recordEvalOutcome order now ruleID ruleVersion ruleType 0 EvalFailureQuarantined None r1 of
             (r2, q, hooks') \<Rightarrow> (r2, Inl (RuleEvalError EvalFailureQuarantined True None), hooks @ hooks'))
      | (r1, False, hooks) \<Rightarrow>
          (let snap = rg_states r1 ruleID;
               run = evaluate snap;
               r2 = r1\<lparr>rg_states := (rg_states r1)(ruleID := er_state run)\<rparr>;
               (kind, answer, rollback) = classify (rg_evalTimeout r1) run;
               r3 = (if rollback then restoreRuleStates ruleID snap r2 else r2);
               (r4, q, hooks') = recordEvalOutcome order now ruleID ruleVersion ruleType (rule_duration run) kind
                                   (eval_error_text durText ruleID ruleType kind run) r3
           in (r4, answer q, hooks @ hooks')))"

subsection \<open>Entries\<close>

lemma map_of_drop_key: "map_of (drop_key k rows) k' = (if k' = k then None else map_of rows k')"
  by (induction rows) (auto simp: drop_key_def)

lemma map_of_put_key: "map_of (put_key k v rows) k' = (if k' = k then Some v else map_of rows k')"
  by (auto simp: put_key_def map_of_append map_of_drop_key map_add_def split: option.splits)

lemma entryOf_put [simp]: "entryOf k (r\<lparr>rg_isolation := put_key i st rows\<rparr>) = (if k = i then Some st else map_of rows k)"
  by (simp add: entryOf_def map_of_put_key)

lemma record_none [simp]:
  "recordEvalOutcome order now ruleID v ty d EvalFailureStorage t r = (r, False, [])"
  by (simp add: recordEvalOutcome_def)

lemma record_states [simp]: "rg_states (fst (recordEvalOutcome order now i v ty d kind t r)) = rg_states r"
  by (auto simp: recordEvalOutcome_def Let_def split: EvalFailureKind.splits option.splits prod.splits)

lemma record_config [simp]:
  "rg_quarantineThreshold (fst (recordEvalOutcome order now i v ty d kind t r)) = rg_quarantineThreshold r"
  by (auto simp: recordEvalOutcome_def Let_def split: EvalFailureKind.splits option.splits prod.splits)

subsection \<open>Counting strikes\<close>

definition failing :: "EvalFailureKind \<Rightarrow> bool" where
  "failing kind \<longleftrightarrow> kind = EvalFailureTimeout \<or> kind = EvalFailurePanic \<or> kind = EvalFailureError"

type_synonym outcome = "int list \<times> gtime \<times> int \<times> string \<times> duration \<times> EvalFailureKind \<times> string option"

definition kind_of :: "outcome \<Rightarrow> EvalFailureKind" where
  "kind_of out = fst (snd (snd (snd (snd (snd out)))))"

definition record_one :: "int \<Rightarrow> outcome \<Rightarrow> 's registry \<Rightarrow> 's registry" where
  "record_one ruleID out r =
     (case out of (order, now, v, ty, d, kind, t) \<Rightarrow> fst (recordEvalOutcome order now ruleID v ty d kind t r))"

definition record_all :: "int \<Rightarrow> outcome list \<Rightarrow> 's registry \<Rightarrow> 's registry" where
  "record_all ruleID outs r = fold (record_one ruleID) outs r"

definition strikes :: "EvalFailureKind list \<Rightarrow> nat" where
  "strikes ks = length (filter failing (takeWhile (\<lambda>k. k \<noteq> EvalFailureNone) (rev ks)))"

lemma strikes_snoc:
  "strikes (ks @ [k]) = (if k = EvalFailureNone then 0 else strikes ks + (if failing k then 1 else 0))"
  by (simp add: strikes_def)

text \<open>A stretch of outcomes without a success that holds as many rule failures as the threshold.\<close>

definition bad_stretch :: "int \<Rightarrow> EvalFailureKind list \<Rightarrow> bool" where
  "bad_stretch threshold ks \<longleftrightarrow>
     (\<exists>pre seg post. ks = pre @ seg @ post \<and> EvalFailureNone \<notin> set seg \<and> threshold \<le> int (length (filter failing seg)))"

lemma strikes_suffix:
  "\<exists>pre seg. ks = pre @ seg \<and> EvalFailureNone \<notin> set seg \<and> length (filter failing seg) = strikes ks"
proof -
  let ?seg = "rev (takeWhile (\<lambda>k. k \<noteq> EvalFailureNone) (rev ks))"
  let ?pre = "rev (dropWhile (\<lambda>k. k \<noteq> EvalFailureNone) (rev ks))"
  have "?pre @ ?seg = rev (takeWhile (\<lambda>k. k \<noteq> EvalFailureNone) (rev ks) @ dropWhile (\<lambda>k. k \<noteq> EvalFailureNone) (rev ks))"
    by (simp only: rev_append)
  then have "ks = ?pre @ ?seg" by simp
  moreover have "EvalFailureNone \<notin> set ?seg" by (auto dest: set_takeWhileD)
  moreover have "length (filter failing ?seg) = strikes ks" by (simp add: strikes_def rev_filter [symmetric])
  ultimately show ?thesis by blast
qed

lemma strikes_max: "EvalFailureNone \<notin> set seg \<Longrightarrow> length (filter failing seg) \<le> strikes (pre @ seg)"
  by (induction seg rule: rev_induct) (auto simp: strikes_snoc append_assoc [symmetric] simp del: append_assoc)

lemma bad_stretch_snoc: "bad_stretch th (ks @ [k]) \<longleftrightarrow> bad_stretch th ks \<or> th \<le> int (strikes (ks @ [k]))"
proof
  assume "bad_stretch th (ks @ [k])"
  then obtain pre seg post where s: "ks @ [k] = pre @ seg @ post" "EvalFailureNone \<notin> set seg" "th \<le> int (length (filter failing seg))"
    by (auto simp: bad_stretch_def)
  show "bad_stretch th ks \<or> th \<le> int (strikes (ks @ [k]))"
  proof (cases post rule: rev_cases)
    case Nil
    then show ?thesis using s strikes_max [OF s(2), of pre] by auto
  next
    case (snoc post' x)
    then have "ks = pre @ seg @ post'" using s(1) by (metis append_assoc butlast_snoc)
    then show ?thesis using s(2,3) by (auto simp: bad_stretch_def)
  qed
next
  assume "bad_stretch th ks \<or> th \<le> int (strikes (ks @ [k]))"
  then show "bad_stretch th (ks @ [k])"
  proof
    assume "bad_stretch th ks"
    then show ?thesis unfolding bad_stretch_def by (metis append_assoc)
  next
    assume "th \<le> int (strikes (ks @ [k]))"
    then show ?thesis using strikes_suffix [of "ks @ [k]"] unfolding bad_stretch_def by (metis append_Nil2)
  qed
qed

definition quarantined_in :: "int \<Rightarrow> 's registry \<Rightarrow> bool" where
  "quarantined_in ruleID r = (case entryOf ruleID r of None \<Rightarrow> False | Some st \<Rightarrow> qs_Quarantined st)"

definition strikes_in :: "int \<Rightarrow> 's registry \<Rightarrow> nat" where
  "strikes_in ruleID r = (case entryOf ruleID r of None \<Rightarrow> 0 | Some st \<Rightarrow> qs_ConsecutiveFailures st)"

lemma record_one_strikes:
  assumes "ruleID \<noteq> 0" and "kind_of out \<noteq> EvalFailureQuarantined" and "0 < rg_quarantineThreshold r"
  shows "quarantined_in ruleID (record_one ruleID out r) \<longleftrightarrow>
           quarantined_in ruleID r \<or> (failing (kind_of out) \<and> rg_quarantineThreshold r \<le> int (strikes_in ruleID r + 1))"
    and "\<not> quarantined_in ruleID r \<Longrightarrow> strikes_in ruleID (record_one ruleID out r) =
           (if kind_of out = EvalFailureNone then 0 else strikes_in ruleID r + (if failing (kind_of out) then 1 else 0))"
proof -
  obtain order now v ty d kind t where o: "out = (order, now, v, ty, d, kind, t)" by (cases out) auto
  show "quarantined_in ruleID (record_one ruleID out r) \<longleftrightarrow>
           quarantined_in ruleID r \<or> (failing (kind_of out) \<and> rg_quarantineThreshold r \<le> int (strikes_in ruleID r + 1))"
    using assms
    by (cases kind; cases "entryOf ruleID r")
       (auto simp: o record_one_def kind_of_def recordEvalOutcome_def quarantined_in_def strikes_in_def failing_def
          strike_def fresh_entry_def Let_def)
  show "\<not> quarantined_in ruleID r \<Longrightarrow> strikes_in ruleID (record_one ruleID out r) =
           (if kind_of out = EvalFailureNone then 0 else strikes_in ruleID r + (if failing (kind_of out) then 1 else 0))"
    using assms
    by (cases kind; cases "entryOf ruleID r")
       (auto simp: o record_one_def kind_of_def recordEvalOutcome_def quarantined_in_def strikes_in_def failing_def
          strike_def fresh_entry_def Let_def)
qed

lemma record_all_strikes:
  assumes "ruleID \<noteq> 0" and "entryOf ruleID r = None" and "0 < rg_quarantineThreshold r"
    and "\<forall>out \<in> set outs. kind_of out \<noteq> EvalFailureQuarantined"
  shows "rg_quarantineThreshold (record_all ruleID outs r) = rg_quarantineThreshold r
    \<and> quarantined_in ruleID (record_all ruleID outs r) = bad_stretch (rg_quarantineThreshold r) (map kind_of outs)
    \<and> (\<not> quarantined_in ruleID (record_all ruleID outs r) \<longrightarrow>
         strikes_in ruleID (record_all ruleID outs r) = strikes (map kind_of outs))"
  using assms(4)
proof (induction outs rule: rev_induct)
  case Nil
  then show ?case
    using assms(2,3) by (auto simp: record_all_def quarantined_in_def strikes_in_def strikes_def bad_stretch_def)
next
  case (snoc out outs)
  let ?r = "record_all ruleID outs r" and ?th = "rg_quarantineThreshold r" and ?ks = "map kind_of outs"
  have step: "record_all ruleID (outs @ [out]) r = record_one ruleID out ?r" by (simp add: record_all_def)
  have ih: "rg_quarantineThreshold ?r = ?th" "quarantined_in ruleID ?r = bad_stretch ?th ?ks"
    "\<not> quarantined_in ruleID ?r \<Longrightarrow> strikes_in ruleID ?r = strikes ?ks" using snoc by auto
  have th: "rg_quarantineThreshold (record_one ruleID out ?r) = ?th"
    using ih(1) by (auto simp: record_one_def split: prod.splits)
  have k: "kind_of out \<noteq> EvalFailureQuarantined" and p: "0 < rg_quarantineThreshold ?r" using snoc.prems assms(3) ih(1) by auto
  note one = record_one_strikes [OF assms(1) k p]
  show ?case
  proof (cases "quarantined_in ruleID ?r")
    case True
    then show ?thesis using one(1) ih th by (simp add: step bad_stretch_snoc)
  next
    case False
    have "\<not> bad_stretch ?th ?ks" using False ih(2) by simp
    then have lt: "int (strikes ?ks) < ?th"
      using strikes_suffix [of ?ks] unfolding bad_stretch_def by (metis append_Nil2 not_less)
    have "bad_stretch ?th (?ks @ [kind_of out]) \<longleftrightarrow> failing (kind_of out) \<and> ?th \<le> int (strikes ?ks + 1)"
      using False ih(2) lt assms(3) by (auto simp: bad_stretch_snoc strikes_snoc failing_def split: if_splits)
    then show ?thesis using one False ih th by (auto simp: step strikes_snoc)
  qed
qed

subsection \<open>Properties\<close>

text \<open>
  C25. A rule is quarantined exactly after as many of its own failures as the threshold with no success
  between them. Timeouts, panics and evaluation errors count, a success starts the count again, and a
  storage failure neither counts nor clears it.
\<close>

theorem quarantine_after_consecutive_rule_failures:
  assumes "ruleID \<noteq> 0" and "entryOf ruleID r = None" and "0 < rg_quarantineThreshold r"
    and "\<forall>out \<in> set outs. kind_of out \<noteq> EvalFailureQuarantined"
  shows "quarantined_in ruleID (record_all ruleID outs r) \<longleftrightarrow>
    (\<exists>pre seg post. map kind_of outs = pre @ seg @ post \<and> EvalFailureNone \<notin> set seg
       \<and> rg_quarantineThreshold r \<le> int (length (filter failing seg)))"
  using record_all_strikes [OF assms] unfolding bad_stretch_def by blast

definition demo_registry :: "nat registry" where
  "demo_registry = \<lparr>rg_evalTimeout = DefaultEvalTimeout, rg_quarantineThreshold = 2, rg_isolation = [], rg_states = (\<lambda>i. 0)\<rparr>"

theorem quarantine_after_consecutive_rule_failures_witness:
  "quarantined_in 7 (record_all 7
     [([], 1, 1, ''t'', 0, EvalFailurePanic, None), ([], 2, 1, ''t'', 0, EvalFailureStorage, None),
      ([], 3, 1, ''t'', 0, EvalFailureTimeout, None)] demo_registry)"
proof -
  have "quarantined_in 7 (record_all 7
     [([], 1, 1, ''t'', 0, EvalFailurePanic, None), ([], 2, 1, ''t'', 0, EvalFailureStorage, None),
      ([], 3, 1, ''t'', 0, EvalFailureTimeout, None)] demo_registry) \<longleftrightarrow>
    (\<exists>pre seg post. [EvalFailurePanic, EvalFailureStorage, EvalFailureTimeout] = pre @ seg @ post
       \<and> EvalFailureNone \<notin> set seg \<and> 2 \<le> int (length (filter failing seg)))"
    using quarantine_after_consecutive_rule_failures [of 7 demo_registry
      "[([], 1, 1, ''t'', 0, EvalFailurePanic, None), ([], 2, 1, ''t'', 0, EvalFailureStorage, None),
        ([], 3, 1, ''t'', 0, EvalFailureTimeout, None)]"]
    by (simp add: kind_of_def demo_registry_def entryOf_def)
  moreover have "\<exists>pre seg post. [EvalFailurePanic, EvalFailureStorage, EvalFailureTimeout] = pre @ seg @ post
       \<and> EvalFailureNone \<notin> set seg \<and> 2 \<le> int (length (filter failing seg))"
    by (intro exI [of _ "[]"] exI [of _ "[EvalFailurePanic, EvalFailureStorage, EvalFailureTimeout]"] conjI)
       (simp_all add: failing_def)
  ultimately show ?thesis by (rule iffD2)
qed

text \<open>
  A quarantined rule is not evaluated: as long as its version has not changed, the registry answers with
  the quarantine error whatever the evaluator would do, and neither its strikes nor any rule's state change.
  With a new version the quarantine is lifted and the evaluation starts from a cleared state.
\<close>

theorem quarantined_rule_is_not_evaluated:
  assumes "ruleID \<noteq> 0" and "entryOf ruleID r = Some st" and "qs_Quarantined st"
  shows "if 0 < ruleVersion \<and> 0 < qs_RuleVersion st \<and> ruleVersion \<noteq> qs_RuleVersion st
    then fst (checkQuarantineBeforeEval none ruleID ruleVersion r) =
           r\<lparr>rg_isolation := drop_key ruleID (rg_isolation r), rg_states := (rg_states r)(ruleID := none)\<rparr>
    else evaluateIsolated durText none order now ruleID ruleVersion ruleType evaluate r =
           (r, Inl (RuleEvalError EvalFailureQuarantined True None), [])"
proof -
  have e: "entryOf ruleID (r\<lparr>rg_isolation := drop_key ruleID (rg_isolation r), rg_states := s\<rparr>) = None" for s
    by (simp add: entryOf_def map_of_drop_key)
  show ?thesis
    using assms
    by (auto simp: checkQuarantineBeforeEval_def ReenableRule_def reset_states_def clearIsolationState_def e
          evaluateIsolated_def recordEvalOutcome_def)
qed

theorem quarantined_rule_is_not_evaluated_witness:
  "evaluateIsolated (\<lambda>d. '''') 0 [] 5 7 1 ''t'' (\<lambda>s. undefined)
     (demo_registry\<lparr>rg_isolation := [(7, (fresh_entry 7 1 ''t'')\<lparr>qs_Quarantined := True\<rparr>)]\<rparr>) =
   (demo_registry\<lparr>rg_isolation := [(7, (fresh_entry 7 1 ''t'')\<lparr>qs_Quarantined := True\<rparr>)]\<rparr>,
    Inl (RuleEvalError EvalFailureQuarantined True None), [])"
  using quarantined_rule_is_not_evaluated [of 7 "demo_registry\<lparr>rg_isolation := [(7, (fresh_entry 7 1 ''t'')\<lparr>qs_Quarantined := True\<rparr>)]\<rparr>"
      "(fresh_entry 7 1 ''t'')\<lparr>qs_Quarantined := True\<rparr>" 1 0 "\<lambda>d. ''''" "[]" 5 "''t''" "\<lambda>s. undefined"]
  by (simp add: entryOf_def fresh_entry_def)

subsection \<open>The boundary\<close>

lemma evaluateIsolated_runs:
  assumes "checkQuarantineBeforeEval none ruleID v r = (r1, False, hooks)"
    and "classify (rg_evalTimeout r1) (evaluate (rg_states r1 ruleID)) = (kind, answer, rollback)"
  shows "evaluateIsolated durText none order now ruleID v ty evaluate r =
    (case recordEvalOutcome order now ruleID v ty (rule_duration (evaluate (rg_states r1 ruleID))) kind
            (eval_error_text durText ruleID ty kind (evaluate (rg_states r1 ruleID)))
            (let r2 = r1\<lparr>rg_states := (rg_states r1)(ruleID := er_state (evaluate (rg_states r1 ruleID)))\<rparr> in
             if rollback then restoreRuleStates ruleID (rg_states r1 ruleID) r2 else r2) of
       (r4, q, hooks') \<Rightarrow> (r4, answer q, hooks @ hooks'))"
  using assms by (simp add: evaluateIsolated_def Let_def)

lemma classify_rollback:
  assumes "classify timeout run = (kind, answer, rollback)" and "answer q = Inl err"
    and "timed_out timeout run \<Longrightarrow> timeout \<le> rule_duration run"
  shows "rollback"
  using assms
  by (auto simp: classify_def is_deadline_def split: call_result.splits option.splits if_splits)

text \<open>
  An evaluation that ends in an error leaves no trace in the evaluated rule's in-memory state, as far as it was over when the
  registry returned: whatever the evaluator did to it before it failed, panicked or timed out, the state afterwards is
  the state the evaluation started from. (A timer fires only on the rule's own time, so a wait that a timer ended has used up
  the timeout.) Two things lie outside the model and outside this lemma: a goroutine that ignores its context is abandoned
  two milliseconds after the timeout and may still write after the state was restored, and \<open>evictOldestRuleLocked\<close> of
  the frequency evaluator may drop another rule's state, which no roll-back brings back.
\<close>

theorem failed_evaluation_is_rolled_back:
  assumes "ruleID \<noteq> 0"
    and "checkQuarantineBeforeEval none ruleID v r = (r1, False, hooks)"
    and "run = evaluate (rg_states r1 ruleID)"
    and "timed_out (rg_evalTimeout r1) run \<longrightarrow> rg_evalTimeout r1 \<le> rule_duration run"
    and "evaluateIsolated durText none order now ruleID v ty evaluate r = (r', Inl err, hooks')"
  shows "rg_states r' = rg_states r1"
proof -
  obtain kind answer rollback where c: "classify (rg_evalTimeout r1) (evaluate (rg_states r1 ruleID)) = (kind, answer, rollback)"
    using prod_cases3 by blast
  define r3 where "r3 = (let r2 = r1\<lparr>rg_states := (rg_states r1)(ruleID := er_state (evaluate (rg_states r1 ruleID)))\<rparr> in
           if rollback then restoreRuleStates ruleID (rg_states r1 ruleID) r2 else r2)"
  obtain r4 q h where rec: "recordEvalOutcome order now ruleID v ty (rule_duration (evaluate (rg_states r1 ruleID))) kind
             (eval_error_text durText ruleID ty kind (evaluate (rg_states r1 ruleID))) r3 = (r4, q, h)"
    using prod_cases3 by blast
  have e: "r' = r4" "answer q = Inl err"
    using evaluateIsolated_runs [where evaluate = evaluate, OF assms(2) c] assms(5) rec by (auto simp: r3_def)
  have "rollback" using classify_rollback [OF c e(2)] assms(3,4) by auto
  then have "rg_states r3 = rg_states r1" using assms(1) by (simp add: r3_def restoreRuleStates_def Let_def)
  then show ?thesis using record_states [of order now ruleID v ty _ kind _ r3] rec e(1) by (metis fst_conv)
qed

definition iso_run :: "call_result \<Rightarrow> duration \<Rightarrow> duration \<Rightarrow> bool \<Rightarrow> nat \<Rightarrow> nat eval_run" where
  "iso_run res wall db st s = \<lparr>er_result = res, er_state = s + 1, er_fires = [], er_total = wall, er_db = db, er_storageErr = st\<rparr>"

theorem failed_evaluation_is_rolled_back_witness:
  "\<exists>r' err hooks'. evaluateIsolated (\<lambda>d. '''') 0 [] 5 7 1 ''t'' (iso_run (CallPanicked ''nil map'') 10 0 False) demo_registry
      = (r', Inl err, hooks') \<and> rg_states r' = rg_states demo_registry"
proof -
  have q: "checkQuarantineBeforeEval 0 7 1 demo_registry = (demo_registry, False, [])"
    by (simp add: checkQuarantineBeforeEval_def demo_registry_def entryOf_def)
  obtain r' err hooks' where e: "evaluateIsolated (\<lambda>d. '''') 0 [] 5 7 1 ''t'' (iso_run (CallPanicked ''nil map'') 10 0 False) demo_registry
      = (r', Inl err, hooks')"
    by (cases "recordEvalOutcome [] 5 7 1 ''t'' (rule_duration (iso_run (CallPanicked ''nil map'') 10 0 False (rg_states demo_registry 7)))
          EvalFailurePanic (eval_error_text (\<lambda>d. '''') 7 ''t'' EvalFailurePanic (iso_run (CallPanicked ''nil map'') 10 0 False (rg_states demo_registry 7)))
          (restoreRuleStates 7 (rg_states demo_registry 7) (demo_registry\<lparr>rg_states := (rg_states demo_registry)
             (7 := er_state (iso_run (CallPanicked ''nil map'') 10 0 False (rg_states demo_registry 7)))\<rparr>))")
       (auto simp: evaluateIsolated_def q classify_def iso_run_def Let_def)
  have "rg_states r' = rg_states demo_registry"
    by (rule failed_evaluation_is_rolled_back [OF _ q refl _ e]) (simp_all add: timed_out_def iso_run_def)
  with e show ?thesis by blast
qed

text \<open>
  A database failure during an evaluation is never held against the rule. When the call came back (it did
  not panic) and a storage error was seen, no rule's strikes change, no hook is called, and an error that is
  returned is one the poller does not treat as the rule's own, so the event is held and read again.
\<close>

theorem storage_failure_is_not_blamed_on_the_rule:
  assumes "checkQuarantineBeforeEval none ruleID v r = (r1, False, hooks)"
    and "er_result (evaluate (rg_states r1 ruleID)) = Returned matched err"
    and "er_storageErr (evaluate (rg_states r1 ruleID)) \<or> is_storage err"
    and "evaluateIsolated durText none order now ruleID v ty evaluate r = (r', answer, hooks')"
  shows "rg_isolation r' = rg_isolation r1 \<and> hooks' = hooks
    \<and> (case answer of Inr m \<Rightarrow> m = matched \<and> err = None | Inl e \<Rightarrow> \<not> IsRuleIsolatedFailure (Some e))"
proof -
  obtain ans rb where c: "classify (rg_evalTimeout r1) (evaluate (rg_states r1 ruleID)) = (EvalFailureStorage, ans, rb)"
    and a: "\<And>q. case ans q of Inr m \<Rightarrow> m = matched \<and> err = None | Inl e \<Rightarrow> \<not> IsRuleIsolatedFailure (Some e)"
    using assms(2,3)
    by (cases err) (auto simp: classify_def IsRuleIsolatedFailure_def)
  show ?thesis
    using evaluateIsolated_runs [where evaluate = evaluate, OF assms(1) c] assms(4) a
    by (auto simp: restoreRuleStates_def Let_def)
qed

theorem storage_failure_is_not_blamed_on_the_rule_witness:
  "\<exists>r' answer hooks'. evaluateIsolated (\<lambda>d. '''') 0 [] 5 7 1 ''t''
       (iso_run (Returned False (Some \<lparr>ee_storage = False, ee_deadline = False, ee_text = ''conn reset''\<rparr>)) 10 9 True) demo_registry
      = (r', answer, hooks') \<and> rg_isolation r' = [] \<and> (case answer of Inr m \<Rightarrow> False | Inl e \<Rightarrow> \<not> IsRuleIsolatedFailure (Some e))"
proof -
  let ?ev = "iso_run (Returned False (Some \<lparr>ee_storage = False, ee_deadline = False, ee_text = ''conn reset''\<rparr>)) 10 9 True"
  have q: "checkQuarantineBeforeEval 0 7 1 demo_registry = (demo_registry, False, [])"
    by (simp add: checkQuarantineBeforeEval_def demo_registry_def entryOf_def)
  obtain r' answer hooks' where e: "evaluateIsolated (\<lambda>d. '''') 0 [] 5 7 1 ''t'' ?ev demo_registry = (r', answer, hooks')"
    using prod_cases3 by blast
  show ?thesis
    using e storage_failure_is_not_blamed_on_the_rule [OF q _ _ e, of False "Some \<lparr>ee_storage = False, ee_deadline = False, ee_text = ''conn reset''\<rparr>"]
    by (auto simp: iso_run_def demo_registry_def split: sum.splits)
qed

subsection \<open>Clocks\<close>

text \<open>A timer ends the wait only when the rule's own time, database time taken off, has used up the timeout.\<close>

lemma timer_needs_rule_time:
  "fst (wait_loop timeout fires) \<longleftrightarrow> (\<exists>f \<in> set fires. timeout \<le> fst f - snd f)"
proof (induction fires)
  case (Cons f fires)
  then show ?case by (cases f; cases "wait_loop timeout fires") (auto simp: Let_def)
qed simp

lemma waits_are_bounded:
  assumes "millisecond \<le> timeout" and "\<forall>f \<in> set fires. snd f \<le> fst f"
  shows "\<forall>w \<in> set (snd (wait_loop timeout fires)). millisecond \<le> w \<and> w \<le> timeout"
  using assms
proof (induction fires)
  case (Cons f fires)
  then show ?case by (cases f; cases "wait_loop timeout fires") (auto simp: Let_def split: if_splits)
qed simp

datatype db_op = DBEnter gtime | DBLeave gtime bool

fun db_time :: "db_op \<Rightarrow> gtime" where
  "db_time (DBEnter t) = t" | "db_time (DBLeave t b) = t"

fun db_step :: "db_op \<Rightarrow> dbDurationTracker \<Rightarrow> dbDurationTracker" where
  "db_step (DBEnter t) = EnterDB t" | "db_step (DBLeave t b) = LeaveDB t b"

definition tracker_ok :: "gtime \<Rightarrow> gtime \<Rightarrow> dbDurationTracker \<Rightarrow> bool" where
  "tracker_ok start now t \<longleftrightarrow> 0 < start \<and> start \<le> now \<and> now - start \<le> max_i64 \<and> 0 \<le> dt_accumNanos t
     \<and> (if dt_inFlight t = 0 then dt_accumNanos t \<le> now - start
        else start \<le> dt_startedAt t \<and> dt_startedAt t \<le> now \<and> dt_accumNanos t \<le> dt_startedAt t - start)"

lemma time_sub_in_range: "u \<le> t \<Longrightarrow> t - u \<le> max_i64 \<Longrightarrow> time_sub t u = t - u"
  by (simp add: time_sub_def i64_defs)

lemma tracker_step:
  assumes "tracker_ok start now t" and "now \<le> db_time op" and "db_time op - start \<le> max_i64"
  shows "tracker_ok start (db_time op) (db_step op t)"
proof (cases op)
  case (DBEnter u)
  then show ?thesis using assms by (auto simp: tracker_ok_def EnterDB_def Let_def)
next
  case (DBLeave u b)
  have "time_sub u (dt_startedAt t) = u - dt_startedAt t" if "dt_inFlight t \<noteq> 0"
    using assms DBLeave that by (intro time_sub_in_range) (auto simp: tracker_ok_def)
  then show ?thesis
    using assms DBLeave by (cases "dt_inFlight t = 0"; cases "dt_inFlight t = 1") (auto simp: tracker_ok_def LeaveDB_def Let_def)
qed

text \<open>
  The database time attributed to an evaluation is never negative and never more than the time since it
  started, however many calls overlap: nested calls are counted once. So the rule's own duration, wall time
  less database time, is never understated below zero.
\<close>

theorem attributed_database_time_within_wall_time:
  assumes "0 < start" and "start \<le> last (start # map db_time ops)" and "sorted (start # map db_time ops)"
    and "last (start # map db_time ops) \<le> now" and "now - start \<le> max_i64"
  shows "0 \<le> fst (AttributedDBDuration now (fold db_step ops WithDBTimeTracker))
    \<and> fst (AttributedDBDuration now (fold db_step ops WithDBTimeTracker)) \<le> now - start"
proof -
  have "tracker_ok start (last (start # map db_time ops)) (fold db_step ops WithDBTimeTracker)"
    using assms(1,3,4,5)
  proof (induction ops rule: rev_induct)
    case Nil
    then show ?case by (simp add: tracker_ok_def WithDBTimeTracker_def)
  next
    case (snoc op ops)
    have s: "sorted (start # map db_time ops)" and l: "last (start # map db_time ops) \<le> db_time op"
      using snoc.prems(2) last_in_set [of "map db_time ops"] by (auto simp: sorted_append)
    have "tracker_ok start (last (start # map db_time ops)) (fold db_step ops WithDBTimeTracker)"
      using snoc.prems s l by (intro snoc.IH) auto
    then show ?case using tracker_step l snoc.prems by auto
  qed
  then have ok: "tracker_ok start (last (start # map db_time ops)) (fold db_step ops WithDBTimeTracker)" .
  define t where "t = fold db_step ops WithDBTimeTracker"
  have "time_sub now (dt_startedAt t) = now - dt_startedAt t" if "dt_inFlight t \<noteq> 0"
    using ok assms(4,5) that by (intro time_sub_in_range) (auto simp: tracker_ok_def t_def)
  then show ?thesis
    using ok assms(4,5) unfolding t_def [symmetric]
    by (cases "dt_inFlight t = 0") (auto simp: tracker_ok_def AttributedDBDuration_def Let_def)
qed

theorem attributed_database_time_within_wall_time_witness:
  "fst (AttributedDBDuration 30 (fold db_step [DBEnter 12, DBEnter 14, DBLeave 20 False, DBLeave 25 True] WithDBTimeTracker)) \<le> 30 - 10"
  using attributed_database_time_within_wall_time [of 10 "[DBEnter 12, DBEnter 14, DBLeave 20 False, DBLeave 25 True]" 30]
  by (simp add: max_i64_def)

end
