(* ===== verification/Composite_Rule.thy ===== *)
theory Composite_Rule
  imports Beacon_Prelude
begin

text \<open>
  \<open>internal/rules/composite.go\<close> with the parts of \<open>rules.go\<close> and \<open>errors.go\<close> it works through: boolean
  combinations of child rules, how they are validated when a rule is created and how they are evaluated.

  A params blob is what \<open>encoding/json\<close> makes of it when it is read as composite params: an error, or an operator
  and children; the raw text is what every other evaluator reads. The leaf evaluators' \<open>Validate\<close> and
  \<open>Evaluate\<close>, \<open>ParseCooldown\<close> and \<open>ParseGuidance\<close> are parameters. The evaluators' in-memory state is abstract,
  \<open>cw_state\<close>; \<open>cw_tick\<close> counts leaf evaluations, and the context is cancelled when \<open>ce_ctxErr\<close> says so at the
  current count.
\<close>

definition TypeComposite :: string where "TypeComposite = ''composite''"
definition opAnd :: string where "opAnd = ''and''"
definition opOr :: string where "opOr = ''or''"
definition opNot :: string where "opNot = ''not''"
definition maxCompositeDepth :: nat where "maxCompositeDepth = 5"

lemmas op_defs = opAnd_def opOr_def opNot_def

text \<open>\<open>%q\<close> on text that needs no escape.\<close>

definition go_quote :: "string \<Rightarrow> string" where
  "go_quote s = CHR 0x22 # s @ [CHR 0x22]"

datatype blob = Unparsed (raw: string) string | Parsed (raw: string) string "child list"
and child = Child (childType: string) (childParams: blob)

subsection \<open>Field errors\<close>

record FieldError =
  fe_Field :: string
  fe_Reason :: string

datatype verr = VField FieldError | VFields "FieldError list" | VPlain string

definition FieldError_Error :: "FieldError \<Rightarrow> string" where
  "FieldError_Error e = (if fe_Field e = '''' then fe_Reason e else fe_Field e @ '': '' @ fe_Reason e)"

definition FieldErrors_Error :: "FieldError list \<Rightarrow> string" where
  "FieldErrors_Error es = join_with ''; '' (map FieldError_Error es)"

definition fieldPath :: "string \<Rightarrow> string \<Rightarrow> string" where
  "fieldPath prefix name = (if prefix = '''' then name else prefix @ ''.'' @ name)"

definition joinPath :: "string \<Rightarrow> string \<Rightarrow> string" where
  "joinPath prefix field = (if field = '''' then prefix else prefix @ ''.'' @ field)"

definition prefixFields :: "string \<Rightarrow> verr \<Rightarrow> FieldError list" where
  "prefixFields prefix err =
     (case err of
        VFields es \<Rightarrow> map (\<lambda>d. \<lparr>fe_Field = joinPath prefix (fe_Field d), fe_Reason = fe_Reason d\<rparr>) es
      | VField e \<Rightarrow> [\<lparr>fe_Field = joinPath prefix (fe_Field e), fe_Reason = fe_Reason e\<rparr>]
      | VPlain s \<Rightarrow> [\<lparr>fe_Field = prefix, fe_Reason = s\<rparr>])"

subsection \<open>Validation\<close>

record validate_env =
  cv_evaluators :: "string list"
  cv_absences :: "string list"
  cv_leaf :: "string \<Rightarrow> blob \<Rightarrow> verr option"
  cv_cooldown :: "blob \<Rightarrow> verr option"
  cv_guidance :: "blob \<Rightarrow> verr option"
  cv_unknown :: "string \<Rightarrow> string"

definition first_err :: "verr option list \<Rightarrow> verr option" where
  "first_err es = (case filter (\<lambda>e. e \<noteq> None) es of [] \<Rightarrow> None | e # _ \<Rightarrow> e)"

text \<open>\<open>Registry.Validate\<close> on a type other than composite; \<open>cv_unknown\<close> is the text for an unknown type.\<close>

definition Registry_Validate_leaf :: "validate_env \<Rightarrow> string \<Rightarrow> blob \<Rightarrow> verr option" where
  "Registry_Validate_leaf v ty b =
     (if ty \<in> set (cv_evaluators v) \<or> ty \<in> set (cv_absences v)
      then first_err [cv_leaf v ty b, cv_cooldown v b, cv_guidance v b]
      else Some (VPlain (cv_unknown v ty)))"

definition op_errors :: "string \<Rightarrow> string \<Rightarrow> nat \<Rightarrow> FieldError list" where
  "op_errors prefix op n =
     (if op = opAnd \<or> op = opOr
      then (if n = 0 then [\<lparr>fe_Field = fieldPath prefix ''rules'',
                            fe_Reason = ''composite: op '' @ go_quote op @ '' requires at least one child rule''\<rparr>] else [])
      else if op = opNot
      then (if n \<noteq> 1 then [\<lparr>fe_Field = fieldPath prefix ''rules'',
                            fe_Reason = ''composite: op '' @ go_quote opNot @ '' requires exactly one child rule''\<rparr>] else [])
      else if op = '''' then [\<lparr>fe_Field = fieldPath prefix ''op'', fe_Reason = ''composite: op is required (and|or|not)''\<rparr>]
      else [\<lparr>fe_Field = fieldPath prefix ''op'', fe_Reason = ''composite: unknown op '' @ go_quote op @ '' (want and|or|not)''\<rparr>])"

fun validate :: "validate_env \<Rightarrow> blob \<Rightarrow> string \<Rightarrow> nat \<Rightarrow> FieldError list"
and validate_children :: "validate_env \<Rightarrow> nat \<Rightarrow> child list \<Rightarrow> string \<Rightarrow> nat \<Rightarrow> FieldError list" where
  "validate v (Unparsed r err) prefix depth = [\<lparr>fe_Field = prefix, fe_Reason = ''composite: invalid params: '' @ err\<rparr>]"
| "validate v (Parsed r op rules) prefix depth =
     op_errors prefix op (length rules) @ validate_children v 0 rules prefix depth"
| "validate_children v i [] prefix depth = []"
| "validate_children v i (Child ty b # cs) prefix depth =
     (let base = fieldPath prefix (''rules['' @ nat_digits i @ '']'');
          paramsPath = fieldPath base ''params'' in
      (if ty = '''' then [\<lparr>fe_Field = fieldPath base ''type'', fe_Reason = ''composite: child rule type is required''\<rparr>]
       else if ty = TypeComposite
       then (if maxCompositeDepth \<le> depth
             then [\<lparr>fe_Field = paramsPath,
                    fe_Reason = ''composite: rules may not nest more than '' @ nat_digits maxCompositeDepth @ '' levels deep''\<rparr>]
             else (case cv_cooldown v b of None \<Rightarrow> [] | Some e \<Rightarrow> prefixFields paramsPath e)
                  @ validate v b paramsPath (depth + 1))
       else (case Registry_Validate_leaf v ty b of None \<Rightarrow> [] | Some e \<Rightarrow> prefixFields paramsPath e))
      @ validate_children v (i + 1) cs prefix depth)"

definition Composite_Validate :: "validate_env \<Rightarrow> blob \<Rightarrow> verr option" where
  "Composite_Validate v b = (let details = validate v b '''' 1 in if details = [] then None else Some (VFields details))"

definition Registry_Validate :: "validate_env \<Rightarrow> string \<Rightarrow> blob \<Rightarrow> verr option" where
  "Registry_Validate v ty b =
     (if ty = TypeComposite then first_err [Composite_Validate v b, cv_cooldown v b, cv_guidance v b]
      else Registry_Validate_leaf v ty b)"

subsection \<open>Evaluation\<close>

datatype cres = CBool bool | CErr string | CPanic string

record 's comp_world =
  cw_state :: 's
  cw_tick :: nat

record 's comp_env =
  ce_evaluators :: "string list"
  ce_absences :: "string list"
  ce_leaf :: "string \<Rightarrow> blob \<Rightarrow> 's \<Rightarrow> 's \<times> cres"
  ce_ctxErr :: "nat \<Rightarrow> string option"

text \<open>\<open>Registry.evaluate\<close> on a type other than composite.\<close>

definition evaluate_leaf :: "'s comp_env \<Rightarrow> string \<Rightarrow> blob \<Rightarrow> 's comp_world \<Rightarrow> 's comp_world \<times> cres" where
  "evaluate_leaf env ty b w =
     (if ty \<in> set (ce_evaluators env)
      then (case ce_leaf env ty b (cw_state w) of (s', r) \<Rightarrow> (w\<lparr>cw_state := s', cw_tick := cw_tick w + 1\<rparr>, r))
      else if ty \<in> set (ce_absences env) then (w, CBool False)
      else (w, CErr (''unknown rule type '' @ go_quote ty)))"

definition child_err :: "string \<Rightarrow> cres \<Rightarrow> cres" where
  "child_err ty r = (case r of CErr e \<Rightarrow> CErr (''composite: child '' @ go_quote ty @ '': '' @ e) | r' \<Rightarrow> r')"

fun eval_blob :: "'s comp_env \<Rightarrow> blob \<Rightarrow> 's comp_world \<Rightarrow> 's comp_world \<times> cres"
and eval_and :: "'s comp_env \<Rightarrow> child list \<Rightarrow> 's comp_world \<Rightarrow> 's comp_world \<times> cres"
and eval_or :: "'s comp_env \<Rightarrow> child list \<Rightarrow> 's comp_world \<Rightarrow> 's comp_world \<times> cres"
and evalChild :: "'s comp_env \<Rightarrow> child \<Rightarrow> 's comp_world \<Rightarrow> 's comp_world \<times> cres" where
  "eval_blob env (Unparsed r err) w =
     (case ce_ctxErr env (cw_tick w) of Some e \<Rightarrow> (w, CErr e) | None \<Rightarrow> (w, CErr (''composite: invalid params: '' @ err)))"
| "eval_blob env (Parsed r op rules) w =
     (case ce_ctxErr env (cw_tick w) of
        Some e \<Rightarrow> (w, CErr e)
      | None \<Rightarrow>
          if op = opAnd then eval_and env rules w
          else if op = opOr then eval_or env rules w
          else if op = opNot
          then (case rules of
                  [c] \<Rightarrow> (case evalChild env c w of (w', CBool b) \<Rightarrow> (w', CBool (\<not> b)) | (w', r) \<Rightarrow> (w', r))
                | _ \<Rightarrow> (w, CErr (''composite: op '' @ go_quote opNot @ '' requires exactly one child rule'')))
          else (w, CErr (''composite: unknown op '' @ go_quote op @ '' (want and|or|not)'')))"
| "eval_and env [] w = (w, CBool True)"
| "eval_and env (c # cs) w =
     (case evalChild env c w of
        (w', CBool True) \<Rightarrow> eval_and env cs w'
      | (w', r) \<Rightarrow> (w', r))"
| "eval_or env [] w = (w, CBool False)"
| "eval_or env (c # cs) w =
     (case evalChild env c w of
        (w', CBool False) \<Rightarrow> eval_or env cs w'
      | (w', r) \<Rightarrow> (w', r))"
| "evalChild env (Child ty b) w =
     (case ce_ctxErr env (cw_tick w) of
        Some e \<Rightarrow> (w, CErr e)
      | None \<Rightarrow>
          (case (if ty = TypeComposite then eval_blob env b w else evaluate_leaf env ty b w) of
             (w', r) \<Rightarrow> (w', child_err ty r)))"

text \<open>
  \<open>Composite.Evaluate\<close>: the outermost composite snapshots the rule's state and restores it when the evaluation
  returns an error or panics.
\<close>

definition Composite_Evaluate :: "'s comp_env \<Rightarrow> int \<Rightarrow> bool \<Rightarrow> blob \<Rightarrow> 's comp_world \<Rightarrow> 's comp_world \<times> cres" where
  "Composite_Evaluate env ruleID inComposite b w =
     (case eval_blob env b w of
        (w', CBool m) \<Rightarrow> (w', CBool m)
      | (w', r) \<Rightarrow> (if \<not> inComposite \<and> ruleID \<noteq> 0 then w'\<lparr>cw_state := cw_state w\<rparr> else w', r))"

subsection \<open>Evaluating what was validated\<close>

lemma validate_children_Cons:
  "validate_children v i (c # cs) prefix depth = validate_children v i [c] prefix depth @ validate_children v (i + 1) cs prefix depth"
  by (cases c) (simp add: Let_def)

lemma validate_children_each:
  "validate_children v i cs prefix depth = [] \<Longrightarrow> c \<in> set cs \<Longrightarrow> \<exists>j. validate_children v j [c] prefix depth = []"
proof (induction cs arbitrary: i)
  case (Cons d cs)
  then show ?case
    using validate_children_Cons [of v i d cs prefix depth] by (cases "c = d") auto
qed simp

lemma op_errors_none:
  "op_errors prefix op n = [] \<longleftrightarrow> ((op = opAnd \<or> op = opOr) \<and> n \<noteq> 0) \<or> (op = opNot \<and> n = 1)"
  by (auto simp: op_errors_def op_defs)

text \<open>A validator that rejects reports at least one field.\<close>

definition reports :: "verr option \<Rightarrow> bool" where
  "reports e \<longleftrightarrow> e \<noteq> Some (VFields [])"

lemma prefixFields_empty: "reports (Some e) \<Longrightarrow> prefixFields p e \<noteq> []"
  by (auto simp: reports_def prefixFields_def split: verr.splits)

definition reporting :: "validate_env \<Rightarrow> bool" where
  "reporting v \<longleftrightarrow> (\<forall>ty b. reports (cv_leaf v ty b) \<and> reports (cv_cooldown v b) \<and> reports (cv_guidance v b))"

lemma reporting_leaf: "reporting v \<Longrightarrow> reports (Registry_Validate_leaf v ty b)"
  by (auto simp: reporting_def Registry_Validate_leaf_def first_err_def reports_def split: list.splits)

lemma validated_child:
  assumes "reporting v" and "validate_children v i [Child ty b] prefix depth = []"
  shows "ty \<noteq> '''' \<and> (if ty = TypeComposite then depth < maxCompositeDepth \<and> (\<exists>p. validate v b p (depth + 1) = [])
                     else Registry_Validate_leaf v ty b = None)"
  using assms prefixFields_empty reporting_leaf [OF assms(1), of ty b]
  by (auto simp: Let_def not_le split: if_splits option.splits)

text \<open>The registry that evaluates is the one that validated, its leaves answer, and nothing is cancelled.\<close>

definition answers :: "validate_env \<Rightarrow> 's comp_env \<Rightarrow> bool" where
  "answers v env \<longleftrightarrow> ce_evaluators env = cv_evaluators v \<and> ce_absences env = cv_absences v \<and> (\<forall>n. ce_ctxErr env n = None)
     \<and> (\<forall>ty b s. ty \<in> set (cv_evaluators v) \<longrightarrow> Registry_Validate_leaf v ty b = None \<longrightarrow> (\<exists>s' m. ce_leaf env ty b s = (s', CBool m)))"

lemma leaf_answers:
  assumes "answers v env" and "Registry_Validate_leaf v ty b = None"
  shows "\<exists>w' m. evaluate_leaf env ty b w = (w', CBool m)"
proof -
  have "ty \<in> set (cv_evaluators v) \<or> ty \<in> set (cv_absences v)"
    using assms(2) by (auto simp: Registry_Validate_leaf_def split: if_splits)
  then show ?thesis
  proof (cases "ty \<in> set (cv_evaluators v)")
    case True
    then obtain s' m where "ce_leaf env ty b (cw_state w) = (s', CBool m)" using assms unfolding answers_def by blast
    then show ?thesis using assms(1) True by (simp add: evaluate_leaf_def answers_def)
  next
    case False
    then show ?thesis using assms(1) \<open>ty \<in> _ \<or> _\<close> by (auto simp: evaluate_leaf_def answers_def)
  qed
qed

lemma eval_and_answers:
  "(\<And>c w. c \<in> set cs \<Longrightarrow> \<exists>w' m. evalChild env c w = (w', CBool m)) \<Longrightarrow> \<exists>w' m. eval_and env cs w = (w', CBool m)"
proof (induction cs arbitrary: w)
  case (Cons c cs)
  obtain w' m where "evalChild env c w = (w', CBool m)" using Cons.prems by (meson list.set_intros(1))
  then show ?case using Cons by (cases m) auto
qed auto

lemma eval_or_answers:
  "(\<And>c w. c \<in> set cs \<Longrightarrow> \<exists>w' m. evalChild env c w = (w', CBool m)) \<Longrightarrow> \<exists>w' m. eval_or env cs w = (w', CBool m)"
proof (induction cs arbitrary: w)
  case (Cons c cs)
  obtain w' m where "evalChild env c w = (w', CBool m)" using Cons.prems by (meson list.set_intros(1))
  then show ?case using Cons by (cases m) auto
qed auto

lemma validated_answers:
  assumes "reporting v" and "answers v env"
  shows "validate v b prefix depth = [] \<Longrightarrow> \<exists>w' m. eval_blob env b w = (w', CBool m)"
    and "validate_children v i [c] prefix depth = [] \<Longrightarrow> \<exists>w' m. evalChild env c w = (w', CBool m)"
proof (induction b and c arbitrary: prefix depth w and i prefix depth w)
  case (Parsed r op rules)
  have kids: "\<exists>w' m. evalChild env c w = (w', CBool m)" if kid: "c \<in> set rules" for c w
  proof -
    have "validate_children v 0 rules prefix depth = []" using Parsed.prems by simp
    then obtain j where "validate_children v j [c] prefix depth = []" using validate_children_each kid by blast
    then show ?thesis using Parsed.IH [OF kid] by blast
  qed
  have ctx: "ce_ctxErr env n = None" for n using assms(2) by (simp add: answers_def)
  have "op_errors prefix op (length rules) = []" using Parsed.prems by simp
  then consider "op = opAnd" | "op = opOr" | c where "op = opNot" "rules = [c]"
    unfolding op_errors_none by (cases rules) auto
  then show ?case
  proof cases
    case 1
    then show ?thesis using eval_and_answers [OF kids] ctx by (simp add: op_defs)
  next
    case 2
    then show ?thesis using eval_or_answers [OF kids] ctx by (simp add: op_defs)
  next
    case 3
    then obtain w' m where "evalChild env c w = (w', CBool m)" using kids by (meson list.set_intros(1))
    then show ?thesis using 3 ctx by (simp add: op_defs)
  qed
next
  case (Child ty b)
  have ctx: "ce_ctxErr env n = None" for n using assms(2) by (simp add: answers_def)
  note vc = validated_child [OF assms(1) Child.prems]
  show ?case
  proof (cases "ty = TypeComposite")
    case True
    then obtain p where "validate v b p (depth + 1) = []" using vc by auto
    then obtain w' m where "eval_blob env b w = (w', CBool m)" using Child.IH by blast
    then show ?thesis using True ctx by (simp add: child_err_def)
  next
    case False
    then obtain w' m where "evaluate_leaf env ty b w = (w', CBool m)" using vc leaf_answers [OF assms(2)] by presburger
    then show ?thesis using False ctx by (simp add: child_err_def)
  qed
qed simp

subsection \<open>The boolean a composite stands for\<close>

fun denote :: "'s comp_env \<Rightarrow> (string \<Rightarrow> blob \<Rightarrow> bool) \<Rightarrow> blob \<Rightarrow> bool"
and denote_child :: "'s comp_env \<Rightarrow> (string \<Rightarrow> blob \<Rightarrow> bool) \<Rightarrow> child \<Rightarrow> bool" where
  "denote env sat (Unparsed r err) = False"
| "denote env sat (Parsed r op rules) =
     (if op = opAnd then (\<forall>c \<in> set rules. denote_child env sat c)
      else if op = opOr then (\<exists>c \<in> set rules. denote_child env sat c)
      else \<not> (\<forall>c \<in> set rules. denote_child env sat c))"
| "denote_child env sat (Child ty b) =
     (if ty = TypeComposite then denote env sat b else ty \<in> set (ce_evaluators env) \<and> sat ty b)"

definition pure_leaves :: "validate_env \<Rightarrow> 's comp_env \<Rightarrow> (string \<Rightarrow> blob \<Rightarrow> bool) \<Rightarrow> bool" where
  "pure_leaves v env sat \<longleftrightarrow> ce_evaluators env = cv_evaluators v \<and> ce_absences env = cv_absences v \<and> (\<forall>n. ce_ctxErr env n = None)
     \<and> (\<forall>ty b s. ty \<in> set (cv_evaluators v) \<longrightarrow> Registry_Validate_leaf v ty b = None \<longrightarrow> (\<exists>s'. ce_leaf env ty b s = (s', CBool (sat ty b))))"

lemma eval_and_list:
  "(\<And>c w. c \<in> set cs \<Longrightarrow> \<exists>w'. evalChild env c w = (w', CBool (f c))) \<Longrightarrow> \<exists>w'. eval_and env cs w = (w', CBool (\<forall>c \<in> set cs. f c))"
proof (induction cs arbitrary: w)
  case (Cons c cs)
  obtain w' where "evalChild env c w = (w', CBool (f c))" using Cons.prems by (meson list.set_intros(1))
  then show ?case using Cons by (cases "f c") auto
qed simp

lemma eval_or_list:
  "(\<And>c w. c \<in> set cs \<Longrightarrow> \<exists>w'. evalChild env c w = (w', CBool (f c))) \<Longrightarrow> \<exists>w'. eval_or env cs w = (w', CBool (\<exists>c \<in> set cs. f c))"
proof (induction cs arbitrary: w)
  case (Cons c cs)
  obtain w' where "evalChild env c w = (w', CBool (f c))" using Cons.prems by (meson list.set_intros(1))
  then show ?case using Cons by (cases "f c") auto
qed simp

lemma pure_leaf:
  assumes "pure_leaves v env sat" and "Registry_Validate_leaf v ty b = None"
  shows "\<exists>w'. evaluate_leaf env ty b w = (w', CBool (ty \<in> set (ce_evaluators env) \<and> sat ty b))"
proof (cases "ty \<in> set (cv_evaluators v)")
  case True
  then obtain s' where "ce_leaf env ty b (cw_state w) = (s', CBool (sat ty b))" using assms unfolding pure_leaves_def by blast
  then show ?thesis using assms(1) True by (simp add: evaluate_leaf_def pure_leaves_def)
next
  case False
  moreover have "ty \<in> set (cv_evaluators v) \<or> ty \<in> set (cv_absences v)"
    using assms(2) by (auto simp: Registry_Validate_leaf_def split: if_splits)
  ultimately show ?thesis using assms(1) by (auto simp: evaluate_leaf_def pure_leaves_def)
qed

lemma validated_denotes:
  assumes "reporting v" and "pure_leaves v env sat"
  shows "validate v b prefix depth = [] \<Longrightarrow> \<exists>w'. eval_blob env b w = (w', CBool (denote env sat b))"
    and "validate_children v i [c] prefix depth = [] \<Longrightarrow> \<exists>w'. evalChild env c w = (w', CBool (denote_child env sat c))"
proof (induction b and c arbitrary: prefix depth w and i prefix depth w)
  case (Parsed r op rules)
  have kids: "\<exists>w'. evalChild env c w = (w', CBool (denote_child env sat c))" if kid: "c \<in> set rules" for c w
  proof -
    have "validate_children v 0 rules prefix depth = []" using Parsed.prems by simp
    then obtain j where "validate_children v j [c] prefix depth = []" using validate_children_each kid by blast
    then show ?thesis using Parsed.IH [OF kid] by blast
  qed
  have ctx: "ce_ctxErr env n = None" for n using assms(2) by (simp add: pure_leaves_def)
  have "op_errors prefix op (length rules) = []" using Parsed.prems by simp
  then consider "op = opAnd" | "op = opOr" | c where "op = opNot" "rules = [c]"
    unfolding op_errors_none by (cases rules) auto
  then show ?case
  proof cases
    case 1
    then show ?thesis using eval_and_list [OF kids] ctx by (simp add: op_defs)
  next
    case 2
    then show ?thesis using eval_or_list [OF kids] ctx by (simp add: op_defs)
  next
    case 3
    then obtain w' where "evalChild env c w = (w', CBool (denote_child env sat c))" using kids by (meson list.set_intros(1))
    then show ?thesis using 3 ctx by (simp add: op_defs)
  qed
next
  case (Child ty b)
  have ctx: "ce_ctxErr env n = None" for n using assms(2) by (simp add: pure_leaves_def)
  note vc = validated_child [OF assms(1) Child.prems]
  show ?case
  proof (cases "ty = TypeComposite")
    case True
    then obtain p where "validate v b p (depth + 1) = []" using vc by auto
    then obtain w' where "eval_blob env b w = (w', CBool (denote env sat b))" using Child.IH by blast
    then show ?thesis using True ctx by (simp add: child_err_def)
  next
    case False
    then obtain w' where "evaluate_leaf env ty b w = (w', CBool (ty \<in> set (ce_evaluators env) \<and> sat ty b))"
      using vc pure_leaf [OF assms(2)] by presburger
    then show ?thesis using False ctx by (simp add: child_err_def)
  qed
qed simp

fun nesting :: "blob \<Rightarrow> nat" and nesting_child :: "child \<Rightarrow> nat" where
  "nesting (Unparsed r err) = 1"
| "nesting (Parsed r op rules) = 1 + fold max (map nesting_child rules) 0"
| "nesting_child (Child ty b) = (if ty = TypeComposite then nesting b else 0)"

lemma fold_max_le: "fold max xs m \<le> n \<longleftrightarrow> m \<le> n \<and> (\<forall>x \<in> set xs. x \<le> n)" for n :: nat
  by (induction xs arbitrary: m) auto

lemma validated_nesting:
  assumes "reporting v"
  shows "validate v b prefix depth = [] \<Longrightarrow> depth \<le> maxCompositeDepth \<Longrightarrow> nesting b + depth \<le> maxCompositeDepth + 1"
    and "validate_children v i [c] prefix depth = [] \<Longrightarrow> depth \<le> maxCompositeDepth \<Longrightarrow> nesting_child c + depth \<le> maxCompositeDepth"
proof (induction b and c arbitrary: prefix depth and i prefix depth)
  case (Parsed r op rules)
  have "nesting_child c \<le> maxCompositeDepth - depth" if kid: "c \<in> set rules" for c
  proof -
    have "validate_children v 0 rules prefix depth = []" using Parsed.prems by simp
    then obtain j where "validate_children v j [c] prefix depth = []" using validate_children_each kid by blast
    then show ?thesis using Parsed.IH [OF kid] Parsed.prems(2) by fastforce
  qed
  then have "fold max (map nesting_child rules) 0 \<le> maxCompositeDepth - depth" by (auto simp: fold_max_le)
  then show ?case using Parsed.prems(2) by simp
next
  case (Child ty b)
  note vc = validated_child [OF assms Child.prems(1)]
  show ?case
  proof (cases "ty = TypeComposite")
    case True
    then obtain p where "validate v b p (depth + 1) = []" "depth < maxCompositeDepth" using vc by auto
    then show ?thesis using True Child.IH [of p "depth + 1"] by simp
  qed (use Child.prems in simp)
qed simp

subsection \<open>Properties\<close>

lemma registry_validated: "Registry_Validate v TypeComposite b = None \<Longrightarrow> validate v b '''' 1 = []"
  by (auto simp: Registry_Validate_def first_err_def Composite_Validate_def Let_def split: if_splits list.splits)

text \<open>
  C27. A composite the registry accepted never goes wrong: it nests at most five levels, and evaluating it on
  the registry that validated it, with leaf evaluators that answer on the params they accepted, always
  yields a boolean, never a complaint about an operator, a child count, an unknown type or malformed params.
\<close>

theorem validated_composite_always_answers:
  assumes "reporting v" and "answers v env" and "Registry_Validate v TypeComposite b = None"
  shows "nesting b \<le> maxCompositeDepth \<and> (\<exists>w' m. Composite_Evaluate env ruleID inComposite b w = (w', CBool m))"
proof -
  have ok: "validate v b '''' 1 = []" by (rule registry_validated [OF assms(3)])
  obtain w' m where "eval_blob env b w = (w', CBool m)" using validated_answers(1) [OF assms(1,2) ok] by blast
  then show ?thesis
    using validated_nesting(1) [OF assms(1) ok] by (simp add: Composite_Evaluate_def maxCompositeDepth_def)
qed

definition demo_blob :: blob where
  "demo_blob = Parsed '''' opAnd
     [Child ''event_emitted'' (Unparsed ''a'' ''''),
      Child TypeComposite (Parsed '''' opNot [Child ''token_event'' (Unparsed ''b'' '''')])]"

definition demo_validate :: validate_env where
  "demo_validate = \<lparr>cv_evaluators = [''event_emitted'', ''token_event''], cv_absences = [], cv_leaf = (\<lambda>ty b. None),
     cv_cooldown = (\<lambda>b. None), cv_guidance = (\<lambda>b. None), cv_unknown = (\<lambda>ty. ty)\<rparr>"

definition demo_comp :: "nat comp_env" where
  "demo_comp = \<lparr>ce_evaluators = [''event_emitted'', ''token_event''], ce_absences = [],
     ce_leaf = (\<lambda>ty b s. (s + 1, CBool (ty = ''event_emitted''))), ce_ctxErr = (\<lambda>n. None)\<rparr>"

lemma demo_accepted: "Registry_Validate demo_validate TypeComposite demo_blob = None"
  by (simp add: Registry_Validate_def Composite_Validate_def first_err_def demo_blob_def demo_validate_def op_errors_def op_defs
        Registry_Validate_leaf_def TypeComposite_def maxCompositeDepth_def Let_def)

lemma demo_reporting: "reporting demo_validate"
  by (simp add: reporting_def demo_validate_def reports_def)

theorem validated_composite_always_answers_witness:
  "nesting demo_blob \<le> maxCompositeDepth \<and> (\<exists>w' m. Composite_Evaluate demo_comp 7 False demo_blob \<lparr>cw_state = 0, cw_tick = 0\<rparr> = (w', CBool m))"
  by (rule validated_composite_always_answers [OF demo_reporting _ demo_accepted])
     (simp add: answers_def demo_comp_def demo_validate_def)

text \<open>
  C26. Short-circuit evaluation computes the boolean the composite stands for. When a leaf's answer depends only
  on its type and params, evaluating an accepted composite yields the conjunction, disjunction or negation
  of its children, read recursively, although not every child is evaluated.
\<close>

theorem composite_computes_its_boolean:
  assumes "reporting v" and "pure_leaves v env sat" and "Registry_Validate v TypeComposite b = None"
  shows "snd (Composite_Evaluate env ruleID inComposite b w) = CBool (denote env sat b)"
proof -
  obtain w' where "eval_blob env b w = (w', CBool (denote env sat b))"
    using validated_denotes(1) [OF assms(1,2) registry_validated [OF assms(3)]] by blast
  then show ?thesis by (simp add: Composite_Evaluate_def)
qed

theorem composite_computes_its_boolean_witness:
  "snd (Composite_Evaluate demo_comp 7 False demo_blob \<lparr>cw_state = 0, cw_tick = 0\<rparr>) = CBool True"
  using composite_computes_its_boolean [OF demo_reporting _ demo_accepted, of demo_comp "\<lambda>ty b. ty = ''event_emitted''" 7 False]
  by (simp add: pure_leaves_def demo_comp_def demo_validate_def demo_blob_def op_defs TypeComposite_def)

lemma eval_and_decided: "eval_and env pre w = (w', r) \<Longrightarrow> r \<noteq> CBool True \<Longrightarrow> eval_and env (pre @ post) w = (w', r)"
  by (induction pre arbitrary: w) (auto split: prod.splits cres.splits bool.splits)

lemma eval_or_decided: "eval_or env pre w = (w', r) \<Longrightarrow> r \<noteq> CBool False \<Longrightarrow> eval_or env (pre @ post) w = (w', r)"
  by (induction pre arbitrary: w) (auto split: prod.splits cres.splits bool.splits)

text \<open>
  Evaluation stops at the child that decides. Once a prefix of an \<open>and\<close>'s children gives false, an error or a
  panic, or a prefix of an \<open>or\<close>'s children gives true, an error or a panic, the children after it are not
  evaluated: the answer and every evaluator's state are those of the prefix, whatever follows.
\<close>

theorem composite_stops_at_the_deciding_child:
  assumes "ce_ctxErr env (cw_tick w) = None"
    and "op = opAnd \<and> eval_and env pre w = (w', r) \<and> r \<noteq> CBool True \<or> op = opOr \<and> eval_or env pre w = (w', r) \<and> r \<noteq> CBool False"
  shows "eval_blob env (Parsed txt op (pre @ post)) w = (w', r)"
  using assms eval_and_decided [of env pre w w' r post] eval_or_decided [of env pre w w' r post]
  by (auto simp: op_defs)

theorem composite_stops_at_the_deciding_child_witness:
  "eval_blob demo_comp (Parsed '''' opAnd ([Child ''token_event'' (Unparsed ''b'' '''')] @ [Child ''event_emitted'' (Unparsed ''a'' '''')]))
     \<lparr>cw_state = 0, cw_tick = 0\<rparr> = (\<lparr>cw_state = 1, cw_tick = 1\<rparr>, CBool False)"
  by (rule composite_stops_at_the_deciding_child)
     (simp_all add: demo_comp_def op_defs evaluate_leaf_def child_err_def TypeComposite_def)

text \<open>The outermost composite restores the state it started from when it does not answer with a boolean.\<close>

lemma composite_failure_restores_state:
  "Composite_Evaluate env ruleID False b w = (w', r) \<Longrightarrow> ruleID \<noteq> 0 \<Longrightarrow> (\<And>m. r \<noteq> CBool m) \<Longrightarrow> cw_state w' = cw_state w"
  by (auto simp: Composite_Evaluate_def split: prod.splits cres.splits)

text \<open>
  A nested composite skips the guidance check that \<open>Registry.Validate\<close> runs on every rule: the same params that the
  registry rejects are accepted as a child.
\<close>

lemma nested_composite_guidance_unchecked:
  "\<exists>v inner e. Registry_Validate v TypeComposite inner = Some e
     \<and> Registry_Validate v TypeComposite (Parsed ''outer'' opNot [Child TypeComposite inner]) = None"
proof -
  define v where "v = demo_validate\<lparr>cv_guidance := (\<lambda>b. if raw b = ''bad'' then Some (VPlain ''runbook_url'') else None)\<rparr>"
  define inner where "inner = Parsed ''bad'' opNot [Child ''token_event'' (Unparsed ''b'' '''')]"
  have "Registry_Validate v TypeComposite inner = Some (VPlain ''runbook_url'')"
    "Registry_Validate v TypeComposite (Parsed ''outer'' opNot [Child TypeComposite inner]) = None"
    by (simp_all add: Registry_Validate_def Composite_Validate_def first_err_def v_def inner_def demo_validate_def
          op_errors_def op_defs Registry_Validate_leaf_def TypeComposite_def maxCompositeDepth_def Let_def)
  then show ?thesis by blast
qed

end
