(* ===== verification/Lease.thy ===== *)
theory Lease
  imports Beacon_Prelude
begin

text \<open>
  \<open>internal/lease/lease.go\<close>: the election of the single poller among several instances. Leadership is a Postgres
  advisory lock that belongs to a database session; a session that ends gives it up.

  The system is a step relation over all instances and the lock. Each instance runs the campaign loop of
  \<open>Run\<close>; a rule is one step of that loop between two points at which another instance or the database may act.
  The database is what the \<open>Session\<close> interface documents: \<open>TryLock\<close> grants the lock to a session when no
  session holds it, \<open>Renew\<close> answers true only while the session holds it, \<open>Unlock\<close> and the end of a session
  release it, and any call may fail with its effect done or not done. A session may die at any time;
  \<open>sys_lost\<close> remembers those that did.
\<close>

definition Key :: int where "Key = 23449569115459406"
definition DefaultInterval :: duration where "DefaultInterval = 3 * second"
definition jobStopTimeout :: duration where "jobStopTimeout = 10 * second"

record Options =
  op_Interval :: duration
  op_Key :: int

definition withDefaults :: "Options \<Rightarrow> Options" where
  "withDefaults opt =
     (let opt1 = (if op_Interval opt \<le> 0 then opt\<lparr>op_Interval := DefaultInterval\<rparr> else opt) in
      if op_Key opt1 = 0 then opt1\<lparr>op_Key := Key\<rparr> else opt1)"

record Status =
  st_Enabled :: bool
  st_Leader :: bool
  st_Since :: gtime

definition Role :: "Status \<Rightarrow> string" where
  "Role s = (if \<not> st_Enabled s then ''single node'' else if st_Leader s then ''leader'' else ''follower'')"

definition zero_status :: Status where
  "zero_status = \<lparr>st_Enabled = False, st_Leader = False, st_Since = 0\<rparr>"

definition follower :: Status where
  "follower = zero_status\<lparr>st_Enabled := True\<rparr>"

definition set_status :: "Status \<Rightarrow> Status \<Rightarrow> Status \<times> bool" where
  "set_status old new = (new, st_Leader old \<noteq> st_Leader new \<or> st_Enabled old \<noteq> st_Enabled new)"

text \<open>\<open>sleep\<close>'s duration: a non-positive interval waits a millisecond.\<close>

definition sleep_for :: "duration \<Rightarrow> duration" where
  "sleep_for d = (if d \<le> 0 then millisecond else d)"

subsection \<open>One instance\<close>

text \<open>
  Where an instance is in \<open>Run\<close>: before \<open>Dial\<close>, with a session before \<open>TryLock\<close>, in \<open>hold\<close>'s loop, in \<open>stop\<close>
  waiting for the job (the flag is \<open>ordered\<close>), past that wait with the lock still to be released, past
  \<open>release\<close> with the session still to be closed, or returned.
\<close>

datatype phase = PIdle | PDialed | PHolding | PStopping bool | PRelease bool | PClosing | PDone

datatype lease_log = LFailed | LReachable | LFollower | LAcquired | LLost | LAbandoned

record lease_instance =
  in_phase :: phase
  in_session :: nat
  in_status :: Status
  in_loggedFailure :: bool
  in_ctxDone :: bool
  in_job :: bool
  in_orphans :: nat
  in_logs :: "lease_log list"

definition new_instance :: lease_instance where
  "new_instance = \<lparr>in_phase = PIdle, in_session = 0, in_status = zero_status, in_loggedFailure = False, in_ctxDone = False,
     in_job = False, in_orphans = 0, in_logs = []\<rparr>"

definition lease_failed :: "lease_instance \<Rightarrow> lease_instance" where
  "lease_failed a =
     (let a1 = a\<lparr>in_status := fst (set_status (in_status a) follower)\<rparr> in
      if in_loggedFailure a1 then a1 else a1\<lparr>in_loggedFailure := True, in_logs := in_logs a1 @ [LFailed]\<rparr>)"

definition dialed :: "nat \<Rightarrow> lease_instance \<Rightarrow> lease_instance" where
  "dialed sess a =
     (let a1 = (if in_loggedFailure a then a\<lparr>in_loggedFailure := False, in_logs := in_logs a @ [LReachable]\<rparr> else a) in
      a1\<lparr>in_phase := PDialed, in_session := sess\<rparr>)"

definition not_granted :: "lease_instance \<Rightarrow> lease_instance" where
  "not_granted a =
     (let (s, changed) = set_status (in_status a) follower;
          a1 = a\<lparr>in_status := s\<rparr> in
      (if changed then a1\<lparr>in_logs := in_logs a1 @ [LFollower]\<rparr> else a1)\<lparr>in_phase := PClosing\<rparr>)"

definition granted :: "gtime \<Rightarrow> lease_instance \<Rightarrow> lease_instance" where
  "granted now a = a\<lparr>in_status := fst (set_status (in_status a) \<lparr>st_Enabled = True, st_Leader = True, st_Since = now\<rparr>),
     in_logs := in_logs a @ [LAcquired], in_phase := PHolding, in_job := True\<rparr>"

text \<open>\<open>hold\<close> after a renewal that did not confirm the lock, or after cancellation: \<open>stop\<close> begins.\<close>

definition begin_stop :: "bool \<Rightarrow> lease_instance \<Rightarrow> lease_instance" where
  "begin_stop ordered a =
     (if ordered then a else a\<lparr>in_logs := in_logs a @ [LLost]\<rparr>)\<lparr>in_phase := PStopping ordered\<rparr>"

text \<open>A job that outlives \<open>jobStopTimeout\<close> keeps running, but is no longer waited for: it becomes an orphan.\<close>

definition abandon :: "bool \<Rightarrow> lease_instance \<Rightarrow> lease_instance" where
  "abandon ordered a = a\<lparr>in_phase := PRelease ordered, in_job := False, in_orphans := in_orphans a + 1,
     in_logs := in_logs a @ [LAbandoned]\<rparr>"

definition stop_done :: "lease_instance \<Rightarrow> lease_instance" where
  "stop_done a = a\<lparr>in_status := fst (set_status (in_status a) follower), in_phase := PClosing\<rparr>"

subsection \<open>The system\<close>

record lease_sys =
  sys_inst :: "nat \<Rightarrow> lease_instance"
  sys_lock :: "nat option"
  sys_next :: nat
  sys_lost :: "nat set"

definition sys0 :: lease_sys where
  "sys0 = \<lparr>sys_inst = (\<lambda>i. new_instance), sys_lock = None, sys_next = 1, sys_lost = {}\<rparr>"

definition upd :: "nat \<Rightarrow> lease_instance \<Rightarrow> lease_sys \<Rightarrow> lease_sys" where
  "upd i a s = s\<lparr>sys_inst := (sys_inst s)(i := a)\<rparr>"

definition drop_lock :: "nat \<Rightarrow> lease_sys \<Rightarrow> lease_sys" where
  "drop_lock sess s = (if sys_lock s = Some sess then s\<lparr>sys_lock := None\<rparr> else s)"

inductive lease_step :: "lease_sys \<Rightarrow> lease_sys \<Rightarrow> bool" where
  cancelled: "lease_step s (upd i ((sys_inst s i)\<lparr>in_ctxDone := True\<rparr>) s)"
| session_dies: "sess < sys_next s \<Longrightarrow> lease_step s (drop_lock sess (s\<lparr>sys_lost := insert sess (sys_lost s)\<rparr>))"
| dial_fails: "in_phase (sys_inst s i) = PIdle \<Longrightarrow> \<not> in_ctxDone (sys_inst s i) \<Longrightarrow>
    lease_step s (upd i (lease_failed (sys_inst s i)) s)"
| dial: "in_phase (sys_inst s i) = PIdle \<Longrightarrow> \<not> in_ctxDone (sys_inst s i) \<Longrightarrow>
    lease_step s (upd i (dialed (sys_next s) (sys_inst s i)) (s\<lparr>sys_next := sys_next s + 1\<rparr>))"
| try_lock_granted: "in_phase (sys_inst s i) = PDialed \<Longrightarrow> sys_lock s = None \<Longrightarrow> in_session (sys_inst s i) \<notin> sys_lost s \<Longrightarrow>
    lease_step s (upd i (granted now (sys_inst s i)) (s\<lparr>sys_lock := Some (in_session (sys_inst s i))\<rparr>))"
| try_lock_taken: "in_phase (sys_inst s i) = PDialed \<Longrightarrow> sys_lock s \<noteq> None \<Longrightarrow>
    lease_step s (upd i (not_granted (sys_inst s i)) s)"
| try_lock_fails: "in_phase (sys_inst s i) = PDialed \<Longrightarrow>
    lock' = sys_lock s \<or> sys_lock s = None \<and> in_session (sys_inst s i) \<notin> sys_lost s \<and> lock' = Some (in_session (sys_inst s i)) \<Longrightarrow>
    lease_step s (upd i ((lease_failed (sys_inst s i))\<lparr>in_phase := PClosing\<rparr>) (s\<lparr>sys_lock := lock'\<rparr>))"
| renewed: "in_phase (sys_inst s i) = PHolding \<Longrightarrow> sys_lock s = Some (in_session (sys_inst s i)) \<Longrightarrow> lease_step s s"
| renew_fails: "in_phase (sys_inst s i) = PHolding \<Longrightarrow>
    lease_step s (upd i (begin_stop (in_ctxDone (sys_inst s i)) (sys_inst s i)) s)"
| shutdown: "in_phase (sys_inst s i) = PHolding \<Longrightarrow> in_ctxDone (sys_inst s i) \<Longrightarrow>
    lease_step s (upd i (begin_stop True (sys_inst s i)) s)"
| job_returns: "in_job (sys_inst s i) \<Longrightarrow>
    lease_step s (upd i ((sys_inst s i)\<lparr>in_job := False\<rparr>) s)"
| job_stopped: "in_phase (sys_inst s i) = PStopping ordered \<Longrightarrow> \<not> in_job (sys_inst s i) \<Longrightarrow>
    lease_step s (upd i ((sys_inst s i)\<lparr>in_phase := PRelease ordered\<rparr>) s)"
| job_abandoned: "in_phase (sys_inst s i) = PStopping ordered \<Longrightarrow> in_job (sys_inst s i) \<Longrightarrow>
    lease_step s (upd i (abandon ordered (sys_inst s i)) s)"
| orphan_returns: "0 < in_orphans (sys_inst s i) \<Longrightarrow>
    lease_step s (upd i ((sys_inst s i)\<lparr>in_orphans := in_orphans (sys_inst s i) - 1\<rparr>) s)"
| release: "in_phase (sys_inst s i) = PRelease True \<Longrightarrow>
    s' = s \<or> s' = drop_lock (in_session (sys_inst s i)) s \<Longrightarrow>
    lease_step s (upd i (stop_done (sys_inst s i)) s')"
| no_release: "in_phase (sys_inst s i) = PRelease False \<Longrightarrow>
    lease_step s (upd i (stop_done (sys_inst s i)) s)"
| close: "in_phase (sys_inst s i) = PClosing \<Longrightarrow>
    s' = s \<or> s' = drop_lock (in_session (sys_inst s i)) s \<Longrightarrow>
    lease_step s (upd i ((sys_inst s i)\<lparr>in_phase := PIdle\<rparr>) s')"
| run_returns: "in_phase (sys_inst s i) = PIdle \<Longrightarrow> in_ctxDone (sys_inst s i) \<Longrightarrow>
    lease_step s (upd i ((sys_inst s i)\<lparr>in_phase := PDone,
                            in_status := fst (set_status (in_status (sys_inst s i)) follower)\<rparr>) s)"

inductive lease_reach :: "lease_sys \<Rightarrow> bool" where
  start: "lease_reach sys0"
| step: "lease_reach s \<Longrightarrow> lease_step s s' \<Longrightarrow> lease_reach s'"

definition polling :: "lease_sys \<Rightarrow> nat \<Rightarrow> bool" where
  "polling s i \<longleftrightarrow> in_job (sys_inst s i) \<or> 0 < in_orphans (sys_inst s i)"

subsection \<open>A deployment without an election\<close>

text \<open>\<open>Run\<close> on a \<open>SingleNode\<close> lease: the statuses it publishes around the job.\<close>

definition Run_single :: "gtime \<Rightarrow> (unit \<Rightarrow> 'a) \<Rightarrow> Status list \<times> 'a" where
  "Run_single now job = ([zero_status\<lparr>st_Leader := True, st_Since := now\<rparr>, zero_status], job ())"

subsection \<open>The invariant of the election\<close>

definition live :: "phase \<Rightarrow> bool" where
  "live p \<longleftrightarrow> p \<noteq> PIdle \<and> p \<noteq> PDone"

definition in_term :: "phase \<Rightarrow> bool" where
  "in_term p \<longleftrightarrow> (case p of PHolding \<Rightarrow> True | PStopping b \<Rightarrow> True | PRelease b \<Rightarrow> True | _ \<Rightarrow> False)"

text \<open>
  Sessions are fresh and not shared; during a term the session holds the lock unless the session has died; a job
  runs only in a term, and the published status says leader exactly in a term; an orphan has been reported.
\<close>

definition inst_ok :: "lease_sys \<Rightarrow> nat \<Rightarrow> bool" where
  "inst_ok s i \<longleftrightarrow>
     (let a = sys_inst s i in
      (live (in_phase a) \<longrightarrow> in_session a < sys_next s) \<and>
      (in_term (in_phase a) \<longrightarrow> sys_lock s = Some (in_session a) \<or> in_session a \<in> sys_lost s) \<and>
      (in_job a \<longrightarrow> in_phase a = PHolding \<or> (\<exists>b. in_phase a = PStopping b)) \<and>
      (st_Leader (in_status a) \<longleftrightarrow> in_term (in_phase a)) \<and>
      (0 < in_orphans a \<longrightarrow> LAbandoned \<in> set (in_logs a)))"

definition sys_ok :: "lease_sys \<Rightarrow> bool" where
  "sys_ok s \<longleftrightarrow>
     (\<forall>i. inst_ok s i) \<and>
     (\<forall>i j. i \<noteq> j \<longrightarrow> live (in_phase (sys_inst s i)) \<longrightarrow> live (in_phase (sys_inst s j)) \<longrightarrow>
        in_session (sys_inst s i) \<noteq> in_session (sys_inst s j))"

named_theorems lease_defs

lemmas [lease_defs] = live_def in_term_def upd_def drop_lock_def lease_failed_def dialed_def not_granted_def granted_def
  begin_stop_def abandon_def stop_done_def set_status_def follower_def zero_status_def Let_def

lemma sys_ok_upd:
  assumes ok: "sys_ok s"
    and same: "sys_inst s' = sys_inst s" "sys_lost s' = sys_lost s" "sys_next s \<le> sys_next s'"
    and lock: "\<And>j. j \<noteq> i \<Longrightarrow> in_term (in_phase (sys_inst s j)) \<Longrightarrow> sys_lock s = Some (in_session (sys_inst s j)) \<Longrightarrow>
                 sys_lock s' = Some (in_session (sys_inst s j))"
    and own: "inst_ok (upd i a s') i"
    and fresh: "\<And>j. j \<noteq> i \<Longrightarrow> live (in_phase a) \<Longrightarrow> live (in_phase (sys_inst s j)) \<Longrightarrow>
                 in_session (sys_inst s j) \<noteq> in_session a"
  shows "sys_ok (upd i a s')"
proof -
  have other: "inst_ok (upd i a s') j" if "j \<noteq> i" for j
  proof -
    have "inst_ok s j" using ok by (simp add: sys_ok_def)
    then show ?thesis using lock[OF that] same that by (auto simp: inst_ok_def upd_def Let_def)
  qed
  then have "inst_ok (upd i a s') j" for j using own by (cases "j = i") auto
  moreover have "in_session (sys_inst (upd i a s') j) \<noteq> in_session (sys_inst (upd i a s') k)"
    if "j \<noteq> k" "live (in_phase (sys_inst (upd i a s') j))" "live (in_phase (sys_inst (upd i a s') k))" for j k
    using that ok fresh same unfolding sys_ok_def upd_def by (cases "j = i"; cases "k = i") (simp_all, metis+)
  ultimately show ?thesis by (simp add: sys_ok_def)
qed

lemma sys_ok_same_session:
  assumes "sys_ok s" and "sys_inst s' = sys_inst s" "sys_lost s' = sys_lost s" "sys_next s \<le> sys_next s'"
    and "s' = s \<or> (\<exists>l. s' = s\<lparr>sys_lock := l\<rparr> \<and> (sys_lock s = None \<or> sys_lock s = Some (in_session (sys_inst s i)) \<and> live (in_phase (sys_inst s i))))"
    and "inst_ok (upd i a s') i"
    and "in_session a = in_session (sys_inst s i)" "live (in_phase a) \<Longrightarrow> live (in_phase (sys_inst s i))"
  shows "sys_ok (upd i a s')"
proof (rule sys_ok_upd[OF assms(1-4) _ assms(6)])
  have dist: "in_session (sys_inst s j) \<noteq> in_session (sys_inst s i)"
    if "j \<noteq> i" "live (in_phase (sys_inst s j))" "live (in_phase (sys_inst s i))" for j
    using assms(1) that by (simp add: sys_ok_def)
  show "sys_lock s' = Some (in_session (sys_inst s j))"
    if "j \<noteq> i" "in_term (in_phase (sys_inst s j))" "sys_lock s = Some (in_session (sys_inst s j))" for j
  proof -
    have "live (in_phase (sys_inst s j))" using that(2) by (auto simp: live_def in_term_def)
    then show ?thesis using assms(5) that dist by auto
  qed
  show "in_session (sys_inst s j) \<noteq> in_session a" if "j \<noteq> i" "live (in_phase a)" "live (in_phase (sys_inst s j))" for j
    using dist assms(7,8) that by simp
qed

lemma sys_ok_inst: "sys_ok s \<Longrightarrow> inst_ok s i"
  by (simp add: sys_ok_def)

lemma sys_ok_local:
  assumes ok: "sys_ok s"
    and "inst_ok s i \<Longrightarrow> inst_ok (upd i a s) i"
    and "in_session a = in_session (sys_inst s i)" "live (in_phase a) \<Longrightarrow> live (in_phase (sys_inst s i))"
  shows "sys_ok (upd i a s)"
  using assms by (intro sys_ok_same_session[OF ok]) (simp_all add: sys_ok_inst)

lemma sys_ok_step:
  assumes "lease_step s t" and ok: "sys_ok s"
  shows "sys_ok t"
  using assms(1)
proof cases
  case (session_dies sess)
  show ?thesis unfolding session_dies using ok
    by (auto simp: sys_ok_def inst_ok_def drop_lock_def Let_def)
next
  case (dial i)
  have "in_session (sys_inst s j) \<noteq> sys_next s" if "live (in_phase (sys_inst s j))" for j
    using sys_ok_inst[OF ok, of j] that by (auto simp: inst_ok_def Let_def)
  then show ?thesis unfolding dial(1) using sys_ok_inst[OF ok, of i] dial(2)
    by (intro sys_ok_upd[OF ok]) (auto simp: inst_ok_def lease_defs)
next
  case (renewed i)
  then show ?thesis using ok by simp
next
  case (try_lock_fails i lock')
  show ?thesis unfolding try_lock_fails(1) using sys_ok_inst[OF ok, of i] try_lock_fails(2,3)
    by (intro sys_ok_same_session[OF ok]) (auto simp: inst_ok_def lease_defs split: if_splits)
next
  case (try_lock_granted i now)
  show ?thesis unfolding try_lock_granted(1) using sys_ok_inst[OF ok, of i] try_lock_granted(2-)
    by (intro sys_ok_same_session[OF ok]) (auto simp: inst_ok_def lease_defs)
next
  case (release i s')
  show ?thesis unfolding release(1) using sys_ok_inst[OF ok, of i] release(2-)
    by (intro sys_ok_same_session[OF ok]) (auto simp: inst_ok_def lease_defs split: if_splits)
next
  case (close i s')
  show ?thesis unfolding close(1) using sys_ok_inst[OF ok, of i] close(2-)
    by (intro sys_ok_same_session[OF ok]) (auto simp: inst_ok_def lease_defs split: if_splits)
next
  case (cancelled i)
  show ?thesis unfolding cancelled
    by (intro sys_ok_local[OF ok]) (auto simp: inst_ok_def lease_defs split: if_splits)
next
  case (dial_fails i)
  show ?thesis unfolding dial_fails(1) using dial_fails(2-)
    by (intro sys_ok_local[OF ok]) (auto simp: inst_ok_def lease_defs split: if_splits)
next
  case (try_lock_taken i)
  show ?thesis unfolding try_lock_taken(1) using try_lock_taken(2-)
    by (intro sys_ok_local[OF ok]) (auto simp: inst_ok_def lease_defs split: if_splits)
next
  case (renew_fails i)
  show ?thesis unfolding renew_fails(1) using renew_fails(2-)
    by (intro sys_ok_local[OF ok]) (auto simp: inst_ok_def lease_defs split: if_splits)
next
  case (shutdown i)
  show ?thesis unfolding shutdown(1) using shutdown(2-)
    by (intro sys_ok_local[OF ok]) (auto simp: inst_ok_def lease_defs split: if_splits)
next
  case (job_returns i)
  show ?thesis unfolding job_returns(1) using job_returns(2-)
    by (intro sys_ok_local[OF ok]) (auto simp: inst_ok_def lease_defs split: if_splits)
next
  case (job_stopped i ordered)
  show ?thesis unfolding job_stopped(1) using job_stopped(2-)
    by (intro sys_ok_local[OF ok]) (auto simp: inst_ok_def lease_defs split: if_splits)
next
  case (job_abandoned i ordered)
  show ?thesis unfolding job_abandoned(1) using job_abandoned(2-)
    by (intro sys_ok_local[OF ok]) (auto simp: inst_ok_def lease_defs split: if_splits)
next
  case (orphan_returns i)
  show ?thesis unfolding orphan_returns(1) using orphan_returns(2-)
    by (intro sys_ok_local[OF ok]) (auto simp: inst_ok_def lease_defs split: if_splits)
next
  case (no_release i)
  show ?thesis unfolding no_release(1) using no_release(2-)
    by (intro sys_ok_local[OF ok]) (auto simp: inst_ok_def lease_defs split: if_splits)
next
  case (run_returns i)
  show ?thesis unfolding run_returns(1) using run_returns(2-)
    by (intro sys_ok_local[OF ok]) (auto simp: inst_ok_def lease_defs split: if_splits)
qed


lemma lease_reach_ok: "lease_reach s \<Longrightarrow> sys_ok s"
proof (induction rule: lease_reach.induct)
  case start
  show ?case by (simp add: sys_ok_def inst_ok_def sys0_def new_instance_def lease_defs)
next
  case (step s s')
  then show ?case by (blast intro: sys_ok_step)
qed

lemma in_job_live: "inst_ok s i \<Longrightarrow> in_job (sys_inst s i) \<Longrightarrow> live (in_phase (sys_inst s i)) \<and> in_term (in_phase (sys_inst s i))"
  by (auto simp: inst_ok_def Let_def live_def in_term_def)


lemma running_owns_lock:
  assumes "sys_ok s" and "in_job (sys_inst s i)" and "in_session (sys_inst s i) \<notin> sys_lost s"
  shows "sys_lock s = Some (in_session (sys_inst s i)) \<and> live (in_phase (sys_inst s i))"
  using assms in_job_live[of s i] sys_ok_inst[of s i] by (auto simp: inst_ok_def Let_def)

lemma leader_status_is_a_term:
  assumes "lease_reach s"
  shows "st_Leader (in_status (sys_inst s i)) \<longleftrightarrow> in_term (in_phase (sys_inst s i))"
  using sys_ok_inst[OF lease_reach_ok[OF assms], of i] by (simp add: inst_ok_def Let_def)

lemma lease_reach_leader:
  assumes "lease_reach s" and "in_phase (sys_inst s i) = PIdle" and "\<not> in_ctxDone (sys_inst s i)" and "sys_lock s = None"
    and "sys_next s \<notin> sys_lost s"
  shows "lease_reach (upd i (granted now (dialed (sys_next s) (sys_inst s i)))
           (s\<lparr>sys_next := sys_next s + 1, sys_lock := Some (sys_next s)\<rparr>))"
proof -
  let ?d = "upd i (dialed (sys_next s) (sys_inst s i)) (s\<lparr>sys_next := sys_next s + 1\<rparr>)"
  have "lease_reach ?d" using assms(1-3) by (blast intro: lease_reach.step lease_step.dial)
  moreover have "lease_step ?d (upd i (granted now (sys_inst ?d i)) (?d\<lparr>sys_lock := Some (in_session (sys_inst ?d i))\<rparr>))"
    using assms(4,5) by (intro lease_step.try_lock_granted) (auto simp: lease_defs)
  ultimately have "lease_reach (upd i (granted now (sys_inst ?d i)) (?d\<lparr>sys_lock := Some (in_session (sys_inst ?d i))\<rparr>))"
    by (rule lease_reach.step)
  then show ?thesis by (simp add: upd_def dialed_def Let_def)
qed

definition overlap_state :: lease_sys where
  "overlap_state =
     (let s1 = upd 0 (granted 5 (dialed 1 new_instance)) (sys0\<lparr>sys_next := 2, sys_lock := Some 1\<rparr>);
          s2 = drop_lock 1 (s1\<lparr>sys_lost := {1}\<rparr>) in
      upd 1 (granted 7 (dialed 2 new_instance)) (s2\<lparr>sys_next := 3, sys_lock := Some 2\<rparr>))"

text \<open>
  The lost session is a real exception: the database frees the lock at once, a follower takes it, and until its next
  renewal the old leader still polls.
\<close>

lemma lost_session_overlap:
  "lease_reach overlap_state" "polling overlap_state 0" "polling overlap_state 1"
proof -
  let ?s1 = "upd 0 (granted 5 (dialed 1 new_instance)) (sys0\<lparr>sys_next := 2, sys_lock := Some 1\<rparr>)"
  let ?s2 = "drop_lock 1 (?s1\<lparr>sys_lost := {1}\<rparr>)"
  have "lease_reach ?s1"
    using lease_reach_leader[OF lease_reach.start, of 0 5] by (simp add: sys0_def new_instance_def numeral_2_eq_2)
  then have "lease_reach ?s2"
    using lease_reach.step[OF _ lease_step.session_dies[of 1 ?s1]] by (simp add: upd_def sys0_def)
  then show "lease_reach overlap_state"
    using lease_reach_leader[of ?s2 1 7] by (simp add: overlap_state_def upd_def drop_lock_def sys0_def new_instance_def numeral_2_eq_2 numeral_3_eq_3)
  show "polling overlap_state 0" "polling overlap_state 1"
    by (simp_all add: overlap_state_def polling_def upd_def drop_lock_def granted_def)
qed

text \<open>
  C23. Two instances poll at once only if the database session of one of them has died, or one of them has
  abandoned a job that did not stop in time. With every session alive and every job honouring its
  cancellation at most one instance polls, whatever the order of dials, lock attempts, failed or slow renewals,
  unlocks, closes and shutdowns.
\<close>

theorem at_most_one_poller:
  assumes "lease_reach s" and "i \<noteq> j" and "polling s i" and "polling s j"
  shows "\<exists>k. (k = i \<or> k = j) \<and>
           (in_session (sys_inst s k) \<in> sys_lost s \<or> LAbandoned \<in> set (in_logs (sys_inst s k)))"
proof (rule ccontr)
  assume none: "\<not> ?thesis"
  have ok: "sys_ok s" using assms(1) by (rule lease_reach_ok)
  have "sys_lock s = Some (in_session (sys_inst s k)) \<and> live (in_phase (sys_inst s k))" if "k = i \<or> k = j" for k
  proof -
    have "in_orphans (sys_inst s k) = 0"
      using none that sys_ok_inst[OF ok, of k] by (auto simp: inst_ok_def Let_def)
    then show ?thesis using running_owns_lock[OF ok, of k] none that assms(3,4) by (auto simp: polling_def)
  qed
  then show False using ok assms(2) unfolding sys_ok_def by (metis option.inject)
qed

theorem at_most_one_poller_witness:
  "polling overlap_state 0 \<and> polling overlap_state 1 \<and>
   (\<exists>k. (k = 0 \<or> k = 1) \<and>
     (in_session (sys_inst overlap_state k) \<in> sys_lost overlap_state \<or> LAbandoned \<in> set (in_logs (sys_inst overlap_state k))))"
  using at_most_one_poller[OF lost_session_overlap(1) _ lost_session_overlap(2,3)] lost_session_overlap(2,3) by simp

end
