(* ===== verification/Stellar_Event.thy ===== *)
theory Stellar_Event
  imports Complex_Main Beacon_Prelude "HOL-Library.Word"
begin

text \<open>
  The decoded event of \<open>internal/stellar/types.go\<close> and the monitor and rule rows the poller works with
  (\<open>internal/store/store.go\<close>). A decoded value is a Go \<open>any\<close> with one of the types that \<open>scValToAny\<close> and
  \<open>encoding/json\<close> produce: a \<open>*big.Int\<close> is an \<open>int\<close>, a \<open>[]byte\<close> a list of characters, a \<open>float64\<close> the number it
  holds, a \<open>json.Number\<close> its text; a Go map is an association list whose first binding of a key counts. A ledger
  number is a Go \<open>uint32\<close>, so it is a \<open>32 word\<close>.
\<close>

type_synonym uint32 = "32 word"

datatype gvalue =
    GNil
  | GBool bool
  | GInt int
  | GStr string
  | GBytes string
  | GFloat rat
  | GNum string
  | GList "gvalue list"
  | GMap "(string \<times> gvalue) list"

record DecodedEvent =
  de_ID :: string
  de_ContractID :: string
  de_Ledger :: uint32
  de_LedgerClosedAt :: gtime
  de_TxHash :: string
  de_Topics :: "gvalue list"
  de_Value :: gvalue
  de_Fields :: "gvalue option"

definition EventName :: "DecodedEvent \<Rightarrow> string" where
  "EventName e =
     (case de_Topics e of
        GStr s # ts \<Rightarrow> s
      | GMap m # ts \<Rightarrow> (case map_of m ''symbol'' of Some (GStr s) \<Rightarrow> s | _ \<Rightarrow> '''')
      | _ \<Rightarrow> '''')"

record Monitor =
  mo_ID :: int
  mo_WorkspaceID :: string
  mo_Name :: string
  mo_Network :: string
  mo_ContractIDs :: "string list"
  mo_Priority :: string
  mo_RunbookURL :: string
  mo_ResponseGuidance :: string

record Rule =
  ru_ID :: int
  ru_Type :: string
  ru_Params :: string
  ru_Version :: int
  ru_Severity :: string
  ru_RunbookURL :: string
  ru_ResponseGuidance :: string

end
