(* ===== verification/Ingest_Store.thy ===== *)
theory Ingest_Store
  imports Stellar_Event "HOL-Library.AList" "HOL-Library.Multiset"
begin

text \<open>
  The tables behind ingestion and the statements of \<open>internal/store/postgres.go\<close> that read and write them:
  the checkpoint of each network, the per-contract cursors, the window of ledger hashes and the alerts'
  retraction mark. A table is a list of rows
  keyed by its primary key.

  Any statement may fail. \<open>db_faults\<close> holds the outcome of the statements still to come: \<open>None\<close> lets
  one succeed, \<open>Some e\<close> makes it fail with \<open>e\<close>, and every statement after the end of the list succeeds. A
  statement that fails changes nothing; neither does a transaction or an implicit batch transaction that
  fails at any of its statements, so each counts as one. \<open>updated_at\<close> and \<open>observed_at\<close> are columns that
  no reader of these tables decides on, and they are left out.
  The statements work on any extension \<open>'x IngestDB_scheme\<close> of these tables and leave its other fields alone.
\<close>

record IngestState =
  is_LastLedger :: uint32
  is_LastCursor :: string

record LedgerHash =
  lh_Ledger :: uint32
  lh_Hash :: string

record AlertRow =
  ar_ID :: int
  ar_MonitorID :: int
  ar_RuleID :: int
  ar_EventID :: string
  ar_Network :: string
  ar_Ledger :: uint32
  ar_RetractedAt :: "gtime option"
  ar_WorkspaceID :: string
  ar_Severity :: string
  ar_Payload :: gvalue
  ar_Backfilled :: bool
  ar_RuleVersion :: int
  ar_RunbookURL :: string
  ar_ResponseGuidance :: string
  ar_CreatedAt :: gtime

record IngestDB =
  db_ingest_state :: "IngestState option"
  db_network_ingest_state :: "(string \<times> IngestState) list"
  db_cursors :: "((string \<times> string) \<times> uint32) list"
  db_ledger_hashes :: "(uint32 \<times> string) list"
  db_network_ledger_hashes :: "((string \<times> uint32) \<times> string) list"
  db_alerts :: "AlertRow list"
  db_monitored :: "(string \<times> string) list"
  db_gaps :: "(string \<times> uint32 \<times> uint32 \<times> gtime) list"
  db_faults :: "string option list"

type_synonym ('s, 'a) fallible = "'s \<Rightarrow> 's \<times> (string + 'a)"

definition next_fault :: "'x IngestDB_scheme \<Rightarrow> string option" where
  "next_fault db = (case db_faults db of [] \<Rightarrow> None | f # fs \<Rightarrow> f)"

definition sql :: "('x IngestDB_scheme \<Rightarrow> 'x IngestDB_scheme \<times> 'a) \<Rightarrow> ('x IngestDB_scheme, 'a) fallible" where
  "sql stmt db =
     (let db1 = db\<lparr>db_faults := tl (db_faults db)\<rparr> in
      case next_fault db of Some e \<Rightarrow> (db1, Inl e) | None \<Rightarrow> (case stmt db1 of (db', a) \<Rightarrow> (db', Inr a)))"

text \<open>\<open>if err := m; err != nil { return err }\<close> followed by the rest.\<close>

definition sbind :: "('s, 'a) fallible \<Rightarrow> ('a \<Rightarrow> ('s, 'b) fallible) \<Rightarrow> ('s, 'b) fallible" where
  "sbind m f s = (case m s of (s', Inl e) \<Rightarrow> (s', Inl e) | (s', Inr a) \<Rightarrow> f a s')"

definition sreturn :: "'a \<Rightarrow> ('s, 'a) fallible" where
  "sreturn a s = (s, Inr a)"

definition sfail :: "string \<Rightarrow> ('s, 'a) fallible" where
  "sfail e s = (s, Inl e)"

lemma sbind_sreturn [simp]: "sbind (sreturn a) f = f a"
  by (rule ext) (simp add: sbind_def sreturn_def)

lemma sbind_sfail [simp]: "sbind (sfail e) f = sfail e"
  by (rule ext) (simp add: sbind_def sfail_def)

lemma sbind_Inr: "sbind m f s = (s', Inr b) \<Longrightarrow> (\<And>s1 a. m s = (s1, Inr a) \<Longrightarrow> f a s1 = (s', Inr b) \<Longrightarrow> P) \<Longrightarrow> P"
  by (auto simp: sbind_def split: prod.splits sum.splits)

subsection \<open>The checkpoint\<close>

definition seed_from_legacy :: "string \<Rightarrow> 'x IngestDB_scheme \<Rightarrow> 'x IngestDB_scheme \<times> unit" where
  "seed_from_legacy network db =
     (case db_ingest_state db of
        Some row \<Rightarrow>
          (if db_network_ingest_state db = []
           then db\<lparr>db_network_ingest_state := [(network, row)]\<rparr> else db, ())
      | None \<Rightarrow> (db, ()))"

definition insert_network_row :: "string \<Rightarrow> 'x IngestDB_scheme \<Rightarrow> 'x IngestDB_scheme \<times> unit" where
  "insert_network_row network db =
     (if map_of (db_network_ingest_state db) network = None
      then db\<lparr>db_network_ingest_state :=
                db_network_ingest_state db @ [(network, \<lparr>is_LastLedger = 0, is_LastCursor = ''''\<rparr>)]\<rparr>
      else db, ())"

definition not_found :: string where "not_found = ''not found''"

definition GetIngestState :: "string \<Rightarrow> ('x IngestDB_scheme, IngestState) fallible" where
  "GetIngestState network =
     (let answer = (\<lambda>row. case row of None \<Rightarrow> sfail not_found | Some s \<Rightarrow> sreturn s) in
      if network = '''' then sbind (sql (\<lambda>db. (db, db_ingest_state db))) answer
      else sbind (sql (seed_from_legacy network)) (\<lambda>_.
           sbind (sql (insert_network_row network)) (\<lambda>_.
           sbind (sql (\<lambda>db. (db, map_of (db_network_ingest_state db) network))) answer)))"

definition SetIngestState :: "string \<Rightarrow> IngestState \<Rightarrow> ('x IngestDB_scheme, unit) fallible" where
  "SetIngestState network st =
     (if network = ''''
      then sql (\<lambda>db. (db\<lparr>db_ingest_state := map_option (\<lambda>_. st) (db_ingest_state db)\<rparr>, ()))
      else sql (\<lambda>db. (db\<lparr>db_network_ingest_state :=
                           AList.update network st (db_network_ingest_state db)\<rparr>, ())))"

text \<open>What a network's checkpoint row holds.\<close>

definition checkpointOf :: "string \<Rightarrow> 'x IngestDB_scheme \<Rightarrow> IngestState option" where
  "checkpointOf network db =
     (if network = '''' then db_ingest_state db else map_of (db_network_ingest_state db) network)"

subsection \<open>The contract cursors\<close>

definition cursorOf :: "string \<Rightarrow> string \<Rightarrow> 'x IngestDB_scheme \<Rightarrow> uint32 option" where
  "cursorOf network contractID db = map_of (db_cursors db) (network, contractID)"

definition ListContractCursors :: "string \<Rightarrow> ('x IngestDB_scheme, (string \<times> uint32) list) fallible" where
  "ListContractCursors network =
     sql (\<lambda>db. (db, map (\<lambda>((n, c), l). (c, l)) (filter (\<lambda>((n, c), l). n = network) (db_cursors db))))"

definition InitializeContractCursor :: "string \<Rightarrow> string \<Rightarrow> uint32 \<Rightarrow> ('x IngestDB_scheme, unit) fallible" where
  "InitializeContractCursor network contractID lastLedger =
     sql (\<lambda>db. (if (network, contractID) \<in> set (db_monitored db) \<and> cursorOf network contractID db = None
                then db\<lparr>db_cursors := db_cursors db @ [((network, contractID), lastLedger)]\<rparr>
                else db, ()))"

definition AdvanceContractCursor :: "string \<Rightarrow> string \<Rightarrow> uint32 \<Rightarrow> ('x IngestDB_scheme, unit) fallible" where
  "AdvanceContractCursor network contractID lastLedger =
     sql (\<lambda>db. (if (network, contractID) \<in> set (db_monitored db)
                then (case cursorOf network contractID db of
                        None \<Rightarrow> db\<lparr>db_cursors := db_cursors db @ [((network, contractID), lastLedger)]\<rparr>
                      | Some l \<Rightarrow>
                          if l < lastLedger
                          then db\<lparr>db_cursors := AList.update (network, contractID) lastLedger (db_cursors db)\<rparr>
                          else db)
                else db, ()))"

definition RewindContractCursors :: "string \<Rightarrow> uint32 \<Rightarrow> ('x IngestDB_scheme, unit) fallible" where
  "RewindContractCursors network lastLedger =
     sql (\<lambda>db. (db\<lparr>db_cursors :=
                     map (\<lambda>((n, c), l). ((n, c), if n = network \<and> lastLedger < l then lastLedger else l))
                         (db_cursors db)\<rparr>, ()))"

subsection \<open>The ledger-hash window\<close>

definition upsert_hash :: "string \<Rightarrow> LedgerHash \<Rightarrow> 'x IngestDB_scheme \<Rightarrow> 'x IngestDB_scheme" where
  "upsert_hash network h db =
     (if network = ''''
      then db\<lparr>db_ledger_hashes := AList.update (lh_Ledger h) (lh_Hash h) (db_ledger_hashes db)\<rparr>
      else db\<lparr>db_network_ledger_hashes :=
                AList.update (network, lh_Ledger h) (lh_Hash h) (db_network_ledger_hashes db)\<rparr>)"

definition RecordLedgerHashes :: "string \<Rightarrow> LedgerHash list \<Rightarrow> ('x IngestDB_scheme, unit) fallible" where
  "RecordLedgerHashes network hashes =
     (if hashes = [] then sreturn () else sql (\<lambda>db. (fold (upsert_hash network) hashes db, ())))"

definition window_rows :: "string \<Rightarrow> 'x IngestDB_scheme \<Rightarrow> (uint32 \<times> string) list" where
  "window_rows network db =
     (if network = '''' then db_ledger_hashes db
      else map (\<lambda>((n, l), h). (l, h)) (filter (\<lambda>((n, l), h). n = network) (db_network_ledger_hashes db)))"

definition LedgerHashes :: "string \<Rightarrow> uint32 \<Rightarrow> uint32 \<Rightarrow> ('x IngestDB_scheme, LedgerHash list) fallible" where
  "LedgerHashes network from tip =
     sql (\<lambda>db. (db, map (\<lambda>(l, h). \<lparr>lh_Ledger = l, lh_Hash = h\<rparr>)
                       (sort_key fst (filter (\<lambda>(l, h). from \<le> l \<and> l \<le> tip) (window_rows network db)))))"

definition PruneLedgerHashes :: "string \<Rightarrow> uint32 \<Rightarrow> ('x IngestDB_scheme, unit) fallible" where
  "PruneLedgerHashes network before =
     (if network = ''''
      then sql (\<lambda>db. (db\<lparr>db_ledger_hashes := filter (\<lambda>(l, h). \<not> l < before) (db_ledger_hashes db)\<rparr>, ()))
      else sql (\<lambda>db. (db\<lparr>db_network_ledger_hashes :=
                           filter (\<lambda>((n, l), h). \<not> (n = network \<and> l < before)) (db_network_ledger_hashes db)\<rparr>, ())))"

definition retract :: "string \<Rightarrow> uint32 \<Rightarrow> gtime \<Rightarrow> AlertRow \<Rightarrow> AlertRow" where
  "retract network ledger retractedAt a =
     (if ar_Network a = network \<and> ledger \<le> ar_Ledger a \<and> ar_RetractedAt a = None
      then a\<lparr>ar_RetractedAt := Some retractedAt\<rparr> else a)"

definition RetractAlertsFromLedger :: "string \<Rightarrow> uint32 \<Rightarrow> gtime \<Rightarrow> ('x IngestDB_scheme, nat) fallible" where
  "RetractAlertsFromLedger network ledger retractedAt =
     sql (\<lambda>db. (db\<lparr>db_alerts := map (retract network ledger retractedAt) (db_alerts db)\<rparr>,
                length (filter (\<lambda>a. ar_Network a = network \<and> ledger \<le> ar_Ledger a \<and> ar_RetractedAt a = None)
                               (db_alerts db))))"

definition RecordRetentionGap :: "string \<Rightarrow> uint32 \<Rightarrow> uint32 \<Rightarrow> gtime \<Rightarrow> ('x IngestDB_scheme, unit) fallible" where
  "RecordRetentionGap network fromLedger toLedger detectedAt =
     sql (\<lambda>db. (db\<lparr>db_gaps := db_gaps db @ [(network, fromLedger, toLedger, detectedAt)]\<rparr>, ()))"

lemmas ingest_statements =
  GetIngestState_def SetIngestState_def ListContractCursors_def InitializeContractCursor_def
  AdvanceContractCursor_def RewindContractCursors_def RecordLedgerHashes_def LedgerHashes_def
  PruneLedgerHashes_def RetractAlertsFromLedger_def RecordRetentionGap_def

subsection \<open>Statements and their effect\<close>

lemma sql_Inr:
  "sql stmt db = (db', Inr a) \<longleftrightarrow> next_fault db = None \<and> stmt (db\<lparr>db_faults := tl (db_faults db)\<rparr>) = (db', a)"
  by (auto simp: sql_def Let_def split: option.splits prod.splits)

lemma sql_Inl:
  "sql stmt db = (db', Inl e) \<longleftrightarrow> next_fault db = Some e \<and> db' = db\<lparr>db_faults := tl (db_faults db)\<rparr>"
  by (auto simp: sql_def Let_def split: option.splits prod.splits)

lemma fst_sql:
  "fst (sql stmt db) =
     (if next_fault db = None then fst (stmt (db\<lparr>db_faults := tl (db_faults db)\<rparr>)) else db\<lparr>db_faults := tl (db_faults db)\<rparr>)"
  by (auto simp: sql_def Let_def split: option.splits prod.splits)

text \<open>\<open>keeps f m\<close>: the operation \<open>m\<close> leaves the part \<open>f\<close> of the state as it is, whether it fails or not.\<close>

named_theorems keeps_intro

definition keeps :: "('s \<Rightarrow> 'b) \<Rightarrow> ('s, 'a) fallible \<Rightarrow> bool" where
  "keeps f m \<longleftrightarrow> (\<forall>s. f (fst (m s)) = f s)"

lemma keeps_fst: "keeps f m \<Longrightarrow> f (fst (m s)) = f s"
  by (simp add: keeps_def)

lemma keeps_eq: "keeps f m \<Longrightarrow> m s = (s', r) \<Longrightarrow> f s' = f s"
  by (metis fst_conv keeps_def)

lemma keeps_sreturn [keeps_intro]: "keeps f (sreturn a)"
  by (simp add: keeps_def sreturn_def)

lemma keeps_sfail [keeps_intro]: "keeps f (sfail e)"
  by (simp add: keeps_def sfail_def)

lemma keeps_sbind [keeps_intro]: "keeps f m \<Longrightarrow> (\<And>a. keeps f (g a)) \<Longrightarrow> keeps f (sbind m g)"
  unfolding keeps_def sbind_def by (auto split: prod.splits sum.splits) (metis fst_conv)+

lemma keeps_sql [keeps_intro]:
  "(\<And>db. f (fst (stmt db)) = f db) \<Longrightarrow> (\<And>db x. f (db\<lparr>db_faults := x\<rparr>) = f db) \<Longrightarrow> keeps f (sql stmt)"
  by (auto simp: keeps_def sql_def Let_def split: option.splits prod.splits) (metis fst_conv)

lemma keeps_if [keeps_intro]: "keeps f m \<Longrightarrow> keeps f m' \<Longrightarrow> keeps f (if b then m else m')"
  by simp

lemma keeps_option [keeps_intro]: "keeps f m \<Longrightarrow> (\<And>a. keeps f (g a)) \<Longrightarrow> keeps f (case x of None \<Rightarrow> m | Some a \<Rightarrow> g a)"
  by (cases x) auto

lemma keeps_bool [keeps_intro]: "keeps f m \<Longrightarrow> keeps f m' \<Longrightarrow> keeps f (case b of True \<Rightarrow> m | False \<Rightarrow> m')"
  by (cases b) auto

lemma keeps_sum [keeps_intro]: "(\<And>a. keeps f (g a)) \<Longrightarrow> (\<And>a. keeps f (h a)) \<Longrightarrow> keeps f (case x of Inl a \<Rightarrow> g a | Inr a \<Rightarrow> h a)"
  by (cases x) auto

lemma keeps_prod [keeps_intro]: "(\<And>a b. keeps f (g a b)) \<Longrightarrow> keeps f (case x of (a, b) \<Rightarrow> g a b)"
  by (cases x) auto

text \<open>Every table has one row per primary key.\<close>

definition keyed :: "('k \<times> 'v) list \<Rightarrow> bool" where
  "keyed rows = distinct (map fst rows)"

definition db_ok :: "'x IngestDB_scheme \<Rightarrow> bool" where
  "db_ok db \<longleftrightarrow> keyed (db_network_ingest_state db) \<and> keyed (db_cursors db)
     \<and> keyed (db_ledger_hashes db) \<and> keyed (db_network_ledger_hashes db)"

lemma keyed_update [simp]: "keyed rows \<Longrightarrow> keyed (AList.update k v rows)"
  by (simp add: keyed_def AList.distinct_update)

lemma keyed_filter [simp]: "keyed rows \<Longrightarrow> keyed (filter P rows)"
  by (simp add: keyed_def distinct_map_filter)

lemma keyed_append [simp]: "keyed rows \<Longrightarrow> map_of rows k = None \<Longrightarrow> keyed (rows @ [(k, v)])"
  by (auto simp: keyed_def map_of_eq_None_iff)

lemma keyed_map_value: "(\<And>r. fst (f r) = fst r) \<Longrightarrow> keyed (map f rows) \<longleftrightarrow> keyed rows"
  by (simp add: keyed_def comp_def)

lemma db_ok_faults [simp]: "db_ok (db\<lparr>db_faults := fs\<rparr>) = db_ok db"
  by (simp add: db_ok_def)

lemma db_ok_rows [simp]:
  "db_ok (db\<lparr>db_ingest_state := x\<rparr>) = db_ok db"
  "db_ok (db\<lparr>db_alerts := as\<rparr>) = db_ok db"
  "db_ok (db\<lparr>db_gaps := gs\<rparr>) = db_ok db"
  "db_ok db \<Longrightarrow> keyed ns \<Longrightarrow> db_ok (db\<lparr>db_network_ingest_state := ns\<rparr>)"
  "db_ok db \<Longrightarrow> keyed cs \<Longrightarrow> db_ok (db\<lparr>db_cursors := cs\<rparr>)"
  "db_ok db \<Longrightarrow> keyed hs \<Longrightarrow> db_ok (db\<lparr>db_ledger_hashes := hs\<rparr>)"
  "db_ok db \<Longrightarrow> keyed ss \<Longrightarrow> db_ok (db\<lparr>db_network_ledger_hashes := ss\<rparr>)"
  by (simp_all add: db_ok_def)

lemma db_ok_keyed [simp]:
  "db_ok db \<Longrightarrow> keyed (db_network_ingest_state db)" "db_ok db \<Longrightarrow> keyed (db_cursors db)"
  "db_ok db \<Longrightarrow> keyed (db_ledger_hashes db)" "db_ok db \<Longrightarrow> keyed (db_network_ledger_hashes db)"
  by (simp_all add: db_ok_def)

lemma db_ok_upsert [simp]: "db_ok db \<Longrightarrow> db_ok (upsert_hash network h db)"
  by (simp add: upsert_hash_def)

lemma db_ok_fold_upsert [simp]: "db_ok db \<Longrightarrow> db_ok (fold (upsert_hash network) hs db)"
  by (induction hs arbitrary: db) simp_all

text \<open>The statements keep the keys unique, whether they succeed or fail.\<close>

lemma db_ok_sql: "db_ok db \<Longrightarrow> (\<And>d. db_ok d \<Longrightarrow> db_ok (fst (stmt d))) \<Longrightarrow> db_ok (fst (sql stmt db))"
  by (simp add: fst_sql)

lemma db_ok_sbind:
  "db_ok (fst (m db)) \<Longrightarrow> (\<And>a d. db_ok d \<Longrightarrow> db_ok (fst (f a d))) \<Longrightarrow> db_ok (fst (sbind m f db))"
  by (auto simp: sbind_def split: prod.splits sum.splits)

lemma db_ok_GetIngestState [inv_intros]: "db_ok db \<Longrightarrow> db_ok (fst (GetIngestState network db))"
  unfolding GetIngestState_def Let_def
  by (auto intro!: db_ok_sbind db_ok_sql simp: sreturn_def sfail_def seed_from_legacy_def insert_network_row_def
        keyed_def [of "[r]" for r] split: option.splits)

lemma db_ok_SetIngestState [inv_intros]: "db_ok db \<Longrightarrow> db_ok (fst (SetIngestState network st db))"
  by (simp add: SetIngestState_def db_ok_sql)

lemma db_ok_ListContractCursors [inv_intros]: "db_ok db \<Longrightarrow> db_ok (fst (ListContractCursors network db))"
  by (simp add: ListContractCursors_def db_ok_sql)

lemma db_ok_InitializeContractCursor [inv_intros]:
  "db_ok db \<Longrightarrow> db_ok (fst (InitializeContractCursor network c l db))"
  unfolding InitializeContractCursor_def by (rule db_ok_sql) (auto simp: cursorOf_def)

lemma db_ok_AdvanceContractCursor [inv_intros]:
  "db_ok db \<Longrightarrow> db_ok (fst (AdvanceContractCursor network c l db))"
  unfolding AdvanceContractCursor_def
  by (rule db_ok_sql) (auto simp: cursorOf_def split: option.splits)

lemma db_ok_RewindContractCursors [inv_intros]:
  "db_ok db \<Longrightarrow> db_ok (fst (RewindContractCursors network l db))"
  unfolding RewindContractCursors_def by (rule db_ok_sql) (auto simp: keyed_map_value split_def)

lemma db_ok_RecordLedgerHashes [inv_intros]: "db_ok db \<Longrightarrow> db_ok (fst (RecordLedgerHashes network hs db))"
  by (simp add: RecordLedgerHashes_def sreturn_def db_ok_sql)

lemma db_ok_LedgerHashes [inv_intros]: "db_ok db \<Longrightarrow> db_ok (fst (LedgerHashes network from tip db))"
  by (simp add: LedgerHashes_def db_ok_sql)

lemma db_ok_PruneLedgerHashes [inv_intros]: "db_ok db \<Longrightarrow> db_ok (fst (PruneLedgerHashes network before db))"
  by (simp add: PruneLedgerHashes_def db_ok_sql)

lemma db_ok_RetractAlertsFromLedger [inv_intros]:
  "db_ok db \<Longrightarrow> db_ok (fst (RetractAlertsFromLedger network l at_t db))"
  by (simp add: RetractAlertsFromLedger_def db_ok_sql)

lemma db_ok_RecordRetentionGap [inv_intros]: "db_ok db \<Longrightarrow> db_ok (fst (RecordRetentionGap network a b at_t db))"
  by (simp add: RecordRetentionGap_def db_ok_sql)

subsection \<open>The window as a map\<close>

definition windowOf :: "string \<Rightarrow> 'x IngestDB_scheme \<Rightarrow> uint32 \<Rightarrow> string option" where
  "windowOf network db = map_of (window_rows network db)"

text \<open>The map a reader builds from rows: a later row replaces an earlier one.\<close>

definition hash_map :: "LedgerHash list \<Rightarrow> uint32 \<Rightarrow> string option" where
  "hash_map hs = foldl (\<lambda>m h. m(lh_Ledger h \<mapsto> lh_Hash h)) Map.empty hs"

lemma map_of_scoped:
  "map_of (map (\<lambda>((n, l), h). (l, h)) (filter (\<lambda>((n, l), h). n = network) rows)) l = map_of rows (network, l)"
  by (induction rows) auto

lemma windowOf_alt:
  "windowOf network db l =
     (if network = '''' then map_of (db_ledger_hashes db) l else map_of (db_network_ledger_hashes db) (network, l))"
  by (simp add: windowOf_def window_rows_def map_of_scoped)

lemma windowOf_faults [simp]: "windowOf network (db\<lparr>db_faults := fs\<rparr>) = windowOf network db"
  by (rule ext) (simp add: windowOf_alt)

lemma windowOf_upsert:
  "windowOf network (upsert_hash n h db) =
     (if n = network then (windowOf network db)(lh_Ledger h \<mapsto> lh_Hash h) else windowOf network db)"
  by (rule ext) (auto simp: windowOf_alt upsert_hash_def AList.update_conv')

lemma windowOf_fold_upsert:
  "windowOf network (fold (upsert_hash n) hs db) =
     (if n = network then foldl (\<lambda>m h. m(lh_Ledger h \<mapsto> lh_Hash h)) (windowOf network db) hs else windowOf network db)"
  by (induction hs arbitrary: db) (simp_all add: windowOf_upsert)

lemma map_of_range:
  "map_of (filter (\<lambda>(l, h). a \<le> l \<and> l \<le> b) rows) l = (if a \<le> l \<and> l \<le> b then map_of rows l else None)"
  by (induction rows) auto

lemma map_of_pruned: "map_of (filter (\<lambda>(l, h). \<not> l < b) rows) l = (if l < b then None else map_of rows l)"
  by (induction rows) auto

lemma map_of_pruned_scoped:
  "map_of (filter (\<lambda>((n, l), h). n = network \<longrightarrow> \<not> l < b) rows) (m, l) =
     (if m = network \<and> l < b then None else map_of rows (m, l))"
  by (induction rows) auto

lemma hash_map_rows: "hash_map (map (\<lambda>(l, h). \<lparr>lh_Ledger = l, lh_Hash = h\<rparr>) rows) = map_of (rev rows)"
proof (induction rows rule: rev_induct)
  case (snoc r rows)
  then show ?case by (cases r) (simp add: hash_map_def)
qed (simp add: hash_map_def)

lemma map_of_same_rows: "keyed xs \<Longrightarrow> distinct (map fst ys) \<Longrightarrow> set xs = set ys \<Longrightarrow> map_of xs = map_of ys"
  by (simp add: keyed_def map_of_inject_set)

lemma keyed_window_rows: "db_ok db \<Longrightarrow> keyed (window_rows network db)"
proof -
  assume "db_ok db"
  then have "keyed (filter (\<lambda>((n, l), h). n = network) (db_network_ledger_hashes db))" by simp
  then have "keyed (map (\<lambda>((n, l), h). (l, h)) (filter (\<lambda>((n, l), h). n = network) (db_network_ledger_hashes db)))"
    unfolding keyed_def by (auto simp: distinct_map inj_on_def)
  with \<open>db_ok db\<close> show ?thesis by (simp add: window_rows_def)
qed

lemma hash_map_query:
  assumes "db_ok db"
  shows "hash_map (map (\<lambda>(l, h). \<lparr>lh_Ledger = l, lh_Hash = h\<rparr>)
           (sort_key fst (filter (\<lambda>(l, h). a \<le> l \<and> l \<le> b) (window_rows network db)))) l =
         (if a \<le> l \<and> l \<le> b then windowOf network db l else None)"
proof -
  let ?rows = "filter (\<lambda>(l, h). a \<le> l \<and> l \<le> b) (window_rows network db)"
  have k: "keyed ?rows" using assms by (simp add: keyed_window_rows)
  have "mset (map fst (sort_key fst ?rows)) = mset (map fst ?rows)" by simp
  then have "distinct (map fst (sort_key fst ?rows))"
    using k mset_eq_imp_distinct_iff unfolding keyed_def by blast
  then have "distinct (map fst (rev (sort_key fst ?rows)))" unfolding rev_map [symmetric] by simp
  then have e: "map_of ?rows = map_of (rev (sort_key fst ?rows))"
    by (rule map_of_same_rows [OF k]) (simp only: set_rev set_sort)
  show ?thesis
    unfolding hash_map_rows e [symmetric] by (simp only: map_of_range windowOf_def)
qed

subsection \<open>The contract of a ledger-hash window\<close>

text \<open>
  What the reorg check relies on of \<open>store.Ledgers\<close>: a read returns the window between its bounds, a record
  overwrites the ledgers it names, a prune forgets the ledgers before its bound, and a failing call
  leaves the window alone.
\<close>

locale hash_window =
  fixes ok :: "'s \<Rightarrow> bool"
    and win :: "'s \<Rightarrow> uint32 \<Rightarrow> string option"
    and rd :: "uint32 \<Rightarrow> uint32 \<Rightarrow> ('s, LedgerHash list) fallible"
    and put :: "LedgerHash list \<Rightarrow> ('s, unit) fallible"
    and prune :: "uint32 \<Rightarrow> ('s, unit) fallible"
  assumes rd_ok: "ok s \<Longrightarrow> ok (fst (rd a b s))"
    and rd_win: "win (fst (rd a b s)) = win s"
    and rd_rows: "ok s \<Longrightarrow> rd a b s = (s', Inr hs) \<Longrightarrow> hash_map hs l = (if a \<le> l \<and> l \<le> b then win s l else None)"
    and put_ok: "ok s \<Longrightarrow> ok (fst (put hs s))"
    and put_win: "put hs s = (s', Inr u) \<Longrightarrow> win s' = foldl (\<lambda>m h. m(lh_Ledger h \<mapsto> lh_Hash h)) (win s) hs"
    and put_failed: "put hs s = (s', Inl e) \<Longrightarrow> win s' = win s"
    and prune_ok: "ok s \<Longrightarrow> ok (fst (prune b s))"
    and prune_win: "prune b s = (s', Inr u) \<Longrightarrow> win s' l = (if l < b then None else win s l)"
    and prune_failed: "prune b s = (s', Inl e) \<Longrightarrow> win s' = win s"
begin

lemma foldl_recorded:
  assumes "distinct (map lh_Ledger hs)" and "h \<in> set hs"
  shows "foldl (\<lambda>m h. m(lh_Ledger h \<mapsto> lh_Hash h)) m hs (lh_Ledger h) = Some (lh_Hash h)"
  using assms
proof (induction hs arbitrary: m rule: rev_induct)
  case (snoc g hs)
  then show ?case by (cases "h = g") (auto simp: image_iff)
qed simp

lemma put_then_win:
  "put hs s = (s', Inr u) \<Longrightarrow> distinct (map lh_Ledger hs) \<Longrightarrow> h \<in> set hs \<Longrightarrow> win s' (lh_Ledger h) = Some (lh_Hash h)"
  by (simp add: put_win foldl_recorded)

lemma foldl_other: "l \<notin> lh_Ledger ` set hs \<Longrightarrow> foldl (\<lambda>m h. m(lh_Ledger h \<mapsto> lh_Hash h)) m hs l = m l"
  by (induction hs arbitrary: m) auto

lemma put_keeps_others: "put hs s = (s', Inr u) \<Longrightarrow> l \<notin> lh_Ledger ` set hs \<Longrightarrow> win s' l = win s l"
  by (simp add: put_win foldl_other)

text \<open>A ledger recorded at or after the prune bound is read back with the hash it was recorded with.\<close>

lemma reread:
  assumes "put hs s = (s1, Inr u)" and "ok s2" and "win s2 = win s1 \<or> (\<exists>b. (\<forall>l. win s2 l = (if l < b then None else win s1 l)) \<and> \<not> lh_Ledger h < b)"
    and "rd a b s2 = (s3, Inr stored)" and "distinct (map lh_Ledger hs)" and "h \<in> set hs"
    and "a \<le> lh_Ledger h" and "lh_Ledger h \<le> b"
  shows "hash_map stored (lh_Ledger h) = Some (lh_Hash h)"
proof -
  have "win s2 (lh_Ledger h) = Some (lh_Hash h)"
    using assms(3) put_then_win [OF assms(1,5,6)] by auto
  then show ?thesis using rd_rows [OF assms(2,4)] assms(7,8) by simp
qed

end

interpretation pg_window: hash_window db_ok "windowOf network" "LedgerHashes network"
  "RecordLedgerHashes network" "PruneLedgerHashes network"
proof (unfold_locales, goal_cases)
  case (2 a b s)
  then show ?case by (simp add: LedgerHashes_def fst_sql)
next
  case (3 s a b s' hs l)
  then show ?case
    using hash_map_query [of "s\<lparr>db_faults := tl (db_faults s)\<rparr>"] by (auto simp: LedgerHashes_def sql_Inr)
next
  case (5 hs s s' u)
  then show ?case
    by (auto simp: RecordLedgerHashes_def sreturn_def sql_Inr windowOf_fold_upsert split: if_splits)
next
  case (6 hs s s' e)
  then show ?case by (auto simp: RecordLedgerHashes_def sreturn_def sql_Inl split: if_splits)
next
  case (8 b s s' u l)
  then show ?case
    by (auto simp: PruneLedgerHashes_def sql_Inr windowOf_alt map_of_pruned map_of_pruned_scoped split: if_splits)
next
  case (9 b s s' e)
  then show ?case by (auto simp: PruneLedgerHashes_def sql_Inl split: if_splits)
qed (simp_all add: inv_intros)

text \<open>The statements on one network leave the window of the others alone.\<close>

lemma other_windows:
  assumes "m \<noteq> network"
  shows "windowOf m (fst (RecordLedgerHashes network hs db)) = windowOf m db"
    and "windowOf m (fst (PruneLedgerHashes network b db)) = windowOf m db"
    and "windowOf m (fst (LedgerHashes network a b db)) = windowOf m db"
    and "windowOf m (fst (RetractAlertsFromLedger network l at_t db)) = windowOf m db"
proof -
  show "windowOf m (fst (RecordLedgerHashes network hs db)) = windowOf m db"
    using assms by (auto simp: RecordLedgerHashes_def sreturn_def fst_sql windowOf_fold_upsert)
  show "windowOf m (fst (PruneLedgerHashes network b db)) = windowOf m db"
    using assms by (auto simp: PruneLedgerHashes_def fst_sql windowOf_alt fun_eq_iff map_of_pruned_scoped)
  show "windowOf m (fst (LedgerHashes network a b db)) = windowOf m db"
    by (simp add: LedgerHashes_def fst_sql)
  show "windowOf m (fst (RetractAlertsFromLedger network l at_t db)) = windowOf m db"
    by (auto simp: RetractAlertsFromLedger_def fst_sql windowOf_alt fun_eq_iff)
qed

subsection \<open>Cursors and checkpoints after a statement\<close>

lemma cursorOf_faults [simp]: "cursorOf network c (db\<lparr>db_faults := fs\<rparr>) = cursorOf network c db"
  by (simp add: cursorOf_def)

lemma cursorOf_advance:
  assumes "AdvanceContractCursor network c l db = (db', Inr u)"
  shows "cursorOf n d db' =
           (if (n, d) = (network, c) \<and> (network, c) \<in> set (db_monitored db)
            then Some (case cursorOf network c db of None \<Rightarrow> l | Some old \<Rightarrow> max old l) else cursorOf n d db)"
  using assms
  by (auto simp: AdvanceContractCursor_def sql_Inr cursorOf_def map_add_def map_of_append AList.update_conv' max_def
        split: if_splits option.splits)

lemma map_of_rewind:
  "map_of (map (\<lambda>((n, c), l). ((n, c), if n = network \<and> b < l then b else l)) rows) (m, d) =
     map_option (\<lambda>l. if m = network \<and> b < l then b else l) (map_of rows (m, d))"
  by (induction rows) auto

lemma cursorOf_rewind:
  assumes "RewindContractCursors network b db = (db', Inr u)"
  shows "cursorOf n d db' = map_option (\<lambda>l. if n = network then min b l else l) (cursorOf n d db)"
  using assms
  by (cases "map_of (db_cursors db) (n, d)")
     (auto simp: RewindContractCursors_def sql_Inr cursorOf_def map_of_rewind min_def)

lemma checkpointOf_set:
  assumes "SetIngestState network st db = (db', Inr u)" and "checkpointOf network db \<noteq> None \<or> network \<noteq> ''''"
  shows "checkpointOf network db' = Some st"
  using assms by (auto simp: SetIngestState_def sql_Inr checkpointOf_def AList.update_conv' split: if_splits)

lemma cursor_statements_frame:
  "db_monitored (fst (AdvanceContractCursor network c l db)) = db_monitored db"
  "db_monitored (fst (RewindContractCursors network b db)) = db_monitored db"
  "db_monitored (fst (SetIngestState network st db)) = db_monitored db"
  "db_cursors (fst (SetIngestState network st db)) = db_cursors db"
  by (auto simp: AdvanceContractCursor_def RewindContractCursors_def SetIngestState_def fst_sql split: option.splits)

end
