(* ===== verification/Alert_Store.thy ===== *)
theory Alert_Store
  imports Ingest_Store Notify_Types
begin

text \<open>
  \<open>CreateAlert\<close> of \<open>internal/store/postgres.go\<close>: one transaction that applies the rule's cooldown, reserves the
  de-duplication key and writes the alert. A transaction draws its statements from the same stream of faults as
  \<open>Ingest_Store\<close>; begin and commit are statements too, and a transaction that does not commit leaves the tables
  as they were. Postgres keeps times in microseconds, so clock readings and cooldowns are taken to be whole
  microseconds. A JSON payload is the value it decodes to.
\<close>

datatype AlertOutcome = AlertCreated | AlertDuplicate | AlertSuppressed

datatype dedup_key = RuleEvent int string | Federated string string

record rule_row =
  rr_severity :: string
  rr_version :: int
  rr_runbook_url :: string
  rr_response_guidance :: string
  rr_monitor_id :: int
  rr_last_alert_at :: "gtime option"
  rr_suppressed_since_last :: int

record monitor_row =
  mr_workspace_id :: string
  mr_network :: string
  mr_runbook_url :: string
  mr_response_guidance :: string
  mr_last_matched_at :: "gtime option"

record PollDB = IngestDB +
  pd_rules :: "int \<Rightarrow> rule_row option"
  pd_monitors :: "int \<Rightarrow> monitor_row option"
  pd_workspaces :: "string \<Rightarrow> (string \<times> string) option"
  pd_dedup :: "(dedup_key \<times> int option) list"
  pd_nextID :: int
  pd_absence :: "((int \<times> string) \<times> gtime) list"

text \<open>The in-memory \<open>store.Alert\<close>: the row, and what is not stored with it.\<close>

record StoreAlert = AlertRow +
  sa_LedgerClosedAt :: gtime
  sa_Cooldown :: duration
  sa_SuppressedSinceLast :: int
  sa_Federated :: bool
  sa_FederationOrigin :: string

definition transaction :: "('x IngestDB_scheme, bool \<times> 'a) fallible \<Rightarrow> ('x IngestDB_scheme, 'a) fallible" where
  "transaction body db =
     (case sql (\<lambda>d. (d, ())) db of
        (db0, Inl e) \<Rightarrow> (db0, Inl e)
      | (db0, Inr _) \<Rightarrow>
          (case body db0 of
             (db1, Inl e) \<Rightarrow> (db0\<lparr>db_faults := db_faults db1\<rparr>, Inl e)
           | (db1, Inr (commit, a)) \<Rightarrow>
               if \<not> commit then (db0\<lparr>db_faults := db_faults db1\<rparr>, Inr a)
               else (case sql (\<lambda>d. (d, ())) db1 of
                       (db2, Inl e) \<Rightarrow> (db0\<lparr>db_faults := db_faults db2\<rparr>, Inl e)
                     | (db2, Inr _) \<Rightarrow> (db2, Inr a))))"

subsection \<open>Payloads and guidance\<close>

text \<open>
  \<open>json.Unmarshal\<close> into \<open>map[string]any\<close> reads every number as a \<open>float64\<close>: an integer is rounded to 53
  significant bits, to even on a tie. The integers of an event have at most 256 bits, so none overflows.
\<close>

fun bit_length :: "nat \<Rightarrow> nat" where
  "bit_length n = (if n = 0 then 0 else Suc (bit_length (n div 2)))"

declare bit_length.simps [simp del]

definition round_bits :: "nat \<Rightarrow> nat" where
  "round_bits a =
     (let k = bit_length a - 53; q = a div 2 ^ k; r = a mod 2 ^ k in
      (if 2 ^ k < 2 * r \<or> (2 * r = 2 ^ k \<and> odd q) then q + 1 else q) * 2 ^ k)"

definition float64_of :: "int \<Rightarrow> int" where
  "float64_of n = sgn n * int (round_bits (nat \<bar>n\<bar>))"

fun unmarshal_any :: "gvalue \<Rightarrow> gvalue" where
  "unmarshal_any (GInt n) = GInt (float64_of n)"
| "unmarshal_any (GList vs) = GList (map unmarshal_any vs)"
| "unmarshal_any (GMap m) = GMap (map (\<lambda>(k, v). (k, unmarshal_any v)) m)"
| "unmarshal_any v = v"

definition decoded_fields :: "(string \<times> gvalue) list \<Rightarrow> (string \<times> gvalue) list" where
  "decoded_fields m = map (\<lambda>(k, v). (k, unmarshal_any v)) m"

definition WithSuppressed :: "gvalue \<Rightarrow> int \<Rightarrow> gvalue" where
  "WithSuppressed payload n =
     (if n \<le> 0 then payload
      else case payload of
             GMap m \<Rightarrow> GMap (AList.update ''suppressed_since_last'' (GInt n) (decoded_fields m))
           | _ \<Rightarrow> payload)"

text \<open>A guidance field is added when it is not empty and the payload does not carry a non-empty string there.\<close>

definition lacks_field :: "string \<Rightarrow> string \<Rightarrow> (string \<times> gvalue) list \<Rightarrow> bool" where
  "lacks_field k v m = (v \<noteq> '''' \<and> (case map_of m k of Some (GStr s) \<Rightarrow> s = '''' | _ \<Rightarrow> True))"

definition fill_field :: "string \<Rightarrow> string \<Rightarrow> (string \<times> gvalue) list \<Rightarrow> (string \<times> gvalue) list" where
  "fill_field k v m = (if lacks_field k v m then AList.update k (GStr v) m else m)"

definition WithGuidance :: "gvalue \<Rightarrow> string \<Rightarrow> string \<Rightarrow> gvalue" where
  "WithGuidance payload runbookURL responseGuidance =
     (if runbookURL = '''' \<and> responseGuidance = '''' then payload
      else case payload of
             GMap m \<Rightarrow>
               (let obj = decoded_fields m in
                if lacks_field ''runbook_url'' runbookURL obj \<or> lacks_field ''response_guidance'' responseGuidance obj
                then GMap (fill_field ''response_guidance'' responseGuidance (fill_field ''runbook_url'' runbookURL obj))
                else payload)
           | _ \<Rightarrow> payload)"

definition coalesce :: "string list \<Rightarrow> string" where
  "coalesce xs = (case filter (\<lambda>x. x \<noteq> '''') xs of [] \<Rightarrow> '''' | x # _ \<Rightarrow> x)"

subsection \<open>The transaction\<close>

definition rule_text :: "(rule_row \<Rightarrow> string) \<Rightarrow> int \<Rightarrow> 'x PollDB_scheme \<Rightarrow> string" where
  "rule_text f i db = (case pd_rules db i of None \<Rightarrow> '''' | Some r \<Rightarrow> f r)"

definition monitor_text :: "(monitor_row \<Rightarrow> string) \<Rightarrow> int \<Rightarrow> 'x PollDB_scheme \<Rightarrow> string" where
  "monitor_text f i db = (case pd_monitors db i of None \<Rightarrow> '''' | Some r \<Rightarrow> f r)"

definition workspace_text :: "((string \<times> string) \<Rightarrow> string) \<Rightarrow> string \<Rightarrow> int \<Rightarrow> 'x PollDB_scheme \<Rightarrow> string" where
  "workspace_text f ws monitorID db =
     (case pd_workspaces db (case pd_monitors db monitorID of None \<Rightarrow> ws | Some m \<Rightarrow> mr_workspace_id m) of
        None \<Rightarrow> '''' | Some d \<Rightarrow> f d)"

definition in_cooldown :: "gtime \<Rightarrow> duration \<Rightarrow> rule_row \<Rightarrow> bool" where
  "in_cooldown now cooldown r = (case rr_last_alert_at r of None \<Rightarrow> False | Some t \<Rightarrow> now < t + cooldown)"

definition count_suppressed :: "int \<Rightarrow> 'x PollDB_scheme \<Rightarrow> 'x PollDB_scheme \<times> unit" where
  "count_suppressed i db =
     (db\<lparr>pd_rules := (pd_rules db)(i :=
        map_option (\<lambda>r. r\<lparr>rr_suppressed_since_last := rr_suppressed_since_last r + 1\<rparr>) (pd_rules db i))\<rparr>, ())"

text \<open>The cooldown gate: an outcome that ends the transaction (and whether it commits), or the alert to write.\<close>

definition cooldown_gate ::
  "gtime \<Rightarrow> StoreAlert \<Rightarrow> ('x PollDB_scheme, (bool \<times> AlertOutcome) + StoreAlert) fallible" where
  "cooldown_gate now a =
     (if sa_Cooldown a \<le> 0 then sreturn (Inr a)
      else sbind (sql (\<lambda>db. (db, pd_rules db (ar_RuleID a)))) (\<lambda>row.
           case row of None \<Rightarrow> sfail not_found | Some r \<Rightarrow>
           sbind (sql (\<lambda>db. (db, map_of (pd_dedup db) (RuleEvent (ar_RuleID a) (ar_EventID a)) \<noteq> None))) (\<lambda>duplicate.
           if duplicate then sreturn (Inl (False, AlertDuplicate))
           else if in_cooldown now (sa_Cooldown a) r
           then sbind (sql (count_suppressed (ar_RuleID a))) (\<lambda>_. sreturn (Inl (True, AlertSuppressed)))
           else sreturn (Inr (a\<lparr>sa_SuppressedSinceLast := rr_suppressed_since_last r,
                                ar_Payload := WithSuppressed (ar_Payload a) (rr_suppressed_since_last r)\<rparr>)))))"

definition reserve_key :: "dedup_key \<Rightarrow> 'x PollDB_scheme \<Rightarrow> 'x PollDB_scheme \<times> bool" where
  "reserve_key k db =
     (if map_of (pd_dedup db) k \<noteq> None then (db, False) else (db\<lparr>pd_dedup := pd_dedup db @ [(k, None)]\<rparr>, True))"

definition resolve_guidance :: "string \<Rightarrow> StoreAlert \<Rightarrow> 'x PollDB_scheme \<Rightarrow> StoreAlert" where
  "resolve_guidance ws a db =
     (let url = coalesce [ar_RunbookURL a, rule_text rr_runbook_url (ar_RuleID a) db,
                          monitor_text mr_runbook_url (ar_MonitorID a) db, workspace_text fst ws (ar_MonitorID a) db];
          note = coalesce [ar_ResponseGuidance a, rule_text rr_response_guidance (ar_RuleID a) db,
                           monitor_text mr_response_guidance (ar_MonitorID a) db, workspace_text snd ws (ar_MonitorID a) db]
      in a\<lparr>ar_RunbookURL := url, ar_ResponseGuidance := note, ar_Payload := WithGuidance (ar_Payload a) url note\<rparr>)"

text \<open>The insert: network and workspace come from the monitor's row, severity and version default to the rule's.\<close>

definition insert_alert :: "gtime \<Rightarrow> StoreAlert \<Rightarrow> 'x PollDB_scheme \<Rightarrow> 'x PollDB_scheme \<times> StoreAlert option" where
  "insert_alert now a db =
     (case pd_monitors db (ar_MonitorID a) of
        None \<Rightarrow> (db, None)
      | Some m \<Rightarrow>
          (let a' = a\<lparr>ar_ID := pd_nextID db, ar_CreatedAt := now, ar_Network := mr_network m,
                      ar_WorkspaceID := mr_workspace_id m, ar_RetractedAt := None,
                      ar_Severity := coalesce [ar_Severity a, rule_text rr_severity (ar_RuleID a) db, SeverityWarning],
                      ar_RuleVersion := (if ar_RuleVersion a \<noteq> 0 then ar_RuleVersion a
                                         else case pd_rules db (ar_RuleID a) of None \<Rightarrow> 1 | Some r \<Rightarrow> rr_version r)\<rparr>
           in (db\<lparr>db_alerts := db_alerts db @ [AlertRow.truncate a'], pd_nextID := pd_nextID db + 1\<rparr>, Some a')))"

definition link_rows :: "dedup_key \<Rightarrow> int \<Rightarrow> (dedup_key \<times> int option) list \<Rightarrow> (dedup_key \<times> int option) list" where
  "link_rows k i rows = map (\<lambda>(k', v). (k', if k' = k then Some i else v)) rows"

definition link_key :: "dedup_key \<Rightarrow> int \<Rightarrow> 'x PollDB_scheme \<Rightarrow> 'x PollDB_scheme \<times> unit" where
  "link_key k i db = (db\<lparr>pd_dedup := link_rows k i (pd_dedup db)\<rparr>, ())"

definition close_window :: "gtime \<Rightarrow> int \<Rightarrow> 'x PollDB_scheme \<Rightarrow> 'x PollDB_scheme \<times> unit" where
  "close_window now i db =
     (db\<lparr>pd_rules := (pd_rules db)(i :=
        map_option (\<lambda>r. r\<lparr>rr_last_alert_at := Some now, rr_suppressed_since_last := 0\<rparr>) (pd_rules db i))\<rparr>, ())"

definition stamp_match :: "gtime \<Rightarrow> int \<Rightarrow> 'x PollDB_scheme \<Rightarrow> 'x PollDB_scheme \<times> unit" where
  "stamp_match t i db =
     (db\<lparr>pd_monitors := (pd_monitors db)(i := map_option (\<lambda>m.
        if (case mr_last_matched_at m of None \<Rightarrow> True | Some t' \<Rightarrow> t' < t) then m\<lparr>mr_last_matched_at := Some t\<rparr> else m)
        (pd_monitors db i))\<rparr>, ())"

definition foreign_key :: string where "foreign_key = ''not found: constraint violation''"

definition write_alert :: "gtime \<Rightarrow> string \<Rightarrow> StoreAlert \<Rightarrow> ('x PollDB_scheme, bool \<times> AlertOutcome \<times> StoreAlert) fallible" where
  "write_alert now ws a =
     (let k = RuleEvent (ar_RuleID a) (ar_EventID a) in
      sbind (sql (\<lambda>db. if pd_rules db (ar_RuleID a) = None then (db, None)
                       else (case reserve_key k db of (db', b) \<Rightarrow> (db', Some b)))) (\<lambda>reserved.
      case reserved of None \<Rightarrow> sfail foreign_key
      | Some False \<Rightarrow> sreturn (False, AlertDuplicate, a)
      | Some True \<Rightarrow>
      sbind (sql (\<lambda>db. (db, resolve_guidance ws a db))) (\<lambda>a1.
      sbind (sql (insert_alert now a1)) (\<lambda>inserted.
      case inserted of None \<Rightarrow> sfail foreign_key | Some a2 \<Rightarrow>
      sbind (sql (link_key k (ar_ID a2))) (\<lambda>_.
      sbind (if 0 < sa_Cooldown a2 then sql (close_window now (ar_RuleID a2)) else sreturn ()) (\<lambda>_.
      sbind (if sa_LedgerClosedAt a2 \<noteq> 0 then sql (stamp_match (sa_LedgerClosedAt a2) (ar_MonitorID a2)) else sreturn ()) (\<lambda>_.
      sreturn (True, AlertCreated, a2))))))))"

text \<open>
  \<open>scope\<close> is the answer of \<open>tenantWorkspace\<close>: \<open>None\<close> in the system context the poller runs in. \<open>ws\<close> is
  \<open>workspaceID\<close>. Besides the outcome the call leaves the alert it was given in its final form.
\<close>

definition tenant_check :: "string option \<Rightarrow> StoreAlert \<Rightarrow> ('x PollDB_scheme, unit) fallible" where
  "tenant_check scope a =
     (case scope of
        None \<Rightarrow> sreturn ()
      | Some ws \<Rightarrow>
          sbind (sql (\<lambda>db. (db, case pd_rules db (ar_RuleID a) of
                                  None \<Rightarrow> False
                                | Some r \<Rightarrow> rr_monitor_id r = ar_MonitorID a \<and>
                                    (case pd_monitors db (ar_MonitorID a) of None \<Rightarrow> False | Some m \<Rightarrow> mr_workspace_id m = ws))))
            (\<lambda>ok. if ok then sreturn () else sfail not_found))"

text \<open>An alert another instance forwarded: keyed by its origin, and with no local rule or monitor.\<close>

definition NormalizedSeverity :: "string \<Rightarrow> string" where
  "NormalizedSeverity s = (if s = '''' then SeverityWarning else s)"

definition payload_text :: "string \<Rightarrow> gvalue \<Rightarrow> string" where
  "payload_text k payload = (case payload of GMap m \<Rightarrow> (case map_of m k of Some (GStr s) \<Rightarrow> s | _ \<Rightarrow> '''') | _ \<Rightarrow> '''')"

definition federated_guidance :: "string \<Rightarrow> StoreAlert \<Rightarrow> 'x PollDB_scheme \<Rightarrow> StoreAlert" where
  "federated_guidance ws a db =
     (let defaults = (case pd_workspaces db ws of None \<Rightarrow> ('''', '''') | Some d \<Rightarrow> d);
          url = coalesce [ar_RunbookURL a, payload_text ''runbook_url'' (ar_Payload a), fst defaults];
          note = coalesce [ar_ResponseGuidance a, payload_text ''response_guidance'' (ar_Payload a), snd defaults]
      in a\<lparr>ar_RunbookURL := url, ar_ResponseGuidance := note, ar_Payload := WithGuidance (ar_Payload a) url note\<rparr>)"

definition insert_federated :: "gtime \<Rightarrow> string \<Rightarrow> StoreAlert \<Rightarrow> 'x PollDB_scheme \<Rightarrow> 'x PollDB_scheme \<times> StoreAlert" where
  "insert_federated now ws a db =
     (let a' = a\<lparr>ar_ID := pd_nextID db, ar_CreatedAt := now, ar_Severity := NormalizedSeverity (ar_Severity a),
                 ar_RuleVersion := (if ar_RuleVersion a \<noteq> 0 then ar_RuleVersion a else 1)\<rparr>;
          row = (AlertRow.truncate a')\<lparr>ar_MonitorID := 0, ar_RuleID := 0, ar_Network := '''', ar_WorkspaceID := ws,
                  ar_RetractedAt := None, ar_Backfilled := False\<rparr>
      in (db\<lparr>db_alerts := db_alerts db @ [row], pd_nextID := pd_nextID db + 1\<rparr>, a'))"

definition createFederatedAlert :: "gtime \<Rightarrow> string \<Rightarrow> StoreAlert \<Rightarrow> ('x PollDB_scheme, bool \<times> AlertOutcome \<times> StoreAlert) fallible" where
  "createFederatedAlert now ws a =
     (let k = Federated (sa_FederationOrigin a) (ar_EventID a) in
      sbind (sql (reserve_key k)) (\<lambda>reserved.
      if \<not> reserved then sreturn (False, AlertDuplicate, a)
      else sbind (sql (\<lambda>db. (db, federated_guidance ws a db))) (\<lambda>a1.
           sbind (sql (insert_federated now ws a1)) (\<lambda>a2.
           sbind (sql (link_key k (ar_ID a2))) (\<lambda>_.
           sreturn (True, AlertCreated, a2))))))"

definition createAlert ::
  "gtime \<Rightarrow> string \<Rightarrow> string option \<Rightarrow> StoreAlert \<Rightarrow> ('x PollDB_scheme, AlertOutcome \<times> StoreAlert) fallible" where
  "createAlert now ws scope a =
     transaction
       (if sa_Federated a then createFederatedAlert now ws a
        else sbind (tenant_check scope a) (\<lambda>_.
             sbind (cooldown_gate now a) (\<lambda>g.
             case g of Inl (commit, outcome) \<Rightarrow> sreturn (commit, outcome, a) | Inr a1 \<Rightarrow> write_alert now ws a1)))"

text \<open>Two states that differ in the faults still to come only.\<close>

definition upto_faults :: "'x IngestDB_scheme \<Rightarrow> 'x IngestDB_scheme \<Rightarrow> bool" where
  "upto_faults db db' \<longleftrightarrow> (\<exists>f. db' = db\<lparr>db_faults := f\<rparr>)"

lemma upto_faults_refl [simp]: "upto_faults db db"
  unfolding upto_faults_def by (rule exI[of _ "db_faults db"]) simp

lemma upto_faults_trans: "upto_faults a b \<Longrightarrow> upto_faults b c \<Longrightarrow> upto_faults a c"
  by (auto simp: upto_faults_def)

lemma upto_faults_set [simp]: "upto_faults db (db\<lparr>db_faults := f\<rparr>)"
  by (auto simp: upto_faults_def)

lemma sql_read: "sql (\<lambda>d. (d, g d)) db = (db', Inr v) \<Longrightarrow> upto_faults db db' \<and> v = g db'"
  by (auto simp: sql_Inr)

lemma transaction_cases:
  assumes "transaction body db = (db', r)"
  obtains (failed) e where "r = Inl e" "upto_faults db db'"
  | (rolled_back) db0 db1 a where "r = Inr a" "upto_faults db db0" "body db0 = (db1, Inr (False, a))" "upto_faults db db'"
  | (committed) db0 db1 a where "r = Inr a" "upto_faults db db0" "body db0 = (db1, Inr (True, a))" "upto_faults db1 db'"
proof -
  obtain db0 r0 where b: "sql (\<lambda>d. (d, ())) db = (db0, r0)" by fastforce
  have u: "upto_faults db db0" using b by (cases r0) (auto simp: sql_Inl sql_Inr)
  obtain db1 r1 where body: "body db0 = (db1, r1)" by fastforce
  obtain db2 r2 where c: "sql (\<lambda>d. (d, ())) db1 = (db2, r2)" by fastforce
  have u2: "upto_faults db1 db2" using c by (cases r2) (auto simp: sql_Inl sql_Inr)
  have u': "upto_faults db (db0\<lparr>db_faults := f\<rparr>)" for f using u upto_faults_trans upto_faults_set by blast
  show thesis
  proof (cases r0)
    case (Inl e)
    then show ?thesis using assms b u failed by (auto simp: transaction_def)
  next
    case (Inr v)
    show ?thesis
    proof (cases r1)
      case (Inl e)
      then show ?thesis using assms b Inr body u' failed by (auto simp: transaction_def)
    next
      case r1: (Inr p)
      obtain commit a where p: "p = (commit, a)" by fastforce
      show ?thesis
      proof (cases commit)
        case False
        then show ?thesis using assms b Inr body r1 p u u' rolled_back[of a db0 db1] by (auto simp: transaction_def)
      next
        case True
        then show ?thesis using assms b Inr body r1 p c u u' u2 failed committed[of a db0 db1]
          by (cases r2) (auto simp: transaction_def)
      qed
    qed
  qed
qed


text \<open>The transaction writes its own tables only.\<close>

lemma keeps_transaction [keeps_intro]:
  assumes "keeps f body" and nf: "\<And>db x. f (db\<lparr>db_faults := x\<rparr>) = f db"
  shows "keeps f (transaction body)"
  unfolding keeps_def
proof
  fix db
  obtain db' r where t: "transaction body db = (db', r)" by fastforce
  have u: "f d' = f d" if "upto_faults d d'" for d d' using that nf by (auto simp: upto_faults_def)
  from t have "f db' = f db"
    by (cases rule: transaction_cases) (use assms(1) u in \<open>auto dest: keeps_eq\<close>)
  then show "f (fst (transaction body db)) = f db" using t by simp
qed

lemma createAlert_keeps:
  assumes "\<And>db x. f (db\<lparr>db_faults := x\<rparr>) = f db" "\<And>db x. f (db\<lparr>pd_rules := x\<rparr>) = f db" "\<And>db x. f (db\<lparr>pd_dedup := x\<rparr>) = f db"
    "\<And>db x y. f (db\<lparr>db_alerts := x, pd_nextID := y\<rparr>) = f db" "\<And>db x. f (db\<lparr>pd_monitors := x\<rparr>) = f db"
  shows "keeps f (createAlert now ws scope a)"
  unfolding createAlert_def createFederatedAlert_def write_alert_def tenant_check_def cooldown_gate_def Let_def
  by (intro keeps_intro; simp add: assms reserve_key_def insert_federated_def insert_alert_def link_key_def
        count_suppressed_def close_window_def stamp_match_def Let_def split: prod.splits option.splits)

subsection \<open>The gate a rule's matches pass\<close>

record alert_gate =
  ag_keys :: "string set"
  ag_last :: "gtime option"
  ag_count :: int

definition gate_create :: "gtime \<Rightarrow> duration \<Rightarrow> string \<Rightarrow> alert_gate \<Rightarrow> AlertOutcome \<times> alert_gate" where
  "gate_create now cooldown event g =
     (if event \<in> ag_keys g then (AlertDuplicate, g)
      else if 0 < cooldown \<and> (case ag_last g of None \<Rightarrow> False | Some t \<Rightarrow> now < t + cooldown)
      then (AlertSuppressed, g\<lparr>ag_count := ag_count g + 1\<rparr>)
      else (AlertCreated, \<lparr>ag_keys = insert event (ag_keys g),
                           ag_last = (if 0 < cooldown then Some now else ag_last g),
                           ag_count = (if 0 < cooldown then 0 else ag_count g)\<rparr>))"

definition abs_gate :: "int \<Rightarrow> 'x PollDB_scheme \<Rightarrow> alert_gate" where
  "abs_gate i db =
     \<lparr>ag_keys = {e. map_of (pd_dedup db) (RuleEvent i e) \<noteq> None},
      ag_last = (case pd_rules db i of None \<Rightarrow> None | Some r \<Rightarrow> rr_last_alert_at r),
      ag_count = (case pd_rules db i of None \<Rightarrow> 0 | Some r \<Rightarrow> rr_suppressed_since_last r)\<rparr>"

lemma upto_faults_tables:
  assumes "upto_faults db db'"
  shows "pd_rules db' = pd_rules db" "pd_dedup db' = pd_dedup db" "db_alerts db' = db_alerts db"
    "pd_monitors db' = pd_monitors db" "pd_nextID db' = pd_nextID db" "abs_gate i db' = abs_gate i db"
  using assms by (auto simp: upto_faults_def abs_gate_def)

lemma map_of_link_rows: "map_of (link_rows k i xs) k2 = None \<longleftrightarrow> map_of xs k2 = None"
  unfolding link_rows_def by (induction xs) auto

lemma resolve_guidance_fields [simp]:
  "ar_RuleID (resolve_guidance ws a db) = ar_RuleID a" "ar_EventID (resolve_guidance ws a db) = ar_EventID a"
  "ar_MonitorID (resolve_guidance ws a db) = ar_MonitorID a" "sa_Cooldown (resolve_guidance ws a db) = sa_Cooldown a"
  "sa_SuppressedSinceLast (resolve_guidance ws a db) = sa_SuppressedSinceLast a" "ar_Ledger (resolve_guidance ws a db) = ar_Ledger a" "ar_Backfilled (resolve_guidance ws a db) = ar_Backfilled a"
  by (simp_all add: resolve_guidance_def Let_def)

lemma resolve_guidance_cong:
  "pd_rules db1 = pd_rules db2 \<Longrightarrow> pd_monitors db1 = pd_monitors db2 \<Longrightarrow> pd_workspaces db1 = pd_workspaces db2 \<Longrightarrow>
   resolve_guidance ws a db1 = resolve_guidance ws a db2"
  by (simp add: resolve_guidance_def rule_text_def monitor_text_def workspace_text_def)

lemma insert_alert_Some:
  assumes "insert_alert now a db = (db', Some a')"
  shows "db' = db\<lparr>db_alerts := db_alerts db @ [AlertRow.truncate a'], pd_nextID := pd_nextID db + 1\<rparr>"
    "ar_RuleID a' = ar_RuleID a" "ar_EventID a' = ar_EventID a" "ar_MonitorID a' = ar_MonitorID a" "ar_Ledger a' = ar_Ledger a" "ar_Backfilled a' = ar_Backfilled a"
    "sa_Cooldown a' = sa_Cooldown a" "sa_SuppressedSinceLast a' = sa_SuppressedSinceLast a" "ar_CreatedAt a' = now"
    "\<exists>m. pd_monitors db (ar_MonitorID a) = Some m \<and> ar_Network a' = mr_network m \<and> ar_WorkspaceID a' = mr_workspace_id m"
  using assms by (auto simp: insert_alert_def Let_def split: option.splits)

text \<open>The write: either the key was taken, or the row, its key and the closed window are all in.\<close>

lemma write_alert_cases:
  assumes "write_alert now ws a db = (db', Inr (commit, out, a'))"
  obtains (dup) "\<not> commit" "out = AlertDuplicate" "map_of (pd_dedup db) (RuleEvent (ar_RuleID a) (ar_EventID a)) \<noteq> None"
  | (wrote) "commit" "out = AlertCreated" "map_of (pd_dedup db) (RuleEvent (ar_RuleID a) (ar_EventID a)) = None"
      "pd_rules db (ar_RuleID a) \<noteq> None" "db_alerts db' = db_alerts db @ [AlertRow.truncate a']"
      "pd_rules db' = (if 0 < sa_Cooldown a then pd_rules (fst (close_window now (ar_RuleID a) db)) else pd_rules db)"
      "pd_dedup db' = link_rows (RuleEvent (ar_RuleID a) (ar_EventID a)) (ar_ID a')
                        (pd_dedup db @ [(RuleEvent (ar_RuleID a) (ar_EventID a), None)])"
      "ar_RuleID a' = ar_RuleID a" "ar_EventID a' = ar_EventID a" "ar_MonitorID a' = ar_MonitorID a"
      "sa_SuppressedSinceLast a' = sa_SuppressedSinceLast a" "ar_CreatedAt a' = now" "ar_Backfilled a' = ar_Backfilled a"
proof -
  define k where "k = RuleEvent (ar_RuleID a) (ar_EventID a)"
  obtain db1 res where s1: "sql (\<lambda>db. if pd_rules db (ar_RuleID a) = None then (db, None)
                       else (case reserve_key k db of (db', b) \<Rightarrow> (db', Some b))) db = (db1, Inr res)"
    and rest: "(case res of None \<Rightarrow> sfail foreign_key
      | Some False \<Rightarrow> sreturn (False, AlertDuplicate, a)
      | Some True \<Rightarrow>
      sbind (sql (\<lambda>db. (db, resolve_guidance ws a db))) (\<lambda>a1.
      sbind (sql (insert_alert now a1)) (\<lambda>inserted.
      case inserted of None \<Rightarrow> sfail foreign_key | Some a2 \<Rightarrow>
      sbind (sql (link_key k (ar_ID a2))) (\<lambda>_.
      sbind (if 0 < sa_Cooldown a2 then sql (close_window now (ar_RuleID a2)) else sreturn ()) (\<lambda>_.
      sbind (if sa_LedgerClosedAt a2 \<noteq> 0 then sql (stamp_match (sa_LedgerClosedAt a2) (ar_MonitorID a2)) else sreturn ()) (\<lambda>_.
      sreturn (True, AlertCreated, a2))))))) db1 = (db', Inr (commit, out, a'))"
    using assms unfolding write_alert_def Let_def k_def by (elim sbind_Inr)
  have rule: "res = None \<longleftrightarrow> pd_rules db (ar_RuleID a) = None"
    and taken: "res = Some False \<Longrightarrow> map_of (pd_dedup db) k \<noteq> None"
    and free: "res = Some True \<Longrightarrow> map_of (pd_dedup db) k = None \<and>
                 (\<exists>f. db1 = db\<lparr>db_faults := f, pd_dedup := pd_dedup db @ [(k, None)]\<rparr>)"
    using s1 by (auto simp: sql_Inr reserve_key_def split: if_splits prod.splits)
  show thesis
  proof (cases res)
    case None
    then show ?thesis using rest by (simp add: sfail_def)
  next
    case (Some b)
    show ?thesis
    proof (cases b)
      case False
      then show ?thesis using rest Some taken dup by (simp add: sreturn_def k_def)
    next
      case True
      obtain f where free': "map_of (pd_dedup db) k = None" and
        db1: "db1 = db\<lparr>db_faults := f, pd_dedup := pd_dedup db @ [(k, None)]\<rparr>" using free Some True by blast
      obtain db2 a1 db3 a2 db4 u4 db5 u5 db6 u6 where
        s2: "sql (\<lambda>db. (db, resolve_guidance ws a db)) db1 = (db2, Inr a1)" and
        s3: "sql (insert_alert now a1) db2 = (db3, Inr (Some a2))" and
        s4: "sql (link_key k (ar_ID a2)) db3 = (db4, Inr u4)" and
        s5: "(if 0 < sa_Cooldown a2 then sql (close_window now (ar_RuleID a2)) else sreturn ()) db4 = (db5, Inr u5)" and
        s6: "(if sa_LedgerClosedAt a2 \<noteq> 0 then sql (stamp_match (sa_LedgerClosedAt a2) (ar_MonitorID a2)) else sreturn ()) db5 = (db6, Inr u6)" and
        fin: "db' = db6" "commit" "out = AlertCreated" "a' = a2"
        using rest Some True by (auto elim!: sbind_Inr simp: sreturn_def sfail_def split: option.splits)
      have d2: "\<exists>f. db2 = db1\<lparr>db_faults := f\<rparr>" and a1: "a1 = resolve_guidance ws a db"
        using s2 db1 by (auto simp: sql_Inr intro!: resolve_guidance_cong)
      obtain g where ins: "insert_alert now a1 (db2\<lparr>db_faults := g\<rparr>) = (db3, Some a2)" using s3 by (auto simp: sql_Inr)
      note ins = insert_alert_Some [OF ins]
      have a2: "ar_RuleID a2 = ar_RuleID a" "ar_EventID a2 = ar_EventID a" "ar_MonitorID a2 = ar_MonitorID a"
        "sa_Cooldown a2 = sa_Cooldown a" "sa_SuppressedSinceLast a2 = sa_SuppressedSinceLast a" "ar_CreatedAt a2 = now" "ar_Backfilled a2 = ar_Backfilled a"
        using ins a1 by simp_all
      have tables: "pd_rules db3 = pd_rules db" "pd_dedup db3 = pd_dedup db @ [(k, None)]"
        "db_alerts db3 = db_alerts db @ [AlertRow.truncate a2]" using ins(1) d2 db1 by auto
      have d4: "pd_rules db4 = pd_rules db" "pd_dedup db4 = link_rows k (ar_ID a2) (pd_dedup db @ [(k, None)])"
        "db_alerts db4 = db_alerts db @ [AlertRow.truncate a2]" using s4 tables by (auto simp: sql_Inr link_key_def)
      have d5: "pd_rules db5 = (if 0 < sa_Cooldown a then pd_rules (fst (close_window now (ar_RuleID a) db)) else pd_rules db)"
        "pd_dedup db5 = pd_dedup db4" "db_alerts db5 = db_alerts db4"
        using s5 d4 a2 by (auto simp: sql_Inr close_window_def sreturn_def split: if_splits)
      have d6: "pd_rules db6 = pd_rules db5" "pd_dedup db6 = pd_dedup db5" "db_alerts db6 = db_alerts db5"
        using s6 by (auto simp: sql_Inr stamp_match_def sreturn_def split: if_splits)
      show ?thesis
        by (rule wrote) (use free' rule Some fin a2 d4 d5 d6 in \<open>simp_all add: k_def\<close>)
    qed
  qed
qed


lemma cooldown_gate_cases:
  assumes "cooldown_gate now a db = (db', Inr g)"
  obtains (free) "sa_Cooldown a \<le> 0" "g = Inr a" "db' = db"
  | (dup) "0 < sa_Cooldown a" "g = Inl (False, AlertDuplicate)" "map_of (pd_dedup db) (RuleEvent (ar_RuleID a) (ar_EventID a)) \<noteq> None"
  | (cooling) r f where "0 < sa_Cooldown a" "pd_rules db (ar_RuleID a) = Some r" "in_cooldown now (sa_Cooldown a) r"
      "map_of (pd_dedup db) (RuleEvent (ar_RuleID a) (ar_EventID a)) = None"
      "g = Inl (True, AlertSuppressed)" "db' = fst (count_suppressed (ar_RuleID a) db)\<lparr>db_faults := f\<rparr>"
  | (through) r where "0 < sa_Cooldown a" "pd_rules db (ar_RuleID a) = Some r" "\<not> in_cooldown now (sa_Cooldown a) r"
      "map_of (pd_dedup db) (RuleEvent (ar_RuleID a) (ar_EventID a)) = None" "upto_faults db db'"
      "g = Inr (a\<lparr>sa_SuppressedSinceLast := rr_suppressed_since_last r,
                 ar_Payload := WithSuppressed (ar_Payload a) (rr_suppressed_since_last r)\<rparr>)"
proof (cases "sa_Cooldown a \<le> 0")
  case True
  then show ?thesis using assms free by (simp add: cooldown_gate_def sreturn_def)
next
  case False
  let ?k = "RuleEvent (ar_RuleID a) (ar_EventID a)"
  obtain db1 r db2 duplicate where
    s1: "sql (\<lambda>db. (db, pd_rules db (ar_RuleID a))) db = (db1, Inr (Some r))" and
    s2: "sql (\<lambda>db. (db, map_of (pd_dedup db) ?k \<noteq> None)) db1 = (db2, Inr duplicate)" and
    rest: "(if duplicate then sreturn (Inl (False, AlertDuplicate))
           else if in_cooldown now (sa_Cooldown a) r
           then sbind (sql (count_suppressed (ar_RuleID a))) (\<lambda>_. sreturn (Inl (True, AlertSuppressed)))
           else sreturn (Inr (a\<lparr>sa_SuppressedSinceLast := rr_suppressed_since_last r,
                                ar_Payload := WithSuppressed (ar_Payload a) (rr_suppressed_since_last r)\<rparr>))) db2 = (db', Inr g)"
    using assms False by (auto simp: cooldown_gate_def sfail_def elim!: sbind_Inr split: option.splits)
  obtain f where d2: "db2 = db\<lparr>db_faults := f\<rparr>" and r: "pd_rules db (ar_RuleID a) = Some r"
    and dup': "duplicate \<longleftrightarrow> map_of (pd_dedup db) ?k \<noteq> None"
    using s1 s2 by (auto simp: sql_Inr)
  show ?thesis
  proof (cases "duplicate")
    case True
    then show ?thesis using rest dup dup' False by (simp add: sreturn_def)
  next
    case nd: False
    show ?thesis
    proof (cases "in_cooldown now (sa_Cooldown a) r")
      case True
      then obtain h where "count_suppressed (ar_RuleID a) (db\<lparr>db_faults := h\<rparr>) = (db', ())" "g = Inl (True, AlertSuppressed)"
        using rest nd d2 by (auto simp: sreturn_def sql_Inr elim!: sbind_Inr)
      then show ?thesis using cooling[of r h] True nd dup' r False by (auto simp: count_suppressed_def)
    next
      case False
      then show ?thesis using rest nd d2 dup' r through[of r] \<open>\<not> sa_Cooldown a \<le> 0\<close> by (auto simp: sreturn_def)
    qed
  qed
qed


lemma tenant_check_Inr: "tenant_check scope a db = (db', Inr u) \<Longrightarrow> upto_faults db db'"
  by (auto simp: tenant_check_def sreturn_def sfail_def sql_Inr elim!: sbind_Inr split: option.splits if_splits)

lemma local_body_cases:
  assumes "sbind (tenant_check scope a) (\<lambda>_. sbind (cooldown_gate now a) (\<lambda>g.
             case g of Inl (commit, outcome) \<Rightarrow> sreturn (commit, outcome, a) | Inr a1 \<Rightarrow> write_alert now ws a1)) db
           = (db', Inr (commit, out, a'))"
  obtains (dup) "\<not> commit" "out = AlertDuplicate" "map_of (pd_dedup db) (RuleEvent (ar_RuleID a) (ar_EventID a)) \<noteq> None"
  | (cooling) r f where "commit" "out = AlertSuppressed" "0 < sa_Cooldown a" "pd_rules db (ar_RuleID a) = Some r"
      "in_cooldown now (sa_Cooldown a) r" "map_of (pd_dedup db) (RuleEvent (ar_RuleID a) (ar_EventID a)) = None"
      "db' = fst (count_suppressed (ar_RuleID a) db)\<lparr>db_faults := f\<rparr>"
  | (wrote) r where "commit" "out = AlertCreated" "pd_rules db (ar_RuleID a) = Some r"
      "map_of (pd_dedup db) (RuleEvent (ar_RuleID a) (ar_EventID a)) = None"
      "0 < sa_Cooldown a \<longrightarrow> \<not> in_cooldown now (sa_Cooldown a) r \<and> sa_SuppressedSinceLast a' = rr_suppressed_since_last r"
      "db_alerts db' = db_alerts db @ [AlertRow.truncate a']"
      "pd_rules db' = (if 0 < sa_Cooldown a then pd_rules (fst (close_window now (ar_RuleID a) db)) else pd_rules db)"
      "pd_dedup db' = link_rows (RuleEvent (ar_RuleID a) (ar_EventID a)) (ar_ID a')
                        (pd_dedup db @ [(RuleEvent (ar_RuleID a) (ar_EventID a), None)])"
      "ar_RuleID a' = ar_RuleID a" "ar_EventID a' = ar_EventID a" "ar_MonitorID a' = ar_MonitorID a" "ar_CreatedAt a' = now"
      "ar_Backfilled a' = ar_Backfilled a"
proof -
  obtain db1 db2 u g where t: "tenant_check scope a db = (db1, Inr u)" and
    gate: "cooldown_gate now a db1 = (db2, Inr g)" and
    rest: "(case g of Inl (commit, outcome) \<Rightarrow> sreturn (commit, outcome, a) | Inr a1 \<Rightarrow> write_alert now ws a1) db2 = (db', Inr (commit, out, a'))"
    using assms by (elim sbind_Inr)
  obtain f1 where db1: "db1 = db\<lparr>db_faults := f1\<rparr>" using tenant_check_Inr [OF t] by (auto simp: upto_faults_def)
  from gate show thesis
  proof (cases rule: cooldown_gate_cases)
    case free
    with rest have "write_alert now ws a db1 = (db', Inr (commit, out, a'))" by simp
    then show ?thesis
    proof (cases rule: write_alert_cases)
      case d: dup
      then show ?thesis using dup db1 by simp
    next
      case w: wrote
      obtain r where "pd_rules db1 (ar_RuleID a) = Some r" using w(4) by blast
      then show ?thesis using w db1 free by (intro wrote[of r]) (simp_all add: close_window_def)
    qed
  next
    case d: dup
    then show ?thesis using dup rest db1 by (simp add: sreturn_def)
  next
    case c: (cooling r f)
    then show ?thesis using cooling[of r f] rest db1 by (auto simp: sreturn_def count_suppressed_def)
  next
    case (through r)
    obtain f2 where db2: "db2 = db1\<lparr>db_faults := f2\<rparr>" using through by (auto simp: upto_faults_def)
    let ?a = "a\<lparr>sa_SuppressedSinceLast := rr_suppressed_since_last r, ar_Payload := WithSuppressed (ar_Payload a) (rr_suppressed_since_last r)\<rparr>"
    have "write_alert now ws ?a db2 = (db', Inr (commit, out, a'))" using rest through by simp
    then show ?thesis
    proof (cases rule: write_alert_cases)
      case d: dup
      then show ?thesis using dup db1 db2 by simp
    next
      case w: wrote
      then show ?thesis using db1 db2 through by (intro wrote[of r]) (simp_all add: close_window_def)
    qed
  qed
qed


lemma abs_gate_created:
  assumes "pd_rules db i = Some r"
    and "pd_rules db' = (if 0 < cd then pd_rules (fst (close_window now i db)) else pd_rules db)"
    and "pd_dedup db' = link_rows (RuleEvent i e) n (pd_dedup db @ [(RuleEvent i e, None)])"
  shows "abs_gate i db' = \<lparr>ag_keys = insert e (ag_keys (abs_gate i db)),
           ag_last = (if 0 < cd then Some now else ag_last (abs_gate i db)), ag_count = (if 0 < cd then 0 else ag_count (abs_gate i db))\<rparr>"
    and "j \<noteq> i \<Longrightarrow> abs_gate j db' = abs_gate j db"
  using assms by (auto simp: abs_gate_def map_of_link_rows close_window_def map_add_Some_iff)

text \<open>
  The transaction implements the gate: seen through \<open>abs_gate\<close>, a call that returns an outcome is one step of
  \<open>gate_create\<close> on the rule's gate and leaves all others alone, and a call that fails changes nothing.
\<close>

lemma createAlert_refines_gate:
  assumes run: "createAlert now ws scope a db = (db', r)" and loc: "\<not> sa_Federated a"
  shows "case r of
      Inl e \<Rightarrow> (\<forall>i. abs_gate i db' = abs_gate i db) \<and> db_alerts db' = db_alerts db
    | Inr (out, a') \<Rightarrow>
        gate_create now (sa_Cooldown a) (ar_EventID a) (abs_gate (ar_RuleID a) db) = (out, abs_gate (ar_RuleID a) db')
        \<and> (\<forall>i. i \<noteq> ar_RuleID a \<longrightarrow> abs_gate i db' = abs_gate i db)
        \<and> (if out = AlertCreated
           then db_alerts db' = db_alerts db @ [AlertRow.truncate a'] \<and> ar_RuleID a' = ar_RuleID a \<and> ar_EventID a' = ar_EventID a
             \<and> ar_CreatedAt a' = now \<and> ar_Backfilled a' = ar_Backfilled a \<and> (0 < sa_Cooldown a \<longrightarrow> sa_SuppressedSinceLast a' = ag_count (abs_gate (ar_RuleID a) db))
           else db_alerts db' = db_alerts db)"
  using run unfolding createAlert_def
proof (cases rule: transaction_cases)
  case (failed e)
  then show ?thesis by (simp add: upto_faults_tables)
next
  case (rolled_back db0 db1 p)
  obtain out a' where p: "p = (out, a')" by fastforce
  note t = upto_faults_tables[OF rolled_back(2)] upto_faults_tables[OF rolled_back(4)]
  from rolled_back(3) have "sbind (tenant_check scope a) (\<lambda>_. sbind (cooldown_gate now a) (\<lambda>g.
      case g of Inl (commit, outcome) \<Rightarrow> sreturn (commit, outcome, a) | Inr a1 \<Rightarrow> write_alert now ws a1)) db0 = (db1, Inr (False, out, a'))"
    using loc p by simp
  then show ?thesis
  proof (cases rule: local_body_cases)
    case dup
    then have "ar_EventID a \<in> ag_keys (abs_gate (ar_RuleID a) db)" using t by (simp add: abs_gate_def)
    then show ?thesis using dup rolled_back(1) p t by (simp add: gate_create_def)
  qed simp_all
next
  case (committed db0 db1 p)
  obtain out a' where p: "p = (out, a')" by fastforce
  note t = upto_faults_tables[OF committed(2)] upto_faults_tables[OF committed(4)]
  from committed(3) have "sbind (tenant_check scope a) (\<lambda>_. sbind (cooldown_gate now a) (\<lambda>g.
      case g of Inl (commit, outcome) \<Rightarrow> sreturn (commit, outcome, a) | Inr a1 \<Rightarrow> write_alert now ws a1)) db0 = (db1, Inr (True, out, a'))"
    using loc p by simp
  then show ?thesis
  proof (cases rule: local_body_cases)
    case (cooling q f)
    have g: "abs_gate (ar_RuleID a) db1 = (abs_gate (ar_RuleID a) db)\<lparr>ag_count := ag_count (abs_gate (ar_RuleID a) db) + 1\<rparr>"
      "i \<noteq> ar_RuleID a \<Longrightarrow> abs_gate i db1 = abs_gate i db" for i
      using cooling t by (auto simp: abs_gate_def count_suppressed_def)
    have "ar_EventID a \<notin> ag_keys (abs_gate (ar_RuleID a) db)" "ag_last (abs_gate (ar_RuleID a) db) = rr_last_alert_at q"
      using cooling t by (simp_all add: abs_gate_def)
    then show ?thesis using committed(1) p g cooling t by (simp add: gate_create_def in_cooldown_def count_suppressed_def)
  next
    case (wrote q)
    note g = abs_gate_created[OF wrote(3,7,8)]
    have "ar_EventID a \<notin> ag_keys (abs_gate (ar_RuleID a) db)" "ag_last (abs_gate (ar_RuleID a) db) = rr_last_alert_at q"
      "ag_count (abs_gate (ar_RuleID a) db) = rr_suppressed_since_last q"
      using wrote t by (simp_all add: abs_gate_def)
    then show ?thesis using committed(1) p g wrote t by (simp add: gate_create_def in_cooldown_def)
  qed simp
qed

fun create_all ::
  "string \<Rightarrow> string option \<Rightarrow> (gtime \<times> StoreAlert) list \<Rightarrow> 'x PollDB_scheme \<Rightarrow> 'x PollDB_scheme \<times> (string + AlertOutcome \<times> StoreAlert) list" where
  "create_all ws scope [] db = (db, [])"
| "create_all ws scope ((now, a) # calls) db =
     (let (db1, r) = createAlert now ws scope a db; (db2, rs) = create_all ws scope calls db1 in (db2, r # rs))"

lemma create_all_append:
  "create_all ws scope (xs @ ys) db =
     (let (db1, rs) = create_all ws scope xs db; (db2, rs') = create_all ws scope ys db1 in (db2, rs @ rs'))"
  by (induction xs arbitrary: db) (auto simp: Let_def split: prod.splits)

lemma length_create_all: "length (snd (create_all ws scope calls db)) = length calls"
  by (induction ws scope calls db rule: create_all.induct) (auto simp: Let_def split: prod.splits)

definition answered :: "int \<Rightarrow> AlertOutcome \<Rightarrow> (gtime \<times> StoreAlert) \<times> (string + AlertOutcome \<times> StoreAlert) \<Rightarrow> bool" where
  "answered i out x = (ar_RuleID (snd (fst x)) = i \<and> (case snd x of Inr (o', b) \<Rightarrow> o' = out | Inl e \<Rightarrow> False))"

text \<open>One call seen through the gate of a rule.\<close>

lemma gate_create_effect:
  assumes "gate_create now cd e g = (out, g')"
  shows "ag_keys g \<subseteq> ag_keys g'"
    and "ag_last g' = (if out = AlertCreated \<and> 0 < cd then Some now else ag_last g)"
    and "ag_count g' = (if out = AlertCreated \<and> 0 < cd then 0 else ag_count g + (if out = AlertSuppressed then 1 else 0))"
    and "out = AlertCreated \<Longrightarrow> e \<in> ag_keys g' \<and> e \<notin> ag_keys g"
    and "out = AlertCreated \<Longrightarrow> 0 < cd \<Longrightarrow> ag_last g = Some t \<Longrightarrow> t + cd \<le> now"
  using assms by (auto simp: gate_create_def split: if_splits option.splits)

lemma createAlert_gate_step:
  assumes "createAlert now ws scope a db = (db', r)" and "\<not> sa_Federated a"
  shows "ag_keys (abs_gate i db) \<subseteq> ag_keys (abs_gate i db')
    \<and> ag_last (abs_gate i db') = (if answered i AlertCreated ((now, a), r) \<and> 0 < sa_Cooldown a then Some now else ag_last (abs_gate i db))
    \<and> ag_count (abs_gate i db') =
           (if answered i AlertCreated ((now, a), r) \<and> 0 < sa_Cooldown a then 0
            else ag_count (abs_gate i db) + (if answered i AlertSuppressed ((now, a), r) then 1 else 0))"
proof (cases r)
  case (Inl e)
  then show ?thesis using createAlert_refines_gate [OF assms] by (simp add: answered_def)
next
  case (Inr p)
  obtain out b where p: "p = (out, b)" by fastforce
  note g = createAlert_refines_gate [OF assms, unfolded Inr p, simplified]
  show ?thesis
  proof (cases "i = ar_RuleID a")
    case True
    then show ?thesis using gate_create_effect(1-3) [OF g[THEN conjunct1]] Inr p by (simp add: answered_def)
  next
    case False
    then show ?thesis using g Inr p by (simp add: answered_def)
  qed
qed

lemma create_all_gate:
  assumes "create_all ws scope calls db = (db', rs)" and "\<forall>c \<in> set calls. \<not> sa_Federated (snd c)"
    and "ag_last (abs_gate i db) = Some t0" and "\<forall>c \<in> set calls. t \<le> fst c" and "t \<le> t0"
  shows "ag_keys (abs_gate i db) \<subseteq> ag_keys (abs_gate i db')
    \<and> (\<exists>t1 \<ge> t. ag_last (abs_gate i db') = Some t1)
    \<and> ((\<forall>x \<in> set (zip calls rs). answered i AlertCreated x \<longrightarrow> sa_Cooldown (snd (fst x)) \<le> 0) \<longrightarrow>
        ag_count (abs_gate i db') = ag_count (abs_gate i db) + int (length (filter (answered i AlertSuppressed) (zip calls rs))))"
  using assms
proof (induction ws scope calls db arbitrary: t0 rs rule: create_all.induct)
  case (1 ws scope db)
  then show ?case by auto
next
  case (2 ws scope now a calls db)
  obtain db1 r where c: "createAlert now ws scope a db = (db1, r)" by fastforce
  obtain rs' where rec: "create_all ws scope calls db1 = (db', rs')" and rs: "rs = r # rs'"
    using 2(2) c by (auto simp: Let_def split: prod.splits)
  have "\<not> sa_Federated a" "t \<le> now" using 2(3,5) by auto
  note st = createAlert_gate_step [OF c this(1), of i]
  obtain t1 where t1: "ag_last (abs_gate i db1) = Some t1" "t \<le> t1"
    using st 2(4,6) \<open>t \<le> now\<close> by (metis option.inject)
  have ih: "ag_keys (abs_gate i db1) \<subseteq> ag_keys (abs_gate i db')
    \<and> (\<exists>t1 \<ge> t. ag_last (abs_gate i db') = Some t1)
    \<and> ((\<forall>x \<in> set (zip calls rs'). answered i AlertCreated x \<longrightarrow> sa_Cooldown (snd (fst x)) \<le> 0) \<longrightarrow>
        ag_count (abs_gate i db') = ag_count (abs_gate i db1) + int (length (filter (answered i AlertSuppressed) (zip calls rs'))))"
    using 2(1) [OF c [symmetric] refl rec _ t1(1) _ t1(2)] 2(3,5) by simp
  show ?case
  proof (intro conjI impI)
    show "ag_keys (abs_gate i db) \<subseteq> ag_keys (abs_gate i db')" using ih st by blast
    show "\<exists>t1 \<ge> t. ag_last (abs_gate i db') = Some t1" using ih by blast
    assume h: "\<forall>x \<in> set (zip ((now, a) # calls) rs). answered i AlertCreated x \<longrightarrow> sa_Cooldown (snd (fst x)) \<le> 0"
    then have "answered i AlertCreated ((now, a), r) \<longrightarrow> sa_Cooldown a \<le> 0" by (simp add: rs)
    then have "ag_count (abs_gate i db1) = ag_count (abs_gate i db) + (if answered i AlertSuppressed ((now, a), r) then 1 else 0)"
      using st by auto
    then show "ag_count (abs_gate i db') = ag_count (abs_gate i db) + int (length (filter (answered i AlertSuppressed) (zip ((now, a) # calls) rs)))"
      using ih h by (simp add: rs)
  qed
qed

text \<open>The events of the matches of a rule that were suppressed.\<close>

definition suppressed_events :: "int \<Rightarrow> ((gtime \<times> StoreAlert) \<times> (string + AlertOutcome \<times> StoreAlert)) list \<Rightarrow> string list" where
  "suppressed_events i xs = map (\<lambda>x. ar_EventID (snd (fst x))) (filter (answered i AlertSuppressed) xs)"

lemma suppressed_events_distinct:
  "distinct (suppressed_events i xs) \<Longrightarrow> card (set (suppressed_events i xs)) = length (filter (answered i AlertSuppressed) xs)"
  using distinct_card [of "suppressed_events i xs"] by (simp add: suppressed_events_def)

text \<open>
  C10. A cooldown is honoured. In any run of matches, with any statements failing, two alerts of a rule with a cooldown are
  at least the later one's cooldown apart and for different events. When no alert of the rule with a cooldown came
  between them and no suppressed event was seen twice, the later one reports exactly the number of events of the rule that
  were suppressed since the earlier one; a replay of an event that already has its alert does not count.
\<close>

theorem cooldown_spaces_alerts:
  assumes "create_all ws scope (pre @ (t1, a1) # mid @ [(t2, a2)]) db =
             (db', rs1 @ Inr (AlertCreated, b1) # rs2 @ [Inr (AlertCreated, b2)])"
    and "length rs1 = length pre" and "length rs2 = length mid"
    and "\<forall>c \<in> set (pre @ (t1, a1) # mid @ [(t2, a2)]). \<not> sa_Federated (snd c)"
    and "ar_RuleID a2 = ar_RuleID a1" and "0 < sa_Cooldown a1" and "0 < sa_Cooldown a2"
    and "\<forall>c \<in> set mid. t1 \<le> fst c"
  shows "t1 + sa_Cooldown a2 \<le> t2 \<and> ar_EventID a1 \<noteq> ar_EventID a2
    \<and> ((\<forall>x \<in> set (zip mid rs2). answered (ar_RuleID a1) AlertCreated x \<longrightarrow> sa_Cooldown (snd (fst x)) \<le> 0) \<longrightarrow>
        distinct (suppressed_events (ar_RuleID a1) (zip mid rs2)) \<longrightarrow>
        sa_SuppressedSinceLast b2 = int (card (set (suppressed_events (ar_RuleID a1) (zip mid rs2)))))"
proof -
  obtain d0 q1 where p: "create_all ws scope pre db = (d0, q1)" by fastforce
  obtain d1 r1 where c1: "createAlert t1 ws scope a1 d0 = (d1, r1)" by fastforce
  obtain d2 q2 where m: "create_all ws scope mid d1 = (d2, q2)" by fastforce
  obtain d3 r2 where c2: "createAlert t2 ws scope a2 d2 = (d3, r2)" by fastforce
  have "length q1 = length pre" "length q2 = length mid"
    using length_create_all[of ws scope pre db] length_create_all[of ws scope mid d1] p m by simp_all
  then have e: "r1 = Inr (AlertCreated, b1)" "rs2 = q2" "r2 = Inr (AlertCreated, b2)"
    using assms(1-3) p c1 m c2 by (auto simp: create_all_append)
  have loc: "\<not> sa_Federated a1" "\<not> sa_Federated a2" "\<forall>c \<in> set mid. \<not> sa_Federated (snd c)" using assms(4) by auto
  note g1 = createAlert_refines_gate [OF c1 loc(1), unfolded e, simplified]
  note f1 = gate_create_effect [OF g1[THEN conjunct1]]
  have k1: "ag_last (abs_gate (ar_RuleID a1) d1) = Some t1" "ar_EventID a1 \<in> ag_keys (abs_gate (ar_RuleID a1) d1)"
    "ag_count (abs_gate (ar_RuleID a1) d1) = 0" using f1(2-4) assms(6) by auto
  note mid = create_all_gate [OF m loc(3) k1(1) assms(8) order_refl]
  obtain t where t: "t1 \<le> t" "ag_last (abs_gate (ar_RuleID a1) d2) = Some t" using mid by blast
  note g2 = createAlert_refines_gate [OF c2 loc(2), unfolded e assms(5), simplified]
  note f2 = gate_create_effect(4,5) [OF g2[THEN conjunct1] refl]
  have "t + sa_Cooldown a2 \<le> t2" using f2(2) [OF assms(7) t(2)] .
  moreover have "ar_EventID a2 \<notin> ag_keys (abs_gate (ar_RuleID a1) d2)" using f2(1) by blast
  moreover have "sa_SuppressedSinceLast b2 = ag_count (abs_gate (ar_RuleID a1) d2)" using g2 assms(7) by blast
  ultimately show ?thesis using mid k1 t e by (auto simp: suppressed_events_distinct)
qed

text \<open>A database with one rule of one monitor, and the matches of it that follow.\<close>

definition demo_rule_row :: rule_row where
  "demo_rule_row = \<lparr>rr_severity = ''critical'', rr_version = 2, rr_runbook_url = '''', rr_response_guidance = '''', rr_monitor_id = 3,
     rr_last_alert_at = None, rr_suppressed_since_last = 0\<rparr>"

definition demo_poll_db :: PollDB where
  "demo_poll_db = \<lparr>db_ingest_state = None, db_network_ingest_state = [], db_cursors = [], db_ledger_hashes = [],
     db_network_ledger_hashes = [], db_alerts = [], db_monitored = [], db_gaps = [], db_faults = [],
     pd_rules = (\<lambda>i. if i = 1 then Some demo_rule_row else None),
     pd_monitors = (\<lambda>i. if i = 3 then Some \<lparr>mr_workspace_id = ''acme'', mr_network = ''testnet'', mr_runbook_url = '''',
                                          mr_response_guidance = '''', mr_last_matched_at = None\<rparr> else None),
     pd_workspaces = (\<lambda>w. None), pd_dedup = [], pd_nextID = 1, pd_absence = []\<rparr>"

definition demo_match :: "string \<Rightarrow> duration \<Rightarrow> StoreAlert" where
  "demo_match e cd = \<lparr>ar_ID = 0, ar_MonitorID = 3, ar_RuleID = 1, ar_EventID = e, ar_Network = '''', ar_Ledger = 8,
     ar_RetractedAt = None, ar_WorkspaceID = '''', ar_Severity = '''', ar_Payload = GMap [], ar_Backfilled = False, ar_RuleVersion = 0,
     ar_RunbookURL = '''', ar_ResponseGuidance = '''', ar_CreatedAt = 0, sa_LedgerClosedAt = 0, sa_Cooldown = cd,
     sa_SuppressedSinceLast = 0, sa_Federated = False, sa_FederationOrigin = ''''\<rparr>"

definition demo_stored :: "int \<Rightarrow> gtime \<Rightarrow> StoreAlert \<Rightarrow> StoreAlert" where
  "demo_stored n now a = a\<lparr>ar_ID := n, ar_Network := ''testnet'', ar_WorkspaceID := ''acme'', ar_Severity := ''critical'',
     ar_RuleVersion := 2, ar_CreatedAt := now\<rparr>"

definition demo_mid :: "(gtime \<times> StoreAlert) list" where
  "demo_mid = [(120, demo_match ''e2'' 60), (130, demo_match ''e1'' 60), (140, demo_match ''e4'' 60)]"

definition demo_mid_answers :: "(string + AlertOutcome \<times> StoreAlert) list" where
  "demo_mid_answers = [Inr (AlertSuppressed, demo_match ''e2'' 60), Inr (AlertDuplicate, demo_match ''e1'' 60), Inr (AlertSuppressed, demo_match ''e4'' 60)]"

definition demo_reported :: "int \<Rightarrow> StoreAlert" where
  "demo_reported n = demo_stored 2 160 ((demo_match ''e3'' 60)\<lparr>sa_SuppressedSinceLast := n, ar_Payload := GMap [(''suppressed_since_last'', GInt n)]\<rparr>)"

lemma demo_run:
  "snd (create_all ''default'' None ([] @ (100, demo_match ''e1'' 60) # demo_mid @ [(160, demo_match ''e3'' 60)]) demo_poll_db)
   = [] @ Inr (AlertCreated, demo_stored 1 100 (demo_match ''e1'' 60)) # demo_mid_answers @ [Inr (AlertCreated, demo_reported 2)]"
  by code_simp

theorem cooldown_spaces_alerts_witness:
  "(100::int) + 60 \<le> 160 \<and> ''e1'' \<noteq> ''e3'' \<and> sa_SuppressedSinceLast (demo_reported 2) = int (card {''e2'', ''e4''})"
proof -
  have r: "create_all ''default'' None ([] @ (100, demo_match ''e1'' 60) # demo_mid @ [(160, demo_match ''e3'' 60)]) demo_poll_db
    = (fst (create_all ''default'' None ([] @ (100, demo_match ''e1'' 60) # demo_mid @ [(160, demo_match ''e3'' 60)]) demo_poll_db),
       [] @ Inr (AlertCreated, demo_stored 1 100 (demo_match ''e1'' 60)) # demo_mid_answers @ [Inr (AlertCreated, demo_reported 2)])"
    using demo_run by (metis prod.collapse)
  have ev: "suppressed_events 1 (zip demo_mid demo_mid_answers) = [''e2'', ''e4'']" by code_simp
  show ?thesis
    using cooldown_spaces_alerts [OF r] ev
    by (simp add: demo_mid_def demo_mid_answers_def demo_match_def demo_stored_def answered_def)
qed

text \<open>
  The comment on the cooldown branch of \<open>CreateAlert\<close> says that a replayed event must not inflate the count. That holds for an
  event that has its alert; a suppressed one leaves no key in \<open>alert_dedup\<close>, so its replay is counted again: one event
  suppressed twice is reported as two.
\<close>

lemma replayed_suppressed_event_is_counted_twice:
  "map (\<lambda>r. case r of Inr (out, a) \<Rightarrow> (out, sa_SuppressedSinceLast a))
     (snd (create_all ''default'' None [(100, demo_match ''e1'' 60), (120, demo_match ''e2'' 60), (130, demo_match ''e2'' 60),
             (160, demo_match ''e3'' 60)] demo_poll_db))
   = [(AlertCreated, 0), (AlertSuppressed, 0), (AlertSuppressed, 0), (AlertCreated, 2)]"
  by code_simp

subsection \<open>One alert per match\<close>

definition local_rows :: "'x IngestDB_scheme \<Rightarrow> AlertRow list" where
  "local_rows db = filter (\<lambda>r. ar_RuleID r \<noteq> 0) (db_alerts db)"

definition store_ok :: "'x PollDB_scheme \<Rightarrow> bool" where
  "store_ok db \<longleftrightarrow>
     distinct (map (\<lambda>r. (ar_RuleID r, ar_EventID r)) (local_rows db)) \<and>
     (\<forall>r \<in> set (local_rows db). ar_EventID r \<in> ag_keys (abs_gate (ar_RuleID r) db))"

lemma federated_body:
  assumes "createFederatedAlert now ws a db = (db', Inr (commit, out, a'))" and commit
  shows "\<exists>row. db_alerts db' = db_alerts db @ [row] \<and> ar_RuleID row = 0" and "abs_gate i db' = abs_gate i db"
proof -
  let ?k = "Federated (sa_FederationOrigin a) (ar_EventID a)"
  obtain db1 db2 a1 db3 a2 db4 u where
    s1: "sql (reserve_key ?k) db = (db1, Inr True)" and
    s2: "sql (\<lambda>db. (db, federated_guidance ws a db)) db1 = (db2, Inr a1)" and
    s3: "sql (insert_federated now ws a1) db2 = (db3, Inr a2)" and
    s4: "sql (link_key ?k (ar_ID a2)) db3 = (db', Inr u)"
    using assms unfolding createFederatedAlert_def Let_def
    by (auto simp: sreturn_def elim!: sbind_Inr split: if_splits)
  have d2: "db_alerts db2 = db_alerts db" "pd_rules db2 = pd_rules db" "pd_dedup db2 = pd_dedup db @ [(?k, None)]"
    using s1 s2 by (auto simp: sql_Inr reserve_key_def split: if_splits)
  have d3: "\<exists>row. db_alerts db3 = db_alerts db @ [row] \<and> ar_RuleID row = 0" "pd_rules db3 = pd_rules db" "pd_dedup db3 = pd_dedup db @ [(?k, None)]"
    using s3 d2 by (auto simp: sql_Inr insert_federated_def Let_def)
  have d4: "db_alerts db' = db_alerts db3" "pd_rules db' = pd_rules db" "pd_dedup db' = link_rows ?k (ar_ID a2) (pd_dedup db @ [(?k, None)])"
    using s4 d3 by (auto simp: sql_Inr link_key_def)
  show "\<exists>row. db_alerts db' = db_alerts db @ [row] \<and> ar_RuleID row = 0" using d3 d4 by simp
  show "abs_gate i db' = abs_gate i db" using d4 by (auto simp: abs_gate_def map_of_link_rows map_add_def split: option.splits)
qed

lemma createAlert_federated:
  assumes "createAlert now ws scope a db = (db', r)" and "sa_Federated a"
  shows "(db_alerts db' = db_alerts db \<or> (\<exists>row. db_alerts db' = db_alerts db @ [row] \<and> ar_RuleID row = 0))
    \<and> abs_gate i db' = abs_gate i db"
  using assms(1) unfolding createAlert_def
proof (cases rule: transaction_cases)
  case (failed e)
  then show ?thesis by (simp add: upto_faults_tables)
next
  case (rolled_back db0 db1 p)
  then show ?thesis by (simp add: upto_faults_tables)
next
  case (committed db0 db1 p)
  obtain out a' where "p = (out, a')" by fastforce
  then have "createFederatedAlert now ws a db0 = (db1, Inr (True, out, a'))" using committed(3) assms(2) by simp
  note f = federated_body [OF this TrueI]
  show ?thesis using f f(2)[of i] upto_faults_tables[OF committed(2)] upto_faults_tables[OF committed(4)] by simp
qed

lemma store_ok_createAlert:
  assumes ok: "store_ok db" and run: "createAlert now ws scope a db = (db', r)"
  shows "store_ok db'"
proof (cases "sa_Federated a")
  case True
  have "local_rows db' = local_rows db"
    using createAlert_federated [OF run True, of 0] by (auto simp: local_rows_def)
  moreover have "abs_gate i db' = abs_gate i db" for i
    using createAlert_federated [OF run True, of i] by blast
  ultimately show ?thesis using ok by (simp add: store_ok_def)
next
  case False
  note g = createAlert_refines_gate [OF run False]
  have keys: "ag_keys (abs_gate i db) \<subseteq> ag_keys (abs_gate i db')" for i
    using createAlert_gate_step [OF run False] by blast
  show ?thesis
  proof (cases "\<exists>b. r = Inr (AlertCreated, b)")
    case True
    then obtain b where r: "r = Inr (AlertCreated, b)" by blast
    note g' = g [unfolded r, simplified]
    have new: "ar_EventID a \<notin> ag_keys (abs_gate (ar_RuleID a) db)" "ar_EventID a \<in> ag_keys (abs_gate (ar_RuleID a) db')"
      using gate_create_effect(4) [OF g'[THEN conjunct1] refl] by auto
    have rows: "local_rows db' = local_rows db @ (if ar_RuleID a \<noteq> 0 then [AlertRow.truncate b] else [])"
      and b: "ar_RuleID (AlertRow.truncate b) = ar_RuleID a" "ar_EventID (AlertRow.truncate b) = ar_EventID a"
      using g' by (auto simp: local_rows_def AlertRow.truncate_def)
    have "(ar_RuleID a, ar_EventID a) \<notin> (\<lambda>r. (ar_RuleID r, ar_EventID r)) ` set (local_rows db)"
      using ok new by (auto simp: store_ok_def)
    then show ?thesis using ok new rows b keys by (auto simp: store_ok_def)
  next
    case False
    then have "db_alerts db' = db_alerts db" using g by (auto split: sum.splits prod.splits if_splits)
    then have "local_rows db' = local_rows db" by (simp add: local_rows_def)
    then show ?thesis using ok keys by (auto simp: store_ok_def)
  qed
qed

text \<open>
  C15. A match is stored at most once: whatever sequence of matches and forwarded alerts is written, repeated
  or not, and whichever statements fail, no two local alerts share rule and event.
\<close>

theorem one_alert_per_rule_and_event:
  assumes "store_ok db"
  shows "distinct (map (\<lambda>r. (ar_RuleID r, ar_EventID r)) (local_rows (fst (create_all ws scope calls db))))"
proof -
  have "store_ok (fst (create_all ws scope calls db))" using assms
    by (induction ws scope calls db rule: create_all.induct)
       (auto simp: Let_def split: prod.splits dest: store_ok_createAlert)
  then show ?thesis by (simp add: store_ok_def)
qed

theorem one_alert_per_rule_and_event_witness:
  "distinct (map (\<lambda>r. (ar_RuleID r, ar_EventID r))
     (local_rows (fst (create_all ''default'' None [(100, demo_match ''e1'' 0), (120, demo_match ''e1'' 0)] demo_poll_db))))"
proof -
  have "store_ok demo_poll_db" by (simp add: store_ok_def local_rows_def demo_poll_db_def)
  then show ?thesis by (rule one_alert_per_rule_and_event)
qed

subsection \<open>What folding a field into the payload does to its numbers\<close>

lemma bit_length_le: "bit_length n \<le> k \<longleftrightarrow> n < 2 ^ k"
proof (induction n arbitrary: k rule: bit_length.induct)
  case (1 n)
  show ?case
  proof (cases "n = 0")
    case True
    then show ?thesis by (simp add: bit_length.simps)
  next
    case False
    show ?thesis
    proof (cases k)
      case 0
      then show ?thesis using False by (simp add: bit_length.simps[of n])
    next
      case (Suc k')
      have "n div 2 < 2 ^ k' \<longleftrightarrow> n < 2 ^ Suc k'" by auto
      then show ?thesis using 1 [OF False, of k'] False Suc by (simp add: bit_length.simps[of n])
    qed
  qed
qed

lemma float64_of_small: "\<bar>n\<bar> < 2 ^ 53 \<Longrightarrow> float64_of n = n"
proof -
  assume "\<bar>n\<bar> < 2 ^ 53"
  then have "bit_length (nat \<bar>n\<bar>) \<le> 53" by (simp add: bit_length_le nat_less_iff)
  then show ?thesis by (simp add: float64_of_def round_bits_def Let_def sgn_mult_abs)
qed

fun small_ints :: "gvalue \<Rightarrow> bool" where
  "small_ints (GInt n) = (\<bar>n\<bar> < 2 ^ 53)"
| "small_ints (GList vs) = list_all small_ints vs"
| "small_ints (GMap m) = list_all (\<lambda>(k, v). small_ints v) m"
| "small_ints v = True"

lemma unmarshal_any_small: "small_ints v \<Longrightarrow> unmarshal_any v = v"
  by (induction v rule: unmarshal_any.induct)
     (auto simp: float64_of_small list_all_iff intro!: map_idI)

lemma guidance_keeps_small_integers:
  assumes "list_all (\<lambda>(k, v). small_ints v) m"
    and "k \<noteq> ''runbook_url''" and "k \<noteq> ''response_guidance''" and "WithGuidance (GMap m) url note = GMap m'"
  shows "map_of m' k = map_of m k"
proof -
  have "decoded_fields m = m" using assms(1) by (auto simp: decoded_fields_def list_all_iff unmarshal_any_small intro!: map_idI)
  then show ?thesis using assms(2-4)
    by (auto simp: WithGuidance_def fill_field_def update_conv Let_def split: if_splits)
qed

text \<open>
  A runbook on the monitor is enough to change the amounts an alert reports: one unit of the smallest
  denomination disappears from 10000000000000001.
\<close>

lemma guidance_rounds_large_amounts:
  "WithGuidance (GMap [(''value'', GInt 10000000000000001)]) ''https://runbook'' '''' =
     GMap [(''value'', GInt 10000000000000000), (''runbook_url'', GStr ''https://runbook'')]"
proof -
  have "bit_length 10000000000000001 = 54"
    using bit_length_le [of 10000000000000001 54] bit_length_le [of 10000000000000001 53] by simp
  then have "float64_of 10000000000000001 = 10000000000000000"
    by (simp add: float64_of_def round_bits_def Let_def)
  then show ?thesis by (simp add: WithGuidance_def decoded_fields_def lacks_field_def fill_field_def)
qed

end
