(* ===== verification/Absence_Rule.thy ===== *)
theory Absence_Rule
  imports Alert_Store Composite_Rule
begin

text \<open>
  Rules that fire when an expected event stays away: \<open>internal/rules/absence.go\<close>, the clock table of
  \<open>internal/store/postgres.go\<close>, and \<open>SweepAbsence\<close>, \<open>observeAbsence\<close> and \<open>fireAbsence\<close> of
  \<open>internal/poller/poller.go\<close>; and what they share with event handling: \<open>internal/rules/cooldown.go\<close> and the
  guidance of an alert (\<open>internal/store/store.go\<close>).

  The standard library's parsers and printers are the record \<open>codec\<close>: JSON decoding of a rule's params (\<open>None\<close>
  unless they are an object), \<open>time.ParseDuration\<close>, JSON encoding, \<open>time.RFC3339\<close> and \<open>int64(d.Seconds())\<close>. Alerts handed to the
  dispatcher are the field \<open>pw_dispatched\<close> of the state.
\<close>

record codec =
  cd_object :: "string \<Rightarrow> (string \<times> gvalue) list option"
  cd_absence :: "string \<Rightarrow> string + (string \<times> string)"
  cd_parseDuration :: "string \<Rightarrow> string + duration"
  cd_json :: "gvalue \<Rightarrow> string"
  cd_rfc3339 :: "gtime \<Rightarrow> string"
  cd_seconds :: "duration \<Rightarrow> int"

record PollOut = PollDB +
  pw_dispatched :: "alert list"

subsection \<open>Cooldown and guidance\<close>

definition CooldownParam :: string where "CooldownParam = ''cooldown''"

definition ParseCooldown :: "codec \<Rightarrow> string \<Rightarrow> FieldError + duration" where
  "ParseCooldown cd params =
     (let bad = (\<lambda>reason. Inl \<lparr>fe_Field = CooldownParam, fe_Reason = reason\<rparr>) in
      if params = '''' then Inr 0
      else case cd_object cd params of
        None \<Rightarrow> Inr 0
      | Some raw' \<Rightarrow>
          (case map_of raw' CooldownParam of
             None \<Rightarrow> Inr 0
           | Some GNil \<Rightarrow> Inr 0
           | Some (GStr s) \<Rightarrow>
               if s = '''' then Inr 0
               else (case cd_parseDuration cd s of
                       Inl e \<Rightarrow> bad (''cooldown: invalid duration '' @ go_quote s @ '' (want a Go duration such as '' @
                                       go_quote ''5m'' @ '' or '' @ go_quote ''90s'' @ '')'')
                     | Inr d \<Rightarrow> if d < 0 then bad ''cooldown: must not be negative'' else Inr d)
           | Some _ \<Rightarrow> bad (''cooldown: must be a duration string such as '' @ go_quote ''5m'' @ '' or '' @ go_quote ''90s'')))"

definition ruleCooldown :: "codec \<Rightarrow> Rule \<Rightarrow> duration" where
  "ruleCooldown cd rule = (case ParseCooldown cd (ru_Params rule) of Inl e \<Rightarrow> 0 | Inr d \<Rightarrow> d)"

definition first_trimmed :: "string list \<Rightarrow> string" where
  "first_trimmed candidates = coalesce (map trim_space candidates)"

definition ResolveAlertGuidance :: "codec \<Rightarrow> Rule \<Rightarrow> Monitor \<Rightarrow> string \<times> string" where
  "ResolveAlertGuidance cd rule m =
     (let obj = (case cd_object cd (ru_Params rule) of None \<Rightarrow> GNil | Some o' \<Rightarrow> GMap o');
          url = (if ru_RunbookURL rule = '''' then payload_text ''runbook_url'' obj else ru_RunbookURL rule);
          note = (if ru_ResponseGuidance rule = '''' then payload_text ''response_guidance'' obj else ru_ResponseGuidance rule)
      in (first_trimmed [url, mo_RunbookURL m, ''''], first_trimmed [note, mo_ResponseGuidance m, '''']))"

subsection \<open>The rule\<close>

record AbsenceSpec =
  sp_EventName :: string
  sp_Window :: duration

definition parseAbsenceProblems :: "codec \<Rightarrow> string \<Rightarrow> AbsenceSpec \<times> FieldError list" where
  "parseAbsenceProblems cd params =
     (case cd_absence cd params of
        Inl err \<Rightarrow> (\<lparr>sp_EventName = '''', sp_Window = 0\<rparr>,
                    [\<lparr>fe_Field = ''params'', fe_Reason = ''absence_of_event: invalid params: '' @ err\<rparr>])
      | Inr (name, window) \<Rightarrow>
          (let name' = trim_space name; window' = trim_space window;
               p1 = (if name' = ''''
                     then [\<lparr>fe_Field = ''event_name'',
                            fe_Reason = ''absence_of_event: event_name is required (the event that should keep arriving)''\<rparr>] else []);
               bad = (\<lambda>reason. (\<lparr>sp_EventName = name', sp_Window = 0\<rparr>, p1 @ [\<lparr>fe_Field = ''window'', fe_Reason = ''absence_of_event: '' @ reason\<rparr>]))
           in if window' = '''' then bad (''window is required (a Go duration such as '' @ go_quote ''30m'' @ '')'')
              else case cd_parseDuration cd window' of
                Inl e \<Rightarrow> bad (''window '' @ go_quote window @ '' is not a duration (want '' @ go_quote ''30m'' @ '', '' @ go_quote ''2h'' @ '', ...)'')
              | Inr d \<Rightarrow> if d \<le> 0 then bad ''window must be greater than zero''
                        else (\<lparr>sp_EventName = name', sp_Window = d\<rparr>, p1)))"

definition Absence_Validate :: "codec \<Rightarrow> string \<Rightarrow> verr option" where
  "Absence_Validate cd params = (case snd (parseAbsenceProblems cd params) of [] \<Rightarrow> None | ps \<Rightarrow> Some (VFields ps))"

definition Absence_Spec :: "codec \<Rightarrow> string \<Rightarrow> FieldError list + AbsenceSpec" where
  "Absence_Spec cd params =
     (case parseAbsenceProblems cd params of (spec, []) \<Rightarrow> Inr spec | (spec, problems) \<Rightarrow> Inl problems)"

definition Absence_Matches :: "DecodedEvent \<Rightarrow> AbsenceSpec \<Rightarrow> bool" where
  "Absence_Matches ev spec = (sp_EventName spec \<noteq> '''' \<and> EventName ev = sp_EventName spec)"

subsection \<open>The clock table\<close>

definition ListAbsenceState :: "('x PollDB_scheme, ((int \<times> string) \<times> gtime) list) fallible" where
  "ListAbsenceState = sql (\<lambda>db. (db, pd_absence db))"

definition RecordAbsenceSeen :: "int \<Rightarrow> string \<Rightarrow> gtime \<Rightarrow> ('x PollDB_scheme, unit) fallible" where
  "RecordAbsenceSeen ruleID eventName seenAt =
     sql (\<lambda>db. (db\<lparr>pd_absence := AList.update (ruleID, eventName)
                     (case map_of (pd_absence db) (ruleID, eventName) of None \<Rightarrow> seenAt | Some t \<Rightarrow> max t seenAt) (pd_absence db)\<rparr>, ()))"

definition DeleteAbsenceStateForRule :: "int \<Rightarrow> ('x PollDB_scheme, unit) fallible" where
  "DeleteAbsenceStateForRule ruleID = sql (\<lambda>db. (db\<lparr>pd_absence := filter (\<lambda>((r, n), t). r \<noteq> ruleID) (pd_absence db)\<rparr>, ()))"

definition observeAbsence :: "codec \<Rightarrow> gtime \<Rightarrow> Rule \<Rightarrow> DecodedEvent \<Rightarrow> 'x PollDB_scheme \<Rightarrow> 'x PollDB_scheme \<times> bool" where
  "observeAbsence cd now rule ev db =
     (case Absence_Spec cd (ru_Params rule) of
        Inl problems \<Rightarrow> (db, False)
      | Inr spec \<Rightarrow>
          if \<not> Absence_Matches ev spec then (db, True)
          else (case RecordAbsenceSeen (ru_ID rule) (sp_EventName spec) now db of
                  (db', Inl e) \<Rightarrow> (db', False)
                | (db', Inr u) \<Rightarrow> (db', True)))"

subsection \<open>The sweep\<close>

definition unix_epoch :: gtime where "unix_epoch = 62135596800 * second"

definition AbsenceEventID :: "gtime \<Rightarrow> string" where
  "AbsenceEventID lastSeen = ''absence-'' @ fmt_d (wrap64 (lastSeen - unix_epoch))"

text \<open>Go's zero value \<open>store.Alert{}\<close>.\<close>

definition store_alert0 :: StoreAlert where
  "store_alert0 = \<lparr>ar_ID = 0, ar_MonitorID = 0, ar_RuleID = 0, ar_EventID = '''', ar_Network = '''', ar_Ledger = 0,
     ar_RetractedAt = None, ar_WorkspaceID = '''', ar_Severity = '''', ar_Payload = GNil, ar_Backfilled = False, ar_RuleVersion = 0,
     ar_RunbookURL = '''', ar_ResponseGuidance = '''', ar_CreatedAt = 0, sa_LedgerClosedAt = 0, sa_Cooldown = 0,
     sa_SuppressedSinceLast = 0, sa_Federated = False, sa_FederationOrigin = ''''\<rparr>"

definition absence_payload :: "codec \<Rightarrow> Monitor \<Rightarrow> AbsenceSpec \<Rightarrow> gtime \<Rightarrow> duration \<Rightarrow> gvalue" where
  "absence_payload cd m spec lastSeen silent =
     GMap [(''contract_ids'', GList (map GStr (mo_ContractIDs m))), (''event_name'', GStr (sp_EventName spec)),
           (''window_seconds'', GInt (cd_seconds cd (sp_Window spec))), (''last_seen_at'', GStr (cd_rfc3339 cd lastSeen)),
           (''silent_for_seconds'', GInt (cd_seconds cd silent))]"

definition absence_alert :: "codec \<Rightarrow> Monitor \<Rightarrow> Rule \<Rightarrow> AbsenceSpec \<Rightarrow> gtime \<Rightarrow> duration \<Rightarrow> StoreAlert" where
  "absence_alert cd m rule spec lastSeen silent =
     (let (url, note) = ResolveAlertGuidance cd rule m in
      store_alert0\<lparr>ar_MonitorID := mo_ID m, ar_RuleID := ru_ID rule, ar_EventID := AbsenceEventID lastSeen,
        ar_Payload := WithGuidance (absence_payload cd m spec lastSeen silent) url note,
        ar_RuleVersion := ru_Version rule, ar_RunbookURL := url, ar_ResponseGuidance := note\<rparr>)"

text \<open>The poller runs in a system context: no tenant check, and the default workspace for what is not the monitor's.\<close>

definition fireAbsence ::
  "codec \<Rightarrow> gtime \<Rightarrow> Monitor \<Rightarrow> Rule \<Rightarrow> AbsenceSpec \<Rightarrow> gtime \<Rightarrow> duration \<Rightarrow> 'x PollOut_scheme \<Rightarrow> 'x PollOut_scheme" where
  "fireAbsence cd dbNow m rule spec lastSeen silent w =
     (case createAlert dbNow Default None (absence_alert cd m rule spec lastSeen silent) w of
        (w', Inr (AlertCreated, a)) \<Rightarrow>
          w'\<lparr>pw_dispatched := pw_dispatched w' @
             [alert0\<lparr>al_ID := ar_ID a, al_MonitorID := mo_ID m, al_MonitorName := mo_Name m, al_RuleID := ru_ID rule,
                     al_RuleType := ru_Type rule, al_EventID := ar_EventID a, al_EventName := sp_EventName spec,
                     al_Silence := silent, al_Payload := cd_json cd (ar_Payload a), al_CreatedAt := ar_CreatedAt a,
                     al_RunbookURL := ar_RunbookURL a, al_ResponseGuidance := ar_ResponseGuidance a\<rparr>]\<rparr>
      | (w', _) \<Rightarrow> w')"

text \<open>One rule of the sweep; \<open>stored\<close> are the clocks read before it, \<open>now\<close> the sweep's clock and \<open>dbNow\<close> the database's.\<close>

definition sweep_rule ::
  "codec \<Rightarrow> (string \<Rightarrow> bool) \<Rightarrow> gtime \<Rightarrow> gtime \<Rightarrow> ((int \<times> string) \<times> gtime) list \<Rightarrow> Monitor \<Rightarrow> Rule \<Rightarrow> 'x PollOut_scheme \<Rightarrow> 'x PollOut_scheme" where
  "sweep_rule cd isAbsence now dbNow stored m rule w =
     (if \<not> isAbsence (ru_Type rule) then w
      else case Absence_Spec cd (ru_Params rule) of
        Inl problems \<Rightarrow> w
      | Inr spec \<Rightarrow>
          (case map_of stored (ru_ID rule, sp_EventName spec) of
             None \<Rightarrow> fst (RecordAbsenceSeen (ru_ID rule) (sp_EventName spec) now w)
           | Some lastSeen \<Rightarrow>
               if time_sub now lastSeen < sp_Window spec then w
               else fireAbsence cd dbNow m rule spec lastSeen (time_sub now lastSeen) w))"

definition sweep_monitor ::
  "codec \<Rightarrow> (string \<Rightarrow> bool) \<Rightarrow> (int \<Rightarrow> string + Rule list) \<Rightarrow> gtime \<Rightarrow> gtime \<Rightarrow> ((int \<times> string) \<times> gtime) list \<Rightarrow> Monitor
     \<Rightarrow> 'x PollOut_scheme \<Rightarrow> 'x PollOut_scheme" where
  "sweep_monitor cd isAbsence listRules now dbNow stored m w =
     (case listRules (mo_ID m) of
        Inl e \<Rightarrow> w
      | Inr ruleList \<Rightarrow> fold (sweep_rule cd isAbsence now dbNow stored m) ruleList w)"

definition SweepAbsence ::
  "codec \<Rightarrow> (string \<Rightarrow> bool) \<Rightarrow> string + Monitor list \<Rightarrow> (int \<Rightarrow> string + Rule list) \<Rightarrow> gtime \<Rightarrow> gtime \<Rightarrow> ('x PollOut_scheme, unit) fallible" where
  "SweepAbsence cd isAbsence monitors listRules now dbNow =
     (case monitors of
        Inl e \<Rightarrow> sfail e
      | Inr [] \<Rightarrow> sreturn ()
      | Inr ms \<Rightarrow> sbind ListAbsenceState (\<lambda>stored w. (fold (sweep_monitor cd isAbsence listRules now dbNow stored) ms w, Inr ())))"

subsection \<open>One alert per silent window\<close>

datatype absence_op =
    OSweep "string + Monitor list" "int \<Rightarrow> string + Rule list" gtime gtime
  | OObserve gtime Rule DecodedEvent

fun absence_run :: "codec \<Rightarrow> (string \<Rightarrow> bool) \<Rightarrow> absence_op list \<Rightarrow> 'x PollOut_scheme \<Rightarrow> 'x PollOut_scheme" where
  "absence_run cd isAbsence [] w = w"
| "absence_run cd isAbsence (OSweep ms lr now dbNow # ops) w = absence_run cd isAbsence ops (fst (SweepAbsence cd isAbsence ms lr now dbNow w))"
| "absence_run cd isAbsence (OObserve now rule ev # ops) w = absence_run cd isAbsence ops (fst (observeAbsence cd now rule ev w))"

definition dispatched_keys :: "'x PollOut_scheme \<Rightarrow> (int \<times> string) list" where
  "dispatched_keys w = map (\<lambda>a. (al_RuleID a, al_EventID a)) (pw_dispatched w)"

definition absence_ok :: "'x PollOut_scheme \<Rightarrow> bool" where
  "absence_ok w \<longleftrightarrow> distinct (dispatched_keys w) \<and> (\<forall>(i, e) \<in> set (dispatched_keys w). e \<in> ag_keys (abs_gate i w))"

lemma absence_alert_fields [simp]:
  "ar_RuleID (absence_alert cd m rule spec t d) = ru_ID rule" "ar_EventID (absence_alert cd m rule spec t d) = AbsenceEventID t"
  "ar_MonitorID (absence_alert cd m rule spec t d) = mo_ID m" "sa_Cooldown (absence_alert cd m rule spec t d) = 0"
  "\<not> sa_Federated (absence_alert cd m rule spec t d)"
  by (simp_all add: absence_alert_def store_alert0_def Let_def split: prod.splits)

text \<open>The transaction touches its tables only.\<close>

lemma createAlert_dispatched: "pw_dispatched (fst (createAlert now ws scope a w)) = pw_dispatched w"
  by (rule keeps_fst [OF createAlert_keeps]) simp_all

text \<open>Firing: a new row and a new notification together, or neither.\<close>

lemma fireAbsence_cases:
  fixes w w' :: "'x PollOut_scheme"
  assumes w'_def: "w' = fireAbsence cd dbNow m rule spec lastSeen silent w"
  obtains (new) n where "pw_dispatched w' = pw_dispatched w @ [n]" "al_RuleID n = ru_ID rule" "al_EventID n = AbsenceEventID lastSeen"
      "al_Silence n = silent" "AbsenceEventID lastSeen \<notin> ag_keys (abs_gate (ru_ID rule) w)"
      "AbsenceEventID lastSeen \<in> ag_keys (abs_gate (ru_ID rule) w')" "\<And>i. ag_keys (abs_gate i w) \<subseteq> ag_keys (abs_gate i w')"
  | (old) "pw_dispatched w' = pw_dispatched w" "\<And>i. ag_keys (abs_gate i w) \<subseteq> ag_keys (abs_gate i w')"
proof -
  let ?a = "absence_alert cd m rule spec lastSeen silent"
  obtain w1 r where c: "createAlert dbNow Default None ?a w = (w1, r)" by fastforce
  have d: "pw_dispatched w1 = pw_dispatched w" using createAlert_dispatched[of dbNow Default None ?a w] c by simp
  note g = createAlert_refines_gate [OF c absence_alert_fields(5)]
  have keys: "ag_keys (abs_gate i w) \<subseteq> ag_keys (abs_gate i w1)" for i
    using createAlert_gate_step [OF c absence_alert_fields(5), of i] by blast
  have out: "abs_gate i (w1\<lparr>pw_dispatched := x\<rparr>) = abs_gate i w1" for i x by (simp add: abs_gate_def)
  show thesis
  proof (cases "\<exists>b. r = Inr (AlertCreated, b)")
    case True
    then obtain b where r: "r = Inr (AlertCreated, b)" by blast
    note g' = g [unfolded r, simplified]
    have k: "AbsenceEventID lastSeen \<notin> ag_keys (abs_gate (ru_ID rule) w)" "AbsenceEventID lastSeen \<in> ag_keys (abs_gate (ru_ID rule) w1)"
      "ar_EventID b = AbsenceEventID lastSeen" using gate_create_effect(4) [OF g'[THEN conjunct1] refl] g' by auto
    let ?n = "alert0\<lparr>al_ID := ar_ID b, al_MonitorID := mo_ID m, al_MonitorName := mo_Name m, al_RuleID := ru_ID rule,
                al_RuleType := ru_Type rule, al_EventID := ar_EventID b, al_EventName := sp_EventName spec,
                al_Silence := silent, al_Payload := cd_json cd (ar_Payload b), al_CreatedAt := ar_CreatedAt b,
                al_RunbookURL := ar_RunbookURL b, al_ResponseGuidance := ar_ResponseGuidance b\<rparr>"
    have "w' = w1\<lparr>pw_dispatched := pw_dispatched w1 @ [?n]\<rparr>" using c r by (simp add: w'_def fireAbsence_def)
    then show ?thesis using d keys k out by (intro new [of ?n]) simp_all
  next
    case False
    then have "w' = w1" using c by (auto simp: w'_def fireAbsence_def split: sum.splits prod.splits AlertOutcome.splits)
    then show ?thesis using old d keys by simp
  qed
qed

lemma absence_ok_fire:
  assumes "absence_ok w"
  shows "absence_ok (fireAbsence cd dbNow m rule spec lastSeen silent w)"
proof -
  let ?w = "fireAbsence cd dbNow m rule spec lastSeen silent w"
  have "?w = ?w" by (rule refl)
  then show ?thesis
  proof (cases rule: fireAbsence_cases)
    case (new n)
    then show ?thesis using assms unfolding absence_ok_def dispatched_keys_def by (auto split: prod.splits)
  next
    case old
    then show ?thesis using assms unfolding absence_ok_def dispatched_keys_def by (auto split: prod.splits)
  qed
qed

lemma absence_ok_cong:
  "pw_dispatched w' = pw_dispatched w \<Longrightarrow> pd_dedup w' = pd_dedup w \<Longrightarrow> absence_ok w \<Longrightarrow> absence_ok w'"
  by (simp add: absence_ok_def dispatched_keys_def abs_gate_def)

lemma absence_ok_record: "absence_ok w \<Longrightarrow> absence_ok (fst (RecordAbsenceSeen i n t w))"
  by (rule absence_ok_cong [of _ w]) (simp_all add: RecordAbsenceSeen_def fst_sql)

lemma absence_ok_sweep_rule:
  assumes "absence_ok w"
  shows "absence_ok (sweep_rule cd isAbsence now dbNow stored m rule w)"
proof (cases "Absence_Spec cd (ru_Params rule)")
  case (Inl a)
  then show ?thesis using assms by (simp add: sweep_rule_def)
next
  case (Inr spec)
  show ?thesis
  proof (cases "map_of stored (ru_ID rule, sp_EventName spec)")
    case None
    then show ?thesis using Inr assms absence_ok_record [OF assms] by (simp add: sweep_rule_def)
  next
    case (Some t)
    then show ?thesis using Inr assms absence_ok_fire [OF assms] by (simp add: sweep_rule_def)
  qed
qed

lemma fold_keeps: "(\<And>x s. x \<in> set xs \<Longrightarrow> P s \<Longrightarrow> P (f x s)) \<Longrightarrow> P s \<Longrightarrow> P (fold f xs s)"
  by (induction xs arbitrary: s) auto

lemma absence_ok_sweep:
  assumes ok: "absence_ok w"
  shows "absence_ok (fst (SweepAbsence cd isAbsence ms lr now dbNow w))"
proof -
  have mon: "absence_ok v \<Longrightarrow> absence_ok (sweep_monitor cd isAbsence lr now dbNow stored m v)" for v stored m
    using fold_keeps [where P = absence_ok and f = "sweep_rule cd isAbsence now dbNow stored m", OF absence_ok_sweep_rule]
    by (cases "lr (mo_ID m)") (simp_all add: sweep_monitor_def)
  obtain w1 r where l: "ListAbsenceState w = (w1, r)" by fastforce
  have "pw_dispatched w1 = pw_dispatched w" "pd_dedup w1 = pd_dedup w"
    using l by (auto simp: ListAbsenceState_def sql_def Let_def split: option.splits)
  then have w1: "absence_ok w1" using ok by (rule absence_ok_cong)
  have loop: "absence_ok (fold (sweep_monitor cd isAbsence lr now dbNow stored) xs w1)" for stored xs
    using fold_keeps [where P = absence_ok and f = "sweep_monitor cd isAbsence lr now dbNow stored"] w1 mon by blast
  show ?thesis
  proof (cases ms)
    case (Inl e)
    then show ?thesis using ok by (simp add: SweepAbsence_def sfail_def)
  next
    case (Inr xs)
    show ?thesis
    proof (cases xs)
      case Nil
      then show ?thesis using ok Inr by (simp add: SweepAbsence_def sreturn_def)
    next
      case (Cons y ys)
      show ?thesis
      proof (cases r)
        case (Inl e)
        then show ?thesis using \<open>ms = Inr xs\<close> Cons l w1 by (simp add: SweepAbsence_def sbind_def)
      next
        case r: (Inr stored)
        then show ?thesis using Inr Cons l loop [of stored xs] by (simp add: SweepAbsence_def sbind_def)
      qed
    qed
  qed
qed

text \<open>
  A silent stretch for rule \<open>i\<close>, which waits for \<open>n\<close>: any sweeps, whatever they read and whenever they run, and any events
  for other rules, or for this one when they are not the awaited event.
\<close>

definition silent_op :: "codec \<Rightarrow> int \<Rightarrow> string \<Rightarrow> absence_op \<Rightarrow> bool" where
  "silent_op cd i n op = (case op of
       OSweep ms lr now dbNow \<Rightarrow> (\<forall>j rs r spec. lr j = Inr rs \<longrightarrow> r \<in> set rs \<longrightarrow> ru_ID r = i \<longrightarrow> Absence_Spec cd (ru_Params r) = Inr spec \<longrightarrow> sp_EventName spec = n)
     | OObserve now rule ev \<Rightarrow> ru_ID rule = i \<longrightarrow> (\<forall>spec. Absence_Spec cd (ru_Params rule) = Inr spec \<longrightarrow> \<not> Absence_Matches ev spec))"

definition clock_stands :: "int \<Rightarrow> string \<Rightarrow> gtime \<Rightarrow> 'x PollOut_scheme \<Rightarrow> bool" where
  "clock_stands i n t w \<longleftrightarrow> map_of (pd_absence w) (i, n) = Some t \<and> (\<forall>k \<in> set (dispatched_keys w). fst k = i \<longrightarrow> snd k = AbsenceEventID t)"

lemma createAlert_absence: "pd_absence (fst (createAlert now ws scope a w)) = pd_absence w"
  by (rule keeps_fst [OF createAlert_keeps]) simp_all

lemma fireAbsence_clocks: "pd_absence (fireAbsence cd dbNow m rule spec lastSeen silent w) = pd_absence w"
  using createAlert_absence [of dbNow Default None "absence_alert cd m rule spec lastSeen silent" w]
  by (auto simp: fireAbsence_def split: prod.splits sum.splits AlertOutcome.splits)

lemma clock_stands_fire:
  assumes "clock_stands i n t w" "ru_ID rule = i \<Longrightarrow> lastSeen = t"
  shows "clock_stands i n t (fireAbsence cd dbNow m rule spec lastSeen silent w)"
proof -
  let ?w = "fireAbsence cd dbNow m rule spec lastSeen silent w"
  have "?w = ?w" by (rule refl)
  then show ?thesis
    by (cases rule: fireAbsence_cases) (use assms in \<open>auto simp: clock_stands_def dispatched_keys_def fireAbsence_clocks\<close>)
qed

lemma clock_stands_record:
  assumes "clock_stands i n t w" "(j, n') \<noteq> (i, n)"
  shows "clock_stands i n t (fst (RecordAbsenceSeen j n' s w))"
  using assms by (auto simp: clock_stands_def dispatched_keys_def RecordAbsenceSeen_def fst_sql AList.update_conv' map_upd_Some_unfold)

lemma clock_stands_sweep_rule:
  assumes c: "clock_stands i n t w" and st: "map_of stored (i, n) = Some t"
    and n: "\<And>spec. ru_ID rule = i \<Longrightarrow> Absence_Spec cd (ru_Params rule) = Inr spec \<Longrightarrow> sp_EventName spec = n"
  shows "clock_stands i n t (sweep_rule cd isAbsence now dbNow stored m rule w)"
proof (cases "Absence_Spec cd (ru_Params rule)")
  case (Inl a)
  then show ?thesis using c by (simp add: sweep_rule_def)
next
  case (Inr spec)
  show ?thesis
  proof (cases "map_of stored (ru_ID rule, sp_EventName spec)")
    case None
    then have "(ru_ID rule, sp_EventName spec) \<noteq> (i, n)" using st by auto
    then show ?thesis using Inr None c clock_stands_record [OF c] by (simp add: sweep_rule_def)
  next
    case (Some s)
    then have "ru_ID rule = i \<Longrightarrow> s = t" using n [OF _ Inr] st by auto
    then show ?thesis using Inr Some c clock_stands_fire [OF c] by (simp add: sweep_rule_def)
  qed
qed

lemma clock_stands_sweep:
  assumes c: "clock_stands i n t w" and op: "silent_op cd i n (OSweep ms lr now dbNow)"
  shows "clock_stands i n t (fst (SweepAbsence cd isAbsence ms lr now dbNow w))"
proof -
  obtain w1 r where l: "ListAbsenceState w = (w1, r)" by fastforce
  have w1: "clock_stands i n t w1" and st: "\<And>stored. r = Inr stored \<Longrightarrow> map_of stored (i, n) = Some t"
    using c l by (auto simp: ListAbsenceState_def clock_stands_def dispatched_keys_def sql_def Let_def split: option.splits)
  have mon: "clock_stands i n t (sweep_monitor cd isAbsence lr now dbNow stored m v)" if "map_of stored (i, n) = Some t" "clock_stands i n t v" for v stored m
  proof (cases "lr (mo_ID m)")
    case (Inr rs)
    have "clock_stands i n t (fold (sweep_rule cd isAbsence now dbNow stored m) rs v)"
      by (rule fold_keeps [where P = "clock_stands i n t"]) (use Inr op that in \<open>auto simp: silent_op_def intro!: clock_stands_sweep_rule\<close>)
    then show ?thesis using Inr by (simp add: sweep_monitor_def)
  qed (simp add: sweep_monitor_def that)
  have loop: "clock_stands i n t (fold (sweep_monitor cd isAbsence lr now dbNow stored) xs w1)" if "map_of stored (i, n) = Some t" for stored xs
    using fold_keeps [where P = "clock_stands i n t" and f = "sweep_monitor cd isAbsence lr now dbNow stored"] mon [OF that] w1 by blast
  show ?thesis
  proof (cases "\<exists>x xs stored. ms = Inr (x # xs) \<and> r = Inr stored")
    case True
    then obtain x xs stored where "ms = Inr (x # xs)" "r = Inr stored" by blast
    then show ?thesis using l loop [OF st, of stored "x # xs"] by (simp add: SweepAbsence_def sbind_def)
  next
    case False
    then show ?thesis using c w1 l by (auto simp: SweepAbsence_def sfail_def sreturn_def sbind_def split: sum.splits list.splits)
  qed
qed

lemma clock_stands_observe:
  assumes c: "clock_stands i n t w" and op: "silent_op cd i n (OObserve now rule ev)"
  shows "clock_stands i n t (fst (observeAbsence cd now rule ev w))"
proof (cases "Absence_Spec cd (ru_Params rule)")
  case (Inl a)
  then show ?thesis using c by (simp add: observeAbsence_def)
next
  case (Inr spec)
  show ?thesis
  proof (cases "Absence_Matches ev spec")
    case False
    then show ?thesis using Inr c by (simp add: observeAbsence_def)
  next
    case True
    then have "ru_ID rule \<noteq> i" using op Inr by (auto simp: silent_op_def)
    then have "clock_stands i n t (fst (RecordAbsenceSeen (ru_ID rule) (sp_EventName spec) now w))" by (intro clock_stands_record [OF c]) simp
    moreover have "fst (observeAbsence cd now rule ev w) = fst (RecordAbsenceSeen (ru_ID rule) (sp_EventName spec) now w)"
      using Inr True by (auto simp: observeAbsence_def split: prod.splits sum.splits)
    ultimately show ?thesis by simp
  qed
qed

lemma absence_ok_run: "absence_ok w \<Longrightarrow> absence_ok (absence_run cd isAbsence ops w)"
proof (induction cd isAbsence ops w rule: absence_run.induct)
  case (3 cd isAbsence now rule ev ops w)
  have "absence_ok (fst (observeAbsence cd now rule ev w))" using 3(2) absence_ok_record[OF 3(2)]
    by (auto simp: observeAbsence_def split: sum.splits prod.splits) (metis fst_conv)+
  then show ?case using 3(1) by simp
qed (simp_all add: absence_ok_sweep)

lemma clock_stands_run: "clock_stands i n t w \<Longrightarrow> list_all (silent_op cd i n) ops \<Longrightarrow> clock_stands i n t (absence_run cd isAbsence ops w)"
  by (induction cd isAbsence ops w rule: absence_run.induct) (simp_all add: clock_stands_sweep clock_stands_observe)

lemma one_key:
  assumes "distinct xs" "\<forall>x \<in> set xs. P x \<longrightarrow> x = y"
  shows "filter P xs \<in> {[], [y]}"
proof -
  have "set (filter P xs) \<subseteq> {y}" "distinct (filter P xs)" using assms by auto
  then show ?thesis by (cases "filter P xs" rule: list.exhaust; cases "tl (filter P xs)") auto
qed

text \<open>
  C9. A silent window alerts at most once, however often it is swept. Let the clock of rule \<open>i\<close> stand at \<open>t\<close>, and let any number
  of sweeps at any times follow, over any monitors and rules, among events that are not the one awaited, with any
  statements failing. Then of all that is handed to the dispatcher at most one alert is the rule's, and it is the one for
  the silence that began at \<open>t\<close>. Over any sequence of sweeps and events no two alerts handed over are for the same
  rule and start of silence.
\<close>

theorem one_absence_alert_per_silent_window:
  assumes "pw_dispatched w = []"
  shows "distinct (dispatched_keys (absence_run cd isAbsence ops w))
    \<and> (map_of (pd_absence w) (i, n) = Some t \<longrightarrow> list_all (silent_op cd i n) ops \<longrightarrow>
         filter (\<lambda>k. fst k = i) (dispatched_keys (absence_run cd isAbsence ops w)) \<in> {[], [(i, AbsenceEventID t)]})"
proof -
  have "absence_ok w" using assms by (simp add: absence_ok_def dispatched_keys_def)
  from absence_ok_run [OF this] have d: "distinct (dispatched_keys (absence_run cd isAbsence ops w))" by (simp add: absence_ok_def)
  moreover have "filter (\<lambda>k. fst k = i) (dispatched_keys (absence_run cd isAbsence ops w)) \<in> {[], [(i, AbsenceEventID t)]}"
    if "map_of (pd_absence w) (i, n) = Some t" "list_all (silent_op cd i n) ops"
  proof (rule one_key [OF d])
    have "clock_stands i n t w" using that(1) assms by (simp add: clock_stands_def dispatched_keys_def)
    from clock_stands_run [OF this that(2), of isAbsence]
    show "\<forall>k \<in> set (dispatched_keys (absence_run cd isAbsence ops w)). fst k = i \<longrightarrow> k = (i, AbsenceEventID t)"
      by (auto simp: clock_stands_def)
  qed
  ultimately show ?thesis by blast
qed

subsection \<open>Silence is noticed\<close>


















definition demo_codec :: codec where
  "demo_codec = \<lparr>cd_object = (\<lambda>p. None), cd_absence = (\<lambda>p. Inr (''heartbeat'', ''30m'')), cd_parseDuration = (\<lambda>s. Inr (1800 * second)),
     cd_json = (\<lambda>v. ''{}''), cd_rfc3339 = (\<lambda>t. ''''), cd_seconds = (\<lambda>d. d div second)\<rparr>"

definition demo_absence_rule :: Rule where
  "demo_absence_rule = \<lparr>ru_ID = 1, ru_Type = ''absence_of_event'', ru_Params = ''p'', ru_Version = 1, ru_Severity = '''', ru_RunbookURL = '''',
     ru_ResponseGuidance = ''''\<rparr>"

definition demo_absence_monitor :: Monitor where
  "demo_absence_monitor = \<lparr>mo_ID = 3, mo_WorkspaceID = ''acme'', mo_Name = ''m'', mo_Network = ''testnet'', mo_ContractIDs = [''C1''],
     mo_Priority = '''', mo_RunbookURL = '''', mo_ResponseGuidance = ''''\<rparr>"

definition demo_out :: PollOut where
  "demo_out = PollDB.extend (demo_poll_db\<lparr>pd_absence := [((1, ''heartbeat''), 5 * second)]\<rparr>) (PollOut.fields [])"

lemma demo_spec: "Absence_Spec demo_codec ''p'' = Inr \<lparr>sp_EventName = ''heartbeat'', sp_Window = 1800 * second\<rparr>"
  by code_simp


theorem one_absence_alert_per_silent_window_witness:
  "filter (\<lambda>k. fst k = 1) (dispatched_keys (absence_run demo_codec (\<lambda>t. t = ''absence_of_event'')
     [OSweep (Inr [demo_absence_monitor]) (\<lambda>i. Inr [demo_absence_rule]) (1805 * second) 7,
      OSweep (Inr [demo_absence_monitor]) (\<lambda>i. Inr [demo_absence_rule]) (1806 * second) 8] demo_out)) \<in> {[], [(1, AbsenceEventID (5 * second))]}"
proof -
  have "pw_dispatched demo_out = []" "map_of (pd_absence demo_out) (1, ''heartbeat'') = Some (5 * second)"
    by (simp_all add: demo_out_def demo_poll_db_def PollDB.defs PollOut.defs)
  moreover have "sp_EventName spec = ''heartbeat''" if "Absence_Spec demo_codec (ru_Params demo_absence_rule) = Inr spec" for spec
    using that demo_spec by (auto simp: demo_absence_rule_def)
  ultimately show ?thesis
    using one_absence_alert_per_silent_window [of demo_out demo_codec "\<lambda>t. t = ''absence_of_event''"
        "[OSweep (Inr [demo_absence_monitor]) (\<lambda>i. Inr [demo_absence_rule]) (1805 * second) 7,
          OSweep (Inr [demo_absence_monitor]) (\<lambda>i. Inr [demo_absence_rule]) (1806 * second) 8]" 1 "''heartbeat''" "5 * second"]
    by (simp add: silent_op_def)
qed

text \<open>
  The comment on the suppressed branch of \<open>fireAbsence\<close> says the rule's cooldown covers absence rules; the alert is written
  without one, so that branch is never taken.
\<close>

lemma absence_alert_never_suppressed:
  "createAlert dbNow Default None (absence_alert cd m rule spec t d) w = (w', Inr (out, b)) \<Longrightarrow> out \<noteq> AlertSuppressed"
  using createAlert_refines_gate [of dbNow Default None "absence_alert cd m rule spec t d" w w' "Inr (out, b)"]
  by (auto simp: gate_create_def split: if_splits)

end
