(* ===== verification/Event_Handling.thy ===== *)
theory Event_Handling
  imports Absence_Rule Rule_Isolation
begin

text \<open>
  What the poller does with one event: \<open>handleEvent\<close> and \<open>fireAlert\<close> of \<open>internal/poller/poller.go\<close>,
  \<open>listRulesForCycle\<close> of \<open>internal/poller/rule_snapshot.go\<close>, and \<open>orderMonitorsByWorkspaceFairness\<close>, \<open>Handle\<close> and
  \<open>fireAlert\<close> of \<open>internal/poller/ingest.go\<close>, on the registry of \<open>Rule_Isolation\<close> and the store of \<open>Alert_Store\<close>.

  The state is the database, the registry, the rules read so far in the cycle, and what was handed to the dispatcher and
  the live stream. Two fields are history: \<open>pw_answers\<close>, every question put to the registry with the answer it gave, and
  \<open>pw_trace\<close>, for every rule of every monitor that was looked at, what became of it.
  \<open>pw_tick\<close> counts the questions put to the environment, so that a clock reading, a database answer or an evaluation
  may differ every time. Metrics, usage counters, spans and log lines are not modelled.
\<close>

subsection \<open>The order of the monitors\<close>

fun first_seen :: "string list \<Rightarrow> string list \<Rightarrow> string list" where
  "first_seen acc [] = acc"
| "first_seen acc (w # ws) = first_seen (if w \<in> set acc then acc else acc @ [w]) ws"

definition of_workspace :: "string \<Rightarrow> Monitor list \<Rightarrow> Monitor list" where
  "of_workspace ws monitors = filter (\<lambda>m. mo_WorkspaceID m = ws) monitors"

definition fair_round :: "string list \<Rightarrow> Monitor list \<Rightarrow> nat \<Rightarrow> Monitor list" where
  "fair_round workspaces monitors idx =
     concat (map (\<lambda>ws. let l = of_workspace ws monitors in if idx < length l then [l ! idx] else []) workspaces)"

partial_function (option) fair_loop :: "string list \<Rightarrow> Monitor list \<Rightarrow> nat \<Rightarrow> Monitor list \<Rightarrow> Monitor list option" where
  "fair_loop workspaces monitors idx out =
     (if length out < length monitors
      then fair_loop workspaces monitors (idx + 1) (out @ fair_round workspaces monitors idx)
      else Some out)"

definition orderMonitorsByWorkspaceFairness :: "Monitor list \<Rightarrow> Monitor list option" where
  "orderMonitorsByWorkspaceFairness monitors =
     (if length monitors \<le> 1 then Some monitors
      else let workspaces = first_seen [] (map mo_WorkspaceID monitors) in
           if length workspaces \<le> 1 then Some monitors else fair_loop workspaces monitors 0 [])"

lemma first_seen_set: "set (first_seen acc ws) = set acc \<union> set ws"
  by (induction acc ws rule: first_seen.induct) auto

lemma first_seen_distinct: "distinct acc \<Longrightarrow> distinct (first_seen acc ws)"
  by (induction acc ws rule: first_seen.induct) auto

definition fair_rounds :: "string list \<Rightarrow> Monitor list \<Rightarrow> nat \<Rightarrow> Monitor list" where
  "fair_rounds wss ms n = concat (map (fair_round wss ms) [0..<n])"

lemma fair_rounds_Suc: "fair_rounds wss ms (Suc n) = fair_rounds wss ms n @ fair_round wss ms n"
  by (simp add: fair_rounds_def)

lemma of_workspace_fair_round:
  assumes "distinct wss"
  shows "of_workspace ws (fair_round wss ms idx) =
    (if ws \<in> set wss \<and> idx < length (of_workspace ws ms) then [of_workspace ws ms ! idx] else [])"
proof -
  have own: "mo_WorkspaceID (of_workspace v ms ! idx) = v" if "idx < length (of_workspace v ms)" for v
    using nth_mem [OF that] by (simp add: of_workspace_def)
  show ?thesis using assms
  proof (induction wss)
    case Nil
    then show ?case by (simp add: fair_round_def of_workspace_def)
  next
    case (Cons v vs)
    have "of_workspace ws (if idx < length (of_workspace v ms) then [of_workspace v ms ! idx] else []) =
      (if ws = v \<and> idx < length (of_workspace v ms) then [of_workspace v ms ! idx] else [])"
      using own [of v] by (auto simp: of_workspace_def)
    moreover have "fair_round (v # vs) ms idx = (if idx < length (of_workspace v ms) then [of_workspace v ms ! idx] else []) @ fair_round vs ms idx"
      by (simp add: fair_round_def Let_def)
    moreover have "of_workspace ws (xs @ ys) = of_workspace ws xs @ of_workspace ws ys" for xs ys by (simp add: of_workspace_def)
    ultimately show ?case using Cons by auto
  qed
qed

lemma of_workspace_fair_rounds:
  assumes "distinct wss" "ws \<in> set wss"
  shows "of_workspace ws (fair_rounds wss ms n) = take n (of_workspace ws ms)"
proof (induction n)
  case 0
  then show ?case by (simp add: fair_rounds_def of_workspace_def)
next
  case (Suc n)
  have "of_workspace ws (xs @ ys) = of_workspace ws xs @ of_workspace ws ys" for xs ys by (simp add: of_workspace_def)
  then show ?case using Suc of_workspace_fair_round [OF assms(1), of ws ms n] assms(2)
    by (simp add: fair_rounds_Suc take_Suc_conv_app_nth)
qed

lemma length_fair_round: "length (fair_round wss ms idx) \<le> length wss"
  unfolding fair_round_def by (induction wss) (auto simp: Let_def)

lemma length_fair_rounds: "length (fair_rounds wss ms n) \<le> n * length wss"
proof (induction n)
  case (Suc n)
  then show ?case using length_fair_round [of wss ms n] by (simp add: fair_rounds_Suc)
qed (simp add: fair_rounds_def)

lemma fair_rounds_prefix: "n \<le> n' \<Longrightarrow> \<exists>rest. fair_rounds wss ms n' = fair_rounds wss ms n @ rest"
proof (induction n')
  case (Suc k)
  then show ?case by (cases "n = Suc k") (auto simp: fair_rounds_Suc)
qed simp

lemma fair_round_workspaces: "m \<in> set (fair_round wss ms idx) \<Longrightarrow> mo_WorkspaceID m \<in> set wss"
  using nth_mem by (fastforce simp: fair_round_def of_workspace_def Let_def split: if_splits)

lemma fair_rounds_workspaces: "m \<in> set (fair_rounds wss ms n) \<Longrightarrow> mo_WorkspaceID m \<in> set wss"
  using fair_round_workspaces by (auto simp: fair_rounds_def)

text \<open>A list is determined up to order by its share of every workspace.\<close>

lemma mset_by_workspace:
  assumes "\<And>ws. of_workspace ws xs = of_workspace ws ys"
  shows "mset xs = mset ys"
proof (rule multiset_eqI)
  fix m
  have c: "count (mset zs) m = count (mset (of_workspace (mo_WorkspaceID m) zs)) m" for zs
    unfolding of_workspace_def by simp
  show "count (mset xs) m = count (mset ys) m" using c [of xs] c [of ys] assms by simp
qed

lemma fair_rounds_complete:
  assumes "distinct wss" "\<forall>m \<in> set ms. mo_WorkspaceID m \<in> set wss" "length ms \<le> n"
  shows "mset (fair_rounds wss ms n) = mset ms"
proof (rule mset_by_workspace)
  fix ws
  show "of_workspace ws (fair_rounds wss ms n) = of_workspace ws ms"
  proof (cases "ws \<in> set wss")
    case True
    have "length (of_workspace ws ms) \<le> n" using assms(3) by (simp add: of_workspace_def) (meson length_filter_le order_trans)
    then show ?thesis using of_workspace_fair_rounds [OF assms(1) True, of ms n] by simp
  next
    case False
    then have "of_workspace ws ms = []" using assms(2) by (auto simp: of_workspace_def filter_empty_conv)
    moreover have "of_workspace ws (fair_rounds wss ms n) = []" using False fair_rounds_workspaces by (fastforce simp: of_workspace_def filter_empty_conv)
    ultimately show ?thesis by simp
  qed
qed

lemma fair_loop_returns:
  assumes "distinct wss" "\<forall>m \<in> set ms. mo_WorkspaceID m \<in> set wss"
  shows "\<exists>n. fair_loop wss ms i (fair_rounds wss ms i) = Some (fair_rounds wss ms n) \<and> length ms \<le> length (fair_rounds wss ms n)"
proof (induction "length ms - i" arbitrary: i rule: less_induct)
  case less
  show ?case
  proof (cases "length (fair_rounds wss ms i) < length ms")
    case False
    then show ?thesis by (intro exI [of _ i]) (simp add: fair_loop.simps)
  next
    case True
    have "i < length ms"
    proof (rule ccontr)
      assume "\<not> i < length ms"
      then have "mset (fair_rounds wss ms i) = mset ms" using fair_rounds_complete [OF assms] by simp
      then show False using True mset_eq_length by force
    qed
    then have "length ms - Suc i < length ms - i" by simp
    from less [OF this] True show ?thesis by (simp add: fair_loop.simps [of _ _ i] fair_rounds_Suc)
  qed
qed

lemma fair_rounds_full:
  assumes "distinct wss" "\<forall>m \<in> set ms. mo_WorkspaceID m \<in> set wss" "length ms \<le> length (fair_rounds wss ms n)"
  shows "mset (fair_rounds wss ms n) = mset ms"
proof -
  define N where "N = max n (length ms)"
  have all: "mset (fair_rounds wss ms N) = mset ms" using fair_rounds_complete [OF assms(1,2)] by (simp add: N_def)
  obtain rest where rest: "fair_rounds wss ms N = fair_rounds wss ms n @ rest" using fair_rounds_prefix [of n N wss ms] by (auto simp: N_def)
  have "length (fair_rounds wss ms N) = length ms" using all mset_eq_length by blast
  then have "length (fair_rounds wss ms n) + length rest = length ms" using rest by simp
  then have "rest = []" using assms(3) by (cases rest) auto
  then show ?thesis using all rest by simp
qed

text \<open>
  A fair order of the monitors: all of them, each workspace's in their given order, and the first \<open>k + 1\<close> monitors of a
  workspace among the first \<open>k + 1\<close> rounds over the workspaces.
\<close>

definition fair_order :: "Monitor list \<Rightarrow> Monitor list \<Rightarrow> bool" where
  "fair_order ms out \<longleftrightarrow> mset out = mset ms \<and> (\<forall>ws. of_workspace ws out = of_workspace ws ms)
     \<and> (\<forall>ws k. k < length (of_workspace ws ms) \<longrightarrow>
          k < length (of_workspace ws (take (Suc k * card (mo_WorkspaceID ` set ms)) out)))"

lemma fair_rounds_fair:
  assumes "distinct wss" "set wss = mo_WorkspaceID ` set ms" "length ms \<le> length (fair_rounds wss ms n)"
  shows "fair_order ms (fair_rounds wss ms n)"
proof -
  have mem: "\<forall>m \<in> set ms. mo_WorkspaceID m \<in> set wss" using assms(2) by auto
  have ms: "mset (fair_rounds wss ms n) = mset ms" by (rule fair_rounds_full [OF assms(1) mem assms(3)])
  have W: "card (mo_WorkspaceID ` set ms) = length wss" using assms(1,2) distinct_card by metis
  have own: "of_workspace ws (fair_rounds wss ms n) = of_workspace ws ms" for ws
  proof (cases "ws \<in> set wss")
    case True
    have "mset (of_workspace ws (fair_rounds wss ms n)) = mset (of_workspace ws ms)" using ms by (simp add: of_workspace_def)
    then have "length (take n (of_workspace ws ms)) = length (of_workspace ws ms)"
      using of_workspace_fair_rounds [OF assms(1) True, of ms n] by (metis mset_eq_length)
    then show ?thesis using of_workspace_fair_rounds [OF assms(1) True, of ms n] by simp
  next
    case False
    then have "of_workspace ws ms = []" using mem by (auto simp: of_workspace_def filter_empty_conv)
    moreover have "of_workspace ws (fair_rounds wss ms n) = []" using False fair_rounds_workspaces by (fastforce simp: of_workspace_def filter_empty_conv)
    ultimately show ?thesis by simp
  qed
  have "k < length (of_workspace ws (take (Suc k * length wss) (fair_rounds wss ms n)))" if k: "k < length (of_workspace ws ms)" for ws k
  proof -
    have ws: "ws \<in> set wss" using k mem by (cases "of_workspace ws ms") (auto simp: of_workspace_def filter_eq_Cons_iff)
    have "take n (of_workspace ws ms) = of_workspace ws ms" using of_workspace_fair_rounds [OF assms(1) ws, of ms n] own by simp
    then have "length (of_workspace ws ms) \<le> n" by (metis length_take min.cobounded2)
    then obtain rest where rest: "fair_rounds wss ms n = fair_rounds wss ms (Suc k) @ rest"
      using fair_rounds_prefix [of "Suc k" n wss ms] k by auto
    have "take (Suc k * length wss) (fair_rounds wss ms n) = fair_rounds wss ms (Suc k) @ take (Suc k * length wss - length (fair_rounds wss ms (Suc k))) rest"
      using length_fair_rounds [of wss ms "Suc k"] by (simp add: rest)
    then have "length (of_workspace ws (fair_rounds wss ms (Suc k))) \<le> length (of_workspace ws (take (Suc k * length wss) (fair_rounds wss ms n)))"
      by (simp add: of_workspace_def)
    then show ?thesis using of_workspace_fair_rounds [OF assms(1) ws, of ms "Suc k"] k by simp
  qed
  then show ?thesis using ms own W by (simp add: fair_order_def)
qed

lemma single_workspace_fair:
  assumes "card (mo_WorkspaceID ` set ms) \<le> 1"
  shows "fair_order ms ms"
proof -
  have "k < length (of_workspace ws (take (Suc k * card (mo_WorkspaceID ` set ms)) ms))" if k: "k < length (of_workspace ws ms)" for ws k
  proof -
    have ne: "ms \<noteq> []" using k by (auto simp: of_workspace_def)
    then have "card (mo_WorkspaceID ` set ms) = 1" using assms by (metis List.finite_set card_0_eq finite_imageI image_is_empty le_antisym less_one not_less set_empty)
    then obtain v where v: "mo_WorkspaceID ` set ms = {v}" by (auto simp: card_1_singleton_iff)
    have all: "of_workspace ws xs = (if ws = v then xs else [])" if "set xs \<subseteq> set ms" for xs
      using that v by (auto simp: of_workspace_def filter_id_conv filter_empty_conv)
    then show ?thesis using k v \<open>card _ = 1\<close> all [of ms] all [of "take (Suc k) ms"] set_take_subset [of "Suc k" ms] by (auto split: if_splits)
  qed
  then show ?thesis by (simp add: fair_order_def)
qed

lemma order_returns:
  "\<exists>out. orderMonitorsByWorkspaceFairness monitors = Some out \<and> fair_order monitors out"
proof -
  let ?wss = "first_seen [] (map mo_WorkspaceID monitors)"
  have wss: "distinct ?wss" "set ?wss = mo_WorkspaceID ` set monitors" by (simp_all add: first_seen_distinct first_seen_set)
  then have W: "card (mo_WorkspaceID ` set monitors) = length ?wss" by (metis distinct_card)
  show ?thesis
  proof (cases "length monitors \<le> 1 \<or> length ?wss \<le> 1")
    case True
    have "card (mo_WorkspaceID ` set monitors) \<le> 1"
      using True W card_image_le [of "set monitors" mo_WorkspaceID] card_length [of monitors] by force
    then show ?thesis using True single_workspace_fair by (auto simp: orderMonitorsByWorkspaceFairness_def Let_def)
  next
    case False
    obtain n where n: "fair_loop ?wss monitors 0 (fair_rounds ?wss monitors 0) = Some (fair_rounds ?wss monitors n)"
      "length monitors \<le> length (fair_rounds ?wss monitors n)"
      using fair_loop_returns [of ?wss monitors 0] wss by auto
    have "fair_order monitors (fair_rounds ?wss monitors n)" by (rule fair_rounds_fair [OF wss n(2)])
    then show ?thesis using False n(1) by (simp add: orderMonitorsByWorkspaceFairness_def Let_def fair_rounds_def)
  qed
qed

text \<open>
  C19. The monitors of an event are interleaved fairly and the loop that does it ends: the result holds every monitor
  once, keeps each workspace's own order, and with \<open>n\<close> workspaces the \<open>k\<close>-th monitor of any of them is among the
  first \<open>k * n\<close>, however many the others have.
\<close>

theorem monitors_are_served_round_robin:
  "\<exists>out. orderMonitorsByWorkspaceFairness monitors = Some out \<and> fair_order monitors out"
  by (rule order_returns)

subsection \<open>The state and its environment\<close>

datatype rule_result =
    RAbsence bool
  | RBudget
  | RIsolated iso_err
  | RStorage iso_err
  | RNoMatch
  | RAlert AlertOutcome string
  | RCreateFailed string

datatype trace_entry =
    TRule DecodedEvent Monitor Rule rule_result
  | TListFailed DecodedEvent Monitor

record 's PollWorld = PollOut +
  pw_registry :: "'s registry"
  pw_rules :: "(int \<times> Rule list) list"
  pw_published :: "StoreAlert list"
  pw_tick :: nat
  pw_trace :: "trace_entry list"
  pw_answers :: "(Rule \<times> DecodedEvent \<times> (iso_err + bool)) list"

record 's handle_env =
  he_codec :: codec
  he_byContract :: "string \<Rightarrow> Monitor list option"
  he_listRules :: "nat \<Rightarrow> int \<Rightarrow> string + Rule list"
  he_isAbsence :: "string \<Rightarrow> bool"
  he_budget :: duration
  he_run :: "nat \<Rightarrow> Rule \<Rightarrow> DecodedEvent \<Rightarrow> 's \<Rightarrow> 's eval_run"
  he_none :: 's
  he_durText :: "duration \<Rightarrow> string"
  he_order :: "nat \<Rightarrow> int list"
  he_now :: "nat \<Rightarrow> gtime"
  he_elapsed :: "nat \<Rightarrow> duration"
  he_alertEventID :: "Rule \<Rightarrow> DecodedEvent \<Rightarrow> 's \<Rightarrow> string"
  he_marshalErr :: "gvalue \<Rightarrow> string option"

definition tick :: "'s PollWorld \<Rightarrow> 's PollWorld" where
  "tick w = w\<lparr>pw_tick := pw_tick w + 1\<rparr>"

definition noted :: "trace_entry \<Rightarrow> 's PollWorld \<Rightarrow> 's PollWorld" where
  "noted t w = w\<lparr>pw_trace := pw_trace w @ [t]\<rparr>"

text \<open>\<open>listRulesForCycle\<close>: the first answer of the cycle is kept.\<close>

definition listRulesForCycle :: "'s handle_env \<Rightarrow> int \<Rightarrow> 's PollWorld \<Rightarrow> 's PollWorld \<times> (string + Rule list)" where
  "listRulesForCycle env monitorID w =
     (case map_of (pw_rules w) monitorID of
        Some rs \<Rightarrow> (w, Inr rs)
      | None \<Rightarrow>
          (case he_listRules env (pw_tick w) monitorID of
             Inl e \<Rightarrow> (tick w, Inl e)
           | Inr rs \<Rightarrow> ((tick w)\<lparr>pw_rules := (monitorID, rs) # pw_rules w\<rparr>, Inr rs)))"

subsection \<open>Raising an alert\<close>

text \<open>The payload. Whether \<open>json.Marshal\<close> refuses it (a close time outside the years 0 to 9999) is up to the environment.\<close>

definition event_payload :: "codec \<Rightarrow> DecodedEvent \<Rightarrow> gvalue" where
  "event_payload cd ev =
     GMap ([(''contract_id'', GStr (de_ContractID ev)), (''event_name'', GStr (EventName ev)), (''ledger'', GInt (uint (de_Ledger ev))),
            (''ledger_closed_at'', GStr (cd_rfc3339 cd (de_LedgerClosedAt ev))), (''tx_hash'', GStr (de_TxHash ev)),
            (''topics'', GList (de_Topics ev)), (''value'', de_Value ev)]
           @ (case de_Fields ev of None \<Rightarrow> [] | Some f \<Rightarrow> [(''fields'', f)]))"

definition alert_of :: "codec \<Rightarrow> Monitor \<Rightarrow> Rule \<Rightarrow> DecodedEvent \<Rightarrow> string \<Rightarrow> bool \<Rightarrow> StoreAlert" where
  "alert_of cd m rule ev eventID backfilled =
     (let (url, text) = ResolveAlertGuidance cd rule m in
      store_alert0\<lparr>ar_MonitorID := mo_ID m, ar_RuleID := ru_ID rule, ar_EventID := eventID,
        ar_Payload := WithGuidance (event_payload cd ev) url text, ar_Ledger := de_Ledger ev, sa_LedgerClosedAt := de_LedgerClosedAt ev,
        sa_Cooldown := ruleCooldown cd rule, ar_Backfilled := backfilled, ar_Severity := ru_Severity rule, ar_RuleVersion := ru_Version rule,
        ar_RunbookURL := url, ar_ResponseGuidance := text\<rparr>)"

text \<open>The notification; the poller's leaves the severity out, the ingestor's leaves the group count out.\<close>

definition notify_alert :: "codec \<Rightarrow> Monitor \<Rightarrow> Rule \<Rightarrow> DecodedEvent \<Rightarrow> string \<Rightarrow> StoreAlert \<Rightarrow> alert" where
  "notify_alert cd m rule ev eventID a =
     alert0\<lparr>al_ID := ar_ID a, al_MonitorID := mo_ID m, al_MonitorName := mo_Name m, al_RuleID := ru_ID rule, al_RuleType := ru_Type rule,
       al_EventID := eventID, al_ContractID := de_ContractID ev, al_EventName := EventName ev, al_Ledger := uint (de_Ledger ev),
       al_TxHash := de_TxHash ev, al_Payload := cd_json cd (ar_Payload a), al_CreatedAt := ar_CreatedAt a,
       al_RunbookURL := ar_RunbookURL a, al_ResponseGuidance := ar_ResponseGuidance a\<rparr>"

definition fireAlert ::
  "'s handle_env \<Rightarrow> Monitor \<Rightarrow> Rule \<Rightarrow> DecodedEvent \<Rightarrow> string \<Rightarrow> 's PollWorld \<Rightarrow> 's PollWorld \<times> rule_result" where
  "fireAlert env m rule ev eventID w =
     (case he_marshalErr env (event_payload (he_codec env) ev) of Some e \<Rightarrow> (w, RCreateFailed e) | None \<Rightarrow>
      case createAlert (he_now env (pw_tick w)) Default None (alert_of (he_codec env) m rule ev eventID False) (tick w) of
        (w', Inl e) \<Rightarrow> (w', RCreateFailed e)
      | (w', Inr (AlertCreated, a)) \<Rightarrow>
          (w'\<lparr>pw_published := pw_published w' @ [a],
              pw_dispatched := pw_dispatched w' @ [(notify_alert (he_codec env) m rule ev eventID a)\<lparr>al_GroupCount := 1\<rparr>]\<rparr>,
           RAlert AlertCreated eventID)
      | (w', Inr (out, a)) \<Rightarrow> (w', RAlert out eventID))"

subsection \<open>One event\<close>

text \<open>The registry's \<open>Evaluate\<close>, and the verdict of the poller on one evaluation.\<close>

definition evaluate_rule :: "'s handle_env \<Rightarrow> Rule \<Rightarrow> DecodedEvent \<Rightarrow> 's PollWorld \<Rightarrow> 's PollWorld \<times> (iso_err + bool)" where
  "evaluate_rule env rule ev w =
     (let n = pw_tick w;
          (reg, answer, hooks) = evaluateIsolated (he_durText env) (he_none env) (he_order env n) (he_now env n) (ru_ID rule) (ru_Version rule)
                                   (ru_Type rule) (he_run env n rule ev) (pw_registry w)
      in ((tick w)\<lparr>pw_registry := reg, pw_answers := pw_answers w @ [(rule, ev, answer)]\<rparr>, answer))"

definition alert_event_id :: "'s handle_env \<Rightarrow> Rule \<Rightarrow> DecodedEvent \<Rightarrow> 's PollWorld \<Rightarrow> string" where
  "alert_event_id env rule ev w =
     (let i = he_alertEventID env rule ev (rg_states (pw_registry w) (ru_ID rule)) in if i = '''' then de_ID ev else i)"

definition run_rule :: "'s handle_env \<Rightarrow> Monitor \<Rightarrow> DecodedEvent \<Rightarrow> Rule \<Rightarrow> 's PollWorld \<Rightarrow> 's PollWorld \<times> rule_result" where
  "run_rule env m ev rule w =
     (case evaluate_rule env rule ev w of
        (w1, Inl err) \<Rightarrow> (w1, if IsRuleIsolatedFailure (Some err) then RIsolated err else RStorage err)
      | (w1, Inr False) \<Rightarrow> (w1, RNoMatch)
      | (w1, Inr True) \<Rightarrow> fireAlert env m rule ev (alert_event_id env rule ev w1) w1)"

definition settled :: "rule_result \<Rightarrow> bool" where
  "settled r = (case r of RAbsence ok \<Rightarrow> ok | RStorage e \<Rightarrow> False | RCreateFailed e \<Rightarrow> False | _ \<Rightarrow> True)"

type_synonym 's handling = "'s PollWorld \<times> (string \<Rightarrow> duration) \<times> bool"

definition handle_rule :: "'s handle_env \<Rightarrow> Monitor \<Rightarrow> DecodedEvent \<Rightarrow> Rule \<Rightarrow> 's handling \<Rightarrow> 's handling" where
  "handle_rule env m ev rule st =
     (case st of (w, elapsed, processed) \<Rightarrow>
      if he_isAbsence env (ru_Type rule)
      then (case observeAbsence (he_codec env) (he_now env (pw_tick w)) rule ev (tick w) of
              (w1, ok) \<Rightarrow> (noted (TRule ev m rule (RAbsence ok)) w1, elapsed, processed \<and> ok))
      else if 0 < he_budget env \<and> he_budget env \<le> elapsed (mo_WorkspaceID m)
      then (noted (TRule ev m rule RBudget) w, elapsed, processed)
      else (case run_rule env m ev rule w of
              (w1, res) \<Rightarrow>
                (noted (TRule ev m rule res) w1,
                 elapsed(mo_WorkspaceID m := elapsed (mo_WorkspaceID m) + he_elapsed env (pw_tick w)),
                 processed \<and> settled res)))"

definition handle_monitor :: "'s handle_env \<Rightarrow> DecodedEvent \<Rightarrow> Monitor \<Rightarrow> 's handling \<Rightarrow> 's handling" where
  "handle_monitor env ev m st =
     (case st of (w, elapsed, processed) \<Rightarrow>
      (case listRulesForCycle env (mo_ID m) w of
         (w1, Inl e) \<Rightarrow> (noted (TListFailed ev m) w1, elapsed, False)
       | (w1, Inr rs) \<Rightarrow> fold (handle_rule env m ev) rs (w1, elapsed, processed)))"

definition handleEvent :: "'s handle_env \<Rightarrow> DecodedEvent \<Rightarrow> 's PollWorld \<Rightarrow> 's PollWorld \<times> bool" where
  "handleEvent env ev w =
     (case he_byContract env (de_ContractID ev) of
        None \<Rightarrow> (w, True)
      | Some monitors \<Rightarrow>
          (case fold (handle_monitor env ev) (the (orderMonitorsByWorkspaceFairness monitors)) (w, \<lambda>ws. 0, True) of
             (w', elapsed, processed) \<Rightarrow> (w', processed)))"

subsection \<open>Nothing is skipped\<close>

text \<open>The rows of the alert table, by rule and event; the same key as in the dispatcher's list \<open>dispatched_keys\<close>.\<close>

definition row_keys :: "'s PollWorld \<Rightarrow> (int \<times> string) list" where
  "row_keys w = map (\<lambda>r. (ar_RuleID r, ar_EventID r)) (db_alerts w)"

text \<open>How the state may change while an event is handled.\<close>

definition history_grows :: "'s PollWorld \<Rightarrow> 's PollWorld \<Rightarrow> bool" where
  "history_grows w w' \<longleftrightarrow>
     (\<exists>tr. pw_trace w' = pw_trace w @ tr) \<and> (\<exists>as. pw_answers w' = pw_answers w @ as) \<and> (\<exists>ds. dispatched_keys w' = dispatched_keys w @ ds) \<and>
     (\<forall>i rs. map_of (pw_rules w) i = Some rs \<longrightarrow> map_of (pw_rules w') i = Some rs) \<and>
     (\<forall>i. ag_keys (abs_gate i w) \<subseteq> ag_keys (abs_gate i w'))"

definition evolves :: "'s PollWorld \<Rightarrow> 's PollWorld \<Rightarrow> bool" where
  "evolves w w' \<longleftrightarrow> history_grows w w' \<and> db_cursors w' = db_cursors w \<and> db_monitored w' = db_monitored w"

lemma history_grows_trans: "history_grows a b \<Longrightarrow> history_grows b c \<Longrightarrow> history_grows a c"
  unfolding history_grows_def by (auto 0 4)

lemma evolves_refl [simp]: "evolves w w"
  by (simp add: evolves_def history_grows_def)

lemma evolves_trans: "evolves a b \<Longrightarrow> evolves b c \<Longrightarrow> evolves a c"
  unfolding evolves_def using history_grows_trans by auto

text \<open>
  The answer of the registry that a result rests on, and what a stretch of the history amounts to: the questions put to
  the registry with their answers, and the alerts that were raised.
\<close>

definition answer_of :: "rule_result \<Rightarrow> (iso_err + bool) option" where
  "answer_of res = (case res of RAbsence ok \<Rightarrow> None | RBudget \<Rightarrow> None | RIsolated e \<Rightarrow> Some (Inl e) | RStorage e \<Rightarrow> Some (Inl e)
     | RNoMatch \<Rightarrow> Some (Inr False) | RAlert out e \<Rightarrow> Some (Inr True) | RCreateFailed e \<Rightarrow> Some (Inr True))"

fun asked :: "trace_entry list \<Rightarrow> (Rule \<times> DecodedEvent \<times> (iso_err + bool)) list" where
  "asked [] = []"
| "asked (TRule ev m rule res # tr) = (case answer_of res of None \<Rightarrow> [] | Some a \<Rightarrow> [(rule, ev, a)]) @ asked tr"
| "asked (TListFailed ev m # tr) = asked tr"

fun raised :: "trace_entry list \<Rightarrow> (int \<times> string) list" where
  "raised [] = []"
| "raised (TRule ev m rule (RAlert AlertCreated e) # tr) = (ru_ID rule, e) # raised tr"
| "raised (t # tr) = raised tr"

lemma asked_append [simp]: "asked (xs @ ys) = asked xs @ asked ys"
  by (induction xs rule: asked.induct) auto

lemma raised_append [simp]: "raised (xs @ ys) = raised xs @ raised ys"
  by (induction xs rule: raised.induct) auto

definition accounts :: "'s PollWorld \<Rightarrow> 's PollWorld \<Rightarrow> trace_entry list \<Rightarrow> bool" where
  "accounts w w' tr \<longleftrightarrow> evolves w w' \<and> pw_answers w' = pw_answers w @ asked tr
     \<and> dispatched_keys w' = dispatched_keys w @ raised tr \<and> row_keys w' = row_keys w @ raised tr"

lemma accounts_evolves [dest]: "accounts w w' tr \<Longrightarrow> evolves w w'"
  by (simp add: accounts_def)

lemma accounts_trans: "accounts a b tr \<Longrightarrow> accounts b c tr' \<Longrightarrow> accounts a c (tr @ tr')"
  unfolding accounts_def by (auto intro: evolves_trans)

lemma accounts_quiet:
  assumes "pw_trace w' = pw_trace w" "pw_answers w' = pw_answers w" "pw_dispatched w' = pw_dispatched w" "db_alerts w' = db_alerts w"
    "pw_rules w' = pw_rules w" "pd_dedup w' = pd_dedup w" "db_cursors w' = db_cursors w" "db_monitored w' = db_monitored w"
  shows "accounts w w' []"
  using assms by (simp add: accounts_def evolves_def history_grows_def abs_gate_def dispatched_keys_def row_keys_def)

lemma accounts_tick: "accounts w (tick w) []"
  by (rule accounts_quiet) (simp_all add: tick_def)

definition alert_kept :: "Rule \<Rightarrow> rule_result \<Rightarrow> 's PollWorld \<Rightarrow> bool" where
  "alert_kept rule res w = (case res of
       RAlert out e \<Rightarrow> (out \<noteq> AlertSuppressed \<longrightarrow> e \<in> ag_keys (abs_gate (ru_ID rule) w)) \<and>
                       (out = AlertCreated \<longrightarrow> (ru_ID rule, e) \<in> set (dispatched_keys w))
     | _ \<Rightarrow> True)"

lemma alert_kept_grows: "alert_kept rule res w \<Longrightarrow> history_grows w w' \<Longrightarrow> alert_kept rule res w'"
  by (auto simp: alert_kept_def history_grows_def split: rule_result.splits)

text \<open>
  What a result says about the rule and the event: it rests on the registry's answer, absence rules and only they are
  re-armed instead of evaluated, and an alert goes under the event's id or the one the evaluator gave.
\<close>

definition follows :: "'s handle_env \<Rightarrow> DecodedEvent \<Rightarrow> Rule \<Rightarrow> rule_result \<Rightarrow> 's PollWorld \<Rightarrow> bool" where
  "follows env ev rule res w \<longleftrightarrow>
     (\<forall>a. answer_of res = Some a \<longrightarrow> (rule, ev, a) \<in> set (pw_answers w))
     \<and> (he_isAbsence env (ru_Type rule) \<longleftrightarrow> (\<exists>ok. res = RAbsence ok))
     \<and> (case res of RBudget \<Rightarrow> 0 < he_budget env
          | RIsolated err \<Rightarrow> IsRuleIsolatedFailure (Some err) | RStorage err \<Rightarrow> \<not> IsRuleIsolatedFailure (Some err)
          | RAlert out e \<Rightarrow> e = de_ID ev \<or> e \<noteq> '''' \<and> (\<exists>s. e = he_alertEventID env rule ev s)
          | _ \<Rightarrow> True)"

lemma follows_grows: "follows env ev rule res w \<Longrightarrow> history_grows w w' \<Longrightarrow> follows env ev rule res w'"
  by (auto simp: follows_def history_grows_def)

lemma alert_of_fields [simp]:
  "ar_RuleID (alert_of cd m rule ev e b) = ru_ID rule" "ar_EventID (alert_of cd m rule ev e b) = e" "\<not> sa_Federated (alert_of cd m rule ev e b)"
  "sa_Cooldown (alert_of cd m rule ev e b) = ruleCooldown cd rule"
  by (simp_all add: alert_of_def store_alert0_def Let_def split: prod.splits)

lemma notify_alert_keys [simp]:
  "al_RuleID (notify_alert cd m rule ev e a) = ru_ID rule" "al_EventID (notify_alert cd m rule ev e a) = e"
  by (simp_all add: notify_alert_def)

lemma createAlert_accounts:
  assumes c: "createAlert now ws scope a w = (w', r)" and loc: "\<not> sa_Federated a"
  shows "evolves w w'" "pw_trace w' = pw_trace w" "pw_answers w' = pw_answers w" "pw_dispatched w' = pw_dispatched w"
    "row_keys w' = row_keys w @ (case r of Inr (AlertCreated, a') \<Rightarrow> [(ar_RuleID a, ar_EventID a)] | _ \<Rightarrow> [])"
proof -
  have k: "keeps pw_trace (createAlert now ws scope a)" "keeps pw_rules (createAlert now ws scope a)" "keeps pw_answers (createAlert now ws scope a)"
    "keeps pw_dispatched (createAlert now ws scope a)" "keeps db_cursors (createAlert now ws scope a)" "keeps db_monitored (createAlert now ws scope a)"
    by (rule createAlert_keeps; simp)+
  have same: "pw_trace w' = pw_trace w" "pw_rules w' = pw_rules w" "pw_answers w' = pw_answers w" "pw_dispatched w' = pw_dispatched w"
    "db_cursors w' = db_cursors w" "db_monitored w' = db_monitored w"
    using k [THEN keeps_eq, OF c] by simp_all
  then show "evolves w w'" "pw_trace w' = pw_trace w" "pw_answers w' = pw_answers w" "pw_dispatched w' = pw_dispatched w"
    using createAlert_gate_step [OF assms] by (auto simp: evolves_def history_grows_def dispatched_keys_def)
  show "row_keys w' = row_keys w @ (case r of Inr (AlertCreated, a') \<Rightarrow> [(ar_RuleID a, ar_EventID a)] | _ \<Rightarrow> [])"
    using createAlert_refines_gate [OF assms]
    by (auto simp: row_keys_def AlertRow.defs split: sum.splits prod.splits if_splits AlertOutcome.splits)
qed

lemma createAlert_key:
  assumes "createAlert now ws scope a w = (w', Inr (out, a'))" "\<not> sa_Federated a" "out \<noteq> AlertSuppressed"
  shows "ar_EventID a \<in> ag_keys (abs_gate (ar_RuleID a) w')"
proof -
  note g = createAlert_refines_gate [OF assms(1,2), simplified, THEN conjunct1]
  show ?thesis using g gate_create_effect(1,4) [OF g] assms(3) by (cases out) (auto simp: gate_create_def split: if_splits)
qed

text \<open>Raising an alert: the history may record its result as that of a match.\<close>

lemma fireAlert_effect:
  assumes "fireAlert env m rule ev eventID w = (w', res)"
  shows "evolves w w'" "pw_trace w' = pw_trace w" "pw_answers w' = pw_answers w" "alert_kept rule res w'"
    "dispatched_keys w' = dispatched_keys w @ raised [TRule ev m rule res]" "row_keys w' = row_keys w @ raised [TRule ev m rule res]"
    "(\<exists>out. res = RAlert out eventID) \<or> (\<exists>e. res = RCreateFailed e)"
proof -
  let ?a = "alert_of (he_codec env) m rule ev eventID False"
  obtain w1 r where c: "createAlert (he_now env (pw_tick w)) Default None ?a (tick w) = (w1, r)" by fastforce
  note t = accounts_tick [of w, unfolded accounts_def, simplified] 
  note e = createAlert_accounts [OF c alert_of_fields(3)]
  have w1: "evolves w w1" "pw_trace w1 = pw_trace w" "pw_answers w1 = pw_answers w" "dispatched_keys w1 = dispatched_keys w"
    using evolves_trans [OF _ e(1)] t e(2-4) by (auto simp: tick_def dispatched_keys_def)
  have pub: "evolves w1 (w1\<lparr>pw_published := x, pw_dispatched := pw_dispatched w1 @ y\<rparr>)" for x y
    by (simp add: evolves_def history_grows_def abs_gate_def dispatched_keys_def)
  have all: "evolves w w' \<and> pw_trace w' = pw_trace w \<and> pw_answers w' = pw_answers w \<and> alert_kept rule res w'
    \<and> dispatched_keys w' = dispatched_keys w @ raised [TRule ev m rule res] \<and> row_keys w' = row_keys w @ raised [TRule ev m rule res]
    \<and> ((\<exists>out. res = RAlert out eventID) \<or> (\<exists>e. res = RCreateFailed e))"
  proof (cases "he_marshalErr env (event_payload (he_codec env) ev)")
    case (Some x)
    then show ?thesis using assms by (auto simp: fireAlert_def alert_kept_def)
  next
    case m: None
    show ?thesis
    proof (cases r)
      case (Inl err)
      then show ?thesis using assms c w1 e(5) t m by (auto simp: fireAlert_def alert_kept_def row_keys_def)
    next
      case (Inr p)
      obtain out b where p: "p = (out, b)" by fastforce
      note key = createAlert_key [OF c [unfolded Inr p] alert_of_fields(3)]
      show ?thesis
      proof (cases out)
        case AlertCreated
        then have w': "w' = w1\<lparr>pw_published := pw_published w1 @ [b],
            pw_dispatched := pw_dispatched w1 @ [(notify_alert (he_codec env) m rule ev eventID b)\<lparr>al_GroupCount := 1\<rparr>]\<rparr>" "res = RAlert AlertCreated eventID"
          using assms c Inr p m by (auto simp: fireAlert_def)
        have "evolves w w'" using evolves_trans [OF w1(1) pub] w'(1) by blast
        then show ?thesis using w' w1 e(5) t key AlertCreated Inr p
          by (simp add: alert_kept_def dispatched_keys_def row_keys_def abs_gate_def)
      qed (use assms c w1 e(5) t m key Inr p in \<open>auto simp: fireAlert_def alert_kept_def row_keys_def\<close>)
    qed
  qed
  then show "evolves w w'" "pw_trace w' = pw_trace w" "pw_answers w' = pw_answers w" "alert_kept rule res w'"
    "dispatched_keys w' = dispatched_keys w @ raised [TRule ev m rule res]" "row_keys w' = row_keys w @ raised [TRule ev m rule res]"
    "(\<exists>out. res = RAlert out eventID) \<or> (\<exists>e. res = RCreateFailed e)"
    by blast+
qed

lemma evaluate_rule_effect:
  assumes "evaluate_rule env rule ev w = (w', r)"
  shows "evolves w w'" "pw_trace w' = pw_trace w" "pw_answers w' = pw_answers w @ [(rule, ev, r)]"
    "dispatched_keys w' = dispatched_keys w" "row_keys w' = row_keys w"
  using assms by (auto simp: evaluate_rule_def Let_def tick_def evolves_def history_grows_def abs_gate_def dispatched_keys_def row_keys_def
      split: prod.splits)

lemma alert_event_id_cases: "alert_event_id env rule ev w = de_ID ev \<or>
    alert_event_id env rule ev w \<noteq> '''' \<and> (\<exists>s. alert_event_id env rule ev w = he_alertEventID env rule ev s)"
  by (auto simp: alert_event_id_def Let_def)

lemma run_rule_effect:
  assumes "run_rule env m ev rule w = (w', res)" "\<not> he_isAbsence env (ru_Type rule)"
  shows "accounts w w' [TRule ev m rule res]" "pw_trace w' = pw_trace w" "alert_kept rule res w'" "follows env ev rule res w'"
proof -
  obtain w1 r where e: "evaluate_rule env rule ev w = (w1, r)" by fastforce
  note e1 = evaluate_rule_effect [OF e]
  have all: "accounts w w' [TRule ev m rule res] \<and> pw_trace w' = pw_trace w \<and> alert_kept rule res w' \<and> follows env ev rule res w'"
  proof (cases "r = Inr True")
    case True
    then have f: "fireAlert env m rule ev (alert_event_id env rule ev w1) w1 = (w', res)" using assms e by (simp add: run_rule_def)
    note f1 = fireAlert_effect [OF f]
    have a: "answer_of res = Some (Inr True)" using f1(7) by (auto simp: answer_of_def)
    have "accounts w w' [TRule ev m rule res]"
      using evolves_trans [OF e1(1) f1(1)] e1 f1(3,5,6) a True by (simp add: accounts_def)
    moreover have "follows env ev rule res w'" using f1(3,7) e1(3) a True assms(2) alert_event_id_cases [of env rule ev w1]
      by (auto simp: follows_def)
    ultimately show ?thesis using e1(2) f1(2,4) by simp
  next
    case False
    then show ?thesis using assms e e1
      by (auto simp: run_rule_def alert_kept_def accounts_def follows_def answer_of_def split: sum.splits bool.splits if_splits)
  qed
  then show "accounts w w' [TRule ev m rule res]" "pw_trace w' = pw_trace w" "alert_kept rule res w'" "follows env ev rule res w'" by blast+
qed

lemma observeAbsence_effect:
  fixes w :: "'s PollWorld"
  assumes "observeAbsence cd now rule ev w = (w', ok)"
  shows "accounts w w' []" "pw_trace w' = pw_trace w"
proof -
  have r: "accounts w (fst (RecordAbsenceSeen i n t w)) [] \<and> pw_trace (fst (RecordAbsenceSeen i n t w)) = pw_trace w" for i n t
    by (intro conjI accounts_quiet) (simp_all add: RecordAbsenceSeen_def fst_sql)
  have "w' = w \<or> (\<exists>i n t. w' = fst (RecordAbsenceSeen i n t w))"
    using assms by (auto simp: observeAbsence_def split: sum.splits prod.splits if_splits) (metis fst_conv)+
  then show "accounts w w' []" "pw_trace w' = pw_trace w" using r accounts_quiet [of w w] by auto
qed

lemma accounts_noted: "accounts w (noted t w) []"
  by (simp add: accounts_def evolves_def history_grows_def noted_def abs_gate_def dispatched_keys_def row_keys_def)

lemma pw_trace_noted [simp]: "pw_trace (noted t w) = pw_trace w @ [t]"
  by (simp add: noted_def)

text \<open>One rule adds one entry to the history, and the event stays processed exactly if that entry is settled.\<close>

lemma handle_rule_effect:
  assumes "handle_rule env m ev rule (w, el, p) = (w', el', p')"
  obtains res where "accounts w w' [TRule ev m rule res]" "pw_trace w' = pw_trace w @ [TRule ev m rule res]" "p' = (p \<and> settled res)"
    "alert_kept rule res w'" "follows env ev rule res w'"
proof (cases "he_isAbsence env (ru_Type rule)")
  case True
  obtain w1 ok where o: "observeAbsence (he_codec env) (he_now env (pw_tick w)) rule ev (tick w) = (w1, ok)" by fastforce
  let ?t = "TRule ev m rule (RAbsence ok)"
  have w': "w' = noted ?t w1" "p' = (p \<and> ok)" using assms True o by (auto simp: handle_rule_def)
  have "accounts w w' []" using accounts_trans [OF accounts_trans [OF accounts_tick observeAbsence_effect(1) [OF o]] accounts_noted] w' by simp
  then have "accounts w w' [?t]" by (simp add: accounts_def answer_of_def)
  then show ?thesis using that [of "RAbsence ok"] w' observeAbsence_effect(2) [OF o] True
    by (simp add: settled_def alert_kept_def follows_def answer_of_def tick_def)
next
  case False
  show ?thesis
  proof (cases "0 < he_budget env \<and> he_budget env \<le> el (mo_WorkspaceID m)")
    case True
    then have "w' = noted (TRule ev m rule RBudget) w" "p' = p" using assms False by (auto simp: handle_rule_def)
    then show ?thesis using that [of RBudget] True False accounts_noted [of w "TRule ev m rule RBudget"]
      by (simp add: settled_def alert_kept_def follows_def answer_of_def accounts_def)
  next
    case nb: False
    obtain w1 res where r: "run_rule env m ev rule w = (w1, res)" by fastforce
    note e = run_rule_effect [OF r False]
    have w': "w' = noted (TRule ev m rule res) w1" "p' = (p \<and> settled res)" using assms False nb r by (auto simp: handle_rule_def)
    have g: "history_grows w1 w'" using accounts_noted [of w1 "TRule ev m rule res"] w' by (simp add: accounts_def evolves_def)
    have "accounts w w' [TRule ev m rule res]" using accounts_trans [OF e(1) accounts_noted [of w1 "TRule ev m rule res"]] w' by simp
    then show ?thesis using that [of res] e w' alert_kept_grows [OF e(3) g] follows_grows [OF e(4) g] by simp
  qed
qed

lemma handle_rules_effect:
  assumes "fold (handle_rule env m ev) rs (w, el, p) = (w', el', p')"
  shows "\<exists>ress. length ress = length rs \<and> accounts w w' (map2 (TRule ev m) rs ress) \<and> pw_trace w' = pw_trace w @ map2 (TRule ev m) rs ress
           \<and> p' = (p \<and> list_all settled ress) \<and> list_all2 (\<lambda>r res. alert_kept r res w' \<and> follows env ev r res w') rs ress"
  using assms
proof (induction rs arbitrary: w el p)
  case Nil
  then show ?case using accounts_quiet [of w w] by simp
next
  case (Cons r rs)
  obtain w1 el1 p1 where h: "handle_rule env m ev r (w, el, p) = (w1, el1, p1)" by (metis prod_cases3)
  from h obtain res where res: "accounts w w1 [TRule ev m r res]" "pw_trace w1 = pw_trace w @ [TRule ev m r res]" "p1 = (p \<and> settled res)"
      "alert_kept r res w1" "follows env ev r res w1"
    by (rule handle_rule_effect)
  have "fold (handle_rule env m ev) rs (w1, el1, p1) = (w', el', p')" using Cons.prems h by simp
  from Cons.IH [OF this] obtain ress where ih: "length ress = length rs" "accounts w1 w' (map2 (TRule ev m) rs ress)"
    "pw_trace w' = pw_trace w1 @ map2 (TRule ev m) rs ress" "p' = (p1 \<and> list_all settled ress)"
    "list_all2 (\<lambda>r res. alert_kept r res w' \<and> follows env ev r res w') rs ress" by blast
  have g: "history_grows w1 w'" using ih(2) by (simp add: accounts_def evolves_def)
  show ?case using res ih accounts_trans [OF res(1) ih(2)] alert_kept_grows [OF res(4) g] follows_grows [OF res(5) g]
    by (intro exI [of _ "res # ress"]) simp
qed

definition entry_settled :: "trace_entry \<Rightarrow> bool" where
  "entry_settled t = (case t of TRule ev m r res \<Rightarrow> settled res | TListFailed ev m \<Rightarrow> False)"

text \<open>
  A monitor is done with an event: its rules are known, and the history says what became of each of them. A rule the
  registry answered with a match has its alert stored under the event's key and handed over, unless it was a
  duplicate or its cooldown suppressed it; a rule recorded as not matching was answered so.
\<close>

definition rule_done :: "'s handle_env \<Rightarrow> DecodedEvent \<Rightarrow> Monitor \<Rightarrow> 's PollWorld \<Rightarrow> Rule \<Rightarrow> bool" where
  "rule_done env ev m w r \<longleftrightarrow> (\<exists>res. TRule ev m r res \<in> set (pw_trace w) \<and> settled res \<and> alert_kept r res w \<and> follows env ev r res w)"

definition monitor_done :: "'s handle_env \<Rightarrow> DecodedEvent \<Rightarrow> Monitor \<Rightarrow> 's PollWorld \<Rightarrow> bool" where
  "monitor_done env ev m w \<longleftrightarrow> (\<exists>rs. map_of (pw_rules w) (mo_ID m) = Some rs \<and> list_all (rule_done env ev m w) rs)"

lemma monitor_done_grows: "monitor_done env ev m w \<Longrightarrow> history_grows w w' \<Longrightarrow> monitor_done env ev m w'"
proof -
  assume d: "monitor_done env ev m w" and e: "history_grows w w'"
  have "rule_done env ev m w' r" if "rule_done env ev m w r" for r
    using that alert_kept_grows [OF _ e] follows_grows [OF _ e] e unfolding rule_done_def history_grows_def by auto
  then show "monitor_done env ev m w'" using d e by (auto simp: monitor_done_def history_grows_def list_all_iff)
qed

lemma listRules_effect:
  assumes "listRulesForCycle env i w = (w', r)"
  shows "accounts w w' []" "pw_trace w' = pw_trace w" "\<And>rs. r = Inr rs \<Longrightarrow> map_of (pw_rules w') i = Some rs"
  using assms by (auto simp: listRulesForCycle_def accounts_def evolves_def history_grows_def tick_def abs_gate_def dispatched_keys_def row_keys_def
      split: option.splits sum.splits)

lemma handle_monitor_effect:
  assumes "handle_monitor env ev m (w, el, p) = (w', el', p')"
  shows "\<exists>tr. accounts w w' tr \<and> pw_trace w' = pw_trace w @ tr \<and> p' = (p \<and> list_all entry_settled tr)
    \<and> (list_all entry_settled tr \<longrightarrow> monitor_done env ev m w')"
proof -
  obtain w1 r where l: "listRulesForCycle env (mo_ID m) w = (w1, r)" by fastforce
  note e = listRules_effect [OF l]
  show ?thesis
  proof (cases r)
    case (Inl err)
    let ?t = "TListFailed ev m"
    have w': "w' = noted ?t w1" "p' = False" using assms l Inl by (auto simp: handle_monitor_def)
    have "accounts w w' [?t]" using accounts_trans [OF e(1) accounts_noted [of w1 ?t]] w' by (simp add: accounts_def)
    then show ?thesis using e(2) w' by (intro exI [of _ "[?t]"]) (simp add: entry_settled_def)
  next
    case (Inr rs)
    then have "fold (handle_rule env m ev) rs (w1, el, p) = (w', el', p')" using assms l by (simp add: handle_monitor_def)
    from handle_rules_effect [OF this] obtain ress where
      f: "length ress = length rs" "accounts w1 w' (map2 (TRule ev m) rs ress)" "pw_trace w' = pw_trace w1 @ map2 (TRule ev m) rs ress"
        "p' = (p \<and> list_all settled ress)" "list_all2 (\<lambda>r res. alert_kept r res w' \<and> follows env ev r res w') rs ress" by blast
    have s: "list_all entry_settled (map2 (TRule ev m) rs ress) = list_all settled ress"
      using f(1) by (induction rs ress rule: list_induct2') (auto simp: entry_settled_def)
    have "monitor_done env ev m w'" if "list_all settled ress"
    proof -
      have known: "map_of (pw_rules w') (mo_ID m) = Some rs" using e(3) Inr f(2) by (auto simp: accounts_def evolves_def history_grows_def)
      have "rule_done env ev m w' r" if "r \<in> set rs" for r
      proof -
        obtain i where i: "i < length rs" "rs ! i = r" using \<open>r \<in> set rs\<close> by (metis in_set_conv_nth)
        have "(r, ress ! i) \<in> set (zip rs ress)" using i f(1) by (auto simp: in_set_zip)
        then have "TRule ev m r (ress ! i) \<in> set (pw_trace w')" unfolding f(3) by force
        moreover have "settled (ress ! i)" using \<open>list_all settled ress\<close> i f(1) by (simp add: list_all_length)
        moreover have "alert_kept r (ress ! i) w' \<and> follows env ev r (ress ! i) w'" using f(5) i by (auto simp: list_all2_conv_all_nth)
        ultimately show ?thesis by (auto simp: rule_done_def)
      qed
      then show ?thesis using known by (auto simp: monitor_done_def list_all_iff)
    qed
    then show ?thesis using e(2) f s accounts_trans [OF e(1) f(2)] by (intro exI [of _ "map2 (TRule ev m) rs ress"]) simp
  qed
qed

lemma handle_monitors_effect:
  assumes "fold (handle_monitor env ev) ms (w, el, p) = (w', el', p')"
  shows "\<exists>tr. accounts w w' tr \<and> pw_trace w' = pw_trace w @ tr \<and> p' = (p \<and> list_all entry_settled tr)
    \<and> (list_all entry_settled tr \<longrightarrow> (\<forall>m \<in> set ms. monitor_done env ev m w'))"
  using assms
proof (induction ms arbitrary: w el p)
  case Nil
  then show ?case using accounts_quiet [of w w] by simp
next
  case (Cons m ms)
  obtain w1 el1 p1 where h: "handle_monitor env ev m (w, el, p) = (w1, el1, p1)" by (metis prod_cases3)
  from handle_monitor_effect [OF h] obtain tr1 where t1: "accounts w w1 tr1" "pw_trace w1 = pw_trace w @ tr1" "p1 = (p \<and> list_all entry_settled tr1)"
    "list_all entry_settled tr1 \<longrightarrow> monitor_done env ev m w1" by blast
  have "fold (handle_monitor env ev) ms (w1, el1, p1) = (w', el', p')" using Cons.prems h by simp
  from Cons.IH [OF this] obtain tr2 where t2: "accounts w1 w' tr2" "pw_trace w' = pw_trace w1 @ tr2" "p' = (p1 \<and> list_all entry_settled tr2)"
    "list_all entry_settled tr2 \<longrightarrow> (\<forall>m \<in> set ms. monitor_done env ev m w')" by blast
  have g: "history_grows w1 w'" using t2(1) by (simp add: accounts_def evolves_def)
  show ?case using t1 t2 accounts_trans [OF t1(1) t2(1)] monitor_done_grows [OF _ g]
    by (intro exI [of _ "tr1 @ tr2"]) auto
qed

lemma handleEvent_effect:
  assumes "handleEvent env ev w = (w', ok)"
  shows "\<exists>tr. accounts w w' tr \<and> pw_trace w' = pw_trace w @ tr \<and> (ok \<longleftrightarrow> list_all entry_settled tr)
    \<and> (ok \<longrightarrow> (\<forall>ms m. he_byContract env (de_ContractID ev) = Some ms \<longrightarrow> m \<in> set ms \<longrightarrow> monitor_done env ev m w'))"
proof (cases "he_byContract env (de_ContractID ev)")
  case None
  then show ?thesis using assms accounts_quiet [of w w] by (simp add: handleEvent_def)
next
  case (Some ms)
  obtain out where out: "orderMonitorsByWorkspaceFairness ms = Some out" "set out = set ms"
    using order_returns [of ms] by (metis fair_order_def mset_eq_setD)
  obtain el where "fold (handle_monitor env ev) out (w, \<lambda>ws. 0, True) = (w', el, ok)"
    using assms Some out by (auto simp: handleEvent_def split: prod.splits)
  from handle_monitors_effect [OF this] show ?thesis using Some out by auto
qed

text \<open>
  C2. What \<open>handleEvent\<close> does with the answers of the registry. The history it adds accounts for everything: the registry was
  asked once for every entry that rests on an answer, in that order, and gave the answer the entry stands for, so
  that a match is an alert (raised, duplicate, suppressed or failed) and everything else is not; the rows that came into
  the alert table and the alerts handed to the dispatcher are the raised ones, once each and in order. The event is
  reported as processed exactly if no rule list, evaluation, re-arming or alert failed in storage, and then
  every rule of every monitor that watches the contract is done.
\<close>

theorem processed_event_settled_every_rule:
  assumes "handleEvent env ev w = (w', ok)"
  shows "\<exists>tr. pw_trace w' = pw_trace w @ tr \<and> pw_answers w' = pw_answers w @ asked tr
    \<and> row_keys w' = row_keys w @ raised tr \<and> dispatched_keys w' = dispatched_keys w @ raised tr
    \<and> (ok \<longleftrightarrow> list_all entry_settled tr)
    \<and> (ok \<longrightarrow> (\<forall>ms m. he_byContract env (de_ContractID ev) = Some ms \<longrightarrow> m \<in> set ms \<longrightarrow> monitor_done env ev m w'))"
  using handleEvent_effect [OF assms] by (auto simp: accounts_def)

definition demo_rule :: Rule where
  "demo_rule = demo_absence_rule\<lparr>ru_Type := ''event_emitted''\<rparr>"

definition demo_henv :: "bool \<Rightarrow> int handle_env" where
  "demo_henv storageFails = \<lparr>he_codec = demo_codec, he_byContract = (\<lambda>c. if c = ''C1'' then Some [demo_absence_monitor] else None),
     he_listRules = (\<lambda>n i. Inr [demo_rule]), he_isAbsence = (\<lambda>t. t = ''absence_of_event''), he_budget = second,
     he_run = (\<lambda>n r e s. \<lparr>er_result = (if storageFails then Returned False (Some \<lparr>ee_storage = True, ee_deadline = False, ee_text = ''timeout''\<rparr>)
                                        else Returned True None),
                          er_state = s + 1, er_fires = [], er_total = 5, er_db = 0, er_storageErr = False\<rparr>),
     he_none = 0, he_durText = (\<lambda>d. ''''), he_order = (\<lambda>n. []), he_now = (\<lambda>n. 100 + int n), he_elapsed = (\<lambda>n. 5),
     he_alertEventID = (\<lambda>r e s. ''''), he_marshalErr = (\<lambda>v. None)\<rparr>"

definition demo_world :: "int PollWorld" where
  "demo_world = PollOut.extend demo_out (PollWorld.fields
     \<lparr>rg_evalTimeout = second, rg_quarantineThreshold = 3, rg_isolation = [], rg_states = (\<lambda>r. 0)\<rparr> [] [] 0 [] [])"

definition demo_event1 :: DecodedEvent where
  "demo_event1 = \<lparr>de_ID = ''e1'', de_ContractID = ''C1'', de_Ledger = 9, de_LedgerClosedAt = 50, de_TxHash = ''t'', de_Topics = [GStr ''transfer''],
     de_Value = GInt 7, de_Fields = None\<rparr>"

lemma demo_handle:
  "snd (handleEvent (demo_henv False) demo_event1 demo_world)"
  "map (\<lambda>a. (al_RuleID a, al_EventID a)) (pw_dispatched (fst (handleEvent (demo_henv False) demo_event1 demo_world))) = [(1, ''e1'')]"
  "\<not> snd (handleEvent (demo_henv True) demo_event1 demo_world)"
  by code_simp+

theorem processed_event_settled_every_rule_witness:
  "monitor_done (demo_henv False) demo_event1 demo_absence_monitor (fst (handleEvent (demo_henv False) demo_event1 demo_world))"
proof -
  let ?r = "handleEvent (demo_henv False) demo_event1 demo_world"
  have "he_byContract (demo_henv False) (de_ContractID demo_event1) = Some [demo_absence_monitor]"
    by (simp add: demo_henv_def demo_event1_def)
  then show ?thesis
    using processed_event_settled_every_rule [OF prod.collapse [symmetric, of ?r]] demo_handle(1) by auto
qed

end
