(* ===== verification/Reorg.thy ===== *)
theory Reorg
  imports Ingest_Store
begin

text \<open>
  \<open>internal/poller/reorg.go\<close>: the ledger-reorganisation check that opens every poll cycle, on the tables of
  \<open>Ingest_Store\<close>. The event source answers with its tip and, when it can report hashes at all
  (\<open>Some\<close>), with the hashes of a range; both answers belong to the source and are parameters. The
  reorg metric and the log lines are not modelled.
\<close>

datatype hash_error = ErrLedgerHashesUnsupported | HashError string

type_synonym hash_source = "uint32 \<Rightarrow> uint32 \<Rightarrow> hash_error + LedgerHash list"

text \<open>The divergence loop: the earliest observed ledger whose recorded hash differs.\<close>

definition changed :: "(uint32 \<Rightarrow> string option) \<Rightarrow> LedgerHash \<Rightarrow> bool" where
  "changed known h = (case known (lh_Ledger h) of None \<Rightarrow> False | Some old \<Rightarrow> old \<noteq> lh_Hash h)"

fun divergence_loop :: "(uint32 \<Rightarrow> string option) \<Rightarrow> uint32 \<Rightarrow> LedgerHash list \<Rightarrow> uint32" where
  "divergence_loop known d [] = d"
| "divergence_loop known d (h # hs) =
     divergence_loop known
       (if changed known h then (if d = 0 \<or> lh_Ledger h < d then lh_Ledger h else d) else d) hs"

definition reorg_from :: "uint32 \<Rightarrow> uint32 \<Rightarrow> uint32" where
  "reorg_from window tip = (if window < tip then tip - window + 1 else 1)"

definition detectReorg ::
  "string \<Rightarrow> uint32 \<Rightarrow> hash_source option \<Rightarrow> string + uint32 \<Rightarrow> gtime \<Rightarrow> ('x IngestDB_scheme, uint32) fallible" where
  "detectReorg network reorgWindow src latest now =
     (if reorgWindow = 0 then sreturn 0
      else case src of None \<Rightarrow> sreturn 0 | Some ledgerHashes \<Rightarrow>
      case latest of Inl err \<Rightarrow> sfail err | Inr tip \<Rightarrow>
      if tip = 0 then sreturn 0
      else (let from = reorg_from reorgWindow tip in
      case ledgerHashes from tip of
        Inl ErrLedgerHashesUnsupported \<Rightarrow> sreturn 0
      | Inl (HashError err) \<Rightarrow> sfail err
      | Inr observed \<Rightarrow>
      if observed = [] then sreturn 0
      else sbind (LedgerHashes network from tip) (\<lambda>stored.
           let divergence = divergence_loop (hash_map stored) 0 observed in
           sbind (if divergence \<noteq> 0
                  then sbind (RetractAlertsFromLedger network divergence now) (\<lambda>retracted. sreturn ())
                  else sreturn ()) (\<lambda>_.
           sbind (RecordLedgerHashes network observed) (\<lambda>_.
           sbind (if 1 < from then PruneLedgerHashes network from else sreturn ()) (\<lambda>_.
           sreturn divergence))))))"

text \<open>
  The opening of \<open>Poll\<close>: a failed check is only logged; a divergence rewinds the checkpoint and the contract
  cursors to the ledger before it. The result is the checkpoint the cycle goes on with.
\<close>

definition reorgStep ::
  "string \<Rightarrow> uint32 \<Rightarrow> hash_source option \<Rightarrow> string + uint32 \<Rightarrow> gtime \<Rightarrow> IngestState \<Rightarrow> ('x IngestDB_scheme, IngestState) fallible" where
  "reorgStep network reorgWindow src latest now state db =
     (case detectReorg network reorgWindow src latest now db of
        (db1, Inl err) \<Rightarrow> (db1, Inr state)
      | (db1, Inr divergence) \<Rightarrow>
          if divergence = 0 then (db1, Inr state)
          else sbind (if divergence - 1 < is_LastLedger state
                      then (let st = state\<lparr>is_LastLedger := divergence - 1, is_LastCursor := ''''\<rparr> in
                            sbind (SetIngestState network st) (\<lambda>_. sreturn st))
                      else sreturn state) (\<lambda>st.
               sbind (RewindContractCursors network (divergence - 1)) (\<lambda>_. sreturn st)) db1)"

subsection \<open>The divergence\<close>

definition earliest_change :: "(uint32 \<Rightarrow> string option) \<Rightarrow> LedgerHash list \<Rightarrow> uint32" where
  "earliest_change known observed =
     (let ls = map lh_Ledger (filter (changed known) observed) in if ls = [] then 0 else Min (set ls))"

lemma Min_insert_min: "finite A \<Longrightarrow> Min (insert (min a b) A) = Min (insert b (insert a A))" for a :: uint32
  by (cases "A = {}") (simp_all add: min.assoc min.commute min.left_commute)

lemma divergence_loop_min:
  assumes "\<forall>h \<in> set observed. lh_Ledger h \<noteq> 0" and "d \<noteq> 0"
  shows "divergence_loop known d observed = Min (insert d (lh_Ledger ` set (filter (changed known) observed)))"
  using assms
proof (induction observed arbitrary: d)
  case (Cons h hs)
  have n: "lh_Ledger h \<noteq> 0" using Cons.prems by simp
  show ?case
  proof (cases "changed known h")
    case True
    then have "divergence_loop known d (h # hs) = divergence_loop known (min (lh_Ledger h) d) hs"
      using \<open>d \<noteq> 0\<close> by (auto simp: min_def)
    also have "\<dots> = Min (insert (min (lh_Ledger h) d) (lh_Ledger ` set (filter (changed known) hs)))"
      using n Cons.prems by (intro Cons.IH) (auto simp: min_def)
    also have "\<dots> = Min (insert d (insert (lh_Ledger h) (lh_Ledger ` set (filter (changed known) hs))))"
      by (rule Min_insert_min) simp
    finally show ?thesis using True by simp
  next
    case False
    then show ?thesis using Cons by simp
  qed
qed simp

lemma divergence_loop_start:
  "\<forall>h \<in> set observed. lh_Ledger h \<noteq> 0 \<Longrightarrow> divergence_loop known 0 observed = earliest_change known observed"
proof (induction observed)
  case (Cons h hs)
  then show ?case
    by (auto simp: earliest_change_def divergence_loop_min Let_def)
qed (simp add: earliest_change_def)

text \<open>What a call that returns without an error did.\<close>

lemma detectReorg_cases:
  assumes "detectReorg network w src latest now db = (db', Inr d)"
  obtains (idle) "db' = db" and "d = 0"
      and "w = 0 \<or> src = None \<or> latest = Inr 0
             \<or> (\<exists>f tip. src = Some f \<and> latest = Inr tip
                   \<and> f (reorg_from w tip) tip \<in> {Inl ErrLedgerHashesUnsupported, Inr []})"
    | (checked) f tip observed stored db1 db2 db3 where "w \<noteq> 0" and "src = Some f" and "latest = Inr tip" and "tip \<noteq> 0"
        and "f (reorg_from w tip) tip = Inr observed" and "observed \<noteq> []"
        and "LedgerHashes network (reorg_from w tip) tip db = (db1, Inr stored)"
        and "d = divergence_loop (hash_map stored) 0 observed"
        and "if d = 0 then db2 = db1 else \<exists>n. RetractAlertsFromLedger network d now db1 = (db2, Inr n)"
        and "RecordLedgerHashes network observed db2 = (db3, Inr ())"
        and "if 1 < reorg_from w tip then PruneLedgerHashes network (reorg_from w tip) db3 = (db', Inr ()) else db' = db3"
proof -
  from assms consider "db' = db" "d = 0"
      "w = 0 \<or> src = None \<or> latest = Inr 0
         \<or> (\<exists>f tip. src = Some f \<and> latest = Inr tip
               \<and> f (reorg_from w tip) tip \<in> {Inl ErrLedgerHashesUnsupported, Inr []})"
    | f tip observed where "w \<noteq> 0" "src = Some f" "latest = Inr tip" "tip \<noteq> 0"
        "f (reorg_from w tip) tip = Inr observed" "observed \<noteq> []"
    by (auto simp: detectReorg_def sreturn_def sfail_def Let_def
          split: if_splits option.splits sum.splits hash_error.splits)
  then show thesis
  proof cases
    case 1
    then show thesis by (rule idle)
  next
    case 2
    note c = 2
    from assms c have "sbind (LedgerHashes network (reorg_from w tip) tip) (\<lambda>stored.
           let divergence = divergence_loop (hash_map stored) 0 observed in
           sbind (if divergence \<noteq> 0
                  then sbind (RetractAlertsFromLedger network divergence now) (\<lambda>retracted. sreturn ())
                  else sreturn ()) (\<lambda>_.
           sbind (RecordLedgerHashes network observed) (\<lambda>_.
           sbind (if 1 < reorg_from w tip then PruneLedgerHashes network (reorg_from w tip) else sreturn ()) (\<lambda>_.
           sreturn divergence)))) db = (db', Inr d)"
      by (simp add: detectReorg_def Let_def)
    then obtain db1 stored db2 db3 db4 u where
      r: "LedgerHashes network (reorg_from w tip) tip db = (db1, Inr stored)"
      and t: "(if divergence_loop (hash_map stored) 0 observed \<noteq> 0
           then sbind (RetractAlertsFromLedger network (divergence_loop (hash_map stored) 0 observed) now) (\<lambda>retracted. sreturn ())
           else sreturn ()) db1 = (db2, Inr u)"
      and p: "RecordLedgerHashes network observed db2 = (db3, Inr ())"
      and q: "(if 1 < reorg_from w tip then PruneLedgerHashes network (reorg_from w tip) else sreturn ()) db3 = (db4, Inr ())"
      and e: "sreturn (divergence_loop (hash_map stored) 0 observed) db4 = (db', Inr d)"
      unfolding Let_def by (elim sbind_Inr) simp
    have d: "d = divergence_loop (hash_map stored) 0 observed" "db' = db4" using e by (auto simp: sreturn_def)
    have t': "if d = 0 then db2 = db1 else \<exists>n. RetractAlertsFromLedger network d now db1 = (db2, Inr n)"
      using t unfolding d(1) [symmetric] by (auto simp: sreturn_def elim!: sbind_Inr split: if_splits)
    have q': "if 1 < reorg_from w tip then PruneLedgerHashes network (reorg_from w tip) db3 = (db', Inr ()) else db' = db3"
      using q d(2) by (auto simp: sreturn_def split: if_splits)
    show thesis by (rule checked [OF c r d(1) t' p q'])
  qed
qed

subsection \<open>What the check does to the tables\<close>

lemma fold_upsert_frame [simp]:
  "db_alerts (fold (upsert_hash network) hs db) = db_alerts db"
  "db_faults (fold (upsert_hash network) hs db) = db_faults db"
  "db_cursors (fold (upsert_hash network) hs db) = db_cursors db"
  by (induction hs arbitrary: db) (auto simp: upsert_hash_def)

lemma alerts_frame:
  "db_alerts (fst (LedgerHashes network a b db)) = db_alerts db"
  "db_alerts (fst (RecordLedgerHashes network hs db)) = db_alerts db"
  "db_alerts (fst (PruneLedgerHashes network b db)) = db_alerts db"
  by (auto simp: LedgerHashes_def RecordLedgerHashes_def PruneLedgerHashes_def sreturn_def fst_sql)

lemma alerts_retracted:
  "RetractAlertsFromLedger network d now db = (db', Inr n) \<Longrightarrow> db_alerts db' = map (retract network d now) (db_alerts db)"
  by (auto simp: RetractAlertsFromLedger_def sql_Inr)

lemma window_after_retract:
  "windowOf network (fst (RetractAlertsFromLedger network' d now db)) = windowOf network db"
  by (rule ext) (auto simp: RetractAlertsFromLedger_def fst_sql windowOf_alt)

text \<open>The part of a network's window that a check compares.\<close>

definition compared :: "string \<Rightarrow> uint32 \<Rightarrow> uint32 \<Rightarrow> 'x IngestDB_scheme \<Rightarrow> uint32 \<Rightarrow> string option" where
  "compared network w tip db = (\<lambda>l. if reorg_from w tip \<le> l \<and> l \<le> tip then windowOf network db l else None)"

lemma detectReorg_result:
  assumes ok: "db_ok db" and run: "detectReorg network w (Some f) (Inr tip) now db = (db', Inr d)"
    and w: "w \<noteq> 0" "tip \<noteq> 0" and f: "f (reorg_from w tip) tip = Inr observed"
    and nz: "\<forall>h \<in> set observed. lh_Ledger h \<noteq> 0"
  shows "d = earliest_change (compared network w tip db) observed"
    and "db_alerts db' = (if d = 0 then db_alerts db else map (retract network d now) (db_alerts db))"
proof -
  have "d = earliest_change (compared network w tip db) observed
        \<and> db_alerts db' = (if d = 0 then db_alerts db else map (retract network d now) (db_alerts db))"
    using run
  proof (cases rule: detectReorg_cases)
    case idle
    then have "observed = []" using w f by auto
    with idle show ?thesis by (simp add: earliest_change_def)
  next
    case (checked f' tip' obs stored db1 db2 db3)
    then have e: "f' = f" "tip' = tip" "obs = observed" using f by auto
    have "hash_map stored = compared network w tip db"
      using pg_window.rd_rows [OF ok checked(7)] e by (auto simp: compared_def)
    then have d: "d = earliest_change (compared network w tip db) observed"
      using checked(8) divergence_loop_start [OF nz] e by simp
    have "db_alerts db1 = db_alerts db" "db_alerts db3 = db_alerts db2" "db_alerts db' = db_alerts db3"
      using alerts_frame(1) [of network "reorg_from w tip" tip db] alerts_frame(2) [of network observed db2]
        alerts_frame(3) [of network "reorg_from w tip" db3] checked(7,10,11) e
      by (auto split: if_splits)
    then show ?thesis using d checked(9) by (auto split: if_splits dest: alerts_retracted)
  qed
  then show "d = earliest_change (compared network w tip db) observed"
    and "db_alerts db' = (if d = 0 then db_alerts db else map (retract network d now) (db_alerts db))" by auto
qed

text \<open>A statement that no fault awaits succeeds and leaves no fault for the next.\<close>

definition faultless :: "('x IngestDB_scheme, 'a) fallible \<Rightarrow> bool" where
  "faultless m \<longleftrightarrow> (\<forall>db. db_faults db = [] \<longrightarrow> (\<exists>db' a. m db = (db', Inr a) \<and> db_faults db' = []))"

lemma faultless_sreturn [simp]: "faultless (sreturn a)"
  by (simp add: faultless_def sreturn_def)

lemma faultless_if [intro!]: "faultless m \<Longrightarrow> faultless n \<Longrightarrow> faultless (if c then m else n)"
  by simp

lemma faultless_sbind [intro!]: "faultless m \<Longrightarrow> (\<And>a. faultless (f a)) \<Longrightarrow> faultless (sbind m f)"
  unfolding faultless_def sbind_def by (metis (no_types, lifting) old.prod.case old.sum.simps(6))

lemma faultless_sql: "(\<And>db. db_faults (fst (stmt db)) = db_faults db) \<Longrightarrow> faultless (sql stmt)"
  unfolding faultless_def sql_def next_fault_def Let_def
  by (auto split: prod.splits) (metis fst_conv list.sel(2) IngestDB.select_convs(9) IngestDB.surjective IngestDB.update_convs(9))

lemma faultless_statements [intro!]:
  "faultless (LedgerHashes network a b)" "faultless (RecordLedgerHashes network hs)"
  "faultless (PruneLedgerHashes network b)" "faultless (RetractAlertsFromLedger network d now)"
  by (auto simp: LedgerHashes_def RecordLedgerHashes_def PruneLedgerHashes_def RetractAlertsFromLedger_def
        intro!: faultless_sql)

lemma detectReorg_succeeds:
  assumes "db_faults db = []" and "f (reorg_from w tip) tip = Inr observed"
  shows "\<exists>db' d. detectReorg network w (Some f) (Inr tip) now db = (db', Inr d) \<and> db_faults db' = []"
proof -
  have "faultless (detectReorg network w (Some f) (Inr tip) now)"
    using assms(2) unfolding detectReorg_def Let_def
    by (auto intro!: faultless_if faultless_sbind faultless_statements simp del: if_split split: sum.split)
  then show ?thesis using assms(1) by (auto simp: faultless_def)
qed

subsection \<open>The window's arithmetic\<close>

lemma reorg_from_bounds:
  assumes "w \<noteq> 0" and "tip \<noteq> 0"
  shows "1 \<le> reorg_from w tip" and "reorg_from w tip \<le> tip"
    and "unat tip - unat (reorg_from w tip) + 1 = min (unat w) (unat tip)"
proof -
  have p: "0 < unat w" "0 < unat tip" using assms by (simp_all add: unat_gt_0)
  have lt: "unat tip < 2 ^ 32" using unsigned_less [of tip] by simp
  have "unat (reorg_from w tip) = (if unat w < unat tip then unat tip - unat w + 1 else 1)"
  proof (cases "w < tip")
    case True
    then have "unat (tip - w) = unat tip - unat w" by (simp add: unat_sub word_less_nat_alt less_imp_le)
    moreover have "unat (tip - w) + unat (1 :: uint32) < 2 ^ 32"
      using True p lt calculation by (simp add: word_less_nat_alt)
    ultimately have "unat (tip - w + 1) = unat tip - unat w + 1"
      by (simp add: unat_word_ariths(1))
    then show ?thesis using True by (simp add: reorg_from_def word_less_nat_alt)
  next
    case False
    then show ?thesis by (simp add: reorg_from_def word_less_nat_alt)
  qed
  then show "1 \<le> reorg_from w tip" and "reorg_from w tip \<le> tip"
    and "unat tip - unat (reorg_from w tip) + 1 = min (unat w) (unat tip)"
    using p by (auto simp: word_le_nat_alt)
qed

subsection \<open>The second check finds nothing\<close>

lemma changed_same: "known (lh_Ledger h) = Some (lh_Hash h) \<Longrightarrow> \<not> changed known h"
  by (simp add: changed_def)

lemma no_change: "(\<And>h. h \<in> set observed \<Longrightarrow> \<not> changed known h) \<Longrightarrow> earliest_change known observed = 0"
  by (simp add: earliest_change_def filter_empty_conv [THEN iffD2])

lemma recorded_unchanged:
  assumes "RecordLedgerHashes network observed db = (db1, Inr u)" and "distinct (map lh_Ledger observed)"
    and "\<forall>l. reorg_from w tip \<le> l \<longrightarrow> windowOf network db2 l = windowOf network db1 l"
    and "\<forall>h \<in> set observed. reorg_from w tip \<le> lh_Ledger h \<and> lh_Ledger h \<le> tip"
  shows "earliest_change (compared network w tip db2) observed = 0"
proof (rule no_change, rule changed_same)
  fix h assume "h \<in> set observed"
  then show "compared network w tip db2 (lh_Ledger h) = Some (lh_Hash h)"
    using assms pg_window.put_then_win [OF assms(1,2)] by (auto simp: compared_def)
qed

lemma second_check:
  assumes "db_ok db" and "db_faults db = []" and "w \<noteq> 0" "tip \<noteq> 0" and f: "f (reorg_from w tip) tip = Inr observed"
    and range: "\<forall>h \<in> set observed. reorg_from w tip \<le> lh_Ledger h \<and> lh_Ledger h \<le> tip"
    and same: "earliest_change (compared network w tip db) observed = 0"
  obtains db' where "detectReorg network w (Some f) (Inr tip) now db = (db', Inr 0)" and "db_alerts db' = db_alerts db"
proof -
  obtain db' d where run: "detectReorg network w (Some f) (Inr tip) now db = (db', Inr d)"
    using detectReorg_succeeds [where f = f, OF assms(2) f] by blast
  have "\<forall>h \<in> set observed. lh_Ledger h \<noteq> 0"
    using range reorg_from_bounds(1) [OF assms(3,4)] by (metis word_le_0_iff zero_neq_one)
  note r = detectReorg_result [OF assms(1) run assms(3,4) f this]
  show thesis using that run r same by simp
qed

lemma window_after_prune:
  assumes "PruneLedgerHashes network b db = (db', r)" and "b \<le> l"
  shows "windowOf network db' l = windowOf network db l"
proof (cases r)
  case (Inl e)
  with assms show ?thesis using pg_window.prune_failed by metis
next
  case (Inr u)
  with assms(1) have "windowOf network db' l = (if l < b then None else windowOf network db l)"
    by (intro pg_window.prune_win) simp
  then show ?thesis using assms(2) leD [of b l] by simp
qed

lemma db_ok_fst: "x = (db', r) \<Longrightarrow> db_ok (fst x) \<Longrightarrow> db_ok db'"
  by simp

lemma detectReorg_db_ok:
  assumes "db_ok db" and "detectReorg network w src latest now db = (db', Inr d)"
  shows "db_ok db'"
  using assms(2)
proof (cases rule: detectReorg_cases)
  case (checked f tip observed stored db1 db2 db3)
  have "db_ok db1" using checked(7) assms(1) by (rule db_ok_fst [OF _ db_ok_LedgerHashes])
  then have "db_ok db2"
    using checked(9) db_ok_fst [OF _ db_ok_RetractAlertsFromLedger] by (auto split: if_splits)
  with checked(10) have "db_ok db3" by (rule db_ok_fst [OF _ db_ok_RecordLedgerHashes])
  then show ?thesis
    using checked(11) db_ok_fst [OF _ db_ok_PruneLedgerHashes] by (auto split: if_splits)
qed (simp add: assms(1))

lemma ledger_pred_less: "d \<noteq> 0 \<Longrightarrow> d - 1 < d" for d :: uint32
  using unat_minus_one [of d] by (simp add: word_less_nat_alt unat_gt_0)

lemma ledger_pred_le: "d \<noteq> 0 \<Longrightarrow> l \<le> d - 1 \<longleftrightarrow> l < d" for d :: uint32
  using unat_minus_one [of d] unat_gt_0 [of d] by (auto simp: word_less_nat_alt word_le_nat_alt)

subsection \<open>Properties\<close>

text \<open>
  C34. A reorg check that completes returns the earliest observed ledger whose recorded hash changed
  (0 when none did) and retracts exactly the alerts of its own network at or after that ledger that were
  not retracted yet; every other alert row, whatever its network, is untouched.
\<close>

theorem reorg_retracts_exactly_the_orphaned:
  assumes "db_ok db" and "w \<noteq> 0" and "tip \<noteq> 0"
    and "f (reorg_from w tip) tip = Inr observed" and "\<forall>h \<in> set observed. lh_Ledger h \<noteq> 0"
    and "detectReorg network w (Some f) (Inr tip) now db = (db', Inr d)"
  shows "d = earliest_change (compared network w tip db) observed
    \<and> length (db_alerts db') = length (db_alerts db)
    \<and> (\<forall>i < length (db_alerts db). let a = db_alerts db ! i; a' = db_alerts db' ! i in
         if d \<noteq> 0 \<and> ar_Network a = network \<and> d \<le> ar_Ledger a \<and> ar_RetractedAt a = None
         then a' = a\<lparr>ar_RetractedAt := Some now\<rparr> else a' = a)"
  using detectReorg_result [OF assms(1,6,2,3,4,5)] by (auto simp: retract_def Let_def)

theorem reorg_retracts_exactly_the_orphaned_witness:
  "\<exists>db' d. detectReorg ''testnet'' 2 (Some (\<lambda>a b. Inr [\<lparr>lh_Ledger = 8, lh_Hash = ''new''\<rparr>])) (Inr 9) 77
     \<lparr>db_ingest_state = None, db_network_ingest_state = [], db_cursors = [], db_ledger_hashes = [],
      db_network_ledger_hashes = [((''testnet'', 8), ''old'')],
      db_alerts = [\<lparr>ar_ID = 1, ar_MonitorID = 1, ar_RuleID = 1, ar_EventID = ''e'', ar_Network = ''testnet'',
                    ar_Ledger = 8, ar_RetractedAt = None, ar_WorkspaceID = ''default'', ar_Severity = ''warning'', ar_Payload = GMap [], ar_Backfilled = False,
                    ar_RuleVersion = 1, ar_RunbookURL = '''', ar_ResponseGuidance = '''', ar_CreatedAt = 1\<rparr>],
      db_monitored = [], db_gaps = [], db_faults = []\<rparr> = (db', Inr d)
   \<and> d = 8 \<and> ar_RetractedAt (db_alerts db' ! 0) = Some 77"
proof -
  define a where "a = \<lparr>ar_ID = 1, ar_MonitorID = 1, ar_RuleID = 1, ar_EventID = ''e'', ar_Network = ''testnet'',
                    ar_Ledger = 8, ar_RetractedAt = None, ar_WorkspaceID = ''default'', ar_Severity = ''warning'', ar_Payload = GMap [], ar_Backfilled = False,
                    ar_RuleVersion = 1, ar_RunbookURL = '''', ar_ResponseGuidance = '''', ar_CreatedAt = 1\<rparr>"
  define db where "db = \<lparr>db_ingest_state = None, db_network_ingest_state = [], db_cursors = [], db_ledger_hashes = [],
      db_network_ledger_hashes = [((''testnet'', 8), ''old'')], db_alerts = [a],
      db_monitored = [], db_gaps = [], db_faults = []\<rparr>"
  define f where "f = (\<lambda>(a :: uint32) (b :: uint32). Inr [\<lparr>lh_Ledger = 8, lh_Hash = ''new''\<rparr>] :: hash_error + LedgerHash list)"
  have ok: "db_ok db" by (simp add: db_def db_ok_def keyed_def)
  have fr: "reorg_from 2 9 = 8" by (simp add: reorg_from_def)
  obtain db' d where run: "detectReorg ''testnet'' 2 (Some f) (Inr 9) 77 db = (db', Inr d)"
    using detectReorg_succeeds [of db f 2 9 "[\<lparr>lh_Ledger = 8, lh_Hash = ''new''\<rparr>]" "''testnet''" 77]
    by (auto simp: db_def f_def)
  have "earliest_change (compared ''testnet'' 2 9 db) [\<lparr>lh_Ledger = 8, lh_Hash = ''new''\<rparr>] = 8"
    by (simp add: earliest_change_def changed_def compared_def fr windowOf_alt db_def)
  then have "d = 8 \<and> ar_RetractedAt (db_alerts db' ! 0) = Some 77"
    using reorg_retracts_exactly_the_orphaned [OF ok _ _ _ _ run] by (auto simp: f_def db_def a_def Let_def)
  with run show ?thesis unfolding db_def f_def a_def by blast
qed

text \<open>
  A completed reorg check is idempotent: run again on an unchanged chain with a store that answers, it
  finds no divergence and retracts nothing more, so a reorganisation is corrected once and not on every cycle.
\<close>

theorem reorg_check_idempotent:
  assumes "db_ok db" and "w \<noteq> 0" and "tip \<noteq> 0"
    and "f (reorg_from w tip) tip = Inr observed" and "distinct (map lh_Ledger observed)"
    and "\<forall>h \<in> set observed. reorg_from w tip \<le> lh_Ledger h \<and> lh_Ledger h \<le> tip"
    and "detectReorg network w (Some f) (Inr tip) now db = (db', Inr d)" and "db_faults db' = []"
  shows "\<exists>db''. detectReorg network w (Some f) (Inr tip) later db' = (db'', Inr 0) \<and> db_alerts db'' = db_alerts db'"
proof -
  have "earliest_change (compared network w tip db') observed = 0"
    using assms(7)
  proof (cases rule: detectReorg_cases)
    case idle
    then have "observed = []" using assms(2,3,4) by auto
    then show ?thesis by (simp add: earliest_change_def)
  next
    case (checked f' tip' obs stored db1 db2 db3)
    then have e: "f' = f" "tip' = tip" "obs = observed" using assms(4) by auto
    have "\<forall>l. reorg_from w tip \<le> l \<longrightarrow> windowOf network db' l = windowOf network db3 l"
      using checked(11) window_after_prune e by (auto split: if_splits)
    then show ?thesis using recorded_unchanged checked(10) assms(5,6) e by blast
  qed
  then show ?thesis
    using second_check [where f = f and now = later, OF detectReorg_db_ok [OF assms(1,7)] assms(8,2,3,4,6)] by metis
qed

theorem reorg_check_idempotent_witness:
  "\<exists>db' d db''. detectReorg '''' 2 (Some (\<lambda>a b. Inr [\<lparr>lh_Ledger = 9, lh_Hash = ''h''\<rparr>])) (Inr 9) 77
     \<lparr>db_ingest_state = None, db_network_ingest_state = [], db_cursors = [], db_ledger_hashes = [(9, ''g'')],
      db_network_ledger_hashes = [], db_alerts = [], db_monitored = [], db_gaps = [], db_faults = []\<rparr> = (db', Inr d)
   \<and> detectReorg '''' 2 (Some (\<lambda>a b. Inr [\<lparr>lh_Ledger = 9, lh_Hash = ''h''\<rparr>])) (Inr 9) 78 db' = (db'', Inr 0)"
proof -
  define db where "db = \<lparr>db_ingest_state = None, db_network_ingest_state = [], db_cursors = [],
      db_ledger_hashes = [(9, ''g'')], db_network_ledger_hashes = [], db_alerts = [] :: AlertRow list, db_monitored = [],
      db_gaps = [], db_faults = []\<rparr>"
  define f where "f = (\<lambda>(a :: uint32) (b :: uint32). Inr [\<lparr>lh_Ledger = 9, lh_Hash = ''h''\<rparr>] :: hash_error + LedgerHash list)"
  obtain db' d where run: "detectReorg '''' 2 (Some f) (Inr 9) 77 db = (db', Inr d)" and nf: "db_faults db' = []"
    using detectReorg_succeeds [of db f 2 9 "[\<lparr>lh_Ledger = 9, lh_Hash = ''h''\<rparr>]" "''''" 77]
    by (auto simp: db_def f_def)
  have ok: "db_ok db" by (simp add: db_def db_ok_def keyed_def)
  have "\<exists>db''. detectReorg '''' 2 (Some f) (Inr 9) 78 db' = (db'', Inr 0) \<and> db_alerts db'' = db_alerts db'"
    by (rule reorg_check_idempotent [where observed = "[\<lparr>lh_Ledger = 9, lh_Hash = ''h''\<rparr>]", OF ok _ _ _ _ _ run nf])
       (simp_all add: f_def reorg_from_def)
  with run show ?thesis unfolding db_def f_def by blast
qed

text \<open>
  When the check finds a reorganisation and the rewind is stored, the cycle resumes before the
  divergence: the checkpoint it goes on with and every contract cursor of the network lie below the first
  orphaned ledger, so the replacement chain is read again, and the cursors of other networks do not move.
\<close>

theorem reorg_rewinds_below_divergence:
  assumes "db_ok db" and "w \<noteq> 0" and "tip \<noteq> 0" and "f (reorg_from w tip) tip = Inr observed"
    and "\<forall>h \<in> set observed. lh_Ledger h \<noteq> 0"
    and "d = earliest_change (compared network w tip db) observed" and "d \<noteq> 0"
    and "detectReorg network w (Some f) (Inr tip) now db = (db1, Inr d')"
    and "reorgStep network w (Some f) (Inr tip) now state db = (db', Inr state')"
  shows "is_LastLedger state' < d \<and> (\<forall>c l. cursorOf network c db' = Some l \<longrightarrow> l < d)
    \<and> (\<forall>n c. n \<noteq> network \<longrightarrow> cursorOf n c db' = cursorOf n c db1)"
proof -
  have d': "d' = d" using detectReorg_result(1) [OF assms(1,8,2,3,4,5)] assms(6) by simp
  have below: "l < d" if "l \<le> d - 1" for l
    using that ledger_pred_less [OF assms(7)] by simp
  from assms(9) d' \<open>d \<noteq> 0\<close> obtain db2 db3 u where
    s: "(if d - 1 < is_LastLedger state
           then (let st = state\<lparr>is_LastLedger := d - 1, is_LastCursor := ''''\<rparr> in
                 sbind (SetIngestState network st) (\<lambda>_. sreturn st))
           else sreturn state) db1 = (db2, Inr state')"
    and r: "RewindContractCursors network (d - 1) db2 = (db', Inr u)"
    unfolding reorgStep_def assms(8) by (auto simp: sreturn_def elim!: sbind_Inr)
  have "is_LastLedger state' \<le> d - 1"
    using s by (auto simp: sreturn_def Let_def not_less elim!: sbind_Inr split: if_splits)
  moreover have c: "cursorOf n c db2 = cursorOf n c db1" for n c
    using s cursor_statements_frame(4) [of network "state\<lparr>is_LastLedger := d - 1, is_LastCursor := ''''\<rparr>" db1]
    by (auto simp: cursorOf_def sreturn_def Let_def elim!: sbind_Inr split: if_splits)
  ultimately show ?thesis
    using below cursorOf_rewind [OF r] by (auto simp: c option.map_ident)
qed

theorem reorg_rewinds_below_divergence_witness:
  "\<exists>db' state'. reorgStep '''' 3 (Some (\<lambda>a b. Inr [\<lparr>lh_Ledger = 8, lh_Hash = ''new''\<rparr>])) (Inr 9) 77
       \<lparr>is_LastLedger = 9, is_LastCursor = ''c''\<rparr>
       \<lparr>db_ingest_state = Some \<lparr>is_LastLedger = 9, is_LastCursor = ''c''\<rparr>, db_network_ingest_state = [],
        db_cursors = [(('''', ''C1''), 9)], db_ledger_hashes = [(8, ''old'')], db_network_ledger_hashes = [],
        db_alerts = [], db_monitored = [], db_gaps = [], db_faults = []\<rparr> = (db', Inr state')
     \<and> is_LastLedger state' < 8 \<and> (\<forall>c l. cursorOf '''' c db' = Some l \<longrightarrow> l < 8)"
proof -
  define st where "st = \<lparr>is_LastLedger = 9, is_LastCursor = ''c''\<rparr>"
  define db where "db = \<lparr>db_ingest_state = Some st, db_network_ingest_state = [],
        db_cursors = [(('''', ''C1''), 9)], db_ledger_hashes = [(8, ''old'')], db_network_ledger_hashes = [],
        db_alerts = [] :: AlertRow list, db_monitored = [], db_gaps = [], db_faults = []\<rparr>"
  define f where "f = (\<lambda>(a :: uint32) (b :: uint32). Inr [\<lparr>lh_Ledger = 8, lh_Hash = ''new''\<rparr>] :: hash_error + LedgerHash list)"
  have ok: "db_ok db" by (simp add: db_def db_ok_def keyed_def)
  have fr: "reorg_from 3 9 = 7" by (simp add: reorg_from_def)
  obtain db1 d' where run: "detectReorg '''' 3 (Some f) (Inr 9) 77 db = (db1, Inr d')" and nf: "db_faults db1 = []"
    using detectReorg_succeeds [of db f 3 9 "[\<lparr>lh_Ledger = 8, lh_Hash = ''new''\<rparr>]" "''''" 77]
    by (auto simp: db_def f_def)
  have e: "earliest_change (compared '''' 3 9 db) [\<lparr>lh_Ledger = 8, lh_Hash = ''new''\<rparr>] = 8"
    by (simp add: earliest_change_def changed_def compared_def fr windowOf_alt db_def)
  have d': "d' = 8" using detectReorg_result(1) [OF ok run _ _ _ _] e by (auto simp: f_def)
  obtain db' state' where step: "reorgStep '''' 3 (Some f) (Inr 9) 77 st db = (db', Inr state')"
    unfolding reorgStep_def run using nf
    by (auto simp: d' st_def sbind_def sreturn_def SetIngestState_def RewindContractCursors_def sql_def next_fault_def Let_def)
  have "is_LastLedger state' < 8 \<and> (\<forall>c l. cursorOf '''' c db' = Some l \<longrightarrow> l < 8)
    \<and> (\<forall>n c. n \<noteq> '''' \<longrightarrow> cursorOf n c db' = cursorOf n c db1)"
    by (rule reorg_rewinds_below_divergence
          [where d = 8 and observed = "[\<lparr>lh_Ledger = 8, lh_Hash = ''new''\<rparr>]", OF ok _ _ _ _ _ _ run step])
       (simp_all add: f_def e)
  with step show ?thesis unfolding db_def f_def st_def by blast
qed

lemma sql_next: "next_fault db = None \<Longrightarrow> sql stmt db = (case stmt (db\<lparr>db_faults := tl (db_faults db)\<rparr>) of (db', a) \<Rightarrow> (db', Inr a))"
  by (simp add: sql_def)

lemma sql_failed: "next_fault db = Some e \<Longrightarrow> sql stmt db = (db\<lparr>db_faults := tl (db_faults db)\<rparr>, Inl e)"
  by (simp add: sql_def)

text \<open>The check with every statement succeeding but the prune.\<close>

lemma detectReorg_prune_failed:
  assumes ok: "db_ok db" and w: "w \<noteq> 0" "tip \<noteq> 0" and old: "1 < reorg_from w tip"
    and f: "f (reorg_from w tip) tip = Inr observed" and nz: "\<forall>h \<in> set observed. lh_Ledger h \<noteq> 0"
    and d: "d = earliest_change (compared network w tip db) observed" "d \<noteq> 0"
    and faults: "db_faults db = [None, None, None, Some e]"
  obtains db2 db3 where "detectReorg network w (Some f) (Inr tip) now db = (db3, Inl e)"
    and "RecordLedgerHashes network observed db2 = (db3\<lparr>db_faults := [Some e]\<rparr>, Inr ())"
    and "db_alerts db3 = map (retract network d now) (db_alerts db)"
    and "db_cursors db3 = db_cursors db" and "db_faults db3 = []" and "db_ok db3"
proof -
  define rows where "rows = map (\<lambda>(l, h). \<lparr>lh_Ledger = l, lh_Hash = h\<rparr>)
      (sort_key fst (filter (\<lambda>(l, h). reorg_from w tip \<le> l \<and> l \<le> tip)
        (window_rows network (db\<lparr>db_faults := [None, None, Some e]\<rparr>))))"
  have ne: "observed \<noteq> []" using d by (auto simp: earliest_change_def)
  have rd: "LedgerHashes network (reorg_from w tip) tip db = (db\<lparr>db_faults := [None, None, Some e]\<rparr>, Inr rows)"
    using faults by (simp add: LedgerHashes_def sql_next next_fault_def rows_def)
  have "hash_map rows = compared network w tip db"
    using pg_window.rd_rows [OF ok rd] by (auto simp: compared_def)
  then have dv: "divergence_loop (hash_map rows) 0 observed = d" using divergence_loop_start [OF nz] d(1) by simp
  define db2 where "db2 = db\<lparr>db_alerts := map (retract network d now) (db_alerts db), db_faults := [None, Some e]\<rparr>"
  obtain n where rt: "RetractAlertsFromLedger network d now (db\<lparr>db_faults := [None, None, Some e]\<rparr>) = (db2, Inr n)"
    by (simp add: RetractAlertsFromLedger_def sql_next next_fault_def db2_def)
  define db3 where "db3 = (fold (upsert_hash network) observed (db2\<lparr>db_faults := [Some e]\<rparr>))\<lparr>db_faults := []\<rparr>"
  have rc: "RecordLedgerHashes network observed db2 = (db3\<lparr>db_faults := [Some e]\<rparr>, Inr ())"
    using ne by (simp add: RecordLedgerHashes_def sql_next next_fault_def db2_def db3_def)
  have pr: "PruneLedgerHashes network (reorg_from w tip) (db3\<lparr>db_faults := [Some e]\<rparr>) = (db3, Inl e)"
    by (simp add: PruneLedgerHashes_def sql_failed next_fault_def db3_def)
  have run: "detectReorg network w (Some f) (Inr tip) now db = (db3, Inl e)"
    using w old f ne d(2) by (simp add: detectReorg_def sbind_def Let_def rd dv rt rc pr sreturn_def)
  have "db_ok db2" using ok by (simp add: db2_def)
  then have "db_ok db3" by (simp add: db3_def)
  then show thesis by (rule that [OF run rc, rotated 3]) (simp_all add: db3_def db2_def)
qed

text \<open>
  A store error at the prune hides a reorganisation for good. The hashes of the new chain are already
  recorded when the prune fails, so the cycle goes on without a rewind although alerts were retracted, and
  the next check, on a store that answers, compares against the new hashes and finds nothing: checkpoint
  and cursors stay past the divergence and the replacement chain is never read.
\<close>

theorem prune_failure_skips_the_rewind:
  assumes "db_ok db" and "w \<noteq> 0" and "tip \<noteq> 0" and "1 < reorg_from w tip"
    and "f (reorg_from w tip) tip = Inr observed" and "distinct (map lh_Ledger observed)"
    and "\<forall>h \<in> set observed. reorg_from w tip \<le> lh_Ledger h \<and> lh_Ledger h \<le> tip"
    and "d = earliest_change (compared network w tip db) observed" and "d \<noteq> 0"
    and "db_faults db = [None, None, None, Some e]"
  shows "\<exists>db1 db2. reorgStep network w (Some f) (Inr tip) now state db = (db1, Inr state)
      \<and> db_alerts db1 = map (retract network d now) (db_alerts db) \<and> db_cursors db1 = db_cursors db
      \<and> reorgStep network w (Some f) (Inr tip) later state db1 = (db2, Inr state)"
proof -
  have nz: "\<forall>h \<in> set observed. lh_Ledger h \<noteq> 0"
    using assms(7) reorg_from_bounds(1) [OF assms(2,3)] by (metis word_le_0_iff zero_neq_one)
  obtain db0 db1 where r1: "detectReorg network w (Some f) (Inr tip) now db = (db1, Inl e)"
    and rc: "RecordLedgerHashes network observed db0 = (db1\<lparr>db_faults := [Some e]\<rparr>, Inr ())"
    and a: "db_alerts db1 = map (retract network d now) (db_alerts db)" "db_cursors db1 = db_cursors db"
    and ok: "db_faults db1 = []" "db_ok db1"
    by (rule detectReorg_prune_failed [where f = f and now = now, OF assms(1,2,3,4,5) nz assms(8,9,10)])
  have "earliest_change (compared network w tip db1) observed = 0"
    by (rule recorded_unchanged [OF rc assms(6) _ assms(7)]) simp
  then obtain db2 where "detectReorg network w (Some f) (Inr tip) later db1 = (db2, Inr 0)"
    using second_check [where f = f and now = later, OF ok(2,1) assms(2,3,5,7)] by metis
  then show ?thesis using r1 a by (auto simp: reorgStep_def)
qed

theorem prune_failure_skips_the_rewind_witness:
  "\<exists>db1 db2. reorgStep '''' 2 (Some (\<lambda>a b. Inr [\<lparr>lh_Ledger = 8, lh_Hash = ''new''\<rparr>])) (Inr 9) 77
       \<lparr>is_LastLedger = 9, is_LastCursor = ''''\<rparr>
       \<lparr>db_ingest_state = Some \<lparr>is_LastLedger = 9, is_LastCursor = ''''\<rparr>, db_network_ingest_state = [],
        db_cursors = [(('''', ''C1''), 9)], db_ledger_hashes = [(8, ''old'')], db_network_ledger_hashes = [],
        db_alerts = [], db_monitored = [], db_gaps = [], db_faults = [None, None, None, Some ''timeout'']\<rparr>
       = (db1, Inr \<lparr>is_LastLedger = 9, is_LastCursor = ''''\<rparr>)
     \<and> db_cursors db1 = [(('''', ''C1''), 9)]
     \<and> reorgStep '''' 2 (Some (\<lambda>a b. Inr [\<lparr>lh_Ledger = 8, lh_Hash = ''new''\<rparr>])) (Inr 9) 78
         \<lparr>is_LastLedger = 9, is_LastCursor = ''''\<rparr> db1 = (db2, Inr \<lparr>is_LastLedger = 9, is_LastCursor = ''''\<rparr>)"
proof -
  define st where "st = \<lparr>is_LastLedger = 9, is_LastCursor = ''''\<rparr>"
  define db where "db = \<lparr>db_ingest_state = Some st, db_network_ingest_state = [],
        db_cursors = [(('''', ''C1''), 9)], db_ledger_hashes = [(8, ''old'')], db_network_ledger_hashes = [],
        db_alerts = [] :: AlertRow list, db_monitored = [], db_gaps = [], db_faults = [None, None, None, Some ''timeout'']\<rparr>"
  define f where "f = (\<lambda>(a :: uint32) (b :: uint32). Inr [\<lparr>lh_Ledger = 8, lh_Hash = ''new''\<rparr>] :: hash_error + LedgerHash list)"
  have ok: "db_ok db" by (simp add: db_def db_ok_def keyed_def)
  have fr: "reorg_from 2 9 = 8" by (simp add: reorg_from_def)
  have e: "earliest_change (compared '''' 2 9 db) [\<lparr>lh_Ledger = 8, lh_Hash = ''new''\<rparr>] = 8"
    by (simp add: earliest_change_def changed_def compared_def fr windowOf_alt db_def)
  have "\<exists>db1 db2. reorgStep '''' 2 (Some f) (Inr 9) 77 st db = (db1, Inr st)
      \<and> db_alerts db1 = map (retract '''' 8 77) (db_alerts db) \<and> db_cursors db1 = db_cursors db
      \<and> reorgStep '''' 2 (Some f) (Inr 9) 78 st db1 = (db2, Inr st)"
    by (rule prune_failure_skips_the_rewind
          [where observed = "[\<lparr>lh_Ledger = 8, lh_Hash = ''new''\<rparr>]" and e = "''timeout''", OF ok])
       (simp_all add: f_def fr e, simp add: db_def)
  then show ?thesis unfolding db_def f_def st_def by auto
qed

end
