(* ===== verification/Watch_Topics.thy ===== *)
theory Watch_Topics
  imports Stellar_Event Poll_Schedule "HOL-Library.List_Lexorder" "HOL-Library.Char_ord"
begin

text \<open>
  \<open>internal/poller/topics.go\<close> and the opening of \<open>Poll\<close> (\<open>internal/poller/poller.go\<close>): which contracts a
  cycle watches and which server-side topic filter each of them gets.

  Three answers come from elsewhere and are parameters: \<open>names\<close> is \<open>Registry.EventNames\<close> on a rule, \<open>None\<close>
  when the rule may match events it cannot name; \<open>valid\<close> is \<open>stellar.IsValidContractID\<close> and \<open>symbol\<close> is
  \<open>stellar.SymbolTopicFilter\<close>, both of which encode with the Stellar SDK, \<open>None\<close> when the encoding fails.
  A Go \<open>nil\<close> filter list is the empty list, which means that nothing is filtered.
\<close>

definition maxTopicFilters :: nat where "maxTopicFilters = 5"

fun collect_names :: "(Rule \<Rightarrow> string list option) \<Rightarrow> Rule list \<Rightarrow> string list \<Rightarrow> string list option" where
  "collect_names names [] seen = Some seen"
| "collect_names names (rule # rules) seen =
     (case names rule of None \<Rightarrow> None | Some ns \<Rightarrow> collect_names names rules (seen @ ns))"

definition sortedKeys :: "string list \<Rightarrow> string list" where
  "sortedKeys seen = sort (remdups seen)"

definition ruleEventNames :: "(Rule \<Rightarrow> string list option) \<Rightarrow> Rule list \<Rightarrow> string list option" where
  "ruleEventNames names ruleList = map_option sortedKeys (collect_names names ruleList [])"

fun symbol_filters :: "(string \<Rightarrow> string list option) \<Rightarrow> string list \<Rightarrow> string list list \<Rightarrow> string list list" where
  "symbol_filters symbol [] out = out"
| "symbol_filters symbol (name # ns) out =
     (case symbol name of None \<Rightarrow> [] | Some f \<Rightarrow> symbol_filters symbol ns (out @ [f]))"

definition topicFiltersFor :: "(string \<Rightarrow> string list option) \<Rightarrow> string list \<Rightarrow> string list list" where
  "topicFiltersFor symbol names =
     (if names = [] \<or> maxTopicFilters < length names then [] else symbol_filters symbol names [])"

definition WatchesFor ::
  "(Rule \<Rightarrow> string list option) \<Rightarrow> (string \<Rightarrow> bool) \<Rightarrow> (string \<Rightarrow> string list option) \<Rightarrow> Rule list \<Rightarrow> string list \<Rightarrow> Watch list" where
  "WatchesFor names valid symbol ruleList contracts =
     (let topics = (case ruleEventNames names ruleList of None \<Rightarrow> [] | Some ns \<Rightarrow> topicFiltersFor symbol ns) in
      map (\<lambda>c. \<lparr>wt_ContractID = c, wt_Topics = topics\<rparr>) (filter valid contracts))"

subsection \<open>The watch list of a cycle\<close>

text \<open>
  The maps \<open>Poll\<close> fills while it walks the monitors. A contract is in \<open>byContract\<close> as soon as one monitor
  watches it, so an empty list means that it has no entry.
\<close>

record watch_acc =
  wa_contracts :: "string list"
  wa_byContract :: "string \<Rightarrow> Monitor list"
  wa_names :: "string \<Rightarrow> string list"
  wa_unfilterable :: "string \<Rightarrow> bool"
  wa_prio :: "string \<Rightarrow> string"

definition watch_acc0 :: watch_acc where
  "watch_acc0 = \<lparr>wa_contracts = [], wa_byContract = (\<lambda>c. []), wa_names = (\<lambda>c. []),
                 wa_unfilterable = (\<lambda>c. False), wa_prio = (\<lambda>c. '''')\<rparr>"

definition watch_contract :: "(string \<Rightarrow> bool) \<Rightarrow> string list option \<Rightarrow> Monitor \<Rightarrow> string \<Rightarrow> watch_acc \<Rightarrow> watch_acc" where
  "watch_contract valid names m c acc =
     (if \<not> valid c then acc
      else (let seen = (wa_byContract acc c \<noteq> []);
                acc1 = (if \<not> seen
                        then acc\<lparr>wa_contracts := wa_contracts acc @ [c],
                                 wa_prio := (wa_prio acc)(c := Priority_Normalized (mo_Priority m))\<rparr>
                        else if Priority_Rank (wa_prio acc c) < Priority_Rank (mo_Priority m)
                        then acc\<lparr>wa_prio := (wa_prio acc)(c := Priority_Normalized (mo_Priority m))\<rparr>
                        else acc);
                acc2 = acc1\<lparr>wa_byContract := (wa_byContract acc1)(c := wa_byContract acc1 c @ [m])\<rparr> in
            if wa_unfilterable acc2 c then acc2
            else case names of
                   None \<Rightarrow> acc2\<lparr>wa_unfilterable := (wa_unfilterable acc2)(c := True)\<rparr>
                 | Some ns \<Rightarrow> acc2\<lparr>wa_names := (wa_names acc2)(c := wa_names acc2 c @ ns)\<rparr>))"

fun watch_monitors ::
  "(Rule \<Rightarrow> string list option) \<Rightarrow> (string \<Rightarrow> bool) \<Rightarrow> (int \<Rightarrow> string + Rule list) \<Rightarrow> Monitor list \<Rightarrow> watch_acc \<Rightarrow> string + watch_acc" where
  "watch_monitors names valid listRules [] acc = Inr acc"
| "watch_monitors names valid listRules (m # ms) acc =
     (case listRules (mo_ID m) of
        Inl err \<Rightarrow> Inl err
      | Inr ruleList \<Rightarrow>
          watch_monitors names valid listRules ms
            (fold (watch_contract valid (ruleEventNames names ruleList) m) (mo_ContractIDs m) acc))"

definition scheduled_of :: "(string \<Rightarrow> string list option) \<Rightarrow> watch_acc \<Rightarrow> scheduledContract list" where
  "scheduled_of symbol acc =
     map (\<lambda>c. \<lparr>sc_ContractID = c,
               sc_Topics = (if wa_unfilterable acc c then [] else topicFiltersFor symbol (sortedKeys (wa_names acc c))),
               sc_Priority = Priority_Normalized (wa_prio acc c)\<rparr>) (wa_contracts acc)"

text \<open>A poller of one network keeps that network's monitors; one without a network keeps them all.\<close>

definition own_monitors :: "string \<Rightarrow> Monitor list \<Rightarrow> Monitor list" where
  "own_monitors network ms = (if network = '''' then ms else filter (\<lambda>m. mo_Network m = network) ms)"

subsection \<open>Filters cover the names they are built from\<close>

lemma set_sortedKeys [simp]: "set (sortedKeys xs) = set xs"
  by (simp add: sortedKeys_def)

lemma collect_names_Some:
  "collect_names names rules seen = Some out \<longleftrightarrow>
     (\<forall>r \<in> set rules. names r \<noteq> None) \<and> out = seen @ concat (map (\<lambda>r. the (names r)) rules)"
  by (induction rules arbitrary: seen) (auto split: option.splits)

lemma ruleEventNames_Some:
  "ruleEventNames names rules = Some ns \<Longrightarrow> r \<in> set rules \<Longrightarrow> \<exists>rs. names r = Some rs \<and> set rs \<subseteq> set ns"
  by (fastforce simp: ruleEventNames_def collect_names_Some)

lemma symbol_filters_covers:
  "symbol_filters symbol ns out =
     (if \<forall>n \<in> set ns. symbol n \<noteq> None then out @ map (\<lambda>n. the (symbol n)) ns else [])"
  by (induction ns arbitrary: out) (auto split: option.splits)

lemma topicFilters_cover:
  assumes "topicFiltersFor symbol ns \<noteq> []"
  shows "topicFiltersFor symbol ns = map (\<lambda>n. the (symbol n)) ns" and "\<forall>n \<in> set ns. symbol n \<noteq> None"
    and "length ns \<le> maxTopicFilters"
  using assms by (auto simp: topicFiltersFor_def symbol_filters_covers split: if_splits)

text \<open>
  After any prefix of the walk: a contract whose filter may still be narrowed has the names of every monitor
  that watches it, each contract is listed once, and it is listed exactly when some monitor watches it.
\<close>

definition covered :: "(Monitor \<Rightarrow> string list option) \<Rightarrow> watch_acc \<Rightarrow> bool" where
  "covered nm acc \<longleftrightarrow>
     (\<forall>c m. \<not> wa_unfilterable acc c \<longrightarrow> m \<in> set (wa_byContract acc c) \<longrightarrow>
        (\<exists>ns. nm m = Some ns \<and> set ns \<subseteq> set (wa_names acc c)))
     \<and> distinct (wa_contracts acc) \<and> (\<forall>c. c \<in> set (wa_contracts acc) \<longleftrightarrow> wa_byContract acc c \<noteq> [])"

lemma covered_start: "covered nm watch_acc0"
  by (simp add: covered_def watch_acc0_def)

lemma covered_contract:
  "covered nm acc \<Longrightarrow> names = nm m \<Longrightarrow> covered nm (watch_contract valid names m c acc)"
  unfolding covered_def watch_contract_def Let_def
  by (auto split: option.splits) blast+

lemma covered_contracts:
  "covered nm acc \<Longrightarrow> names = nm m \<Longrightarrow> covered nm (fold (watch_contract valid names m) cs acc)"
  by (induction cs arbitrary: acc) (simp_all add: covered_contract)

lemma byContract_contract:
  "set (wa_byContract (watch_contract valid names m c acc) d) =
     set (wa_byContract acc d) \<union> (if d = c \<and> valid c then {m} else {})"
  by (auto simp: watch_contract_def Let_def split: option.splits)

lemma byContract_contracts:
  "set (wa_byContract (fold (watch_contract valid names m) cs acc) d) =
     set (wa_byContract acc d) \<union> (if d \<in> set cs \<and> valid d then {m} else {})"
  by (induction cs arbitrary: acc) (auto simp: byContract_contract)

lemma watch_monitors_covered:
  assumes "watch_monitors names valid listRules ms acc = Inr acc'" and "covered nm acc"
    and "\<forall>m \<in> set ms. \<forall>rs. listRules (mo_ID m) = Inr rs \<longrightarrow> nm m = ruleEventNames names rs"
  shows "covered nm acc' \<and>
    (\<forall>d. set (wa_byContract acc' d) = set (wa_byContract acc d) \<union> {m \<in> set ms. d \<in> set (mo_ContractIDs m) \<and> valid d})"
  using assms
proof (induction ms arbitrary: acc)
  case (Cons m ms)
  then obtain rs where r: "listRules (mo_ID m) = Inr rs" by (auto split: sum.splits)
  let ?acc = "fold (watch_contract valid (ruleEventNames names rs) m) (mo_ContractIDs m) acc"
  have "watch_monitors names valid listRules ms ?acc = Inr acc'" using Cons.prems(1) r by simp
  moreover have "covered nm ?acc" using Cons.prems r by (intro covered_contracts) auto
  ultimately have ih: "covered nm acc' \<and>
      (\<forall>d. set (wa_byContract acc' d) = set (wa_byContract ?acc d) \<union> {m \<in> set ms. d \<in> set (mo_ContractIDs m) \<and> valid d})"
    using Cons.prems(3) by (intro Cons.IH) auto
  then show ?case by (auto simp: byContract_contracts)
qed simp

subsection \<open>Properties\<close>

text \<open>
  When a watched contract is narrowed, every rule of every monitor watching it names its events, the filter of each of
  those names is in the list sent, and the list is no longer than the RPC's cap; in every other case no filter is sent.
\<close>

lemma filter_names_every_rule:
  assumes "watch_monitors names valid listRules ms watch_acc0 = Inr acc"
    and "sc \<in> set (scheduled_of symbol acc)" and "sc_Topics sc \<noteq> []"
    and "m \<in> set ms" and "sc_ContractID sc \<in> set (mo_ContractIDs m)" and "valid (sc_ContractID sc)"
    and "listRules (mo_ID m) = Inr ruleList" and "r \<in> set ruleList"
  shows "\<exists>ns. names r = Some ns \<and> (\<forall>n \<in> set ns. \<exists>f. symbol n = Some f \<and> f \<in> set (sc_Topics sc))
           \<and> length (sc_Topics sc) \<le> maxTopicFilters"
proof -
  let ?c = "sc_ContractID sc"
  define nm where "nm = (\<lambda>m :: Monitor. case listRules (mo_ID m) of Inr rs \<Rightarrow> ruleEventNames names rs | Inl e \<Rightarrow> None)"
  have "covered nm acc \<and> (\<forall>d. set (wa_byContract acc d) =
      set (wa_byContract watch_acc0 d) \<union> {m \<in> set ms. d \<in> set (mo_ContractIDs m) \<and> valid d})"
    by (rule watch_monitors_covered [OF assms(1) covered_start]) (simp add: nm_def)
  then have cov: "covered nm acc" and mem: "m \<in> set (wa_byContract acc ?c)" using assms(4,5,6) by auto
  from assms(2,3) have t: "\<not> wa_unfilterable acc ?c" "sc_Topics sc = topicFiltersFor symbol (sortedKeys (wa_names acc ?c))"
    by (auto simp: scheduled_of_def split: if_splits)
  obtain ns where "nm m = Some ns" "set ns \<subseteq> set (wa_names acc ?c)"
    using cov mem t(1) unfolding covered_def by blast
  then obtain rs where "names r = Some rs" "set rs \<subseteq> set (wa_names acc ?c)"
    using ruleEventNames_Some assms(7,8) by (fastforce simp: nm_def)
  moreover note topicFilters_cover [of symbol "sortedKeys (wa_names acc ?c)"]
  ultimately show ?thesis
    using assms(3) t(2) by (force simp: image_iff)
qed

definition topics_demo_monitor :: Monitor where
  "topics_demo_monitor = \<lparr>mo_ID = 1, mo_WorkspaceID = ''w'', mo_Name = ''m'', mo_Network = '''',
                          mo_ContractIDs = [''C1''], mo_Priority = '''', mo_RunbookURL = '''', mo_ResponseGuidance = ''''\<rparr>"

definition topics_demo_rule :: Rule where
  "topics_demo_rule = \<lparr>ru_ID = 1, ru_Type = ''event_emitted'', ru_Params = '''', ru_Version = 1, ru_Severity = '''',
                        ru_RunbookURL = '''', ru_ResponseGuidance = ''''\<rparr>"

end
