(* ===== verification/Poll_Cycle.thy ===== *)
theory Poll_Cycle
  imports Reorg Watch_Topics
begin

text \<open>
  \<open>Poll\<close> of \<open>internal/poller/poller.go\<close> with \<open>checkRetention\<close>, and \<open>internal/poller/upstream.go\<close>: one ingest
  cycle from the checkpoint to the cursors it stores.

  What the cycle asks of others is a parameter. The event source answers its \<open>n\<close>-th fetch of the cycle with
  \<open>src_fetch n\<close>, and an upstream indexer reports retractions after it with \<open>src_retractions n\<close>; \<open>handle n\<close> is
  \<open>handleEvent\<close> on the \<open>n\<close>-th event of the cycle, which may write to the tables and says whether the event was
  processed. The paging loop ends when the source says so; \<open>pages\<close> runs at most \<open>fuel\<close> fetches and is \<open>None\<close>
  when they do not suffice. Metrics, spans and log lines are not modelled.
\<close>

subsection \<open>Retention\<close>

text \<open>
  \<open>reporter\<close> is the answer of \<open>OldestLedger\<close>, \<open>None\<close> when the source does not report one. The checkpoint is
  passed by reference in the source, so it comes back changed even when storing it fails.
\<close>

definition checkRetention ::
  "string \<Rightarrow> (string + uint32) option \<Rightarrow> gtime \<Rightarrow> IngestState \<Rightarrow> 'x IngestDB_scheme \<Rightarrow> 'x IngestDB_scheme \<times> IngestState \<times> (string + uint32)" where
  "checkRetention network reporter now state db =
     (case reporter of
        None \<Rightarrow> (db, state, Inr 0)
      | Some answer \<Rightarrow>
          if is_LastLedger state = 0 then (db, state, Inr 0)
          else case answer of
            Inl err \<Rightarrow> (db, state, Inl err)
          | Inr oldest \<Rightarrow>
              if oldest < 2 \<or> oldest \<le> is_LastLedger state + 1 then (db, state, Inr oldest)
              else (let (db1, ignored) = RecordRetentionGap network (is_LastLedger state + 1) (oldest - 1) now db;
                        state' = state\<lparr>is_LastLedger := oldest - 1, is_LastCursor := ''''\<rparr>
                    in case SetIngestState network state' db1 of
                         (db2, Inl err) \<Rightarrow> (db2, state', Inl err)
                       | (db2, Inr u) \<Rightarrow> (db2, state', Inr oldest)))"

subsection \<open>Upstream retractions\<close>

datatype upstream_effect = UCompleteEscalation int | URetractionNotice AlertRow

fun affected_loop :: "string list \<Rightarrow> AlertRow list \<Rightarrow> uint32 \<Rightarrow> uint32 \<times> AlertRow list" where
  "affected_loop ids [] retractedFrom = (retractedFrom, [])"
| "affected_loop ids (a # as) retractedFrom =
     (if (0 < retractedFrom \<and> retractedFrom \<le> ar_Ledger a) \<or> (ar_EventID a \<noteq> '''' \<and> ar_EventID a \<in> set ids)
      then (let r' = (if 0 < ar_Ledger a \<and> (retractedFrom = 0 \<or> ar_Ledger a < retractedFrom)
                      then ar_Ledger a else retractedFrom);
                (r'', out) = affected_loop ids as r'
            in (r'', a # out))
      else affected_loop ids as retractedFrom)"

definition rewind_upstream :: "string \<Rightarrow> uint32 \<Rightarrow> IngestState \<Rightarrow> 'x IngestDB_scheme \<Rightarrow> 'x IngestDB_scheme \<times> IngestState \<times> (string + unit)" where
  "rewind_upstream network rewindTo state db =
     (if rewindTo < is_LastLedger state
      then (let state' = state\<lparr>is_LastLedger := rewindTo, is_LastCursor := ''''\<rparr> in
            case SetIngestState network state' db of
              (db1, Inl err) \<Rightarrow> (db1, state', Inl err)
            | (db1, Inr u) \<Rightarrow> (case RewindContractCursors network rewindTo db1 of (db2, r) \<Rightarrow> (db2, state', r)))
      else (case RewindContractCursors network rewindTo db of (db2, r) \<Rightarrow> (db2, state, r)))"

definition reconcileUpstreamRetractions ::
  "string \<Rightarrow> ('x IngestDB_scheme \<Rightarrow> AlertRow list) \<Rightarrow> (int \<Rightarrow> bool) \<Rightarrow> gtime \<Rightarrow> uint32 \<Rightarrow> string list \<Rightarrow> IngestState \<Rightarrow> 'x IngestDB_scheme
     \<Rightarrow> 'x IngestDB_scheme \<times> IngestState \<times> upstream_effect list" where
  "reconcileUpstreamRetractions network listAlerts delivered now retractedFrom retractedIDs state db =
     (if retractedFrom = 0 \<and> retractedIDs = [] then (db, state, [])
      else (let (from, affected) = affected_loop retractedIDs (listAlerts db) retractedFrom;
                notices = concat (map (\<lambda>a. UCompleteEscalation (ar_ID a)
                                        # (if delivered (ar_ID a) then [URetractionNotice a] else [])) affected)
            in if 0 < from
               then (case RetractAlertsFromLedger network from now db of
                       (db1, Inl err) \<Rightarrow> (db1, state, [])
                     | (db1, Inr n) \<Rightarrow>
                         (case rewind_upstream network (if 1 < from then from - 1 else 0) state db1 of
                            (db2, state', Inl err) \<Rightarrow> (db2, state', [])
                          | (db2, state', Inr u) \<Rightarrow> (db2, state', notices)))
               else (db, state, notices)))"

subsection \<open>Where each contract starts\<close>

definition place_watch ::
  "string \<Rightarrow> bool \<Rightarrow> uint32 \<Rightarrow> uint32 \<Rightarrow> IngestState \<Rightarrow> (string \<Rightarrow> uint32 option) \<Rightarrow> Watch \<Rightarrow> ('x IngestDB_scheme, uint32) fallible" where
  "place_watch network coldStart coldStartLedger oldestRetained state cursorByContract w =
     (let c = wt_ContractID w in
      sbind (case cursorByContract c of
               Some l \<Rightarrow> sreturn l
             | None \<Rightarrow>
                 (let l = (if coldStart \<and> is_LastLedger state = 0 \<and> 0 < coldStartLedger
                           then coldStartLedger - 1 else is_LastLedger state) in
                  sbind (InitializeContractCursor network c l) (\<lambda>_. sreturn l))) (\<lambda>lastLedger.
      sbind (if 1 < oldestRetained \<and> lastLedger + 1 < oldestRetained
             then sbind (AdvanceContractCursor network c (oldestRetained - 1)) (\<lambda>_. sreturn (oldestRetained - 1))
             else sreturn lastLedger) (\<lambda>lastLedger'.
      sreturn (lastLedger' + 1))))"

fun add_to_group :: "uint32 \<Rightarrow> Watch \<Rightarrow> (uint32 \<times> Watch list) list \<Rightarrow> (uint32 \<times> Watch list) list" where
  "add_to_group start w [] = [(start, [w])]"
| "add_to_group start w ((s, ws) # gs) = (if s = start then (s, ws @ [w]) # gs else (s, ws) # add_to_group start w gs)"

fun place_watches ::
  "(Watch \<Rightarrow> ('x IngestDB_scheme, uint32) fallible) \<Rightarrow> Watch list \<Rightarrow> (uint32 \<times> Watch list) list
     \<Rightarrow> ('x IngestDB_scheme, (uint32 \<times> Watch list) list) fallible" where
  "place_watches place [] groups = sreturn (sort_key fst groups)"
| "place_watches place (w # ws) groups = sbind (place w) (\<lambda>start. place_watches place ws (add_to_group start w groups))"

subsection \<open>Paging\<close>

datatype fetch_err = ErrInvalidCursor string | FetchFailed string

record FetchPage =
  fp_Events :: "DecodedEvent list"
  fp_LatestLedger :: uint32
  fp_NextCursor :: string

record poll_source =
  src_fetch :: "nat \<Rightarrow> uint32 \<Rightarrow> Watch list \<Rightarrow> string \<Rightarrow> fetch_err + FetchPage"
  src_upstream :: bool
  src_retractions :: "nat \<Rightarrow> uint32 \<times> string list"
  src_chainHead :: uint32

record 'x poll_env =
  pv_network :: string
  pv_source :: poll_source
  pv_handle :: "nat \<Rightarrow> DecodedEvent \<Rightarrow> 'x IngestDB_scheme \<Rightarrow> 'x IngestDB_scheme \<times> bool"
  pv_listAlerts :: "'x IngestDB_scheme \<Rightarrow> AlertRow list"
  pv_delivered :: "int \<Rightarrow> bool"
  pv_now :: gtime
  pv_confirmed :: "uint32 option"
  pv_single :: bool

record page_state =
  ps_cursor :: string
  ps_reanchored :: bool
  ps_groupCheckpoint :: uint32
  ps_failed :: "string \<Rightarrow> uint32 option"
  ps_checkpoint :: uint32
  ps_tip :: uint32
  ps_state :: IngestState
  ps_fetches :: nat
  ps_events :: nat
  ps_seen :: "DecodedEvent list"
  ps_handled :: "(DecodedEvent \<times> bool) list"
  ps_effects :: "upstream_effect list"

text \<open>
  \<open>ps_fetches\<close> and \<open>ps_events\<close> count the fetches and the handled events of the cycle. \<open>ps_seen\<close> and
  \<open>ps_handled\<close> are the history of the current group: the events its pages held, and those handed to the
  handler with its answer.

  An event is left for later when its contract is not in the group or when it is not confirmed yet.
\<close>

definition eligible :: "'x poll_env \<Rightarrow> string list \<Rightarrow> DecodedEvent \<Rightarrow> bool" where
  "eligible env grp e \<longleftrightarrow> de_ContractID e \<in> set grp
     \<and> (case pv_confirmed env of None \<Rightarrow> True | Some through \<Rightarrow> \<not> through < de_Ledger e)"

definition note_failure :: "DecodedEvent \<Rightarrow> (string \<Rightarrow> uint32 option) \<Rightarrow> string \<Rightarrow> uint32 option" where
  "note_failure e failed =
     (case failed (de_ContractID e) of
        Some prior \<Rightarrow> if de_Ledger e < prior then failed(de_ContractID e \<mapsto> de_Ledger e) else failed
      | None \<Rightarrow> failed(de_ContractID e \<mapsto> de_Ledger e))"

fun handle_events :: "'x poll_env \<Rightarrow> string list \<Rightarrow> DecodedEvent list \<Rightarrow> page_state \<Rightarrow> 'x IngestDB_scheme \<Rightarrow> page_state \<times> 'x IngestDB_scheme" where
  "handle_events env grp [] ps db = (ps, db)"
| "handle_events env grp (e # es) ps db =
     (let ps1 = ps\<lparr>ps_seen := ps_seen ps @ [e]\<rparr> in
      if eligible env grp e
      then (case pv_handle env (ps_events ps) e db of
              (db', ok) \<Rightarrow>
                handle_events env grp es
                  (ps1\<lparr>ps_events := ps_events ps + 1, ps_handled := ps_handled ps @ [(e, ok)],
                       ps_failed := (if ok then ps_failed ps else note_failure e (ps_failed ps))\<rparr>) db')
      else handle_events env grp es ps1 db)"

definition note_latest :: "'x poll_env \<Rightarrow> FetchPage \<Rightarrow> page_state \<Rightarrow> page_state" where
  "note_latest env page ps =
     (let latest = fp_LatestLedger page;
          gc1 = (if 0 < latest \<and> (ps_groupCheckpoint ps = 0 \<or> latest < ps_groupCheckpoint ps)
                 then latest else ps_groupCheckpoint ps);
          gc2 = (if fp_NextCursor page = '''' \<and> gc1 < latest \<and> src_upstream (pv_source env) then latest else gc1);
          cp1 = (if 0 < latest \<and> (ps_checkpoint ps = 0 \<or> latest < ps_checkpoint ps) then latest else ps_checkpoint ps);
          cp2 = (if fp_NextCursor page = '''' \<and> pv_single env \<and> cp1 < gc2 then gc2 else cp1)
      in ps\<lparr>ps_groupCheckpoint := gc2, ps_checkpoint := cp2, ps_tip := (if ps_tip ps < latest then latest else ps_tip ps)\<rparr>)"

text \<open>One turn of the paging loop: an error, or the new state and whether another page follows.\<close>

definition page_step ::
  "'x poll_env \<Rightarrow> uint32 \<Rightarrow> Watch list \<Rightarrow> page_state \<Rightarrow> 'x IngestDB_scheme \<Rightarrow> 'x IngestDB_scheme \<times> (string + page_state \<times> bool)" where
  "page_step env groupStart ws ps db =
     (let n = ps_fetches ps; ps0 = ps\<lparr>ps_fetches := n + 1\<rparr> in
      case src_fetch (pv_source env) n groupStart ws (ps_cursor ps) of
        Inl err \<Rightarrow>
          (case err of
             ErrInvalidCursor msg \<Rightarrow>
               if ps_cursor ps \<noteq> '''' \<and> \<not> ps_reanchored ps
               then (let ps1 = ps0\<lparr>ps_reanchored := True, ps_cursor := ''''\<rparr> in
                     if is_LastCursor (ps_state ps) \<noteq> ''''
                     then (let st = (ps_state ps)\<lparr>is_LastCursor := ''''\<rparr> in
                           (fst (SetIngestState (pv_network env) st db), Inr (ps1\<lparr>ps_state := st\<rparr>, True)))
                     else (db, Inr (ps1, True)))
               else (db, Inl msg)
           | FetchFailed msg \<Rightarrow> (db, Inl msg))
      | Inr page \<Rightarrow>
          (let (db1, st1, effects) =
                 (if src_upstream (pv_source env)
                  then reconcileUpstreamRetractions (pv_network env) (pv_listAlerts env) (pv_delivered env) (pv_now env)
                         (fst (src_retractions (pv_source env) n)) (snd (src_retractions (pv_source env) n)) (ps_state ps) db
                  else (db, ps_state ps, []));
               ps1 = note_latest env page (ps0\<lparr>ps_state := st1, ps_effects := ps_effects ps @ effects\<rparr>);
               (ps2, db2) = handle_events env (map wt_ContractID ws) (fp_Events page) ps1 db1
           in if fp_NextCursor page = '''' then (db2, Inr (ps2, False))
              else (db2, Inr (ps2\<lparr>ps_cursor := fp_NextCursor page\<rparr>, True))))"

fun pages ::
  "nat \<Rightarrow> 'x poll_env \<Rightarrow> uint32 \<Rightarrow> Watch list \<Rightarrow> page_state \<Rightarrow> 'x IngestDB_scheme \<Rightarrow> ('x IngestDB_scheme \<times> (string + page_state)) option" where
  "pages 0 env groupStart ws ps db = None"
| "pages (Suc fuel) env groupStart ws ps db =
     (case page_step env groupStart ws ps db of
        (db', Inl err) \<Rightarrow> Some (db', Inl err)
      | (db', Inr (ps', True)) \<Rightarrow> pages fuel env groupStart ws ps' db'
      | (db', Inr (ps', False)) \<Rightarrow> Some (db', Inr ps'))"

subsection \<open>Storing the cursors\<close>

definition capped :: "uint32 option \<Rightarrow> uint32 \<Rightarrow> uint32" where
  "capped confirmed c = (case confirmed of None \<Rightarrow> c | Some through \<Rightarrow> if through < c then through else c)"

definition processedThrough :: "uint32 \<Rightarrow> (string \<Rightarrow> uint32 option) \<Rightarrow> string \<Rightarrow> uint32" where
  "processedThrough groupCheckpoint failed c =
     (case failed c of Some f \<Rightarrow> if f \<le> groupCheckpoint then f - 1 else groupCheckpoint | None \<Rightarrow> groupCheckpoint)"

fun advance_contracts :: "string \<Rightarrow> uint32 \<Rightarrow> (string \<Rightarrow> uint32 option) \<Rightarrow> string list \<Rightarrow> ('x IngestDB_scheme, unit) fallible" where
  "advance_contracts network groupCheckpoint failed [] = sreturn ()"
| "advance_contracts network groupCheckpoint failed (c # cs) =
     (if groupCheckpoint = 0 then advance_contracts network groupCheckpoint failed cs
      else sbind (AdvanceContractCursor network c (processedThrough groupCheckpoint failed c)) (\<lambda>_.
           advance_contracts network groupCheckpoint failed cs))"

definition group_state :: "'x poll_env \<Rightarrow> page_state \<Rightarrow> page_state" where
  "group_state env ps =
     ps\<lparr>ps_groupCheckpoint := 0, ps_failed := (\<lambda>c. None), ps_reanchored := False, ps_seen := [], ps_handled := [],
        ps_cursor := (if pv_single env \<and> is_LastCursor (ps_state ps) \<noteq> '''' then is_LastCursor (ps_state ps) else '''')\<rparr>"

definition run_group ::
  "nat \<Rightarrow> 'x poll_env \<Rightarrow> uint32 \<times> Watch list \<Rightarrow> page_state \<Rightarrow> 'x IngestDB_scheme \<Rightarrow> ('x IngestDB_scheme \<times> (string + page_state)) option" where
  "run_group fuel env g ps db =
     (case pages fuel env (fst g) (snd g) (group_state env ps) db of
        None \<Rightarrow> None
      | Some (db1, Inl err) \<Rightarrow> Some (db1, Inl err)
      | Some (db1, Inr ps1) \<Rightarrow>
          (let gc = capped (pv_confirmed env) (ps_groupCheckpoint ps1) in
           case advance_contracts (pv_network env) gc (ps_failed ps1) (map wt_ContractID (snd g)) db1 of
             (db2, Inl err) \<Rightarrow> Some (db2, Inl err)
           | (db2, Inr u) \<Rightarrow> Some (db2, Inr (ps1\<lparr>ps_groupCheckpoint := gc\<rparr>))))"

fun run_groups ::
  "nat \<Rightarrow> 'x poll_env \<Rightarrow> (uint32 \<times> Watch list) list \<Rightarrow> page_state \<Rightarrow> 'x IngestDB_scheme \<Rightarrow> ('x IngestDB_scheme \<times> (string + page_state)) option" where
  "run_groups fuel env [] ps db = Some (db, Inr ps)"
| "run_groups fuel env (g # gs) ps db =
     (case run_group fuel env g ps db of
        None \<Rightarrow> None
      | Some (db1, Inl err) \<Rightarrow> Some (db1, Inl err)
      | Some (db1, Inr ps1) \<Rightarrow> run_groups fuel env gs ps1 db1)"

subsection \<open>The cycle\<close>

record poll_inputs =
  pi_degraded :: bool
  pi_monitors :: "string + Monitor list"
  pi_rules :: "int \<Rightarrow> string + Rule list"
  pi_names :: "Rule \<Rightarrow> string list option"
  pi_valid :: "string \<Rightarrow> bool"
  pi_symbol :: "string \<Rightarrow> string list option"
  pi_sched :: Scheduler
  pi_coldTip :: "string + uint32"
  pi_reorgWindow :: uint32
  pi_hashes :: "hash_source option"
  pi_reorgTip :: "string + uint32"
  pi_oldest :: "(string + uint32) option"
  pi_confirmDepth :: uint32
  pi_confirmTip :: "string + uint32"

definition err_unavailable :: string where "err_unavailable = ''store unavailable''"

definition confirm_bound :: "uint32 \<Rightarrow> string + uint32 \<Rightarrow> ('s, uint32 option) fallible" where
  "confirm_bound depth answer =
     (if depth = 0 then sreturn None
      else case answer of
             Inl err \<Rightarrow> sfail err
           | Inr tip \<Rightarrow> sreturn (Some (if depth < tip then tip - depth else 0)))"

definition cycle_start ::
  "poll_inputs \<Rightarrow> string \<Rightarrow> gtime \<Rightarrow> Watch list \<Rightarrow> ('x IngestDB_scheme, IngestState \<times> (uint32 \<times> Watch list) list \<times> uint32 option) fallible" where
  "cycle_start inp network now watch =
     sbind (GetIngestState network) (\<lambda>state0.
     sbind (if is_LastLedger state0 = 0
            then (case pi_coldTip inp of Inl err \<Rightarrow> sfail err | Inr latest \<Rightarrow> sreturn latest)
            else sreturn 0) (\<lambda>coldStartLedger.
     sbind (reorgStep network (pi_reorgWindow inp) (pi_hashes inp) (pi_reorgTip inp) now state0) (\<lambda>state1.
     (\<lambda>db. case checkRetention network (pi_oldest inp) now state1 db of
              (db', state2, r) \<Rightarrow>
                sbind (ListContractCursors network) (\<lambda>cursors.
                sbind (place_watches (place_watch network (is_LastLedger state0 = 0) coldStartLedger
                         (case r of Inl err \<Rightarrow> 0 | Inr oldest \<Rightarrow> oldest) state2 (map_of cursors)) watch []) (\<lambda>groups.
                sbind (confirm_bound (pi_confirmDepth inp) (pi_confirmTip inp)) (\<lambda>confirmed.
                sreturn (state2, groups, confirmed)))) db'))))"

definition cycle_state :: "IngestState \<Rightarrow> page_state" where
  "cycle_state st = \<lparr>ps_cursor = '''', ps_reanchored = False, ps_groupCheckpoint = 0, ps_failed = (\<lambda>c. None),
     ps_checkpoint = 0, ps_tip = 0, ps_state = st, ps_fetches = 0, ps_events = 0, ps_seen = [], ps_handled = [], ps_effects = []\<rparr>"

text \<open>The end of the cycle; the result is the position that is published: ledger processed and chain tip.\<close>

definition cycle_end :: "'x poll_env \<Rightarrow> page_state \<Rightarrow> ('x IngestDB_scheme, uint32 \<times> uint32) fallible" where
  "cycle_end env ps =
     (let checkpoint = capped (pv_confirmed env) (ps_checkpoint ps);
          chainTip = (if src_upstream (pv_source env) \<and> ps_tip ps < src_chainHead (pv_source env)
                      then src_chainHead (pv_source env) else ps_tip ps) in
      if is_LastLedger (ps_state ps) < checkpoint
      then sbind (SetIngestState (pv_network env) ((ps_state ps)\<lparr>is_LastLedger := checkpoint, is_LastCursor := ''''\<rparr>)) (\<lambda>_.
           sreturn (checkpoint, chainTip))
      else sreturn (if checkpoint = 0 then is_LastLedger (ps_state ps) else checkpoint, chainTip))"

definition Poll :: "nat \<Rightarrow> poll_inputs \<Rightarrow> 'x poll_env \<Rightarrow> 'x IngestDB_scheme \<Rightarrow> ('x IngestDB_scheme \<times> (string + (uint32 \<times> uint32) option)) option" where
  "Poll fuel inp env db =
     (if pi_degraded inp then Some (db, Inl err_unavailable)
      else case pi_monitors inp of Inl err \<Rightarrow> Some (db, Inl err) | Inr ms \<Rightarrow>
      case watch_monitors (pi_names inp) (pi_valid inp) (pi_rules inp) (own_monitors (pv_network env) ms) watch_acc0 of
        Inl err \<Rightarrow> Some (db, Inl err)
      | Inr acc \<Rightarrow>
      if wa_contracts acc = [] then Some (db, Inr None)
      else case cycle_start inp (pv_network env) (pv_now env) (fst (Order (pi_sched inp) (scheduled_of (pi_symbol inp) acc))) db of
        (db1, Inl err) \<Rightarrow> Some (db1, Inl err)
      | (db1, Inr (state, groups, confirmed)) \<Rightarrow>
      (let env' = env\<lparr>pv_confirmed := confirmed, pv_single := (length groups = 1)\<rparr> in
       case run_groups fuel env' groups (cycle_state state) db1 of
         None \<Rightarrow> None
       | Some (db2, Inl err) \<Rightarrow> Some (db2, Inl err)
       | Some (db2, Inr ps) \<Rightarrow>
           (case cycle_end env' ps db2 of
              (db3, Inl err) \<Rightarrow> Some (db3, Inl err)
            | (db3, Inr pos) \<Rightarrow> Some (db3, Inr (Some pos)))))"

subsection \<open>What the paging loop keeps\<close>

text \<open>
  Every eligible event seen was handed to the handler, every failure holds its contract at or before its
  ledger, and nothing beyond the confirmed ledger was handed over.
\<close>

definition tracked :: "'x poll_env \<Rightarrow> string list \<Rightarrow> page_state \<Rightarrow> bool" where
  "tracked env grp ps \<longleftrightarrow>
     (\<forall>e \<in> set (ps_seen ps). eligible env grp e \<longrightarrow> (\<exists>ok. (e, ok) \<in> set (ps_handled ps)))
     \<and> (\<forall>e. (e, False) \<in> set (ps_handled ps) \<longrightarrow> (\<exists>f. ps_failed ps (de_ContractID e) = Some f \<and> f \<le> de_Ledger e))
     \<and> (\<forall>c f. ps_failed ps c = Some f \<longrightarrow> (\<exists>e. (e, False) \<in> set (ps_handled ps) \<and> de_ContractID e = c \<and> de_Ledger e = f))
     \<and> (\<forall>e ok. (e, ok) \<in> set (ps_handled ps) \<longrightarrow> e \<in> set (ps_seen ps) \<and> eligible env grp e)"

lemma note_failure_self: "\<exists>f. note_failure e failed (de_ContractID e) = Some f \<and> f \<le> de_Ledger e"
  by (auto simp: note_failure_def split: option.splits)

lemma note_failure_le: "failed c = Some f \<Longrightarrow> \<exists>f'. note_failure e failed c = Some f' \<and> f' \<le> f"
  by (auto simp: note_failure_def split: option.splits)

lemma note_failure_source:
  "note_failure e failed c = Some f \<Longrightarrow> failed c = Some f \<or> (c = de_ContractID e \<and> f = de_Ledger e)"
  by (auto simp: note_failure_def split: option.splits if_splits)

lemma tracked_frame:
  "ps_seen ps' = ps_seen ps \<Longrightarrow> ps_handled ps' = ps_handled ps \<Longrightarrow> ps_failed ps' = ps_failed ps \<Longrightarrow>
     tracked env grp ps' = tracked env grp ps"
  by (simp add: tracked_def)

lemma tracked_skip:
  "tracked env grp ps \<Longrightarrow> \<not> eligible env grp e \<Longrightarrow> tracked env grp (ps\<lparr>ps_seen := ps_seen ps @ [e]\<rparr>)"
  by (auto simp: tracked_def)

lemma tracked_ok:
  "tracked env grp ps \<Longrightarrow> eligible env grp e \<Longrightarrow>
     tracked env grp (ps\<lparr>ps_seen := ps_seen ps @ [e], ps_events := n, ps_handled := ps_handled ps @ [(e, True)]\<rparr>)"
  unfolding tracked_def by auto

lemma tracked_failed:
  assumes "tracked env grp ps" and "eligible env grp e"
  shows "tracked env grp (ps\<lparr>ps_seen := ps_seen ps @ [e], ps_events := n, ps_handled := ps_handled ps @ [(e, False)],
           ps_failed := note_failure e (ps_failed ps)\<rparr>)"
proof -
  have "\<exists>f. note_failure e (ps_failed ps) (de_ContractID e') = Some f \<and> f \<le> de_Ledger e'"
    if m: "(e', False) \<in> set (ps_handled ps) \<or> e' = e" for e'
  proof (cases "e' = e")
    case True
    then show ?thesis using note_failure_self by simp
  next
    case False
    then obtain f where "ps_failed ps (de_ContractID e') = Some f" "f \<le> de_Ledger e'"
      using m assms(1) unfolding tracked_def by blast
    then show ?thesis using note_failure_le order_trans by metis
  qed
  moreover have "\<exists>e'. (e' = e \<or> (e', False) \<in> set (ps_handled ps)) \<and> de_ContractID e' = c \<and> de_Ledger e' = f"
    if "note_failure e (ps_failed ps) c = Some f" for c f
    using note_failure_source [OF that] assms(1) unfolding tracked_def by auto blast
  ultimately show ?thesis
    using assms unfolding tracked_def by auto
qed

lemma handle_events_tracked:
  "tracked env grp ps \<Longrightarrow> tracked env grp (fst (handle_events env grp es ps db))"
proof (induction env grp es ps db rule: handle_events.induct)
  case (2 env grp e es ps db)
  obtain db' ok where h: "pv_handle env (ps_events ps) e db = (db', ok)" by fastforce
  show ?case
  proof (cases "eligible env grp e")
    case True
    then show ?thesis
      using 2 h by (cases ok) (simp_all add: Let_def tracked_ok tracked_failed)
  next
    case False
    then show ?thesis using 2 by (simp add: Let_def tracked_skip)
  qed
qed simp

lemma note_latest_frame [simp]:
  "ps_seen (note_latest env page ps) = ps_seen ps" "ps_handled (note_latest env page ps) = ps_handled ps"
  "ps_failed (note_latest env page ps) = ps_failed ps" "ps_fetches (note_latest env page ps) = ps_fetches ps"
  "ps_reanchored (note_latest env page ps) = ps_reanchored ps"
  by (simp_all add: note_latest_def Let_def)

lemma handle_events_frame:
  "ps_fetches (fst (handle_events env grp es ps db)) = ps_fetches ps"
  "ps_reanchored (fst (handle_events env grp es ps db)) = ps_reanchored ps"
  "ps_groupCheckpoint (fst (handle_events env grp es ps db)) = ps_groupCheckpoint ps"
  by (induction env grp es ps db rule: handle_events.induct) (auto simp: Let_def split: prod.splits)

text \<open>Paging only ever lowers a contract cursor: the handler leaves them alone and a retraction rewinds them.\<close>

definition cursors_lower :: "'x IngestDB_scheme \<Rightarrow> 'x IngestDB_scheme \<Rightarrow> bool" where
  "cursors_lower db db' \<longleftrightarrow> db_monitored db' = db_monitored db
     \<and> (\<forall>n c. rel_option (\<le>) (cursorOf n c db') (cursorOf n c db))"

definition handler_ok :: "'x poll_env \<Rightarrow> bool" where
  "handler_ok env \<longleftrightarrow> (\<forall>n e db. db_cursors (fst (pv_handle env n e db)) = db_cursors db
     \<and> db_monitored (fst (pv_handle env n e db)) = db_monitored db)"

lemma rel_option_le_refl [simp]: "rel_option (\<le>) x x" for x :: "uint32 option"
  by (cases x) simp_all

lemma cursors_lower_refl [simp]: "cursors_lower db db"
  by (simp add: cursors_lower_def)

lemma rel_option_le_trans: "rel_option (\<le>) x y \<Longrightarrow> rel_option (\<le>) y z \<Longrightarrow> rel_option (\<le>) x z" for x :: "uint32 option"
  by (cases x; cases y; cases z) auto

lemma cursors_lower_trans: "cursors_lower a b \<Longrightarrow> cursors_lower b c \<Longrightarrow> cursors_lower a c"
  unfolding cursors_lower_def using rel_option_le_trans by metis

lemma cursors_lower_same:
  "db_cursors db' = db_cursors db \<Longrightarrow> db_monitored db' = db_monitored db \<Longrightarrow> cursors_lower db db'"
  by (simp add: cursors_lower_def cursorOf_def)

lemma lower_SetIngestState: "cursors_lower db (fst (SetIngestState network st db))"
  by (rule cursors_lower_same) (auto simp: SetIngestState_def fst_sql)

lemma lower_Retract: "cursors_lower db (fst (RetractAlertsFromLedger network l at_t db))"
  by (rule cursors_lower_same) (auto simp: RetractAlertsFromLedger_def fst_sql)

lemma lower_Rewind: "cursors_lower db (fst (RewindContractCursors network l db))"
proof (cases "RewindContractCursors network l db")
  case (Pair db' r)
  show ?thesis
  proof (cases r)
    case (Inl e)
    then show ?thesis
      using Pair by (auto simp: RewindContractCursors_def sql_Inl fst_sql intro!: cursors_lower_same)
  next
    case (Inr u)
    with Pair have "RewindContractCursors network l db = (db', Inr u)" by simp
    note c = cursorOf_rewind [OF this]
    have "rel_option (\<le>) (cursorOf n d db') (cursorOf n d db)" for n d
      unfolding c by (cases "cursorOf n d db") auto
    then show ?thesis
      using Pair cursor_statements_frame(2) [of network l db] by (simp add: cursors_lower_def)
  qed
qed

lemma lower_rewind_upstream: "cursors_lower db (fst (rewind_upstream network r st db))"
proof -
  have "cursors_lower db (fst (RewindContractCursors network r (fst (SetIngestState network st' db))))" for st'
    using cursors_lower_trans [OF lower_SetIngestState lower_Rewind] .
  then show ?thesis
    using lower_Rewind [of db network r] lower_SetIngestState [of db network]
    by (auto simp: rewind_upstream_def Let_def split: prod.splits sum.splits) (metis fst_conv)+
qed

lemma lower_reconcile:
  "cursors_lower db (fst (reconcileUpstreamRetractions network la dv now r ids st db))"
proof -
  have "cursors_lower db (fst (rewind_upstream network k st (fst (RetractAlertsFromLedger network l now db))))" for k l
    using cursors_lower_trans [OF lower_Retract lower_rewind_upstream] .
  then show ?thesis
    using lower_Retract [of db network]
    by (auto simp: reconcileUpstreamRetractions_def Let_def split: prod.splits sum.splits) (metis fst_conv)+
qed

text \<open>What a component keeps beside the tables of the poller is touched by the handler only.\<close>

lemma more_SetIngestState [simp]: "IngestDB.more (fst (SetIngestState network st db)) = IngestDB.more db"
  by (auto simp: SetIngestState_def fst_sql)

lemma more_Rewind [simp]: "IngestDB.more (fst (RewindContractCursors network l db)) = IngestDB.more db"
  by (auto simp: RewindContractCursors_def fst_sql)

lemma more_Retract [simp]: "IngestDB.more (fst (RetractAlertsFromLedger network l now db)) = IngestDB.more db"
  by (auto simp: RetractAlertsFromLedger_def fst_sql)

lemma more_Advance [simp]: "IngestDB.more (fst (AdvanceContractCursor network c l db)) = IngestDB.more db"
  by (auto simp: AdvanceContractCursor_def fst_sql Let_def split: option.splits)

lemma more_rewind_upstream [simp]: "IngestDB.more (fst (rewind_upstream network k st db)) = IngestDB.more db"
proof -
  obtain db1 e1 where s: "SetIngestState network (st\<lparr>is_LastLedger := k, is_LastCursor := ''''\<rparr>) db = (db1, e1)" by fastforce
  have m1: "IngestDB.more db1 = IngestDB.more db" using s more_SetIngestState by (metis fst_conv)
  obtain db2 e2 where r1: "RewindContractCursors network k db1 = (db2, e2)" by fastforce
  obtain db3 e3 where r0: "RewindContractCursors network k db = (db3, e3)" by fastforce
  have "IngestDB.more db2 = IngestDB.more db1" "IngestDB.more db3 = IngestDB.more db" using r0 r1 more_Rewind by (metis fst_conv)+
  then show ?thesis using m1 by (auto simp: rewind_upstream_def Let_def s r0 r1 split: sum.splits)
qed

lemma more_reconcile: "IngestDB.more (fst (reconcileUpstreamRetractions network la dv now r ids st db)) = IngestDB.more db"
proof -
  obtain l af where al: "affected_loop ids (la db) r = (l, af)" by fastforce
  obtain db1 e1 where t: "RetractAlertsFromLedger network l now db = (db1, e1)" by fastforce
  obtain db2 st2 e2 where w: "rewind_upstream network (if 1 < l then l - 1 else 0) st db1 = (db2, st2, e2)" by (metis prod_cases3)
  have "IngestDB.more db1 = IngestDB.more db" "IngestDB.more db2 = IngestDB.more db1"
    using t w more_Retract more_rewind_upstream by (metis fst_conv)+
  then show ?thesis by (auto simp: reconcileUpstreamRetractions_def Let_def al t w split: sum.splits)
qed

lemma more_advance_contracts: "IngestDB.more (fst (advance_contracts network gc failed cs db)) = IngestDB.more db"
proof -
  have "keeps IngestDB.more (AdvanceContractCursor network c l)" for c l by (simp add: keeps_def)
  then have "keeps IngestDB.more (advance_contracts network gc failed cs)"
    by (induction cs) (auto intro!: keeps_intro)
  then show ?thesis by (rule keeps_fst)
qed

lemma lower_handle_events:
  "handler_ok env \<Longrightarrow> cursors_lower db (snd (handle_events env grp es ps db))"
proof (induction env grp es ps db rule: handle_events.induct)
  case (2 env grp e es ps db)
  obtain db' ok where h: "pv_handle env (ps_events ps) e db = (db', ok)" by fastforce
  have "cursors_lower db db'" using 2(3) h unfolding handler_ok_def by (metis cursors_lower_same fst_conv)
  then show ?case
    using 2 h by (cases "eligible env grp e") (auto simp: Let_def intro: cursors_lower_trans)
qed simp

lemma page_step_cases:
  assumes "page_step env s ws ps db = (db', Inr (ps', continues))"
  obtains (reanchor) msg st where "src_fetch (pv_source env) (ps_fetches ps) s ws (ps_cursor ps) = Inl (ErrInvalidCursor msg)"
      and "\<not> ps_reanchored ps" and "continues"
      and "ps' = ps\<lparr>ps_fetches := ps_fetches ps + 1, ps_reanchored := True, ps_cursor := '''', ps_state := st\<rparr>"
      and "db' = db \<or> db' = fst (SetIngestState (pv_network env) st db)"
    | (fetched) page db1 st1 effects where "src_fetch (pv_source env) (ps_fetches ps) s ws (ps_cursor ps) = Inr page"
      and "continues = (fp_NextCursor page \<noteq> '''')" and "cursors_lower db db1" and "IngestDB.more db1 = IngestDB.more db"
      and "db' = snd (handle_events env (map wt_ContractID ws) (fp_Events page)
             (note_latest env page (ps\<lparr>ps_fetches := ps_fetches ps + 1, ps_state := st1, ps_effects := effects\<rparr>)) db1)"
      and "\<exists>cur. ps' = (fst (handle_events env (map wt_ContractID ws) (fp_Events page)
             (note_latest env page (ps\<lparr>ps_fetches := ps_fetches ps + 1, ps_state := st1, ps_effects := effects\<rparr>)) db1))\<lparr>ps_cursor := cur\<rparr>"
proof (cases "src_fetch (pv_source env) (ps_fetches ps) s ws (ps_cursor ps)")
  case (Inl err)
  with assms obtain msg where m: "err = ErrInvalidCursor msg" "ps_cursor ps \<noteq> ''''" "\<not> ps_reanchored ps"
    by (cases err) (auto simp: page_step_def Let_def split: if_splits)
  let ?ps1 = "ps\<lparr>ps_fetches := ps_fetches ps + 1, ps_reanchored := True, ps_cursor := ''''\<rparr>"
  show thesis
  proof (cases "is_LastCursor (ps_state ps) = ''''")
    case True
    have "ps' = ?ps1\<lparr>ps_state := ps_state ps\<rparr>" "db' = db" "continues"
      using assms Inl m True by (auto simp: page_step_def Let_def)
    then show thesis using reanchor Inl m by blast
  next
    case False
    then show thesis
      using assms Inl m by (intro reanchor [of msg "(ps_state ps)\<lparr>is_LastCursor := ''''\<rparr>"]) (auto simp: page_step_def Let_def)
  qed
next
  case (Inr page)
  obtain db1 st1 effects where r: "(if src_upstream (pv_source env)
                  then reconcileUpstreamRetractions (pv_network env) (pv_listAlerts env) (pv_delivered env) (pv_now env)
                         (fst (src_retractions (pv_source env) (ps_fetches ps))) (snd (src_retractions (pv_source env) (ps_fetches ps))) (ps_state ps) db
                  else (db, ps_state ps, [])) = (db1, st1, effects)"
    using prod_cases3 by blast
  have lower: "cursors_lower db db1"
    using r lower_reconcile by (metis fst_conv cursors_lower_refl)
  have more: "IngestDB.more db1 = IngestDB.more db"
    using r more_reconcile by (metis fst_conv)
  let ?h = "handle_events env (map wt_ContractID ws) (fp_Events page)
             (note_latest env page (ps\<lparr>ps_fetches := ps_fetches ps + 1, ps_state := st1, ps_effects := ps_effects ps @ effects\<rparr>)) db1"
  obtain ps2 db2 where h: "?h = (ps2, db2)" by fastforce
  from assms Inr r h have e: "db' = db2 \<and> continues = (fp_NextCursor page \<noteq> '''')
      \<and> ps' = (if fp_NextCursor page = '''' then ps2 else ps2\<lparr>ps_cursor := fp_NextCursor page\<rparr>)"
    by (auto simp: page_step_def Let_def split: if_splits)
  have "ps2 = ps2\<lparr>ps_cursor := ps_cursor ps2\<rparr>" by simp
  then have "\<exists>cur. ps' = ps2\<lparr>ps_cursor := cur\<rparr>" using e by metis
  then show thesis using e h by (intro fetched [OF Inr _ lower more, of "ps_effects ps @ effects" st1]) auto
qed

lemma page_step_tracked:
  assumes "page_step env s ws ps db = (db', Inr (ps', continues))" and "tracked env (map wt_ContractID ws) ps"
  shows "tracked env (map wt_ContractID ws) ps'"
  using assms(1)
proof (cases rule: page_step_cases)
  case (reanchor msg st)
  have "tracked env (map wt_ContractID ws) ps' = tracked env (map wt_ContractID ws) ps"
    by (rule tracked_frame) (simp_all add: reanchor(4))
  then show ?thesis using assms(2) by simp
next
  case (fetched page db1 st1 effects)
  let ?ps = "note_latest env page (ps\<lparr>ps_fetches := ps_fetches ps + 1, ps_state := st1, ps_effects := effects\<rparr>)"
  have "tracked env (map wt_ContractID ws) ?ps = tracked env (map wt_ContractID ws) ps" by (rule tracked_frame) simp_all
  then have "tracked env (map wt_ContractID ws) (fst (handle_events env (map wt_ContractID ws) (fp_Events page) ?ps db1))"
    using assms(2) by (intro handle_events_tracked) simp
  then show ?thesis using fetched(6) tracked_frame by (metis page_state.ext_inject page_state.surjective page_state.update_convs(1))
qed

lemma page_step_lower:
  assumes "page_step env s ws ps db = (db', Inr (ps', continues))" and "handler_ok env"
  shows "cursors_lower db db'"
  using assms(1)
proof (cases rule: page_step_cases)
  case (reanchor msg st)
  then show ?thesis using lower_SetIngestState by auto
next
  case (fetched page db1 st1 effects)
  then show ?thesis using lower_handle_events [OF assms(2)] by (blast intro: cursors_lower_trans)
qed

lemma pages_step:
  "pages (Suc fuel) env s ws ps db = Some (db', Inr ps') \<longleftrightarrow>
     (page_step env s ws ps db = (db', Inr (ps', False)))
     \<or> (\<exists>db1 ps1. page_step env s ws ps db = (db1, Inr (ps1, True)) \<and> pages fuel env s ws ps1 db1 = Some (db', Inr ps'))"
  by (auto split: prod.splits sum.splits bool.splits)

lemma pages_keep:
  assumes "pages fuel env s ws ps db = Some (db', Inr ps')" and "tracked env (map wt_ContractID ws) ps" and "handler_ok env"
  shows "tracked env (map wt_ContractID ws) ps' \<and> cursors_lower db db'"
  using assms
proof (induction fuel arbitrary: ps db)
  case (Suc fuel)
  from Suc.prems(1) consider (final) "page_step env s ws ps db = (db', Inr (ps', False))"
    | (further) db1 ps1 where "page_step env s ws ps db = (db1, Inr (ps1, True))" "pages fuel env s ws ps1 db1 = Some (db', Inr ps')"
    unfolding pages_step by blast
  then show ?case
  proof cases
    case final
    then show ?thesis using page_step_tracked page_step_lower Suc.prems(2,3) by blast
  next
    case further
    have "tracked env (map wt_ContractID ws) ps1" by (rule page_step_tracked [OF further(1) Suc.prems(2)])
    note ih = Suc.IH [OF further(2) this Suc.prems(3)]
    have "cursors_lower db db1" by (rule page_step_lower [OF further(1) Suc.prems(3)])
    then show ?thesis using ih by (blast intro: cursors_lower_trans)
  qed
qed simp

subsection \<open>The cursors after a group\<close>

lemma advance_contracts_cursor:
  "advance_contracts network gc failed cs db = (db', Inr u) \<Longrightarrow>
     db_monitored db' = db_monitored db \<and>
     cursorOf n d db' =
       (if n = network \<and> d \<in> set cs \<and> gc \<noteq> 0 \<and> (network, d) \<in> set (db_monitored db)
        then Some (case cursorOf network d db of None \<Rightarrow> processedThrough gc failed d | Some l \<Rightarrow> max l (processedThrough gc failed d))
        else cursorOf n d db)"
proof (induction cs arbitrary: db)
  case (Cons c cs)
  show ?case
  proof (cases "gc = 0")
    case False
    with Cons.prems obtain db1 v where a: "AdvanceContractCursor network c (processedThrough gc failed c) db = (db1, Inr v)"
      and r: "advance_contracts network gc failed cs db1 = (db', Inr u)"
      by (auto elim!: sbind_Inr)
    have m: "db_monitored db1 = db_monitored db" using a cursor_statements_frame(1) by (metis fst_conv)
    show ?thesis
      using Cons.IH [OF r] cursorOf_advance [OF a] m False by (auto split: option.splits)
  next
    case True
    then show ?thesis using Cons by auto
  qed
qed (auto simp: sreturn_def)

lemma run_group_parts:
  assumes "run_group fuel env g ps db = Some (db', Inr ps')"
  obtains db1 ps1 u where "pages fuel env (fst g) (snd g) (group_state env ps) db = Some (db1, Inr ps1)"
    and "ps' = ps1\<lparr>ps_groupCheckpoint := capped (pv_confirmed env) (ps_groupCheckpoint ps1)\<rparr>"
    and "advance_contracts (pv_network env) (ps_groupCheckpoint ps') (ps_failed ps') (map wt_ContractID (snd g)) db1 = (db', Inr u)"
  using assms by (auto simp: run_group_def Let_def split: option.splits prod.splits sum.splits)

lemma tracked_group_state: "tracked env grp (group_state env ps)"
  by (simp add: tracked_def group_state_def)

lemma run_group_keeps:
  assumes "run_group fuel env g ps db = Some (db', Inr ps')" and "handler_ok env"
  obtains db1 u where "tracked env (map wt_ContractID (snd g)) ps'" and "cursors_lower db db1"
    and "advance_contracts (pv_network env) (ps_groupCheckpoint ps') (ps_failed ps') (map wt_ContractID (snd g)) db1 = (db', Inr u)"
    and "capped (pv_confirmed env) (ps_groupCheckpoint ps') = ps_groupCheckpoint ps'"
proof -
  obtain db1 ps1 u where p: "pages fuel env (fst g) (snd g) (group_state env ps) db = Some (db1, Inr ps1)"
    and e: "ps' = ps1\<lparr>ps_groupCheckpoint := capped (pv_confirmed env) (ps_groupCheckpoint ps1)\<rparr>"
    and a: "advance_contracts (pv_network env) (ps_groupCheckpoint ps') (ps_failed ps') (map wt_ContractID (snd g)) db1 = (db', Inr u)"
    by (rule run_group_parts [OF assms(1)])
  have k: "tracked env (map wt_ContractID (snd g)) ps1 \<and> cursors_lower db db1"
    by (rule pages_keep [OF p tracked_group_state assms(2)])
  have "tracked env (map wt_ContractID (snd g)) ps' = tracked env (map wt_ContractID (snd g)) ps1"
    by (rule tracked_frame) (simp_all add: e)
  then show thesis using that k a e by (auto simp: capped_def split: option.splits)
qed

text \<open>The ledger a contract is advanced to lies before every failure and within the confirmed range.\<close>

lemma processedThrough_le: "failed c \<noteq> Some 0 \<Longrightarrow> processedThrough gc failed c \<le> gc"
  by (auto simp: processedThrough_def split: option.splits intro: order_trans [OF less_imp_le [OF ledger_pred_less]])

lemma processedThrough_before_failure:
  "failed c = Some f \<Longrightarrow> f \<noteq> 0 \<Longrightarrow> l \<le> processedThrough gc failed c \<Longrightarrow> l < f"
  by (auto simp: processedThrough_def ledger_pred_le split: if_splits)

text \<open>What a ledger between the old and the new cursor of a contract amounts to.\<close>

lemma between_cursors:
  assumes low: "cursors_lower db db1"
    and adv: "advance_contracts network gc failed cs db1 = (db', Inr u)"
    and new: "cursorOf network c db' = Some l'"
    and old: "\<And>l. cursorOf network c db = Some l \<Longrightarrow> l < k" and k: "k \<le> l'"
  shows "gc \<noteq> 0 \<and> k \<le> processedThrough gc failed c"
proof -
  have r: "rel_option (\<le>) (cursorOf network c db1) (cursorOf network c db)" using low by (simp add: cursors_lower_def)
  then have o1: "\<And>l. cursorOf network c db1 = Some l \<Longrightarrow> l < k"
    using old by (cases "cursorOf network c db") (auto simp: option_rel_Some1)
  note a = advance_contracts_cursor [OF adv, of network c]
  show ?thesis
  proof (cases "c \<in> set cs \<and> gc \<noteq> 0 \<and> (network, c) \<in> set (db_monitored db1)")
    case True
    then show ?thesis
      using a new o1 k by (cases "cursorOf network c db1") (auto simp: max_def not_le dest: less_le_trans split: if_splits)
  next
    case False
    then have "cursorOf network c db1 = Some l'" using a new by auto
    then have "l' < k" using o1 by blast
    then show ?thesis using k by simp
  qed
qed

lemma passed_event_was_processed:
  assumes "run_group fuel env g ps db = Some (db', Inr ps')" and "handler_ok env"
    and "\<forall>e \<in> set (ps_seen ps'). de_Ledger e \<noteq> 0"
    and "c \<in> set (map wt_ContractID (snd g))"
    and "cursorOf (pv_network env) c db' = Some l'"
    and "e \<in> set (ps_seen ps')" and "de_ContractID e = c" and "de_Ledger e \<le> l'"
    and "\<forall>l. cursorOf (pv_network env) c db = Some l \<longrightarrow> l < de_Ledger e"
  shows "(e, True) \<in> set (ps_handled ps') \<and> (e, False) \<notin> set (ps_handled ps')"
proof -
  obtain db1 u where t: "tracked env (map wt_ContractID (snd g)) ps'" and low: "cursors_lower db db1"
    and adv: "advance_contracts (pv_network env) (ps_groupCheckpoint ps') (ps_failed ps') (map wt_ContractID (snd g)) db1 = (db', Inr u)"
    and cap: "capped (pv_confirmed env) (ps_groupCheckpoint ps') = ps_groupCheckpoint ps'"
    by (rule run_group_keeps [OF assms(1,2)])
  let ?p = "processedThrough (ps_groupCheckpoint ps') (ps_failed ps') c"
  have p: "de_Ledger e \<le> ?p"
    using between_cursors [OF low adv assms(5)] assms(8,9) by blast
  have nz: "ps_failed ps' c \<noteq> Some 0"
    using t assms(3) unfolding tracked_def by metis
  have "de_Ledger e \<le> ps_groupCheckpoint ps'" using p processedThrough_le [of "ps_failed ps'" c, OF nz] order_trans by blast
  then have "eligible env (map wt_ContractID (snd g)) e"
    using cap assms(4,7) by (auto simp: eligible_def capped_def not_less split: option.splits if_splits)
  then obtain ok where ok: "(e, ok) \<in> set (ps_handled ps')" using t assms(6) unfolding tracked_def by blast
  have "(e, False) \<notin> set (ps_handled ps')"
  proof
    assume "(e, False) \<in> set (ps_handled ps')"
    then obtain f where "ps_failed ps' c = Some f" "f \<le> de_Ledger e" using t assms(7) unfolding tracked_def by blast
    with nz p show False using processedThrough_before_failure [of "ps_failed ps'" c f] by (metis leD)
  qed
  with ok show ?thesis by (cases ok) auto
qed

subsection \<open>Properties\<close>

text \<open>
  A contract's cursor never passes an event that was not processed. After a group of a poll cycle, take
  any event its pages held for a watched contract, above the contract's old cursor and at or below the new
  one: the event was handed to the handler, and no such event was reported as failed. The next cycle starts
  right after the cursor, so a failed or held-back event is read again.
\<close>

theorem cursor_never_passes_an_unprocessed_event:
  assumes "run_group fuel env g ps db = Some (db', Inr ps')" and "handler_ok env"
    and "\<forall>e \<in> set (ps_seen ps'). de_Ledger e \<noteq> 0"
    and "c \<in> set (map wt_ContractID (snd g))"
    and "cursorOf (pv_network env) c db' = Some l'"
    and "e \<in> set (ps_seen ps')" and "de_ContractID e = c" and "de_Ledger e \<le> l'"
    and "\<forall>l. cursorOf (pv_network env) c db = Some l \<longrightarrow> l < de_Ledger e"
  shows "(e, True) \<in> set (ps_handled ps') \<and> (e, False) \<notin> set (ps_handled ps')"
  by (rule passed_event_was_processed [OF assms])

text \<open>
  C39. With a confirmation depth, nothing beyond the confirmed ledger is evaluated and no cursor moves past
  it: every event the group handed to the handler is at or below the bound, and so is any cursor it raised.
\<close>

theorem unconfirmed_events_wait:
  assumes "run_group fuel env g ps db = Some (db', Inr ps')" and "handler_ok env"
    and "pv_confirmed env = Some through" and "\<forall>e \<in> set (ps_seen ps'). de_Ledger e \<noteq> 0"
  shows "(\<forall>e ok. (e, ok) \<in> set (ps_handled ps') \<longrightarrow> de_Ledger e \<le> through)
    \<and> (\<forall>c l'. cursorOf (pv_network env) c db' = Some l' \<longrightarrow>
         l' \<le> through \<or> (\<exists>l. cursorOf (pv_network env) c db = Some l \<and> l' \<le> l))"
proof (intro conjI allI impI)
  obtain db1 u where t: "tracked env (map wt_ContractID (snd g)) ps'" and low: "cursors_lower db db1"
    and adv: "advance_contracts (pv_network env) (ps_groupCheckpoint ps') (ps_failed ps') (map wt_ContractID (snd g)) db1 = (db', Inr u)"
    and cap: "capped (pv_confirmed env) (ps_groupCheckpoint ps') = ps_groupCheckpoint ps'"
    by (rule run_group_keeps [OF assms(1,2)])
  {
    fix e ok assume "(e, ok) \<in> set (ps_handled ps')"
    then show "de_Ledger e \<le> through"
      using t assms(3) by (auto simp: tracked_def eligible_def not_less)
  next
    fix c l' assume l': "cursorOf (pv_network env) c db' = Some l'"
    show "l' \<le> through \<or> (\<exists>l. cursorOf (pv_network env) c db = Some l \<and> l' \<le> l)"
    proof (rule disjCI)
      assume "\<nexists>l. cursorOf (pv_network env) c db = Some l \<and> l' \<le> l"
      then have "l < l'" if "cursorOf (pv_network env) c db = Some l" for l using that by (meson not_less)
      then have "l' \<le> processedThrough (ps_groupCheckpoint ps') (ps_failed ps') c"
        using between_cursors [OF low adv l', of l'] by blast
      moreover have "ps_failed ps' c \<noteq> Some 0" using t assms(4) unfolding tracked_def by metis
      ultimately show "l' \<le> through"
        using processedThrough_le [of "ps_failed ps'" c "ps_groupCheckpoint ps'"] cap assms(3)
        by (auto simp: capped_def split: if_splits)
    qed
  }
qed

subsection \<open>A small cycle\<close>

definition demo_event :: "uint32 \<Rightarrow> DecodedEvent" where
  "demo_event l = \<lparr>de_ID = ''e'', de_ContractID = ''C1'', de_Ledger = l, de_LedgerClosedAt = 0, de_TxHash = '''',
                   de_Topics = [], de_Value = GNil, de_Fields = None\<rparr>"

definition demo_db :: "uint32 \<Rightarrow> IngestDB" where
  "demo_db l = \<lparr>db_ingest_state = Some \<lparr>is_LastLedger = l, is_LastCursor = ''''\<rparr>, db_network_ingest_state = [],
     db_cursors = [(('''', ''C1''), l)], db_ledger_hashes = [], db_network_ledger_hashes = [], db_alerts = [],
     db_monitored = [('''', ''C1'')], db_gaps = [], db_faults = []\<rparr>"

text \<open>One page with the events of two ledgers; the handler fails from \<open>bad\<close> on.\<close>

definition demo_env :: "uint32 \<Rightarrow> uint32 option \<Rightarrow> bool \<Rightarrow> unit poll_env" where
  "demo_env bad confirmed upstream =
     \<lparr>pv_network = '''',
      pv_source = \<lparr>src_fetch = (\<lambda>n s ws cur. Inr \<lparr>fp_Events = [demo_event 10, demo_event 12], fp_LatestLedger = 20, fp_NextCursor = ''''\<rparr>),
                   src_upstream = upstream, src_retractions = (\<lambda>n. (5, [])), src_chainHead = 0\<rparr>,
      pv_handle = (\<lambda>n e db. (db, de_Ledger e < bad)), pv_listAlerts = (\<lambda>db. []), pv_delivered = (\<lambda>i. True), pv_now = 0,
      pv_confirmed = confirmed, pv_single = True\<rparr>"

definition demo_group :: "uint32 \<times> Watch list" where
  "demo_group = (10, [\<lparr>wt_ContractID = ''C1'', wt_Topics = []\<rparr>])"

definition demo_start :: page_state where
  "demo_start = cycle_state \<lparr>is_LastLedger = 9, is_LastCursor = ''''\<rparr>"

lemmas demo_defs = demo_event_def demo_db_def demo_env_def demo_group_def demo_start_def

lemma demo_handler_ok: "handler_ok (demo_env bad confirmed upstream)"
  by (simp add: handler_ok_def demo_env_def)

lemmas demo_run =
  run_group_def page_step_def group_state_def cycle_state_def note_latest_def eligible_def note_failure_def capped_def
  processedThrough_def AdvanceContractCursor_def sbind_def sreturn_def sql_def next_fault_def cursorOf_def Let_def

theorem cursor_never_passes_an_unprocessed_event_witness:
  "\<exists>db' ps'. run_group 1 (demo_env 12 None False) demo_group demo_start (demo_db 9) = Some (db', Inr ps')
     \<and> cursorOf '''' ''C1'' db' = Some 11
     \<and> (demo_event 10, True) \<in> set (ps_handled ps') \<and> (demo_event 10, False) \<notin> set (ps_handled ps')"
proof -
  obtain db' ps' where r: "run_group 1 (demo_env 12 None False) demo_group demo_start (demo_db 9) = Some (db', Inr ps')"
    and c: "cursorOf '''' ''C1'' db' = Some 11" and s: "ps_seen ps' = [demo_event 10, demo_event 12]"
    by (simp add: demo_defs demo_run)
  have "(demo_event 10, True) \<in> set (ps_handled ps') \<and> (demo_event 10, False) \<notin> set (ps_handled ps')"
    by (rule cursor_never_passes_an_unprocessed_event [OF r demo_handler_ok, where c = "''C1''" and l' = 11])
       (use c in \<open>simp_all add: s demo_defs cursorOf_def\<close>)
  with r c show ?thesis by blast
qed

theorem unconfirmed_events_wait_witness:
  "\<exists>db' ps'. run_group 1 (demo_env 99 (Some 11) False) demo_group demo_start (demo_db 9) = Some (db', Inr ps')
     \<and> (\<forall>e ok. (e, ok) \<in> set (ps_handled ps') \<longrightarrow> de_Ledger e \<le> 11)
     \<and> cursorOf '''' ''C1'' db' = Some 11"
proof -
  obtain db' ps' where r: "run_group 1 (demo_env 99 (Some 11) False) demo_group demo_start (demo_db 9) = Some (db', Inr ps')"
    and c: "cursorOf '''' ''C1'' db' = Some 11" and s: "ps_seen ps' = [demo_event 10, demo_event 12]"
    by (simp add: demo_defs demo_run)
  have "\<forall>e ok. (e, ok) \<in> set (ps_handled ps') \<longrightarrow> de_Ledger e \<le> 11"
    using unconfirmed_events_wait [OF r demo_handler_ok, of 11] by (simp add: s demo_defs)
  with r c show ?thesis by blast
qed

subsection \<open>Upstream retractions\<close>

lemma affected_loop_from:
  "affected_loop ids as r = (r', out) \<Longrightarrow> 0 < r \<Longrightarrow> 0 < r' \<and> r' \<le> r"
proof (induction ids as r arbitrary: r' out rule: affected_loop.induct)
  case (2 ids a as r)
  let ?hit = "(0 < r \<and> r \<le> ar_Ledger a) \<or> (ar_EventID a \<noteq> '''' \<and> ar_EventID a \<in> set ids)"
  show ?case
  proof (cases ?hit)
    case True
    let ?n = "if 0 < ar_Ledger a \<and> (r = 0 \<or> ar_Ledger a < r) then ar_Ledger a else r"
    obtain out' where n: "affected_loop ids as ?n = (r', out')"
      using 2(3) True by (auto simp: Let_def split: prod.splits)
    have "0 < ?n" "?n \<le> r" using 2(4) by auto
    then show ?thesis using 2(1) [OF True refl n] order_trans by blast
  next
    case False
    then have "affected_loop ids (a # as) r = affected_loop ids as r" by (simp only: affected_loop.simps if_False)
    then show ?thesis using 2(2) [OF False] 2(3,4) by simp
  qed
qed simp

lemma rewind_upstream_cursor:
  assumes "db_faults db = []" and "cursorOf network c db = Some l"
  shows "cursorOf network c (fst (rewind_upstream network k st db)) = Some (min k l)"
proof -
  have rw: "cursorOf network c (fst (RewindContractCursors network k d)) = Some (min k l)"
    if d: "db_faults d = []" "cursorOf network c d = Some l" for d
  proof -
    obtain d' where r: "RewindContractCursors network k d = (d', Inr ())"
      using d(1) by (simp add: RewindContractCursors_def sql_def next_fault_def Let_def)
    show ?thesis using cursorOf_rewind [OF r] r d(2) by simp
  qed
  show ?thesis
  proof (cases "k < is_LastLedger st")
    case True
    obtain d where s: "SetIngestState network (st\<lparr>is_LastLedger := k, is_LastCursor := ''''\<rparr>) db = (d, Inr ())"
      and f: "db_faults d = []" "db_cursors d = db_cursors db"
      using assms(1) by (cases "network = ''''") (simp_all add: SetIngestState_def sql_def next_fault_def Let_def)
    have "cursorOf network c d = Some l" using assms(2) f(2) by (simp add: cursorOf_def)
    then show ?thesis using rw [OF f(1)] True s by (auto simp: rewind_upstream_def Let_def split: prod.splits)
  next
    case False
    then show ?thesis using rw [OF assms] by (auto simp: rewind_upstream_def split: prod.splits)
  qed
qed

lemma reconcile_rewinds:
  assumes "db_faults db = []" and "cursorOf network c db = Some l" and "0 < r"
  shows "\<exists>k. cursorOf network c (fst (reconcileUpstreamRetractions network la dv now r ids st db)) = Some k \<and> k < r"
proof -
  obtain lo affected where a: "affected_loop ids (la db) r = (lo, affected)" by fastforce
  have f: "0 < lo" "lo \<le> r" using affected_loop_from [OF a assms(3)] by auto
  obtain d n where t: "RetractAlertsFromLedger network lo now db = (d, Inr n)" and d: "db_faults d = []" "db_cursors d = db_cursors db"
    using assms(1) by (simp add: RetractAlertsFromLedger_def sql_def next_fault_def Let_def)
  let ?to = "if 1 < lo then lo - 1 else 0"
  have to: "?to < r" using f ledger_pred_less [of lo] by (auto simp: word_gt_0)
  have "cursorOf network c d = Some l" using assms(2) d(2) by (simp add: cursorOf_def)
  then have "cursorOf network c (fst (rewind_upstream network ?to st d)) = Some (min ?to l)"
    by (rule rewind_upstream_cursor [OF d(1)])
  moreover have "fst (reconcileUpstreamRetractions network la dv now r ids st db) = fst (rewind_upstream network ?to st d)"
    using assms(3) a f(1) t by (auto simp: reconcileUpstreamRetractions_def Let_def split: prod.splits sum.splits)
  moreover have "min ?to l < r" using to by (meson min.strict_coboundedI1)
  ultimately show ?thesis by metis
qed

lemma group_reaches_checkpoint:
  assumes "run_group fuel env g ps db = Some (db', Inr ps')" and "handler_ok env"
    and "c \<in> set (map wt_ContractID (snd g))" and "(pv_network env, c) \<in> set (db_monitored db)"
    and "ps_groupCheckpoint ps' \<noteq> 0" and "ps_failed ps' c = None"
  shows "\<exists>l'. cursorOf (pv_network env) c db' = Some l' \<and> ps_groupCheckpoint ps' \<le> l'"
proof -
  obtain db1 u where low: "cursors_lower db db1"
    and adv: "advance_contracts (pv_network env) (ps_groupCheckpoint ps') (ps_failed ps') (map wt_ContractID (snd g)) db1 = (db', Inr u)"
    by (rule run_group_keeps [OF assms(1,2)])
  have "(pv_network env, c) \<in> set (db_monitored db1)" using low assms(4) by (simp add: cursors_lower_def)
  then show ?thesis
    using advance_contracts_cursor [OF adv, of "pv_network env" c] assms(3,5,6)
    by (auto simp: processedThrough_def split: option.splits)
qed

text \<open>
  An upstream retraction does not make the replacement chain be read. The reconciliation after a fetch
  rewinds the contract's cursor below the retracted ledger, but the group goes on paging from its old start
  and then advances every contract without a failed event to the group's checkpoint, so at the end of
  the same group the cursor is again at or past the retracted ledger and no later cycle fetches it.
\<close>

theorem upstream_rewind_undone_by_the_same_group:
  assumes "run_group fuel env g ps db = Some (db', Inr ps')" and "handler_ok env" and "db_faults db = []"
    and "c \<in> set (map wt_ContractID (snd g))" and "(pv_network env, c) \<in> set (db_monitored db)"
    and "cursorOf (pv_network env) c db = Some l"
    and "src_upstream (pv_source env)" and "src_retractions (pv_source env) (ps_fetches ps) = (r, ids)" and "0 < r"
    and "r \<le> ps_groupCheckpoint ps'" and "ps_failed ps' c = None"
  shows "(\<exists>k. cursorOf (pv_network env) c (fst (reconcileUpstreamRetractions (pv_network env) (pv_listAlerts env)
              (pv_delivered env) (pv_now env) r ids (ps_state ps) db)) = Some k \<and> k < r)
    \<and> (\<exists>l'. cursorOf (pv_network env) c db' = Some l' \<and> r \<le> l')"
proof
  show "\<exists>k. cursorOf (pv_network env) c (fst (reconcileUpstreamRetractions (pv_network env) (pv_listAlerts env)
              (pv_delivered env) (pv_now env) r ids (ps_state ps) db)) = Some k \<and> k < r"
    by (rule reconcile_rewinds [OF assms(3,6,9)])
  have "ps_groupCheckpoint ps' \<noteq> 0" using assms(9,10) by (auto simp: word_gt_0 word_le_0_iff)
  then show "\<exists>l'. cursorOf (pv_network env) c db' = Some l' \<and> r \<le> l'"
    using group_reaches_checkpoint [OF assms(1,2,4,5) _ assms(11)] assms(10) order_trans by blast
qed

theorem upstream_rewind_undone_by_the_same_group_witness:
  "\<exists>db' ps'. run_group 1 (demo_env 99 None True) demo_group demo_start (demo_db 9) = Some (db', Inr ps')
     \<and> (\<exists>l'. cursorOf '''' ''C1'' db' = Some l' \<and> 5 \<le> l')"
proof -
  obtain db' ps' where r: "run_group 1 (demo_env 99 None True) demo_group demo_start (demo_db 9) = Some (db', Inr ps')"
    and s: "ps_groupCheckpoint ps' = 20" "ps_failed ps' ''C1'' = None"
    by (simp add: demo_defs demo_run reconcileUpstreamRetractions_def rewind_upstream_def RetractAlertsFromLedger_def
          SetIngestState_def RewindContractCursors_def)
  have "\<exists>l'. cursorOf (pv_network (demo_env 99 None True)) ''C1'' db' = Some l' \<and> 5 \<le> l'"
    using upstream_rewind_undone_by_the_same_group [OF r demo_handler_ok, of "''C1''" 9 5 "[]"]
    by (simp add: s demo_defs cursorOf_def cycle_state_def)
  then show ?thesis using r by (auto simp: demo_env_def)
qed

text \<open>
  An alert listed before the one that lowers the bound is retracted by the store without a notice: the
  reconciliation names it neither for a retraction notice nor for the end of its escalation.
\<close>

lemma retracted_without_a_notice:
  assumes "db_faults db = []" and "la db = [newer, named]" and "ar_EventID named \<in> set ids" and "ar_EventID named \<noteq> ''''"
    and "ar_EventID newer \<notin> set ids" and "0 < ar_Ledger named" and "ar_Ledger named \<le> ar_Ledger newer"
    and "db_alerts db = [newer, named]" and "ar_Network newer = network" and "ar_RetractedAt newer = None"
  shows "\<exists>db' st' es. reconcileUpstreamRetractions network la dv now 0 ids st db = (db', st', es)
    \<and> ar_RetractedAt (db_alerts db' ! 0) = Some now \<and> URetractionNotice newer \<notin> set es"
proof -
  have ne: "newer \<noteq> named" using assms(3,5) by auto
  have a: "affected_loop ids (la db) 0 = (ar_Ledger named, [named])" using assms by simp
  obtain d n where t: "RetractAlertsFromLedger network (ar_Ledger named) now db = (d, Inr n)"
    and d: "db_alerts d = map (retract network (ar_Ledger named) now) (db_alerts db)"
    using assms(1) by (simp add: RetractAlertsFromLedger_def sql_def next_fault_def Let_def)
  have fr: "db_alerts (fst (rewind_upstream network k st d)) = db_alerts d" for k
    by (auto simp: rewind_upstream_def Let_def SetIngestState_def RewindContractCursors_def sql_def
          split: prod.splits sum.splits option.splits)
  show ?thesis
    using assms(3,6,7,8,9,10) a t d ne fr [of "if 1 < ar_Ledger named then ar_Ledger named - 1 else 0"]
    by (auto simp: reconcileUpstreamRetractions_def Let_def retract_def split: prod.splits sum.splits)
qed

subsection \<open>The paging loop ends\<close>

lemma paging_ends_with_the_source:
  assumes "\<forall>n \<ge> N. \<forall>s ws cur page. src_fetch (pv_source env) n s ws cur = Inr page \<longrightarrow> fp_NextCursor page = ''''"
  shows "\<exists>r. pages (N + 2) env s ws ps db = Some r"
proof -
  have "\<exists>r. pages fuel env s ws ps db = Some r"
    if "(N - ps_fetches ps) + (if ps_reanchored ps then 1 else 2) \<le> fuel" for fuel ps db
    using that
  proof (induction fuel arbitrary: ps db)
    case (Suc fuel)
    obtain db1 res where st: "page_step env s ws ps db = (db1, res)" by fastforce
    show ?case
    proof (cases "\<exists>ps1. res = Inr (ps1, True)")
      case False
      then show ?thesis using st by (auto split: sum.splits bool.splits)
    next
      case True
      then obtain ps1 where p: "page_step env s ws ps db = (db1, Inr (ps1, True))" using st by blast
      then have "(N - ps_fetches ps1) + (if ps_reanchored ps1 then 1 else 2) \<le> fuel"
      proof (cases rule: page_step_cases)
        case (reanchor msg st)
        then show ?thesis using Suc.prems by simp
      next
        case (fetched page d st effects)
        have "ps_fetches ps < N" using assms fetched(1,2) by (metis not_le)
        moreover have "ps_fetches ps1 = ps_fetches ps + 1" "ps_reanchored ps1 = ps_reanchored ps"
          using fetched(6) by (auto simp: handle_events_frame)
        ultimately show ?thesis using Suc.prems by auto
      qed
      then show ?thesis using Suc.IH p by simp
    qed
  qed (simp split: if_splits)
  moreover have "(N - ps_fetches ps) + (if ps_reanchored ps then 1 else 2) \<le> N + 2" by auto
  ultimately show ?thesis by blast
qed

lemma run_group_some:
  "pages fuel env (fst g) (snd g) (group_state env ps) db = Some r \<Longrightarrow> \<exists>r'. run_group fuel env g ps db = Some r'"
  by (auto simp: run_group_def Let_def split: prod.splits sum.splits)

lemma Poll_some:
  assumes "\<And>c b gs ps d. run_groups fuel (env\<lparr>pv_confirmed := c, pv_single := b\<rparr>) gs ps d \<noteq> None"
  shows "Poll fuel inp env db \<noteq> None"
  using assms unfolding Poll_def Let_def
  by (simp del: not_None_eq split: sum.split prod.split option.split)

lemma run_groups_end:
  assumes "\<forall>n \<ge> N. \<forall>s ws cur page. src_fetch (pv_source env) n s ws cur = Inr page \<longrightarrow> fp_NextCursor page = ''''"
  shows "\<exists>r. run_groups (N + 2) env gs ps db = Some r"
proof (induction gs arbitrary: ps db)
  case (Cons g gs)
  obtain r where "pages (N + 2) env (fst g) (snd g) (group_state env ps) db = Some r"
    using paging_ends_with_the_source [OF assms] by blast
  then obtain r' where "run_group (N + 2) env g ps db = Some r'"
    using run_group_some by blast
  then show ?case using Cons by (auto split: prod.splits sum.splits)
qed simp

text \<open>
  A poll cycle ends as soon as its source does: if no fetch from the \<open>N\<close>-th on returns a continuation
  cursor, every paging loop of the cycle returns within \<open>N + 2\<close> fetches and so does the cycle, whatever the
  source and the store answer. The two extra fetches are the last page and the single re-anchoring that
  a rejected cursor may cause.
\<close>

theorem poll_ends_with_the_source:
  assumes "\<forall>n \<ge> N. \<forall>s ws cur page. src_fetch (pv_source env) n s ws cur = Inr page \<longrightarrow> fp_NextCursor page = ''''"
  shows "\<exists>r. Poll (N + 2) inp env db = Some r"
proof -
  have "\<exists>r. run_groups (N + 2) (env\<lparr>pv_confirmed := c, pv_single := b\<rparr>) gs ps d = Some r" for c b gs ps d
    by (rule run_groups_end) (use assms in simp)
  then show ?thesis
    using Poll_some [of "N + 2" env inp db] by (metis option.distinct(1) option.exhaust)
qed

definition demo_inputs :: poll_inputs where
  "demo_inputs = \<lparr>pi_degraded = False, pi_monitors = Inr [topics_demo_monitor], pi_rules = (\<lambda>i. Inr [topics_demo_rule]),
     pi_names = (\<lambda>r. None), pi_valid = (\<lambda>c. True), pi_symbol = (\<lambda>n. None), pi_sched = NewScheduler, pi_coldTip = Inr 9,
     pi_reorgWindow = 0, pi_hashes = None, pi_reorgTip = Inr 9, pi_oldest = None, pi_confirmDepth = 0, pi_confirmTip = Inr 9\<rparr>"

theorem poll_ends_with_the_source_witness:
  "\<exists>r. Poll (0 + 2) demo_inputs (demo_env 99 None False) (demo_db 9) = Some r"
  by (rule poll_ends_with_the_source) (simp add: demo_env_def)

subsection \<open>Start groups\<close>

lemma add_to_group_keys: "fst ` set (add_to_group s w gs) = insert s (fst ` set gs)"
  by (induction s w gs rule: add_to_group.induct) auto

lemma add_to_group_distinct: "distinct (map fst gs) \<Longrightarrow> distinct (map fst (add_to_group s w gs))"
proof (induction s w gs rule: add_to_group.induct)
  case (2 start w s ws gs)
  then show ?case using add_to_group_keys [of start w gs] by (auto simp: image_iff)
qed simp

lemma add_to_group_mset: "mset (concat (map snd (add_to_group s w gs))) = add_mset w (mset (concat (map snd gs)))"
  by (induction s w gs rule: add_to_group.induct) auto

lemma place_watches_groups:
  assumes "place_watches place ws gs db = (db', Inr groups)" and "distinct (map fst gs)"
  shows "distinct (map fst groups) \<and> sorted (map fst groups)
    \<and> mset (concat (map snd groups)) = mset (concat (map snd gs)) + mset ws"
  using assms
proof (induction ws arbitrary: gs db)
  case Nil
  have "mset (map fst (sort_key fst gs)) = mset (map fst gs)" by simp
  then have "distinct (map fst (sort_key fst gs))" using Nil.prems(2) mset_eq_imp_distinct_iff by blast
  moreover have "mset (concat (map snd (sort_key fst gs))) = mset (concat (map snd gs))"
    by (simp add: mset_concat sum_mset_sum_list [symmetric] del: sum_mset_sum_list)
  ultimately show ?case using Nil.prems(1) by (auto simp: sreturn_def)
next
  case (Cons w ws)
  then obtain s db1 where "place w db = (db1, Inr s)" "place_watches place ws (add_to_group s w gs) db1 = (db', Inr groups)"
    by (auto elim!: sbind_Inr)
  then show ?case using Cons.IH Cons.prems(2) by (fastforce simp: add_to_group_distinct add_to_group_mset)
qed

text \<open>
  Every watched contract of a cycle is fetched in exactly one request group: the groups have distinct
  starting ledgers in ascending order, and together they hold the watch list, each entry as often as the
  list has it.
\<close>

theorem start_groups_partition_the_watch_list:
  assumes "place_watches place watch [] db = (db', Inr groups)"
  shows "distinct (map fst groups) \<and> sorted (map fst groups) \<and> mset (concat (map snd groups)) = mset watch"
  using place_watches_groups [OF assms] by simp

theorem start_groups_partition_the_watch_list_witness:
  "\<exists>db' groups. place_watches (place_watch '''' False 0 0 \<lparr>is_LastLedger = 9, is_LastCursor = ''''\<rparr> (\<lambda>c. if c = ''C1'' then Some 4 else None))
       [\<lparr>wt_ContractID = ''C1'', wt_Topics = []\<rparr>, \<lparr>wt_ContractID = ''C2'', wt_Topics = []\<rparr>] [] (demo_db 9) = (db', Inr groups)
     \<and> distinct (map fst groups) \<and> map fst groups = [5, 10]"
proof -
  obtain db' groups where r: "place_watches (place_watch '''' False 0 0 \<lparr>is_LastLedger = 9, is_LastCursor = ''''\<rparr> (\<lambda>c. if c = ''C1'' then Some 4 else None))
       [\<lparr>wt_ContractID = ''C1'', wt_Topics = []\<rparr>, \<lparr>wt_ContractID = ''C2'', wt_Topics = []\<rparr>] [] (demo_db 9) = (db', Inr groups)"
    and g: "map fst groups = [5, 10]"
    by (simp add: place_watch_def sbind_def sreturn_def InitializeContractCursor_def sql_def next_fault_def demo_db_def Let_def)
  then show ?thesis
    using start_groups_partition_the_watch_list [OF r] by (intro exI [of _ db'] exI [of _ groups] conjI) simp_all
qed

end
