(* ===== verification/Poll_Handling.thy ===== *)
theory Poll_Handling
  imports Event_Handling Poll_Cycle
begin

text \<open>
  The poll cycle of \<open>Poll_Cycle\<close> with the event handler of \<open>Event_Handling\<close> in it. The cycle relies on its handler through the
  locale \<open>event_handler\<close>: the handler leaves the cursors alone, whatever it writes only adds to what is settled, and an
  event it reports as processed is settled. What the cycle makes of that is proved once, in the locale; the
  interpretation shows that \<open>handleEvent\<close> keeps the contract.
\<close>

locale event_handler =
  fixes env :: "'x poll_env"
    and grows :: "'x IngestDB_scheme \<Rightarrow> 'x IngestDB_scheme \<Rightarrow> bool"
    and settled_in :: "DecodedEvent \<Rightarrow> 'x IngestDB_scheme \<Rightarrow> bool"
  assumes grows_trans: "grows a b \<Longrightarrow> grows b c \<Longrightarrow> grows a c"
    and grows_tables: "IngestDB.more b = IngestDB.more a \<Longrightarrow> grows a b"
    and settled_grows: "settled_in e a \<Longrightarrow> grows a b \<Longrightarrow> settled_in e b"
    and handle_grows: "pv_handle env n e a = (b, ok) \<Longrightarrow> grows a b"
    and handle_settles: "pv_handle env n e a = (b, True) \<Longrightarrow> settled_in e b"
    and handle_frame: "pv_handle env n e a = (b, ok) \<Longrightarrow> db_cursors b = db_cursors a \<and> db_monitored b = db_monitored a"
begin

lemma handler: "handler_ok env"
  unfolding handler_ok_def
proof (intro allI)
  fix n e db
  obtain b ok where "pv_handle env n e db = (b, ok)" by fastforce
  then show "db_cursors (fst (pv_handle env n e db)) = db_cursors db \<and> db_monitored (fst (pv_handle env n e db)) = db_monitored db"
    using handle_frame by simp
qed

definition all_settled :: "page_state \<Rightarrow> 'x IngestDB_scheme \<Rightarrow> bool" where
  "all_settled ps db \<longleftrightarrow> (\<forall>e. (e, True) \<in> set (ps_handled ps) \<longrightarrow> settled_in e db)"

lemma all_settled_grows: "all_settled ps a \<Longrightarrow> grows a b \<Longrightarrow> ps_handled ps' = ps_handled ps \<Longrightarrow> all_settled ps' b"
  using settled_grows by (auto simp: all_settled_def)

lemma handle_events_settled:
  "all_settled ps db \<Longrightarrow> all_settled (fst (handle_events env grp es ps db)) (snd (handle_events env grp es ps db))"
proof (induction es arbitrary: ps db)
  case Nil
  then show ?case by simp
next
  case (Cons e es)
  show ?case
  proof (cases "eligible env grp e")
    case True
    obtain db1 ok where h: "pv_handle env (ps_events ps) e db = (db1, ok)" by fastforce
    let ?ps1 = "ps\<lparr>ps_seen := ps_seen ps @ [e], ps_events := ps_events ps + 1, ps_handled := ps_handled ps @ [(e, ok)],
                   ps_failed := (if ok then ps_failed ps else note_failure e (ps_failed ps))\<rparr>"
    have "settled_in e db1" if ok using h that handle_settles by (cases ok) auto
    then have "all_settled ?ps1 db1"
      using Cons.prems settled_grows [OF _ handle_grows [OF h]] by (auto simp: all_settled_def)
    then show ?thesis using Cons.IH [of ?ps1 db1] True h by (simp add: Let_def)
  next
    case False
    then show ?thesis using Cons.IH [of "ps\<lparr>ps_seen := ps_seen ps @ [e]\<rparr>" db] Cons.prems by (simp add: Let_def all_settled_def)
  qed
qed

lemma page_step_settled:
  assumes "page_step env s ws ps db = (db', Inr (ps', continues))" and "all_settled ps db"
  shows "all_settled ps' db'"
  using assms(1)
proof (cases rule: page_step_cases)
  case (reanchor msg st)
  then have "grows db db'" by (auto intro!: grows_tables)
  then show ?thesis using all_settled_grows [OF assms(2)] reanchor(4) by simp
next
  case (fetched page db1 st1 effects)
  let ?ps = "note_latest env page (ps\<lparr>ps_fetches := ps_fetches ps + 1, ps_state := st1, ps_effects := effects\<rparr>)"
  have "all_settled ?ps db1" by (rule all_settled_grows [OF assms(2) grows_tables [OF fetched(4)]]) simp
  from handle_events_settled [OF this] show ?thesis using fetched(5,6) by (auto simp: all_settled_def)
qed

lemma pages_settled:
  assumes "pages fuel env s ws ps db = Some (db', Inr ps')" and "all_settled ps db"
  shows "all_settled ps' db'"
  using assms
proof (induction fuel arbitrary: ps db)
  case (Suc fuel)
  from Suc.prems(1) show ?case
    unfolding pages_step using page_step_settled Suc.prems(2) Suc.IH by blast
qed simp

text \<open>Whatever a group reports as processed is settled when its cursors are stored.\<close>

lemma group_settled:
  assumes "run_group fuel env g ps db = Some (db', Inr ps')" and "(e, True) \<in> set (ps_handled ps')"
  shows "settled_in e db'"
proof -
  obtain db1 ps1 u where p: "pages fuel env (fst g) (snd g) (group_state env ps) db = Some (db1, Inr ps1)"
    and e: "ps' = ps1\<lparr>ps_groupCheckpoint := capped (pv_confirmed env) (ps_groupCheckpoint ps1)\<rparr>"
    and a: "advance_contracts (pv_network env) (ps_groupCheckpoint ps') (ps_failed ps') (map wt_ContractID (snd g)) db1 = (db', Inr u)"
    by (rule run_group_parts [OF assms(1)])
  have "all_settled (group_state env ps) db" by (simp add: all_settled_def group_state_def)
  from pages_settled [OF p this] have "all_settled ps' db1" by (simp add: e all_settled_def)
  moreover have "grows db1 db'" using grows_tables more_advance_contracts a by (metis fst_conv)
  ultimately show ?thesis using assms(2) settled_grows by (auto simp: all_settled_def)
qed

lemma passed_event_is_settled:
  assumes "run_group fuel env g ps db = Some (db', Inr ps')"
    and "\<forall>e \<in> set (ps_seen ps'). de_Ledger e \<noteq> 0" and "c \<in> set (map wt_ContractID (snd g))"
    and "cursorOf (pv_network env) c db' = Some l'"
    and "e \<in> set (ps_seen ps')" and "de_ContractID e = c" and "de_Ledger e \<le> l'"
    and "\<forall>l. cursorOf (pv_network env) c db = Some l \<longrightarrow> l < de_Ledger e"
  shows "settled_in e db'"
  using passed_event_was_processed [OF assms(1) handler assms(2-)] group_settled [OF assms(1)] by blast

end

subsection \<open>The handler of the poller\<close>

definition watching :: "'s handle_env \<Rightarrow> DecodedEvent \<Rightarrow> Monitor list" where
  "watching henv e = (case he_byContract henv (de_ContractID e) of None \<Rightarrow> [] | Some ms \<Rightarrow> ms)"

definition event_done :: "'s handle_env \<Rightarrow> DecodedEvent \<Rightarrow> 's PollWorld \<Rightarrow> bool" where
  "event_done henv e w = list_all (\<lambda>m. monitor_done henv e m w) (watching henv e)"

definition poll_with :: "'s handle_env \<Rightarrow> _ \<Rightarrow> _" where
  "poll_with henv env = env\<lparr>pv_handle := (\<lambda>n e w. handleEvent (henv :: 's handle_env) e (w :: 's PollWorld))\<rparr>"

lemma history_grows_tables:
  fixes w w' :: "'s PollWorld"
  assumes "IngestDB.more w' = IngestDB.more w"
  shows "history_grows w w'"
  using assms by (cases w, cases w', simp add: history_grows_def abs_gate_def dispatched_keys_def)

interpretation poller: event_handler "poll_with henv env" history_grows "event_done henv" for henv env
proof unfold_locales
  show "history_grows a b \<Longrightarrow> history_grows b c \<Longrightarrow> history_grows a c" for a b c :: "'a PollWorld"
    by (rule history_grows_trans)
  show "IngestDB.more b = IngestDB.more a \<Longrightarrow> history_grows a b" for a b :: "'a PollWorld"
    by (rule history_grows_tables)
  show "event_done henv e a \<Longrightarrow> history_grows a b \<Longrightarrow> event_done henv e b" for e and a b :: "'a PollWorld"
    by (auto simp: event_done_def list_all_iff intro: monitor_done_grows)
  fix n e and a b :: "'a PollWorld" and ok
  assume "pv_handle (poll_with henv env) n e a = (b, ok)"
  then have h: "handleEvent henv e a = (b, ok)" by (simp add: poll_with_def)
  note eff = handleEvent_effect [OF h]
  show "history_grows a b" "db_cursors b = db_cursors a \<and> db_monitored b = db_monitored a"
    using eff by (auto simp: accounts_def evolves_def)
next
  fix n e and a b :: "'a PollWorld"
  assume "pv_handle (poll_with henv env) n e a = (b, True)"
  then have h: "handleEvent henv e a = (b, True)" by (simp add: poll_with_def)
  show "event_done henv e b"
    using handleEvent_effect [OF h] by (cases "he_byContract henv (de_ContractID e)") (auto simp: event_done_def watching_def list_all_iff)
qed

text \<open>
  C1. From the source to the alert nothing is skipped. Run a group of the poll cycle with the poller's own event handler, let
  any statement, fetch or evaluation fail, and take any event its pages held for a watched contract, above the contract's
  old cursor and at or below the new one. Then every monitor that watches the contract is done with it: for each of its
  enabled rules the history says what became of it, and that is what the registry's recorded answer calls for. A match has
  its alert stored under the event's key and, when it was new, handed to the dispatcher, unless the cooldown suppressed it;
  a rule recorded as not matching was answered so; an absence rule was re-armed; only an isolated failure of the rule itself
  or the workspace's evaluation budget leaves a rule unanswered. An event for which this does not hold lies above the
  cursor and is read again.
\<close>

theorem passed_event_settled_every_rule:
  assumes "run_group fuel (poll_with henv env) g ps db = Some (db', Inr ps')"
    and "\<forall>e \<in> set (ps_seen ps'). de_Ledger e \<noteq> 0" and "c \<in> set (map wt_ContractID (snd g))"
    and "cursorOf (pv_network env) c db' = Some l'"
    and "e \<in> set (ps_seen ps')" and "de_ContractID e = c" and "de_Ledger e \<le> l'"
    and "\<forall>l. cursorOf (pv_network env) c db = Some l \<longrightarrow> l < de_Ledger e"
    and "m \<in> set (watching henv e)"
  shows "monitor_done henv e m db'"
proof -
  have n: "pv_network (poll_with henv env) = pv_network env" by (simp add: poll_with_def)
  have "event_done henv e db'"
    by (rule poller.passed_event_is_settled [OF assms(1-3) _ assms(5-7), unfolded n, OF assms(4,8)])
  then show ?thesis using assms(9) by (simp add: event_done_def list_all_iff)
qed

text \<open>A cycle over one page with one event of a watched contract.\<close>

definition demo_poll_env :: "'x poll_env" where
  "demo_poll_env =
     \<lparr>pv_network = '''',
      pv_source = \<lparr>src_fetch = (\<lambda>n s ws cur. Inr \<lparr>fp_Events = [demo_event1], fp_LatestLedger = 20, fp_NextCursor = ''''\<rparr>),
                   src_upstream = False, src_retractions = (\<lambda>n. (0, [])), src_chainHead = 0\<rparr>,
      pv_handle = (\<lambda>n e db. (db, True)), pv_listAlerts = (\<lambda>db. []), pv_delivered = (\<lambda>i. True), pv_now = 0,
      pv_confirmed = None, pv_single = True\<rparr>"

definition demo_poll_world :: "int PollWorld" where
  "demo_poll_world = demo_world\<lparr>db_cursors := [(('''', ''C1''), 8)], db_monitored := [('''', ''C1'')]\<rparr>"

lemma demo_cycle:
  "map_option (\<lambda>(w, r). (cursorOf '''' ''C1'' w, map_sum id (\<lambda>ps. ps_seen ps) r))
     (run_group 1 (poll_with (demo_henv False) demo_poll_env) demo_group demo_start demo_poll_world) = Some (Some 20, Inr [demo_event1])"
  by code_simp

theorem passed_event_settled_every_rule_witness:
  "\<exists>w' ps'. run_group 1 (poll_with (demo_henv False) demo_poll_env) demo_group demo_start demo_poll_world = Some (w', Inr ps')
     \<and> cursorOf '''' ''C1'' w' = Some 20 \<and> monitor_done (demo_henv False) demo_event1 demo_absence_monitor w'"
proof -
  obtain w' ps' where r: "run_group 1 (poll_with (demo_henv False) demo_poll_env) demo_group demo_start demo_poll_world = Some (w', Inr ps')"
    and c: "cursorOf '''' ''C1'' w' = Some 20" and s: "ps_seen ps' = [demo_event1]"
    using demo_cycle by (auto simp: map_sum_def split: sum.splits) (metis sum.exhaust)
  have n: "pv_network demo_poll_env = ''''" by (simp add: demo_poll_env_def)
  have e: "de_Ledger demo_event1 = 9" "de_ContractID demo_event1 = ''C1''" by (simp_all add: demo_event1_def)
  have "cursorOf '''' ''C1'' demo_poll_world = Some 8" by code_simp
  then have "monitor_done (demo_henv False) demo_event1 demo_absence_monitor w'"
    by (intro passed_event_settled_every_rule [OF r, where c = "''C1''" and l' = 20])
       (use c in \<open>simp_all add: s n e demo_group_def watching_def demo_henv_def\<close>)
  with r c show ?thesis by blast
qed

end
