(* ===== verification/Ingestor.thy ===== *)
theory Ingestor
  imports Event_Handling
begin

text \<open>
  The ingestor a backfill replays history through: \<open>Handle\<close> and \<open>fireAlert\<close> of \<open>internal/poller/ingest.go\<close>. It shares
  the registry, the store and the fair order of the monitors with the poller, but reports counts instead of a verdict,
  reads the rules anew for every event, and never delivers or publishes unless asked to. \<open>ie_enrich\<close> is the text the
  optional enricher returned, empty without one or when it failed.
\<close>

record 's ingest_env = "'s handle_env" +
  ie_live :: bool
  ie_enrich :: "nat \<Rightarrow> string \<Rightarrow> string \<Rightarrow> string"

record HandleOptions =
  op_Backfilled :: bool
  op_Deliver :: bool

record HandleResult =
  hr_Matched :: nat
  hr_Alerts :: nat
  hr_Dispatched :: nat

definition Ingestor_fireAlert ::
  "'s ingest_env \<Rightarrow> HandleOptions \<Rightarrow> Monitor \<Rightarrow> Rule \<Rightarrow> DecodedEvent \<Rightarrow> string \<Rightarrow> 's PollWorld \<Rightarrow> 's PollWorld \<times> bool \<times> bool" where
  "Ingestor_fireAlert env opts m rule ev eventID w =
     (let cd = he_codec env; enrichment = ie_enrich env (pw_tick w) (de_ContractID ev) (EventName ev) in
      case he_marshalErr env (event_payload cd ev) of Some e \<Rightarrow> (w, False, False) | None \<Rightarrow>
      case createAlert (he_now env (pw_tick w)) Default None (alert_of cd m rule ev eventID (op_Backfilled opts)) (tick w) of
        (w', Inl e) \<Rightarrow> (w', False, False)
      | (w', Inr (AlertCreated, a)) \<Rightarrow>
          (let w2 = (if ie_live env \<and> \<not> op_Backfilled opts then w'\<lparr>pw_published := pw_published w' @ [a]\<rparr> else w') in
           if \<not> op_Deliver opts then (w2, True, False)
           else (w2\<lparr>pw_dispatched := pw_dispatched w2 @
                     [(notify_alert cd m rule ev eventID a)\<lparr>al_Enrichment := enrichment, al_Severity := ar_Severity a\<rparr>]\<rparr>, True, True))
      | (w', Inr (out, a)) \<Rightarrow> (w', False, False))"

type_synonym 's ingesting = "'s PollWorld \<times> (string \<Rightarrow> duration) \<times> HandleResult"

definition ingest_rule :: "'s ingest_env \<Rightarrow> HandleOptions \<Rightarrow> Monitor \<Rightarrow> DecodedEvent \<Rightarrow> Rule \<Rightarrow> 's ingesting \<Rightarrow> 's ingesting" where
  "ingest_rule env opts m ev rule st =
     (case st of (w, elapsed, res) \<Rightarrow>
      if 0 < he_budget env \<and> he_budget env \<le> elapsed (mo_WorkspaceID m) then (w, elapsed, res)
      else
        (let elapsed' = elapsed(mo_WorkspaceID m := elapsed (mo_WorkspaceID m) + he_elapsed env (pw_tick w)) in
         case evaluate_rule (handle_env.truncate env) rule ev w of
           (w1, Inl err) \<Rightarrow> (w1, elapsed', res)
         | (w1, Inr False) \<Rightarrow> (w1, elapsed', res)
         | (w1, Inr True) \<Rightarrow>
             (case Ingestor_fireAlert env opts m rule ev (alert_event_id (handle_env.truncate env) rule ev w1) w1 of
                (w2, created, dispatched) \<Rightarrow>
                  (w2, elapsed',
                   res\<lparr>hr_Matched := hr_Matched res + 1,
                       hr_Alerts := hr_Alerts res + (if created then 1 else 0),
                       hr_Dispatched := hr_Dispatched res + (if dispatched then 1 else 0)\<rparr>))))"

definition ingest_monitor :: "'s ingest_env \<Rightarrow> HandleOptions \<Rightarrow> DecodedEvent \<Rightarrow> Monitor \<Rightarrow> 's ingesting \<Rightarrow> 's ingesting" where
  "ingest_monitor env opts ev m st =
     (case st of (w, elapsed, res) \<Rightarrow>
      (case he_listRules env (pw_tick w) (mo_ID m) of
         Inl e \<Rightarrow> (tick w, elapsed, res)
       | Inr rs \<Rightarrow> fold (ingest_rule env opts m ev) rs (tick w, elapsed, res)))"

definition Handle :: "'s ingest_env \<Rightarrow> DecodedEvent \<Rightarrow> Monitor list \<Rightarrow> HandleOptions \<Rightarrow> 's PollWorld \<Rightarrow> 's PollWorld \<times> HandleResult" where
  "Handle env ev monitors opts w =
     (case fold (ingest_monitor env opts ev) (the (orderMonitorsByWorkspaceFairness monitors))
             (w, \<lambda>ws. 0, \<lparr>hr_Matched = 0, hr_Alerts = 0, hr_Dispatched = 0\<rparr>) of
        (w', elapsed, res) \<Rightarrow> (w', res))"

subsection \<open>The counts are true\<close>

text \<open>
  What a stretch of ingestion did, against its counts: the matches the registry answered, the rows it added, what it handed
  to the dispatcher and to the live stream.
\<close>

definition said_match :: "Rule \<times> DecodedEvent \<times> (iso_err + bool) \<Rightarrow> bool" where
  "said_match q = (snd (snd q) = Inr True)"

definition accounted :: "HandleOptions \<Rightarrow> 's PollWorld \<Rightarrow> HandleResult \<Rightarrow> 's PollWorld \<Rightarrow> HandleResult \<Rightarrow> bool" where
  "accounted opts w res w' res' \<longleftrightarrow>
     (\<exists>rows sent live as. db_alerts w' = db_alerts w @ rows \<and> pw_dispatched w' = pw_dispatched w @ sent \<and> pw_published w' = pw_published w @ live
        \<and> pw_answers w' = pw_answers w @ as
        \<and> hr_Alerts res' = hr_Alerts res + length rows \<and> hr_Dispatched res' = hr_Dispatched res + length sent
        \<and> hr_Matched res' = hr_Matched res + length (filter said_match as) \<and> length rows \<le> length (filter said_match as)
        \<and> (\<forall>r \<in> set rows. ar_Backfilled r = op_Backfilled opts)
        \<and> length sent = (if op_Deliver opts then length rows else 0)
        \<and> length live \<le> (if op_Backfilled opts then 0 else length rows))"

lemma accounted_quiet:
  assumes "db_alerts w' = db_alerts w" "pw_dispatched w' = pw_dispatched w" "pw_published w' = pw_published w"
    "pw_answers w' = pw_answers w @ as" "filter said_match as = []"
  shows "accounted opts w res w' res"
  unfolding accounted_def
  by (rule exI [of _ "[]"], rule exI [of _ "[]"], rule exI [of _ "[]"], rule exI [of _ as]) (simp add: assms)

lemma accounted_refl: "accounted opts w res w res"
  by (rule accounted_quiet [where as = "[]"]) simp_all

lemma accounted_trans:
  assumes "accounted opts w res w1 res1" "accounted opts w1 res1 w2 res2"
  shows "accounted opts w res w2 res2"
proof -
  obtain rows sent live as where a: "db_alerts w1 = db_alerts w @ rows" "pw_dispatched w1 = pw_dispatched w @ sent"
    "pw_published w1 = pw_published w @ live" "pw_answers w1 = pw_answers w @ as"
    "hr_Alerts res1 = hr_Alerts res + length rows" "hr_Dispatched res1 = hr_Dispatched res + length sent"
    "hr_Matched res1 = hr_Matched res + length (filter said_match as)" "length rows \<le> length (filter said_match as)"
    "\<forall>r \<in> set rows. ar_Backfilled r = op_Backfilled opts"
    "length sent = (if op_Deliver opts then length rows else 0)" "length live \<le> (if op_Backfilled opts then 0 else length rows)"
    using assms(1) by (auto simp: accounted_def)
  obtain rows' sent' live' as' where b: "db_alerts w2 = db_alerts w1 @ rows'" "pw_dispatched w2 = pw_dispatched w1 @ sent'"
    "pw_published w2 = pw_published w1 @ live'" "pw_answers w2 = pw_answers w1 @ as'"
    "hr_Alerts res2 = hr_Alerts res1 + length rows'" "hr_Dispatched res2 = hr_Dispatched res1 + length sent'"
    "hr_Matched res2 = hr_Matched res1 + length (filter said_match as')" "length rows' \<le> length (filter said_match as')"
    "\<forall>r \<in> set rows'. ar_Backfilled r = op_Backfilled opts"
    "length sent' = (if op_Deliver opts then length rows' else 0)" "length live' \<le> (if op_Backfilled opts then 0 else length rows')"
    using assms(2) by (auto simp: accounted_def)
  show ?thesis unfolding accounted_def
    by (rule exI [of _ "rows @ rows'"], rule exI [of _ "sent @ sent'"], rule exI [of _ "live @ live'"], rule exI [of _ "as @ as'"])
       (use a b in \<open>auto split: if_splits\<close>)
qed

lemma alert_of_backfilled [simp]: "ar_Backfilled (alert_of cd m rule ev e b) = b"
  by (simp add: alert_of_def store_alert0_def Let_def split: prod.splits)

lemma createAlert_outputs:
  assumes "createAlert now ws scope a w = (w', r)"
  shows "pw_dispatched w' = pw_dispatched w" "pw_published w' = pw_published (w :: 's PollWorld)" "pw_answers w' = pw_answers w"
proof -
  have "keeps pw_dispatched (createAlert now ws scope a)" "keeps pw_published (createAlert now ws scope a)" "keeps pw_answers (createAlert now ws scope a)"
    by (rule createAlert_keeps; simp)+
  then show "pw_dispatched w' = pw_dispatched w" "pw_published w' = pw_published w" "pw_answers w' = pw_answers w" using assms by (auto dest: keeps_eq)
qed

text \<open>What raising an alert adds: one row, if it is new.\<close>

lemma Ingestor_fireAlert_effect:
  assumes "Ingestor_fireAlert env opts m rule ev e w = (w', created, dispatched)"
  shows "\<exists>rows sent live. db_alerts w' = db_alerts w @ rows \<and> pw_dispatched w' = pw_dispatched w @ sent \<and> pw_published w' = pw_published w @ live
    \<and> pw_answers w' = pw_answers w \<and> length rows = (if created then 1 else 0) \<and> length sent = (if dispatched then 1 else 0)
    \<and> (\<forall>r \<in> set rows. ar_Backfilled r = op_Backfilled opts) \<and> (dispatched \<longleftrightarrow> created \<and> op_Deliver opts)
    \<and> length live \<le> (if op_Backfilled opts then 0 else length rows)"
proof -
  let ?a = "alert_of (he_codec env) m rule ev e (op_Backfilled opts)"
  obtain w1 r where c: "createAlert (he_now env (pw_tick w)) Default None ?a (tick w) = (w1, r)" by fastforce
  note o = createAlert_outputs [OF c]
  note g = createAlert_refines_gate [OF c alert_of_fields(3)]
  have t: "pw_dispatched (tick w) = pw_dispatched w" "pw_published (tick w) = pw_published w" "db_alerts (tick w) = db_alerts w"
    "pw_answers (tick w) = pw_answers w"
    by (simp_all add: tick_def)
  show ?thesis
  proof (cases "he_marshalErr env (event_payload (he_codec env) ev) = None \<and> (\<exists>a'. r = Inr (AlertCreated, a'))")
    case True
    then obtain a' where r: "r = Inr (AlertCreated, a')" and ok: "he_marshalErr env (event_payload (he_codec env) ev) = None" by blast
    then have row: "db_alerts w1 = db_alerts w @ [AlertRow.truncate a']" "ar_Backfilled (AlertRow.truncate a') = op_Backfilled opts"
      using g t by (simp_all add: AlertRow.truncate_def)
    show ?thesis
      by (rule exI [of _ "[AlertRow.truncate a']"],
          rule exI [of _ "drop (length (pw_dispatched w)) (pw_dispatched w')"],
          rule exI [of _ "drop (length (pw_published w)) (pw_published w')"])
         (use assms c r ok row o t in \<open>auto simp: Ingestor_fireAlert_def Let_def split: if_splits\<close>)
  next
    case False
    have "w' = w \<or> w' = w1 \<and> db_alerts w1 = db_alerts w" "\<not> created" "\<not> dispatched"
      using assms c False g t by (auto simp: Ingestor_fireAlert_def Let_def split: option.splits sum.splits prod.splits AlertOutcome.splits if_splits)
    then show ?thesis using o t by auto
  qed
qed

lemma evaluate_rule_outputs:
  assumes "evaluate_rule env rule ev w = (w', r)"
  shows "db_alerts w' = db_alerts w" "pw_dispatched w' = pw_dispatched w" "pw_published w' = pw_published w"
    "pw_answers w' = pw_answers w @ [(rule, ev, r)]"
  using assms by (auto simp: evaluate_rule_def tick_def Let_def split: prod.splits)

lemma ingest_rule_accounted:
  assumes "ingest_rule env opts m ev rule (w, el, res) = (w', el', res')"
  shows "accounted opts w res w' res'"
proof (cases "0 < he_budget env \<and> he_budget env \<le> el (mo_WorkspaceID m)")
  case True
  then show ?thesis using assms accounted_refl by (auto simp: ingest_rule_def)
next
  case False
  obtain w1 r where e: "evaluate_rule (handle_env.truncate env) rule ev w = (w1, r)" by fastforce
  note o = evaluate_rule_outputs [OF e]
  show ?thesis
  proof (cases "r = Inr True")
    case True
    obtain w2 c d where f: "Ingestor_fireAlert env opts m rule ev (alert_event_id (handle_env.truncate env) rule ev w1) w1 = (w2, c, d)"
      by (metis prod_cases3)
    have "w' = w2" "res' = res\<lparr>hr_Matched := hr_Matched res + 1, hr_Alerts := hr_Alerts res + (if c then 1 else 0),
        hr_Dispatched := hr_Dispatched res + (if d then 1 else 0)\<rparr>"
      using assms False e True f by (auto simp: ingest_rule_def Let_def)
    then show ?thesis using Ingestor_fireAlert_effect [OF f] o True unfolding accounted_def by (force simp: said_match_def)
  next
    case no: False
    then have "w' = w1 \<and> res' = res" using assms False e by (auto simp: ingest_rule_def Let_def split: sum.splits bool.splits)
    then show ?thesis using accounted_quiet [OF o] no by (simp add: said_match_def)
  qed
qed

lemma fold_accounted:
  assumes step: "\<And>x w el res w' el' res'. f x (w, el, res) = (w', el', res') \<Longrightarrow> accounted opts w res w' res'"
    and run: "fold f xs (w, el, res) = (w', el', res')"
  shows "accounted opts w res w' res'"
  using run
proof (induction xs arbitrary: w el res)
  case Nil
  then show ?case by (simp add: accounted_refl)
next
  case (Cons x xs)
  obtain w1 el1 res1 where h: "f x (w, el, res) = (w1, el1, res1)" by (metis prod_cases3)
  then have "fold f xs (w1, el1, res1) = (w', el', res')" using Cons.prems by simp
  from Cons.IH [OF this] show ?case by (rule accounted_trans [OF step [OF h]])
qed

lemma ingest_monitor_accounted:
  assumes "ingest_monitor env opts ev m (w, el, res) = (w', el', res')"
  shows "accounted opts w res w' res'"
proof -
  have q: "accounted opts w res (tick w) res" by (rule accounted_quiet [where as = "[]"]) (simp_all add: tick_def)
  show ?thesis
  proof (cases "he_listRules env (pw_tick w) (mo_ID m)")
    case (Inl e)
    then show ?thesis using assms q by (simp add: ingest_monitor_def)
  next
    case (Inr rs)
    then have "fold (ingest_rule env opts m ev) rs (tick w, el, res) = (w', el', res')" using assms by (simp add: ingest_monitor_def)
    from fold_accounted [OF ingest_rule_accounted this] show ?thesis by (rule accounted_trans [OF q])
  qed
qed

lemma Handle_accounted:
  assumes "Handle env ev monitors opts w = (w', res)"
  shows "accounted opts w \<lparr>hr_Matched = 0, hr_Alerts = 0, hr_Dispatched = 0\<rparr> w' res"
proof -
  obtain el where "fold (ingest_monitor env opts ev) (the (orderMonitorsByWorkspaceFairness monitors))
      (w, \<lambda>ws. 0, \<lparr>hr_Matched = 0, hr_Alerts = 0, hr_Dispatched = 0\<rparr>) = (w', el, res)"
    using assms by (auto simp: Handle_def split: prod.splits)
  from fold_accounted [OF ingest_monitor_accounted this] show ?thesis .
qed

end
