(* ===== verification/Text_Codec.thy ===== *)
theory Text_Codec
  imports Beacon_Prelude
begin

text \<open>
  The text encodings of the Go library that cursors are made of: \<open>base64.RawURLEncoding\<close>, \<open>strconv.Itoa\<close> and
  \<open>Atoi\<close>, \<open>strings.Cut\<close>. A string is a list of bytes, as in Go. The decoder is Go's: it skips line ends, refuses
  other characters outside the alphabet and a single left-over character, and ignores the unused bits of the last one.
\<close>

subsection \<open>Base 64\<close>

definition b64_char :: "nat \<Rightarrow> char" where
  "b64_char n =
     char_of (if n < 26 then 65 + n else if n < 52 then 71 + n else if n < 62 then n - 4 else if n = 62 then 45 else 95)"

definition b64_val :: "char \<Rightarrow> nat option" where
  "b64_val ch =
     (let c = of_char ch :: nat in
      if 65 \<le> c \<and> c \<le> 90 then Some (c - 65)
      else if 97 \<le> c \<and> c \<le> 122 then Some (c - 71)
      else if 48 \<le> c \<and> c \<le> 57 then Some (c + 4)
      else if c = 45 then Some 62 else if c = 95 then Some 63 else None)"

fun b64_sextets :: "nat list \<Rightarrow> nat list" where
  "b64_sextets [] = []"
| "b64_sextets [a] = [a div 4, a mod 4 * 16]"
| "b64_sextets [a, b] = [a div 4, a mod 4 * 16 + b div 16, b mod 16 * 4]"
| "b64_sextets (a # b # c # r) = [a div 4, a mod 4 * 16 + b div 16, b mod 16 * 4 + c div 64, c mod 64] @ b64_sextets r"

fun b64_bytes :: "nat list \<Rightarrow> nat list option" where
  "b64_bytes [] = Some []"
| "b64_bytes [x] = None"
| "b64_bytes [x, y] = Some [x * 4 + y div 16]"
| "b64_bytes [x, y, z] = Some [x * 4 + y div 16, y mod 16 * 16 + z div 4]"
| "b64_bytes (x # y # z # w # r) =
     (case b64_bytes r of None \<Rightarrow> None
      | Some bs \<Rightarrow> Some ([x * 4 + y div 16, y mod 16 * 16 + z div 4, z mod 4 * 64 + w] @ bs))"

definition b64_encode :: "string \<Rightarrow> string" where
  "b64_encode s = map b64_char (b64_sextets (map of_char s))"

definition b64_decode :: "string \<Rightarrow> string option" where
  "b64_decode s =
     (let vs = map b64_val (filter (\<lambda>c. c \<noteq> char_of (10 :: nat) \<and> c \<noteq> char_of (13 :: nat)) s) in
      if None \<in> set vs then None else map_option (map char_of) (b64_bytes (map the vs)))"

lemma b64_char_code: "n < 64 \<Longrightarrow> (of_char (b64_char n) :: nat) =
    (if n < 26 then 65 + n else if n < 52 then 71 + n else if n < 62 then n - 4 else if n = 62 then 45 else 95)"
  by (auto simp: b64_char_def of_char_of)

lemma b64_val_char [simp]: "n < 64 \<Longrightarrow> b64_val (b64_char n) = Some n"
  by (auto simp: b64_val_def b64_char_code Let_def)

lemma b64_char_printable: "n < 64 \<Longrightarrow> b64_char n \<noteq> char_of (10 :: nat) \<and> b64_char n \<noteq> char_of (13 :: nat)"
  using b64_char_code [of n] by (auto split: if_splits dest!: arg_cong [where f = "of_char :: char \<Rightarrow> nat"])

lemma b64_sextets_range: "list_all (\<lambda>b. b < 256) bs \<Longrightarrow> list_all (\<lambda>x. x < 64) (b64_sextets bs)"
proof (induction bs rule: b64_sextets.induct)
  case (4 a b c r)
  then have "a div 4 < 64" "b div 16 < 16" "c div 64 < 4" by auto
  moreover have "a mod 4 < 4" "b mod 16 < 16" "c mod 64 < 64" by simp_all
  ultimately have "a mod 4 * 16 + b div 16 < 64" "b mod 16 * 4 + c div 64 < 64" by linarith+
  then show ?case using 4 by auto
next
  case (3 a b)
  then have "a div 4 < 64" "b div 16 < 16" by auto
  moreover have "a mod 4 < 4" "b mod 16 < 16" by simp_all
  ultimately show ?case by simp
next
  case (2 a)
  then have "a div 4 < 64" by auto
  moreover have "a mod 4 < 4" by simp
  ultimately show ?case by simp
qed simp

lemma b64_bytes_sextets: "list_all (\<lambda>b. b < 256) bs \<Longrightarrow> b64_bytes (b64_sextets bs) = Some bs"
proof (induction bs rule: b64_sextets.induct)
  case (2 a)
  then show ?case by simp
next
  case (3 a b)
  then have "b div 16 < 16" by auto
  then show ?case by simp
next
  case (4 a b c r)
  then have "b div 16 < 16" "c div 64 < 4" by auto
  then show ?case using 4 by simp
qed simp

text \<open>Decoding gives back what was encoded.\<close>

lemma b64_decode_encode [simp]: "b64_decode (b64_encode s) = Some s"
proof -
  define xs where "xs = b64_sextets (map of_char s)"
  have bytes: "list_all (\<lambda>b. b < 256) (map of_char s :: nat list)" by (simp add: list_all_iff)
  have small: "\<forall>x \<in> set xs. x < 64" using b64_sextets_range [OF bytes] by (simp add: xs_def list_all_iff)
  have keep: "filter (\<lambda>c. c \<noteq> char_of (10 :: nat) \<and> c \<noteq> char_of (13 :: nat)) (map b64_char xs) = map b64_char xs"
    using small b64_char_printable by (auto simp: filter_id_conv)
  have vals: "map b64_val (map b64_char xs) = map Some xs" using small by simp
  have plain: "map the (map Some xs) = xs" by (simp add: comp_def)
  have "b64_bytes xs = Some (map of_char s)" using b64_bytes_sextets [OF bytes] by (simp add: xs_def)
  then show ?thesis unfolding b64_decode_def b64_encode_def xs_def [symmetric] Let_def keep vals plain
    by (auto simp: comp_def)
qed

lemma b64_encode_Nil [simp]: "b64_encode s = '''' \<longleftrightarrow> s = ''''"
proof -
  have "b64_sextets bs = [] \<longleftrightarrow> bs = []" for bs by (cases bs rule: b64_sextets.cases) auto
  then show ?thesis by (simp add: b64_encode_def)
qed

subsection \<open>Numbers\<close>

text \<open>\<open>Atoi\<close>: an optional sign, then decimal digits, within 64 bits.\<close>

definition is_digit :: "char \<Rightarrow> bool" where
  "is_digit c = (48 \<le> (of_char c :: nat) \<and> (of_char c :: nat) < 58)"

definition Atoi :: "string \<Rightarrow> int option" where
  "Atoi s =
     (let neg = (case s of c # r \<Rightarrow> c = CHR ''-'' | [] \<Rightarrow> False);
          ds = (case s of c # r \<Rightarrow> if c = CHR ''-'' \<or> c = CHR ''+'' then r else s | [] \<Rightarrow> s)
      in if ds = [] \<or> \<not> list_all is_digit ds then None
         else let n = int (digits_val ds); v = (if neg then - n else n)
              in if min_i64 \<le> v \<and> v \<le> max_i64 then Some v else None)"

lemma nat_digits_digit: "list_all is_digit (nat_digits n)"
  using nat_digits_chars by (auto simp: list_all_iff is_digit_def)

lemma nat_digits_ne [simp]: "nat_digits n \<noteq> []"
  by (subst nat_digits.simps) simp

lemma Atoi_fmt_d:
  assumes "min_i64 \<le> i" "i \<le> max_i64"
  shows "Atoi (fmt_d i) = Some i"
proof (cases "i < 0")
  case True
  then show ?thesis using assms nat_digits_digit [of "nat (- i)"] by (simp add: Atoi_def fmt_d_def)
next
  case False
  obtain c r where d: "nat_digits (nat i) = c # r" by (cases "nat_digits (nat i)") auto
  have "is_digit c" using nat_digits_digit [of "nat i"] d by simp
  then have "c \<noteq> CHR ''-''" "c \<noteq> CHR ''+''" by (auto simp: is_digit_def)
  moreover have "digits_val (c # r) = nat i" using digits_val_nat_digits [of "nat i"] d by simp
  ultimately show ?thesis using False assms nat_digits_digit [of "nat i"] d by (simp add: Atoi_def fmt_d_def)
qed

text \<open>\<open>strings.Cut\<close> at a one-byte separator.\<close>

definition cut :: "char \<Rightarrow> string \<Rightarrow> (string \<times> string) option" where
  "cut c s = (if c \<in> set s then Some (takeWhile (\<lambda>x. x \<noteq> c) s, tl (dropWhile (\<lambda>x. x \<noteq> c) s)) else None)"

lemma cut_append: "c \<notin> set a \<Longrightarrow> cut c (a @ c # b) = Some (a, b)"
proof -
  assume "c \<notin> set a"
  then have "takeWhile (\<lambda>x. x \<noteq> c) (a @ c # b) = a" "dropWhile (\<lambda>x. x \<noteq> c) (a @ c # b) = c # b"
    by (subst takeWhile_append2 dropWhile_append2; auto)+
  then show ?thesis by (simp add: cut_def)
qed

lemma fmt_d_chars: "c \<in> set (fmt_d i) \<Longrightarrow> is_digit c \<or> c = CHR ''-''"
  using nat_digits_chars by (auto simp: fmt_d_def is_digit_def split: if_splits)

end
