(* ===== verification/RPC_Source.thy ===== *)
theory RPC_Source
  imports Text_Codec Poll_Cycle
begin

text \<open>
  \<open>internal/poller/rpcsource.go\<close>: the event source that asks a Stellar RPC node. The watch list is packed into filters
  and the filters into requests the node accepts; the cursor handed to the poller names the request and the node's own cursor
  within it, so the source keeps no state between calls.

  The node and the decoder are not part of the repository: \<open>rpc\<close> answers \<open>getEvents\<close>, \<open>dec\<close> decodes an event or fails.
  An index out of range is a panic in Go; here it is a failed fetch.
\<close>

subsection \<open>Requests and answers\<close>

definition MaxFiltersPerRequest :: nat where "MaxFiltersPerRequest = 5"
definition MaxContractIDsPerFilter :: nat where "MaxContractIDsPerFilter = 5"
definition DefaultEventsLimit :: int where "DefaultEventsLimit = 100"
definition DefaultLedgersLimit :: uint32 where "DefaultLedgersLimit = 100"

record EventFilter =
  ef_Type :: string
  ef_ContractIDs :: "string list"
  ef_Topics :: "string list list"

record GetEventsRequest =
  rq_StartLedger :: uint32
  rq_Filters :: "EventFilter list"
  rq_Cursor :: string
  rq_Limit :: int

record rpc_event =
  re_ID :: string
  re_Type :: string
  re_Ledger :: uint32
  re_LedgerClosedAt :: gtime
  re_ContractID :: string
  re_PagingToken :: string
  re_InSuccessfulContractCall :: bool
  re_TxHash :: string
  re_Topic :: "string list"
  re_Value :: string
  re_TopicJSON :: "string list"
  re_ValueJSON :: string

record GetEventsResult =
  gr_Events :: "rpc_event list"
  gr_LatestLedger :: uint32
  gr_Cursor :: string

type_synonym get_events = "GetEventsRequest \<Rightarrow> string + GetEventsResult"

subsection \<open>The cursor\<close>

definition encodeCursor :: "int \<Rightarrow> string \<Rightarrow> string" where
  "encodeCursor batch rpcCursor = b64_encode (fmt_d batch @ ''|'' @ rpcCursor)"

definition decodeCursor :: "string \<Rightarrow> int \<times> string" where
  "decodeCursor cursor =
     (if cursor = '''' then (0, '''')
      else case b64_decode cursor of
        None \<Rightarrow> (0, '''')
      | Some raw \<Rightarrow>
          (case cut (CHR ''|'') raw of
             None \<Rightarrow> (0, '''')
           | Some (b, rest) \<Rightarrow> (case Atoi b of None \<Rightarrow> (0, '''') | Some n \<Rightarrow> (n, rest))))"

subsection \<open>Filters\<close>

function chunks :: "nat \<Rightarrow> 'a list \<Rightarrow> 'a list list" where
  "chunks n xs = (if xs = [] \<or> n = 0 then [] else take n xs # chunks n (drop n xs))"
  by pat_completeness auto
termination
  by (relation "measure (\<lambda>(n, xs). length xs)") auto

declare chunks.simps [simp del]

definition topicKey :: "string list list \<Rightarrow> string" where
  "topicKey topics = concat (map (\<lambda>segment. join_with [char_of (0 :: nat)] segment @ [char_of (1 :: nat)]) topics)"

record filter_group =
  fg_topics :: "string list list"
  fg_ids :: "string list"

definition add_watch :: "(string \<times> filter_group) list \<Rightarrow> Watch \<Rightarrow> (string \<times> filter_group) list" where
  "add_watch groups w =
     (let key = topicKey (wt_Topics w) in
      if key \<in> fst ` set groups
      then map (\<lambda>(k, g). (k, if k = key then g\<lparr>fg_ids := fg_ids g @ [wt_ContractID w]\<rparr> else g)) groups
      else groups @ [(key, \<lparr>fg_topics = wt_Topics w, fg_ids = [wt_ContractID w]\<rparr>)])"

definition buildFilters :: "Watch list \<Rightarrow> EventFilter list" where
  "buildFilters watch =
     concat (map (\<lambda>(k, g). map (\<lambda>ids. \<lparr>ef_Type = ''contract'', ef_ContractIDs = ids, ef_Topics = fg_topics g\<rparr>)
                             (chunks MaxContractIDsPerFilter (fg_ids g)))
              (foldl add_watch [] watch))"

definition groupFilters :: "EventFilter list \<Rightarrow> EventFilter list list" where
  "groupFilters filters = chunks MaxFiltersPerRequest filters"

subsection \<open>One page\<close>

definition page_token :: "GetEventsResult \<Rightarrow> string" where
  "page_token res =
     (if gr_Cursor res \<noteq> '''' then gr_Cursor res
      else let l = last (gr_Events res) in if re_PagingToken l \<noteq> '''' then re_PagingToken l else re_ID l)"

definition next_batch :: "EventFilter list list \<Rightarrow> int \<Rightarrow> string" where
  "next_batch groups batchIdx = (if int (length groups) \<le> batchIdx + 1 then '''' else encodeCursor (batchIdx + 1) '''')"

definition FetchEvents ::
  "get_events \<Rightarrow> (rpc_event \<Rightarrow> DecodedEvent option) \<Rightarrow> uint32 \<Rightarrow> Watch list \<Rightarrow> string \<Rightarrow> int \<Rightarrow> fetch_err + FetchPage" where
  "FetchEvents rpc dec startLedger watch cursor limit0 =
     (let limit = (if limit0 \<le> 0 then DefaultEventsLimit else limit0);
          groups = groupFilters (buildFilters watch);
          (batchIdx, rpcCursor) = decodeCursor cursor
      in if int (length groups) \<le> batchIdx then Inr \<lparr>fp_Events = [], fp_LatestLedger = 0, fp_NextCursor = ''''\<rparr>
      else if batchIdx < 0 then Inl (FetchFailed ''index out of range'')
      else case rpc \<lparr>rq_StartLedger = (if rpcCursor \<noteq> '''' then 0 else startLedger), rq_Filters = groups ! nat batchIdx,
                     rq_Cursor = rpcCursor, rq_Limit = limit\<rparr> of
        Inl err \<Rightarrow> Inl (FetchFailed err)
      | Inr res \<Rightarrow>
          (let page = \<lparr>fp_Events = List.map_filter dec (gr_Events res), fp_LatestLedger = gr_LatestLedger res, fp_NextCursor = ''''\<rparr> in
           if int (length (gr_Events res)) < limit then Inr (page\<lparr>fp_NextCursor := next_batch groups batchIdx\<rparr>)
           else if page_token res = '''' then Inr (page\<lparr>fp_NextCursor := next_batch groups batchIdx\<rparr>)
           else Inr (page\<lparr>fp_NextCursor := encodeCursor batchIdx (page_token res)\<rparr>)))"

subsection \<open>Cursors survive the trip\<close>

lemma decode_encode_cursor:
  assumes "min_i64 \<le> batch" "batch \<le> max_i64"
  shows "decodeCursor (encodeCursor batch c) = (batch, c)"
proof -
  have "CHR ''|'' \<notin> set (fmt_d batch)" using fmt_d_chars [of "CHR ''|''" batch] by (auto simp: is_digit_def)
  then show ?thesis using assms by (simp add: decodeCursor_def encodeCursor_def cut_append Atoi_fmt_d)
qed

lemma encodeCursor_ne [simp]: "encodeCursor batch c \<noteq> ''''"
  by (simp add: encodeCursor_def)

text \<open>
  C17. A cursor comes back as it was issued: for every batch number a Go \<open>int\<close> can hold and every byte string the
  node uses as its cursor, decoding the encoded cursor yields both, and no encoded cursor reads as the start of a cycle.
\<close>

theorem cursor_round_trip:
  assumes "min_i64 \<le> batch" "batch \<le> max_i64"
  shows "decodeCursor (encodeCursor batch rpcCursor) = (batch, rpcCursor) \<and> encodeCursor batch rpcCursor \<noteq> ''''"
  using decode_encode_cursor [OF assms] by simp

theorem cursor_round_trip_witness:
  "decodeCursor (encodeCursor 3 ''0164|x'') = (3, ''0164|x'')"
  using cursor_round_trip [of 3 "''0164|x''"] by (simp add: i64_defs)

subsection \<open>Every watched contract is asked for\<close>

lemma concat_chunks: "0 < n \<Longrightarrow> concat (chunks n xs) = xs"
proof (induction n xs rule: chunks.induct)
  case (1 n xs)
  then show ?case by (subst chunks.simps) auto
qed

lemma chunk_length: "c \<in> set (chunks n xs) \<Longrightarrow> 0 < length c \<and> length c \<le> n"
proof (induction n xs rule: chunks.induct)
  case (1 n xs)
  then show ?case by (subst (asm) chunks.simps) (auto split: if_splits)
qed

lemma foldl_add_watch:
  defines "groups ws \<equiv> foldl add_watch [] ws"
  shows "distinct (map fst (groups ws)) \<and> fst ` set (groups ws) = topicKey ` wt_Topics ` set ws
    \<and> (\<forall>k g. (k, g) \<in> set (groups ws) \<longrightarrow> fg_ids g = map wt_ContractID (filter (\<lambda>w. topicKey (wt_Topics w) = k) ws)
         \<and> (\<exists>w \<in> set ws. fg_topics g = wt_Topics w \<and> topicKey (wt_Topics w) = k))"
proof (induction ws rule: rev_induct)
  case Nil
  then show ?case by (simp add: groups_def)
next
  case (snoc w ws)
  let ?k = "topicKey (wt_Topics w)"
  show ?case
  proof (cases "?k \<in> fst ` set (groups ws)")
    case True
    define F :: "string \<times> filter_group \<Rightarrow> string \<times> filter_group" where
      "F = (\<lambda>(k, g). (k, if k = ?k then g\<lparr>fg_ids := fg_ids g @ [wt_ContractID w]\<rparr> else g))"
    have step: "groups (ws @ [w]) = map F (groups ws)"
      using True by (simp add: groups_def add_watch_def Let_def F_def)
    have keys: "map fst (map F (groups ws)) = map fst (groups ws)" by (auto simp: F_def)
    have "fst ` set (map F (groups ws)) = fst ` set (groups ws)" using arg_cong [OF keys, of set] by (simp add: image_image)
    moreover have "fg_ids g = map wt_ContractID (filter (\<lambda>v. topicKey (wt_Topics v) = k) (ws @ [w]))
        \<and> (\<exists>v \<in> set (ws @ [w]). fg_topics g = wt_Topics v \<and> topicKey (wt_Topics v) = k)" if m: "(k, g) \<in> set (map F (groups ws))" for k g
    proof -
      obtain k0 h0 where x: "(k0, h0) \<in> set (groups ws)" "F (k0, h0) = (k, g)" using m by auto
      have h: "(k, h0) \<in> set (groups ws)" "g = (if k = ?k then h0\<lparr>fg_ids := fg_ids h0 @ [wt_ContractID w]\<rparr> else h0)"
        using x by (auto simp: F_def)
      then have "fg_ids h0 = map wt_ContractID (filter (\<lambda>v. topicKey (wt_Topics v) = k) ws)"
        "\<exists>v \<in> set ws. fg_topics h0 = wt_Topics v \<and> topicKey (wt_Topics v) = k" using snoc by blast+
      then show ?thesis using h(2) by (cases "k = ?k") auto
    qed
    ultimately show ?thesis unfolding step keys using snoc True by auto
  next
    case False
    have none: "filter (\<lambda>v. topicKey (wt_Topics v) = ?k) ws = []"
    proof -
      have "topicKey (wt_Topics v) \<noteq> ?k" if "v \<in> set ws" for v using snoc False that by (metis imageI)
      then show ?thesis by (simp add: filter_empty_conv)
    qed
    have step: "groups (ws @ [w]) = groups ws @ [(?k, \<lparr>fg_topics = wt_Topics w, fg_ids = [wt_ContractID w]\<rparr>)]"
      using False by (simp add: groups_def add_watch_def Let_def)
    have "fg_ids g = map wt_ContractID (filter (\<lambda>v. topicKey (wt_Topics v) = k) (ws @ [w]))
        \<and> (\<exists>v \<in> set (ws @ [w]). fg_topics g = wt_Topics v \<and> topicKey (wt_Topics v) = k)" if "(k, g) \<in> set (groups ws)" for k g
    proof -
      have "k \<noteq> ?k" using that False by force
      moreover have "fg_ids g = map wt_ContractID (filter (\<lambda>v. topicKey (wt_Topics v) = k) ws)"
        "\<exists>v \<in> set ws. fg_topics g = wt_Topics v \<and> topicKey (wt_Topics v) = k" using snoc that by blast+
      ultimately show ?thesis by simp
    qed
    then show ?thesis unfolding step using snoc False none by auto
  qed
qed

text \<open>Topic filters whose segments are plain text are told apart by their key.\<close>

definition plain_topics :: "string list list \<Rightarrow> bool" where
  "plain_topics topics =
     list_all (\<lambda>seg. seg \<noteq> [] \<and> list_all (\<lambda>s. char_of (0 :: nat) \<notin> set s \<and> char_of (1 :: nat) \<notin> set s) seg) topics"

lemma takeWhile_mark: "c \<notin> set a \<Longrightarrow> takeWhile (\<lambda>x. x \<noteq> c) (a @ c # b) = a \<and> dropWhile (\<lambda>x. x \<noteq> c) (a @ c # b) = c # b"
  by (induction a) auto

lemma mark_inj: "c \<notin> set a \<Longrightarrow> c \<notin> set a' \<Longrightarrow> a @ c # b = a' @ c # b' \<Longrightarrow> a = a' \<and> b = b'"
  by (metis takeWhile_mark list.inject)

lemma join_with_inj:
  assumes "join_with [c] xs = join_with [c] ys" "xs \<noteq> []" "ys \<noteq> []" "\<forall>s \<in> set xs \<union> set ys. c \<notin> set s"
  shows "xs = ys"
  using assms
proof (induction "[c]" xs arbitrary: ys rule: join_with.induct)
  case (2 x)
  then obtain y zs where "ys = y # zs" by (cases ys) auto
  then show ?case using 2 by (cases zs) auto
next
  case (3 x y zs)
  then obtain x' r where r: "ys = x' # r" by (cases ys) auto
  then obtain y' zs' where ys: "ys = x' # y' # zs'" using 3(2,5) by (cases r) auto
  have "x = x' \<and> join_with [c] (y # zs) = join_with [c] (y' # zs')"
    by (rule mark_inj [of c]) (use 3(2,5) ys in simp_all)
  moreover have "y # zs = y' # zs'"
    by (rule 3(1)) (use calculation 3(5) ys in simp_all)
  ultimately show ?case using ys by simp
qed simp

lemma join_with_chars: "d \<in> set (join_with [c] xs) \<Longrightarrow> d = c \<or> (\<exists>s \<in> set xs. d \<in> set s)"
  by (induction "[c]" xs rule: join_with.induct) auto

lemma topicKey_inj:
  assumes "topicKey a = topicKey b" "plain_topics a" "plain_topics b"
  shows "a = b"
  using assms
proof (induction a arbitrary: b)
  case Nil
  then show ?case by (cases b) (auto simp: topicKey_def)
next
  case (Cons s a)
  then obtain s' b' where b: "b = s' # b'" by (cases b) (auto simp: topicKey_def)
  have no1: "char_of (1 :: nat) \<notin> set (join_with [char_of (0 :: nat)] t)" if "plain_topics [t]" for t
    using that by (auto simp: plain_topics_def list_all_iff dest!: join_with_chars)
  have "join_with [char_of (0 :: nat)] s = join_with [char_of (0 :: nat)] s' \<and> topicKey a = topicKey b'"
    using Cons.prems b by (intro mark_inj [of "char_of (1 :: nat)"] no1) (auto simp: topicKey_def plain_topics_def)
  moreover have "s = s'"
    by (rule join_with_inj [of "char_of (0 :: nat)"]) (use calculation Cons.prems b in \<open>auto simp: plain_topics_def list_all_iff\<close>)
  ultimately show ?case using Cons.IH [of b'] Cons.prems b by (auto simp: plain_topics_def)
qed

definition asked :: "EventFilter list \<Rightarrow> (string \<times> string list list) list" where
  "asked fs = concat (map (\<lambda>f. map (\<lambda>c. (c, ef_Topics f)) (ef_ContractIDs f)) fs)"

lemma asked_buildFilters:
  assumes "\<forall>w \<in> set watch. plain_topics (wt_Topics w)"
  shows "mset (asked (buildFilters watch)) = mset (map (\<lambda>w. (wt_ContractID w, wt_Topics w)) watch)"
proof -
  define gs where "gs = foldl add_watch [] watch"
  note inv = foldl_add_watch [of watch, folded gs_def]
  have per: "asked (map (\<lambda>ids. \<lparr>ef_Type = t, ef_ContractIDs = ids, ef_Topics = ts\<rparr>) (chunks MaxContractIDsPerFilter ids)) = map (\<lambda>c. (c, ts)) ids"
    for t ts ids
  proof -
    have "asked (map (\<lambda>ids. \<lparr>ef_Type = t, ef_ContractIDs = ids, ef_Topics = ts\<rparr>) css) = map (\<lambda>c. (c, ts)) (concat css)" for css
      by (induction css) (auto simp: asked_def)
    then show ?thesis using concat_chunks [of MaxContractIDsPerFilter ids] by (simp add: MaxContractIDsPerFilter_def)
  qed
  have own: "map (\<lambda>c. (c, fg_topics g)) (fg_ids g) = map (\<lambda>w. (wt_ContractID w, wt_Topics w)) (filter (\<lambda>w. topicKey (wt_Topics w) = k) watch)"
    if m: "(k, g) \<in> set gs" for k g
  proof -
    obtain v where v: "v \<in> set watch" "fg_topics g = wt_Topics v" "topicKey (wt_Topics v) = k" using inv m by blast
    have "fg_topics g = wt_Topics w" if "w \<in> set watch" "topicKey (wt_Topics w) = k" for w
      using topicKey_inj [of "wt_Topics v" "wt_Topics w"] v that assms by metis
    moreover have "fg_ids g = map wt_ContractID (filter (\<lambda>w. topicKey (wt_Topics w) = k) watch)" using inv m by blast
    ultimately show ?thesis by simp
  qed
  have "asked (buildFilters watch) = concat (map (\<lambda>(k, g). map (\<lambda>c. (c, fg_topics g)) (fg_ids g)) gs)"
  proof -
    have "asked (concat fss) = concat (map asked fss)" for fss by (induction fss) (auto simp: asked_def)
    then show ?thesis unfolding buildFilters_def gs_def by (simp add: comp_def case_prod_unfold per)
  qed
  also have "\<dots> = concat (map (\<lambda>k. map (\<lambda>w. (wt_ContractID w, wt_Topics w)) (filter (\<lambda>w. topicKey (wt_Topics w) = k) watch)) (map fst gs))"
    using own by (intro arg_cong [where f = concat]) (auto simp: comp_def)
  also have "\<dots> = map (\<lambda>w. (wt_ContractID w, wt_Topics w)) (concat (map (\<lambda>k. filter (\<lambda>w. topicKey (wt_Topics w) = k) watch) (map fst gs)))"
    by (simp add: map_concat comp_def)
  finally have "mset (asked (buildFilters watch)) =
      image_mset (\<lambda>w. (wt_ContractID w, wt_Topics w)) (mset (concat (map (\<lambda>k. filter (\<lambda>w. topicKey (wt_Topics w) = k) watch) (map fst gs))))"
    by simp
  also have "mset (concat (map (\<lambda>k. filter (\<lambda>w. topicKey (wt_Topics w) = k) watch) (map fst gs))) = mset watch"
    using mset_concat_filter_keys [of "map fst gs" "\<lambda>w. topicKey (wt_Topics w)" watch] inv by (auto simp: filter_mset_eq_conv image_image)
  finally show ?thesis by simp
qed

text \<open>
  C18. The requests of a cycle ask for exactly the watch list: every contract once, under its own topic filter, and each
  request stays within the node's caps on filters and on contracts per filter.
\<close>

theorem requests_ask_for_the_watch_list:
  assumes "\<forall>w \<in> set watch. plain_topics (wt_Topics w)"
  shows "mset (asked (concat (groupFilters (buildFilters watch)))) = mset (map (\<lambda>w. (wt_ContractID w, wt_Topics w)) watch)
    \<and> (\<forall>g \<in> set (groupFilters (buildFilters watch)). 0 < length g \<and> length g \<le> MaxFiltersPerRequest \<and>
         (\<forall>f \<in> set g. 0 < length (ef_ContractIDs f) \<and> length (ef_ContractIDs f) \<le> MaxContractIDsPerFilter))"
proof -
  have all: "concat (groupFilters (buildFilters watch)) = buildFilters watch"
    by (simp add: groupFilters_def MaxFiltersPerRequest_def concat_chunks)
  have "0 < length (ef_ContractIDs f) \<and> length (ef_ContractIDs f) \<le> MaxContractIDsPerFilter" if "f \<in> set (buildFilters watch)" for f
    using that chunk_length by (fastforce simp: buildFilters_def)
  then have "0 < length (ef_ContractIDs f) \<and> length (ef_ContractIDs f) \<le> MaxContractIDsPerFilter" if "g \<in> set (groupFilters (buildFilters watch))" "f \<in> set g" for f g
    using that all by (metis UN_I set_concat)
  moreover have "0 < length g \<and> length g \<le> MaxFiltersPerRequest" if "g \<in> set (groupFilters (buildFilters watch))" for g
    using that unfolding groupFilters_def by (rule chunk_length)
  ultimately show ?thesis using asked_buildFilters [OF assms] by (simp add: all)
qed

theorem requests_ask_for_the_watch_list_witness:
  "mset (asked (concat (groupFilters (buildFilters
     [\<lparr>wt_ContractID = ''C1'', wt_Topics = [[''transfer'']]\<rparr>, \<lparr>wt_ContractID = ''C2'', wt_Topics = []\<rparr>])))) = {#(''C1'', [[''transfer'']]), (''C2'', [])#}"
proof -
  let ?ws = "[\<lparr>wt_ContractID = ''C1'', wt_Topics = [[''transfer'']]\<rparr>, \<lparr>wt_ContractID = ''C2'', wt_Topics = []\<rparr>]"
  have "plain_topics [[''transfer'']]" "plain_topics []" by code_simp+
  then have "\<forall>w \<in> set ?ws. plain_topics (wt_Topics w)" by simp
  from requests_ask_for_the_watch_list [OF this] show ?thesis by simp
qed

subsection \<open>A cycle reads every batch to its end\<close>

text \<open>
  What the node promises: it has a list of events for the filters of a request, hands them out in order, at most
  \<open>limit\<close> at a time, and a full page carries a token from which the next request continues.
\<close>

definition serves ::
  "get_events \<Rightarrow> uint32 \<Rightarrow> nat \<Rightarrow> (EventFilter list \<Rightarrow> rpc_event list) \<Rightarrow> (EventFilter list \<Rightarrow> nat \<Rightarrow> string) \<Rightarrow> bool" where
  "serves rpc start limit evs tok \<longleftrightarrow>
     (\<forall>fs k. k \<le> length (evs fs) \<longrightarrow>
        (\<exists>res. rpc \<lparr>rq_StartLedger = (if k = 0 then start else 0), rq_Filters = fs,
                    rq_Cursor = (if k = 0 then '''' else tok fs k), rq_Limit = int limit\<rparr> = Inr res
           \<and> gr_Events res = take limit (drop k (evs fs))
           \<and> (length (gr_Events res) = limit \<longrightarrow> page_token res = tok fs (k + limit))))
     \<and> (\<forall>fs k. 0 < k \<longrightarrow> tok fs k \<noteq> '''')"

text \<open>The reader: it hands every cursor back until there is none, for at most \<open>fuel\<close> pages.\<close>

fun read_pages :: "(string \<Rightarrow> fetch_err + FetchPage) \<Rightarrow> nat \<Rightarrow> string \<Rightarrow> DecodedEvent list option" where
  "read_pages fetch 0 cursor = None"
| "read_pages fetch (Suc fuel) cursor =
     (case fetch cursor of
        Inl e \<Rightarrow> None
      | Inr page \<Rightarrow>
          if fp_NextCursor page = '''' then Some (fp_Events page)
          else map_option (\<lambda>rest. fp_Events page @ rest) (read_pages fetch fuel (fp_NextCursor page)))"

lemma read_pages_mono: "read_pages fetch n c = Some evs \<Longrightarrow> n \<le> m \<Longrightarrow> read_pages fetch m c = Some evs"
proof (induction fetch n c arbitrary: m evs rule: read_pages.induct)
  case (2 fetch fuel c)
  then obtain m' where m: "m = Suc m'" by (cases m) auto
  show ?case
  proof (cases "fetch c")
    case (Inr page)
    then show ?thesis using 2(2) 2(1) [OF Inr, where m = m'] 2(3) m
      by (cases "fp_NextCursor page = []") auto
  qed (use 2(2) in simp)
qed simp

lemma map_filter_append [simp]: "List.map_filter f (xs @ ys) = List.map_filter f xs @ List.map_filter f ys"
  by (simp add: List.map_filter_def)

text \<open>One page of batch \<open>b\<close> from position \<open>k\<close>.\<close>

lemma FetchEvents_page:
  assumes s: "serves rpc start limit evs tok" and l: "0 < limit"
    and g: "groups = groupFilters (buildFilters watch)" "b < length groups" "int (length groups) \<le> max_i64"
    and c: "decodeCursor c = (int b, if k = 0 then '''' else tok (groups ! b) k)" and k: "k \<le> length (evs (groups ! b))"
  obtains page where "FetchEvents rpc dec start watch c (int limit) = Inr page"
    "fp_Events page = List.map_filter dec (take limit (drop k (evs (groups ! b))))"
    "k + limit \<le> length (evs (groups ! b)) \<longrightarrow> fp_NextCursor page \<noteq> '''' \<and> decodeCursor (fp_NextCursor page) = (int b, tok (groups ! b) (k + limit))"
    "length (evs (groups ! b)) < k + limit \<longrightarrow> fp_NextCursor page = next_batch groups (int b)"
proof -
  let ?fs = "groups ! b"
  let ?cur = "if k = 0 then '''' else tok ?fs k"
  obtain res where res: "rpc \<lparr>rq_StartLedger = (if k = 0 then start else 0), rq_Filters = ?fs, rq_Cursor = ?cur, rq_Limit = int limit\<rparr> = Inr res"
    "gr_Events res = take limit (drop k (evs ?fs))" "length (gr_Events res) = limit \<longrightarrow> page_token res = tok ?fs (k + limit)"
    using s [unfolded serves_def, THEN conjunct1, rule_format, OF k] by blast
  have tok: "0 < i \<Longrightarrow> tok ?fs i \<noteq> ''''" for i using s by (simp add: serves_def)
  have st: "(if ?cur \<noteq> '''' then 0 else start) = (if k = 0 then start else 0)" using tok [of k] by simp
  have rt: "decodeCursor (encodeCursor (int b) x) = (int b, x)" for x
    by (rule decode_encode_cursor) (use g in \<open>auto simp: i64_defs\<close>)
  show ?thesis
  proof (cases "k + limit \<le> length (evs ?fs)")
    case True
    then have full: "length (gr_Events res) = limit" using res(2) by simp
    show ?thesis
      by (rule that [of "\<lparr>fp_Events = List.map_filter dec (gr_Events res), fp_LatestLedger = gr_LatestLedger res,
                          fp_NextCursor = encodeCursor (int b) (page_token res)\<rparr>"])
         (use True full res c l g(2) st tok [of "k + limit"] rt in \<open>simp_all add: FetchEvents_def g(1) [symmetric] Let_def\<close>)
  next
    case False
    then have short: "length (gr_Events res) < limit" using res(2) k by simp
    show ?thesis
      by (rule that [of "\<lparr>fp_Events = List.map_filter dec (gr_Events res), fp_LatestLedger = gr_LatestLedger res,
                          fp_NextCursor = next_batch groups (int b)\<rparr>"])
         (use False short res c l g(2) st in \<open>simp_all add: FetchEvents_def g(1) [symmetric] Let_def\<close>)
  qed
qed

lemma read_batch:
  assumes s: "serves rpc start limit evs tok" and l: "0 < limit"
    and g: "groups = groupFilters (buildFilters watch)" "b < length groups" "int (length groups) \<le> max_i64"
    and c: "decodeCursor c = (int b, if k = 0 then '''' else tok (groups ! b) k)" and k: "k \<le> length (evs (groups ! b))"
    and fetch: "fetch = (\<lambda>c. FetchEvents rpc dec start watch c (int limit))"
  shows "read_pages fetch (Suc ((length (evs (groups ! b)) - k) div limit) + m) c =
    (if next_batch groups (int b) = '''' then Some (List.map_filter dec (drop k (evs (groups ! b))))
     else map_option (\<lambda>rest. List.map_filter dec (drop k (evs (groups ! b))) @ rest) (read_pages fetch m (next_batch groups (int b))))"
  using c k
proof (induction "length (evs (groups ! b)) - k" arbitrary: c k rule: less_induct)
  case less
  let ?e = "evs (groups ! b)"
  obtain page where p: "fetch c = Inr page" "fp_Events page = List.map_filter dec (take limit (drop k ?e))"
    "k + limit \<le> length ?e \<longrightarrow> fp_NextCursor page \<noteq> '''' \<and> decodeCursor (fp_NextCursor page) = (int b, tok (groups ! b) (k + limit))"
    "length ?e < k + limit \<longrightarrow> fp_NextCursor page = next_batch groups (int b)"
    unfolding fetch by (rule FetchEvents_page [OF s l g less.prems, where dec = dec])
  show ?case
  proof (cases "k + limit \<le> length ?e")
    case True
    have dec: "length ?e - (k + limit) < length ?e - k" using True l by simp
    have d: "decodeCursor (fp_NextCursor page) = (int b, if k + limit = 0 then '''' else tok (groups ! b) (k + limit))" using p(3) [rule_format, OF True] l by simp
    have "(length ?e - k) div limit = Suc ((length ?e - (k + limit)) div limit)"
      using True l by (simp add: le_div_geq)
    then have fuel: "Suc ((length ?e - k) div limit) + m = Suc (Suc ((length ?e - (k + limit)) div limit) + m)" by simp
    have parts: "List.map_filter dec (take limit (drop k ?e)) @ List.map_filter dec (drop (k + limit) ?e) = List.map_filter dec (drop k ?e)"
      by (metis append_take_drop_id drop_drop add.commute map_filter_append)
    have eta: "(@) (x @ y) = (\<lambda>z. x @ y @ z)" for x y :: "DecodedEvent list" by (rule ext) simp
    have "read_pages fetch (Suc ((length ?e - k) div limit) + m) c =
      map_option (\<lambda>rest. fp_Events page @ rest) (read_pages fetch (Suc ((length ?e - (k + limit)) div limit) + m) (fp_NextCursor page))"
      unfolding fuel read_pages.simps(2) [of _ "Suc ((length ?e - (k + limit)) div limit) + m"] p(1) using p(3) True by simp
    then show ?thesis unfolding less.hyps [OF dec d True] p(2) parts [symmetric]
      by (cases "next_batch groups (int b) = ''''") (simp_all add: option.map_comp comp_def eta del: read_pages.simps)
  next
    case False
    then have "(length ?e - k) div limit = 0" "take limit (drop k ?e) = drop k ?e" using less.prems by auto
    then show ?thesis using False p by simp
  qed
qed

lemma read_batches:
  assumes s: "serves rpc start limit evs tok" and l: "0 < limit"
    and g: "groups = groupFilters (buildFilters watch)" "b < length groups" "int (length groups) \<le> max_i64"
    and c: "decodeCursor c = (int b, '''')"
    and fetch: "fetch = (\<lambda>c. FetchEvents rpc dec start watch c (int limit))"
  shows "read_pages fetch (sum_list (map (\<lambda>fs. Suc (length (evs fs) div limit)) (drop b groups))) c =
    Some (concat (map (\<lambda>fs. List.map_filter dec (evs fs)) (drop b groups)))"
  using g(2) c
proof (induction "length groups - b" arbitrary: b c rule: less_induct)
  case less
  have d: "drop b groups = groups ! b # drop (Suc b) groups" using less.prems by (simp add: Cons_nth_drop_Suc)
  note r = read_batch [OF s l g(1) less.prems(1) g(3) _ le0 fetch, of c, simplified if_P [OF refl] diff_zero drop_0, OF less.prems(2)]
  show ?case
  proof (cases "Suc b = length groups")
    case True
    then show ?thesis unfolding d using r [of 0] by (simp add: next_batch_def del: read_pages.simps)
  next
    case False
    then have lt: "Suc b < length groups" using less.prems by simp
    have "decodeCursor (encodeCursor (int (Suc b)) '''') = (int (Suc b), '''')"
      by (rule decode_encode_cursor) (use lt g(3) in \<open>auto simp: i64_defs\<close>)
    moreover have "length groups - Suc b < length groups - b" using lt by simp
    ultimately show ?thesis unfolding d using less.hyps [of "Suc b"] lt r [of "sum_list (map (\<lambda>fs. Suc (length (evs fs) div limit)) (drop (Suc b) groups))"]
      by (simp add: next_batch_def add.commute del: read_pages.simps)
  qed
qed

text \<open>
  C16. One cycle over the RPC source reads everything: if the node hands out the events of a request in order, then
  a reader that returns every cursor gets, batch after batch, all events of every request of the watch list
  that can be decoded, each once, and the number of fetches is the number of pages.
\<close>

theorem cycle_reads_every_batch:
  assumes "serves rpc start limit evs tok" "0 < limit" "int (length (groupFilters (buildFilters watch))) \<le> max_i64"
    and "sum_list (map (\<lambda>fs. Suc (length (evs fs) div limit)) (groupFilters (buildFilters watch))) < fuel"
  shows "read_pages (\<lambda>c. FetchEvents rpc dec start watch c (int limit)) fuel '''' =
    Some (concat (map (\<lambda>fs. List.map_filter dec (evs fs)) (groupFilters (buildFilters watch))))"
proof (cases "groupFilters (buildFilters watch) = []")
  case True
  obtain n where "fuel = Suc n" using assms(4) by (cases fuel) auto
  then show ?thesis using True by (simp add: FetchEvents_def decodeCursor_def)
next
  case False
  have "decodeCursor '''' = (int 0, '''')" by (simp add: decodeCursor_def)
  from read_batches [OF assms(1,2) refl _ assms(3) this refl, of dec] False
  show ?thesis by (intro read_pages_mono [OF _ less_imp_le [OF assms(4)]]) simp
qed

text \<open>A node with two events for every request, one per page; its cursor is as long as the number of events read.\<close>

definition demo_raw :: "string \<Rightarrow> rpc_event" where
  "demo_raw i = \<lparr>re_ID = i, re_Type = ''contract'', re_Ledger = 9, re_LedgerClosedAt = 0, re_ContractID = ''C1'', re_PagingToken = '''',
     re_InSuccessfulContractCall = True, re_TxHash = '''', re_Topic = [], re_Value = '''', re_TopicJSON = [], re_ValueJSON = ''''\<rparr>"

definition demo_node :: get_events where
  "demo_node req =
     (let k = length (rq_Cursor req); n = nat (rq_Limit req) in
      Inr \<lparr>gr_Events = take n (drop k [demo_raw ''e1'', demo_raw ''e2'']), gr_LatestLedger = 9, gr_Cursor = replicate (k + n) (CHR ''x'')\<rparr>)"

definition demo_decoder :: "rpc_event \<Rightarrow> DecodedEvent option" where
  "demo_decoder e = Some \<lparr>de_ID = re_ID e, de_ContractID = re_ContractID e, de_Ledger = re_Ledger e, de_LedgerClosedAt = 0, de_TxHash = '''',
     de_Topics = [], de_Value = GNil, de_Fields = None\<rparr>"

lemma demo_node_serves: "0 < limit \<Longrightarrow> serves demo_node start limit (\<lambda>fs. [demo_raw ''e1'', demo_raw ''e2'']) (\<lambda>fs k. replicate k (CHR ''x''))"
  by (auto simp: serves_def demo_node_def page_token_def Let_def)

theorem cycle_reads_every_batch_witness:
  "map_option (map de_ID) (read_pages (\<lambda>c. FetchEvents demo_node demo_decoder 7 [\<lparr>wt_ContractID = ''C1'', wt_Topics = []\<rparr>] c 1) 4 '''')
     = Some [''e1'', ''e2'']"
proof -
  let ?w = "[\<lparr>wt_ContractID = ''C1'', wt_Topics = []\<rparr>]"
  have g: "groupFilters (buildFilters ?w) = [[\<lparr>ef_Type = ''contract'', ef_ContractIDs = [''C1''], ef_Topics = []\<rparr>]]" by code_simp
  have "read_pages (\<lambda>c. FetchEvents demo_node demo_decoder 7 ?w c (int 1)) 4 '''' =
      Some (concat (map (\<lambda>fs. List.map_filter demo_decoder [demo_raw ''e1'', demo_raw ''e2'']) (groupFilters (buildFilters ?w))))"
    by (rule cycle_reads_every_batch [OF demo_node_serves]) (simp_all add: g i64_defs)
  then show ?thesis by (simp add: g List.map_filter_def demo_decoder_def demo_raw_def)
qed

subsection \<open>Ledger hashes\<close>

text \<open>
  \<open>LedgerHashes\<close> pages \<open>getLedgers\<close> over an inclusive range; the node decides when the loop ends. \<open>getter\<close> is \<open>None\<close>
  for a client without the method.
\<close>

record GetLedgersResult =
  gl_Ledgers :: "LedgerHash list"
  gl_Cursor :: string

type_synonym get_ledgers = "uint32 \<Rightarrow> string \<Rightarrow> int \<Rightarrow> string + GetLedgersResult"

fun ledger_page :: "uint32 \<Rightarrow> uint32 \<Rightarrow> LedgerHash list \<Rightarrow> LedgerHash list \<Rightarrow> LedgerHash list \<times> bool" where
  "ledger_page from to [] out = (out, False)"
| "ledger_page from to (l # ls) out =
     (if lh_Ledger l < from then ledger_page from to ls out
      else if to < lh_Ledger l then (out, True)
      else ledger_page from to ls (out @ [l]))"

partial_function (option) ledger_pages ::
  "get_ledgers \<Rightarrow> uint32 \<Rightarrow> uint32 \<Rightarrow> int \<Rightarrow> string \<Rightarrow> LedgerHash list \<Rightarrow> (hash_error + LedgerHash list) option" where
  "ledger_pages getter from to limit cursor out =
     (case getter (if cursor \<noteq> '''' then 0 else from) cursor limit of
        Inl err \<Rightarrow> Some (Inl (HashError err))
      | Inr res \<Rightarrow>
          (let (out', past) = ledger_page from to (gl_Ledgers res) out in
           if past \<or> gl_Cursor res = '''' \<or> gl_Ledgers res = [] then Some (Inr out')
           else ledger_pages getter from to limit (gl_Cursor res) out'))"

definition RPC_LedgerHashes :: "get_ledgers option \<Rightarrow> uint32 \<Rightarrow> uint32 \<Rightarrow> (hash_error + LedgerHash list) option" where
  "RPC_LedgerHashes getter from to =
     (if to < from then Some (Inr [])
      else case getter of
        None \<Rightarrow> Some (Inl ErrLedgerHashesUnsupported)
      | Some get \<Rightarrow>
          (let n = to - from + 1 in
           ledger_pages get from to (uint (if DefaultLedgersLimit < n then DefaultLedgersLimit else n)) '''' []))"

definition in_range :: "uint32 \<Rightarrow> uint32 \<Rightarrow> LedgerHash list \<Rightarrow> LedgerHash list" where
  "in_range from to ls = filter (\<lambda>l. from \<le> lh_Ledger l) (takeWhile (\<lambda>l. lh_Ledger l \<le> to) ls)"

lemma ledger_page_spec:
  assumes "from \<le> to"
  shows "ledger_page from to ls out = (out @ in_range from to ls, \<exists>l \<in> set ls. to < lh_Ledger l)"
  using assms by (induction ls arbitrary: out) (auto simp: in_range_def not_less)

text \<open>
  A node whose pages are the successive parts of an ascending chain, the last one without a cursor, is read to the
  end of the range: the loop returns, and returns exactly the chain's ledgers in it.
\<close>

lemma in_range_append:
  "in_range from to (ls @ ms) = in_range from to ls @ (if \<exists>l \<in> set ls. to < lh_Ledger l then [] else in_range from to ms)"
  by (induction ls) (auto simp: in_range_def)

lemma ledger_pages_read:
  assumes "from \<le> to"
    and served: "\<forall>i < length parts. getter (if cur i \<noteq> '''' then 0 else from) (cur i) limit = Inr \<lparr>gl_Ledgers = parts ! i, gl_Cursor = cur (Suc i)\<rparr> \<and> parts ! i \<noteq> []"
    and more: "\<forall>i. 0 < i \<and> i < length parts \<longrightarrow> cur i \<noteq> ''''" and stop: "cur (length parts) = ''''" and "i < length parts"
  shows "ledger_pages getter from to limit (cur i) out = Some (Inr (out @ in_range from to (concat (drop i parts))))"
  using assms(5)
proof (induction "length parts - i" arbitrary: i out rule: less_induct)
  case less
  have d: "drop i parts = parts ! i # drop (Suc i) parts" using less.prems by (simp add: Cons_nth_drop_Suc)
  have a: "getter (if cur i \<noteq> '''' then 0 else from) (cur i) limit = Inr \<lparr>gl_Ledgers = parts ! i, gl_Cursor = cur (Suc i)\<rparr>" "parts ! i \<noteq> []"
    using served less.prems by auto
  have final: "cur (Suc i) = '''' \<longleftrightarrow> Suc i = length parts" using more stop less.prems by (cases "Suc i = length parts") auto
  show ?case
  proof (cases "(\<exists>l \<in> set (parts ! i). to < lh_Ledger l) \<or> Suc i = length parts")
    case True
    then have "in_range from to (concat (drop i parts)) = in_range from to (parts ! i)"
      by (auto simp: d in_range_append in_range_def)
    then show ?thesis using True final a(1)
      by (subst ledger_pages.simps) (auto simp: ledger_page_spec [OF assms(1)])
  next
    case False
    then have "Suc i < length parts" "length parts - Suc i < length parts - i" using less.prems by auto
    from less.hyps [OF this(2,1), of "out @ in_range from to (parts ! i)"] show ?thesis
      using False final a by (subst ledger_pages.simps) (simp add: ledger_page_spec [OF assms(1)] d in_range_append)
  qed
qed

end
