(* ===== verification/Backfill.thy ===== *)
theory Backfill
  imports Ingestor RPC_Source
begin

text \<open>
  \<open>internal/backfill/backfill.go\<close>: the replay of a bounded stretch of history for one monitor, with its progress row
  (\<open>GetBackfill\<close> and \<open>UpsertBackfill\<close> of \<open>store/postgres.go\<close>).

  The environment says what the monitor and its rules are, what the source answers to the \<open>n\<close>-th fetch, which of the job's
  own statements fail, and whether the context has ended at a check or during a pause. \<open>jw_handled\<close> is the history of
  the events given to the ingestor. The page loop ends when the source has no further cursor or an event lies beyond
  the range; \<open>replay\<close> has fuel for the number of pages and is \<open>None\<close> when they do not suffice.
\<close>

subsection \<open>Options, progress and result\<close>

definition DefaultRate :: duration where "DefaultRate = 200 * millisecond"
definition ledgerCloseInterval :: duration where "ledgerCloseInterval = 5 * second"

record BackfillOptions =
  bo_MonitorID :: int
  bo_FromLedger :: uint32
  bo_ToLedger :: uint32
  bo_Lookback :: duration
  bo_Deliver :: bool
  bo_Rate :: duration
  bo_PageSize :: int

definition BackfillOptions_validate :: "BackfillOptions \<Rightarrow> string option" where
  "BackfillOptions_validate opts =
     (if bo_MonitorID opts = 0 then Some ''backfill: monitor id is required''
      else if bo_FromLedger opts = 0 \<and> bo_Lookback opts \<le> 0 then Some ''backfill: from_ledger or lookback is required''
      else None)"

record BackfillRow =
  bf_MonitorID :: int
  bf_FromLedger :: uint32
  bf_ToLedger :: uint32
  bf_NextLedger :: uint32
  bf_Cursor :: string
  bf_Deliver :: bool
  bf_Complete :: bool

record BackfillResult =
  br_MonitorID :: int
  br_RequestedFrom :: uint32
  br_FromLedger :: uint32
  br_ToLedger :: uint32
  br_OldestLedger :: uint32
  br_Clamped :: bool
  br_Resumed :: bool
  br_Ledgers :: uint32
  br_Events :: nat
  br_Matched :: nat
  br_Alerts :: nat
  br_Dispatched :: nat

definition result0 :: BackfillResult where
  "result0 = \<lparr>br_MonitorID = 0, br_RequestedFrom = 0, br_FromLedger = 0, br_ToLedger = 0, br_OldestLedger = 0, br_Clamped = False,
     br_Resumed = False, br_Ledgers = 0, br_Events = 0, br_Matched = 0, br_Alerts = 0, br_Dispatched = 0\<rparr>"

record 's job_world =
  jw_world :: "'s PollWorld"
  jw_rows :: "int \<Rightarrow> BackfillRow option"
  jw_stmts :: nat
  jw_fetches :: nat
  jw_handled :: "DecodedEvent list"

record 's job_env =
  je_ingest :: "'s ingest_env"
  je_getMonitor :: "int \<Rightarrow> string + Monitor"
  je_listRules :: "int \<Rightarrow> string + Rule list"
  je_eventNames :: "Rule \<Rightarrow> string list option"
  je_validContract :: "string \<Rightarrow> bool"
  je_symbol :: "string \<Rightarrow> string list option"
  je_tip :: "string + uint32"
  je_oldest :: "(string + uint32) option"
  je_fetch :: "nat \<Rightarrow> uint32 \<Rightarrow> Watch list \<Rightarrow> string \<Rightarrow> int \<Rightarrow> fetch_err + FetchPage"
  je_fault :: "nat \<Rightarrow> string option"
  je_ctx :: "nat \<Rightarrow> string option"
  je_sleep :: "nat \<Rightarrow> duration \<Rightarrow> string option"

definition GetBackfill :: "'s job_env \<Rightarrow> int \<Rightarrow> 's job_world \<Rightarrow> 's job_world \<times> (string + BackfillRow option)" where
  "GetBackfill env monitorID w =
     (w\<lparr>jw_stmts := jw_stmts w + 1\<rparr>,
      case je_fault env (jw_stmts w) of Some e \<Rightarrow> Inl e | None \<Rightarrow> Inr (jw_rows w monitorID))"

definition UpsertBackfill :: "'s job_env \<Rightarrow> BackfillRow \<Rightarrow> 's job_world \<Rightarrow> 's job_world \<times> string option" where
  "UpsertBackfill env b w =
     (case je_fault env (jw_stmts w) of
        Some e \<Rightarrow> (w\<lparr>jw_stmts := jw_stmts w + 1\<rparr>, Some e)
      | None \<Rightarrow> (w\<lparr>jw_stmts := jw_stmts w + 1, jw_rows := (jw_rows w)(bf_MonitorID b \<mapsto> b)\<rparr>, None))"

definition lookbackStart :: "uint32 \<Rightarrow> duration \<Rightarrow> uint32" where
  "lookbackStart end lookback =
     (if lookback \<le> 0 then end
      else let n = lookback div ledgerCloseInterval in if uint end \<le> n then 1 else end - of_int n)"

subsection \<open>The loop\<close>

definition replay_event ::
  "'s job_env \<Rightarrow> BackfillOptions \<Rightarrow> Monitor \<Rightarrow> uint32 \<Rightarrow> DecodedEvent \<Rightarrow> 's job_world \<times> BackfillResult \<Rightarrow> 's job_world \<times> BackfillResult" where
  "replay_event env opts m to ev st =
     (case st of (w, res) \<Rightarrow>
      if to < de_Ledger ev then (w, res)
      else if de_ContractID ev \<notin> set (mo_ContractIDs m) then (w, res)
      else (case Handle (je_ingest env) ev [m] \<lparr>op_Backfilled = True, op_Deliver = bo_Deliver opts\<rparr> (jw_world w) of
              (pw, r) \<Rightarrow>
                (w\<lparr>jw_world := pw, jw_handled := jw_handled w @ [ev]\<rparr>,
                 res\<lparr>br_Events := br_Events res + 1, br_Matched := br_Matched res + hr_Matched r,
                     br_Alerts := br_Alerts res + hr_Alerts r, br_Dispatched := br_Dispatched res + hr_Dispatched r\<rparr>)))"

fun replay ::
  "'s job_env \<Rightarrow> BackfillOptions \<Rightarrow> Monitor \<Rightarrow> Watch list \<Rightarrow> uint32 \<Rightarrow> uint32 \<Rightarrow> nat \<Rightarrow> string \<Rightarrow> BackfillRow \<Rightarrow> BackfillResult \<Rightarrow> 's job_world
     \<Rightarrow> ('s job_world \<times> BackfillResult \<times> string option) option" where
  "replay env opts m watch to start 0 cursor prog res w = None"
| "replay env opts m watch to start (Suc fuel) cursor prog res w =
     (case je_ctx env (jw_fetches w) of Some err \<Rightarrow> Some (w, res, Some err) | None \<Rightarrow>
      let w1 = w\<lparr>jw_fetches := jw_fetches w + 1\<rparr> in
      case je_fetch env (jw_fetches w) start watch cursor (bo_PageSize opts) of
        Inl err \<Rightarrow>
          Some (fst (UpsertBackfill env (prog\<lparr>bf_NextLedger := start, bf_Cursor := cursor\<rparr>) w1), res, Some ''backfill: fetch events'')
      | Inr page \<Rightarrow>
          (case fold (replay_event env opts m to) (fp_Events page) (w1, res) of
             (w2, res2) \<Rightarrow>
               if (\<exists>ev \<in> set (fp_Events page). to < de_Ledger ev) \<or> fp_NextCursor page = ''''
               then (case UpsertBackfill env (prog\<lparr>bf_Complete := True, bf_Cursor := ''''\<rparr>) w2 of
                       (w3, Some e) \<Rightarrow> Some (w3, res2, Some ''backfill: save completion'')
                     | (w3, None) \<Rightarrow> Some (w3, res2, None))
               else (let prog' = prog\<lparr>bf_NextLedger := start, bf_Cursor := fp_NextCursor page\<rparr> in
                     case UpsertBackfill env prog' w2 of
                       (w3, Some e) \<Rightarrow> Some (w3, res2, Some ''backfill: save progress'')
                     | (w3, None) \<Rightarrow>
                         (case je_sleep env (jw_fetches w) (if bo_Rate opts \<le> 0 then DefaultRate else bo_Rate opts) of
                            Some err \<Rightarrow> Some (w3, res2, Some err)
                          | None \<Rightarrow> replay env opts m watch to start fuel (fp_NextCursor page) prog' res2 w3))))"

subsection \<open>The run\<close>

text \<open>The range: the end is at most the tip, the start at least what the source still holds, and never beyond the end.\<close>

definition resolve_range :: "BackfillOptions \<Rightarrow> uint32 \<Rightarrow> (string + uint32) option \<Rightarrow> int \<Rightarrow> BackfillResult" where
  "resolve_range opts tip oldest monitorID =
     (let to = (if bo_ToLedger opts = 0 \<or> tip < bo_ToLedger opts then tip else bo_ToLedger opts);
          from0 = (if bo_FromLedger opts = 0 then lookbackStart to (bo_Lookback opts) else bo_FromLedger opts);
          from1 = (if to < from0 then to else from0);
          res = result0\<lparr>br_MonitorID := monitorID, br_RequestedFrom := from1, br_ToLedger := to\<rparr>;
          (from2, res2) = (case oldest of
             Some (Inr old) \<Rightarrow>
               if 0 < old then (if from1 < old then (old, res\<lparr>br_OldestLedger := old, br_Clamped := True\<rparr>) else (from1, res\<lparr>br_OldestLedger := old\<rparr>))
               else (from1, res)
           | _ \<Rightarrow> (from1, res))
      in res2\<lparr>br_FromLedger := (if to < from2 then to else from2)\<rparr>)"

definition run_replay ::
  "'s job_env \<Rightarrow> BackfillOptions \<Rightarrow> nat \<Rightarrow> Monitor \<Rightarrow> Watch list \<Rightarrow> BackfillResult \<Rightarrow> uint32 \<Rightarrow> string \<Rightarrow> 's job_world
     \<Rightarrow> ('s job_world \<times> BackfillResult \<times> string option) option" where
  "run_replay env opts fuel m watch res start cursor w =
     (let prog = \<lparr>bf_MonitorID = mo_ID m, bf_FromLedger = br_FromLedger res, bf_ToLedger = br_ToLedger res, bf_NextLedger = start,
                  bf_Cursor = cursor, bf_Deliver = bo_Deliver opts, bf_Complete = False\<rparr> in
      case UpsertBackfill env prog w of
        (w1, Some e) \<Rightarrow> Some (w1, res, Some ''backfill: save progress'')
      | (w1, None) \<Rightarrow>
          replay env opts m watch (br_ToLedger res) start fuel cursor prog
            (res\<lparr>br_Ledgers := br_ToLedger res - br_FromLedger res + 1\<rparr>) w1)"

definition Run :: "'s job_env \<Rightarrow> BackfillOptions \<Rightarrow> nat \<Rightarrow> 's job_world \<Rightarrow> ('s job_world \<times> BackfillResult \<times> string option) option" where
  "Run env opts fuel w =
     (case BackfillOptions_validate opts of Some err \<Rightarrow> Some (w, result0, Some err) | None \<Rightarrow>
      case je_getMonitor env (bo_MonitorID opts) of Inl err \<Rightarrow> Some (w, result0, Some ''backfill: load monitor'') | Inr m \<Rightarrow>
      case je_listRules env (mo_ID m) of Inl err \<Rightarrow> Some (w, result0, Some ''backfill: list rules'') | Inr ruleList \<Rightarrow>
      let watch = WatchesFor (je_eventNames env) (je_validContract env) (je_symbol env) ruleList (mo_ContractIDs m) in
      if watch = [] then Some (w, result0, Some ''backfill: monitor watches no valid contracts'')
      else case je_tip env of Inl err \<Rightarrow> Some (w, result0, Some ''backfill: read source tip'') | Inr tip \<Rightarrow>
      let res = resolve_range opts tip (je_oldest env) (mo_ID m) in
      case GetBackfill env (mo_ID m) w of
        (w1, Inl err) \<Rightarrow> Some (w1, res, Some ''backfill: load progress'')
      | (w1, Inr (Some prev)) \<Rightarrow>
          if \<not> bf_Complete prev
          then run_replay env opts fuel m watch (res\<lparr>br_Resumed := True\<rparr>) (bf_NextLedger prev) (bf_Cursor prev) w1
          else run_replay env opts fuel m watch res (br_FromLedger res) '''' w1
      | (w1, Inr None) \<Rightarrow> run_replay env opts fuel m watch res (br_FromLedger res) '''' w1)"

subsection \<open>A replay notifies nobody\<close>

definition counts :: "BackfillResult \<Rightarrow> HandleResult" where
  "counts res = \<lparr>hr_Matched = br_Matched res, hr_Alerts = br_Alerts res, hr_Dispatched = br_Dispatched res\<rparr>"

lemma accounted_shift:
  assumes "accounted opts w \<lparr>hr_Matched = 0, hr_Alerts = 0, hr_Dispatched = 0\<rparr> w' r"
  shows "accounted opts w res w' (res\<lparr>hr_Matched := hr_Matched res + hr_Matched r, hr_Alerts := hr_Alerts res + hr_Alerts r,
           hr_Dispatched := hr_Dispatched res + hr_Dispatched r\<rparr>)"
  using assms by (auto simp: accounted_def)

definition replay_options :: "BackfillOptions \<Rightarrow> HandleOptions" where
  "replay_options opts = \<lparr>op_Backfilled = True, op_Deliver = bo_Deliver opts\<rparr>"

text \<open>A stretch of a replay against its totals: the ingestor's counts, and the events it was given.\<close>

definition tallied :: "BackfillOptions \<Rightarrow> 's job_world \<Rightarrow> BackfillResult \<Rightarrow> 's job_world \<Rightarrow> BackfillResult \<Rightarrow> bool" where
  "tallied opts w res w' res' \<longleftrightarrow>
     accounted (replay_options opts) (jw_world w) (counts res) (jw_world w') (counts res')
     \<and> (\<exists>h. jw_handled w' = jw_handled w @ h \<and> br_Events res' = br_Events res + length h)"

lemma tallied_same:
  assumes "jw_world w' = jw_world w" "jw_handled w' = jw_handled w" "counts res' = counts res" "br_Events res' = br_Events res"
  shows "tallied opts w res w' res'"
  using assms by (simp add: tallied_def accounted_refl)

lemma tallied_trans: "tallied opts w res w1 res1 \<Longrightarrow> tallied opts w1 res1 w2 res2 \<Longrightarrow> tallied opts w res w2 res2"
  unfolding tallied_def by (auto intro: accounted_trans)

lemma replay_event_tallied:
  assumes "replay_event env opts m to ev (w, res) = (w', res')"
  shows "tallied opts w res w' res'"
proof (cases "to < de_Ledger ev \<or> de_ContractID ev \<notin> set (mo_ContractIDs m)")
  case True
  then show ?thesis using assms tallied_same [of w w res res] by (auto simp: replay_event_def split: if_splits)
next
  case False
  obtain pw r where h: "Handle (je_ingest env) ev [m] \<lparr>op_Backfilled = True, op_Deliver = bo_Deliver opts\<rparr> (jw_world w) = (pw, r)" by fastforce
  have "jw_world w' = pw" "jw_handled w' = jw_handled w @ [ev]" "br_Events res' = br_Events res + 1"
    "counts res' = (counts res)\<lparr>hr_Matched := hr_Matched (counts res) + hr_Matched r,
      hr_Alerts := hr_Alerts (counts res) + hr_Alerts r, hr_Dispatched := hr_Dispatched (counts res) + hr_Dispatched r\<rparr>"
    using assms False h by (auto simp: replay_event_def counts_def)
  then show ?thesis using accounted_shift [OF Handle_accounted [OF h]] by (simp add: tallied_def replay_options_def)
qed

lemma replay_events_tallied:
  assumes "fold (replay_event env opts m to) evs (w, res) = (w', res')"
  shows "tallied opts w res w' res'"
  using assms
proof (induction evs arbitrary: w res)
  case Nil
  then show ?case by (simp add: tallied_same)
next
  case (Cons e evs)
  obtain w1 res1 where h: "replay_event env opts m to e (w, res) = (w1, res1)" by fastforce
  then have "fold (replay_event env opts m to) evs (w1, res1) = (w', res')" using Cons.prems by simp
  from Cons.IH [OF this] show ?case by (rule tallied_trans [OF replay_event_tallied [OF h]])
qed

lemma UpsertBackfill_world [simp]: "jw_world (fst (UpsertBackfill env b w)) = jw_world w" "jw_handled (fst (UpsertBackfill env b w)) = jw_handled w"
  by (simp_all add: UpsertBackfill_def split: option.splits)

lemma UpsertBackfill_eq: "UpsertBackfill env b w = (w', e) \<Longrightarrow> jw_world w' = jw_world w \<and> jw_handled w' = jw_handled w"
  using UpsertBackfill_world [of env b w] by simp

lemma tallied_upsert: "tallied opts w res w2 res2 \<Longrightarrow> UpsertBackfill env b w2 = (w3, e) \<Longrightarrow> tallied opts w res w3 res2"
  using UpsertBackfill_eq [of env b w2 w3 e] by (simp add: tallied_def)

lemma replay_tallied:
  assumes "replay env opts m watch to start fuel cursor prog res w = Some (w', res', err)"
  shows "tallied opts w res w' res'"
  using assms
proof (induction fuel arbitrary: cursor prog res w)
  case 0
  then show ?case by simp
next
  case (Suc fuel)
  show ?case
  proof (cases "je_ctx env (jw_fetches w)")
    case (Some e)
    then show ?thesis using Suc.prems by (simp add: tallied_same)
  next
    case ctx: None
    let ?w1 = "w\<lparr>jw_fetches := jw_fetches w + 1\<rparr>"
    have one: "tallied opts w res ?w1 res" by (rule tallied_same) simp_all
    show ?thesis
    proof (cases "je_fetch env (jw_fetches w) start watch cursor (bo_PageSize opts)")
      case (Inl e)
      then have "w' = fst (UpsertBackfill env (prog\<lparr>bf_NextLedger := start, bf_Cursor := cursor\<rparr>) ?w1)" "res' = res"
        using Suc.prems ctx by (auto simp: Let_def)
      then show ?thesis by (simp add: tallied_same)
    next
      case (Inr page)
      obtain w2 res2 where f: "fold (replay_event env opts m to) (fp_Events page) (?w1, res) = (w2, res2)" by fastforce
      note a = tallied_trans [OF one replay_events_tallied [OF f]]
      define past where "past = ((\<exists>ev \<in> set (fp_Events page). to < de_Ledger ev) \<or> fp_NextCursor page = '''')"
      define prog' where "prog' = (if past then prog\<lparr>bf_Complete := True, bf_Cursor := ''''\<rparr> else prog\<lparr>bf_NextLedger := start, bf_Cursor := fp_NextCursor page\<rparr>)"
      obtain w3 e3 where u: "UpsertBackfill env prog' w2 = (w3, e3)" by fastforce
      note b = tallied_upsert [OF a u]
      show ?thesis
      proof (cases "w' = w3 \<and> res' = res2")
        case True
        then show ?thesis using b by simp
      next
        case False
        then have "replay env opts m watch to start fuel (fp_NextCursor page) prog' res2 w3 = Some (w', res', err)"
          using Suc.prems ctx Inr f u by (auto simp: Let_def prog'_def past_def split: if_splits option.splits)
        from Suc.IH [OF this] show ?thesis by (rule tallied_trans [OF b])
      qed
    qed
  qed
qed

lemma resolve_range_counts:
  "counts (resolve_range opts tip oldest i) = \<lparr>hr_Matched = 0, hr_Alerts = 0, hr_Dispatched = 0\<rparr>" "br_Events (resolve_range opts tip oldest i) = 0"
  by (simp_all add: resolve_range_def counts_def result0_def Let_def split: option.splits sum.splits)

lemma run_replay_tallied:
  assumes "run_replay env opts fuel m watch res start cursor w = Some (w', res', err)"
  shows "tallied opts w res w' res'"
proof -
  let ?prog = "\<lparr>bf_MonitorID = mo_ID m, bf_FromLedger = br_FromLedger res, bf_ToLedger = br_ToLedger res, bf_NextLedger = start,
                  bf_Cursor = cursor, bf_Deliver = bo_Deliver opts, bf_Complete = False\<rparr>"
  obtain w1 e where u: "UpsertBackfill env ?prog w = (w1, e)" by fastforce
  let ?res = "res\<lparr>br_Ledgers := br_ToLedger res - br_FromLedger res + 1\<rparr>"
  have a: "tallied opts w res w1 res" "tallied opts w res w1 ?res"
    using UpsertBackfill_eq [OF u] by (auto intro!: tallied_same simp: counts_def)
  show ?thesis
  proof (cases e)
    case None
    then have "replay env opts m watch (br_ToLedger res) start fuel cursor ?prog ?res w1 = Some (w', res', err)"
      using assms u by (simp add: run_replay_def Let_def)
    from replay_tallied [OF this] show ?thesis by (rule tallied_trans [OF a(2)])
  next
    case (Some x)
    then show ?thesis using assms u a(1) by (simp add: run_replay_def Let_def)
  qed
qed

text \<open>What a run comes to: it ends early without a trace, or it replays from a row or from the start.\<close>

lemma Run_cases:
  assumes "Run env opts fuel w = Some (w', res, err)"
  obtains (early) e where "err = Some e" "jw_world w' = jw_world w" "jw_handled w' = jw_handled w" "jw_rows w' = jw_rows w"
      "counts res = \<lparr>hr_Matched = 0, hr_Alerts = 0, hr_Dispatched = 0\<rparr>" "br_Events res = 0"
  | (ran) m ruleList tip w1 res1 start cursor where
      "je_getMonitor env (bo_MonitorID opts) = Inr m" "je_listRules env (mo_ID m) = Inr ruleList" "je_tip env = Inr tip"
      "jw_world w1 = jw_world w" "jw_handled w1 = jw_handled w" "jw_rows w1 = jw_rows w"
      "run_replay env opts fuel m (WatchesFor (je_eventNames env) (je_validContract env) (je_symbol env) ruleList (mo_ContractIDs m)) res1 start cursor w1
         = Some (w', res, err)"
      "res1 = (resolve_range opts tip (je_oldest env) (mo_ID m))\<lparr>br_Resumed := br_Resumed res1\<rparr>"
      "(start, cursor) = (case jw_rows w (mo_ID m) of
          Some prev \<Rightarrow> if bf_Complete prev then (br_FromLedger (resolve_range opts tip (je_oldest env) (mo_ID m)), '''') else (bf_NextLedger prev, bf_Cursor prev)
        | None \<Rightarrow> (br_FromLedger (resolve_range opts tip (je_oldest env) (mo_ID m)), ''''))"
proof (cases "BackfillOptions_validate opts = None")
  case False
  then obtain e where "BackfillOptions_validate opts = Some e" by blast
  then show ?thesis using assms early [of e] by (auto simp: Run_def counts_def result0_def)
next
  case valid: True
  show ?thesis
  proof (cases "je_getMonitor env (bo_MonitorID opts)")
    case (Inl e)
    then show ?thesis using assms valid early [of "the err"] by (auto simp: Run_def counts_def result0_def)
  next
    case m: (Inr m)
    show ?thesis
    proof (cases "je_listRules env (mo_ID m)")
      case (Inl e)
      then show ?thesis using assms valid m early [of "the err"] by (auto simp: Run_def counts_def result0_def)
    next
      case rs: (Inr ruleList)
      define watch where "watch = WatchesFor (je_eventNames env) (je_validContract env) (je_symbol env) ruleList (mo_ContractIDs m)"
      show ?thesis
      proof (cases "watch = [] \<or> (\<exists>e. je_tip env = Inl e)")
        case True
        then show ?thesis using assms valid m rs early [of "the err"]
          by (auto simp: Run_def Let_def watch_def counts_def result0_def split: if_splits)
      next
        case False
        then obtain tip where tip: "je_tip env = Inr tip" by (cases "je_tip env") auto
        define rr where "rr = resolve_range opts tip (je_oldest env) (mo_ID m)"
        obtain w1 g where g: "GetBackfill env (mo_ID m) w = (w1, g)" by fastforce
        have w1: "jw_world w1 = jw_world w" "jw_handled w1 = jw_handled w" "jw_rows w1 = jw_rows w" and gr: "\<And>r. g = Inr r \<Longrightarrow> r = jw_rows w (mo_ID m)"
          using g by (auto simp: GetBackfill_def split: option.splits)
        have run: "(case g of Inl e \<Rightarrow> Some (w1, rr, Some ''backfill: load progress'')
            | Inr (Some prev) \<Rightarrow> if \<not> bf_Complete prev then run_replay env opts fuel m watch (rr\<lparr>br_Resumed := True\<rparr>) (bf_NextLedger prev) (bf_Cursor prev) w1
                else run_replay env opts fuel m watch rr (br_FromLedger rr) '''' w1
            | Inr None \<Rightarrow> run_replay env opts fuel m watch rr (br_FromLedger rr) '''' w1) = Some (w', res, err)"
          using assms False by (simp add: Run_def Let_def valid m rs tip g watch_def [symmetric] rr_def [symmetric])
        show ?thesis
        proof (cases g)
          case (Inl e)
          then show ?thesis using run w1 early [of "the err"] resolve_range_counts by (auto simp: rr_def)
        next
          case (Inr row)
          note row = gr [OF Inr]
          show ?thesis
          proof (cases "\<exists>prev. row = Some prev \<and> \<not> bf_Complete prev")
            case True
            then obtain prev where p: "row = Some prev" "\<not> bf_Complete prev" by blast
            show ?thesis
              by (rule ran [OF m rs tip w1, of "rr\<lparr>br_Resumed := True\<rparr>" "bf_NextLedger prev" "bf_Cursor prev"])
                 (use run Inr p row in \<open>simp_all add: watch_def rr_def\<close>)
          next
            case fresh: False
            show ?thesis
              by (rule ran [OF m rs tip w1, of rr "br_FromLedger rr" "''''"])
                 (use run Inr fresh row in \<open>auto simp: watch_def rr_def split: option.splits\<close>)
          qed
        qed
      qed
    qed
  qed
qed

lemma Run_tallied:
  assumes "Run env opts fuel w = Some (w', res, err)"
  shows "tallied opts w result0 w' res"
  using assms
proof (cases rule: Run_cases)
  case (early e)
  then show ?thesis by (intro tallied_same) (simp_all add: counts_def result0_def)
next
  case (ran m ruleList tip w1 res1 start cursor)
  have "counts res1 = counts result0" "br_Events res1 = br_Events result0"
    using arg_cong [OF ran(8), of counts] arg_cong [OF ran(8), of br_Events] resolve_range_counts by (simp_all add: counts_def result0_def)
  then have "tallied opts w result0 w1 res1" using ran(4,5) by (intro tallied_same) simp_all
  then show ?thesis by (rule tallied_trans [OF _ run_replay_tallied [OF ran(7)]])
qed

subsection \<open>An interrupted replay loses nothing\<close>

text \<open>What a replay should give to the ingestor, and the pages it needs for that: those up to the first event beyond the range.\<close>

definition wanted :: "Monitor \<Rightarrow> uint32 \<Rightarrow> DecodedEvent list \<Rightarrow> DecodedEvent list" where
  "wanted m to evs = filter (\<lambda>ev. de_Ledger ev \<le> to \<and> de_ContractID ev \<in> set (mo_ContractIDs m)) evs"

definition past_end :: "uint32 \<Rightarrow> DecodedEvent list \<Rightarrow> bool" where
  "past_end to evs = (\<exists>ev \<in> set evs. to < de_Ledger ev)"

fun needed_pages :: "uint32 \<Rightarrow> DecodedEvent list list \<Rightarrow> DecodedEvent list list" where
  "needed_pages to [] = []"
| "needed_pages to (p # ps) = p # (if past_end to p then [] else needed_pages to ps)"

lemma wanted_append [simp]: "wanted m to (xs @ ys) = wanted m to xs @ wanted m to ys"
  by (simp add: wanted_def)

lemma fold_replay_event:
  "jw_handled (fst (fold (replay_event env opts m to) evs (w, res))) = jw_handled w @ wanted m to evs
   \<and> jw_rows (fst (fold (replay_event env opts m to) evs (w, res))) = jw_rows w"
proof (induction evs arbitrary: w res)
  case (Cons ev evs)
  obtain w1 res1 where h: "replay_event env opts m to ev (w, res) = (w1, res1)" by fastforce
  have "jw_handled w1 = jw_handled w @ wanted m to [ev]" "jw_rows w1 = jw_rows w"
    using h by (auto simp: replay_event_def wanted_def not_less split: if_splits prod.splits)
  moreover have "wanted m to (ev # evs) = wanted m to [ev] @ wanted m to evs" by (simp add: wanted_def)
  ultimately show ?case using Cons [of w1 res1] h by simp
qed (simp add: wanted_def)

text \<open>A source with the pages \<open>P\<close> behind the cursors \<open>cur\<close>; any fetch may fail.\<close>

definition paged :: "'s job_env \<Rightarrow> BackfillOptions \<Rightarrow> uint32 \<Rightarrow> Watch list \<Rightarrow> DecodedEvent list list \<Rightarrow> (nat \<Rightarrow> string) \<Rightarrow> bool" where
  "paged env opts start watch P cur \<longleftrightarrow>
     P \<noteq> [] \<and> cur 0 = '''' \<and> cur (length P) = '''' \<and> (\<forall>i. 0 < i \<and> i < length P \<longrightarrow> cur i \<noteq> '''') \<and>
     (\<forall>n i. i < length P \<longrightarrow>
        (case je_fetch env n start watch (cur i) (bo_PageSize opts) of
           Inl e \<Rightarrow> True | Inr page \<Rightarrow> fp_Events page = P ! i \<and> fp_NextCursor page = cur (Suc i)))"

text \<open>Where the progress row stands: before page \<open>i\<close>.\<close>

definition row_at :: "Monitor \<Rightarrow> uint32 \<Rightarrow> DecodedEvent list list \<Rightarrow> (nat \<Rightarrow> string) \<Rightarrow> 's job_world \<Rightarrow> nat \<Rightarrow> bool" where
  "row_at m start P cur w i \<longleftrightarrow> i < length P \<and>
     (case jw_rows w (mo_ID m) of
        None \<Rightarrow> i = 0
      | Some row \<Rightarrow> if bf_Complete row then i = 0 else bf_NextLedger row = start \<and> bf_Cursor row = cur i)"

definition row_complete :: "Monitor \<Rightarrow> 's job_world \<Rightarrow> bool" where
  "row_complete m w \<longleftrightarrow> (\<exists>row. jw_rows w (mo_ID m) = Some row \<and> bf_Complete row)"

text \<open>
  What is left behind by a stretch of replay from page \<open>i\<close>: with success the rest of the range is handled; otherwise
  some further pages are, and the row stands before the last of them or right after them.
\<close>

definition replayed ::
  "Monitor \<Rightarrow> uint32 \<Rightarrow> uint32 \<Rightarrow> DecodedEvent list list \<Rightarrow> (nat \<Rightarrow> string) \<Rightarrow> nat \<Rightarrow> 's job_world \<Rightarrow> 's job_world \<Rightarrow> string option \<Rightarrow> bool" where
  "replayed m to start P cur i w w' err \<longleftrightarrow>
     (case err of
        None \<Rightarrow> jw_handled w' = jw_handled w @ wanted m to (concat (needed_pages to (drop i P))) \<and> row_complete m w'
      | Some e \<Rightarrow> (\<exists>n again. row_at m start P cur w' (i + n) \<and> needed_pages to (drop i P) = take n (drop i P) @ needed_pages to (drop (i + n) P)
          \<and> jw_handled w' = jw_handled w @ wanted m to (concat (take n (drop i P))) @ again
          \<and> (again = [] \<or> again = wanted m to (P ! (i + n)))))"

lemma replayed_still:
  assumes "row_at m start P cur w' i" "jw_handled w' = jw_handled w"
  shows "replayed m to start P cur i w w' (Some e)"
  using assms unfolding replayed_def by (auto intro!: exI [of _ 0] simp: wanted_def)

lemma replayed_step:
  assumes r: "replayed m to start P cur (Suc i) w1 w' err" and h: "jw_handled w1 = jw_handled w @ wanted m to (P ! i)"
    and i: "i < length P" "\<not> past_end to (P ! i)"
  shows "replayed m to start P cur i w w' err"
proof -
  have d: "drop i P = P ! i # drop (Suc i) P" using i by (simp add: Cons_nth_drop_Suc)
  show ?thesis
  proof (cases err)
    case None
    then show ?thesis using r h i d by (simp add: replayed_def)
  next
    case (Some e)
    then obtain n again where n: "row_at m start P cur w' (Suc i + n)" "needed_pages to (drop (Suc i) P) = take n (drop (Suc i) P) @ needed_pages to (drop (Suc i + n) P)"
      "jw_handled w' = jw_handled w1 @ wanted m to (concat (take n (drop (Suc i) P))) @ again" "again = [] \<or> again = wanted m to (P ! (Suc i + n))"
      using r by (auto simp: replayed_def)
    show ?thesis unfolding replayed_def Some option.case
      by (rule exI [of _ "Suc n"], rule exI [of _ again]) (use n h i d in simp)
  qed
qed

lemma replay_replayed:
  assumes src: "paged env opts start watch P cur"
    and "replay env opts m watch to start fuel (cur i) prog res w = Some (w', res', err)"
    and "i < length P" "jw_rows w (mo_ID m) = Some prog" "bf_MonitorID prog = mo_ID m" "bf_NextLedger prog = start" "bf_Cursor prog = cur i" "\<not> bf_Complete prog"
  shows "replayed m to start P cur i w w' err"
  using assms(2-)
proof (induction fuel arbitrary: i prog res w)
  case 0
  then show ?case by simp
next
  case (Suc fuel)
  have at_t: "row_at m start P cur w i" using Suc.prems by (simp add: row_at_def)
  have d: "drop i P = P ! i # drop (Suc i) P" using Suc.prems by (simp add: Cons_nth_drop_Suc)
  show ?case
  proof (cases "je_ctx env (jw_fetches w)")
    case (Some e)
    then have "w' = w" "err = Some e" using Suc.prems(1) by auto
    then show ?thesis using replayed_still [OF at_t refl] by simp
  next
    case ctx: None
    let ?w1 = "w\<lparr>jw_fetches := jw_fetches w + 1\<rparr>"
    show ?thesis
    proof (cases "je_fetch env (jw_fetches w) start watch (cur i) (bo_PageSize opts)")
      case (Inl e)
      have same: "prog\<lparr>bf_NextLedger := start, bf_Cursor := cur i\<rparr> = prog" using Suc.prems by simp
      then have w': "w' = fst (UpsertBackfill env prog ?w1)" "\<exists>x. err = Some x" using Suc.prems(1) ctx Inl by (auto simp: Let_def)
      have "jw_rows w' (mo_ID m) = Some prog" using Suc.prems(3,4) w'(1) by (auto simp: UpsertBackfill_def split: option.splits)
      then have "row_at m start P cur w' i" using Suc.prems by (simp add: row_at_def)
      then show ?thesis using w' replayed_still [of m start P cur w' i w to] by auto
    next
      case (Inr page)
      have pg: "fp_Events page = P ! i" "fp_NextCursor page = cur (Suc i)" using src Suc.prems(2) Inr by (auto simp: paged_def split: sum.splits)
      obtain w2 res2 where f: "fold (replay_event env opts m to) (P ! i) (?w1, res) = (w2, res2)" by fastforce
      have w2: "jw_handled w2 = jw_handled w @ wanted m to (P ! i)" "jw_rows w2 = jw_rows w"
        using fold_replay_event [of env opts m to "P ! i" ?w1 res] f by simp_all
      have last: "cur (Suc i) = '''' \<longleftrightarrow> Suc i = length P" using src Suc.prems(2) by (cases "Suc i = length P") (auto simp: paged_def)
      define stop where "stop = (past_end to (P ! i) \<or> Suc i = length P)"
      have again: "replayed m to start P cur i w w3 (Some e)" if "jw_handled w3 = jw_handled w2" "jw_rows w3 = jw_rows w" for w3 e
        unfolding replayed_def option.case
        by (rule exI [of _ 0], rule exI [of _ "wanted m to (P ! i)"]) (use that w2 at_t in \<open>simp add: row_at_def wanted_def\<close>)
      show ?thesis
      proof (cases stop)
        case True
        let ?prog = "prog\<lparr>bf_Complete := True, bf_Cursor := ''''\<rparr>"
        have done': "needed_pages to (drop i P) = [P ! i]" using True d by (auto simp: stop_def)
        obtain w3 e3 where u: "UpsertBackfill env ?prog w2 = (w3, e3)" by fastforce
        have res: "w' = w3" "err = map_option (\<lambda>_. ''backfill: save completion'') e3"
          using Suc.prems(1) ctx Inr f u True last by (auto simp: Let_def pg stop_def past_end_def split: option.splits)
        show ?thesis
        proof (cases e3)
          case None
          then have "jw_rows w3 (mo_ID m) = Some ?prog" using u Suc.prems(4) by (auto simp: UpsertBackfill_def split: option.splits)
          then have "row_complete m w3" by (simp add: row_complete_def)
          then show ?thesis using res None done' w2 UpsertBackfill_eq [OF u] by (simp add: replayed_def)
        next
          case (Some e)
          then have "jw_rows w3 = jw_rows w" using u w2 by (auto simp: UpsertBackfill_def split: option.splits)
          then show ?thesis using res Some again [of w3] UpsertBackfill_eq [OF u] by simp
        qed
      next
        case go: False
        let ?prog = "prog\<lparr>bf_NextLedger := start, bf_Cursor := cur (Suc i)\<rparr>"
        obtain w3 e3 where u: "UpsertBackfill env ?prog w2 = (w3, e3)" by fastforce
        define slept where "slept = je_sleep env (jw_fetches w) (if bo_Rate opts \<le> 0 then DefaultRate else bo_Rate opts)"
        have run: "(case e3 of Some e \<Rightarrow> Some (w3, res2, Some ''backfill: save progress'')
            | None \<Rightarrow> (case slept of Some x \<Rightarrow> Some (w3, res2, Some x)
                | None \<Rightarrow> replay env opts m watch to start fuel (cur (Suc i)) ?prog res2 w3)) = Some (w', res', err)"
          using Suc.prems(1) go last f u by (simp add: Let_def ctx Inr pg stop_def past_end_def slept_def [symmetric] cong: option.case_cong)
        show ?thesis
        proof (cases e3)
          case (Some e)
          then have "jw_rows w3 = jw_rows w" using u w2 by (auto simp: UpsertBackfill_def split: option.splits)
          then show ?thesis using run Some again [of w3] UpsertBackfill_eq [OF u] by auto
        next
          case None
          have i: "Suc i < length P" "\<not> past_end to (P ! i)" using go Suc.prems(2) by (auto simp: stop_def)
          have row: "jw_rows w3 (mo_ID m) = Some ?prog" using u None Suc.prems(4) by (auto simp: UpsertBackfill_def split: option.splits)
          have "replayed m to start P cur (Suc i) w3 w' err"
          proof (cases slept)
            case (Some x)
            have "row_at m start P cur w3 (Suc i)" using row i Suc.prems(7) by (simp add: row_at_def)
            then show ?thesis using run None Some replayed_still [of m start P cur w3 "Suc i" w3] by auto
          next
            case awake: None
            show ?thesis
              by (rule Suc.IH [of "Suc i" ?prog res2 w3]) (use run None awake i row Suc.prems(4-7) in simp_all)
          qed
          then show ?thesis using replayed_step [of m to start P cur i w3 w' err w] UpsertBackfill_eq [OF u] w2 i Suc.prems(2) by simp
        qed
      qed
    qed
  qed
qed

text \<open>
  The circumstances of one run: the monitor, its watch list, the range the options come to, and the source.
\<close>

definition run_setting ::
  "BackfillOptions \<Rightarrow> Monitor \<Rightarrow> uint32 \<Rightarrow> uint32 \<Rightarrow> DecodedEvent list list \<Rightarrow> (nat \<Rightarrow> string) \<Rightarrow> 's job_env \<Rightarrow> bool" where
  "run_setting opts m start to P cur env \<longleftrightarrow>
     (\<forall>m'. je_getMonitor env (bo_MonitorID opts) = Inr m' \<longrightarrow> m' = m)
     \<and> (\<forall>tip. je_tip env = Inr tip \<longrightarrow> br_FromLedger (resolve_range opts tip (je_oldest env) (mo_ID m)) = start
                \<and> br_ToLedger (resolve_range opts tip (je_oldest env) (mo_ID m)) = to)
     \<and> (\<forall>rs. je_listRules env (mo_ID m) = Inr rs \<longrightarrow>
          paged env opts start (WatchesFor (je_eventNames env) (je_validContract env) (je_symbol env) rs (mo_ContractIDs m)) P cur)"

lemma Run_replayed:
  assumes set: "run_setting opts m start to P cur env" and at_t: "row_at m start P cur w i"
    and run: "Run env opts fuel w = Some (w', res, err)"
  shows "replayed m to start P cur i w w' err"
  using run
proof (cases rule: Run_cases)
  case (early e)
  then show ?thesis using at_t replayed_still [of m start P cur w' i w] by (simp add: row_at_def)
next
  case (ran m' rs tip w1 res1 st c)
  have m: "m' = m" using set ran(1) by (simp add: run_setting_def)
  note ran = ran [unfolded m]
  let ?watch = "WatchesFor (je_eventNames env) (je_validContract env) (je_symbol env) rs (mo_ContractIDs m)"
  have src: "paged env opts start ?watch P cur" and fr: "br_FromLedger (resolve_range opts tip (je_oldest env) (mo_ID m)) = start"
    and to': "br_ToLedger (resolve_range opts tip (je_oldest env) (mo_ID m)) = to" using set ran by (auto simp: run_setting_def)
  have to: "br_ToLedger res1 = to" using arg_cong [OF ran(8), of br_ToLedger] to' by simp
  have sc: "st = start" "c = cur i" using ran(9) at_t fr src by (auto simp: row_at_def paged_def split: option.splits if_splits)
  let ?prog = "\<lparr>bf_MonitorID = mo_ID m, bf_FromLedger = br_FromLedger res1, bf_ToLedger = br_ToLedger res1, bf_NextLedger = start,
                  bf_Cursor = cur i, bf_Deliver = bo_Deliver opts, bf_Complete = False\<rparr>"
  obtain w2 e where u: "UpsertBackfill env ?prog w1 = (w2, e)" by fastforce
  have h: "jw_handled w2 = jw_handled w" using UpsertBackfill_eq [OF u] ran(5) by simp
  show ?thesis
  proof (cases e)
    case (Some x)
    then have "w' = w2" "\<exists>y. err = Some y" "jw_rows w2 = jw_rows w"
      using ran(6,7) u sc by (auto simp: run_replay_def Let_def UpsertBackfill_def split: option.splits)
    then show ?thesis using at_t h replayed_still [of m start P cur w' i w] by (auto simp: row_at_def)
  next
    case None
    have r: "replay env opts m ?watch to start fuel (cur i) ?prog (res1\<lparr>br_Ledgers := br_ToLedger res1 - br_FromLedger res1 + 1\<rparr>) w2 = Some (w', res, err)"
      using ran(7) u sc None to by (simp add: run_replay_def Let_def)
    have "replayed m to start P cur i w2 w' err"
      by (rule replay_replayed [OF src r])
         (use at_t u None in \<open>auto simp: row_at_def UpsertBackfill_def split: option.splits\<close>)
    then show ?thesis unfolding replayed_def h .
  qed
qed

text \<open>The operator runs the command again until it succeeds; each run has its own environment and its own failures.\<close>

fun attempts :: "BackfillOptions \<Rightarrow> ('s job_env \<times> nat) list \<Rightarrow> 's job_world \<Rightarrow> ('s job_world \<times> bool) option" where
  "attempts opts [] w = Some (w, False)"
| "attempts opts ((env, fuel) # runs) w =
     (case Run env opts fuel w of
        None \<Rightarrow> None
      | Some (w', res, None) \<Rightarrow> Some (w', True)
      | Some (w', res, Some e) \<Rightarrow> attempts opts runs w')"

lemma attempts_cover:
  assumes "\<forall>(env, fuel) \<in> set runs. run_setting opts m start to P cur env" "row_at m start P cur w i"
    "attempts opts runs w = Some (w', True)"
  shows "\<exists>h. jw_handled w' = jw_handled w @ h \<and> set h = set (wanted m to (concat (needed_pages to (drop i P)))) \<and> row_complete m w'"
  using assms
proof (induction opts runs w arbitrary: i rule: attempts.induct)
  case (1 opts w)
  then show ?case by simp
next
  case (2 opts env fuel runs w)
  obtain w1 res err where run: "Run env opts fuel w = Some (w1, res, err)" using 2(4) by (auto split: option.splits)
  have r: "replayed m to start P cur i w w1 err" using 2(2,3) by (intro Run_replayed [OF _ _ run]) auto
  show ?case
  proof (cases err)
    case None
    then show ?thesis using r run 2(4) by (auto simp: replayed_def)
  next
    case (Some e)
    then obtain n again where n: "row_at m start P cur w1 (i + n)" "needed_pages to (drop i P) = take n (drop i P) @ needed_pages to (drop (i + n) P)"
      "jw_handled w1 = jw_handled w @ wanted m to (concat (take n (drop i P))) @ again" "again = [] \<or> again = wanted m to (P ! (i + n))"
      using r by (auto simp: replayed_def)
    have rest: "attempts opts runs w1 = Some (w', True)" using 2(4) run Some by simp
    obtain h where h: "jw_handled w' = jw_handled w1 @ h" "set h = set (wanted m to (concat (needed_pages to (drop (i + n) P))))" "row_complete m w'"
      using 2(1) [OF run refl refl Some _ n(1) rest] 2(2) by auto
    have "set again \<subseteq> set h"
    proof -
      have "drop (i + n) P = P ! (i + n) # drop (Suc (i + n)) P" using n(1) by (simp add: row_at_def Cons_nth_drop_Suc)
      then have "P ! (i + n) \<in> set (needed_pages to (drop (i + n) P))" by simp
      then show ?thesis using n(4) h(2) by (auto simp: wanted_def)
    qed
    then have "set (wanted m to (concat (take n (drop i P))) @ again @ h) = set (wanted m to (concat (needed_pages to (drop i P))))"
      using h(2) n(2) by auto
    then show ?thesis using h n(3) by (intro exI [of _ "wanted m to (concat (take n (drop i P))) @ again @ h"]) simp
  qed
qed

lemma wanted_covered:
  assumes "sorted (map de_Ledger (concat P))"
  shows "wanted m to (concat (needed_pages to P)) = wanted m to (concat P)"
  using assms
proof (induction P)
  case (Cons p P)
  show ?case
  proof (cases "past_end to p")
    case True
    then obtain e where e: "e \<in> set p" "to < de_Ledger e" by (auto simp: past_end_def)
    have "to < de_Ledger ev" if "ev \<in> set (concat P)" for ev
    proof -
      have "de_Ledger e \<le> de_Ledger ev" using Cons.prems e(1) that by (auto simp: sorted_append)
      then show ?thesis using e(2) by simp
    qed
    then have "wanted m to (concat P) = []" unfolding wanted_def filter_empty_conv by (auto simp: not_le)
    then show ?thesis using True by simp
  next
    case False
    then show ?thesis using Cons by (simp add: sorted_append)
  qed
qed simp

subsection \<open>A run returns\<close>

text \<open>
  The loop has no bound of its own; over a source with \<open>length P\<close> pages that many rounds are enough, wherever the progress
  row stands. A run that nothing obstructs succeeds.
\<close>

lemma replay_returns:
  assumes src: "paged env opts start watch P cur" and "i < length P" "length P - i \<le> fuel"
  shows "\<exists>r. replay env opts m watch to start fuel (cur i) prog res w = Some r"
  using assms(2-)
proof (induction fuel arbitrary: i prog res w)
  case 0
  then show ?case by simp
next
  case (Suc fuel)
  show ?case
  proof (cases "je_ctx env (jw_fetches w)")
    case (Some e)
    then show ?thesis by simp
  next
    case ctx: None
    let ?w1 = "w\<lparr>jw_fetches := jw_fetches w + 1\<rparr>"
    show ?thesis
    proof (cases "je_fetch env (jw_fetches w) start watch (cur i) (bo_PageSize opts)")
      case (Inl e)
      then show ?thesis using ctx by (simp add: Let_def)
    next
      case (Inr page)
      obtain w2 res2 where f: "fold (replay_event env opts m to) (fp_Events page) (?w1, res) = (w2, res2)" by fastforce
      have n: "fp_NextCursor page = cur (Suc i)" using src Suc.prems(1) Inr by (auto simp: paged_def split: sum.splits)
      have rec: "\<exists>r. replay env opts m watch to start fuel (cur (Suc i)) prog' res2 w3 = Some r" if "cur (Suc i) \<noteq> ''''" for prog' w3
      proof -
        have "Suc i < length P" using that src Suc.prems(1) by (cases "Suc i = length P") (auto simp: paged_def)
        then show ?thesis using Suc.IH Suc.prems(2) by simp
      qed
      show ?thesis using ctx Inr f n rec by (auto simp: Let_def split: prod.splits option.splits)
    qed
  qed
qed

lemma Run_returns:
  assumes set: "run_setting opts m start to P cur env" and at_t: "row_at m start P cur w i" and fuel: "length P \<le> fuel"
  shows "\<exists>r. Run env opts fuel w = Some r"
proof (cases "BackfillOptions_validate opts = None \<and> (\<exists>m' rs tip. je_getMonitor env (bo_MonitorID opts) = Inr m' \<and> je_listRules env (mo_ID m') = Inr rs \<and> je_tip env = Inr tip)")
  case False
  show ?thesis
  proof (cases "BackfillOptions_validate opts")
    case v: None
    show ?thesis
    proof (cases "je_getMonitor env (bo_MonitorID opts)")
      case m: (Inr m')
      show ?thesis
      proof (cases "je_listRules env (mo_ID m')")
        case rs: (Inr rs)
        then obtain e where "je_tip env = Inl e" using False v m by (cases "je_tip env") auto
        then show ?thesis using v m rs by (simp add: Run_def Let_def)
      qed (simp add: Run_def v m)
    qed (simp add: Run_def v)
  qed (simp add: Run_def)
next
  case True
  then obtain m' rs tip where v: "BackfillOptions_validate opts = None" and m': "je_getMonitor env (bo_MonitorID opts) = Inr m'"
    and rs': "je_listRules env (mo_ID m') = Inr rs" and tip: "je_tip env = Inr tip" by blast
  have "m' = m" using set m' unfolding run_setting_def by blast
  note m = m' [unfolded this] and rs = rs' [unfolded this]
  define watch where "watch = WatchesFor (je_eventNames env) (je_validContract env) (je_symbol env) rs (mo_ContractIDs m)"
  define rr where "rr = resolve_range opts tip (je_oldest env) (mo_ID m)"
  have src: "paged env opts start watch P cur" and fr: "br_FromLedger rr = start"
    using set m rs tip by (auto simp: run_setting_def watch_def rr_def)
  have i: "i < length P" using at_t by (simp add: row_at_def)
  have rep: "\<exists>r. run_replay env opts fuel m watch res start (cur i) w1 = Some r" for res w1
    using replay_returns [OF src i] fuel by (auto simp: run_replay_def Let_def split: prod.splits option.splits)
  obtain w1 g where g: "GetBackfill env (mo_ID m) w = (w1, g)" by fastforce
  have run: "Run env opts fuel w = (if watch = [] then Some (w, result0, Some ''backfill: monitor watches no valid contracts'') else
      (case g of Inl e \<Rightarrow> Some (w1, rr, Some ''backfill: load progress'')
            | Inr (Some prev) \<Rightarrow> if \<not> bf_Complete prev then run_replay env opts fuel m watch (rr\<lparr>br_Resumed := True\<rparr>) (bf_NextLedger prev) (bf_Cursor prev) w1
                else run_replay env opts fuel m watch rr (br_FromLedger rr) '''' w1
            | Inr None \<Rightarrow> run_replay env opts fuel m watch rr (br_FromLedger rr) '''' w1))"
    by (simp add: Run_def Let_def v m rs tip g watch_def [symmetric] rr_def [symmetric])
  show ?thesis
  proof (cases "watch = [] \<or> (\<exists>e. g = Inl e)")
    case True
    then show ?thesis using run by auto
  next
    case False
    then obtain row where row: "g = Inr row" by (cases g) auto
    then have eq: "row = jw_rows w (mo_ID m)" using g by (auto simp: GetBackfill_def split: option.splits)
    show ?thesis
    proof (cases "\<exists>prev. row = Some prev \<and> \<not> bf_Complete prev")
      case True
      then show ?thesis using run False row eq at_t rep by (auto simp: row_at_def)
    next
      case fresh: False
      then have "cur i = ''''" using at_t src eq by (auto simp: row_at_def paged_def split: option.splits)
      then show ?thesis using run False row fresh fr rep [of rr w1] by (auto split: option.splits)
    qed
  qed
qed

definition unobstructed :: "BackfillOptions \<Rightarrow> 's job_env \<Rightarrow> bool" where
  "unobstructed opts env \<longleftrightarrow> BackfillOptions_validate opts = None
     \<and> (\<exists>m rs tip. je_getMonitor env (bo_MonitorID opts) = Inr m \<and> je_listRules env (mo_ID m) = Inr rs \<and> je_tip env = Inr tip
          \<and> WatchesFor (je_eventNames env) (je_validContract env) (je_symbol env) rs (mo_ContractIDs m) \<noteq> [])
     \<and> (\<forall>n. je_fault env n = None) \<and> (\<forall>n. je_ctx env n = None) \<and> (\<forall>n d. je_sleep env n d = None)
     \<and> (\<forall>n start watch cursor size e. je_fetch env n start watch cursor size \<noteq> Inl e)"

lemma UpsertBackfill_sound: "\<forall>n. je_fault env n = None \<Longrightarrow> snd (UpsertBackfill env b w) = None"
  by (simp add: UpsertBackfill_def)

lemma replay_unobstructed:
  assumes "unobstructed opts env" "replay env opts m watch to start fuel cursor prog res w = Some (w', res', err)"
  shows "err = None"
  using assms(2)
proof (induction fuel arbitrary: cursor prog res w)
  case 0
  then show ?case by simp
next
  case (Suc fuel)
  have env: "\<forall>n. je_fault env n = None" "je_ctx env (jw_fetches w) = None" "\<And>n d. je_sleep env n d = None"
    using assms(1) by (auto simp: unobstructed_def)
  obtain page where p: "je_fetch env (jw_fetches w) start watch cursor (bo_PageSize opts) = Inr page"
    using assms(1) unfolding unobstructed_def by (metis sum.exhaust)
  obtain w2 res2 where f: "fold (replay_event env opts m to) (fp_Events page) (w\<lparr>jw_fetches := jw_fetches w + 1\<rparr>, res) = (w2, res2)" by fastforce
  have ok: "\<exists>w3. UpsertBackfill env b v = (w3, None)" for b v using UpsertBackfill_sound [OF env(1), of b v] by (metis prod.collapse)
  show ?case using Suc.prems env(2,3) p f ok [of "prog\<lparr>bf_Complete := True, bf_Cursor := ''''\<rparr>" w2]
      ok [of "prog\<lparr>bf_NextLedger := start, bf_Cursor := fp_NextCursor page\<rparr>" w2] Suc.IH
    by (auto simp: Let_def split: if_splits)
qed

lemma Run_unobstructed:
  assumes "unobstructed opts env" "Run env opts fuel w = Some (w', res, err)"
  shows "err = None"
proof -
  have ok: "\<exists>w3. UpsertBackfill env b v = (w3, None)" for b v
    using UpsertBackfill_sound [of env b v] assms(1) by (metis prod.collapse unobstructed_def)
  have r: "err' = None" if "run_replay env opts fuel m watch res1 start cursor w1 = Some (w2, res2, err')" for m watch res1 start cursor w1 w2 res2 err'
    using that ok [of "\<lparr>bf_MonitorID = mo_ID m, bf_FromLedger = br_FromLedger res1, bf_ToLedger = br_ToLedger res1, bf_NextLedger = start,
      bf_Cursor = cursor, bf_Deliver = bo_Deliver opts, bf_Complete = False\<rparr>" w1] replay_unobstructed [OF assms(1)]
    by (auto simp: run_replay_def Let_def)
  obtain w1 where g: "\<And>i. GetBackfill env i w = (w1, Inr (jw_rows w i))"
    using assms(1) by (auto simp: GetBackfill_def unobstructed_def)
  show ?thesis using assms r unfolding Run_def unobstructed_def
    by (auto simp: Let_def g split: option.splits if_splits)
qed

lemma attempts_return:
  assumes "\<forall>(env, fuel) \<in> set runs. run_setting opts m start to P cur env \<and> length P \<le> fuel" "row_at m start P cur w i"
  shows "\<exists>w' ok. attempts opts runs w = Some (w', ok) \<and> ((\<exists>(env, fuel) \<in> set runs. unobstructed opts env) \<longrightarrow> ok)"
  using assms
proof (induction opts runs w arbitrary: i rule: attempts.induct)
  case (1 opts w)
  show ?case by (rule exI [of _ w], rule exI [of _ False]) simp
next
  case (2 opts env fuel runs w)
  obtain w1 res err where run: "Run env opts fuel w = Some (w1, res, err)" using Run_returns [of opts m start to P cur env w i fuel] 2(2,3) by auto
  have r: "replayed m to start P cur i w w1 err" using 2(2,3) by (intro Run_replayed [OF _ _ run]) auto
  show ?case
  proof (cases err)
    case None
    then show ?thesis using run by (intro exI [of _ w1] exI [of _ True]) simp
  next
    case (Some e)
    then obtain n where n: "row_at m start P cur w1 (i + n)" using r by (auto simp: replayed_def)
    have "\<not> unobstructed opts env" using Run_unobstructed [OF _ run] Some by auto
    moreover have "\<forall>(env, fuel) \<in> set runs. run_setting opts m start to P cur env \<and> length P \<le> fuel" using 2(2) by simp
    ultimately show ?thesis using 2(1) [OF run refl refl Some _ n] run Some by simp
  qed
qed

text \<open>
  C21. A replay notifies nobody unless told to, and its totals are true, however the run ends. \<open>Events\<close> is the number of events
  given to the ingestor, \<open>Matched\<close> the number of times the registry answered with a match, \<open>Alerts\<close> the number of
  rows that came into the alert table; every one of these rows is marked as backfilled and none reaches the live stream;
  without \<open>Deliver\<close> nothing is handed to the dispatcher, with it as many alerts as there are new rows, and \<open>Dispatched\<close> is
  their number. The page loop has no bound of its own; when the source holds the range in pages and the progress row, if
  any, stands at one of them, as many rounds as there are pages are enough for the run to return.
\<close>

theorem backfill_notifies_nobody:
  "(\<forall>w' res err. Run env opts fuel w = Some (w', res, err) \<longrightarrow>
     (\<exists>evs as rows sent. jw_handled w' = jw_handled w @ evs \<and> br_Events res = length evs
       \<and> pw_answers (jw_world w') = pw_answers (jw_world w) @ as \<and> br_Matched res = length (filter said_match as)
       \<and> db_alerts (jw_world w') = db_alerts (jw_world w) @ rows \<and> br_Alerts res = length rows \<and> list_all ar_Backfilled rows
       \<and> pw_published (jw_world w') = pw_published (jw_world w)
       \<and> pw_dispatched (jw_world w') = pw_dispatched (jw_world w) @ sent \<and> br_Dispatched res = length sent
       \<and> length sent = (if bo_Deliver opts then length rows else 0)))
   \<and> (run_setting opts m start to P cur env \<longrightarrow> row_at m start P cur w i \<longrightarrow> length P \<le> fuel
        \<longrightarrow> (\<exists>w' res err. Run env opts fuel w = Some (w', res, err)))"
proof (intro conjI allI impI)
  fix w' res err
  assume "Run env opts fuel w = Some (w', res, err)"
  note tallied = Run_tallied [OF this, unfolded tallied_def accounted_def]
  then obtain evs rows sent as where "jw_handled w' = jw_handled w @ evs" "br_Events res = length evs"
    "pw_answers (jw_world w') = pw_answers (jw_world w) @ as" "br_Matched res = length (filter said_match as)"
    "db_alerts (jw_world w') = db_alerts (jw_world w) @ rows" "br_Alerts res = length rows" "list_all ar_Backfilled rows"
    "pw_published (jw_world w') = pw_published (jw_world w)"
    "pw_dispatched (jw_world w') = pw_dispatched (jw_world w) @ sent" "br_Dispatched res = length sent"
    "length sent = (if bo_Deliver opts then length rows else 0)"
    by (auto simp: replay_options_def counts_def result0_def list_all_iff)
  then show "\<exists>evs as rows sent. jw_handled w' = jw_handled w @ evs \<and> br_Events res = length evs
       \<and> pw_answers (jw_world w') = pw_answers (jw_world w) @ as \<and> br_Matched res = length (filter said_match as)
       \<and> db_alerts (jw_world w') = db_alerts (jw_world w) @ rows \<and> br_Alerts res = length rows \<and> list_all ar_Backfilled rows
       \<and> pw_published (jw_world w') = pw_published (jw_world w)
       \<and> pw_dispatched (jw_world w') = pw_dispatched (jw_world w) @ sent \<and> br_Dispatched res = length sent
       \<and> length sent = (if bo_Deliver opts then length rows else 0)"
    by blast
next
  assume "run_setting opts m start to P cur env" "row_at m start P cur w i" "length P \<le> fuel"
  then show "\<exists>w' res err. Run env opts fuel w = Some (w', res, err)" using Run_returns by fastforce
qed

text \<open>
  C11. A replay that is interrupted and run again misses nothing. Let the source hold the range in pages whose events are in
  ledger order over all of them, let every run resolve the same range and monitor, and let no unfinished row of an earlier
  range be stored; any fetch, any write of the progress row, any pause and the context may fail, in any number of runs. With
  as much fuel as there are pages every run returns. Once a run succeeds, as the first one nothing obstructs does, the
  events given to the ingestor over all runs are exactly the events of the monitor's contracts up to the end of the range
  (an event may be given more than once), and the progress row is complete.
\<close>

theorem interrupted_backfill_covers_the_range:
  assumes "\<forall>(env, fuel) \<in> set runs. run_setting opts m start to P cur env \<and> length P \<le> fuel"
    and "case jw_rows w (mo_ID m) of None \<Rightarrow> True | Some row \<Rightarrow> bf_Complete row"
    and "P \<noteq> []" "sorted (map de_Ledger (concat P))"
  shows "\<exists>w' ok. attempts opts runs w = Some (w', ok) \<and> ((\<exists>(env, fuel) \<in> set runs. unobstructed opts env) \<longrightarrow> ok)
    \<and> (ok \<longrightarrow> row_complete m w' \<and> (\<exists>h. jw_handled w' = jw_handled w @ h
         \<and> set h = {ev \<in> set (concat P). de_Ledger ev \<le> to \<and> de_ContractID ev \<in> set (mo_ContractIDs m)}))"
proof -
  have set: "\<forall>(env, fuel) \<in> set runs. run_setting opts m start to P cur env" using assms(1) by auto
  have at0: "row_at m start P cur w 0" using assms(2,3) by (auto simp: row_at_def split: option.splits)
  obtain w' ok where a: "attempts opts runs w = Some (w', ok)" "(\<exists>(env, fuel) \<in> set runs. unobstructed opts env) \<longrightarrow> ok"
    using attempts_return [OF assms(1) at0] by blast
  have "set (wanted m to (concat (needed_pages to P))) = {ev \<in> set (concat P). de_Ledger ev \<le> to \<and> de_ContractID ev \<in> set (mo_ContractIDs m)}"
    unfolding wanted_covered [OF assms(4)] by (simp add: wanted_def)
  then have "ok \<longrightarrow> row_complete m w' \<and> (\<exists>h. jw_handled w' = jw_handled w @ h
         \<and> set h = {ev \<in> set (concat P). de_Ledger ev \<le> to \<and> de_ContractID ev \<in> set (mo_ContractIDs m)})"
    using attempts_cover [OF set at0, of w'] a(1) by (cases ok) auto
  with a show ?thesis by blast
qed

subsection \<open>Concrete runs\<close>

definition demo_at :: "string \<Rightarrow> string \<Rightarrow> uint32 \<Rightarrow> DecodedEvent" where
  "demo_at i c l = demo_event1\<lparr>de_ID := i, de_ContractID := c, de_Ledger := l\<rparr>"

definition demo_pages :: "DecodedEvent list list" where
  "demo_pages = [[demo_at ''e1'' ''C1'' 9], [demo_at ''e2'' ''C1'' 20, demo_at ''e3'' ''C1'' 60]]"

definition demo_cur :: "nat \<Rightarrow> string" where
  "demo_cur i = (if i = 1 then ''next'' else '''')"

definition demo_job :: "bool \<Rightarrow> int job_env" where
  "demo_job down = \<lparr>je_ingest = handle_env.extend (demo_henv False) (ingest_env.fields True (\<lambda>n c e. '''')),
     je_getMonitor = (\<lambda>i. Inr demo_absence_monitor), je_listRules = (\<lambda>i. Inr [demo_rule]), je_eventNames = (\<lambda>r. None),
     je_validContract = (\<lambda>c. True), je_symbol = (\<lambda>n. None), je_tip = Inr 100, je_oldest = None,
     je_fetch = (\<lambda>n start watch c size.
        if c = '''' then Inr \<lparr>fp_Events = demo_pages ! 0, fp_LatestLedger = 100, fp_NextCursor = ''next''\<rparr>
        else if down then Inl (FetchFailed ''503'')
        else Inr \<lparr>fp_Events = demo_pages ! 1, fp_LatestLedger = 100, fp_NextCursor = ''''\<rparr>),
     je_fault = (\<lambda>n. None), je_ctx = (\<lambda>n. None), je_sleep = (\<lambda>n d. None)\<rparr>"

definition demo_opts :: BackfillOptions where
  "demo_opts = \<lparr>bo_MonitorID = 3, bo_FromLedger = 5, bo_ToLedger = 50, bo_Lookback = 0, bo_Deliver = False, bo_Rate = 0, bo_PageSize = 0\<rparr>"

definition demo_jw :: "int job_world" where
  "demo_jw = \<lparr>jw_world = demo_world, jw_rows = Map.empty, jw_stmts = 0, jw_fetches = 0, jw_handled = []\<rparr>"

lemma demo_setting: "run_setting demo_opts demo_absence_monitor 5 50 demo_pages demo_cur (demo_job down)"
proof -
  have "resolve_range demo_opts 100 None (mo_ID demo_absence_monitor) = result0\<lparr>br_MonitorID := 3, br_RequestedFrom := 5, br_FromLedger := 5, br_ToLedger := 50\<rparr>"
    by code_simp
  then show ?thesis by (auto simp: run_setting_def demo_job_def paged_def demo_cur_def demo_pages_def result0_def less_Suc_eq)
qed

theorem interrupted_backfill_covers_the_range_witness:
  "\<exists>w'. attempts demo_opts [(demo_job True, 5), (demo_job False, 5)] demo_jw = Some (w', True) \<and> row_complete demo_absence_monitor w'
     \<and> set (jw_handled w') = {demo_at ''e1'' ''C1'' 9, demo_at ''e2'' ''C1'' 20}"
proof -
  let ?runs = "[(demo_job True, 5 :: nat), (demo_job False, 5)]"
  have pages: "demo_pages \<noteq> []" "sorted (map de_Ledger (concat demo_pages))" "length demo_pages \<le> 5" by (simp_all add: demo_pages_def demo_at_def)
  have "WatchesFor (\<lambda>r. None) (\<lambda>c. True) (\<lambda>n. None) [demo_rule] (mo_ContractIDs demo_absence_monitor) \<noteq> []"
    "BackfillOptions_validate demo_opts = None" by code_simp+
  then have free: "unobstructed demo_opts (demo_job False)" by (simp add: unobstructed_def demo_job_def)
  have "\<exists>w' ok. attempts demo_opts ?runs demo_jw = Some (w', ok) \<and> ((\<exists>(env, fuel) \<in> set ?runs. unobstructed demo_opts env) \<longrightarrow> ok)
    \<and> (ok \<longrightarrow> row_complete demo_absence_monitor w' \<and> (\<exists>h. jw_handled w' = jw_handled demo_jw @ h
         \<and> set h = {ev \<in> set (concat demo_pages). de_Ledger ev \<le> 50 \<and> de_ContractID ev \<in> set (mo_ContractIDs demo_absence_monitor)}))"
    by (rule interrupted_backfill_covers_the_range [where start = 5 and cur = demo_cur])
       (use pages in \<open>simp_all add: demo_setting demo_jw_def\<close>)
  then obtain w' where a: "attempts demo_opts ?runs demo_jw = Some (w', True)" "row_complete demo_absence_monitor w'"
    "\<exists>h. jw_handled w' = jw_handled demo_jw @ h
         \<and> set h = {ev \<in> set (concat demo_pages). de_Ledger ev \<le> 50 \<and> de_ContractID ev \<in> set (mo_ContractIDs demo_absence_monitor)}"
    using free by auto
  have filt: "filter (\<lambda>ev. de_Ledger ev \<le> 50 \<and> de_ContractID ev \<in> set (mo_ContractIDs demo_absence_monitor)) (concat demo_pages)
      = [demo_at ''e1'' ''C1'' 9, demo_at ''e2'' ''C1'' 20]" by code_simp
  have "{ev \<in> set (concat demo_pages). de_Ledger ev \<le> 50 \<and> de_ContractID ev \<in> set (mo_ContractIDs demo_absence_monitor)}
      = {demo_at ''e1'' ''C1'' 9, demo_at ''e2'' ''C1'' 20}" unfolding set_filter [symmetric] filt by simp
  moreover have "jw_handled demo_jw = []" by (simp add: demo_jw_def)
  ultimately show ?thesis using a by auto
qed

lemma demo_replay:
  "map_option (\<lambda>(w, res, err). (map ar_EventID (db_alerts (jw_world w)), br_Events res, err)) (Run (demo_job False) demo_opts 5 demo_jw)
     = Some ([''e1'', ''e2''], 2, None)"
  by code_simp

theorem backfill_notifies_nobody_witness:
  "\<exists>w' res. Run (demo_job False) demo_opts 5 demo_jw = Some (w', res, None) \<and> pw_dispatched (jw_world w') = [] \<and> br_Alerts res = 2
     \<and> map ar_EventID (db_alerts (jw_world w')) = [''e1'', ''e2''] \<and> list_all ar_Backfilled (db_alerts (jw_world w'))"
proof -
  note claim = backfill_notifies_nobody [of "demo_job False" demo_opts 5 demo_jw demo_absence_monitor 5 50 demo_pages demo_cur 0]
  have "row_at demo_absence_monitor 5 demo_pages demo_cur demo_jw 0" "length demo_pages \<le> 5"
    by (simp_all add: row_at_def demo_pages_def demo_jw_def)
  then obtain w' res err where r: "Run (demo_job False) demo_opts 5 demo_jw = Some (w', res, err)"
    using claim [THEN conjunct2] demo_setting by blast
  have d: "map ar_EventID (db_alerts (jw_world w')) = [''e1'', ''e2'']" "err = None" using demo_replay r by simp_all
  then have n: "length (db_alerts (jw_world w')) = 2" by (metis length_map list.size(3,4) One_nat_def Suc_1 add.right_neutral add_Suc_right)
  have "db_alerts (jw_world demo_jw) = []" "pw_dispatched (jw_world demo_jw) = []" by code_simp+
  then show ?thesis using r d n claim [THEN conjunct1, rule_format, OF r] by (auto simp: demo_opts_def)
qed

text \<open>
  A resumed run starts where the old one stopped, whatever range it is now asked for: here an interrupted replay of ledgers
  40 to 50 is followed by one of 5 to 50. The second reports that it replayed 5 to 50 and completes the row, but
  the event of ledger 9, which the source would have served, was never read.
\<close>

lemma resumed_run_ignores_its_range:
  "let row = \<lparr>bf_MonitorID = 3, bf_FromLedger = 40, bf_ToLedger = 50, bf_NextLedger = 40, bf_Cursor = '''', bf_Deliver = False, bf_Complete = False\<rparr>;
       source = (\<lambda>n start watch c size. Inr \<lparr>fp_Events = filter (\<lambda>e. start \<le> de_Ledger e) [demo_at ''e1'' ''C1'' 9, demo_at ''e2'' ''C1'' 45],
                    fp_LatestLedger = 100, fp_NextCursor = ''''\<rparr>) in
   map_option (\<lambda>(w, res, err). (map de_ID (jw_handled w), uint (br_FromLedger res), br_Resumed res, err))
     (Run ((demo_job False)\<lparr>je_fetch := source\<rparr>) demo_opts 5 (demo_jw\<lparr>jw_rows := [3 \<mapsto> row]\<rparr>))
   = Some ([''e2''], 5, True, None)"
  by code_simp

text \<open>
  The job takes the first event beyond its range as the end of the range. The RPC source reads the contracts of a long
  watch list in batches, each from the start ledger on, so an event of the first batch beyond the range ends the replay
  before the second batch was read: with 26 contracts the last one's event in ledger 9 is missed, and the run succeeds.
\<close>

definition many_contracts :: "string list" where
  "many_contracts = map (\<lambda>i. [CHR ''C'', char_of (65 + i)]) [0..<26]"

definition demo_batches :: get_events where
  "demo_batches req =
     Inr \<lparr>gr_Events = filter (\<lambda>e. \<exists>f \<in> set (rq_Filters req). re_ContractID e \<in> set (ef_ContractIDs f))
                       [(demo_raw ''e1'')\<lparr>re_ContractID := ''CA'', re_Ledger := 60\<rparr>, (demo_raw ''e2'')\<lparr>re_ContractID := ''CZ''\<rparr>],
          gr_LatestLedger = 100, gr_Cursor = ''''\<rparr>"

definition demo_wide_job :: "int job_env" where
  "demo_wide_job = (demo_job False)\<lparr>je_getMonitor := (\<lambda>i. Inr (demo_absence_monitor\<lparr>mo_ContractIDs := many_contracts\<rparr>)),
     je_fetch := (\<lambda>n start watch c size. FetchEvents demo_batches demo_decoder start watch c size)\<rparr>"

lemma backfill_misses_later_batches:
  "map_option (\<lambda>(w, res, err). (map de_ID (jw_handled w), err)) (Run demo_wide_job demo_opts 5 demo_jw) = Some ([], None)"
  "map_option (map de_ID) (read_pages (\<lambda>c. FetchEvents demo_batches demo_decoder 5
     (WatchesFor (\<lambda>r. None) (\<lambda>c. True) (\<lambda>n. None) [demo_rule] many_contracts) c 0) 5 '''') = Some [''e1'', ''e2'']"
  by code_simp+

end
