(* ===== verification/Event_Values.thy ===== *)
theory Event_Values
  imports Stellar_Event Composite_Rule Text_Codec "HOL-Library.AList"
begin

text \<open>
  What rule parameters and decoded values are read with: \<open>internal/stellar/values.go\<close>, and the parts of
  \<open>encoding/json\<close>, \<open>math/big\<close> and \<open>strconv\<close> the evaluators use. A params blob is its text; \<open>jc_parse\<close> is the JSON tree
  of a text, \<open>None\<close> when it is not JSON, and the other fields of \<open>json_codec\<close> are the float conversions of the Go
  library and \<open>json.Marshal\<close>. How a tree fills the fields of a params struct is \<open>json_field\<close>: keys match without
  regard to case, a later key overwrites an earlier one, \<open>null\<close> leaves a plain field alone and a value of another
  type is an error. A message that wraps an error of another package keeps its own words only. Text is a list
  of bytes; case folding and white space are those of ASCII.
\<close>

datatype jval =
    JNull
  | JBool bool
  | JNum string
  | JStr string
  | JArr "jval list"
  | JObj "(string \<times> jval) list"

datatype bigfloat = BNegInf | BFin rat | BPosInf

record json_codec =
  jc_parse :: "string \<Rightarrow> jval option"
  jc_float64 :: "string \<Rightarrow> rat option"
  jc_FormatFloat :: "rat \<Rightarrow> string"
  jc_ParseFloat :: "string \<Rightarrow> bigfloat option"
  jc_Marshal :: "gvalue \<Rightarrow> string"
  jc_int64 :: "rat \<Rightarrow> int"

text \<open>Go walks a map in an order of its own, another one each time.\<close>

type_synonym map_order = "(string \<times> gvalue) list \<Rightarrow> (string \<times> gvalue) list"

definition in_order :: "map_order \<Rightarrow> (string \<times> gvalue) list \<Rightarrow> (string \<times> gvalue) list" where
  "in_order rg m = (if mset (rg m) = mset m then rg m else m)"

text \<open>How a call ends: with a value, with an error, or with a run-time panic.\<close>

datatype 'a outcome = Returns 'a | Fails verr | Panics

fun bind_outcome :: "'a outcome \<Rightarrow> ('a \<Rightarrow> 'b outcome) \<Rightarrow> 'b outcome" where
  "bind_outcome (Returns x) k = k x"
| "bind_outcome (Fails e) k = Fails e"
| "bind_outcome Panics k = Panics"

fun returns :: "'a outcome \<Rightarrow> bool" where
  "returns (Returns x) = True"
| "returns (Fails e) = False"
| "returns Panics = False"

lemma returns_iff: "returns m \<longleftrightarrow> (\<exists>x. m = Returns x)"
  by (cases m) auto

lemma bind_outcome_ReturnsE [elim!]:
  "bind_outcome m k = Returns y \<Longrightarrow> (\<And>x. m = Returns x \<Longrightarrow> k x = Returns y \<Longrightarrow> P) \<Longrightarrow> P"
  by (cases m) auto

subsection \<open>Reading a params struct\<close>

definition json_object :: "json_codec \<Rightarrow> string \<Rightarrow> (string \<times> jval) list option" where
  "json_object jc params =
     (case jc_parse jc params of Some JNull \<Rightarrow> Some [] | Some (JObj m) \<Rightarrow> Some m | _ \<Rightarrow> None)"

fun json_field :: "string \<Rightarrow> ('a \<Rightarrow> jval \<Rightarrow> 'a option) \<Rightarrow> 'a \<Rightarrow> (string \<times> jval) list \<Rightarrow> 'a option" where
  "json_field name conv a [] = Some a"
| "json_field name conv a ((k, v) # m) =
     (if to_lower k = name
      then case conv a v of None \<Rightarrow> None | Some a' \<Rightarrow> json_field name conv a' m
      else json_field name conv a m)"

fun into_string :: "string \<Rightarrow> jval \<Rightarrow> string option" where
  "into_string a JNull = Some a"
| "into_string a (JStr s) = Some s"
| "into_string a v = None"

fun into_bool :: "bool \<Rightarrow> jval \<Rightarrow> bool option" where
  "into_bool a JNull = Some a"
| "into_bool a (JBool b) = Some b"
| "into_bool a v = None"

fun into_bool_ptr :: "bool option \<Rightarrow> jval \<Rightarrow> bool option option" where
  "into_bool_ptr a JNull = Some None"
| "into_bool_ptr a (JBool b) = Some (Some b)"
| "into_bool_ptr a v = None"

fun into_int :: "int \<Rightarrow> jval \<Rightarrow> int option" where
  "into_int a JNull = Some a"
| "into_int a (JNum s) = Atoi s"
| "into_int a v = None"

fun into_int_ptr :: "int option \<Rightarrow> jval \<Rightarrow> int option option" where
  "into_int_ptr a JNull = Some None"
| "into_int_ptr a (JNum s) = map_option Some (Atoi s)"
| "into_int_ptr a v = None"

definition into_raw :: "jval option \<Rightarrow> jval \<Rightarrow> jval option option" where
  "into_raw a v = Some (Some v)"

fun into_strings :: "string list option \<Rightarrow> jval \<Rightarrow> string list option option" where
  "into_strings a JNull = Some None"
| "into_strings a (JArr vs) = map_option Some (those (map (into_string '''') vs))"
| "into_strings a v = None"

text \<open>\<open>any_of\<close> decodes into an \<open>any\<close>; with \<open>UseNumber\<close> a number keeps its text.\<close>

fun any_of :: "json_codec \<Rightarrow> bool \<Rightarrow> jval \<Rightarrow> gvalue option" where
  "any_of jc useNumber JNull = Some GNil"
| "any_of jc useNumber (JBool b) = Some (GBool b)"
| "any_of jc useNumber (JNum s) = (if useNumber then Some (GNum s) else map_option GFloat (jc_float64 jc s))"
| "any_of jc useNumber (JStr s) = Some (GStr s)"
| "any_of jc useNumber (JArr vs) = map_option GList (those (map (any_of jc useNumber) vs))"
| "any_of jc useNumber (JObj m) =
     map_option (\<lambda>vs. GMap (rev (zip (map fst m) vs))) (those (map (\<lambda>(k, v). any_of jc useNumber v) m))"

fun into_any_map :: "json_codec \<Rightarrow> (string \<times> gvalue) list \<Rightarrow> jval \<Rightarrow> (string \<times> gvalue) list option" where
  "into_any_map jc a JNull = Some []"
| "into_any_map jc a (JObj m) =
     map_option (\<lambda>vs. fold (\<lambda>(k, v). AList.update k v) (zip (map fst m) vs) a) (those (map (\<lambda>(k, v). any_of jc False v) m))"
| "into_any_map jc a v = None"

subsection \<open>Numbers\<close>

text \<open>\<open>SetString\<close> is \<open>big.Int.SetString\<close> in base 10, \<open>f_trunc\<close> is \<open>math.Trunc\<close>; \<open>int64(f)\<close> is the machine's choice out of range.\<close>

definition SetString :: "string \<Rightarrow> int option" where
  "SetString s =
     (let neg = (case s of c # r \<Rightarrow> c = CHR ''-'' | [] \<Rightarrow> False);
          ds = (case s of c # r \<Rightarrow> if c = CHR ''-'' \<or> c = CHR ''+'' then r else s | [] \<Rightarrow> s)
      in if ds = [] \<or> \<not> list_all is_digit ds then None
         else Some (if neg then - int (digits_val ds) else int (digits_val ds)))"

definition f_trunc :: "rat \<Rightarrow> int" where
  "f_trunc r = (if r < 0 then - \<lfloor>- r\<rfloor> else \<lfloor>r\<rfloor>)"

definition int64_of :: "json_codec \<Rightarrow> rat \<Rightarrow> int" where
  "int64_of jc r = (if min_i64 \<le> f_trunc r \<and> f_trunc r \<le> max_i64 then f_trunc r else jc_int64 jc r)"

fun bf_less :: "bigfloat \<Rightarrow> bigfloat \<Rightarrow> bool" where
  "bf_less (BFin a) (BFin b) = (a < b)"
| "bf_less BNegInf b = (b \<noteq> BNegInf)"
| "bf_less a BPosInf = (a \<noteq> BPosInf)"
| "bf_less a b = False"

definition bf_Cmp :: "bigfloat \<Rightarrow> bigfloat \<Rightarrow> int" where
  "bf_Cmp a b = (if bf_less a b then -1 else if bf_less b a then 1 else 0)"

subsection \<open>Decoded values\<close>

text \<open>\<open>base64.StdEncoding\<close>: the other two characters of the alphabet, and padding.\<close>

definition std_encode :: "string \<Rightarrow> string" where
  "std_encode s =
     map (\<lambda>n. if n = 62 then CHR ''+'' else if n = 63 then CHR ''/'' else b64_char n) (b64_sextets (map of_char s)) @
     replicate ((3 - length s mod 3) mod 3) (CHR ''='')"

fun Canon :: "json_codec \<Rightarrow> gvalue \<Rightarrow> string" where
  "Canon jc GNil = ''''"
| "Canon jc (GStr s) = s"
| "Canon jc (GBool b) = (if b then ''true'' else ''false'')"
| "Canon jc (GInt n) = fmt_d n"
| "Canon jc (GBytes b) = std_encode b"
| "Canon jc (GNum s) = s"
| "Canon jc (GFloat f) = jc_FormatFloat jc f"
| "Canon jc v = jc_Marshal jc v"

fun ToBigFloat :: "json_codec \<Rightarrow> gvalue \<Rightarrow> bigfloat option" where
  "ToBigFloat jc (GInt n) = Some (BFin (of_int n))"
| "ToBigFloat jc (GFloat f) = Some (BFin f)"
| "ToBigFloat jc (GNum s) = jc_ParseFloat jc s"
| "ToBigFloat jc (GStr s) = jc_ParseFloat jc (trim_space s)"
| "ToBigFloat jc v = None"

fun split_on :: "char \<Rightarrow> string \<Rightarrow> string list" where
  "split_on c [] = [[]]"
| "split_on c (x # xs) =
     (if x = c then [] # split_on c xs
      else case split_on c xs of w # ws \<Rightarrow> (x # w) # ws | [] \<Rightarrow> [[x]])"

fun lookup_parts :: "gvalue \<Rightarrow> string list \<Rightarrow> gvalue option" where
  "lookup_parts cur [] = Some cur"
| "lookup_parts cur (part # parts) =
     (case cur of
        GMap t \<Rightarrow> (case map_of t part of None \<Rightarrow> None | Some nxt \<Rightarrow> lookup_parts nxt parts)
      | GList t \<Rightarrow>
          (case Atoi part of
             None \<Rightarrow> None
           | Some i \<Rightarrow> if i < 0 \<or> int (length t) \<le> i then None else lookup_parts (t ! nat i) parts)
      | _ \<Rightarrow> None)"

definition Lookup :: "gvalue \<Rightarrow> string \<Rightarrow> gvalue option" where
  "Lookup v path = (if path = '''' then Some v else lookup_parts v (split_on (CHR ''.'') path))"

end
