(* ===== verification/Path_Match.thy ===== *)
theory Path_Match
  imports Beacon_Prelude
begin

text \<open>
  \<open>path.Match\<close> of the Go library on one-byte characters, which \<open>event_name_glob\<close> matches event names with. A pattern
  is cut into chunks at its stars (\<open>scanChunk\<close>) and a chunk into tokens, each of which stands for one character;
  \<open>None\<close> is \<open>ErrBadPattern\<close>. \<open>path_Match\<close> takes the first place where a chunk fits and never goes back.

  The reference is \<open>denotes\<close>, the meaning of a pattern as a language, with every way to expand a star. On names without
  a slash the two agree, and whether a pattern is malformed does not depend on the name.
\<close>

datatype glob_token = Lit char | AnyChar | CharClass bool "(char \<times> char) list"

fun token_fits :: "glob_token \<Rightarrow> char \<Rightarrow> bool" where
  "token_fits (Lit c) x = (c = x)"
| "token_fits AnyChar x = (x \<noteq> CHR ''/'')"
| "token_fits (CharClass negated ranges) x =
     (list_ex (\<lambda>(lo, hi). (of_char lo :: nat) \<le> of_char x \<and> (of_char x :: nat) \<le> of_char hi) ranges \<noteq> negated)"

definition getEsc :: "string \<Rightarrow> (char \<times> string) option" where
  "getEsc chunk =
     (case chunk of
        [] \<Rightarrow> None
      | c # cs \<Rightarrow>
          if c = CHR ''-'' \<or> c = CHR '']'' then None
          else if c = CHR 0x5C
          then (case cs of [] \<Rightarrow> None | d # ds \<Rightarrow> if ds = [] then None else Some (d, ds))
          else if cs = [] then None else Some (c, cs))"

lemma getEsc_shorter: "getEsc chunk = Some (r, rest) \<Longrightarrow> length rest < length chunk"
  by (auto simp: getEsc_def split: list.splits if_splits)

definition class_range :: "string \<Rightarrow> ((char \<times> char) \<times> string) option" where
  "class_range chunk =
     (case getEsc chunk of
        None \<Rightarrow> None
      | Some (lo, rest) \<Rightarrow>
          if hd rest = CHR ''-''
          then (case getEsc (tl rest) of None \<Rightarrow> None | Some (hi, rest') \<Rightarrow> Some ((lo, hi), rest'))
          else Some ((lo, lo), rest))"

lemma class_range_shorter: "class_range chunk = Some (r, rest) \<Longrightarrow> length rest < length chunk"
  by (fastforce simp: class_range_def split: option.splits prod.splits if_splits dest!: getEsc_shorter)

function class_ranges :: "(char \<times> char) list \<Rightarrow> string \<Rightarrow> ((char \<times> char) list \<times> string) option" where
  "class_ranges rs chunk =
     (if rs \<noteq> [] \<and> chunk \<noteq> [] \<and> hd chunk = CHR '']'' then Some (rs, tl chunk)
      else case class_range chunk of None \<Rightarrow> None | Some (r, rest) \<Rightarrow> class_ranges (rs @ [r]) rest)"
  by pat_completeness auto
termination
  by (relation "measure (length \<circ> snd)") (auto dest: class_range_shorter)

declare class_ranges.simps [simp del]

lemma class_ranges_shorter: "class_ranges rs chunk = Some (out, rest) \<Longrightarrow> length rest < length chunk"
proof (induction rs chunk rule: class_ranges.induct)
  case (1 rs chunk)
  show ?case
  proof (cases "rs \<noteq> [] \<and> chunk \<noteq> [] \<and> hd chunk = CHR '']''")
    case True
    then have "rest = tl chunk" "chunk \<noteq> []" using "1.prems" by (auto simp: class_ranges.simps)
    then show ?thesis by (cases chunk) auto
  next
    case False
    then obtain r cs where c: "class_range chunk = Some (r, cs)" "class_ranges (rs @ [r]) cs = Some (out, rest)"
      using "1.prems" by (subst (asm) class_ranges.simps) (auto split: if_splits option.splits)
    then have "length rest < length cs" using "1.IH" [OF False] by blast
    then show ?thesis using class_range_shorter [OF c(1)] by simp
  qed
qed

function chunk_tokens :: "string \<Rightarrow> glob_token list option" where
  "chunk_tokens [] = Some []"
| "chunk_tokens (c # cs) =
     (if c = CHR ''['' then
        (let negated = (cs \<noteq> [] \<and> hd cs = CHR ''^'') in
         case class_ranges [] (if negated then tl cs else cs) of
           None \<Rightarrow> None
         | Some (ranges, rest) \<Rightarrow> map_option (\<lambda>ts. CharClass negated ranges # ts) (chunk_tokens rest))
      else if c = CHR ''?'' then map_option (\<lambda>ts. AnyChar # ts) (chunk_tokens cs)
      else if c = CHR 0x5C
      then (case cs of [] \<Rightarrow> None | d # ds \<Rightarrow> map_option (\<lambda>ts. Lit d # ts) (chunk_tokens ds))
      else map_option (\<lambda>ts. Lit c # ts) (chunk_tokens cs))"
  by pat_completeness auto
termination
proof (relation "measure length", goal_cases)
  case (2 c cs negated x ranges rest)
  then have "length rest < length (if negated then tl cs else cs)" using class_ranges_shorter by metis
  moreover have "length (tl cs) \<le> length cs" by simp
  ultimately show ?case by (simp split: if_splits)
qed auto

declare chunk_tokens.simps(2) [simp del]

fun match_tokens :: "glob_token list \<Rightarrow> string \<Rightarrow> string option" where
  "match_tokens [] s = Some s"
| "match_tokens (t # ts) [] = None"
| "match_tokens (t # ts) (x # xs) = (if token_fits t x then match_tokens ts xs else None)"

definition matchChunk :: "string \<Rightarrow> string \<Rightarrow> string option option" where
  "matchChunk chunk s = map_option (\<lambda>ts. match_tokens ts s) (chunk_tokens chunk)"

fun scan_chunk :: "bool \<Rightarrow> string \<Rightarrow> string \<times> string" where
  "scan_chunk inrange [] = ([], [])"
| "scan_chunk inrange (c # cs) =
     (if c = CHR 0x5C
      then (case cs of [] \<Rightarrow> ([c], []) | d # ds \<Rightarrow> (case scan_chunk inrange ds of (a, b) \<Rightarrow> (c # d # a, b)))
      else if c = CHR ''*'' \<and> \<not> inrange then ([], c # cs)
      else (case scan_chunk (c = CHR ''['' \<or> inrange \<and> c \<noteq> CHR '']'') cs of (a, b) \<Rightarrow> (c # a, b)))"

definition scanChunk :: "string \<Rightarrow> bool \<times> string \<times> string" where
  "scanChunk pat = (let rest = dropWhile (\<lambda>c. c = CHR ''*'') pat in (rest \<noteq> pat, scan_chunk False rest))"

lemma scan_chunk_split: "scan_chunk b cs = (x, y) \<Longrightarrow> x @ y = cs"
proof (induction b cs arbitrary: x y rule: scan_chunk.induct)
  case (2 inrange c cs)
  then show ?case by (cases cs) (auto split: if_splits prod.splits)
qed simp

lemma scan_chunk_rest: "scan_chunk b cs = (x, y) \<Longrightarrow> y \<noteq> [] \<Longrightarrow> hd y = CHR ''*''"
proof (induction b cs arbitrary: x y rule: scan_chunk.induct)
  case (2 inrange c cs)
  then show ?case by (cases cs) (auto split: if_splits prod.splits)
qed simp

lemma scan_chunk_empty: "scan_chunk False cs = ([], y) \<Longrightarrow> cs = [] \<or> hd cs = CHR ''*''"
  by (cases cs) (auto split: if_splits list.splits prod.splits)

lemma hd_dropWhile_stars: "dropWhile (\<lambda>c. c = CHR ''*'') pat \<noteq> [] \<Longrightarrow> hd (dropWhile (\<lambda>c. c = CHR ''*'') pat) \<noteq> CHR ''*''"
  by (metis (mono_tags, lifting) hd_dropWhile)

lemma scanChunk_cases:
  assumes "scanChunk pat = (star, chunk, rest)"
  shows "chunk @ rest = dropWhile (\<lambda>c. c = CHR ''*'') pat" and "star \<longleftrightarrow> pat \<noteq> [] \<and> hd pat = CHR ''*''"
    and "rest \<noteq> [] \<Longrightarrow> hd rest = CHR ''*''" and "chunk = [] \<Longrightarrow> rest = []"
proof -
  let ?r = "dropWhile (\<lambda>c. c = CHR ''*'') pat"
  have s: "scan_chunk False ?r = (chunk, rest)" and st: "star = (?r \<noteq> pat)" using assms by (auto simp: scanChunk_def Let_def)
  show "chunk @ rest = ?r" by (rule scan_chunk_split [OF s])
  show "star \<longleftrightarrow> pat \<noteq> [] \<and> hd pat = CHR ''*''"
  proof (cases pat)
    case (Cons c cs)
    have "length (dropWhile (\<lambda>c. c = CHR ''*'') cs) \<le> length cs" by (rule length_dropWhile_le)
    then show ?thesis unfolding st Cons by (auto dest: arg_cong [where f = length])
  qed (simp add: st)
  show "rest \<noteq> [] \<Longrightarrow> hd rest = CHR ''*''" by (rule scan_chunk_rest [OF s])
  show "chunk = [] \<Longrightarrow> rest = []"
    using s scan_chunk_empty [of ?r rest] hd_dropWhile_stars [of pat] by fastforce
qed

lemma scanChunk_shorter:
  assumes "pat \<noteq> []" and s: "scanChunk pat = (star, chunk, rest)"
  shows "length rest < length pat"
proof (cases "chunk = []")
  case True
  then show ?thesis using scanChunk_cases(4) [OF s] assms(1) by simp
next
  case False
  then have "length rest < length (chunk @ rest)" by simp
  then show ?thesis using scanChunk_cases(1) [OF s] length_dropWhile_le [of "\<lambda>c. c = CHR ''*''" pat] by simp
qed

function check_rest :: "string \<Rightarrow> bool option" where
  "check_rest pat =
     (if pat = [] then Some False
      else case scanChunk pat of
             (star, chunk, rest) \<Rightarrow> (case matchChunk chunk [] of None \<Rightarrow> None | Some r \<Rightarrow> check_rest rest))"
  by pat_completeness auto
termination by (relation "measure length") (auto dest: scanChunk_shorter [OF _ sym])

fun skip_match :: "string \<Rightarrow> bool \<Rightarrow> string \<Rightarrow> string option option" where
  "skip_match chunk isLast [] = Some None"
| "skip_match chunk isLast (x # xs) =
     (if x = CHR ''/'' then Some None
      else case matchChunk chunk xs of
             None \<Rightarrow> None
           | Some None \<Rightarrow> skip_match chunk isLast xs
           | Some (Some t) \<Rightarrow> if isLast \<and> t \<noteq> [] then skip_match chunk isLast xs else Some (Some t))"

function path_Match :: "string \<Rightarrow> string \<Rightarrow> bool option" where
  "path_Match pat name =
     (if pat = [] then Some (name = [])
      else case scanChunk pat of
             (star, chunk, rest) \<Rightarrow>
               if star \<and> chunk = [] then Some (CHR ''/'' \<notin> set name)
               else case matchChunk chunk name of
                      None \<Rightarrow> None
                    | Some r \<Rightarrow>
                        if r \<noteq> None \<and> (r = Some [] \<or> rest \<noteq> []) then path_Match rest (the r)
                        else if star
                        then (case skip_match chunk (rest = []) name of
                                None \<Rightarrow> None
                              | Some None \<Rightarrow> check_rest rest
                              | Some (Some t) \<Rightarrow> path_Match rest t)
                        else check_rest rest)"
  by pat_completeness auto
termination by (relation "measure (\<lambda>(pat, name). length pat)") (auto dest: scanChunk_shorter [OF _ sym])

declare check_rest.simps [simp del] path_Match.simps [simp del]

subsection \<open>The language of a pattern\<close>

datatype glob_elem = Star | Tok glob_token

fun denotes :: "glob_elem list \<Rightarrow> string \<Rightarrow> bool" where
  "denotes [] s = (s = [])"
| "denotes (Tok t # es) [] = False"
| "denotes (Tok t # es) (x # xs) = (token_fits t x \<and> denotes es xs)"
| "denotes (Star # es) [] = denotes es []"
| "denotes (Star # es) (x # xs) = (denotes es (x # xs) \<or> x \<noteq> CHR ''/'' \<and> denotes (Star # es) xs)"

function glob_elems :: "string \<Rightarrow> glob_elem list option" where
  "glob_elems pat =
     (if pat = [] then Some []
      else case scanChunk pat of
             (star, chunk, rest) \<Rightarrow>
               (case (chunk_tokens chunk, glob_elems rest) of
                  (Some ts, Some es) \<Rightarrow> Some ((if star then [Star] else []) @ map Tok ts @ es)
                | _ \<Rightarrow> None))"
  by pat_completeness auto
termination by (relation "measure length") (auto dest: scanChunk_shorter [OF _ sym])

declare glob_elems.simps [simp del]

lemma path_Match_Nil [simp]: "path_Match [] name = Some (name = [])"
  by (simp add: path_Match.simps)

lemma glob_elems_Nil [simp]: "glob_elems [] = Some []"
  by (simp add: glob_elems.simps)

lemma glob_elems_chunk:
  "pat \<noteq> [] \<Longrightarrow> scanChunk pat = (star, chunk, rest) \<Longrightarrow>
   glob_elems pat =
     (case (chunk_tokens chunk, glob_elems rest) of
        (Some ts, Some es) \<Rightarrow> Some ((if star then [Star] else []) @ map Tok ts @ es) | _ \<Rightarrow> None)"
  by (subst glob_elems.simps) simp

lemma glob_elems_star: "glob_elems pat = Some es \<Longrightarrow> pat \<noteq> [] \<Longrightarrow> hd pat = CHR ''*'' \<Longrightarrow> \<exists>es'. es = Star # es'"
  by (cases "scanChunk pat")
     (use scanChunk_cases(2) [of pat] in \<open>force simp: glob_elems_chunk split: option.splits\<close>)

lemma denotes_tokens:
  "denotes (map Tok ts @ es) s = (case match_tokens ts s of None \<Rightarrow> False | Some t \<Rightarrow> denotes es t)"
  by (induction ts s rule: match_tokens.induct) auto

lemma match_tokens_set: "match_tokens ts s = Some t \<Longrightarrow> set t \<subseteq> set s"
  by (induction ts s rule: match_tokens.induct) (auto split: if_splits)

lemma match_tokens_drop: "match_tokens ts s = Some t \<Longrightarrow> length ts \<le> length s \<and> t = drop (length ts) s"
  by (induction ts s rule: match_tokens.induct) (auto split: if_splits)

lemma denotes_star_drop:
  "CHR ''/'' \<notin> set s \<Longrightarrow> denotes (Star # es) s \<longleftrightarrow> (\<exists>i \<le> length s. denotes es (drop i s))"
proof (induction s)
  case (Cons x xs)
  have "(\<exists>i \<le> Suc (length xs). P i) \<longleftrightarrow> P 0 \<or> (\<exists>i \<le> length xs. P (Suc i))" for P :: "nat \<Rightarrow> bool"
    by (metis Suc_le_mono le0 not0_implies_Suc)
  then show ?case using Cons by auto
qed simp

lemma denotes_star_mono:
  assumes "CHR ''/'' \<notin> set s" and "denotes (Star # es) (drop n s)" shows "denotes (Star # es) s"
proof -
  have "CHR ''/'' \<notin> set (drop n s)" using assms(1) by (meson in_set_dropD)
  then obtain i where "i \<le> length (drop n s)" "denotes es (drop i (drop n s))" using assms(2) denotes_star_drop by blast
  then show ?thesis unfolding denotes_star_drop [OF assms(1)]
    by (intro exI [of _ "min (length s) (i + n)"]) (auto simp: min_def drop_all)
qed

lemma check_rest_elems: "check_rest pat = map_option (\<lambda>es. False) (glob_elems pat)"
proof (induction pat rule: check_rest.induct)
  case (1 pat)
  show ?case
  proof (cases "pat = []")
    case False
    obtain star chunk rest where s: "scanChunk pat = (star, chunk, rest)" by (cases "scanChunk pat") auto
    show ?thesis
    proof (cases "chunk_tokens chunk")
      case (Some ts)
      then have "check_rest rest = map_option (\<lambda>es. False) (glob_elems rest)"
        using "1.IH" [OF False s [symmetric]] by (simp add: matchChunk_def)
      then show ?thesis using False s Some
        by (subst check_rest.simps) (simp add: matchChunk_def glob_elems_chunk split: option.splits)
    qed (use False s in \<open>simp add: check_rest.simps matchChunk_def glob_elems_chunk\<close>)
  qed (simp add: check_rest.simps)
qed

text \<open>
  The inner loop of a star takes the first place where the chunk fits. What follows the chunk is the end of the pattern
  or another star, which can take what an earlier place leaves over.
\<close>

definition after_first :: "glob_elem list \<Rightarrow> string \<Rightarrow> bool" where
  "after_first es name = (case name of [] \<Rightarrow> False | x # xs \<Rightarrow> denotes (Star # es) xs)"

lemma after_first_Cons:
  "CHR ''/'' \<notin> set xs \<Longrightarrow> after_first es (x # xs) \<longleftrightarrow> denotes es xs \<or> after_first es xs"
  by (cases xs) (auto simp: after_first_def)

lemma first_fit_is_enough:
  assumes t: "match_tokens ts s = Some t" and s: "CHR ''/'' \<notin> set s" and "denotes (Star # map Tok ts @ Star # es) s"
  shows "denotes (Star # es) t"
proof -
  obtain i where "denotes (map Tok ts @ Star # es) (drop i s)" using assms(3) denotes_star_drop [OF s] by blast
  then obtain u where u: "match_tokens ts (drop i s) = Some u" "denotes (Star # es) u"
    by (auto simp: denotes_tokens split: option.splits)
  have "u = drop i t" using match_tokens_drop [OF u(1)] match_tokens_drop [OF t] by (simp add: add.commute)
  moreover have "CHR ''/'' \<notin> set t" using match_tokens_set [OF t] s by blast
  ultimately show ?thesis using u(2) denotes_star_mono by blast
qed

lemma skip_match_denotes:
  assumes ts: "chunk_tokens chunk = Some ts" and es: "if isLast then es = [] else \<exists>es'. es = Star # es'"
  shows "CHR ''/'' \<notin> set name \<Longrightarrow>
    \<exists>r. skip_match chunk isLast name = Some r \<and>
        after_first (map Tok ts @ es) name = (case r of None \<Rightarrow> False | Some t \<Rightarrow> denotes es t)"
proof (induction name)
  case (Cons x xs)
  then obtain r where r: "skip_match chunk isLast xs = Some r"
      "after_first (map Tok ts @ es) xs = (case r of None \<Rightarrow> False | Some t \<Rightarrow> denotes es t)" by auto
  note step = after_first_Cons [of xs "map Tok ts @ es" x] denotes_tokens [of ts es xs]
  show ?case
  proof (cases "match_tokens ts xs")
    case None
    then show ?thesis using Cons.prems r step ts by (auto simp: matchChunk_def)
  next
    case (Some t)
    show ?thesis
    proof (cases isLast)
      case True
      then show ?thesis using Cons.prems r step ts es Some by (auto simp: matchChunk_def)
    next
      case False
      then obtain es' where es': "es = Star # es'" using es by auto
      have "after_first (map Tok ts @ es) xs \<Longrightarrow> denotes (Star # map Tok ts @ es) xs"
        using Cons.prems by (cases xs) (auto simp: after_first_def)
      then have "after_first (map Tok ts @ es) xs \<Longrightarrow> denotes es t"
        using first_fit_is_enough [OF Some] Cons.prems es' by simp
      then show ?thesis using Cons.prems step ts Some False by (auto simp: matchChunk_def)
    qed
  qed
qed (simp add: after_first_def)

lemma denotes_star_after_first:
  "CHR ''/'' \<notin> set s \<Longrightarrow> denotes (Star # es) s \<longleftrightarrow> denotes es s \<or> after_first es s"
  by (cases s) (auto simp: after_first_def)

lemma denotes_after_fit:
  assumes t: "match_tokens ts s = Some t" "CHR ''/'' \<notin> set s" and es: "es = [] \<and> t = [] \<or> (\<exists>es'. es = Star # es')"
  shows "denotes (Star # map Tok ts @ es) s = denotes es t"
proof
  assume d: "denotes (Star # map Tok ts @ es) s"
  show "denotes es t" using es first_fit_is_enough [OF t] d by auto
next
  assume "denotes es t"
  then have "denotes (map Tok ts @ es) s" using t by (simp add: denotes_tokens)
  then show "denotes (Star # map Tok ts @ es) s" by (cases s) auto
qed

lemma skip_match_set:
  "chunk_tokens chunk = Some ts \<Longrightarrow> \<exists>r. skip_match chunk isLast name = Some r \<and> (\<forall>t. r = Some t \<longrightarrow> set t \<subseteq> set name)"
proof (induction name)
  case (Cons x xs)
  then obtain r where "skip_match chunk isLast xs = Some r" "\<forall>t. r = Some t \<longrightarrow> set t \<subseteq> set xs" by blast
  then show ?case using Cons.prems match_tokens_set [of ts xs] by (fastforce simp: matchChunk_def split: option.splits)
qed simp

theorem path_Match_denotes:
  "CHR ''/'' \<notin> set name \<Longrightarrow> path_Match pat name = map_option (\<lambda>es. denotes es name) (glob_elems pat)"
proof (induction pat arbitrary: name rule: length_induct)
  case (1 pat)
  show ?case
  proof (cases "pat = []")
    case False
    obtain star chunk rest where s: "scanChunk pat = (star, chunk, rest)" by (cases "scanChunk pat") auto
    note sc = scanChunk_cases [OF s] and unf = path_Match.simps [of pat name] glob_elems_chunk [OF False s] s matchChunk_def check_rest_elems
    have ih: "path_Match rest t = map_option (\<lambda>es. denotes es t) (glob_elems rest)" if "set t \<subseteq> set name" for t
      using 1 scanChunk_shorter [OF False s] that by blast
    consider "star \<and> chunk = []" | "chunk_tokens chunk = None" | ts where "chunk_tokens chunk = Some ts" "glob_elems rest = None"
      | ts es where "\<not> (star \<and> chunk = [])" "chunk_tokens chunk = Some ts" "glob_elems rest = Some es" by fastforce
    then show ?thesis
    proof cases
      case 1
      have "denotes [Star] name" using \<open>CHR ''/'' \<notin> set name\<close> denotes_star_drop [of name "[]"] by auto
      then show ?thesis using 1 False sc(4) \<open>CHR ''/'' \<notin> set name\<close> by (simp add: unf)
    next
      case 2
      then show ?thesis using False by (auto simp: unf)
    next
      case (3 ts)
      then have "\<not> (star \<and> chunk = [])" using sc(4) by auto
      then show ?thesis using False 3 skip_match_set [OF 3(1), of "rest = []" name] match_tokens_set [of ts name]
        by (auto simp: unf ih split: option.splits)
    next
      case (4 ts es)
      note nostar = 4(1) and 3 = 4(2,3)
      have tail: "if rest = [] then es = [] else \<exists>es'. es = Star # es'" using 3(2) glob_elems_star sc(3) by auto
      obtain r where r: "skip_match chunk (rest = []) name = Some r" "\<forall>t. r = Some t \<longrightarrow> set t \<subseteq> set name"
          "after_first (map Tok ts @ es) name = (case r of None \<Rightarrow> False | Some t \<Rightarrow> denotes es t)"
        using skip_match_denotes [OF 3(1) tail \<open>CHR ''/'' \<notin> set name\<close>] skip_match_set [OF 3(1), of "rest = []" name] by auto
      show ?thesis
      proof (cases "\<exists>t. match_tokens ts name = Some t \<and> (t = [] \<or> rest \<noteq> [])")
        case True
        then obtain t where t: "match_tokens ts name = Some t" "t = [] \<or> rest \<noteq> []" by blast
        have "denotes (Star # map Tok ts @ es) name = denotes es t"
          by (rule denotes_after_fit [OF t(1) \<open>CHR ''/'' \<notin> set name\<close>]) (use t(2) tail in \<open>auto split: if_splits\<close>)
        then show ?thesis using False 3 t nostar ih [OF match_tokens_set [OF t(1)]] by (simp add: unf denotes_tokens)
      next
        case no: False
        then have "\<not> denotes (map Tok ts @ es) name" using tail by (auto simp: denotes_tokens split: option.splits)
        then have "denotes (Star # map Tok ts @ es) name = (case r of None \<Rightarrow> False | Some t \<Rightarrow> denotes es t)"
          using r(3) denotes_star_after_first [OF \<open>CHR ''/'' \<notin> set name\<close>] by simp
        then show ?thesis using False 3 no nostar ih r(1,2) \<open>\<not> denotes (map Tok ts @ es) name\<close>
          by (auto simp: unf split: option.splits)
      qed
    qed
  qed (simp add: path_Match.simps)
qed

theorem path_Match_malformed: "path_Match pat name = None \<longleftrightarrow> glob_elems pat = None"
proof (induction pat arbitrary: name rule: length_induct)
  case (1 pat)
  show ?case
  proof (cases "pat = []")
    case False
    obtain star chunk rest where s: "scanChunk pat = (star, chunk, rest)" by (cases "scanChunk pat") auto
    note unf = path_Match.simps [of pat name] glob_elems_chunk [OF False s] s matchChunk_def check_rest_elems
    have ih: "path_Match rest t = None \<longleftrightarrow> glob_elems rest = None" for t
      using 1 scanChunk_shorter [OF False s] by blast
    then have ih': "(\<exists>y. path_Match rest t = Some y) \<longleftrightarrow> (\<exists>y. glob_elems rest = Some y)" for t by (metis not_None_eq)
    show ?thesis
    proof (cases "chunk_tokens chunk")
      case (Some ts)
      then show ?thesis using False scanChunk_cases(4) [OF s] skip_match_set [OF Some, of "rest = []" name]
        by (auto simp: unf ih ih' split: option.splits)
    qed (use False in \<open>auto simp: unf\<close>)
  qed (simp add: path_Match.simps)
qed

end
