(* ===== verification/Rule_Evaluators.thy ===== *)
theory Rule_Evaluators
  imports Event_Values Path_Match
begin

text \<open>
  The evaluators of \<open>internal/rules\<close> that keep no state: \<open>event_emitted\<close>, \<open>value_threshold\<close>, \<open>numeric_range\<close>,
  \<open>event_name_glob\<close>, \<open>topic_position\<close>, \<open>token_event\<close>, \<open>self_transfer\<close>, \<open>token_supply_change\<close> and \<open>time_window\<close>. Each has
  its params record, its \<open>Validate\<close>, \<open>Evaluate\<close> and, where the code has them, \<open>EventNames\<close> and \<open>Explain\<close>.

  An explanation is its verdict and the conditions with their outcome; the texts beside them are not modelled. The
  text of a raw JSON bound is left out of the messages that quote it.
\<close>

definition details_result :: "FieldError list \<Rightarrow> unit outcome" where
  "details_result details = (if details = [] then Returns () else Fails (VFields details))"

definition field_error :: "string \<Rightarrow> string \<Rightarrow> FieldError" where
  "field_error f r = \<lparr>fe_Field = f, fe_Reason = r\<rparr>"

definition note_if :: "bool \<Rightarrow> string \<Rightarrow> string \<Rightarrow> FieldError list" where
  "note_if bad f r = (if bad then [field_error f r] else [])"

definition parsed :: "string \<Rightarrow> 'a option \<Rightarrow> 'a outcome" where
  "parsed typ p = (case p of None \<Rightarrow> Fails (VPlain (typ @ '': invalid params'')) | Some x \<Rightarrow> Returns x)"

record ConditionExplanation =
  ce_Name :: string
  ce_Passed :: bool

record RuleExplanation =
  re_Matched :: bool
  re_Conditions :: "ConditionExplanation list"

definition condition :: "string \<Rightarrow> bool \<Rightarrow> ConditionExplanation" where
  "condition n ok = \<lparr>ce_Name = n, ce_Passed = ok\<rparr>"

subsection \<open>\<open>event_emitted\<close>\<close>

record eventEmittedParams =
  eep_EventName :: string
  eep_TopicEquals :: "(string \<times> gvalue) list"

definition parseEventEmitted :: "json_codec \<Rightarrow> string \<Rightarrow> eventEmittedParams outcome" where
  "parseEventEmitted jc params =
     parsed ''event_emitted''
       (case json_object jc params of
          None \<Rightarrow> None
        | Some m \<Rightarrow>
            (case json_field ''event_name'' into_string '''' m of
               None \<Rightarrow> None
             | Some name \<Rightarrow>
                 map_option (\<lambda>te. \<lparr>eep_EventName = name, eep_TopicEquals = te\<rparr>)
                   (json_field ''topic_equals'' (into_any_map jc) [] m)))"

definition EventEmitted_Validate :: "json_codec \<Rightarrow> map_order \<Rightarrow> string \<Rightarrow> unit outcome" where
  "EventEmitted_Validate jc rg params =
     bind_outcome (parseEventEmitted jc params) (\<lambda>p.
       details_result
         (note_if (eep_EventName p = '''' \<and> eep_TopicEquals p = []) ''event_name'' ''event_emitted: set event_name and/or topic_equals''
          @ concat (map (\<lambda>(k, v). note_if (Atoi k = None) (''topic_equals.'' @ k)
                             (''event_emitted: topic_equals key '' @ go_quote k @ '' is not a topic index''))
                        (in_order rg (eep_TopicEquals p)))))"

fun topics_equal :: "json_codec \<Rightarrow> gvalue list \<Rightarrow> (string \<times> gvalue) list \<Rightarrow> bool outcome" where
  "topics_equal jc topics [] = Returns True"
| "topics_equal jc topics ((key, expected) # rest) =
     (case Atoi key of
        None \<Rightarrow> Fails (VPlain (''event_emitted: topic_equals key '' @ go_quote key @ '' is not a topic index''))
      | Some idx \<Rightarrow>
          if idx < 0 \<or> int (length topics) \<le> idx then Returns False
          else if Canon jc (topics ! nat idx) \<noteq> Canon jc expected then Returns False
          else topics_equal jc topics rest)"

definition EventEmitted_Evaluate :: "json_codec \<Rightarrow> map_order \<Rightarrow> DecodedEvent \<Rightarrow> string \<Rightarrow> bool outcome" where
  "EventEmitted_Evaluate jc rg ev params =
     bind_outcome (parseEventEmitted jc params) (\<lambda>p.
       if eep_EventName p \<noteq> '''' \<and> EventName ev \<noteq> eep_EventName p then Returns False
       else topics_equal jc (de_Topics ev) (in_order rg (eep_TopicEquals p)))"

definition topic_condition :: "json_codec \<Rightarrow> gvalue list \<Rightarrow> string \<times> gvalue \<Rightarrow> ConditionExplanation" where
  "topic_condition jc topics kv =
     condition (''topic_equals.'' @ fst kv)
       (case Atoi (fst kv) of
          None \<Rightarrow> False
        | Some idx \<Rightarrow> \<not> (idx < 0 \<or> int (length topics) \<le> idx) \<and> Canon jc (topics ! nat idx) = Canon jc (snd kv))"

definition EventEmitted_Explain :: "json_codec \<Rightarrow> map_order \<Rightarrow> DecodedEvent \<Rightarrow> string \<Rightarrow> RuleExplanation outcome" where
  "EventEmitted_Explain jc rg ev params =
     bind_outcome (parseEventEmitted jc params) (\<lambda>p.
       let cs = (if eep_EventName p \<noteq> '''' then [condition ''event_name'' (EventName ev = eep_EventName p)] else [])
                @ map (topic_condition jc (de_Topics ev)) (in_order rg (eep_TopicEquals p))
       in Returns \<lparr>re_Matched = list_all ce_Passed cs, re_Conditions = cs\<rparr>)"

text \<open>\<open>EventNames\<close> answers \<open>None\<close> for \<open>ok\<close> false.\<close>

definition EventEmitted_EventNames :: "json_codec \<Rightarrow> string \<Rightarrow> string list option" where
  "EventEmitted_EventNames jc params =
     (case parseEventEmitted jc params of
        Returns p \<Rightarrow> if eep_EventName p = '''' then None else Some [eep_EventName p]
      | _ \<Rightarrow> None)"

subsection \<open>\<open>value_threshold\<close>\<close>

record valueThresholdParams =
  vtp_EventName :: string
  vtp_ValuePath :: string
  vtp_Comparison :: string
  vtp_Threshold :: "jval option"

definition comparisons :: "string \<Rightarrow> (int \<Rightarrow> bool) option" where
  "comparisons =
     map_of [(''gt'', \<lambda>c. c > 0), (''gte'', \<lambda>c. c \<ge> 0), (''lt'', \<lambda>c. c < 0), (''lte'', \<lambda>c. c \<le> 0),
             (''eq'', \<lambda>c. c = 0), (''neq'', \<lambda>c. c \<noteq> 0)]"

definition valueThresholdParams_of :: "(string \<times> jval) list \<Rightarrow> valueThresholdParams option" where
  "valueThresholdParams_of m =
     (case (json_field ''event_name'' into_string '''' m, json_field ''value_path'' into_string '''' m,
            json_field ''comparison'' into_string '''' m, json_field ''threshold'' into_raw None m) of
        (Some n, Some vp, Some c, Some t) \<Rightarrow>
          Some \<lparr>vtp_EventName = n, vtp_ValuePath = vp, vtp_Comparison = c, vtp_Threshold = t\<rparr>
      | _ \<Rightarrow> None)"

definition parseValueThreshold :: "json_codec \<Rightarrow> string \<Rightarrow> (valueThresholdParams \<times> bigfloat option) outcome" where
  "parseValueThreshold jc params =
     bind_outcome (parsed ''value_threshold'' (Option.bind (json_object jc params) valueThresholdParams_of)) (\<lambda>p.
       case vtp_Threshold p of
         None \<Rightarrow> Returns (p, None)
       | Some rw \<Rightarrow>
           (case any_of jc True rw of
              None \<Rightarrow> Fails (VPlain ''value_threshold: invalid threshold'')
            | Some v \<Rightarrow> Returns (p, ToBigFloat jc v)))"

definition ValueThreshold_Validate :: "json_codec \<Rightarrow> string \<Rightarrow> unit outcome" where
  "ValueThreshold_Validate jc params =
     bind_outcome (parseValueThreshold jc params) (\<lambda>(p, threshold).
       details_result
         (note_if (comparisons (vtp_Comparison p) = None) ''comparison''
            (''value_threshold: invalid comparison '' @ go_quote (vtp_Comparison p) @ '' (want gt|gte|lt|lte|eq|neq)'')
          @ note_if (threshold = None) ''threshold'' ''value_threshold: threshold must be a number (or a numeric string)''))"

text \<open>\<open>value_path\<close> addresses the named fields first and falls back to the raw value.\<close>

definition value_at :: "DecodedEvent \<Rightarrow> string \<Rightarrow> gvalue option" where
  "value_at ev path =
     (case (case de_Fields ev of None \<Rightarrow> None | Some fs \<Rightarrow> if path = '''' then None else Lookup fs path) of
        Some v \<Rightarrow> Some v
      | None \<Rightarrow> Lookup (de_Value ev) path)"

definition ValueThreshold_Evaluate :: "json_codec \<Rightarrow> DecodedEvent \<Rightarrow> string \<Rightarrow> bool outcome" where
  "ValueThreshold_Evaluate jc ev params =
     bind_outcome (parseValueThreshold jc params) (\<lambda>(p, threshold).
       case (comparisons (vtp_Comparison p), threshold) of
         (Some mtch, Some th) \<Rightarrow>
           if vtp_EventName p \<noteq> '''' \<and> EventName ev \<noteq> vtp_EventName p then Returns False
           else (case value_at ev (vtp_ValuePath p) of
                   None \<Rightarrow> Returns False
                 | Some rw \<Rightarrow>
                     (case ToBigFloat jc rw of
                        None \<Rightarrow> Returns False
                      | Some val \<Rightarrow> Returns (mtch (bf_Cmp val th))))
       | _ \<Rightarrow> Fails (VPlain (''value_threshold: invalid params: comparison='' @ go_quote (vtp_Comparison p))))"

definition ValueThreshold_Explain :: "json_codec \<Rightarrow> DecodedEvent \<Rightarrow> string \<Rightarrow> RuleExplanation outcome" where
  "ValueThreshold_Explain jc ev params =
     bind_outcome (parseValueThreshold jc params) (\<lambda>(p, threshold).
       let cs = (if vtp_EventName p \<noteq> '''' then [condition ''event_name'' (EventName ev = vtp_EventName p)] else [])
                @ (case value_at ev (vtp_ValuePath p) of
                     None \<Rightarrow> [condition ''value_path'' False]
                   | Some rw \<Rightarrow>
                       (case ToBigFloat jc rw of
                          None \<Rightarrow> [condition ''value_path'' False]
                        | Some val \<Rightarrow>
                            (case threshold of
                               None \<Rightarrow> []
                             | Some th \<Rightarrow>
                                 [condition ''value_threshold''
                                    (case comparisons (vtp_Comparison p) of None \<Rightarrow> False | Some mtch \<Rightarrow> mtch (bf_Cmp val th))])))
       in Returns \<lparr>re_Matched = list_all ce_Passed cs, re_Conditions = cs\<rparr>)"

definition ValueThreshold_EventNames :: "json_codec \<Rightarrow> string \<Rightarrow> string list option" where
  "ValueThreshold_EventNames jc params =
     (case parseValueThreshold jc params of
        Returns (p, th) \<Rightarrow> if vtp_EventName p = '''' then None else Some [vtp_EventName p]
      | _ \<Rightarrow> None)"

subsection \<open>\<open>numeric_range\<close>\<close>

record numericRangeParams =
  nrp_Min :: "jval option"
  nrp_Max :: "jval option"
  nrp_Inclusive :: "bool option"
  nrp_Outside :: bool
  nrp_EventName :: string
  nrp_ValuePath :: string

definition parseDecimalInt :: "string \<Rightarrow> int option" where
  "parseDecimalInt s = (if s = '''' then None else SetString s)"

fun boundToBigInt :: "json_codec \<Rightarrow> gvalue \<Rightarrow> int option" where
  "boundToBigInt jc (GStr s) = parseDecimalInt (trim_space s)"
| "boundToBigInt jc (GNum s) = parseDecimalInt (trim_space s)"
| "boundToBigInt jc (GInt n) = Some n"
| "boundToBigInt jc (GFloat f) = (if of_int (f_trunc f) \<noteq> f then None else Some (int64_of jc f))"
| "boundToBigInt jc v = None"

text \<open>A bound that is absent or \<open>null\<close> is \<open>None\<close>; one that is not an integer is \<open>Some None\<close>.\<close>

fun parseBound :: "json_codec \<Rightarrow> jval option \<Rightarrow> int option option" where
  "parseBound jc None = None"
| "parseBound jc (Some JNull) = None"
| "parseBound jc (Some v) = Some (Option.bind (any_of jc True v) (boundToBigInt jc))"

definition numericRangeParams_of :: "(string \<times> jval) list \<Rightarrow> numericRangeParams option" where
  "numericRangeParams_of m =
     (case (json_field ''min'' into_raw None m, json_field ''max'' into_raw None m,
            json_field ''inclusive'' into_bool_ptr None m, json_field ''outside'' into_bool False m,
            json_field ''event_name'' into_string '''' m, json_field ''value_path'' into_string '''' m) of
        (Some lo, Some hi, Some inc, Some out, Some n, Some vp) \<Rightarrow>
          Some \<lparr>nrp_Min = lo, nrp_Max = hi, nrp_Inclusive = inc, nrp_Outside = out, nrp_EventName = n, nrp_ValuePath = vp\<rparr>
      | _ \<Rightarrow> None)"

definition parseNumericRange ::
  "json_codec \<Rightarrow> string \<Rightarrow> (numericRangeParams \<times> int option option \<times> int option option) outcome" where
  "parseNumericRange jc params =
     bind_outcome (parsed ''numeric_range'' (Option.bind (json_object jc params) numericRangeParams_of)) (\<lambda>p.
       Returns (p, parseBound jc (nrp_Min p), parseBound jc (nrp_Max p)))"

definition min_above_max :: "int option option \<Rightarrow> int option option \<Rightarrow> bool" where
  "min_above_max lo hi = (case (lo, hi) of (Some (Some a), Some (Some b)) \<Rightarrow> b < a | _ \<Rightarrow> False)"

definition NumericRange_Validate :: "json_codec \<Rightarrow> string \<Rightarrow> unit outcome" where
  "NumericRange_Validate jc params =
     bind_outcome (parseNumericRange jc params) (\<lambda>(p, lo, hi).
       details_result
         (note_if (lo = Some None) ''min'' ''numeric_range: min is not a decimal integer''
          @ note_if (hi = Some None) ''max'' ''numeric_range: max is not a decimal integer''
          @ note_if (lo = None \<and> hi = None) ''min'' ''numeric_range: at least one of min or max is required''
          @ note_if (min_above_max lo hi) ''min'' ''numeric_range: min is greater than max''))"

definition integer_wrappers :: "string list" where
  "integer_wrappers = [''i128'', ''u128'', ''i256'', ''u256'', ''i64'', ''u64'', ''i32'', ''u32'']"

fun first_of :: "(string \<times> gvalue) list \<Rightarrow> string list \<Rightarrow> gvalue option" where
  "first_of t [] = None"
| "first_of t (key # keys) = (case map_of t key of Some inner \<Rightarrow> Some inner | None \<Rightarrow> first_of t keys)"

lemma first_of_in: "first_of t ks = Some v \<Longrightarrow> \<exists>k. (k, v) \<in> set t"
  by (induction t ks rule: first_of.induct) (auto split: option.splits dest: map_of_SomeD)

lemma size_first_of [termination_simp]:
  assumes "first_of t ks = Some v"
  shows "size v < Suc (size_list (\<lambda>x. Suc (size (snd x))) t)"
proof -
  obtain k where "(k, v) \<in> set t" using first_of_in [OF assms] by blast
  then have "Suc (size (snd (k, v))) \<le> size_list (\<lambda>x. Suc (size (snd x))) t"
    by (rule size_list_estimation') simp
  then show ?thesis by simp
qed

fun eventToBigInt :: "json_codec \<Rightarrow> gvalue \<Rightarrow> int option" where
  "eventToBigInt jc (GInt n) = Some n"
| "eventToBigInt jc (GStr s) = parseDecimalInt (trim_space s)"
| "eventToBigInt jc (GNum s) = parseDecimalInt (trim_space s)"
| "eventToBigInt jc (GFloat f) = (if of_int (f_trunc f) \<noteq> f then None else Some (int64_of jc f))"
| "eventToBigInt jc (GMap t) = (case first_of t integer_wrappers of Some inner \<Rightarrow> eventToBigInt jc inner | None \<Rightarrow> None)"
| "eventToBigInt jc v = None"

definition inRange :: "int \<Rightarrow> int option \<Rightarrow> int option \<Rightarrow> bool \<Rightarrow> bool" where
  "inRange val lo hi inclusive =
     ((case lo of None \<Rightarrow> True | Some a \<Rightarrow> \<not> (inclusive \<and> val < a \<or> \<not> inclusive \<and> val \<le> a)) \<and>
      (case hi of None \<Rightarrow> True | Some b \<Rightarrow> \<not> (inclusive \<and> val > b \<or> \<not> inclusive \<and> val \<ge> b)))"

definition NumericRange_Evaluate :: "json_codec \<Rightarrow> DecodedEvent \<Rightarrow> string \<Rightarrow> bool outcome" where
  "NumericRange_Evaluate jc ev params =
     bind_outcome (parseNumericRange jc params) (\<lambda>(p, lo, hi).
       if lo = Some None \<or> hi = Some None \<or> lo = None \<and> hi = None then Fails (VPlain ''numeric_range: invalid params'')
       else if min_above_max lo hi then Fails (VPlain ''numeric_range: invalid params: min is greater than max'')
       else if nrp_EventName p \<noteq> '''' \<and> EventName ev \<noteq> nrp_EventName p then Returns False
       else case value_at ev (nrp_ValuePath p) of
              None \<Rightarrow> Returns False
            | Some v \<Rightarrow>
                (case eventToBigInt jc v of
                   None \<Rightarrow> Returns False
                 | Some val \<Rightarrow>
                     let inclusive = (case nrp_Inclusive p of None \<Rightarrow> True | Some b \<Rightarrow> b);
                         inside = inRange val (Option.bind lo id) (Option.bind hi id) inclusive
                     in Returns (if nrp_Outside p then \<not> inside else inside)))"

subsection \<open>\<open>topic_position\<close>\<close>

record topicPositionParams =
  tpp_Position :: int
  tpp_Equals :: string
  tpp_Event :: string

definition topicPositionParams_of :: "(string \<times> jval) list \<Rightarrow> topicPositionParams option" where
  "topicPositionParams_of m =
     (case (json_field ''position'' into_int 0 m, json_field ''equals'' into_string '''' m,
            json_field ''event'' into_string '''' m) of
        (Some i, Some eq, Some e) \<Rightarrow> Some \<lparr>tpp_Position = i, tpp_Equals = eq, tpp_Event = e\<rparr>
      | _ \<Rightarrow> None)"

definition parseTopicPosition :: "json_codec \<Rightarrow> string \<Rightarrow> topicPositionParams outcome" where
  "parseTopicPosition jc params = parsed ''topic_position'' (Option.bind (json_object jc params) topicPositionParams_of)"

text \<open>Whether \<open>position\<close> is present is judged on the raw object, whose keys are compared exactly.\<close>

definition TopicPosition_Validate :: "json_codec \<Rightarrow> string \<Rightarrow> unit outcome" where
  "TopicPosition_Validate jc params =
     bind_outcome (parseTopicPosition jc params) (\<lambda>p.
       details_result
         (note_if (case json_object jc params of None \<Rightarrow> False | Some m \<Rightarrow> ''position'' \<notin> fst ` set m)
            ''position'' ''topic_position: position is required''
          @ note_if (tpp_Position p < 0) ''position'' (''topic_position: position '' @ fmt_d (tpp_Position p) @ '' is negative'')
          @ note_if (tpp_Equals p = '''') ''equals'' ''topic_position: equals is required''))"

definition topic_wrappers :: "string list" where
  "topic_wrappers = [''symbol'', ''string'', ''address'', ''i128'', ''u128'', ''i64'', ''u64'', ''i32'', ''u32'', ''u256'', ''i256'']"

fun first_string :: "(string \<times> gvalue) list \<Rightarrow> string list \<Rightarrow> string option" where
  "first_string t [] = None"
| "first_string t (key # keys) = (case map_of t key of Some (GStr s) \<Rightarrow> Some s | _ \<Rightarrow> first_string t keys)"

fun topicPositionString :: "json_codec \<Rightarrow> gvalue \<Rightarrow> string" where
  "topicPositionString jc (GStr v) = v"
| "topicPositionString jc (GInt v) = fmt_d v"
| "topicPositionString jc (GMap v) =
     (case first_string v topic_wrappers of Some s \<Rightarrow> s | None \<Rightarrow> Canon jc (GMap v))"
| "topicPositionString jc topic = Canon jc topic"

definition TopicPosition_Evaluate :: "json_codec \<Rightarrow> DecodedEvent \<Rightarrow> string \<Rightarrow> bool outcome" where
  "TopicPosition_Evaluate jc ev params =
     bind_outcome (parseTopicPosition jc params) (\<lambda>p.
       if tpp_Event p \<noteq> '''' \<and> EventName ev \<noteq> tpp_Event p then Returns False
       else if tpp_Position p < 0 \<or> int (length (de_Topics ev)) \<le> tpp_Position p then Returns False
       else Returns (topicPositionString jc (de_Topics ev ! nat (tpp_Position p)) = tpp_Equals p))"

definition TopicPosition_EventNames :: "json_codec \<Rightarrow> string \<Rightarrow> string list option" where
  "TopicPosition_EventNames jc params =
     (case parseTopicPosition jc params of
        Returns p \<Rightarrow> if tpp_Event p = '''' then None else Some [tpp_Event p]
      | _ \<Rightarrow> None)"

subsection \<open>\<open>event_name_glob\<close>\<close>

record eventNameGlobParams =
  egp_Patterns :: "string list option"

definition parseEventNameGlob :: "json_codec \<Rightarrow> string \<Rightarrow> eventNameGlobParams outcome" where
  "parseEventNameGlob jc params =
     parsed ''event_name_glob''
       (map_option (\<lambda>ps. \<lparr>egp_Patterns = ps\<rparr>)
          (Option.bind (json_object jc params) (json_field ''patterns'' into_strings None)))"

definition items :: "'a list option \<Rightarrow> 'a list" where
  "items xs = (case xs of None \<Rightarrow> [] | Some ys \<Rightarrow> ys)"

definition indexed :: "string \<Rightarrow> nat \<Rightarrow> string" where
  "indexed name i = name @ ''['' @ fmt_d (int i) @ '']''"

definition EventNameGlob_Validate :: "json_codec \<Rightarrow> string \<Rightarrow> unit outcome" where
  "EventNameGlob_Validate jc params =
     bind_outcome (parseEventNameGlob jc params) (\<lambda>p.
       details_result
         (note_if (items (egp_Patterns p) = []) ''patterns'' ''event_name_glob: patterns is required (a non-empty list of glob patterns)''
          @ concat (map (\<lambda>(i, pat). note_if (path_Match pat '''' = None) (indexed ''patterns'' i)
                             (''event_name_glob: '' @ indexed ''patterns'' i @ '' '' @ go_quote pat @ '' is malformed''))
                        (enumerate 0 (items (egp_Patterns p))))))"

fun any_pattern :: "string list \<Rightarrow> string \<Rightarrow> bool outcome" where
  "any_pattern [] name = Returns False"
| "any_pattern (pat # pats) name =
     (case path_Match pat name of
        None \<Rightarrow> Fails (VPlain (''event_name_glob: invalid pattern '' @ go_quote pat))
      | Some m \<Rightarrow> if m then Returns True else any_pattern pats name)"

definition EventNameGlob_Evaluate :: "json_codec \<Rightarrow> DecodedEvent \<Rightarrow> string \<Rightarrow> bool outcome" where
  "EventNameGlob_Evaluate jc ev params =
     bind_outcome (parseEventNameGlob jc params) (\<lambda>p.
       if items (egp_Patterns p) = [] then Fails (VPlain ''event_name_glob: patterns is required'')
       else if EventName ev = '''' then Returns False
       else any_pattern (items (egp_Patterns p)) (EventName ev))"

subsection \<open>\<open>token_event\<close>\<close>

record tokenEventParams =
  tep_Event :: string
  tep_From :: string
  tep_To :: string
  tep_MinAmount :: string
  tep_MaxAmount :: string

definition sep41Events :: "(string \<times> nat \<times> nat) list" where
  "sep41Events = [(''transfer'', 1, 2), (''mint'', 1, 2), (''burn'', 2, 1), (''clawback'', 2, 1), (''set_admin'', 1, 2)]"

definition tokenEventParams_of :: "(string \<times> jval) list \<Rightarrow> tokenEventParams option" where
  "tokenEventParams_of m =
     (case (json_field ''event'' into_string '''' m, json_field ''from'' into_string '''' m,
            json_field ''to'' into_string '''' m, json_field ''min_amount'' into_string '''' m,
            json_field ''max_amount'' into_string '''' m) of
        (Some e, Some f, Some t, Some lo, Some hi) \<Rightarrow>
          Some \<lparr>tep_Event = e, tep_From = f, tep_To = t, tep_MinAmount = lo, tep_MaxAmount = hi\<rparr>
      | _ \<Rightarrow> None)"

definition parseTokenEvent :: "json_codec \<Rightarrow> string \<Rightarrow> tokenEventParams outcome" where
  "parseTokenEvent jc params = parsed ''token_event'' (Option.bind (json_object jc params) tokenEventParams_of)"

definition not_decimal :: "string \<Rightarrow> bool" where
  "not_decimal s = (s \<noteq> '''' \<and> SetString s = None)"

definition TokenEvent_Validate :: "json_codec \<Rightarrow> string \<Rightarrow> unit outcome" where
  "TokenEvent_Validate jc params =
     bind_outcome (parseTokenEvent jc params) (\<lambda>p.
       details_result
         ((if tep_Event p = '''' then [field_error ''event'' ''token_event: event is required (transfer|mint|burn|clawback|set_admin|*)'']
           else note_if (tep_Event p \<noteq> ''*'' \<and> map_of sep41Events (tep_Event p) = None) ''event''
                  (''token_event: unknown event '' @ go_quote (tep_Event p) @ '' (want transfer|mint|burn|clawback|set_admin|*)''))
          @ note_if (not_decimal (tep_MinAmount p)) ''min_amount''
              (''token_event: min_amount '' @ go_quote (tep_MinAmount p) @ '' is not a decimal integer'')
          @ note_if (not_decimal (tep_MaxAmount p)) ''max_amount''
              (''token_event: max_amount '' @ go_quote (tep_MaxAmount p) @ '' is not a decimal integer'')
          @ note_if (tep_Event p = ''set_admin'' \<and> (tep_MinAmount p \<noteq> '''' \<or> tep_MaxAmount p \<noteq> '''')) ''min_amount''
              ''token_event: set_admin carries no amount; remove min_amount/max_amount''))"

definition addr :: "gvalue \<Rightarrow> string" where
  "addr topic =
     (case topic of
        GMap v \<Rightarrow> (case map_of v ''address'' of Some (GStr s) \<Rightarrow> s | _ \<Rightarrow> '''')
      | GStr v \<Rightarrow> v
      | _ \<Rightarrow> '''')"

definition amount :: "json_codec \<Rightarrow> gvalue \<Rightarrow> int option" where
  "amount jc v =
     (case v of
        GMap m \<Rightarrow> (case map_of m ''i128'' of Some (GStr s) \<Rightarrow> SetString s | Some (GFloat f) \<Rightarrow> Some (int64_of jc f) | _ \<Rightarrow> None)
      | _ \<Rightarrow> None)"

text \<open>\<open>parseBig\<close> is \<open>nil\<close> for text that is no integer, and \<open>Cmp\<close> with \<open>nil\<close> panics.\<close>

definition cmp_amount :: "(int \<Rightarrow> int \<Rightarrow> bool) \<Rightarrow> int \<Rightarrow> string \<Rightarrow> bool outcome" where
  "cmp_amount rel amt s = (if s = '''' then Returns True else case SetString s of None \<Rightarrow> Panics | Some n \<Rightarrow> Returns (rel amt n))"

definition amount_within :: "int \<Rightarrow> string \<Rightarrow> string \<Rightarrow> bool outcome" where
  "amount_within amt lo hi =
     bind_outcome (cmp_amount (\<ge>) amt lo) (\<lambda>ok. if \<not> ok then Returns False else cmp_amount (\<le>) amt hi)"

definition TokenEvent_Evaluate :: "json_codec \<Rightarrow> DecodedEvent \<Rightarrow> string \<Rightarrow> bool outcome" where
  "TokenEvent_Evaluate jc ev params =
     bind_outcome (parseTokenEvent jc params) (\<lambda>p.
       if length (de_Topics ev) < 3 then Returns False
       else let name = EventName ev in
            case map_of sep41Events name of
              None \<Rightarrow> Returns False
            | Some (s0, s1) \<Rightarrow>
                if tep_Event p \<noteq> ''*'' \<and> name \<noteq> tep_Event p then Returns False
                else if tep_From p \<noteq> '''' \<and> addr (de_Topics ev ! s0) \<noteq> tep_From p then Returns False
                else if tep_To p \<noteq> '''' \<and> addr (de_Topics ev ! s1) \<noteq> tep_To p then Returns False
                else if tep_MinAmount p = '''' \<and> tep_MaxAmount p = '''' then Returns True
                else case amount jc (de_Value ev) of
                       None \<Rightarrow> Returns False
                     | Some amt \<Rightarrow> amount_within amt (tep_MinAmount p) (tep_MaxAmount p))"

text \<open>
  In \<open>Explain\<close> a name outside the table leaves both slots at Go's zero value, and an index beyond the topics panics.
\<close>

definition slot_condition :: "string \<Rightarrow> gvalue list \<Rightarrow> nat \<Rightarrow> string \<Rightarrow> ConditionExplanation list outcome" where
  "slot_condition n topics slot expected =
     (if expected = '''' then Returns []
      else if length topics \<le> slot then Panics
      else Returns [condition n (addr (topics ! slot) = expected)])"

definition amount_condition :: "string \<Rightarrow> (int \<Rightarrow> int \<Rightarrow> bool) \<Rightarrow> int \<Rightarrow> string \<Rightarrow> ConditionExplanation list outcome" where
  "amount_condition n rel amt s =
     (if s = '''' then Returns []
      else case SetString s of None \<Rightarrow> Panics | Some b \<Rightarrow> Returns [condition n (rel amt b)])"

definition TokenEvent_Explain :: "json_codec \<Rightarrow> DecodedEvent \<Rightarrow> string \<Rightarrow> RuleExplanation outcome" where
  "TokenEvent_Explain jc ev params =
     bind_outcome (parseTokenEvent jc params) (\<lambda>p.
       let name = EventName ev; slots = map_of sep41Events name;
           (s0, s1) = (case slots of None \<Rightarrow> (0, 0) | Some s \<Rightarrow> s);
           cs0 = (if tep_Event p \<noteq> ''*'' then [condition ''event'' (slots \<noteq> None \<and> name = tep_Event p)]
                  else if slots = None then [condition ''event'' False] else [])
       in bind_outcome (slot_condition ''from'' (de_Topics ev) s0 (tep_From p)) (\<lambda>cs1.
          bind_outcome (slot_condition ''to'' (de_Topics ev) s1 (tep_To p)) (\<lambda>cs2.
          bind_outcome
            (if tep_MinAmount p = '''' \<and> tep_MaxAmount p = '''' then Returns []
             else case amount jc (de_Value ev) of
                    None \<Rightarrow> Returns [condition ''amount'' False]
                  | Some amt \<Rightarrow>
                      bind_outcome (amount_condition ''min_amount'' (\<ge>) amt (tep_MinAmount p)) (\<lambda>a.
                      bind_outcome (amount_condition ''max_amount'' (\<le>) amt (tep_MaxAmount p)) (\<lambda>b. Returns (a @ b)))) (\<lambda>cs3.
          let cs = cs0 @ cs1 @ cs2 @ cs3 in Returns \<lparr>re_Matched = list_all ce_Passed cs, re_Conditions = cs\<rparr>))))"

definition TokenEvent_EventNames :: "json_codec \<Rightarrow> string \<Rightarrow> string list option" where
  "TokenEvent_EventNames jc params =
     (case parseTokenEvent jc params of
        Returns p \<Rightarrow> if tep_Event p = '''' then None else if tep_Event p = ''*'' then Some (map fst sep41Events) else Some [tep_Event p]
      | _ \<Rightarrow> None)"

subsection \<open>\<open>self_transfer\<close>\<close>

record selfTransferParams =
  sfp_MinAmount :: string

definition parseSelfTransfer :: "json_codec \<Rightarrow> string \<Rightarrow> selfTransferParams outcome" where
  "parseSelfTransfer jc params =
     parsed ''self_transfer''
       (map_option (\<lambda>lo. \<lparr>sfp_MinAmount = lo\<rparr>)
          (Option.bind (json_object jc params) (json_field ''min_amount'' into_string '''')))"

definition SelfTransfer_Validate :: "json_codec \<Rightarrow> string \<Rightarrow> unit outcome" where
  "SelfTransfer_Validate jc params =
     bind_outcome (parseSelfTransfer jc params) (\<lambda>p.
       details_result
         (note_if (not_decimal (sfp_MinAmount p)) ''min_amount''
            (''self_transfer: min_amount '' @ go_quote (sfp_MinAmount p) @ '' is not a decimal integer'')))"

definition SelfTransfer_Evaluate :: "json_codec \<Rightarrow> DecodedEvent \<Rightarrow> string \<Rightarrow> bool outcome" where
  "SelfTransfer_Evaluate jc ev params =
     bind_outcome (parseSelfTransfer jc params) (\<lambda>p.
       if EventName ev \<noteq> ''transfer'' \<or> length (de_Topics ev) < 3 then Returns False
       else let src = addr (de_Topics ev ! 1); dst = addr (de_Topics ev ! 2) in
            if src = '''' \<or> dst = '''' \<or> src \<noteq> dst then Returns False
            else if sfp_MinAmount p = '''' then Returns True
            else case amount jc (de_Value ev) of
                   None \<Rightarrow> Returns False
                 | Some amt \<Rightarrow> cmp_amount (\<ge>) amt (sfp_MinAmount p))"

subsection \<open>\<open>token_supply_change\<close>\<close>

record tokenSupplyChangeParams =
  tsp_Direction :: string
  tsp_MinAmount :: string

definition tokenSupplyChangeParams_of :: "(string \<times> jval) list \<Rightarrow> tokenSupplyChangeParams option" where
  "tokenSupplyChangeParams_of m =
     (case (json_field ''direction'' into_string '''' m, json_field ''min_amount'' into_string '''' m) of
        (Some d, Some lo) \<Rightarrow> Some \<lparr>tsp_Direction = d, tsp_MinAmount = lo\<rparr>
      | _ \<Rightarrow> None)"

definition parseTokenSupplyChange :: "json_codec \<Rightarrow> string \<Rightarrow> tokenSupplyChangeParams outcome" where
  "parseTokenSupplyChange jc params =
     parsed ''token_supply_change'' (Option.bind (json_object jc params) tokenSupplyChangeParams_of)"

definition known_direction :: "string \<Rightarrow> bool" where
  "known_direction d = (d \<in> {'''', ''mint'', ''burn'', ''any''})"

definition TokenSupplyChange_Validate :: "json_codec \<Rightarrow> string \<Rightarrow> unit outcome" where
  "TokenSupplyChange_Validate jc params =
     bind_outcome (parseTokenSupplyChange jc params) (\<lambda>p.
       details_result
         (note_if (\<not> known_direction (tsp_Direction p)) ''direction''
            (''token_supply_change: unknown direction '' @ go_quote (tsp_Direction p) @ '' (want mint|burn|any)'')
          @ note_if (not_decimal (tsp_MinAmount p)) ''min_amount''
              (''token_supply_change: min_amount '' @ go_quote (tsp_MinAmount p) @ '' is not a decimal integer'')))"

definition supplyAmount :: "json_codec \<Rightarrow> gvalue \<Rightarrow> int option" where
  "supplyAmount jc v = (case v of GInt t \<Rightarrow> Some t | _ \<Rightarrow> amount jc v)"

definition TokenSupplyChange_Evaluate :: "json_codec \<Rightarrow> DecodedEvent \<Rightarrow> string \<Rightarrow> bool outcome" where
  "TokenSupplyChange_Evaluate jc ev params =
     bind_outcome (parseTokenSupplyChange jc params) (\<lambda>p.
       if \<not> known_direction (tsp_Direction p)
       then Fails (VPlain (''token_supply_change: invalid params: unknown direction '' @ go_quote (tsp_Direction p)))
       else if not_decimal (tsp_MinAmount p)
       then Fails (VPlain (''token_supply_change: invalid params: min_amount '' @ go_quote (tsp_MinAmount p) @ '' is not a decimal integer''))
       else let name = EventName ev in
            if name \<noteq> ''mint'' \<and> name \<noteq> ''burn'' then Returns False
            else if (tsp_Direction p = ''mint'' \<or> tsp_Direction p = ''burn'') \<and> name \<noteq> tsp_Direction p then Returns False
            else if tsp_MinAmount p = '''' then Returns True
            else case supplyAmount jc (de_Value ev) of
                   None \<Rightarrow> Returns False
                 | Some val \<Rightarrow> cmp_amount (\<ge>) val (tsp_MinAmount p))"

definition TokenSupplyChange_EventNames :: "json_codec \<Rightarrow> string \<Rightarrow> string list option" where
  "TokenSupplyChange_EventNames jc params =
     (case parseTokenSupplyChange jc params of
        Returns p \<Rightarrow>
          if tsp_Direction p = ''mint'' \<or> tsp_Direction p = ''burn'' then Some [tsp_Direction p]
          else if tsp_Direction p = '''' \<or> tsp_Direction p = ''any'' then Some [''mint'', ''burn'']
          else None
      | _ \<Rightarrow> None)"

subsection \<open>\<open>time_window\<close>\<close>

text \<open>Go's zero time is the start of a Monday, so the day of the week and the minute of the day follow by division.\<close>

record timeWindowParams =
  twp_Start :: string
  twp_End :: string
  twp_Days :: "string list option"
  twp_Outside :: bool

definition weekdays :: "string \<Rightarrow> int option" where
  "weekdays = map_of [(''sun'', 0), (''mon'', 1), (''tue'', 2), (''wed'', 3), (''thu'', 4), (''fri'', 5), (''sat'', 6)]"

definition Weekday :: "gtime \<Rightarrow> int" where
  "Weekday t = (t div (1440 * minute) + 1) mod 7"

definition minute_of_day :: "gtime \<Rightarrow> int" where
  "minute_of_day t = t div minute mod 1440"

definition timeWindowParams_of :: "(string \<times> jval) list \<Rightarrow> timeWindowParams option" where
  "timeWindowParams_of m =
     (case (json_field ''start'' into_string '''' m, json_field ''end'' into_string '''' m,
            json_field ''days'' into_strings None m, json_field ''outside'' into_bool False m) of
        (Some a, Some b, Some ds, Some out) \<Rightarrow> Some \<lparr>twp_Start = a, twp_End = b, twp_Days = ds, twp_Outside = out\<rparr>
      | _ \<Rightarrow> None)"

definition parseTimeWindow :: "json_codec \<Rightarrow> string \<Rightarrow> timeWindowParams outcome" where
  "parseTimeWindow jc params = parsed ''time_window'' (Option.bind (json_object jc params) timeWindowParams_of)"

definition parseClock :: "string \<Rightarrow> int option" where
  "parseClock s =
     (case s of
        [h1, h0, c, m1, m0] \<Rightarrow>
          if c \<noteq> CHR '':'' \<or> \<not> list_all is_digit [h1, h0, m1, m0] then None
          else let h = int (digits_val [h1, h0]); m = int (digits_val [m1, m0])
               in if h > 23 \<or> m > 59 then None else Some (h * 60 + m)
      | _ \<Rightarrow> None)"

definition clock_notes :: "string \<Rightarrow> string \<Rightarrow> FieldError list" where
  "clock_notes f s =
     (if s = '''' then [field_error f (''time_window: '' @ f @ '' is required (HH:MM)'')]
      else note_if (parseClock s = None) f (''time_window: '' @ f @ '' '' @ go_quote s @ '' is not a valid HH:MM time''))"

fun day_notes :: "string list \<Rightarrow> string list \<Rightarrow> FieldError list" where
  "day_notes seen [] = []"
| "day_notes seen (d # ds) =
     (let key = to_lower d in
      if weekdays key = None \<and> key \<notin> set seen
      then field_error ''days'' (''time_window: unknown day '' @ go_quote d @ '' (want mon|tue|wed|thu|fri|sat|sun)'') # day_notes (key # seen) ds
      else day_notes seen ds)"

definition TimeWindow_Validate :: "json_codec \<Rightarrow> string \<Rightarrow> unit outcome" where
  "TimeWindow_Validate jc params =
     bind_outcome (parseTimeWindow jc params) (\<lambda>p.
       details_result
         (clock_notes ''start'' (twp_Start p) @ clock_notes ''end'' (twp_End p)
          @ note_if (twp_Days p = Some []) ''days'' ''time_window: days must not be empty; omit it to match every day''
          @ day_notes [] (items (twp_Days p))))"

definition inTime :: "int \<Rightarrow> int \<Rightarrow> int \<Rightarrow> bool" where
  "inTime start stop minutes =
     (if start \<le> stop then minutes \<ge> start \<and> minutes < stop else minutes \<ge> start \<or> minutes < stop)"

text \<open>A name outside the map reads as Go's zero value, Sunday.\<close>

definition inDay :: "string list \<Rightarrow> int \<Rightarrow> bool" where
  "inDay ds wd = (ds = [] \<or> list_ex (\<lambda>d. (case weekdays (to_lower d) of None \<Rightarrow> 0 | Some n \<Rightarrow> n) = wd) ds)"

definition TimeWindow_Evaluate :: "json_codec \<Rightarrow> DecodedEvent \<Rightarrow> string \<Rightarrow> bool outcome" where
  "TimeWindow_Evaluate jc ev params =
     bind_outcome (parseTimeWindow jc params) (\<lambda>p.
       case parseClock (twp_Start p) of
         None \<Rightarrow> Fails (VPlain (''time_window: invalid params: start='' @ go_quote (twp_Start p)))
       | Some start \<Rightarrow>
           (case parseClock (twp_End p) of
              None \<Rightarrow> Fails (VPlain (''time_window: invalid params: end='' @ go_quote (twp_End p)))
            | Some stop \<Rightarrow>
                if de_LedgerClosedAt ev = 0 then Returns False
                else let inside = (inTime start stop (minute_of_day (de_LedgerClosedAt ev)) \<and>
                                   inDay (items (twp_Days p)) (Weekday (de_LedgerClosedAt ev)))
                     in Returns (if twp_Outside p then \<not> inside else inside)))"

text \<open>\<open>DryRun\<close> of the registry: the events a candidate rule would have matched.\<close>

fun DryRun :: "(DecodedEvent \<Rightarrow> string \<Rightarrow> bool outcome) \<Rightarrow> DecodedEvent list \<Rightarrow> string \<Rightarrow> DecodedEvent list outcome" where
  "DryRun evaluate [] params = Returns []"
| "DryRun evaluate (ev # events) params =
     bind_outcome (evaluate ev params) (\<lambda>matched.
     bind_outcome (DryRun evaluate events params) (\<lambda>ms. Returns (if matched then ev # ms else ms)))"

subsection \<open>The contract of an evaluator\<close>

text \<open>
  \<open>Validate\<close> runs when a rule is created, \<open>Evaluate\<close> once per event afterwards. What the poller relies on is that
  params that were accepted neither fail nor panic later; where an evaluator names its events, that no event with
  another name can match; where it explains a verdict, that it is the verdict of \<open>Evaluate\<close>.
\<close>

locale rule_evaluator =
  fixes validate :: "string \<Rightarrow> unit outcome" and evaluate :: "DecodedEvent \<Rightarrow> string \<Rightarrow> bool outcome"
  assumes accepted: "validate params = Returns () \<Longrightarrow> returns (evaluate ev params)"
begin

lemma DryRun_filters:
  "validate params = Returns () \<Longrightarrow> DryRun evaluate events params = Returns (filter (\<lambda>ev. evaluate ev params = Returns True) events)"
proof (induction events)
  case (Cons ev events)
  obtain b where "evaluate ev params = Returns b" using accepted [OF Cons.prems, of ev] by (auto simp: returns_iff)
  then show ?case using Cons by simp
qed simp

end

locale event_namer =
  fixes evaluate :: "DecodedEvent \<Rightarrow> string \<Rightarrow> bool outcome" and event_names :: "string \<Rightarrow> string list option"
  assumes named: "event_names params = Some ns \<Longrightarrow> evaluate ev params = Returns True \<Longrightarrow> EventName ev \<in> set ns"

locale rule_explainer = rule_evaluator +
  fixes explain :: "DecodedEvent \<Rightarrow> string \<Rightarrow> RuleExplanation outcome"
  assumes explained: "validate params = Returns () \<Longrightarrow> evaluate ev params = Returns b \<Longrightarrow> \<exists>x. explain ev params = Returns x \<and> re_Matched x = b"
begin

lemma explain_total: "validate params = Returns () \<Longrightarrow> \<exists>x. explain ev params = Returns x \<and> evaluate ev params = Returns (re_Matched x)"
  using accepted [of params ev] explained [of params ev] by (auto simp: returns_iff)

end

lemma details_result_Returns [simp]: "details_result ds = Returns () \<longleftrightarrow> ds = []"
  by (simp add: details_result_def)

lemma note_if_Nil [simp]: "note_if bad f r = [] \<longleftrightarrow> \<not> bad"
  by (simp add: note_if_def)

lemma notes_enumerate_Nil [simp]:
  "concat (map (\<lambda>(i, x). note_if (bad x) (f i x) (g i x)) (enumerate n xs)) = [] \<longleftrightarrow> list_all (\<lambda>x. \<not> bad x) xs"
  by (induction xs arbitrary: n) auto

lemma set_in_order [simp]: "set (in_order rg m) = set m"
  by (simp add: in_order_def set_mset_mset [symmetric] del: set_mset_mset)

lemma topics_equal_returns:
  "\<forall>kv \<in> set kvs. Atoi (fst kv) \<noteq> None \<Longrightarrow> topics_equal jc topics kvs = Returns (list_all (\<lambda>kv. ce_Passed (topic_condition jc topics kv)) kvs)"
  by (induction jc topics kvs rule: topics_equal.induct) (auto simp: topic_condition_def condition_def)

lemma topic_keys_ok:
  "EventEmitted_Validate jc rg params = Returns () \<Longrightarrow> parseEventEmitted jc params = Returns p \<Longrightarrow>
   \<forall>kv \<in> set (in_order rg' (eep_TopicEquals p)). Atoi (fst kv) \<noteq> None"
  by (auto simp: EventEmitted_Validate_def)

interpretation event_emitted: rule_explainer "EventEmitted_Validate jc rg" "EventEmitted_Evaluate jc rg'" "EventEmitted_Explain jc rg''"
  for jc rg rg' rg''
proof unfold_locales
  fix params ev
  assume v: "EventEmitted_Validate jc rg params = Returns ()"
  then obtain p where p: "parseEventEmitted jc params = Returns p" by (auto simp: EventEmitted_Validate_def)
  note ok = topics_equal_returns [OF topic_keys_ok [OF v p]]
  show "returns (EventEmitted_Evaluate jc rg' ev params)" by (simp add: EventEmitted_Evaluate_def p ok)
  show "\<exists>x. EventEmitted_Explain jc rg'' ev params = Returns x \<and> re_Matched x = b"
    if "EventEmitted_Evaluate jc rg' ev params = Returns b" for b
    using that
    by (auto simp: EventEmitted_Explain_def EventEmitted_Evaluate_def p ok condition_def list_all_iff split: if_splits)
qed

interpretation value_threshold: rule_explainer "ValueThreshold_Validate jc" "ValueThreshold_Evaluate jc" "ValueThreshold_Explain jc" for jc
  by unfold_locales
     (auto simp: ValueThreshold_Validate_def ValueThreshold_Evaluate_def ValueThreshold_Explain_def condition_def
           split: option.splits if_splits)

interpretation numeric_range: rule_evaluator "NumericRange_Validate jc" "NumericRange_Evaluate jc" for jc
  by unfold_locales (auto simp: NumericRange_Validate_def NumericRange_Evaluate_def Let_def split: option.split)

interpretation topic_position: rule_evaluator "TopicPosition_Validate jc" "TopicPosition_Evaluate jc" for jc
  by unfold_locales (auto simp: TopicPosition_Validate_def TopicPosition_Evaluate_def)

interpretation token_event: rule_evaluator "TokenEvent_Validate jc" "TokenEvent_Evaluate jc" for jc
  by unfold_locales
     (auto simp: TokenEvent_Validate_def TokenEvent_Evaluate_def Let_def not_decimal_def amount_within_def cmp_amount_def
           split: option.split)

interpretation self_transfer: rule_evaluator "SelfTransfer_Validate jc" "SelfTransfer_Evaluate jc" for jc
  by unfold_locales
     (auto simp: SelfTransfer_Validate_def SelfTransfer_Evaluate_def Let_def not_decimal_def cmp_amount_def split: option.split)

interpretation token_supply_change: rule_evaluator "TokenSupplyChange_Validate jc" "TokenSupplyChange_Evaluate jc" for jc
  by unfold_locales
     (auto simp: TokenSupplyChange_Validate_def TokenSupplyChange_Evaluate_def Let_def not_decimal_def cmp_amount_def split: option.split)

interpretation time_window: rule_evaluator "TimeWindow_Validate jc" "TimeWindow_Evaluate jc" for jc
  by unfold_locales
     (auto simp: TimeWindow_Validate_def TimeWindow_Evaluate_def Let_def clock_notes_def split: option.split if_splits)

text \<open>A pattern that is refused for one name is refused for every name, so trying it on the empty name is enough.\<close>

lemma any_pattern_returns: "\<forall>pat \<in> set pats. glob_elems pat \<noteq> None \<Longrightarrow> returns (any_pattern pats name)"
  by (induction pats) (auto simp: path_Match_malformed split: option.split)

interpretation event_name_glob: rule_evaluator "EventNameGlob_Validate jc" "EventNameGlob_Evaluate jc" for jc
  by unfold_locales
     (auto simp: EventNameGlob_Validate_def EventNameGlob_Evaluate_def path_Match_malformed list_all_iff
           simp del: concat_eq_Nil_conv intro!: any_pattern_returns)

lemmas names_defs =
  EventEmitted_EventNames_def EventEmitted_Evaluate_def ValueThreshold_EventNames_def ValueThreshold_Evaluate_def
  TopicPosition_EventNames_def TopicPosition_Evaluate_def TokenEvent_EventNames_def TokenEvent_Evaluate_def
  TokenSupplyChange_EventNames_def TokenSupplyChange_Evaluate_def

interpretation event_emitted: event_namer "EventEmitted_Evaluate jc rg" "EventEmitted_EventNames jc" for jc rg
  by unfold_locales (auto simp: names_defs split: outcome.splits if_splits)

interpretation value_threshold: event_namer "ValueThreshold_Evaluate jc" "ValueThreshold_EventNames jc" for jc
  by unfold_locales (auto simp: names_defs split: outcome.splits if_splits option.splits)

interpretation topic_position: event_namer "TopicPosition_Evaluate jc" "TopicPosition_EventNames jc" for jc
  by unfold_locales (auto simp: names_defs split: outcome.splits if_splits)

lemma sep41_name: "map_of sep41Events n = Some slots \<Longrightarrow> n \<in> fst ` set sep41Events"
  by (metis domI dom_map_of_conv_image_fst)

interpretation token_event: event_namer "TokenEvent_Evaluate jc" "TokenEvent_EventNames jc" for jc
  by unfold_locales
     (auto simp: names_defs Let_def dest: sep41_name split: outcome.splits if_splits option.splits prod.splits)

interpretation token_supply_change: event_namer "TokenSupplyChange_Evaluate jc" "TokenSupplyChange_EventNames jc" for jc
  by unfold_locales (auto simp: names_defs Let_def split: outcome.splits if_splits)

subsection \<open>What the evaluators compute\<close>

lemma any_pattern_denotes:
  "CHR ''/'' \<notin> set name \<Longrightarrow> \<forall>pat \<in> set pats. glob_elems pat \<noteq> None \<Longrightarrow>
   any_pattern pats name = Returns (\<exists>pat \<in> set pats. denotes (the (glob_elems pat)) name)"
  by (induction pats) (auto simp: path_Match_denotes)

lemma SetString_fmt_d [simp]: "SetString (fmt_d n) = Some n"
proof (cases "n < 0")
  case True
  then show ?thesis using nat_digits_digit [of "nat (- n)"] by (simp add: SetString_def fmt_d_def)
next
  case False
  obtain c r where d: "nat_digits (nat n) = c # r" by (cases "nat_digits (nat n)") auto
  have "is_digit c" using nat_digits_digit [of "nat n"] d by simp
  then have "c \<noteq> CHR ''-''" "c \<noteq> CHR ''+''" by (auto simp: is_digit_def)
  moreover have "digits_val (c # r) = nat n" using digits_val_nat_digits [of "nat n"] d by simp
  ultimately show ?thesis using False nat_digits_digit [of "nat n"] d by (simp add: SetString_def fmt_d_def)
qed

lemma trim_space_fmt_d [simp]: "trim_space (fmt_d n) = fmt_d n"
proof -
  have ns: "\<not> is_space c" if "c \<in> set (fmt_d n)" for c
    using fmt_d_chars [OF that] by (auto simp: is_digit_def is_space_def)
  then have "dropWhile is_space (fmt_d n) = fmt_d n" "dropWhile is_space (rev (fmt_d n)) = rev (fmt_d n)"
    by (metis dropWhile_eq_self_iff hd_in_set set_rev)+
  then show ?thesis by (simp add: trim_space_def)
qed

lemma fmt_d_ne [simp]: "fmt_d n \<noteq> []"
  by (simp add: fmt_d_def)

lemma threshold_on_integer:
  assumes "jc_parse jc params = Some (JObj [(''comparison'', JStr c), (''threshold'', JStr (fmt_d m)), (''value_path'', JStr path)])"
    and "comparisons c = Some mtch" and "jc_ParseFloat jc (fmt_d m) = Some (BFin (of_int m))" and "value_at ev path = Some (GInt n)"
  shows "ValueThreshold_Evaluate jc ev params = Returns (mtch (if n < m then -1 else if m < n then 1 else 0))"
  using assms
  by (simp add: ValueThreshold_Evaluate_def parseValueThreshold_def parsed_def json_object_def valueThresholdParams_of_def
      into_raw_def bf_Cmp_def to_lower_def char_lower_def)

text \<open>A clock value is a minute of the day, and the window from one to the other runs around the clock.\<close>

lemma parseClock_range: "parseClock s = Some m \<Longrightarrow> 0 \<le> m \<and> m < 1440"
  by (auto simp: parseClock_def Let_def split: list.splits if_splits)

lemma minute_of_day_range: "0 \<le> minute_of_day t \<and> minute_of_day t < 1440"
  by (simp add: minute_of_day_def)

lemma inTime_circular:
  assumes "0 \<le> start \<and> start < 1440" "0 \<le> stop \<and> stop < 1440" "0 \<le> m \<and> m < 1440"
  shows "inTime start stop m \<longleftrightarrow> (m - start) mod 1440 < (stop - start) mod 1440"
proof -
  have md: "(x - y) mod 1440 = (if y \<le> x then x - y else x - y + 1440)" if "0 \<le> x \<and> x < 1440" "0 \<le> y \<and> y < 1440" for x y :: int
    using that mod_pos_pos_trivial [of "x - y" 1440] mod_pos_pos_trivial [of "x - y + 1440" 1440] mod_add_self2 [of "x - y" 1440]
    by (cases "y \<le> x") auto
  show ?thesis unfolding md [OF assms(3,1)] md [OF assms(2,1)] using assms by (auto simp: inTime_def)
qed

text \<open>
  C5. \<open>event_name_glob\<close> on accepted params matches an event exactly when its name is in the language of one of the patterns,
  whatever way its stars have to be expanded: taking the first place where a chunk fits loses nothing. (Event names are
  symbols, which have no slash.)
\<close>

theorem glob_rule_matches_the_language:
  assumes "EventNameGlob_Validate jc params = Returns ()" and "parseEventNameGlob jc params = Returns p"
    and "CHR ''/'' \<notin> set (EventName ev)"
  shows "EventNameGlob_Evaluate jc ev params =
           Returns (EventName ev \<noteq> '''' \<and>
                    (\<exists>pat \<in> set (items (egp_Patterns p)). denotes (the (glob_elems pat)) (EventName ev)))"
  using assms
  by (auto simp: EventNameGlob_Validate_def EventNameGlob_Evaluate_def path_Match_malformed list_all_iff any_pattern_denotes
           simp del: concat_eq_Nil_conv)

text \<open>
  Where \<open>numeric_range\<close> and \<open>value_threshold\<close> agree: with two decimal bounds given as strings, the default \<open>inclusive\<close>, no
  \<open>event_name\<close>, and an event whose value is a plain integer of any width, the closed range matches exactly when the \<open>gte\<close> rule
  on its lower and the \<open>lte\<close> rule on its upper bound both match, and with \<open>outside\<close> exactly when they do
  not. (\<open>big.ParseFloat\<close> reads the two bounds exactly.)
\<close>

theorem range_is_two_thresholds:
  assumes rng: "jc_parse jc rp = Some (JObj [(''min'', JStr (fmt_d lo)), (''max'', JStr (fmt_d hi)), (''outside'', JBool out), (''value_path'', JStr path)])"
    and gte: "jc_parse jc gp = Some (JObj [(''comparison'', JStr ''gte''), (''threshold'', JStr (fmt_d lo)), (''value_path'', JStr path)])"
    and lte: "jc_parse jc lp = Some (JObj [(''comparison'', JStr ''lte''), (''threshold'', JStr (fmt_d hi)), (''value_path'', JStr path)])"
    and exact: "jc_ParseFloat jc (fmt_d lo) = Some (BFin (of_int lo))" "jc_ParseFloat jc (fmt_d hi) = Some (BFin (of_int hi))"
    and "lo \<le> hi" and v: "value_at ev path = Some (GInt n)"
  shows "\<exists>a b. ValueThreshold_Evaluate jc ev gp = Returns a \<and> ValueThreshold_Evaluate jc ev lp = Returns b \<and>
               NumericRange_Evaluate jc ev rp = Returns ((a \<and> b) \<noteq> out)"
proof -
  have "NumericRange_Evaluate jc ev rp = Returns ((lo \<le> n \<and> n \<le> hi) \<noteq> out)"
    using rng \<open>lo \<le> hi\<close> v
    by (simp add: NumericRange_Evaluate_def parseNumericRange_def parsed_def json_object_def numericRangeParams_of_def
        into_raw_def parseDecimalInt_def min_above_max_def inRange_def to_lower_def char_lower_def) (auto simp: Let_def)
  moreover have "ValueThreshold_Evaluate jc ev gp = Returns (lo \<le> n)"
    using threshold_on_integer [OF gte _ exact(1) v, of "\<lambda>c. c \<ge> 0"] by (auto simp: comparisons_def)
  moreover have "ValueThreshold_Evaluate jc ev lp = Returns (n \<le> hi)"
    using threshold_on_integer [OF lte _ exact(2) v, of "\<lambda>c. c \<le> 0"] by (auto simp: comparisons_def)
  ultimately show ?thesis by simp
qed

text \<open>
  C13. A \<open>time_window\<close> rule places an event by the minute of the day and the day of the week of its ledger close time, and a
  window that crosses midnight is treated like any other: the event is inside when its distance from the start,
  counted around the clock, is less than the length of the window.
\<close>

theorem time_window_runs_around_the_clock:
  assumes "parseTimeWindow jc params = Returns p" and a: "parseClock (twp_Start p) = Some start" and b: "parseClock (twp_End p) = Some stop"
    and "de_LedgerClosedAt ev \<noteq> 0"
  shows "TimeWindow_Evaluate jc ev params =
           Returns (((minute_of_day (de_LedgerClosedAt ev) - start) mod 1440 < (stop - start) mod 1440 \<and>
                     inDay (items (twp_Days p)) (Weekday (de_LedgerClosedAt ev))) \<noteq> twp_Outside p)"
  using assms inTime_circular [OF parseClock_range [OF a] parseClock_range [OF b] minute_of_day_range [of "de_LedgerClosedAt ev"]]
  by (simp add: TimeWindow_Evaluate_def Let_def)

definition sample_codec :: "(string \<times> jval) list \<Rightarrow> json_codec" where
  "sample_codec texts =
     \<lparr>jc_parse = map_of texts, jc_float64 = (\<lambda>s. map_option of_int (SetString s)), jc_FormatFloat = (\<lambda>f. fmt_d \<lfloor>f\<rfloor>),
      jc_ParseFloat = (\<lambda>s. map_option (\<lambda>n. BFin (of_int n)) (SetString s)), jc_Marshal = (\<lambda>v. ''json''), jc_int64 = (\<lambda>f. 0)\<rparr>"

definition sample_event :: "gvalue list \<Rightarrow> gvalue \<Rightarrow> DecodedEvent" where
  "sample_event topics v =
     \<lparr>de_ID = ''e1'', de_ContractID = ''C1'', de_Ledger = 7, de_LedgerClosedAt = 90 * minute, de_TxHash = ''t'', de_Topics = topics,
      de_Value = v, de_Fields = None\<rparr>"

definition glob_sample :: json_codec where
  "glob_sample = sample_codec [(''p'', JObj [(''patterns'', JArr [JStr ''swap_*x''])])]"

theorem glob_rule_matches_the_language_witness:
  "EventNameGlob_Evaluate glob_sample (sample_event [GStr ''swap_fox_ax''] GNil) ''p'' = Returns True"
proof -
  have "EventNameGlob_Validate glob_sample ''p'' = Returns ()" by code_simp
  moreover have "parseEventNameGlob glob_sample ''p'' = Returns \<lparr>egp_Patterns = Some [''swap_*x'']\<rparr>" by code_simp
  moreover have "CHR ''/'' \<notin> set (EventName (sample_event [GStr ''swap_fox_ax''] GNil))" by code_simp
  ultimately have "EventNameGlob_Evaluate glob_sample (sample_event [GStr ''swap_fox_ax''] GNil) ''p'' =
      Returns (EventName (sample_event [GStr ''swap_fox_ax''] GNil) \<noteq> '''' \<and>
               (\<exists>pat \<in> set (items (egp_Patterns \<lparr>egp_Patterns = Some [''swap_*x'']\<rparr>)).
                  denotes (the (glob_elems pat)) (EventName (sample_event [GStr ''swap_fox_ax''] GNil))))"
    by (rule glob_rule_matches_the_language)
  also have "\<dots> = Returns True" by code_simp
  finally show ?thesis .
qed

definition range_sample :: json_codec where
  "range_sample =
     sample_codec
       [(''r'', JObj [(''min'', JStr (fmt_d 1000)), (''max'', JStr (fmt_d 10000)), (''outside'', JBool False), (''value_path'', JStr '''')]),
        (''g'', JObj [(''comparison'', JStr ''gte''), (''threshold'', JStr (fmt_d 1000)), (''value_path'', JStr '''')]),
        (''l'', JObj [(''comparison'', JStr ''lte''), (''threshold'', JStr (fmt_d 10000)), (''value_path'', JStr '''')])]"

theorem range_is_two_thresholds_witness:
  "\<exists>a b. ValueThreshold_Evaluate range_sample (sample_event [] (GInt 10000)) ''g'' = Returns a \<and>
         ValueThreshold_Evaluate range_sample (sample_event [] (GInt 10000)) ''l'' = Returns b \<and>
         NumericRange_Evaluate range_sample (sample_event [] (GInt 10000)) ''r'' = Returns ((a \<and> b) \<noteq> False)"
  by (rule range_is_two_thresholds [where lo = 1000 and hi = 10000 and path = "''''" and n = 10000])
     (simp_all add: range_sample_def sample_codec_def sample_event_def value_at_def Lookup_def)

definition window_sample :: json_codec where
  "window_sample =
     sample_codec [(''p'', JObj [(''start'', JStr ''22:00''), (''end'', JStr ''06:00''), (''days'', JArr [JStr ''Mon'']), (''outside'', JBool True)])]"

theorem time_window_runs_around_the_clock_witness:
  "TimeWindow_Evaluate window_sample (sample_event [] GNil) ''p'' = Returns False"
proof -
  let ?p = "\<lparr>twp_Start = ''22:00'', twp_End = ''06:00'', twp_Days = Some [''Mon''], twp_Outside = True\<rparr>"
  have "parseTimeWindow window_sample ''p'' = Returns ?p" by code_simp
  moreover have "parseClock (twp_Start ?p) = Some 1320" "parseClock (twp_End ?p) = Some 360" by code_simp+
  moreover have "de_LedgerClosedAt (sample_event [] GNil) \<noteq> 0" by code_simp
  ultimately have "TimeWindow_Evaluate window_sample (sample_event [] GNil) ''p'' =
      Returns (((minute_of_day (de_LedgerClosedAt (sample_event [] GNil)) - 1320) mod 1440 < (360 - 1320) mod 1440 \<and>
                inDay (items (twp_Days ?p)) (Weekday (de_LedgerClosedAt (sample_event [] GNil)))) \<noteq> twp_Outside ?p)"
    by (rule time_window_runs_around_the_clock)
  also have "\<dots> = Returns False" by code_simp
  finally show ?thesis .
qed

subsection \<open>Where \<open>token_event\<close> departs from its contract\<close>

text \<open>
  \<open>Explain\<close> does not repeat the guard on the number of topics: it says that an event with one topic matched which
  \<open>Evaluate\<close> turns down, and with an address in the params it indexes beyond the topics.
\<close>

definition token_sample :: json_codec where
  "token_sample =
     sample_codec [(''any'', JObj [(''event'', JStr ''transfer'')]), (''from'', JObj [(''event'', JStr ''transfer''), (''from'', JStr ''GA'')])]"

lemma token_explain_contradicts_evaluate:
  "TokenEvent_Validate token_sample ''any'' = Returns ()"
  "TokenEvent_Evaluate token_sample (sample_event [GStr ''transfer''] GNil) ''any'' = Returns False"
  "\<exists>cs. TokenEvent_Explain token_sample (sample_event [GStr ''transfer''] GNil) ''any'' = Returns \<lparr>re_Matched = True, re_Conditions = cs\<rparr>"
proof -
  have "TokenEvent_Explain token_sample (sample_event [GStr ''transfer''] GNil) ''any'' =
      Returns \<lparr>re_Matched = True, re_Conditions = [condition ''event'' True]\<rparr>" by code_simp
  then show "\<exists>cs. TokenEvent_Explain token_sample (sample_event [GStr ''transfer''] GNil) ''any'' = Returns \<lparr>re_Matched = True, re_Conditions = cs\<rparr>"
    by blast
qed code_simp+

lemma token_explain_panics:
  assumes "parseTokenEvent jc params = Returns p" and "tep_From p \<noteq> ''''" and "de_Topics ev = []"
  shows "TokenEvent_Explain jc ev params = Panics" and "TokenEvent_Evaluate jc ev params = Returns False"
  using assms by (simp_all add: TokenEvent_Explain_def TokenEvent_Evaluate_def slot_condition_def Let_def split: prod.split)

text \<open>
  The decoder makes a \<open>*big.Int\<close> of every integer, but \<open>amount\<close> knows the \<open>i128\<close> wrapper only: with an amount in the params
  neither rule can match a decoded event.
\<close>

lemma decoded_amounts_never_match:
  assumes "de_Value ev = GInt n"
  shows "parseTokenEvent jc params = Returns p \<Longrightarrow> tep_MinAmount p \<noteq> '''' \<or> tep_MaxAmount p \<noteq> '''' \<Longrightarrow> TokenEvent_Evaluate jc ev params = Returns False"
    and "parseSelfTransfer jc params = Returns q \<Longrightarrow> sfp_MinAmount q \<noteq> '''' \<Longrightarrow> SelfTransfer_Evaluate jc ev params = Returns False"
  using assms by (auto simp: TokenEvent_Evaluate_def SelfTransfer_Evaluate_def amount_def Let_def split: option.split)

end
