(* ===== verification/Rule_Caches.thy ===== *)
theory Rule_Caches
  imports Rule_Evaluators
begin

text \<open>
  The evaluators of \<open>internal/rules\<close> that memoise what they make of a params blob: \<open>topic_regex\<close> (\<open>regexCache\<close>),
  \<open>address_watchlist\<close> (\<open>watchlistSets\<close>) and \<open>contract_allowlist\<close> (\<open>allowlistSets\<close>). The three caches are copies of one
  another, so \<open>memo_get\<close> and \<open>memo_put\<close> stand for all of them; the entry that a full cache drops is the choice of
  \<open>pick\<close>, as Go's map order decides it. \<open>get\<close> and \<open>put\<close> take the lock one after the other, so other evaluations may store
  entries in between: \<open>memo_reachable\<close> is every cache that any interleaving can leave.

  \<open>regexp.Compile\<close> and the strkey checks are parameters.
\<close>

subsection \<open>A bounded memo table\<close>

type_synonym 'v memo = "(string \<times> 'v) list"

definition regexCacheMax :: nat where "regexCacheMax = 256"

definition memo_get :: "'v memo \<Rightarrow> string \<Rightarrow> 'v option" where
  "memo_get m params = map_of m params"

definition victim :: "('v memo \<Rightarrow> string) \<Rightarrow> 'v memo \<Rightarrow> string" where
  "victim pick m = (if pick m \<in> fst ` set m then pick m else fst (hd m))"

definition memo_put :: "('v memo \<Rightarrow> string) \<Rightarrow> string \<Rightarrow> 'v \<Rightarrow> 'v memo \<Rightarrow> 'v memo" where
  "memo_put pick params e m =
     AList.update params e (if regexCacheMax \<le> length m then AList.delete (victim pick m) m else m)"

definition memoised ::
  "(string \<Rightarrow> 'v outcome) \<Rightarrow> ('v memo \<Rightarrow> string) \<Rightarrow> string \<Rightarrow> 'v memo \<Rightarrow> 'v outcome \<times> 'v memo" where
  "memoised build pick params m =
     (case memo_get m params of
        Some e \<Rightarrow> (Returns e, m)
      | None \<Rightarrow>
          (case build params of
             Returns e \<Rightarrow> (Returns e, memo_put pick params e m)
           | Fails err \<Rightarrow> (Fails err, m)
           | Panics \<Rightarrow> (Panics, m)))"

inductive memo_reachable :: "(string \<Rightarrow> 'v outcome) \<Rightarrow> 'v memo \<Rightarrow> bool" for build where
  empty: "memo_reachable build []"
| put: "memo_reachable build m \<Longrightarrow> build params = Returns e \<Longrightarrow> memo_reachable build (memo_put pick params e m)"

lemma memo_sound:
  "memo_reachable build m \<Longrightarrow> memo_get m params = Some e \<Longrightarrow> build params = Returns e"
proof (induction arbitrary: params e rule: memo_reachable.induct)
  case (put m k v pick)
  show ?case
  proof (cases "params = k")
    case True
    then show ?thesis using put by (simp add: memo_get_def memo_put_def update_conv)
  next
    case False
    then have "map_of m params = Some e"
      using put.prems by (auto simp: memo_get_def memo_put_def update_conv delete_conv split: if_splits)
    then show ?thesis using put.IH by (simp add: memo_get_def)
  qed
qed (simp add: memo_get_def)

lemma memo_bounded:
  "memo_reachable build m \<Longrightarrow> length m \<le> regexCacheMax \<and> distinct (map fst m)"
proof (induction rule: memo_reachable.induct)
  case (put m k v pick)
  have "length (AList.delete (victim pick m) m) < regexCacheMax" if full: "regexCacheMax \<le> length m"
  proof -
    have "m \<noteq> []" using full by (auto simp: regexCacheMax_def)
    then have "victim pick m \<in> fst ` set m" by (auto simp: victim_def)
    then have "length (map fst (AList.delete (victim pick m) m)) < length (map fst m)"
      unfolding delete_keys by (intro length_removeAll_less) simp
    then show ?thesis using put.IH by simp
  qed
  moreover have "length (AList.update k v al) \<le> Suc (length al)" for al :: "'a memo"
    using arg_cong [OF update_keys [of k v al], of length] by (simp split: if_splits)
  ultimately have "length (memo_put pick k v m) \<le> regexCacheMax"
    by (auto simp: memo_put_def not_le) (meson Suc_leI le_trans)+
  then show ?case using put.IH by (auto simp: memo_put_def distinct_update distinct_delete)
qed simp

text \<open>What an evaluator relies on: asking the cache is asking for the entry to be built.\<close>

locale memo_table =
  fixes build :: "string \<Rightarrow> 'v outcome" and lookup :: "string \<Rightarrow> 'v memo \<Rightarrow> 'v outcome \<times> 'v memo"
  assumes answer: "memo_reachable build m \<Longrightarrow> fst (lookup params m) = build params"
    and stays: "memo_reachable build m \<Longrightarrow> memo_reachable build (snd (lookup params m))"
begin

lemma lookup_cases:
  assumes "memo_reachable build m"
  obtains m' where "lookup params m = (build params, m')" and "memo_reachable build m'"
  using answer [OF assms, of params] stays [OF assms, of params] by (cases "lookup params m") auto

end

interpretation memo: memo_table build "memoised build pick" for build :: "string \<Rightarrow> 'v outcome" and pick
proof unfold_locales
  fix m params
  assume r: "memo_reachable build m"
  show "fst (memoised build pick params m) = build params"
    using memo_sound [OF r, of params] by (auto simp: memoised_def split: option.split outcome.split)
  show "memo_reachable build (snd (memoised build pick params m))"
    using r by (auto simp: memoised_def intro: memo_reachable.put split: option.split outcome.split)
qed

lemma memoised_pair:
  assumes "memo_reachable build m" and "memoised build pick params m = (r, m')"
  shows "r = build params" and "memo_reachable build m'"
  using memo.lookup_cases [OF assms(1), of pick params] assms(2) by auto


subsection \<open>\<open>topic_regex\<close>\<close>

record topicRegexParams =
  trp_Pattern :: string
  trp_Position :: "int option"

type_synonym regexp = "string \<Rightarrow> bool"

record regexCacheEntry =
  rce_re :: regexp
  rce_position :: "int option"

definition MaxTopicRegexPatternLength :: nat where "MaxTopicRegexPatternLength = 512"

definition topicRegexParams_of :: "(string \<times> jval) list \<Rightarrow> topicRegexParams option" where
  "topicRegexParams_of m =
     (case (json_field ''pattern'' into_string '''' m, json_field ''position'' into_int_ptr None m) of
        (Some pat, Some pos) \<Rightarrow> Some \<lparr>trp_Pattern = pat, trp_Position = pos\<rparr>
      | _ \<Rightarrow> None)"

definition parseTopicRegex :: "json_codec \<Rightarrow> string \<Rightarrow> topicRegexParams outcome" where
  "parseTopicRegex jc params = parsed ''topic_regex'' (Option.bind (json_object jc params) topicRegexParams_of)"

definition compilePattern :: "json_codec \<Rightarrow> (string \<Rightarrow> regexp option) \<Rightarrow> string \<Rightarrow> regexCacheEntry outcome" where
  "compilePattern jc compile params =
     bind_outcome (parseTopicRegex jc params) (\<lambda>p.
       if trp_Pattern p = '''' then Fails (VField (field_error ''pattern'' ''topic_regex: pattern is required''))
       else if MaxTopicRegexPatternLength < length (trp_Pattern p)
       then Fails (VField (field_error ''pattern''
              (''topic_regex: pattern is '' @ nat_digits (length (trp_Pattern p)) @ '' bytes; the maximum is '' @ nat_digits MaxTopicRegexPatternLength)))
       else case compile (trp_Pattern p) of
              None \<Rightarrow> Fails (VPlain ''topic_regex: invalid pattern'')
            | Some re \<Rightarrow> Returns \<lparr>rce_re = re, rce_position = trp_Position p\<rparr>)"

definition TopicRegex_Validate :: "json_codec \<Rightarrow> (string \<Rightarrow> regexp option) \<Rightarrow> string \<Rightarrow> unit outcome" where
  "TopicRegex_Validate jc compile params =
     bind_outcome (compilePattern jc compile params) (\<lambda>e.
     bind_outcome (parseTopicRegex jc params) (\<lambda>p.
       case trp_Position p of
         Some i \<Rightarrow>
           if i < 0 then Fails (VField (field_error ''position'' (''topic_regex: position '' @ fmt_d i @ '' is negative'')))
           else Returns ()
       | None \<Rightarrow> Returns ()))"

definition topicString :: "gvalue \<Rightarrow> string option" where
  "topicString topic =
     (case topic of
        GStr v \<Rightarrow> Some v
      | GMap v \<Rightarrow> first_string v [''symbol'', ''string'', ''address'']
      | _ \<Rightarrow> None)"

definition regex_match :: "regexCacheEntry \<Rightarrow> DecodedEvent \<Rightarrow> bool" where
  "regex_match e ev =
     (let fits = (\<lambda>topic. case topicString topic of Some s \<Rightarrow> rce_re e s | None \<Rightarrow> False) in
      case rce_position e of
        None \<Rightarrow> list_ex fits (de_Topics ev)
      | Some i \<Rightarrow> \<not> (i < 0 \<or> int (length (de_Topics ev)) \<le> i) \<and> fits (de_Topics ev ! nat i))"

text \<open>\<open>ctxErr\<close> is what \<open>ctx.Err()\<close> answers on entry.\<close>

definition TopicRegex_Evaluate ::
  "json_codec \<Rightarrow> (string \<Rightarrow> regexp option) \<Rightarrow> (regexCacheEntry memo \<Rightarrow> string) \<Rightarrow> verr option \<Rightarrow> DecodedEvent \<Rightarrow> string \<Rightarrow>
   regexCacheEntry memo \<Rightarrow> bool outcome \<times> regexCacheEntry memo" where
  "TopicRegex_Evaluate jc compile pick ctxErr ev params m =
     (case ctxErr of
        Some err \<Rightarrow> (Fails err, m)
      | None \<Rightarrow>
          (case memoised (compilePattern jc compile) pick params m of
             (r, m') \<Rightarrow> (bind_outcome r (\<lambda>e. Returns (regex_match e ev)), m')))"

subsection \<open>\<open>address_watchlist\<close>\<close>

record addressWatchlistParams =
  awp_Addresses :: "string list option"
  awp_Match :: string
  awp_Event :: string

record watchlistSet =
  ws_addresses :: "string list"
  ws_match :: string
  ws_event :: string

definition MaxAddressWatchlistSize :: nat where "MaxAddressWatchlistSize = 1024"

definition addressWatchlistParams_of :: "(string \<times> jval) list \<Rightarrow> addressWatchlistParams option" where
  "addressWatchlistParams_of m =
     (case (json_field ''addresses'' into_strings None m, json_field ''match'' into_string '''' m,
            json_field ''event'' into_string '''' m) of
        (Some as, Some mt, Some e) \<Rightarrow> Some \<lparr>awp_Addresses = as, awp_Match = mt, awp_Event = e\<rparr>
      | _ \<Rightarrow> None)"

definition parseAddressWatchlist :: "json_codec \<Rightarrow> string \<Rightarrow> addressWatchlistParams outcome" where
  "parseAddressWatchlist jc params =
     parsed ''address_watchlist'' (Option.bind (json_object jc params) addressWatchlistParams_of)"

definition validateAddressList :: "(string \<Rightarrow> bool) \<Rightarrow> addressWatchlistParams \<Rightarrow> unit outcome" where
  "validateAddressList isAddress p =
     details_result
       (note_if (items (awp_Addresses p) = []) ''addresses'' ''address_watchlist: addresses is required (a non-empty list of Stellar addresses)''
        @ concat (map (\<lambda>(i, a). note_if (\<not> isAddress a) (indexed ''addresses'' i)
                           (''address_watchlist: '' @ indexed ''addresses'' i @ '' '' @ go_quote a @ '' is not a plausible Stellar address''))
                      (enumerate 0 (items (awp_Addresses p))))
        @ note_if (MaxAddressWatchlistSize < length (items (awp_Addresses p))) ''addresses''
            (''address_watchlist: addresses has '' @ nat_digits (length (items (awp_Addresses p))) @ '' entries; the maximum is ''
             @ nat_digits MaxAddressWatchlistSize)
        @ note_if (awp_Match p \<notin> {'''', ''from'', ''to'', ''either''}) ''match''
            (''address_watchlist: unknown match '' @ go_quote (awp_Match p) @ '' (want from|to|either)''))"

definition AddressWatchlist_Validate :: "json_codec \<Rightarrow> (string \<Rightarrow> bool) \<Rightarrow> string \<Rightarrow> unit outcome" where
  "AddressWatchlist_Validate jc isAddress params =
     bind_outcome (parseAddressWatchlist jc params) (\<lambda>p.
     bind_outcome (validateAddressList isAddress p) (\<lambda>_.
       if awp_Event p \<noteq> '''' \<and> awp_Event p \<noteq> ''*'' \<and> map_of sep41Events (awp_Event p) = None
       then Fails (VField (field_error ''event''
              (''address_watchlist: unknown event '' @ go_quote (awp_Event p) @ '' (want transfer|mint|burn|clawback|set_admin|*)'')))
       else Returns ()))"

definition watchlist_of :: "json_codec \<Rightarrow> (string \<Rightarrow> bool) \<Rightarrow> string \<Rightarrow> watchlistSet outcome" where
  "watchlist_of jc isAddress params =
     bind_outcome (parseAddressWatchlist jc params) (\<lambda>p.
     bind_outcome (validateAddressList isAddress p) (\<lambda>_.
       Returns \<lparr>ws_addresses = items (awp_Addresses p),
                ws_match = (if awp_Match p = '''' then ''either'' else awp_Match p), ws_event = awp_Event p\<rparr>))"

definition watchlist_contains :: "watchlistSet \<Rightarrow> string \<Rightarrow> bool" where
  "watchlist_contains s address = (address \<in> set (ws_addresses s))"

definition watchlist_match :: "watchlistSet \<Rightarrow> DecodedEvent \<Rightarrow> bool" where
  "watchlist_match s ev =
     (if length (de_Topics ev) < 3 then False
      else case map_of sep41Events (EventName ev) of
             None \<Rightarrow> False
           | Some (s0, s1) \<Rightarrow>
               if ws_event s \<noteq> '''' \<and> ws_event s \<noteq> ''*'' \<and> EventName ev \<noteq> ws_event s then False
               else ws_match s \<noteq> ''to'' \<and> watchlist_contains s (addr (de_Topics ev ! s0)) \<or>
                    ws_match s \<noteq> ''from'' \<and> watchlist_contains s (addr (de_Topics ev ! s1)))"

definition AddressWatchlist_Evaluate ::
  "json_codec \<Rightarrow> (string \<Rightarrow> bool) \<Rightarrow> (watchlistSet memo \<Rightarrow> string) \<Rightarrow> DecodedEvent \<Rightarrow> string \<Rightarrow>
   watchlistSet memo \<Rightarrow> bool outcome \<times> watchlistSet memo" where
  "AddressWatchlist_Evaluate jc isAddress pick ev params m =
     (case memoised (watchlist_of jc isAddress) pick params m of
        (r, m') \<Rightarrow> (bind_outcome r (\<lambda>s. Returns (watchlist_match s ev)), m'))"

definition AddressWatchlist_EventNames :: "json_codec \<Rightarrow> string \<Rightarrow> string list option" where
  "AddressWatchlist_EventNames jc params =
     (case parseAddressWatchlist jc params of
        Returns p \<Rightarrow> if awp_Event p = '''' \<or> awp_Event p = ''*'' then Some (map fst sep41Events) else Some [awp_Event p]
      | _ \<Rightarrow> None)"

subsection \<open>\<open>contract_allowlist\<close>\<close>

record contractAllowlistParams =
  cap_ContractIDs :: "string list option"
  cap_Exclude :: bool

record allowlistSet =
  as_ids :: "string list"
  as_exclude :: bool

definition contractAllowlistParams_of :: "(string \<times> jval) list \<Rightarrow> contractAllowlistParams option" where
  "contractAllowlistParams_of m =
     (case (json_field ''contract_ids'' into_strings None m, json_field ''exclude'' into_bool False m) of
        (Some ids, Some ex) \<Rightarrow> Some \<lparr>cap_ContractIDs = ids, cap_Exclude = ex\<rparr>
      | _ \<Rightarrow> None)"

definition parseContractAllowlist :: "json_codec \<Rightarrow> string \<Rightarrow> contractAllowlistParams outcome" where
  "parseContractAllowlist jc params =
     parsed ''contract_allowlist'' (Option.bind (json_object jc params) contractAllowlistParams_of)"

definition validateContractList :: "(string \<Rightarrow> bool) \<Rightarrow> contractAllowlistParams \<Rightarrow> unit outcome" where
  "validateContractList isContract p =
     details_result
       (note_if (items (cap_ContractIDs p) = []) ''contract_ids'' ''contract_allowlist: contract_ids is required (a non-empty list of contract IDs)''
        @ concat (map (\<lambda>(i, c). note_if (\<not> isContract c) (indexed ''contract_ids'' i)
                           (''contract_allowlist: '' @ indexed ''contract_ids'' i @ '' '' @ go_quote c @ '' is not a valid contract ID''))
                      (enumerate 0 (items (cap_ContractIDs p)))))"

definition ContractAllowlist_Validate :: "json_codec \<Rightarrow> (string \<Rightarrow> bool) \<Rightarrow> string \<Rightarrow> unit outcome" where
  "ContractAllowlist_Validate jc isContract params =
     bind_outcome (parseContractAllowlist jc params) (validateContractList isContract)"

definition allowlist_of :: "json_codec \<Rightarrow> (string \<Rightarrow> bool) \<Rightarrow> string \<Rightarrow> allowlistSet outcome" where
  "allowlist_of jc isContract params =
     bind_outcome (parseContractAllowlist jc params) (\<lambda>p.
     bind_outcome (validateContractList isContract p) (\<lambda>_.
       Returns \<lparr>as_ids = items (cap_ContractIDs p), as_exclude = cap_Exclude p\<rparr>))"

definition allowlist_match :: "allowlistSet \<Rightarrow> DecodedEvent \<Rightarrow> bool" where
  "allowlist_match s ev = (if as_exclude s then de_ContractID ev \<notin> set (as_ids s) else de_ContractID ev \<in> set (as_ids s))"

definition ContractAllowlist_Evaluate ::
  "json_codec \<Rightarrow> (string \<Rightarrow> bool) \<Rightarrow> (allowlistSet memo \<Rightarrow> string) \<Rightarrow> DecodedEvent \<Rightarrow> string \<Rightarrow>
   allowlistSet memo \<Rightarrow> bool outcome \<times> allowlistSet memo" where
  "ContractAllowlist_Evaluate jc isContract pick ev params m =
     (case memoised (allowlist_of jc isContract) pick params m of
        (r, m') \<Rightarrow> (bind_outcome r (\<lambda>s. Returns (allowlist_match s ev)), m'))"

end
