(* ===== verification/Rule_Registry.thy ===== *)
theory Rule_Registry
  imports Rule_Caches Watch_Topics
begin

text \<open>
  The registry of \<open>internal/rules/rules.go\<close> with the evaluators it is built with, and what the poller and the API rely on
  when they go through it: \<open>Validate\<close>, the dispatch of \<open>evaluate\<close>, \<open>EventNames\<close>, \<open>Explain\<close> and \<open>DryRun\<close>.

  An evaluator is the table of its methods; an optional interface it does not implement is \<open>None\<close>. \<open>rule_world\<close> holds the
  three caches and the state of the evaluators that keep some. Of the fifteen types the twelve stateless ones are those
  of \<open>Rule_Evaluators\<close> and \<open>Rule_Caches\<close>; \<open>frequency_threshold\<close>, \<open>composite\<close> and \<open>baseline_deviation\<close> are parameters
  here (the first two have theories of their own). \<open>ParseCooldown\<close> and \<open>ParseGuidance\<close> together are \<open>common\<close>.
\<close>

record 's rule_world =
  rw_regex :: "regexCacheEntry memo"
  rw_watch :: "watchlistSet memo"
  rw_allow :: "allowlistSet memo"
  rw_other :: 's

record rule_env =
  en_json :: json_codec
  en_isContract :: "string \<Rightarrow> bool"
  en_isAddress :: "string \<Rightarrow> bool"
  en_compile :: "string \<Rightarrow> regexp option"

text \<open>What one call finds: the order of a map, the entries that full caches drop, the state of its context.\<close>

record call_env =
  cl_order :: map_order
  cl_regex :: "regexCacheEntry memo \<Rightarrow> string"
  cl_watch :: "watchlistSet memo \<Rightarrow> string"
  cl_allow :: "allowlistSet memo \<Rightarrow> string"
  cl_ctxErr :: "verr option"

record 's evaluator =
  ev_Validate :: "call_env \<Rightarrow> string \<Rightarrow> unit outcome"
  ev_Evaluate :: "call_env \<Rightarrow> DecodedEvent \<Rightarrow> string \<Rightarrow> 's rule_world \<Rightarrow> bool outcome \<times> 's rule_world"
  ev_EventNames :: "(string \<Rightarrow> string list option) option"
  ev_Explain :: "(call_env \<Rightarrow> DecodedEvent \<Rightarrow> string \<Rightarrow> RuleExplanation outcome) option"

type_synonym 's evaluators = "(string \<times> 's evaluator) list"

definition stateless ::
  "(string \<Rightarrow> unit outcome) \<Rightarrow> (DecodedEvent \<Rightarrow> string \<Rightarrow> bool outcome) \<Rightarrow> (string \<Rightarrow> string list option) option \<Rightarrow>
   (DecodedEvent \<Rightarrow> string \<Rightarrow> RuleExplanation outcome) option \<Rightarrow> 's evaluator" where
  "stateless v e n x =
     \<lparr>ev_Validate = (\<lambda>cl. v), ev_Evaluate = (\<lambda>cl ev params w. (e ev params, w)), ev_EventNames = n,
      ev_Explain = map_option (\<lambda>f cl. f) x\<rparr>"

definition event_emitted_evaluator :: "rule_env \<Rightarrow> 's evaluator" where
  "event_emitted_evaluator en =
     \<lparr>ev_Validate = (\<lambda>cl. EventEmitted_Validate (en_json en) (cl_order cl)),
      ev_Evaluate = (\<lambda>cl ev params w. (EventEmitted_Evaluate (en_json en) (cl_order cl) ev params, w)),
      ev_EventNames = Some (EventEmitted_EventNames (en_json en)),
      ev_Explain = Some (\<lambda>cl. EventEmitted_Explain (en_json en) (cl_order cl))\<rparr>"

definition topic_regex_evaluator :: "rule_env \<Rightarrow> 's evaluator" where
  "topic_regex_evaluator en =
     \<lparr>ev_Validate = (\<lambda>cl. TopicRegex_Validate (en_json en) (en_compile en)),
      ev_Evaluate = (\<lambda>cl ev params w.
        case TopicRegex_Evaluate (en_json en) (en_compile en) (cl_regex cl) (cl_ctxErr cl) ev params (rw_regex w) of
          (r, m) \<Rightarrow> (r, w\<lparr>rw_regex := m\<rparr>)),
      ev_EventNames = None, ev_Explain = None\<rparr>"

definition address_watchlist_evaluator :: "rule_env \<Rightarrow> 's evaluator" where
  "address_watchlist_evaluator en =
     \<lparr>ev_Validate = (\<lambda>cl. AddressWatchlist_Validate (en_json en) (en_isAddress en)),
      ev_Evaluate = (\<lambda>cl ev params w.
        case AddressWatchlist_Evaluate (en_json en) (en_isAddress en) (cl_watch cl) ev params (rw_watch w) of
          (r, m) \<Rightarrow> (r, w\<lparr>rw_watch := m\<rparr>)),
      ev_EventNames = Some (AddressWatchlist_EventNames (en_json en)), ev_Explain = None\<rparr>"

definition contract_allowlist_evaluator :: "rule_env \<Rightarrow> 's evaluator" where
  "contract_allowlist_evaluator en =
     \<lparr>ev_Validate = (\<lambda>cl. ContractAllowlist_Validate (en_json en) (en_isContract en)),
      ev_Evaluate = (\<lambda>cl ev params w.
        case ContractAllowlist_Evaluate (en_json en) (en_isContract en) (cl_allow cl) ev params (rw_allow w) of
          (r, m) \<Rightarrow> (r, w\<lparr>rw_allow := m\<rparr>)),
      ev_EventNames = None, ev_Explain = None\<rparr>"

definition NewRegistry :: "rule_env \<Rightarrow> 's evaluator \<Rightarrow> 's evaluator \<Rightarrow> 's evaluator \<Rightarrow> 's evaluators" where
  "NewRegistry en frequency composite baseline =
     (let jc = en_json en in
      [(''event_emitted'', event_emitted_evaluator en),
       (''value_threshold'', stateless (ValueThreshold_Validate jc) (ValueThreshold_Evaluate jc)
          (Some (ValueThreshold_EventNames jc)) (Some (ValueThreshold_Explain jc))),
       (''contract_allowlist'', contract_allowlist_evaluator en),
       (''event_name_glob'', stateless (EventNameGlob_Validate jc) (EventNameGlob_Evaluate jc) None None),
       (''numeric_range'', stateless (NumericRange_Validate jc) (NumericRange_Evaluate jc) None None),
       (''token_supply_change'', stateless (TokenSupplyChange_Validate jc) (TokenSupplyChange_Evaluate jc)
          (Some (TokenSupplyChange_EventNames jc)) None),
       (''token_event'', stateless (TokenEvent_Validate jc) (TokenEvent_Evaluate jc)
          (Some (TokenEvent_EventNames jc)) (Some (TokenEvent_Explain jc))),
       (''self_transfer'', stateless (SelfTransfer_Validate jc) (SelfTransfer_Evaluate jc) None None),
       (''time_window'', stateless (TimeWindow_Validate jc) (TimeWindow_Evaluate jc) None None),
       (''frequency_threshold'', frequency),
       (TypeComposite, composite),
       (''topic_regex'', topic_regex_evaluator en),
       (''address_watchlist'', address_watchlist_evaluator en),
       (''topic_position'', stateless (TopicPosition_Validate jc) (TopicPosition_Evaluate jc)
          (Some (TopicPosition_EventNames jc)) None),
       (''baseline_deviation'', baseline)])"

definition absences :: "string list" where "absences = [''absence_of_event'']"

definition registry_evaluate ::
  "'s evaluators \<Rightarrow> call_env \<Rightarrow> string \<Rightarrow> DecodedEvent \<Rightarrow> string \<Rightarrow> 's rule_world \<Rightarrow> bool outcome \<times> 's rule_world" where
  "registry_evaluate reg cl ruleType ev params w =
     (case map_of reg ruleType of
        None \<Rightarrow>
          if ruleType \<in> set absences then (Returns False, w)
          else (Fails (VPlain (''unknown rule type '' @ go_quote ruleType)), w)
      | Some e \<Rightarrow> ev_Evaluate e cl ev params w)"

definition registry_EventNames :: "'s evaluators \<Rightarrow> string \<Rightarrow> string \<Rightarrow> string list option" where
  "registry_EventNames reg ruleType params =
     (case map_of reg ruleType of
        None \<Rightarrow> None
      | Some e \<Rightarrow> (case ev_EventNames e of None \<Rightarrow> None | Some namer \<Rightarrow> namer params))"

definition registry_Validate ::
  "'s evaluators \<Rightarrow> (string \<Rightarrow> unit outcome) \<Rightarrow> (string \<Rightarrow> unit outcome) \<Rightarrow> call_env \<Rightarrow> string \<Rightarrow> string \<Rightarrow> unit outcome" where
  "registry_Validate reg absence common cl ruleType params =
     (case map_of reg ruleType of
        None \<Rightarrow>
          if ruleType \<in> set absences then bind_outcome (absence params) (\<lambda>_. common params)
          else Fails (VPlain (''unknown rule type '' @ go_quote ruleType))
      | Some e \<Rightarrow> bind_outcome (ev_Validate e cl params) (\<lambda>_. common params))"

definition registry_Explain ::
  "'s evaluators \<Rightarrow> call_env \<Rightarrow> string \<Rightarrow> DecodedEvent \<Rightarrow> string \<Rightarrow> 's rule_world \<Rightarrow> RuleExplanation outcome \<times> 's rule_world" where
  "registry_Explain reg cl ruleType ev params w =
     (case map_of reg ruleType of
        None \<Rightarrow>
          if ruleType \<in> set absences
          then (Returns \<lparr>re_Matched = False, re_Conditions = [condition ''absence_rule'' False]\<rparr>, w)
          else (Fails (VPlain (''unknown rule type '' @ go_quote ruleType)), w)
      | Some e \<Rightarrow>
          (case ev_Explain e of
             Some explain \<Rightarrow> (explain cl ev params, w)
           | None \<Rightarrow>
               (case ev_Evaluate e cl ev params w of
                  (r, w') \<Rightarrow> (bind_outcome r (\<lambda>matched. Returns \<lparr>re_Matched = matched, re_Conditions = [condition ''rule_match'' matched]\<rparr>), w'))))"

fun registry_DryRun ::
  "'s evaluators \<Rightarrow> (nat \<Rightarrow> call_env) \<Rightarrow> string \<Rightarrow> DecodedEvent list \<Rightarrow> string \<Rightarrow> 's rule_world \<Rightarrow> DecodedEvent list outcome \<times> 's rule_world" where
  "registry_DryRun reg cls ruleType events params w =
     (case map_of reg ruleType of
        None \<Rightarrow> (Fails (VPlain (''unknown rule type '' @ go_quote ruleType)), w)
      | Some e \<Rightarrow>
          (case events of
             [] \<Rightarrow> (Returns [], w)
           | ev # rest \<Rightarrow>
               (case ev_Evaluate e (cls (length rest)) ev params w of
                  (Returns matched, w') \<Rightarrow>
                    (case registry_DryRun reg cls ruleType rest params w' of
                       (r, w'') \<Rightarrow> (bind_outcome r (\<lambda>ms. Returns (if matched then ev # ms else ms)), w''))
                | (Fails err, w') \<Rightarrow> (Fails err, w')
                | (Panics, w') \<Rightarrow> (Panics, w'))))"

subsection \<open>The caches do not show\<close>

definition sound_world :: "rule_env \<Rightarrow> 's rule_world \<Rightarrow> bool" where
  "sound_world en w \<longleftrightarrow>
     memo_reachable (compilePattern (en_json en) (en_compile en)) (rw_regex w) \<and>
     memo_reachable (watchlist_of (en_json en) (en_isAddress en)) (rw_watch w) \<and>
     memo_reachable (allowlist_of (en_json en) (en_isContract en)) (rw_allow w)"

definition fresh_world :: "'s \<Rightarrow> 's rule_world" where
  "fresh_world s = \<lparr>rw_regex = [], rw_watch = [], rw_allow = [], rw_other = s\<rparr>"

lemma sound_fresh [simp]: "sound_world en (fresh_world s)"
  by (simp add: sound_world_def fresh_world_def memo_reachable.empty)

definition stateful_types :: "string list" where
  "stateful_types = [''frequency_threshold'', TypeComposite, ''baseline_deviation'']"

text \<open>What every stateless evaluator guarantees, on any caches the process can have come to.\<close>

definition contract_of :: "rule_env \<Rightarrow> 's evaluator \<Rightarrow> bool" where
  "contract_of en e \<longleftrightarrow>
     (\<forall>cl ev params w. sound_world en w \<longrightarrow>
        sound_world en (snd (ev_Evaluate e cl ev params w)) \<and>
        (\<forall>s. fst (ev_Evaluate e cl ev params w) = fst (ev_Evaluate e cl ev params (fresh_world s))) \<and>
        (\<forall>cl'. cl_ctxErr cl = None \<longrightarrow> ev_Validate e cl' params = Returns () \<longrightarrow> returns (fst (ev_Evaluate e cl ev params w))))"

definition names_its_events :: "rule_env \<Rightarrow> 's evaluator \<Rightarrow> bool" where
  "names_its_events en e \<longleftrightarrow>
     (\<forall>cl ev params w namer ns. sound_world en w \<longrightarrow> ev_EventNames e = Some namer \<longrightarrow> namer params = Some ns \<longrightarrow>
        fst (ev_Evaluate e cl ev params w) = Returns True \<longrightarrow> EventName ev \<in> set ns)"

lemma contract_stateless:
  "rule_evaluator v e \<Longrightarrow> contract_of en (stateless v e n x)"
  by (simp add: contract_of_def stateless_def rule_evaluator_def)

lemma contract_event_emitted: "contract_of en (event_emitted_evaluator en)"
  by (auto simp: contract_of_def event_emitted_evaluator_def dest: event_emitted.accepted)

lemmas cached_defs =
  topic_regex_evaluator_def TopicRegex_Evaluate_def TopicRegex_Validate_def
  address_watchlist_evaluator_def AddressWatchlist_Evaluate_def AddressWatchlist_Validate_def watchlist_of_def
  contract_allowlist_evaluator_def ContractAllowlist_Evaluate_def ContractAllowlist_Validate_def allowlist_of_def

definition uncached :: "rule_env \<Rightarrow> 's evaluator \<Rightarrow> (call_env \<Rightarrow> DecodedEvent \<Rightarrow> string \<Rightarrow> bool outcome) \<Rightarrow> bool" where
  "uncached en e answer \<longleftrightarrow>
     (\<forall>cl ev params w. sound_world en w \<longrightarrow>
        sound_world en (snd (ev_Evaluate e cl ev params w)) \<and> fst (ev_Evaluate e cl ev params w) = answer cl ev params)"

lemma contract_uncached:
  assumes "uncached en e answer"
    and "\<And>cl cl' ev params. ev_Validate e cl' params = Returns () \<Longrightarrow> cl_ctxErr cl = None \<Longrightarrow> returns (answer cl ev params)"
  shows "contract_of en e"
  using assms sound_fresh unfolding uncached_def contract_of_def by metis

lemma uncached_topic_regex:
  "uncached en (topic_regex_evaluator en)
     (\<lambda>cl ev params. case cl_ctxErr cl of Some err \<Rightarrow> Fails err
        | None \<Rightarrow> bind_outcome (compilePattern (en_json en) (en_compile en) params) (\<lambda>e. Returns (regex_match e ev)))"
  by (auto simp: uncached_def topic_regex_evaluator_def TopicRegex_Evaluate_def sound_world_def
           dest: memoised_pair split: option.split prod.split)

lemma uncached_address_watchlist:
  "uncached en (address_watchlist_evaluator en)
     (\<lambda>cl ev params. bind_outcome (watchlist_of (en_json en) (en_isAddress en) params) (\<lambda>s. Returns (watchlist_match s ev)))"
  by (auto simp: uncached_def address_watchlist_evaluator_def AddressWatchlist_Evaluate_def sound_world_def
           dest: memoised_pair split: prod.split)

lemma uncached_contract_allowlist:
  "uncached en (contract_allowlist_evaluator en)
     (\<lambda>cl ev params. bind_outcome (allowlist_of (en_json en) (en_isContract en) params) (\<lambda>s. Returns (allowlist_match s ev)))"
  by (auto simp: uncached_def contract_allowlist_evaluator_def ContractAllowlist_Evaluate_def sound_world_def
           dest: memoised_pair split: prod.split)

lemma contract_topic_regex: "contract_of en (topic_regex_evaluator en)"
  by (rule contract_uncached [OF uncached_topic_regex]) (auto simp: topic_regex_evaluator_def TopicRegex_Validate_def)

lemma contract_address_watchlist: "contract_of en (address_watchlist_evaluator en)"
  by (rule contract_uncached [OF uncached_address_watchlist])
     (auto simp: address_watchlist_evaluator_def AddressWatchlist_Validate_def watchlist_of_def)

lemma contract_contract_allowlist: "contract_of en (contract_allowlist_evaluator en)"
  by (rule contract_uncached [OF uncached_contract_allowlist])
     (auto simp: contract_allowlist_evaluator_def ContractAllowlist_Validate_def allowlist_of_def)

lemma registry_contracts:
  "list_all (\<lambda>(t, e). t \<in> set stateful_types \<or> contract_of en e) (NewRegistry en f c b)"
  by (simp add: NewRegistry_def Let_def stateful_types_def contract_stateless contract_event_emitted contract_topic_regex
      contract_address_watchlist contract_contract_allowlist value_threshold.rule_evaluator_axioms
      event_name_glob.rule_evaluator_axioms numeric_range.rule_evaluator_axioms token_supply_change.rule_evaluator_axioms
      token_event.rule_evaluator_axioms self_transfer.rule_evaluator_axioms time_window.rule_evaluator_axioms
      topic_position.rule_evaluator_axioms)

lemma names_stateless: "event_namer e n \<Longrightarrow> names_its_events en (stateless v e (Some n) x)"
  by (simp add: names_its_events_def stateless_def event_namer_def)

lemma names_none:
  "names_its_events en (stateless v e None x)" "names_its_events en (topic_regex_evaluator en)"
  "names_its_events en (contract_allowlist_evaluator en)"
  by (simp_all add: names_its_events_def stateless_def topic_regex_evaluator_def contract_allowlist_evaluator_def)

lemma names_event_emitted: "names_its_events en (event_emitted_evaluator en)"
  by (auto simp: names_its_events_def event_emitted_evaluator_def dest: event_emitted.named)

lemma watchlist_named:
  assumes "watchlist_of jc isAddress params = Returns s" and "watchlist_match s ev"
    and "AddressWatchlist_EventNames jc params = Some ns"
  shows "EventName ev \<in> set ns"
proof -
  have "EventName ev \<in> set (map fst sep41Events)"
    using assms(2) sep41_name by (fastforce simp: watchlist_match_def split: option.splits if_splits)
  then show ?thesis using assms
    by (auto simp: watchlist_of_def watchlist_match_def AddressWatchlist_EventNames_def simp del: set_map
             split: option.splits if_splits)
qed

lemma names_address_watchlist: "names_its_events en (address_watchlist_evaluator en)"
  unfolding names_its_events_def
proof (intro allI impI)
  fix cl ev params namer ns and w :: "'a rule_world"
  let ?e = "address_watchlist_evaluator en :: 'a evaluator"
  assume w: "sound_world en w" and n: "ev_EventNames ?e = Some namer" "namer params = Some ns"
    and "fst (ev_Evaluate ?e cl ev params w) = Returns True"
  then have "bind_outcome (watchlist_of (en_json en) (en_isAddress en) params) (\<lambda>s. Returns (watchlist_match s ev)) = Returns True"
    using uncached_address_watchlist [of en] unfolding uncached_def by metis
  moreover have "AddressWatchlist_EventNames (en_json en) params = Some ns"
    using n by (simp add: address_watchlist_evaluator_def)
  ultimately show "EventName ev \<in> set ns" using watchlist_named by fastforce
qed

lemma registry_names:
  "names_its_events en f \<Longrightarrow> names_its_events en c \<Longrightarrow> names_its_events en b \<Longrightarrow>
   list_all (\<lambda>(t, e). names_its_events en e) (NewRegistry en f c b)"
  by (simp add: NewRegistry_def Let_def names_stateless names_event_emitted names_address_watchlist names_none
      value_threshold.event_namer_axioms token_supply_change.event_namer_axioms
      token_event.event_namer_axioms topic_position.event_namer_axioms)

subsection \<open>Properties\<close>

text \<open>
  C3. A rule that was accepted can always be evaluated. When \<open>Registry.Validate\<close> takes the params of a stateless rule, every
  later evaluation returns a verdict for every event: no error that would count against the rule and no panic,
  whatever the caches hold by then and in whatever order Go walks its maps.
\<close>

theorem accepted_rule_always_answers:
  assumes "registry_Validate (NewRegistry en f c b) absence common cl' ruleType params = Returns ()"
    and "ruleType \<notin> set stateful_types" and "ruleType \<notin> set absences"
    and "sound_world en w" and "cl_ctxErr cl = None"
  shows "\<exists>matched. fst (registry_evaluate (NewRegistry en f c b) cl ruleType ev params w) = Returns matched"
proof -
  obtain e where e: "map_of (NewRegistry en f c b) ruleType = Some e" "ev_Validate e cl' params = Returns ()"
    using assms(1,3) by (auto simp: registry_Validate_def split: option.splits)
  then have "contract_of en e" using registry_contracts [of en f c b] assms(2) by (auto simp: list_all_iff dest: map_of_SomeD)
  then have "returns (fst (ev_Evaluate e cl ev params w))" using assms(4,5) e(2) unfolding contract_of_def by blast
  then show ?thesis by (simp add: registry_evaluate_def e returns_iff)
qed

text \<open>
  C4. The caches of the three memoising evaluators never show. On any caches that any interleaving of evaluations and
  evictions can have left, a stateless rule answers what it would answer in a fresh process, the caches it leaves are
  again of that kind, and none of the three holds more than its 256 entries.
\<close>

theorem cached_rule_answers_as_if_fresh:
  assumes "sound_world en w" and "ruleType \<notin> set stateful_types"
  shows "fst (registry_evaluate (NewRegistry en f c b) cl ruleType ev params w) =
           fst (registry_evaluate (NewRegistry en f c b) cl ruleType ev params (fresh_world s)) \<and>
         sound_world en (snd (registry_evaluate (NewRegistry en f c b) cl ruleType ev params w)) \<and>
         length (rw_regex w) \<le> 256 \<and> length (rw_watch w) \<le> 256 \<and> length (rw_allow w) \<le> 256"
proof -
  have "contract_of en e" if "map_of (NewRegistry en f c b) ruleType = Some e" for e
    using registry_contracts [of en f c b] assms(2) that by (auto simp: list_all_iff dest: map_of_SomeD)
  then have "fst (registry_evaluate (NewRegistry en f c b) cl ruleType ev params w) =
      fst (registry_evaluate (NewRegistry en f c b) cl ruleType ev params (fresh_world s)) \<and>
      sound_world en (snd (registry_evaluate (NewRegistry en f c b) cl ruleType ev params w))"
    using assms(1) unfolding contract_of_def by (auto simp: registry_evaluate_def split: option.split)
  moreover have "length (rw_regex w) \<le> 256 \<and> length (rw_watch w) \<le> 256 \<and> length (rw_allow w) \<le> 256"
    using assms(1) by (auto simp: sound_world_def regexCacheMax_def dest!: memo_bounded)
  ultimately show ?thesis by simp
qed

lemma registry_named:
  assumes "names_its_events en f" "names_its_events en c" "names_its_events en b" and "sound_world en w"
    and "registry_EventNames (NewRegistry en f c b) ruleType params = Some ns"
    and "fst (registry_evaluate (NewRegistry en f c b) cl ruleType ev params w) = Returns True"
  shows "EventName ev \<in> set ns"
proof -
  obtain e namer where e: "map_of (NewRegistry en f c b) ruleType = Some e" "ev_EventNames e = Some namer" "namer params = Some ns"
    using assms(5) by (auto simp: registry_EventNames_def split: option.splits)
  then have "names_its_events en e"
    using registry_names [OF assms(1-3)] by (auto simp: list_all_iff dest: map_of_SomeD)
  then show ?thesis using assms(4,6) e unfolding names_its_events_def registry_evaluate_def by auto
qed

text \<open>
  When \<open>Poll\<close> narrows a watched contract to a list of topic filters, the filter for the event's own name is in the list for
  every event that some rule of some monitor watching the contract matches, provided \<open>EventNames\<close> of the three evaluators
  given as parameters names what they match. The filter asks for the name as a symbol. The decoder turns a first topic that
  is a string into the same name, so an event that carries its name as a string matches the rule and is still
  not served under the filter.
\<close>

theorem topic_filter_hides_no_match:
  fixes en f c b
  defines "reg \<equiv> NewRegistry en f c b"
  assumes "names_its_events en f" "names_its_events en c" "names_its_events en b" and "sound_world en w"
    and "watch_monitors (\<lambda>r. registry_EventNames reg (ru_Type r) (ru_Params r)) valid listRules ms watch_acc0 = Inr acc"
    and "sc \<in> set (scheduled_of symbol acc)" and "sc_Topics sc \<noteq> []"
    and "m \<in> set ms" and "sc_ContractID sc \<in> set (mo_ContractIDs m)" and "valid (sc_ContractID sc)"
    and "listRules (mo_ID m) = Inr ruleList" and "r \<in> set ruleList"
    and "fst (registry_evaluate reg cl (ru_Type r) ev (ru_Params r) w) = Returns True"
  shows "\<exists>filt. symbol (EventName ev) = Some filt \<and> filt \<in> set (sc_Topics sc)"
proof -
  obtain ns where ns: "registry_EventNames reg (ru_Type r) (ru_Params r) = Some ns"
      "\<forall>n \<in> set ns. \<exists>filt. symbol n = Some filt \<and> filt \<in> set (sc_Topics sc)"
    using filter_names_every_rule [OF assms(6-13)] by blast
  moreover have "EventName ev \<in> set ns"
    using registry_named [OF assms(2-5)] ns(1) assms(14) unfolding reg_def by blast
  ultimately show ?thesis by blast
qed

definition sample_env :: rule_env where
  "sample_env =
     \<lparr>en_json = sample_codec
        [(''names'', JObj [(''event_name'', JStr ''mint'')]), (''ids'', JObj [(''contract_ids'', JArr [JStr ''C1''])])],
      en_isContract = (\<lambda>c. True), en_isAddress = (\<lambda>a. True), en_compile = (\<lambda>pat. Some (\<lambda>s. s = pat))\<rparr>"

definition sample_call :: call_env where
  "sample_call = \<lparr>cl_order = (\<lambda>m. m), cl_regex = (\<lambda>m. ''''), cl_watch = (\<lambda>m. ''''), cl_allow = (\<lambda>m. ''''), cl_ctxErr = None\<rparr>"

definition idle_evaluator :: "unit evaluator" where
  "idle_evaluator = stateless (\<lambda>params. Returns ()) (\<lambda>ev params. Returns False) None None"

definition sample_registry :: "unit evaluators" where
  "sample_registry = NewRegistry sample_env idle_evaluator idle_evaluator idle_evaluator"

definition warm_world :: "unit rule_world" where
  "warm_world = (fresh_world ())\<lparr>rw_allow := memo_put (\<lambda>m. '''') ''ids'' \<lparr>as_ids = [''C1''], as_exclude = False\<rparr> []\<rparr>"

lemma warm_world_sound: "sound_world sample_env warm_world"
proof -
  have "allowlist_of (en_json sample_env) (en_isContract sample_env) ''ids'' = Returns \<lparr>as_ids = [''C1''], as_exclude = False\<rparr>"
    by code_simp
  then show ?thesis
    by (auto simp: sound_world_def warm_world_def fresh_world_def intro: memo_reachable.intros)
qed

lemma idle_names: "names_its_events sample_env idle_evaluator"
  by (simp add: idle_evaluator_def names_none)

theorem accepted_rule_always_answers_witness:
  "\<exists>matched. fst (registry_evaluate sample_registry sample_call ''contract_allowlist'' (sample_event [] GNil) ''ids'' warm_world) = Returns matched"
proof -
  have "registry_Validate sample_registry (\<lambda>p. Returns ()) (\<lambda>p. Returns ()) sample_call ''contract_allowlist'' ''ids'' = Returns ()"
    by code_simp
  then show ?thesis
    unfolding sample_registry_def
    by (rule accepted_rule_always_answers [OF _ _ _ warm_world_sound]) code_simp+
qed

theorem cached_rule_answers_as_if_fresh_witness:
  "fst (registry_evaluate sample_registry sample_call ''contract_allowlist'' (sample_event [] GNil) ''ids'' warm_world) =
     fst (registry_evaluate sample_registry sample_call ''contract_allowlist'' (sample_event [] GNil) ''ids'' (fresh_world ()))"
  using cached_rule_answers_as_if_fresh [OF warm_world_sound, of "''contract_allowlist''" idle_evaluator idle_evaluator idle_evaluator
      sample_call "sample_event [] GNil" "''ids''" "()"]
  by (simp add: sample_registry_def stateful_types_def TypeComposite_def)

definition sample_rule :: Rule where
  "sample_rule = \<lparr>ru_ID = 1, ru_Type = ''event_emitted'', ru_Params = ''names'', ru_Version = 1, ru_Severity = '''',
                  ru_RunbookURL = '''', ru_ResponseGuidance = ''''\<rparr>"

definition sample_names :: "Rule \<Rightarrow> string list option" where
  "sample_names r = registry_EventNames sample_registry (ru_Type r) (ru_Params r)"

theorem topic_filter_hides_no_match_witness:
  "\<exists>acc. watch_monitors sample_names (\<lambda>c. True) (\<lambda>i. Inr [sample_rule]) [topics_demo_monitor] watch_acc0 = Inr acc \<and>
     (\<exists>filt. Some [''mint'', ''**''] = Some filt \<and> filt \<in> set (sc_Topics (hd (scheduled_of (\<lambda>n. Some [n, ''**'']) acc))))"
proof -
  have names: "sample_names sample_rule = Some [''mint'']" by code_simp
  define acc where "acc = watch_contract (\<lambda>c. True) (Some [''mint'']) topics_demo_monitor ''C1'' watch_acc0"
  have w: "watch_monitors sample_names (\<lambda>c. True) (\<lambda>i. Inr [sample_rule]) [topics_demo_monitor] watch_acc0 = Inr acc"
    by (simp add: acc_def names topics_demo_monitor_def ruleEventNames_def sortedKeys_def)
  have s: "scheduled_of (\<lambda>n. Some [n, ''**'']) acc =
      [\<lparr>sc_ContractID = ''C1'', sc_Topics = [[''mint'', ''**'']], sc_Priority = PriorityNormal\<rparr>]"
    by (simp add: scheduled_of_def acc_def watch_contract_def watch_acc0_def topicFiltersFor_def sortedKeys_def
          maxTopicFilters_def topics_demo_monitor_def Priority_Normalized_def Let_def PriorityNormal_def)
  have m: "fst (registry_evaluate sample_registry sample_call (ru_Type sample_rule) (sample_event [GStr ''mint''] GNil)
      (ru_Params sample_rule) (fresh_world ())) = Returns True" by code_simp
  have e: "EventName (sample_event [GStr ''mint''] GNil) = ''mint''" by code_simp
  have fn: "sample_names = (\<lambda>r. registry_EventNames sample_registry (ru_Type r) (ru_Params r))"
    by (rule ext) (simp add: sample_names_def)
  show ?thesis
    using w topic_filter_hides_no_match [OF idle_names idle_names idle_names sound_fresh w [unfolded fn sample_registry_def],
        of "hd (scheduled_of (\<lambda>n. Some [n, ''**'']) acc)" "\<lambda>n. Some [n, ''**'']" topics_demo_monitor "[sample_rule]" sample_rule
        sample_call "sample_event [GStr ''mint''] GNil" "()"] m e
    by (simp add: s sample_registry_def topics_demo_monitor_def)
qed

end
