(* ===== verification/Route_Table.thy ===== *)
theory Route_Table
  imports Event_Values "HOL-Library.Char_ord" "HOL-Library.List_Lexorder"
begin

text \<open>
  What a route asks of its caller: the roles of \<open>internal/auth/roles.go\<close>, the scope names of
  \<open>internal/auth/tokens.go\<close>, the lookup of \<open>internal/auth/route_table.go\<close> and the two tables of the API
  (\<open>internal/api/scopes.go\<close>, \<open>internal/api/roles.go\<close>), entry by entry.

  The lookup is characterised once for every table: it answers the most specific of the matching patterns and denies when none
  matches. What the tables promise is then a check of their entries, and holds for every method and path a client can send.
\<close>

subsection \<open>Roles\<close>

datatype Role = RoleOpen | RoleUnknown | RoleViewer | RoleEditor | RoleAdmin

definition ParseRole :: "string \<Rightarrow> Role \<times> bool" where
  "ParseRole s0 =
     (let s = trim_space (to_lower s0) in
      if s = ''viewer'' then (RoleViewer, True)
      else if s = ''editor'' then (RoleEditor, True)
      else if s = ''admin'' then (RoleAdmin, True)
      else (RoleUnknown, False))"

fun Role_String :: "Role \<Rightarrow> string" where
  "Role_String RoleViewer = ''viewer''"
| "Role_String RoleEditor = ''editor''"
| "Role_String RoleAdmin = ''admin''"
| "Role_String RoleOpen = ''open''"
| "Role_String RoleUnknown = ''unknown''"

fun rank :: "Role \<Rightarrow> int" where
  "rank RoleOpen = - 1"
| "rank RoleViewer = 1"
| "rank RoleEditor = 2"
| "rank RoleAdmin = 3"
| "rank RoleUnknown = 0"

definition AtLeast :: "Role \<Rightarrow> Role \<Rightarrow> bool" where
  "AtLeast r required = (rank required \<le> rank r)"

subsection \<open>Scopes\<close>

type_synonym Scope = string

definition ScopeMonitorsRead :: Scope where "ScopeMonitorsRead = ''monitors:read''"
definition ScopeMonitorsWrite :: Scope where "ScopeMonitorsWrite = ''monitors:write''"
definition ScopeChannelsRead :: Scope where "ScopeChannelsRead = ''channels:read''"
definition ScopeChannelsWrite :: Scope where "ScopeChannelsWrite = ''channels:write''"
definition ScopeAlertsRead :: Scope where "ScopeAlertsRead = ''alerts:read''"
definition ScopeAlertsWrite :: Scope where "ScopeAlertsWrite = ''alerts:write''"
definition ScopeTemplatesRead :: Scope where "ScopeTemplatesRead = ''templates:read''"
definition ScopeTemplatesWrite :: Scope where "ScopeTemplatesWrite = ''templates:write''"
definition ScopeStatsRead :: Scope where "ScopeStatsRead = ''stats:read''"
definition ScopeTokensRead :: Scope where "ScopeTokensRead = ''tokens:read''"
definition ScopeTokensWrite :: Scope where "ScopeTokensWrite = ''tokens:write''"
definition ScopeAll :: Scope where "ScopeAll = ''*''"
definition ScopeNone :: Scope where "ScopeNone = ''none''"

lemmas scope_defs = ScopeMonitorsRead_def ScopeMonitorsWrite_def ScopeChannelsRead_def ScopeChannelsWrite_def
  ScopeAlertsRead_def ScopeAlertsWrite_def ScopeTemplatesRead_def ScopeTemplatesWrite_def ScopeStatsRead_def
  ScopeTokensRead_def ScopeTokensWrite_def ScopeAll_def ScopeNone_def

definition AllScopes :: "Scope list" where
  "AllScopes =
     [ScopeMonitorsRead, ScopeMonitorsWrite, ScopeChannelsRead, ScopeChannelsWrite, ScopeAlertsRead, ScopeAlertsWrite,
      ScopeTemplatesRead, ScopeTemplatesWrite, ScopeStatsRead, ScopeTokensRead, ScopeTokensWrite, ScopeAll]"

definition validScopes :: "Scope \<Rightarrow> bool" where
  "validScopes s = (s \<in> set AllScopes \<or> s = ScopeNone)"

text \<open>The loop of \<open>RoleForScopes\<close> returns early on an administrative scope.\<close>

fun role_loop :: "Role \<Rightarrow> Scope list \<Rightarrow> Role" where
  "role_loop role [] = role"
| "role_loop role (s # ss) =
     (if s = ScopeAll \<or> s = ScopeTokensWrite then RoleAdmin
      else if s \<in> {ScopeMonitorsWrite, ScopeChannelsWrite, ScopeAlertsWrite, ScopeTemplatesWrite} then role_loop RoleEditor ss
      else role_loop role ss)"

definition RoleForScopes :: "Scope list \<Rightarrow> Role" where
  "RoleForScopes scopes = role_loop RoleViewer scopes"

subsection \<open>The route table\<close>

text \<open>Trimming of one character, \<open>strings.ToUpper\<close> and \<open>strings.HasSuffix\<close>.\<close>

definition trim_right :: "char \<Rightarrow> string \<Rightarrow> string" where
  "trim_right c s = rev (dropWhile (\<lambda>x. x = c) (rev s))"

definition trim_char :: "char \<Rightarrow> string \<Rightarrow> string" where
  "trim_char c s = trim_right c (dropWhile (\<lambda>x. x = c) s)"

definition char_upper :: "char \<Rightarrow> char" where
  "char_upper c = (let n = of_char c :: nat in if 97 \<le> n \<and> n \<le> 122 then char_of (n - 32) else c)"

definition to_upper :: "string \<Rightarrow> string" where
  "to_upper s = map char_upper s"

definition has_suffix :: "string \<Rightarrow> string \<Rightarrow> bool" where
  "has_suffix s t = has_prefix (rev s) (rev t)"

definition NormalizeRoute :: "string \<Rightarrow> string" where
  "NormalizeRoute s0 =
     (let s1 = trim_space s0 in
      if s1 = '''' then ''/''
      else let s2 = (if has_prefix s1 ''/'' then s1 else ''/'' @ s1);
               s3 = (if 1 < length s2 then trim_right (CHR ''/'') s2 else s2)
           in if s3 = '''' then ''/'' else s3)"

definition splitRouteSegments :: "string \<Rightarrow> string list" where
  "splitRouteSegments s0 =
     (let s = NormalizeRoute s0 in
      if s = ''/'' then [] else split_on (CHR ''/'') (trim_char (CHR ''/'') s))"

definition is_param :: "string \<Rightarrow> bool" where
  "is_param p = (has_prefix p ''{'' \<and> has_suffix p ''}'')"

definition PatternMatches :: "string \<Rightarrow> string \<Rightarrow> bool" where
  "PatternMatches pattern path =
     (let pat = splitRouteSegments pattern; seg = splitRouteSegments path in
      length pat = length seg \<and> list_all (\<lambda>(p, s). is_param p \<or> p = s) (zip pat seg))"

definition literalSegments :: "string \<Rightarrow> int" where
  "literalSegments pattern = int (length (filter (\<lambda>seg. \<not> is_param seg) (splitRouteSegments pattern)))"

record 'v RouteTable =
  rt_entries :: "(string \<times> 'v) list"
  rt_patterns :: "string list"

definition NewRouteTable :: "(string \<times> 'v) list \<Rightarrow> 'v RouteTable" where
  "NewRouteTable entries = \<lparr>rt_entries = entries, rt_patterns = sort (map fst entries)\<rparr>"

text \<open>One turn of the loop over the sorted patterns.\<close>

definition consider_pattern :: "string \<Rightarrow> string \<Rightarrow> string \<Rightarrow> string \<times> int \<Rightarrow> string \<times> int" where
  "consider_pattern method path pattern = (\<lambda>(best, bestLiterals).
     case cut (CHR '' '') pattern of
       None \<Rightarrow> (best, bestLiterals)
     | Some (m, pat) \<Rightarrow>
         if \<not> equal_fold m method then (best, bestLiterals)
         else if \<not> PatternMatches pat path then (best, bestLiterals)
         else if bestLiterals < literalSegments pat then (pattern, literalSegments pat)
         else (best, bestLiterals))"

definition RT_Lookup :: "'v RouteTable \<Rightarrow> string \<Rightarrow> string \<Rightarrow> 'v option" where
  "RT_Lookup t method0 path =
     (let method = to_upper (trim_space method0);
          key = method @ '' '' @ NormalizeRoute path
      in case map_of (rt_entries t) key of
           Some v \<Rightarrow> Some v
         | None \<Rightarrow>
             (let (best, _) = fold (consider_pattern method path) (rt_patterns t) ('''', - 1) in
              if best = '''' then None else map_of (rt_entries t) best))"

definition RT_Patterns :: "'v RouteTable \<Rightarrow> string list" where
  "RT_Patterns t = rt_patterns t"

subsection \<open>The tables of the API\<close>

definition scope_entries :: "(string \<times> Scope list) list" where
  "scope_entries =
     [(''POST /monitors'', [ScopeMonitorsWrite]),
      (''GET /monitors'', [ScopeMonitorsRead]),
      (''POST /monitors/bulk'', [ScopeMonitorsWrite]),
      (''GET /monitors/{id}'', [ScopeMonitorsRead]),
      (''PATCH /monitors/{id}'', [ScopeMonitorsWrite]),
      (''DELETE /monitors/{id}'', [ScopeMonitorsWrite]),
      (''POST /monitors/{id}/duplicate'', [ScopeMonitorsWrite]),
      (''POST /monitors/{id}/rules'', [ScopeMonitorsWrite]),
      (''GET /monitors/{id}/rules'', [ScopeMonitorsRead]),
      (''POST /monitors/{id}/rules/bulk'', [ScopeMonitorsWrite]),
      (''PATCH /monitors/{id}/rules/{ruleID}'', [ScopeMonitorsWrite]),
      (''DELETE /monitors/{id}/rules/{ruleID}'', [ScopeMonitorsWrite]),
      (''POST /monitors/import'', [ScopeMonitorsWrite]),
      (''GET /monitors/trash'', [ScopeMonitorsRead]),
      (''POST /monitors/{id}/soft-delete'', [ScopeMonitorsWrite]),
      (''POST /monitors/{id}/restore'', [ScopeMonitorsWrite]),
      (''POST /channels'', [ScopeChannelsWrite]),
      (''GET /channels'', [ScopeChannelsRead]),
      (''GET /channels/{id}'', [ScopeChannelsRead]),
      (''GET /channels/{id}/stats'', [ScopeStatsRead]),
      (''PATCH /channels/{id}'', [ScopeChannelsWrite]),
      (''DELETE /channels/{id}'', [ScopeChannelsWrite]),
      (''POST /channels/{id}/test'', [ScopeChannelsWrite]),
      (''POST /channels/bulk'', [ScopeChannelsWrite]),
      (''POST /channels/{id}/duplicate'', [ScopeChannelsWrite]),
      (''GET /channels/{id}/keys'', [ScopeChannelsRead]),
      (''POST /channels/{id}/keys/rotate'', [ScopeChannelsWrite]),
      (''POST /channels/{id}/keys/{keyID}/retire'', [ScopeChannelsWrite]),
      (''POST /channels/{id}/keys/{keyID}/revoke'', [ScopeChannelsWrite]),
      (''POST /templates'', [ScopeTemplatesWrite]),
      (''GET /templates'', [ScopeTemplatesRead]),
      (''GET /templates/{id}'', [ScopeTemplatesRead]),
      (''PATCH /templates/{id}'', [ScopeTemplatesWrite]),
      (''DELETE /templates/{id}'', [ScopeTemplatesWrite]),
      (''POST /templates/{id}/instantiate'', [ScopeTemplatesWrite, ScopeMonitorsWrite]),
      (''POST /templates/{id}/instantiate/bulk'', [ScopeTemplatesWrite, ScopeMonitorsWrite]),
      (''GET /alerts'', [ScopeAlertsRead]),
      (''GET /alerts.csv'', [ScopeAlertsRead]),
      (''GET /alerts/{id}/deliveries'', [ScopeAlertsRead]),
      (''POST /alerts/{id}/deliveries/{channelID}/retry'', [ScopeAlertsWrite]),
      (''GET /version'', [ScopeNone]),
      (''GET /stats'', [ScopeStatsRead]),
      (''GET /stats/alerts-daily'', [ScopeAlertsRead]),
      (''GET /usage'', [ScopeStatsRead]),
      (''GET /quotas'', [ScopeStatsRead]),
      (''PUT /quotas'', [ScopeMonitorsWrite]),
      (''GET /retention'', [ScopeStatsRead]),
      (''PUT /retention'', [ScopeMonitorsWrite]),
      (''DELETE /retention'', [ScopeMonitorsWrite]),
      (''GET /workspace/export'', [ScopeMonitorsRead]),
      (''GET /workspaces/{id}/export'', [ScopeMonitorsRead]),
      (''DELETE /workspaces/{id}'', [ScopeMonitorsWrite, ScopeChannelsWrite, ScopeAlertsWrite, ScopeTemplatesWrite, ScopeTokensWrite]),
      (''POST /workspaces/{id}/delete'', [ScopeMonitorsWrite, ScopeChannelsWrite, ScopeAlertsWrite, ScopeTemplatesWrite, ScopeTokensWrite]),
      (''GET /workspaces/{id}/delete'', [ScopeMonitorsRead, ScopeChannelsRead, ScopeAlertsRead, ScopeTemplatesRead, ScopeTokensRead]),
      (''POST /tokens'', [ScopeTokensWrite]),
      (''GET /tokens'', [ScopeTokensRead]),
      (''GET /tokens/{id}'', [ScopeTokensRead]),
      (''POST /tokens/{id}/rotate'', [ScopeTokensWrite]),
      (''POST /tokens/{id}/abandon'', [ScopeTokensWrite]),
      (''POST /tokens/{id}/revoke'', [ScopeTokensWrite]),
      (''GET /graphql/operations'', [ScopeNone]),
      (''GET /graphql/operations/{id}'', [ScopeNone]),
      (''POST /graphql/operations'', [ScopeMonitorsWrite]),
      (''DELETE /graphql/operations/{id}'', [ScopeMonitorsWrite]),
      (''GET /alerts/export'', [ScopeAlertsRead]),
      (''GET /alerts/stream'', [ScopeAlertsRead]),
      (''POST /alerts/{id}/acknowledge'', [ScopeAlertsWrite]),
      (''GET /audit'', [ScopeMonitorsRead]),
      (''POST /ingest'', [ScopeAlertsWrite]),
      (''POST /triggers'', [ScopeAlertsWrite]),
      (''POST /inhibitions'', [ScopeAlertsWrite]),
      (''GET /inhibitions'', [ScopeAlertsRead]),
      (''DELETE /inhibitions/{sourceID}/{targetID}'', [ScopeAlertsWrite]),
      (''GET /maintenance-windows'', [ScopeAlertsRead]),
      (''POST /maintenance-windows'', [ScopeAlertsWrite]),
      (''GET /maintenance-windows/{id}'', [ScopeAlertsRead]),
      (''PATCH /maintenance-windows/{id}'', [ScopeAlertsWrite]),
      (''DELETE /maintenance-windows/{id}'', [ScopeAlertsWrite]),
      (''GET /monitors/{id}/escalation'', [ScopeMonitorsRead]),
      (''PUT /monitors/{id}/escalation'', [ScopeMonitorsWrite, ScopeChannelsWrite]),
      (''DELETE /monitors/{id}/escalation'', [ScopeMonitorsWrite]),
      (''POST /monitors/{id}/rules/dry-run'', [ScopeMonitorsRead, ScopeAlertsRead]),
      (''GET /monitors/{id}/stats'', [ScopeStatsRead]),
      (''GET /poller'', [ScopeNone]),
      (''GET /rule-types'', [ScopeNone]),
      (''GET /dead-letters'', [ScopeAlertsRead]),
      (''GET /dead-letters/groups'', [ScopeAlertsRead]),
      (''POST /dead-letters/{id}/redrive'', [ScopeAlertsWrite]),
      (''POST /dead-letters/{id}/discard'', [ScopeAlertsWrite]),
      (''POST /dead-letters/bulk/redrive'', [ScopeAlertsWrite]),
      (''POST /dead-letters/bulk/discard'', [ScopeAlertsWrite])]"

definition routeScopes :: "Scope list RouteTable" where
  "routeScopes = NewRouteTable scope_entries"

definition role_entries :: "(string \<times> Role) list" where
  "role_entries =
     [(''GET /monitors'', RoleViewer),
      (''GET /monitors/{id}'', RoleViewer),
      (''GET /monitors/{id}/stats'', RoleViewer),
      (''GET /monitors/{id}/rules'', RoleViewer),
      (''GET /monitors/{id}/escalation'', RoleViewer),
      (''GET /monitors/trash'', RoleViewer),
      (''POST /monitors'', RoleEditor),
      (''POST /monitors/bulk'', RoleEditor),
      (''POST /monitors/import'', RoleEditor),
      (''PATCH /monitors/{id}'', RoleEditor),
      (''DELETE /monitors/{id}'', RoleEditor),
      (''POST /monitors/{id}/duplicate'', RoleEditor),
      (''POST /monitors/{id}/soft-delete'', RoleEditor),
      (''POST /monitors/{id}/restore'', RoleEditor),
      (''POST /monitors/{id}/rules'', RoleEditor),
      (''POST /monitors/{id}/rules/bulk'', RoleEditor),
      (''PATCH /monitors/{id}/rules/{ruleID}'', RoleEditor),
      (''DELETE /monitors/{id}/rules/{ruleID}'', RoleEditor),
      (''POST /monitors/{id}/rules/dry-run'', RoleViewer),
      (''PUT /monitors/{id}/escalation'', RoleEditor),
      (''DELETE /monitors/{id}/escalation'', RoleEditor),
      (''GET /channels'', RoleViewer),
      (''GET /channels/{id}'', RoleViewer),
      (''GET /channels/{id}/stats'', RoleViewer),
      (''POST /channels'', RoleEditor),
      (''PATCH /channels/{id}'', RoleEditor),
      (''DELETE /channels/{id}'', RoleEditor),
      (''POST /channels/bulk'', RoleEditor),
      (''POST /channels/{id}/duplicate'', RoleEditor),
      (''POST /channels/{id}/test'', RoleEditor),
      (''GET /channels/{id}/keys'', RoleViewer),
      (''POST /channels/{id}/keys/rotate'', RoleEditor),
      (''POST /channels/{id}/keys/{keyID}/retire'', RoleEditor),
      (''POST /channels/{id}/keys/{keyID}/revoke'', RoleEditor),
      (''GET /templates'', RoleViewer),
      (''GET /templates/{id}'', RoleViewer),
      (''POST /templates'', RoleEditor),
      (''PATCH /templates/{id}'', RoleEditor),
      (''DELETE /templates/{id}'', RoleEditor),
      (''POST /templates/{id}/instantiate'', RoleEditor),
      (''POST /templates/{id}/instantiate/bulk'', RoleEditor),
      (''GET /alerts'', RoleViewer),
      (''GET /alerts.csv'', RoleViewer),
      (''GET /alerts/export'', RoleViewer),
      (''GET /alerts/stream'', RoleViewer),
      (''GET /alerts/{id}/deliveries'', RoleViewer),
      (''GET /dead-letters'', RoleViewer),
      (''GET /dead-letters/groups'', RoleViewer),
      (''GET /inhibitions'', RoleViewer),
      (''GET /maintenance-windows'', RoleViewer),
      (''GET /maintenance-windows/{id}'', RoleViewer),
      (''POST /alerts/{id}/acknowledge'', RoleEditor),
      (''POST /alerts/{id}/deliveries/{channelID}/retry'', RoleEditor),
      (''POST /dead-letters/{id}/redrive'', RoleEditor),
      (''POST /dead-letters/{id}/discard'', RoleEditor),
      (''POST /dead-letters/bulk/redrive'', RoleEditor),
      (''POST /dead-letters/bulk/discard'', RoleEditor),
      (''POST /ingest'', RoleEditor),
      (''POST /triggers'', RoleEditor),
      (''POST /inhibitions'', RoleEditor),
      (''DELETE /inhibitions/{sourceID}/{targetID}'', RoleEditor),
      (''POST /maintenance-windows'', RoleEditor),
      (''PATCH /maintenance-windows/{id}'', RoleEditor),
      (''DELETE /maintenance-windows/{id}'', RoleEditor),
      (''GET /stats'', RoleViewer),
      (''GET /stats/alerts-daily'', RoleViewer),
      (''GET /usage'', RoleViewer),
      (''GET /quotas'', RoleViewer),
      (''PUT /quotas'', RoleAdmin),
      (''GET /retention'', RoleViewer),
      (''PUT /retention'', RoleAdmin),
      (''DELETE /retention'', RoleAdmin),
      (''GET /workspace/export'', RoleViewer),
      (''GET /workspaces/{id}/export'', RoleViewer),
      (''DELETE /workspaces/{id}'', RoleAdmin),
      (''POST /workspaces/{id}/delete'', RoleAdmin),
      (''GET /workspaces/{id}/delete'', RoleAdmin),
      (''GET /tokens'', RoleAdmin),
      (''GET /tokens/{id}'', RoleAdmin),
      (''POST /tokens'', RoleAdmin),
      (''POST /tokens/{id}/rotate'', RoleAdmin),
      (''POST /tokens/{id}/abandon'', RoleAdmin),
      (''POST /tokens/{id}/revoke'', RoleAdmin),
      (''GET /audit'', RoleAdmin),
      (''GET /graphql/operations'', RoleViewer),
      (''GET /graphql/operations/{id}'', RoleViewer),
      (''POST /graphql/operations'', RoleAdmin),
      (''DELETE /graphql/operations/{id}'', RoleAdmin),
      (''GET /version'', RoleViewer),
      (''GET /poller'', RoleViewer),
      (''GET /rule-types'', RoleViewer),
      (''GET /health'', RoleOpen),
      (''GET /livez'', RoleOpen),
      (''GET /readyz'', RoleOpen)]"

definition routeRoles :: "Role RouteTable" where
  "routeRoles = NewRouteTable role_entries"

definition requiredScopes :: "string \<Rightarrow> string \<Rightarrow> Scope list option" where
  "requiredScopes method path = RT_Lookup routeScopes method path"

subsection \<open>What the lookup answers\<close>

definition route_matches :: "string \<Rightarrow> string \<Rightarrow> string \<Rightarrow> bool" where
  "route_matches method path key =
     (case cut (CHR '' '') key of
        None \<Rightarrow> False
      | Some (m, pat) \<Rightarrow> equal_fold m (to_upper (trim_space method)) \<and> PatternMatches pat path)"

definition specificity :: "string \<Rightarrow> int" where
  "specificity key = (case cut (CHR '' '') key of None \<Rightarrow> 0 | Some (_, pat) \<Rightarrow> literalSegments pat)"

definition route_key :: "string \<Rightarrow> string \<Rightarrow> string" where
  "route_key method path = to_upper (trim_space method) @ '' '' @ NormalizeRoute path"

text \<open>The entry a request is answered with: its own key, or else the first of the most specific patterns it matches.\<close>

definition most_specific :: "string set \<Rightarrow> string \<Rightarrow> string \<Rightarrow> string \<Rightarrow> bool" where
  "most_specific ks method path k \<longleftrightarrow>
     k \<in> ks \<and> route_matches method path k \<and>
     (\<forall>k' \<in> ks. route_matches method path k' \<longrightarrow>
        specificity k' < specificity k \<or> specificity k' = specificity k \<and> k \<le> k')"

lemma consider_pattern_eq:
  "consider_pattern (to_upper (trim_space method)) path k (b, n) =
     (if route_matches method path k \<and> n < specificity k then (k, specificity k) else (b, n))"
  by (auto simp: consider_pattern_def route_matches_def specificity_def split: option.splits)

lemma specificity_nonneg [simp]: "- 1 < specificity k"
  by (simp add: specificity_def literalSegments_def split: option.splits prod.splits)

lemma most_specific_snoc:
  assumes "\<forall>k' \<in> ks. k' \<le> k"
  shows "most_specific ks method path b \<Longrightarrow>
           most_specific (insert k ks) method path (if route_matches method path k \<and> specificity b < specificity k then k else b)"
    and "\<forall>k' \<in> ks. \<not> route_matches method path k' \<Longrightarrow> route_matches method path k \<Longrightarrow>
           most_specific (insert k ks) method path k"
  using assms by (auto simp: most_specific_def)

lemma best_pattern_fold:
  assumes "sorted ps" "fold (consider_pattern (to_upper (trim_space method)) path) ps ('''', - 1) = (b, n)"
  shows "(b = '''' \<and> n = - 1 \<and> (\<forall>k \<in> set ps. \<not> route_matches method path k)) \<or>
         (most_specific (set ps) method path b \<and> n = specificity b)"
  using assms
proof (induction ps arbitrary: b n rule: rev_induct)
  case (snoc k ps)
  obtain b0 n0 where f: "fold (consider_pattern (to_upper (trim_space method)) path) ps ('''', - 1) = (b0, n0)"
    by fastforce
  have bn: "(b, n) = (if route_matches method path k \<and> n0 < specificity k then (k, specificity k) else (b0, n0))"
    using snoc.prems(2) f by (simp add: consider_pattern_eq)
  have le: "\<forall>k' \<in> set ps. k' \<le> k" and "sorted ps" using snoc.prems(1) by (auto simp: sorted_append)
  from snoc.IH [OF this(2) f] show ?case
  proof (elim disjE conjE)
    assume "b0 = ''''" "n0 = - 1" "\<forall>k \<in> set ps. \<not> route_matches method path k"
    then show ?thesis using bn most_specific_snoc(2) [OF le] by (cases "route_matches method path k") auto
  next
    assume "most_specific (set ps) method path b0" "n0 = specificity b0"
    then show ?thesis using bn most_specific_snoc(1) [OF le, of "method" path b0] by (auto split: if_splits)
  qed
qed simp

lemma most_specific_not_empty: "most_specific ks method path k \<Longrightarrow> k \<noteq> ''''"
  by (auto simp: most_specific_def route_matches_def cut_def)

lemma most_specific_unique: "most_specific ks method path k \<Longrightarrow> most_specific ks method path k' \<Longrightarrow> k = k'"
  by (force simp: most_specific_def)

lemma RT_Lookup_exact: "map_of entries (route_key method path) = Some v \<Longrightarrow> RT_Lookup (NewRouteTable entries) method path = Some v"
  by (simp add: RT_Lookup_def NewRouteTable_def route_key_def)

lemma RT_Lookup_pattern:
  assumes "map_of entries (route_key method path) = None"
  shows "if \<exists>k \<in> fst ` set entries. route_matches method path k
         then \<exists>k. most_specific (fst ` set entries) method path k \<and> RT_Lookup (NewRouteTable entries) method path = map_of entries k
         else RT_Lookup (NewRouteTable entries) method path = None"
proof -
  obtain b n where f: "fold (consider_pattern (to_upper (trim_space method)) path) (sort (map fst entries)) ('''', - 1) = (b, n)"
    by fastforce
  have lk: "RT_Lookup (NewRouteTable entries) method path = (if b = '''' then None else map_of entries b)"
    using assms f by (simp add: RT_Lookup_def NewRouteTable_def route_key_def)
  have "sorted (sort (map fst entries))" by simp
  from best_pattern_fold [OF this f] show ?thesis
  proof (elim disjE conjE)
    assume "b = ''''" "\<forall>k \<in> set (sort (map fst entries)). \<not> route_matches method path k"
    then show ?thesis using lk by simp
  next
    assume m: "most_specific (set (sort (map fst entries))) method path b"
    then have "\<exists>k \<in> fst ` set entries. route_matches method path k" by (auto simp: most_specific_def)
    then show ?thesis using lk m most_specific_not_empty [OF m] by auto
  qed
qed

text \<open>
  C29. The lookup of a route table denies by default and is never ambiguous: the request's own key wins, otherwise the answer is
  the entry of the matching pattern with the most literal segments, the alphabetically first among equals, and there is no answer exactly when
  no entry matches.
\<close>

theorem lookup_answers_the_most_specific_route:
  assumes "distinct (map fst entries)"
  shows "case RT_Lookup (NewRouteTable entries) method path of
           None \<Rightarrow> route_key method path \<notin> fst ` set entries \<and> (\<forall>k \<in> fst ` set entries. \<not> route_matches method path k)
         | Some v \<Rightarrow>
             (\<exists>k. (k, v) \<in> set entries \<and>
                  (k = route_key method path \<or>
                   route_key method path \<notin> fst ` set entries \<and> most_specific (fst ` set entries) method path k))"
proof (cases "map_of entries (route_key method path)")
  case (Some v)
  then show ?thesis by (auto simp: RT_Lookup_exact dest: map_of_SomeD)
next
  case None
  have free: "route_key method path \<notin> fst ` set entries" using None by (simp add: map_of_eq_None_iff)
  show ?thesis
  proof (cases "\<exists>k \<in> fst ` set entries. route_matches method path k")
    case True
    then obtain k where k: "most_specific (fst ` set entries) method path k"
        "RT_Lookup (NewRouteTable entries) method path = map_of entries k"
      using RT_Lookup_pattern [OF None] by auto
    then obtain v where "(k, v) \<in> set entries" by (auto simp: most_specific_def)
    then show ?thesis using k free assms by auto
  next
    case False
    then show ?thesis using RT_Lookup_pattern [OF None] free by simp
  qed
qed

theorem lookup_answers_the_most_specific_route_witness:
  "RT_Lookup (NewRouteTable [(''GET /m/{id}'', 1 :: nat), (''GET /m/trash'', 2), (''GET /{a}/{b}'', 3)]) ''get'' ''/m/7/'' = Some 1 \<and>
   most_specific {''GET /m/{id}'', ''GET /m/trash'', ''GET /{a}/{b}''} ''get'' ''/m/7/'' ''GET /m/{id}''"
proof -
  let ?es = "[(''GET /m/{id}'', 1 :: nat), (''GET /m/trash'', 2), (''GET /{a}/{b}'', 3)]"
  have "distinct (map fst ?es)" and k: "route_key ''get'' ''/m/7/'' = ''GET /m/7''"
    and l: "RT_Lookup (NewRouteTable ?es) ''get'' ''/m/7/'' = Some 1" by code_simp+
  from lookup_answers_the_most_specific_route [OF this(1), of "''get''" "''/m/7/''"] show ?thesis
    unfolding l k by (auto simp: l)
qed

text \<open>What every answer of a table satisfies is a check of its entries.\<close>

definition answers :: "string \<Rightarrow> string \<Rightarrow> string \<Rightarrow> bool" where
  "answers method path k \<longleftrightarrow> k = route_key method path \<or> route_matches method path k"

lemma RT_Lookup_entry:
  assumes "RT_Lookup (NewRouteTable entries) method path = Some v"
  obtains k where "(k, v) \<in> set entries" "answers method path k"
proof (cases "map_of entries (route_key method path)")
  case (Some w)
  then show ?thesis
    using assms that [of "route_key method path"] RT_Lookup_exact [OF Some] by (auto simp: answers_def dest: map_of_SomeD)
next
  case None
  obtain k where "most_specific (fst ` set entries) method path k" "map_of entries k = Some v"
    using assms RT_Lookup_pattern [OF None] by (auto split: if_splits)
  then show ?thesis using that [of k] by (simp add: answers_def most_specific_def map_of_SomeD)
qed

definition is_read_row :: "string \<Rightarrow> bool" where
  "is_read_row k \<longleftrightarrow> has_prefix k ''GET '' \<or> k = ''POST /monitors/{id}/rules/dry-run''"

lemma viewer_rows: "list_all (\<lambda>(k, r). AtLeast r RoleEditor \<or> is_read_row k) role_entries"
  by code_simp

lemma below_editor_reads:
  assumes "RT_Lookup routeRoles method path = Some required" "\<not> AtLeast required RoleEditor"
  shows "\<exists>k. (k, required) \<in> set role_entries \<and> answers method path k \<and> is_read_row k"
proof -
  obtain k where k: "(k, required) \<in> set role_entries" "answers method path k"
    using assms(1) RT_Lookup_entry unfolding routeRoles_def by metis
  with assms(2) viewer_rows show ?thesis by (auto simp: list_all_iff)
qed

text \<open>
  A viewer changes nothing: whatever method and path a client sends, a route the role table opens to viewers is a
  \<open>GET\<close> route, or the dry run of a rule, which stores nothing.
\<close>

theorem viewer_reaches_only_reads:
  assumes "RT_Lookup routeRoles method path = Some required" and "AtLeast RoleViewer required"
  shows "\<exists>k. (k, required) \<in> set role_entries \<and> answers method path k \<and>
             (has_prefix k ''GET '' \<or> k = ''POST /monitors/{id}/rules/dry-run'')"
proof -
  have "\<not> AtLeast required RoleEditor" using assms(2) by (auto simp: AtLeast_def)
  from below_editor_reads [OF assms(1) this] show ?thesis by (simp add: is_read_row_def)
qed

theorem viewer_reaches_only_reads_witness:
  "\<exists>k. (k, RoleViewer) \<in> set role_entries \<and> answers ''get'' ''/monitors/'' k \<and>
       (has_prefix k ''GET '' \<or> k = ''POST /monitors/{id}/rules/dry-run'')"
proof -
  have "map_of role_entries (route_key ''get'' ''/monitors/'') = Some RoleViewer" by code_simp
  then have "RT_Lookup routeRoles ''get'' ''/monitors/'' = Some RoleViewer"
    unfolding routeRoles_def by (rule RT_Lookup_exact)
  from viewer_reaches_only_reads [OF this] show ?thesis by (simp add: AtLeast_def)
qed

subsection \<open>The two tables agree\<close>

definition is_write_scope :: "Scope \<Rightarrow> bool" where
  "is_write_scope s = has_suffix s '':write''"

definition probe_names :: "string list" where
  "probe_names = [''health'', ''livez'', ''readyz'']"

text \<open>Two routes of the same name ask for matching things: a credential at all, and an editor where a write scope is asked for.\<close>

definition gates_fit :: "Scope list \<Rightarrow> Role \<Rightarrow> bool" where
  "gates_fit scopes required \<longleftrightarrow>
     AtLeast required RoleViewer \<and> (list_ex is_write_scope scopes \<longrightarrow> AtLeast required RoleEditor)"

text \<open>Where the role table has the route of each scope row: the certificate that makes the comparison of the tables linear.\<close>

definition role_row_of :: "nat list" where
  "role_row_of =
     [6, 0, 7, 1, 9, 10, 11, 14, 3, 15, 16, 17, 8, 5, 12, 13, 24, 21, 22, 23, 25, 26, 29, 27, 28, 30, 31, 32, 33,
      36, 34, 35, 37, 38, 39, 40, 41, 42, 45, 52, 88, 64, 65, 66, 67, 68, 69, 70, 71, 72, 73, 74, 75, 76, 79, 77,
      78, 80, 81, 82, 84, 85, 86, 87, 43, 44, 51, 83, 57, 58, 59, 48, 60, 49, 61, 50, 62, 63, 4, 19, 20, 18, 2, 89,
      90, 46, 47, 53, 54, 55, 56]"

lemma every_scope_row_has_a_role:
  "list_all2 (\<lambda>(k, scopes) i. i < length role_entries \<and> fst (role_entries ! i) = k \<and> gates_fit scopes (snd (role_entries ! i)))
     scope_entries role_row_of"
  by code_simp

lemma no_scope_row_is_a_probe:
  "list_all (\<lambda>(k, scopes). case cut (CHR '' '') k of None \<Rightarrow> False
     | Some (m, pat) \<Rightarrow> (case splitRouteSegments pat of [x] \<Rightarrow> \<not> is_param x \<and> x \<notin> set probe_names | _ \<Rightarrow> True)) scope_entries"
  by code_simp

lemma every_role_row_is_listed:
  "list_all (\<lambda>i. i \<in> set role_row_of \<or> fst (role_entries ! i) \<in> {''GET /health'', ''GET /livez'', ''GET /readyz''}) [0..<length role_entries]"
  by code_simp

lemma list_all2_left: "list_all2 P xs ys \<Longrightarrow> x \<in> set xs \<Longrightarrow> \<exists>y \<in> set ys. P x y"
  by (induction rule: list_all2_induct) auto

lemma list_all2_right: "list_all2 P xs ys \<Longrightarrow> y \<in> set ys \<Longrightarrow> \<exists>x \<in> set xs. P x y"
  by (induction rule: list_all2_induct) auto

lemma scope_row_role:
  assumes "(k, scopes) \<in> set scope_entries"
  shows "\<exists>r. (k, r) \<in> set role_entries \<and> gates_fit scopes r"
proof -
  obtain i where i: "i < length role_entries" "fst (role_entries ! i) = k" "gates_fit scopes (snd (role_entries ! i))"
    using list_all2_left [OF every_scope_row_has_a_role assms] by auto
  then have "(k, snd (role_entries ! i)) \<in> set role_entries" using nth_mem [OF i(1)] by (metis prod.collapse)
  with i show ?thesis by blast
qed

lemma role_row_scope:
  assumes "k \<in> fst ` set role_entries"
  shows "k \<in> fst ` set scope_entries \<or> k \<in> {''GET /health'', ''GET /livez'', ''GET /readyz''}"
proof -
  obtain i where i: "i < length role_entries" "k = fst (role_entries ! i)" using assms by (metis imageE in_set_conv_nth)
  then have "i \<in> set role_row_of \<or> k \<in> {''GET /health'', ''GET /livez'', ''GET /readyz''}"
    using every_role_row_is_listed unfolding list_all_iff by simp
  moreover have "k \<in> fst ` set scope_entries" if t: "i \<in> set role_row_of"
  proof -
    obtain scopes where "(k, scopes) \<in> set scope_entries"
      using list_all2_right [OF every_scope_row_has_a_role t] i(2) by auto
    then show ?thesis by force
  qed
  ultimately show ?thesis by blast
qed

text \<open>A request for a probe's route has the probe's name as its only segment, which no row of the scope table matches.\<close>

lemma probe_route:
  assumes "k \<in> {''GET /health'', ''GET /livez'', ''GET /readyz''}" "answers method path k"
  shows "\<exists>x \<in> set probe_names. splitRouteSegments path = [x]"
proof -
  have sp: "splitRouteSegments ''/health'' = [''health'']" "splitRouteSegments ''/livez'' = [''livez'']"
    "splitRouteSegments ''/readyz'' = [''readyz'']" "\<not> is_param ''health''" "\<not> is_param ''livez''" "\<not> is_param ''readyz''"
    "NormalizeRoute ''/health'' = ''/health''" "NormalizeRoute ''/livez'' = ''/livez''" "NormalizeRoute ''/readyz'' = ''/readyz''"
    by code_simp+
  have ct: "cut (CHR '' '') (''GET'' @ CHR '' '' # n) = Some (''GET'', n)" for n
    by (rule cut_append) simp
  define x where "x = drop 5 k"
  have x: "x \<in> set probe_names" "k = ''GET '' @ CHR ''/'' # x" "splitRouteSegments (CHR ''/'' # x) = [x]" "\<not> is_param x"
    and nx: "CHR '' '' \<notin> set x" and norm: "NormalizeRoute (CHR ''/'' # x) = CHR ''/'' # x"
    using assms(1) sp by (auto simp: probe_names_def x_def)
  show ?thesis using assms(2) unfolding answers_def
  proof
    assume "k = route_key method path"
    then have "to_upper (trim_space method) @ CHR '' '' # NormalizeRoute path = ''GET'' @ CHR '' '' # (CHR ''/'' # x)"
      by (simp add: route_key_def x(2))
    then have "NormalizeRoute path = CHR ''/'' # x" using nx by (auto simp: append_eq_Cons_conv append_eq_append_conv2)
    then have "splitRouteSegments path = splitRouteSegments (CHR ''/'' # x)" using norm by (simp add: splitRouteSegments_def)
    then show ?thesis using x by auto
  next
    assume "route_matches method path k"
    then have "PatternMatches (CHR ''/'' # x) path" using ct [of "CHR ''/'' # x"] by (simp add: route_matches_def x(2))
    then have "splitRouteSegments path = [x]"
      using x by (cases "splitRouteSegments path") (auto simp: PatternMatches_def)
    then show ?thesis using x by blast
  qed
qed

lemma scope_row_not_probe:
  assumes "k \<in> fst ` set scope_entries" "route_matches method path k" "x \<in> set probe_names"
  shows "splitRouteSegments path \<noteq> [x]"
proof
  assume p: "splitRouteSegments path = [x]"
  obtain m pat where c: "cut (CHR '' '') k = Some (m, pat)" "PatternMatches pat path"
    using assms(2) by (auto simp: route_matches_def split: option.splits)
  then obtain y where y: "splitRouteSegments pat = [y]" "is_param y \<or> y = x"
    using p by (auto simp: PatternMatches_def Let_def length_Suc_conv)
  obtain scopes where "(k, scopes) \<in> set scope_entries" using assms(1) by auto
  then have "\<not> is_param y \<and> y \<notin> set probe_names"
    using no_scope_row_is_a_probe c y by (fastforce simp: list_all_iff)
  with y assms(3) show False by blast
qed

lemma distinct_role_entries: "distinct (map fst role_entries)"
  by (simp add: role_entries_def)

lemma scope_row_most_specific:
  assumes "most_specific (fst ` set scope_entries) method path k"
  shows "most_specific (fst ` set role_entries) method path k"
proof -
  have k: "k \<in> fst ` set scope_entries" "route_matches method path k" using assms by (auto simp: most_specific_def)
  have "\<not> route_matches method path k'" if "k' \<in> {''GET /health'', ''GET /livez'', ''GET /readyz''}" for k'
    using probe_route [OF that] scope_row_not_probe [OF k] by (auto simp: answers_def)
  moreover have "k \<in> fst ` set role_entries" using k(1) scope_row_role by force
  ultimately show ?thesis using assms role_row_scope unfolding most_specific_def by blast
qed

text \<open>
  The scope table and the role table agree on what a route is: whatever a client sends, a request the scope table
  knows is known to the role table, which asks for a credential there, and for an editor wherever a write scope is asked for.
\<close>

theorem scope_and_role_tables_agree:
  assumes "requiredScopes method path = Some scopes"
  shows "\<exists>required. RT_Lookup routeRoles method path = Some required \<and> AtLeast required RoleViewer \<and>
           (list_ex is_write_scope scopes \<longrightarrow> AtLeast required RoleEditor)"
proof (cases "map_of scope_entries (route_key method path)")
  case (Some ss)
  then have "(route_key method path, scopes) \<in> set scope_entries"
    using assms RT_Lookup_exact [OF Some] by (simp add: requiredScopes_def routeScopes_def map_of_SomeD)
  then obtain r where "map_of role_entries (route_key method path) = Some r" "gates_fit scopes r"
    using scope_row_role distinct_role_entries by (metis map_of_is_SomeI)
  then show ?thesis using RT_Lookup_exact [of role_entries] unfolding routeRoles_def gates_fit_def by blast
next
  case None
  obtain k where k: "most_specific (fst ` set scope_entries) method path k" "map_of scope_entries k = Some scopes"
    using assms RT_Lookup_pattern [OF None] by (auto simp: requiredScopes_def routeScopes_def split: if_splits)
  obtain r where r: "map_of role_entries k = Some r" "gates_fit scopes r"
    using scope_row_role [OF map_of_SomeD [OF k(2)]] distinct_role_entries by (metis map_of_is_SomeI)
  have "route_key method path \<notin> fst ` set scope_entries" using None by (simp add: map_of_eq_None_iff)
  moreover have "route_key method path \<notin> {''GET /health'', ''GET /livez'', ''GET /readyz''}"
    using probe_route [of "route_key method path"] scope_row_not_probe [of k "method" path] k(1)
    by (auto simp: answers_def most_specific_def)
  ultimately have n: "map_of role_entries (route_key method path) = None"
    using role_row_scope map_of_eq_None_iff [of role_entries] by blast
  have "RT_Lookup routeRoles method path = Some r"
    using RT_Lookup_pattern [OF n] scope_row_most_specific [OF k(1)] most_specific_unique r(1)
    unfolding routeRoles_def by (metis most_specific_def)
  then show ?thesis using r(2) by (auto simp: gates_fit_def)
qed

theorem scope_and_role_tables_agree_witness:
  "\<exists>required. RT_Lookup routeRoles ''post'' ''/monitors/'' = Some required \<and> AtLeast required RoleEditor"
proof -
  have "map_of scope_entries (route_key ''post'' ''/monitors/'') = Some [ScopeMonitorsWrite]" by code_simp
  then have "requiredScopes ''post'' ''/monitors/'' = Some [ScopeMonitorsWrite]"
    unfolding requiredScopes_def routeScopes_def by (rule RT_Lookup_exact)
  from scope_and_role_tables_agree [OF this] show ?thesis
    by (auto simp: is_write_scope_def has_suffix_def ScopeMonitorsWrite_def)
qed

end
