(* ===== verification/Access_Tokens.thy ===== *)
theory Access_Tokens
  imports Route_Table Notify_Types
begin

text \<open>
  Scoped API tokens: the scope lists, tokens, callers and the \<open>Manager\<close> of \<open>internal/auth/tokens.go\<close>, the statements of
  \<open>internal/store/postgres.go\<close> on the table \<open>api_tokens\<close>, and the handlers of \<open>internal/api/tokens.go\<close>.

  The digest of a secret (\<open>HashToken\<close>, SHA-256) and the parser of durations are arguments; the clock, the random bytes and the
  failures of statements come from the environment of a call: \<open>te_clock n\<close> is its \<open>n\<close>-th reading of the clock and
  \<open>te_fault n\<close> the error of its \<open>n\<close>-th statement, if it fails. A call is one step: a row's digest, scopes and workspace never
  change once written, so what one call reads of them stays true for the next.
\<close>

subsection \<open>Scope lists\<close>

text \<open>\<open>sort.Slice\<close> on distinct names is the sort of the list.\<close>

fun parse_scopes_loop :: "string list \<Rightarrow> Scope list \<Rightarrow> string list \<Rightarrow> Scope list \<times> string list" where
  "parse_scopes_loop [] out bad = (out, bad)"
| "parse_scopes_loop (r # rs) out bad =
     (let s = trim_space r in
      if s = '''' then parse_scopes_loop rs out bad
      else if \<not> validScopes s then parse_scopes_loop rs out (bad @ [s])
      else if s \<in> set out then parse_scopes_loop rs out bad
      else parse_scopes_loop rs (out @ [s]) bad)"

definition JoinScopes :: "Scope list \<Rightarrow> string" where
  "JoinScopes scopes = join_with '','' scopes"

definition ParseScopes :: "string list \<Rightarrow> string + Scope list" where
  "ParseScopes raw0 =
     (let (out, bad) = parse_scopes_loop raw0 [] [] in
      if bad \<noteq> [] then Inl (''unknown scope(s): '' @ join_with '', '' bad @ '' (accepted: '' @ JoinScopes AllScopes @ '')'')
      else Inr (sort out))"

definition SplitScopes :: "string \<Rightarrow> Scope list" where
  "SplitScopes s =
     (if trim_space s = '''' then []
      else filter (\<lambda>p. p \<noteq> '''') (map trim_space (split_on (CHR '','') s)))"

subsection \<open>Tokens and callers\<close>

record Token =
  tk_ID :: int
  tk_Name :: string
  tk_Prefix :: string
  tk_Hash :: string
  tk_Workspace :: string
  tk_Scopes :: "Scope list"
  tk_ExpiresAt :: gtime
  tk_LastUsedAt :: gtime
  tk_RevokedAt :: gtime
  tk_CreatedAt :: gtime
  tk_RotatedFromID :: "int option"
  tk_SuccessorID :: "int option"
  tk_RotatedAt :: gtime
  tk_PreRotationExpiresAt :: gtime

definition IsRotating :: "Token \<Rightarrow> bool" where
  "IsRotating t = (tk_SuccessorID t \<noteq> None)"

definition Live :: "Token \<Rightarrow> gtime \<Rightarrow> bool" where
  "Live t now =
     (if tk_RevokedAt t \<noteq> 0 then False
      else if tk_ExpiresAt t \<noteq> 0 \<and> \<not> now < tk_ExpiresAt t then False
      else True)"

record Principal =
  pr_Workspace :: string
  pr_Role :: Role
  pr_Grants :: "(string \<times> Role) list"
  pr_restricted :: bool
  pr_scopes :: "Scope list"
  pr_tokenID :: int
  pr_Name :: string
  pr_ActorType :: string

definition EffectiveActorType :: "Principal option \<Rightarrow> string" where
  "EffectiveActorType p =
     (case p of None \<Rightarrow> ''anonymous''
      | Some p \<Rightarrow> if pr_ActorType p \<noteq> '''' then pr_ActorType p
                  else if pr_restricted p then ''automation'' else ''person'')"

definition RoleInWorkspace :: "Principal option \<Rightarrow> string \<Rightarrow> Role \<times> bool" where
  "RoleInWorkspace p ws =
     (case p of None \<Rightarrow> (RoleUnknown, False)
      | Some p \<Rightarrow>
          (case map_of (pr_Grants p) ws of
             Some r \<Rightarrow> (r, True)
           | None \<Rightarrow> if pr_Workspace p = ws \<and> pr_Role p \<noteq> RoleUnknown then (pr_Role p, True) else (RoleUnknown, False)))"

definition trim_suffix :: "string \<Rightarrow> string \<Rightarrow> string" where
  "trim_suffix s t = (if has_suffix s t then take (length s - length t) s else s)"

definition scope_covers :: "Scope \<Rightarrow> Scope \<Rightarrow> bool" where
  "scope_covers have_s s \<longleftrightarrow>
     have_s = s \<or> have_s = ScopeAll \<or> (has_suffix s '':read'' \<and> have_s = trim_suffix s '':read'' @ '':write'')"

definition Allowed :: "Principal \<Rightarrow> Scope \<Rightarrow> bool" where
  "Allowed p s =
     (if s = ScopeNone \<or> \<not> pr_restricted p then True
      else list_ex (\<lambda>have_s. scope_covers have_s s) (pr_scopes p))"

definition CanGrant :: "Principal \<Rightarrow> Scope list \<Rightarrow> bool" where
  "CanGrant p want =
     (if \<not> pr_restricted p then True
      else list_all (\<lambda>w. w \<noteq> ScopeAll \<and> Allowed p w) want)"

text \<open>The methods on a nil caller: no permission, no token.\<close>

definition nil_safe :: "'a \<Rightarrow> (Principal \<Rightarrow> 'a) \<Rightarrow> Principal option \<Rightarrow> 'a" where
  "nil_safe d f p = (case p of None \<Rightarrow> d | Some p \<Rightarrow> f p)"

definition TokenID :: "Principal option \<Rightarrow> int" where "TokenID = nil_safe 0 pr_tokenID"
definition Unrestricted :: "Principal option \<Rightarrow> bool" where "Unrestricted = nil_safe False (\<lambda>p. \<not> pr_restricted p)"
definition Restricted :: "Principal option \<Rightarrow> bool" where "Restricted = nil_safe False pr_restricted"
definition Scopes :: "Principal option \<Rightarrow> Scope list" where "Scopes = nil_safe [] pr_scopes"

definition principalFor :: "Token \<Rightarrow> Principal" where
  "principalFor t =
     \<lparr>pr_Workspace = tk_Workspace t, pr_Role = RoleUnknown, pr_Grants = [], pr_restricted = True,
      pr_scopes = tk_Scopes t, pr_tokenID = tk_ID t, pr_Name = tk_Name t, pr_ActorType = ''automation''\<rparr>"

subsection \<open>The table of tokens\<close>

record token_row =
  tr_id :: int
  tr_workspace_id :: string
  tr_name :: string
  tr_token_hash :: string
  tr_prefix :: string
  tr_scopes :: string
  tr_expires_at :: "gtime option"
  tr_last_used_at :: "gtime option"
  tr_revoked_at :: "gtime option"
  tr_created_at :: gtime
  tr_rotated_from_id :: "int option"
  tr_successor_id :: "int option"
  tr_rotated_at :: "gtime option"
  tr_pre_rotation_expires_at :: "gtime option"

record token_db =
  td_rows :: "token_row list"
  td_seq :: int

type_synonym faults = "nat \<Rightarrow> string option"

definition nullable :: "gtime \<Rightarrow> gtime option" where
  "nullable t = (if t = 0 then None else Some t)"

definition time_of :: "gtime option \<Rightarrow> gtime" where
  "time_of t = (case t of None \<Rightarrow> 0 | Some t \<Rightarrow> t)"

definition scanAPIToken :: "token_row \<Rightarrow> Token" where
  "scanAPIToken r =
     \<lparr>tk_ID = tr_id r, tk_Name = tr_name r, tk_Prefix = tr_prefix r, tk_Hash = tr_token_hash r,
      tk_Workspace = tr_workspace_id r, tk_Scopes = SplitScopes (tr_scopes r),
      tk_ExpiresAt = time_of (tr_expires_at r), tk_LastUsedAt = time_of (tr_last_used_at r),
      tk_RevokedAt = time_of (tr_revoked_at r), tk_CreatedAt = tr_created_at r,
      tk_RotatedFromID = tr_rotated_from_id r, tk_SuccessorID = tr_successor_id r,
      tk_RotatedAt = time_of (tr_rotated_at r), tk_PreRotationExpiresAt = time_of (tr_pre_rotation_expires_at r)\<rparr>"

definition ErrNotFound :: string where "ErrNotFound = ''not found''"
definition unique_violation :: string where "unique_violation = ''constraint violation: api_tokens_hash_idx''"

definition find_row :: "int \<Rightarrow> string \<Rightarrow> token_db \<Rightarrow> token_row option" where
  "find_row i ws db = List.find (\<lambda>r. tr_id r = i \<and> tr_workspace_id r = ws) (td_rows db)"

text \<open>An \<open>UPDATE\<close> by id within a workspace.\<close>

definition update_row :: "int \<Rightarrow> string \<Rightarrow> (token_row \<Rightarrow> token_row) \<Rightarrow> token_db \<Rightarrow> token_db" where
  "update_row i ws f db =
     db\<lparr>td_rows := map (\<lambda>r. if tr_id r = i \<and> tr_workspace_id r = ws then f r else r) (td_rows db)\<rparr>"

text \<open>The \<open>INSERT\<close>: the index on the digest is unique, the id comes from the sequence.\<close>

definition insert_row :: "gtime \<Rightarrow> string \<Rightarrow> Token \<Rightarrow> int option \<Rightarrow> gtime option \<Rightarrow> token_db \<Rightarrow> string + token_db \<times> token_row" where
  "insert_row dbnow ws t from_id rotated db =
     (if tk_Hash t \<in> tr_token_hash ` set (td_rows db) then Inl unique_violation
      else let row = \<lparr>tr_id = td_seq db, tr_workspace_id = ws, tr_name = tk_Name t, tr_token_hash = tk_Hash t,
                      tr_prefix = tk_Prefix t, tr_scopes = JoinScopes (tk_Scopes t), tr_expires_at = nullable (tk_ExpiresAt t),
                      tr_last_used_at = None, tr_revoked_at = None, tr_created_at = dbnow,
                      tr_rotated_from_id = from_id, tr_successor_id = None, tr_rotated_at = rotated,
                      tr_pre_rotation_expires_at = None\<rparr>
           in Inr (db\<lparr>td_rows := td_rows db @ [row], td_seq := td_seq db + 1\<rparr>, row))"

definition CreateAPIToken :: "faults \<Rightarrow> gtime \<Rightarrow> string \<Rightarrow> Token \<Rightarrow> token_db \<Rightarrow> token_db \<times> (string + Token)" where
  "CreateAPIToken flt dbnow ws t db =
     (case flt 0 of Some e \<Rightarrow> (db, Inl e)
      | None \<Rightarrow> (case insert_row dbnow ws t None None db of
                   Inl e \<Rightarrow> (db, Inl e)
                 | Inr (db1, row) \<Rightarrow> (db1, Inr (t\<lparr>tk_ID := tr_id row, tk_CreatedAt := dbnow, tk_Workspace := ws\<rparr>))))"

definition TokenByHash :: "faults \<Rightarrow> string \<Rightarrow> token_db \<Rightarrow> string + Token option" where
  "TokenByHash flt hash db =
     (case flt 0 of Some e \<Rightarrow> Inl e
      | None \<Rightarrow> Inr (map_option scanAPIToken (List.find (\<lambda>r. tr_token_hash r = hash) (td_rows db))))"

definition ListAPITokens :: "faults \<Rightarrow> string \<Rightarrow> token_db \<Rightarrow> string + Token list" where
  "ListAPITokens flt ws db =
     (case flt 0 of Some e \<Rightarrow> Inl e
      | None \<Rightarrow> Inr (map scanAPIToken (rev (sort_key tr_id (filter (\<lambda>r. tr_workspace_id r = ws) (td_rows db))))))"

definition GetAPIToken :: "faults \<Rightarrow> string \<Rightarrow> int \<Rightarrow> token_db \<Rightarrow> string + Token" where
  "GetAPIToken flt ws i db =
     (case flt 0 of Some e \<Rightarrow> Inl e
      | None \<Rightarrow> (case find_row i ws db of None \<Rightarrow> Inl ErrNotFound | Some r \<Rightarrow> Inr (scanAPIToken r)))"

text \<open>
  The transaction of a rotation: begin, the locked read, the insert, the update, commit. A transaction that fails at
  any of them leaves the table as it was.
\<close>

definition RotateAPIToken ::
  "faults \<Rightarrow> gtime \<Rightarrow> gtime \<Rightarrow> string \<Rightarrow> int \<Rightarrow> Token \<Rightarrow> gtime \<Rightarrow> token_db \<Rightarrow> token_db \<times> (string + Token)" where
  "RotateAPIToken flt now dbnow ws predecessorID successor predecessorExpiry db =
     (case flt 0 of Some e \<Rightarrow> (db, Inl e) | None \<Rightarrow>
      case flt 1 of Some e \<Rightarrow> (db, Inl e) | None \<Rightarrow>
      case find_row predecessorID ws db of None \<Rightarrow> (db, Inl ErrNotFound) | Some row \<Rightarrow>
      let pred = scanAPIToken row in
      if tk_RevokedAt pred \<noteq> 0 then (db, Inl ''cannot rotate a revoked token'')
      else if tk_ExpiresAt pred \<noteq> 0 \<and> tk_ExpiresAt pred < now then (db, Inl ''cannot rotate an expired token'')
      else case flt 2 of Some e \<Rightarrow> (db, Inl e) | None \<Rightarrow>
      case insert_row dbnow ws successor (Some predecessorID) (Some now) db of
        Inl e \<Rightarrow> (db, Inl e)
      | Inr (db1, srow) \<Rightarrow>
          (case flt 3 of Some e \<Rightarrow> (db, Inl e) | None \<Rightarrow>
           let db2 = update_row predecessorID ws (\<lambda>r. r\<lparr>tr_successor_id := Some (tr_id srow), tr_rotated_at := Some now,
                       tr_pre_rotation_expires_at := nullable (tk_ExpiresAt pred),
                       tr_expires_at := nullable predecessorExpiry\<rparr>) db1
           in case flt 4 of Some e \<Rightarrow> (db, Inl e)
              | None \<Rightarrow> (db2, Inr (successor\<lparr>tk_ID := tr_id srow, tk_Workspace := ws, tk_CreatedAt := dbnow,
                                            tk_RotatedAt := now, tk_RotatedFromID := Some predecessorID\<rparr>))))"

definition AbandonAPITokenRotation :: "faults \<Rightarrow> gtime \<Rightarrow> string \<Rightarrow> int \<Rightarrow> token_db \<Rightarrow> token_db \<times> string option" where
  "AbandonAPITokenRotation flt dbnow ws i db =
     (case flt 0 of Some e \<Rightarrow> (db, Some e) | None \<Rightarrow>
      case flt 1 of Some e \<Rightarrow> (db, Some e) | None \<Rightarrow>
      case find_row i ws db of None \<Rightarrow> (db, Some ErrNotFound) | Some row \<Rightarrow>
      let tok = scanAPIToken row;
          pair = (case tk_SuccessorID tok of
                    Some s \<Rightarrow> Some (tk_ID tok, s)
                  | None \<Rightarrow> (case tk_RotatedFromID tok of Some p \<Rightarrow> Some (p, tk_ID tok) | None \<Rightarrow> None))
      in case pair of None \<Rightarrow> (db, Some (''no rotation in progress for token '' @ fmt_d i)) | Some (predID, succID) \<Rightarrow>
      case flt 2 of Some e \<Rightarrow> (db, Some e) | None \<Rightarrow>
      case find_row predID ws db of None \<Rightarrow> (db, Some ErrNotFound) | Some prow \<Rightarrow>
      case flt 3 of Some e \<Rightarrow> (db, Some e) | None \<Rightarrow>
      let db1 = update_row succID ws (\<lambda>r. r\<lparr>tr_revoked_at := Some (case tr_revoked_at r of Some t \<Rightarrow> t | None \<Rightarrow> dbnow)\<rparr>) db
      in case flt 4 of Some e \<Rightarrow> (db, Some e) | None \<Rightarrow>
      let db2 = update_row predID ws (\<lambda>r. r\<lparr>tr_successor_id := None, tr_rotated_at := None,
                  tr_pre_rotation_expires_at := None, tr_expires_at := tr_pre_rotation_expires_at prow\<rparr>) db1
      in case flt 5 of Some e \<Rightarrow> (db, Some e) | None \<Rightarrow> (db2, None))"

definition RevokeAPIToken :: "faults \<Rightarrow> gtime \<Rightarrow> string \<Rightarrow> int \<Rightarrow> token_db \<Rightarrow> token_db \<times> string option" where
  "RevokeAPIToken flt dbnow ws i db =
     (case flt 0 of Some e \<Rightarrow> (db, Some e)
      | None \<Rightarrow>
          if find_row i ws db = None then (db, Some ErrNotFound)
          else (update_row i ws (\<lambda>r. r\<lparr>tr_revoked_at := Some (case tr_revoked_at r of Some t \<Rightarrow> t | None \<Rightarrow> dbnow)\<rparr>) db, None))"

definition TouchAPIToken :: "faults \<Rightarrow> string \<Rightarrow> int \<Rightarrow> gtime \<Rightarrow> token_db \<Rightarrow> token_db \<times> string option" where
  "TouchAPIToken flt ws i used db =
     (case flt 0 of Some e \<Rightarrow> (db, Some e) | None \<Rightarrow> (update_row i ws (\<lambda>r. r\<lparr>tr_last_used_at := Some used\<rparr>) db, None))"

subsection \<open>The manager\<close>

record token_env =
  te_digest :: "string \<Rightarrow> string"
  te_rand :: "string option"
  te_clock :: "nat \<Rightarrow> gtime"
  te_dbnow :: gtime
  te_fault :: faults
  te_ParseDuration :: "string \<Rightarrow> duration option"

definition TokenPrefix :: string where "TokenPrefix = ''sb_''"
definition tokenPrefixLen :: nat where "tokenPrefixLen = 8"
definition MaxTokenNameLen :: nat where "MaxTokenNameLen = 64"
definition defaultTokenName :: string where "defaultTokenName = ''unnamed''"
definition touchInterval :: duration where "touchInterval = minute"
definition DefaultRotationOverlap :: duration where "DefaultRotationOverlap = 7 * 24 * 60 * minute"

definition shift_faults :: "nat \<Rightarrow> faults \<Rightarrow> faults" where
  "shift_faults n f = (\<lambda>i. f (i + n))"

definition truncate_second :: "gtime \<Rightarrow> gtime" where
  "truncate_second t = t - t mod second"

definition newTokenSecret :: "token_env \<Rightarrow> string option" where
  "newTokenSecret e = (case te_rand e of None \<Rightarrow> None | Some buf \<Rightarrow> Some (TokenPrefix @ b64_encode buf))"

definition IsTokenBearer :: "string \<Rightarrow> bool" where
  "IsTokenBearer r = has_prefix r TokenPrefix"

definition name_too_long :: string where
  "name_too_long = ''name must be at most '' @ fmt_d (int MaxTokenNameLen) @ '' characters''"

definition fresh_token :: "token_env \<Rightarrow> string \<Rightarrow> string \<Rightarrow> Scope list \<Rightarrow> gtime \<Rightarrow> Token" where
  "fresh_token e secret name scopes expiresAt =
     \<lparr>tk_ID = 0, tk_Name = name, tk_Prefix = take (length TokenPrefix + tokenPrefixLen) secret,
      tk_Hash = te_digest e secret, tk_Workspace = '''', tk_Scopes = scopes, tk_ExpiresAt = truncate_second expiresAt,
      tk_LastUsedAt = 0, tk_RevokedAt = 0, tk_CreatedAt = 0, tk_RotatedFromID = None, tk_SuccessorID = None,
      tk_RotatedAt = 0, tk_PreRotationExpiresAt = 0\<rparr>"

definition Mint :: "token_env \<Rightarrow> string \<Rightarrow> string \<Rightarrow> Scope list \<Rightarrow> gtime \<Rightarrow> token_db \<Rightarrow> token_db \<times> (string + string \<times> Token)" where
  "Mint e ws name0 scopes expiresAt db =
     (case newTokenSecret e of
        None \<Rightarrow> (db, Inl ''auth: generate token'')
      | Some secret \<Rightarrow>
          (let n1 = trim_space name0; name = (if n1 = '''' then defaultTokenName else n1) in
           if MaxTokenNameLen < length name then (db, Inl name_too_long)
           else case CreateAPIToken (te_fault e) (te_dbnow e) ws (fresh_token e secret name scopes expiresAt) db of
                  (db1, Inl err) \<Rightarrow> (db1, Inl err)
                | (db1, Inr t) \<Rightarrow> (db1, Inr (secret, t))))"

text \<open>\<open>Authenticate\<close>: every failure is the one \<open>ErrInvalidToken\<close>, here \<open>None\<close>; the stamp of the last use may fail.\<close>

definition Authenticate :: "token_env \<Rightarrow> string \<Rightarrow> token_db \<Rightarrow> token_db \<times> Principal option" where
  "Authenticate e r db =
     (case TokenByHash (te_fault e) (te_digest e r) db of
        Inl _ \<Rightarrow> (db, None)
      | Inr None \<Rightarrow> (db, None)
      | Inr (Some t) \<Rightarrow>
          (let now = te_clock e 0 in
           if \<not> Live t now then (db, None)
           else if tk_LastUsedAt t \<noteq> 0 \<and> time_sub now (tk_LastUsedAt t) < touchInterval then (db, Some (principalFor t))
           else (fst (TouchAPIToken (shift_faults 1 (te_fault e)) (tk_Workspace t) (tk_ID t) (truncate_second now) db),
                 Some (principalFor t))))"

definition Rotate ::
  "token_env \<Rightarrow> string \<Rightarrow> int \<Rightarrow> string \<Rightarrow> Scope list \<Rightarrow> duration \<Rightarrow> gtime \<Rightarrow> token_db \<Rightarrow> token_db \<times> (string + string \<times> Token)" where
  "Rotate e ws predecessorID name0 scopes0 overlap0 successorExpiresAt db =
     (case GetAPIToken (te_fault e) ws predecessorID db of
        Inl err \<Rightarrow> (db, Inl err)
      | Inr pred \<Rightarrow>
          (let now = te_clock e 0 in
           if \<not> Live pred now then (db, Inl ''cannot rotate inactive token'')
           else case newTokenSecret e of None \<Rightarrow> (db, Inl ''auth: generate token'') | Some secret \<Rightarrow>
           let n1 = trim_space name0; name = (if n1 = '''' then tk_Name pred else n1) in
           if MaxTokenNameLen < length name then (db, Inl name_too_long)
           else
             let scopes = (if scopes0 = [] then tk_Scopes pred else scopes0);
                 overlap = (if overlap0 \<le> 0 then DefaultRotationOverlap else overlap0);
                 e1 = truncate_second (now + overlap);
                 newPredExpiry = (if tk_ExpiresAt pred \<noteq> 0 \<and> tk_ExpiresAt pred < e1 then tk_ExpiresAt pred else e1);
                 succ = (fresh_token e secret name scopes successorExpiresAt)
                          \<lparr>tk_RotatedFromID := Some (tk_ID pred), tk_RotatedAt := truncate_second now\<rparr>
             in case RotateAPIToken (shift_faults 1 (te_fault e)) (te_clock e 1) (te_dbnow e) ws predecessorID succ newPredExpiry db of
                  (db1, Inl err) \<Rightarrow> (db1, Inl err)
                | (db1, Inr s) \<Rightarrow> (db1, Inr (secret, s))))"

definition AbandonRotation :: "token_env \<Rightarrow> string \<Rightarrow> int \<Rightarrow> token_db \<Rightarrow> token_db \<times> string option" where
  "AbandonRotation e ws i db = AbandonAPITokenRotation (te_fault e) (te_dbnow e) ws i db"

definition Revoke :: "token_env \<Rightarrow> string \<Rightarrow> int \<Rightarrow> token_db \<Rightarrow> token_db \<times> string option" where
  "Revoke e ws i db = RevokeAPIToken (te_fault e) (te_dbnow e) ws i db"

subsection \<open>The handlers\<close>

record apiToken =
  at_ID :: int
  at_Name :: string
  at_Prefix :: string
  at_Scopes :: "Scope list"
  at_CreatedAt :: gtime
  at_ExpiresAt :: "gtime option"
  at_LastUsedAt :: "gtime option"
  at_RevokedAt :: "gtime option"
  at_RotatedFromID :: "int option"
  at_SuccessorID :: "int option"
  at_RotatedAt :: "gtime option"

definition apiTokenOf :: "Token \<Rightarrow> apiToken" where
  "apiTokenOf t =
     \<lparr>at_ID = tk_ID t, at_Name = tk_Name t, at_Prefix = tk_Prefix t, at_Scopes = tk_Scopes t, at_CreatedAt = tk_CreatedAt t,
      at_ExpiresAt = nullable (tk_ExpiresAt t), at_LastUsedAt = nullable (tk_LastUsedAt t),
      at_RevokedAt = nullable (tk_RevokedAt t), at_RotatedFromID = tk_RotatedFromID t,
      at_SuccessorID = tk_SuccessorID t, at_RotatedAt = nullable (tk_RotatedAt t)\<rparr>"

record createTokenRequest =
  cq_Name :: string
  cq_Scopes :: "string list"
  cq_ExpiresIn :: string

record rotateTokenRequest =
  rq_Name :: string
  rq_Scopes :: "string list"
  rq_Overlap :: string
  rq_ExpiresIn :: string

datatype token_response =
    Reply nat string
  | InvalidField string string
  | BadBody
  | Failed string
  | Created apiToken string
  | OneToken apiToken
  | TokenPage "apiToken list"
  | NoContent
  | Abandoned

definition not_configured :: token_response where
  "not_configured = Reply 503 ''token management is not configured''"

definition no_escalation :: token_response where
  "no_escalation = Reply 403 ''a scoped token cannot mint a token with scopes it does not hold''"

text \<open>The caller is the one the authentication step put in the request's context, \<open>None\<close> when there was no such step.\<close>

definition callerMayGrant :: "Principal option \<Rightarrow> Scope list \<Rightarrow> bool" where
  "callerMayGrant caller want = (case caller of None \<Rightarrow> True | Some p \<Rightarrow> CanGrant p want)"

text \<open>
  \<open>POST /tokens\<close>. \<open>body\<close> is the decoded request, \<open>None\<close> when \<open>readJSON\<close> has already answered; \<open>ws\<close> the workspace of
  the request's context.
\<close>

definition createToken ::
  "bool \<Rightarrow> token_env \<Rightarrow> Principal option \<Rightarrow> string \<Rightarrow> createTokenRequest option \<Rightarrow> token_db \<Rightarrow> token_db \<times> token_response" where
  "createToken configured e caller ws body db =
     (if \<not> configured then (db, not_configured)
      else case body of None \<Rightarrow> (db, BadBody) | Some req \<Rightarrow>
      let name = trim_space (cq_Name req) in
      if MaxTokenNameLen < length name then (db, InvalidField ''name'' name_too_long)
      else case ParseScopes (cq_Scopes req) of Inl err \<Rightarrow> (db, InvalidField ''scopes'' err) | Inr scopes \<Rightarrow>
      if scopes = [] then (db, InvalidField ''scopes'' (''a token needs at least one scope (accepted: '' @ JoinScopes AllScopes @ '')''))
      else if \<not> callerMayGrant caller scopes then (db, no_escalation)
      else
        let v = trim_space (cq_ExpiresIn req);
            mint = (\<lambda>expiresAt. case Mint e ws name scopes expiresAt db of
                                  (db1, Inl err) \<Rightarrow> (db1, Failed err)
                                | (db1, Inr (secret, t)) \<Rightarrow> (db1, Created (apiTokenOf t) secret))
        in if v = '''' then mint 0
           else case te_ParseDuration e v of
                  None \<Rightarrow> (db, InvalidField ''expires_in'' ''expires_in is a Go duration (for example 168h for seven days); omit it for a token that never expires'')
                | Some d \<Rightarrow>
                    if d \<le> 0 then (db, InvalidField ''expires_in'' ''expires_in must be positive; omit it for a token that never expires'')
                    else mint (te_clock e 0 + d))"

definition listTokens :: "bool \<Rightarrow> token_env \<Rightarrow> string \<Rightarrow> token_db \<Rightarrow> token_response" where
  "listTokens configured e ws db =
     (if \<not> configured then not_configured
      else case ListAPITokens (te_fault e) ws db of Inl err \<Rightarrow> Failed err | Inr ts \<Rightarrow> TokenPage (map apiTokenOf ts))"

text \<open>\<open>i\<close> is the id of the path, \<open>None\<close> when it is not a number.\<close>

definition getToken :: "bool \<Rightarrow> token_env \<Rightarrow> string \<Rightarrow> int option \<Rightarrow> token_db \<Rightarrow> token_response" where
  "getToken configured e ws i db =
     (if \<not> configured then not_configured
      else case i of None \<Rightarrow> Reply 404 ErrNotFound | Some i \<Rightarrow>
      case GetAPIToken (te_fault e) ws i db of
        Inl err \<Rightarrow> if err = ErrNotFound then Reply 404 ErrNotFound else Failed err
      | Inr t \<Rightarrow> OneToken (apiTokenOf t))"

text \<open>A request without a body (\<open>None\<close>) asks for the defaults.\<close>

definition no_rotate_request :: rotateTokenRequest where
  "no_rotate_request = \<lparr>rq_Name = '''', rq_Scopes = [], rq_Overlap = '''', rq_ExpiresIn = ''''\<rparr>"

definition later_env :: "nat \<Rightarrow> nat \<Rightarrow> token_env \<Rightarrow> token_env" where
  "later_env c f e = e\<lparr>te_clock := \<lambda>n. te_clock e (n + c), te_fault := shift_faults f (te_fault e)\<rparr>"

definition positive_duration :: "token_env \<Rightarrow> string \<Rightarrow> duration option" where
  "positive_duration e v = (case te_ParseDuration e v of None \<Rightarrow> None | Some d \<Rightarrow> if d \<le> 0 then None else Some d)"

definition rotateToken ::
  "bool \<Rightarrow> token_env \<Rightarrow> Principal option \<Rightarrow> string \<Rightarrow> int option \<Rightarrow> rotateTokenRequest option option \<Rightarrow> token_db \<Rightarrow> token_db \<times> token_response" where
  "rotateToken configured e caller ws i body db =
     (if \<not> configured then (db, not_configured)
      else case i of None \<Rightarrow> (db, Reply 404 ErrNotFound) | Some i \<Rightarrow>
      case GetAPIToken (te_fault e) ws i db of
        Inl err \<Rightarrow> (db, if err = ErrNotFound then Reply 404 ErrNotFound else Failed err)
      | Inr pred \<Rightarrow>
      if \<not> Live pred (te_clock e 0) then (db, Reply 400 ''cannot rotate an inactive or expired token'')
      else case (case body of None \<Rightarrow> Some no_rotate_request | Some b \<Rightarrow> b) of None \<Rightarrow> (db, BadBody) | Some req \<Rightarrow>
      let n1 = trim_space (rq_Name req); name = (if n1 = '''' then tk_Name pred else n1) in
      if MaxTokenNameLen < length name then (db, InvalidField ''name'' name_too_long)
      else case (if rq_Scopes req \<noteq> [] then ParseScopes (rq_Scopes req) else Inr (tk_Scopes pred)) of
        Inl err \<Rightarrow> (db, InvalidField ''scopes'' err)
      | Inr scopes \<Rightarrow>
      if \<not> callerMayGrant caller scopes then (db, no_escalation)
      else
        let vo = trim_space (rq_Overlap req);
            overlap = (if vo = '''' then Some DefaultRotationOverlap else positive_duration e vo)
        in case overlap of
             None \<Rightarrow> (db, InvalidField ''overlap'' ''overlap is a positive Go duration (for example 48h or 168h)'')
           | Some overlap \<Rightarrow>
        let ve = trim_space (rq_ExpiresIn req);
            expires = (if ve = '''' then Some 0 else map_option (\<lambda>d. te_clock e 1 + d) (positive_duration e ve))
        in case expires of
             None \<Rightarrow> (db, InvalidField ''expires_in'' ''expires_in must be a positive Go duration'')
           | Some successorExpiresAt \<Rightarrow>
        (case Rotate (later_env 2 1 e) ws i name scopes overlap successorExpiresAt db of
           (db1, Inl err) \<Rightarrow> (db1, Failed err)
         | (db1, Inr (secret, t)) \<Rightarrow> (db1, Created (apiTokenOf t) secret)))"

definition abandonTokenRotation :: "bool \<Rightarrow> token_env \<Rightarrow> string \<Rightarrow> int option \<Rightarrow> token_db \<Rightarrow> token_db \<times> token_response" where
  "abandonTokenRotation configured e ws i db =
     (if \<not> configured then (db, not_configured)
      else case i of None \<Rightarrow> (db, Reply 404 ErrNotFound) | Some i \<Rightarrow>
      case AbandonRotation e ws i db of
        (db1, Some err) \<Rightarrow> (db1, if err = ErrNotFound then Reply 404 ErrNotFound else Failed err)
      | (db1, None) \<Rightarrow> (db1, Abandoned))"

definition revokeToken :: "bool \<Rightarrow> token_env \<Rightarrow> string \<Rightarrow> int option \<Rightarrow> token_db \<Rightarrow> token_db \<times> token_response" where
  "revokeToken configured e ws i db =
     (if \<not> configured then (db, not_configured)
      else case i of None \<Rightarrow> (db, Reply 404 ErrNotFound) | Some i \<Rightarrow>
      case Revoke e ws i db of
        (db1, Some err) \<Rightarrow> (db1, if err = ErrNotFound then Reply 404 ErrNotFound else Failed err)
      | (db1, None) \<Rightarrow> (db1, NoContent))"

subsection \<open>Everything that happens to the table\<close>

text \<open>One call of a handler, by any caller, one call of \<open>Mint\<close> or \<open>Revoke\<close> by the dashboard, or one authentication. The
  database's clock is past the zero time.\<close>

inductive token_step :: "token_db \<Rightarrow> token_db \<Rightarrow> bool" where
  created: "0 < te_dbnow e \<Longrightarrow> createToken c e caller ws body db = (db', r) \<Longrightarrow> token_step db db'"
| rotated: "0 < te_dbnow e \<Longrightarrow> rotateToken c e caller ws i rbody db = (db', r) \<Longrightarrow> token_step db db'"
| abandoned: "0 < te_dbnow e \<Longrightarrow> abandonTokenRotation c e ws i db = (db', r) \<Longrightarrow> token_step db db'"
| revoked: "0 < te_dbnow e \<Longrightarrow> revokeToken c e ws i db = (db', r) \<Longrightarrow> token_step db db'"
| minted: "Mint e ws name scopes expires db = (db', m) \<Longrightarrow> token_step db db'"
| withdrawn: "0 < te_dbnow e \<Longrightarrow> Revoke e ws i db = (db', err) \<Longrightarrow> token_step db db'"
| authenticated: "Authenticate e secret db = (db', p) \<Longrightarrow> token_step db db'"

inductive_cases token_stepE: "token_step db db'"

definition empty_tokens :: token_db where
  "empty_tokens = \<lparr>td_rows = [], td_seq = 1\<rparr>"

end
