(* ===== verification/OIDC_Provider.thy ===== *)
theory OIDC_Provider
  imports Access_Tokens
begin

text \<open>
  Single sign-on, \<open>internal/auth/oidc.go\<close>: group mappings and how they resolve, claims, the identity of a verified token with the
  cache of group resolutions, the revalidation of a session, and logins in flight. Verification of a token (signature,
  issuer, audience, expiry), the code exchange and the decoding of claims belong to the libraries \<open>go-oidc\<close>
  and \<open>oauth2\<close>: their answers are arguments. A call is one step; the only calls it makes while its lock is free are
  those answers and the group resolver.
\<close>

subsection \<open>Group mappings\<close>

record GroupMapping =
  gm_Group :: string
  gm_Workspace :: string
  gm_Role :: Role

type_synonym WorkspaceGrant = "string \<times> Role"

definition last_index :: "char \<Rightarrow> string \<Rightarrow> int" where
  "last_index c s = (if c \<in> set s then int (length s) - 1 - int (length (takeWhile (\<lambda>x. x \<noteq> c) (rev s))) else - 1)"

text \<open>The text before and after position \<open>i\<close>.\<close>

definition split_at :: "int \<Rightarrow> string \<Rightarrow> string \<times> string" where
  "split_at i s = (take (nat i) s, drop (nat i + 1) s)"

definition mapping_error :: "nat \<Rightarrow> string \<Rightarrow> string" where
  "mapping_error i what = ''invalid OIDC_GROUP_MAPPINGS entry '' @ fmt_d (int i) @ '': '' @ what"

definition parse_mapping :: "nat \<Rightarrow> string \<Rightarrow> string + GroupMapping" where
  "parse_mapping i entry =
     (let eq = last_index (CHR ''='') entry;
          lastColon = last_index (CHR '':'') entry;
          prevColon = last_index (CHR '':'') (take (nat lastColon) entry);
          parts = (if 0 \<le> eq then Some (split_at eq entry)
                   else if lastColon \<le> 0 then None
                   else if prevColon \<le> 0 then None
                   else Some (split_at prevColon entry))
      in case parts of None \<Rightarrow> Inl (mapping_error i ''want <group>=<workspace>:<role>'') | Some (g, t) \<Rightarrow>
      let groupPart = trim_space g; targetPart = trim_space t in
      if groupPart = '''' then Inl (mapping_error i ''group name is empty'')
      else case cut (CHR '':'') targetPart of
             None \<Rightarrow> Inl (mapping_error i ''missing workspace:role separator (want <group>=<workspace>:<role>)'')
           | Some (w, roleRaw) \<Rightarrow>
      let wsRaw = trim_space w in
      if wsRaw = '''' \<or> \<not> Valid wsRaw then Inl (mapping_error i ''invalid workspace id (ids are 1-40 characters of [a-z0-9_-])'')
      else case ParseRole roleRaw of (role, ok) \<Rightarrow>
      if \<not> ok then Inl (mapping_error i ''invalid role (want viewer, editor or admin)'')
      else Inr \<lparr>gm_Group = groupPart, gm_Workspace = wsRaw, gm_Role = role\<rparr>)"

fun parse_mappings :: "nat \<Rightarrow> string list \<Rightarrow> string + GroupMapping list" where
  "parse_mappings i [] = Inr []"
| "parse_mappings i (entry # es) =
     (if trim_space entry = '''' then parse_mappings (i + 1) es
      else case parse_mapping (i + 1) (trim_space entry) of
             Inl e \<Rightarrow> Inl e
           | Inr m \<Rightarrow> (case parse_mappings (i + 1) es of Inl e \<Rightarrow> Inl e | Inr ms \<Rightarrow> Inr (m # ms)))"

definition no_entries :: string where
  "no_entries = ''invalid OIDC_GROUP_MAPPINGS: set but contains no entries''"

definition ParseGroupMappings :: "string \<Rightarrow> string + GroupMapping list" where
  "ParseGroupMappings s =
     (if trim_space s = '''' then (if s \<noteq> '''' then Inl no_entries else Inr [])
      else case parse_mappings 0 (split_on (CHR '','') s) of
             Inl e \<Rightarrow> Inl e
           | Inr out \<Rightarrow> if out = [] then Inl no_entries else Inr out)"

definition valid_mapping :: "nat \<Rightarrow> GroupMapping \<Rightarrow> string + GroupMapping" where
  "valid_mapping i m =
     (let fail = (\<lambda>what. Inl (''auth: invalid OIDC group mapping '' @ fmt_d (int i) @ '': '' @ what));
          g = trim_space (gm_Group m); ws = trim_space (gm_Workspace m) in
      if g = '''' then fail ''group name is empty''
      else if ws = '''' \<or> \<not> Valid ws then fail ''invalid workspace id''
      else case ParseRole (Role_String (gm_Role m)) of (role, ok) \<Rightarrow>
           if \<not> ok then fail ''invalid role (want viewer, editor or admin)''
           else Inr \<lparr>gm_Group = g, gm_Workspace = ws, gm_Role = role\<rparr>)"

fun ValidateGroupMappings_from :: "nat \<Rightarrow> GroupMapping list \<Rightarrow> string + GroupMapping list" where
  "ValidateGroupMappings_from i [] = Inr []"
| "ValidateGroupMappings_from i (m # ms) =
     (case valid_mapping (i + 1) m of
        Inl e \<Rightarrow> Inl e
      | Inr v \<Rightarrow> (case ValidateGroupMappings_from (i + 1) ms of Inl e \<Rightarrow> Inl e | Inr vs \<Rightarrow> Inr (v # vs)))"

definition ValidateGroupMappings :: "GroupMapping list \<Rightarrow> string + GroupMapping list" where
  "ValidateGroupMappings ms = ValidateGroupMappings_from 0 ms"

text \<open>One rule whose group is present: a workspace already granted keeps the higher role, a new one is appended.\<close>

definition add_grant :: "GroupMapping \<Rightarrow> WorkspaceGrant list \<Rightarrow> WorkspaceGrant list" where
  "add_grant r grants =
     (if gm_Workspace r \<in> fst ` set grants
      then map (\<lambda>(w, role). (w, if w = gm_Workspace r \<and> AtLeast (gm_Role r) role then gm_Role r else role)) grants
      else grants @ [(gm_Workspace r, gm_Role r)])"

definition better_grant :: "WorkspaceGrant \<Rightarrow> WorkspaceGrant \<Rightarrow> WorkspaceGrant" where
  "better_grant g best = (if AtLeast (snd g) (snd best) \<and> \<not> AtLeast (snd best) (snd g) then g else best)"

definition resolveGroupMappings :: "string list \<Rightarrow> GroupMapping list \<Rightarrow> (string \<times> Role \<times> WorkspaceGrant list) option" where
  "resolveGroupMappings groups rules =
     (if groups = [] \<or> rules = [] then None
      else let present = filter (\<lambda>g. g \<noteq> '''') (map trim_space groups) in
      if present = [] then None
      else let grants = fold (\<lambda>r gs. if gm_Group r \<in> set present then add_grant r gs else gs) rules [] in
      case grants of
        [] \<Rightarrow> None
      | g # gs \<Rightarrow> (let best = fold better_grant gs g in Some (fst best, snd best, grants)))"

fun same_strings :: "string list \<Rightarrow> string list \<Rightarrow> bool" where
  "same_strings a [] = True"
| "same_strings a (s # b) = (s \<in> set a \<and> same_strings (remove1 s a) b)"

definition sameStringSet :: "string list \<Rightarrow> string list \<Rightarrow> bool" where
  "sameStringSet a b = (length a = length b \<and> same_strings a b)"

subsection \<open>Claims\<close>

type_synonym claims = "(string \<times> gvalue) list"

fun claim_path :: "claims \<Rightarrow> string list \<Rightarrow> gvalue option" where
  "claim_path cur [] = None"
| "claim_path cur (part # parts) =
     (case map_of cur part of
        None \<Rightarrow> None
      | Some v \<Rightarrow> if parts = [] then Some v
                  else case v of GMap nxt \<Rightarrow> claim_path nxt parts | _ \<Rightarrow> None)"

definition lookupClaim :: "claims \<Rightarrow> string \<Rightarrow> gvalue option" where
  "lookupClaim cs name =
     (if name = '''' then None
      else case map_of cs name of
             Some v \<Rightarrow> Some v
           | None \<Rightarrow> if CHR ''.'' \<notin> set name then None else claim_path cs (split_on (CHR ''.'') name))"

definition claimString :: "claims \<Rightarrow> string \<Rightarrow> string option" where
  "claimString cs name =
     (case lookupClaim cs name of
        Some (GStr s) \<Rightarrow> (let t = trim_space s in if t \<noteq> '''' then Some t else None)
      | _ \<Rightarrow> None)"

definition add_string :: "string \<Rightarrow> string list \<Rightarrow> string list" where
  "add_string s0 out = (let s = trim_space s0 in if s = '''' \<or> s \<in> set out then out else out @ [s])"

text \<open>The groups of the claim; no claim and no usable value are the same to its callers, an empty list.\<close>

definition claimStrings :: "claims \<Rightarrow> string \<Rightarrow> string list" where
  "claimStrings cs name =
     (case lookupClaim cs name of
        Some (GStr s) \<Rightarrow> add_string s []
      | Some (GList vs) \<Rightarrow> fold (\<lambda>v out. case v of GStr s \<Rightarrow> add_string s out | _ \<Rightarrow> out) vs []
      | _ \<Rightarrow> [])"

definition claimScopes :: "claims \<Rightarrow> string \<Rightarrow> Scope list" where
  "claimScopes cs name =
     (let found = claimStrings cs name in
      if found = [] then []
      else case ParseScopes found of Inl _ \<Rightarrow> [] | Inr scopes \<Rightarrow> scopes)"

subsection \<open>The provider\<close>

record Identity =
  id_Subject :: string
  id_Email :: string
  id_Name :: string
  id_Workspace :: string
  id_Role :: Role
  id_Grants :: "WorkspaceGrant list"
  id_Groups :: "string list"
  id_Scopes :: "Scope list"

record cachedGroupResolution =
  cg_workspace :: string
  cg_role :: Role
  cg_grants :: "WorkspaceGrant list"
  cg_groups :: "string list"
  cg_expiresAt :: gtime
  cg_mappingVersion :: "64 word"

record pendingLogin =
  pl_nonce :: string
  pl_verifier :: string
  pl_next :: string
  pl_expires :: gtime

record OIDCProvider =
  op_allowedDomains :: "string list"
  op_ws :: string
  op_wsClaim :: string
  op_roleClaim :: string
  op_groupClaim :: string
  op_groupMappings :: "GroupMapping list"
  op_groupCacheTTL :: duration
  op_explicitTTL :: bool
  op_groupResolver :: "(string \<Rightarrow> string list option) option"
  op_mappingVersion :: "64 word"
  op_groupCache :: "string \<Rightarrow> cachedGroupResolution option"
  op_stateTTL :: duration
  op_pending :: "string \<Rightarrow> pendingLogin option"

text \<open>A token the library verified: its nonce, and its claims decoded into the three named fields and into a map.\<close>

record IDToken =
  it_Nonce :: string
  it_named :: "(string \<times> string \<times> string) option"
  it_claims :: "claims option"

datatype oidc_error = ErrOIDCLogin | ErrOIDCAccount | ErrOIDCToken | ErrOIDCForbidden | OIDCError string

definition is_account_error :: "oidc_error \<Rightarrow> bool" where
  "is_account_error e = (e = ErrOIDCAccount \<or> e = ErrOIDCForbidden)"

definition DefaultGroupClaim :: string where "DefaultGroupClaim = ''groups''"

definition SetGroupMappings :: "GroupMapping list \<Rightarrow> OIDCProvider \<Rightarrow> OIDCProvider \<times> string option" where
  "SetGroupMappings ms p =
     (case ValidateGroupMappings ms of
        Inl e \<Rightarrow> (p, Some e)
      | Inr valid \<Rightarrow>
          (p\<lparr>op_groupMappings := valid,
             op_groupClaim := (if op_groupClaim p = '''' \<and> valid \<noteq> [] then DefaultGroupClaim else op_groupClaim p),
             op_mappingVersion := op_mappingVersion p + 1, op_groupCache := (\<lambda>_. None)\<rparr>, None))"

definition SetGroupResolver :: "(string \<Rightarrow> string list option) option \<Rightarrow> OIDCProvider \<Rightarrow> OIDCProvider" where
  "SetGroupResolver fn p = p\<lparr>op_groupResolver := fn, op_groupCache := (\<lambda>_. None)\<rparr>"

definition EvictSubject :: "string \<Rightarrow> OIDCProvider \<Rightarrow> OIDCProvider" where
  "EvictSubject subject p = (if subject = '''' then p else p\<lparr>op_groupCache := (op_groupCache p)(subject := None)\<rparr>)"

definition checkAccount :: "OIDCProvider \<Rightarrow> string \<Rightarrow> bool" where
  "checkAccount p email =
     (if op_allowedDomains p = [] then True
      else let domain = (case cut (CHR ''@'') (to_lower email) of Some (_, after) \<Rightarrow> after | None \<Rightarrow> '''') in
           if domain = '''' then False else domain \<in> set (op_allowedDomains p))"

text \<open>The grant of a token: with mappings from its groups, the cache or the resolver, otherwise from the two optional claims.\<close>

definition mapped_identity :: "gtime \<Rightarrow> bool \<Rightarrow> claims \<Rightarrow> Identity \<Rightarrow> OIDCProvider \<Rightarrow> OIDCProvider \<times> (oidc_error + Identity)" where
  "mapped_identity now useBearerCache cs identity p =
     (let groupClaim = (if op_groupClaim p = '''' then DefaultGroupClaim else op_groupClaim p);
          tokenGroups = claimStrings cs groupClaim;
          cached = op_groupCache p (id_Subject identity);
          fresh = (\<lambda>c. now < cg_expiresAt c);
          usable = (\<lambda>c. useBearerCache \<and> cg_mappingVersion c = op_mappingVersion p \<and> fresh c \<and> sameStringSet tokenGroups (cg_groups c))
      in case (case cached of Some c \<Rightarrow> if usable c then Some c else None | None \<Rightarrow> None) of
           Some c \<Rightarrow> (p, Inr (identity\<lparr>id_Workspace := cg_workspace c, id_Role := cg_role c, id_Grants := cg_grants c,
                                      id_Groups := cg_groups c\<rparr>))
         | None \<Rightarrow>
             (let ask = (\<not> useBearerCache \<or> (case cached of None \<Rightarrow> True | Some c \<Rightarrow> \<not> fresh c));
                  groups = (case op_groupResolver p of
                              Some resolver \<Rightarrow> if ask then resolver (id_Subject identity) else Some tokenGroups
                            | None \<Rightarrow> Some tokenGroups)
              in case groups of None \<Rightarrow> (p, Inl ErrOIDCForbidden) | Some effectiveGroups \<Rightarrow>
              case resolveGroupMappings effectiveGroups (op_groupMappings p) of
                None \<Rightarrow> (EvictSubject (id_Subject identity) p, Inl ErrOIDCForbidden)
              | Some (ws, role, grants) \<Rightarrow>
                  (p\<lparr>op_groupCache := (op_groupCache p)(id_Subject identity \<mapsto>
                        \<lparr>cg_workspace = ws, cg_role = role, cg_grants = grants, cg_groups = effectiveGroups,
                         cg_expiresAt = now + op_groupCacheTTL p, cg_mappingVersion = op_mappingVersion p\<rparr>)\<rparr>,
                   Inr (identity\<lparr>id_Workspace := ws, id_Role := role, id_Grants := grants, id_Groups := effectiveGroups\<rparr>))))"

definition claimed_identity :: "claims \<Rightarrow> Identity \<Rightarrow> OIDCProvider \<Rightarrow> Identity" where
  "claimed_identity cs identity p =
     (let i1 = (if op_wsClaim p = '''' then identity
                else case claimString cs (op_wsClaim p) of
                       Some mapped \<Rightarrow> if Valid mapped then identity\<lparr>id_Workspace := mapped\<rparr> else identity
                     | None \<Rightarrow> identity)
      in if op_roleClaim p = '''' then i1
         else case claimString cs (op_roleClaim p) of
                Some mapped \<Rightarrow> (case ParseRole mapped of (role, ok) \<Rightarrow> if ok then i1\<lparr>id_Role := role\<rparr> else i1)
              | None \<Rightarrow> i1)"

definition identityFromToken :: "gtime \<Rightarrow> IDToken \<Rightarrow> bool \<Rightarrow> OIDCProvider \<Rightarrow> OIDCProvider \<times> (oidc_error + Identity)" where
  "identityFromToken now tok useBearerCache p =
     (case it_named tok of None \<Rightarrow> (p, Inl (OIDCError ''auth: OIDC id_token claims could not be decoded'')) | Some (sub, email, name) \<Rightarrow>
      if trim_space sub = '''' then (p, Inl (OIDCError ''auth: OIDC id_token carried no sub claim''))
      else if \<not> checkAccount p email then (p, Inl ErrOIDCAccount)
      else case it_claims tok of None \<Rightarrow> (p, Inl (OIDCError ''auth: OIDC id_token claims could not be decoded'')) | Some cs \<Rightarrow>
      let identity = \<lparr>id_Subject = sub, id_Email = email, id_Name = name, id_Workspace = op_ws p, id_Role = RoleAdmin,
                      id_Grants = [], id_Groups = [], id_Scopes = claimScopes cs ''sorobeacon_scopes''\<rparr>
      in if op_groupMappings p \<noteq> [] then mapped_identity now useBearerCache cs identity p
         else (p, Inr (claimed_identity cs identity p)))"

text \<open>\<open>verified\<close> is the library's answer for the presented token.\<close>

definition VerifyBearer :: "gtime \<Rightarrow> IDToken option \<Rightarrow> string \<Rightarrow> OIDCProvider \<Rightarrow> OIDCProvider \<times> (oidc_error + Identity)" where
  "VerifyBearer now verified rawIDToken p =
     (if trim_space rawIDToken = '''' then (p, Inl ErrOIDCToken)
      else case verified of None \<Rightarrow> (p, Inl ErrOIDCToken) | Some tok \<Rightarrow> identityFromToken now tok True p)"

subsection \<open>Sessions\<close>

record sessionInfo =
  se_expires :: gtime
  se_role :: Role
  se_workspace :: string
  se_grants :: "WorkspaceGrant list"
  se_oidcSubject :: string
  se_oidcGroups :: "string list"
  se_groupCheckedAt :: gtime
  se_mappingVersion :: "64 word"

datatype AuthStatus = AuthUnauthenticated | AuthOK | AuthForbidden

definition revalidateSession :: "gtime \<Rightarrow> OIDCProvider \<Rightarrow> sessionInfo \<Rightarrow> sessionInfo \<times> AuthStatus" where
  "revalidateSession now p s =
     (if se_oidcSubject s = '''' then (s, AuthOK)
      else if op_groupMappings p = [] then (s, AuthOK)
      else
        let ttlExpired = (0 < op_groupCacheTTL p \<and> se_groupCheckedAt s \<noteq> 0 \<and> \<not> now < se_groupCheckedAt s + op_groupCacheTTL p);
            versionChanged = (se_mappingVersion s \<noteq> op_mappingVersion p)
        in if \<not> ttlExpired \<and> \<not> versionChanged then (s, AuthOK)
           else case (if \<not> ttlExpired then Some (se_oidcGroups s)
                      else case op_groupResolver p of
                             Some resolver \<Rightarrow> resolver (se_oidcSubject s)
                           | None \<Rightarrow> if op_explicitTTL p then None else Some (se_oidcGroups s)) of
                  None \<Rightarrow> (s, AuthForbidden)
                | Some groups \<Rightarrow>
                    (case resolveGroupMappings groups (op_groupMappings p) of
                       None \<Rightarrow> (s, AuthForbidden)
                     | Some (ws, role, grants) \<Rightarrow>
                         (s\<lparr>se_workspace := ws, se_role := role, se_grants := grants, se_oidcGroups := groups,
                            se_groupCheckedAt := now, se_mappingVersion := op_mappingVersion p\<rparr>, AuthOK)))"

subsection \<open>Logins in flight\<close>

definition sweep_pending :: "gtime \<Rightarrow> OIDCProvider \<Rightarrow> OIDCProvider" where
  "sweep_pending now p =
     p\<lparr>op_pending := (\<lambda>s. case op_pending p s of Some l \<Rightarrow> if now < pl_expires l then Some l else None | None \<Rightarrow> None)\<rparr>"

text \<open>The three random values may fail to be drawn; the URL is the library's, built from state, nonce and verifier.\<close>

definition BeginLogin :: "gtime \<Rightarrow> (string \<times> string \<times> string) option \<Rightarrow> string \<Rightarrow> OIDCProvider \<Rightarrow> OIDCProvider \<times> string option" where
  "BeginLogin now random nxt p =
     (case random of
        None \<Rightarrow> (p, None)
      | Some (state, nonce, verifier) \<Rightarrow>
          (let p1 = sweep_pending now p in
           (p1\<lparr>op_pending := (op_pending p1)(state \<mapsto>
              \<lparr>pl_nonce = nonce, pl_verifier = verifier, pl_next = nxt, pl_expires = now + op_stateTTL p\<rparr>)\<rparr>, Some state)))"

definition take_pending :: "gtime \<Rightarrow> string \<Rightarrow> OIDCProvider \<Rightarrow> OIDCProvider \<times> pendingLogin option" where
  "take_pending now state p =
     (if state = '''' then (p, None)
      else case op_pending p state of
             None \<Rightarrow> (p, None)
           | Some l \<Rightarrow> (p\<lparr>op_pending := (op_pending p)(state := None)\<rparr>, if now < pl_expires l then Some l else None))"

record callback =
  cb_error :: string
  cb_state :: string
  cb_code :: string
  cb_cookie :: string

text \<open>\<open>exchange\<close> answers a code and a verifier with the \<open>id_token\<close>, if the provider sent one; \<open>verify\<close> is the library's check of it.\<close>

definition CompleteLogin ::
  "gtime \<Rightarrow> (string \<Rightarrow> string \<Rightarrow> string option) \<Rightarrow> (string \<Rightarrow> IDToken option) \<Rightarrow> callback \<Rightarrow> OIDCProvider \<Rightarrow>
   OIDCProvider \<times> (oidc_error + Identity \<times> string)" where
  "CompleteLogin now exchange verify q p =
     (if cb_error q \<noteq> '''' then (p, Inl (OIDCError (''auth: provider reported '' @ cb_error q)))
      else case take_pending now (cb_state q) p of
        (p1, None) \<Rightarrow> (p1, Inl ErrOIDCLogin)
      | (p1, Some pending) \<Rightarrow>
          if cb_cookie q = '''' \<or> cb_cookie q \<noteq> cb_state q then (p1, Inl ErrOIDCLogin)
          else if cb_code q = '''' then (p1, Inl ErrOIDCLogin)
          else case exchange (cb_code q) (pl_verifier pending) of
            None \<Rightarrow> (p1, Inl (OIDCError ''auth: OIDC code exchange''))
          | Some rawIDToken \<Rightarrow>
              if trim_space rawIDToken = '''' then (p1, Inl (OIDCError ''auth: OIDC token response carried no id_token''))
              else case verify rawIDToken of
                None \<Rightarrow> (p1, Inl (OIDCError ''auth: OIDC id_token rejected''))
              | Some tok \<Rightarrow>
                  if it_Nonce tok \<noteq> pl_nonce pending then (p1, Inl ErrOIDCLogin)
                  else (case identityFromToken now tok False p1 of
                          (p2, Inl e) \<Rightarrow> (p2, Inl e)
                        | (p2, Inr identity) \<Rightarrow> (p2, Inr (identity, pl_next pending))))"

subsection \<open>How groups resolve\<close>

definition present_groups :: "string list \<Rightarrow> string set" where
  "present_groups groups = {g \<in> trim_space ` set groups. g \<noteq> ''''}"

text \<open>The grants of a set of matching rules: one per workspace, with the highest of its roles.\<close>

definition grants_of :: "GroupMapping set \<Rightarrow> WorkspaceGrant list \<Rightarrow> bool" where
  "grants_of M grants \<longleftrightarrow>
     distinct (map fst grants) \<and> fst ` set grants = gm_Workspace ` M \<and>
     (\<forall>(w, r) \<in> set grants. (\<exists>m \<in> M. gm_Workspace m = w \<and> gm_Role m = r) \<and>
        (\<forall>m \<in> M. gm_Workspace m = w \<longrightarrow> AtLeast r (gm_Role m)))"

lemma AtLeast_refl [simp]: "AtLeast r r"
  by (simp add: AtLeast_def)

lemma AtLeast_total: "\<not> AtLeast a b \<Longrightarrow> AtLeast b a"
  by (simp add: AtLeast_def)

lemma AtLeast_trans: "AtLeast a b \<Longrightarrow> AtLeast b c \<Longrightarrow> AtLeast a c"
  by (simp add: AtLeast_def)

lemma grants_ofI:
  assumes "distinct (map fst grants)" "fst ` set grants = gm_Workspace ` M"
    and "\<And>w r. (w, r) \<in> set grants \<Longrightarrow> \<exists>m \<in> M. gm_Workspace m = w \<and> gm_Role m = r"
    and "\<And>w r m. (w, r) \<in> set grants \<Longrightarrow> m \<in> M \<Longrightarrow> gm_Workspace m = w \<Longrightarrow> AtLeast r (gm_Role m)"
  shows "grants_of M grants"
  using assms by (auto simp: grants_of_def)

lemma grants_ofD:
  assumes "grants_of M grants"
  shows "distinct (map fst grants)" "fst ` set grants = gm_Workspace ` M"
    and "\<And>w r. (w, r) \<in> set grants \<Longrightarrow> \<exists>m \<in> M. gm_Workspace m = w \<and> gm_Role m = r"
    and "\<And>w r m. (w, r) \<in> set grants \<Longrightarrow> m \<in> M \<Longrightarrow> gm_Workspace m = w \<Longrightarrow> AtLeast r (gm_Role m)"
  using assms by (auto simp: grants_of_def)

lemma raise_grant:
  assumes g: "grants_of M grants" and m: "gm_Workspace m \<in> fst ` set grants"
  defines "up \<equiv> \<lambda>(w, role). (w, if w = gm_Workspace m \<and> AtLeast (gm_Role m) role then gm_Role m else role)"
  shows "grants_of (insert m M) (map up grants)"
proof (rule grants_ofI)
  have "map fst (map up grants) = map fst grants" by (simp add: up_def case_prod_beta)
  moreover from this have "fst ` set (map up grants) = fst ` set grants" by (metis list.set_map)
  moreover have "gm_Workspace ` insert m M = gm_Workspace ` M" using m grants_ofD(2) [OF g] by auto
  ultimately show "distinct (map fst (map up grants))" "fst ` set (map up grants) = gm_Workspace ` insert m M"
    using grants_ofD(1,2) [OF g] by metis+
next
  fix w r
  assume "(w, r) \<in> set (map up grants)"
  then obtain r0 where r0: "(w, r0) \<in> set grants" "r = (if w = gm_Workspace m \<and> AtLeast (gm_Role m) r0 then gm_Role m else r0)"
    by (auto simp: up_def)
  then show "\<exists>m' \<in> insert m M. gm_Workspace m' = w \<and> gm_Role m' = r" using grants_ofD(3) [OF g r0(1)] by auto
  show "AtLeast r (gm_Role m')" if "m' \<in> insert m M" "gm_Workspace m' = w" for m'
  proof (cases "m' = m")
    case True
    then show ?thesis using that(2) r0(2) AtLeast_total by (cases "AtLeast (gm_Role m) r0") auto
  next
    case False
    then have "AtLeast r0 (gm_Role m')" using that grants_ofD(4) [OF g r0(1)] by blast
    then show ?thesis using r0(2) AtLeast_trans by (cases "w = gm_Workspace m \<and> AtLeast (gm_Role m) r0") auto
  qed
qed

lemma new_grant:
  assumes g: "grants_of M grants" and m: "gm_Workspace m \<notin> fst ` set grants"
  shows "grants_of (insert m M) (grants @ [(gm_Workspace m, gm_Role m)])"
proof (rule grants_ofI)
  show "distinct (map fst (grants @ [(gm_Workspace m, gm_Role m)]))" using grants_ofD(1) [OF g] m by simp
  show "fst ` set (grants @ [(gm_Workspace m, gm_Role m)]) = gm_Workspace ` insert m M" using grants_ofD(2) [OF g] by simp
next
  fix w r
  assume "(w, r) \<in> set (grants @ [(gm_Workspace m, gm_Role m)])"
  then consider (old) "(w, r) \<in> set grants" "w \<noteq> gm_Workspace m" | (new) "w = gm_Workspace m" "r = gm_Role m"
    using m by force
  note split = this
  show "\<exists>m' \<in> insert m M. gm_Workspace m' = w \<and> gm_Role m' = r"
    using split grants_ofD(3) [OF g] by cases auto
  show "AtLeast r (gm_Role m')" if "m' \<in> insert m M" "gm_Workspace m' = w" for m'
    using split
  proof cases
    case old
    then show ?thesis using that grants_ofD(4) [OF g] by blast
  next
    case new
    then have "m' = m" using that m grants_ofD(2) [OF g] imageI [of m' M gm_Workspace] by auto
    then show ?thesis using new by simp
  qed
qed

lemma add_grant_grants_of: "grants_of M grants \<Longrightarrow> grants_of (insert m M) (add_grant m grants)"
  using raise_grant new_grant by (simp add: add_grant_def)

lemma fold_grants_of:
  "grants_of M grants \<Longrightarrow>
     grants_of (M \<union> {r \<in> set rules. gm_Group r \<in> P}) (fold (\<lambda>r gs. if gm_Group r \<in> P then add_grant r gs else gs) rules grants)"
proof (induction rules arbitrary: M grants)
  case (Cons r rules)
  let ?f = "\<lambda>r gs. if gm_Group r \<in> P then add_grant r gs else gs"
  show ?case
  proof (cases "gm_Group r \<in> P")
    case True
    have "insert r M \<union> {x \<in> set rules. gm_Group x \<in> P} = M \<union> {x \<in> set (r # rules). gm_Group x \<in> P}" using True by auto
    moreover have "fold ?f (r # rules) grants = fold ?f rules (add_grant r grants)" using True by simp
    ultimately show ?thesis using Cons.IH [OF add_grant_grants_of [OF Cons.prems, of r]] by argo
  next
    case False
    then have "M \<union> {x \<in> set rules. gm_Group x \<in> P} = M \<union> {x \<in> set (r # rules). gm_Group x \<in> P}" by auto
    moreover have "fold ?f (r # rules) grants = fold ?f rules grants" using False by simp
    ultimately show ?thesis using Cons.IH [OF Cons.prems] by argo
  qed
qed simp

text \<open>The primary grant: the first one of the highest role.\<close>

definition primary_of :: "WorkspaceGrant list \<Rightarrow> WorkspaceGrant \<Rightarrow> bool" where
  "primary_of grants best \<longleftrightarrow>
     (\<exists>xs ys. grants = xs @ best # ys \<and> (\<forall>x \<in> set xs. \<not> AtLeast (snd x) (snd best)) \<and> (\<forall>y \<in> set ys. AtLeast (snd best) (snd y)))"

lemma better_grant_primary:
  assumes "primary_of grants best"
  shows "primary_of (grants @ [g]) (better_grant g best)"
proof -
  obtain xs ys where s: "grants = xs @ best # ys" "\<forall>x \<in> set xs. \<not> AtLeast (snd x) (snd best)"
    "\<forall>y \<in> set ys. AtLeast (snd best) (snd y)" using assms by (auto simp: primary_of_def)
  show ?thesis
  proof (cases "AtLeast (snd g) (snd best) \<and> \<not> AtLeast (snd best) (snd g)")
    case True
    then have "\<forall>x \<in> set grants. \<not> AtLeast (snd x) (snd g)" using s by (auto simp: AtLeast_def)
    then show ?thesis using True unfolding primary_of_def better_grant_def
      by (intro exI [of _ grants] exI [of _ "[]"]) simp
  next
    case False
    then have "AtLeast (snd best) (snd g)" using AtLeast_total by blast
    then show ?thesis using s False unfolding primary_of_def better_grant_def
      by (intro exI [of _ xs] exI [of _ "ys @ [g]"]) (simp add: ball_Un)
  qed
qed

lemma fold_better_primary: "primary_of pre best \<Longrightarrow> primary_of (pre @ gs) (fold better_grant gs best)"
proof (induction gs arbitrary: pre best)
  case (Cons g gs)
  from Cons.IH [OF better_grant_primary [OF Cons.prems]] show ?case by simp
qed simp

lemma resolveGroupMappings_spec:
  "case resolveGroupMappings groups rules of
     None \<Rightarrow> {m \<in> set rules. gm_Group m \<in> present_groups groups} = {}
   | Some (ws, role, grants) \<Rightarrow>
       grants_of {m \<in> set rules. gm_Group m \<in> present_groups groups} grants \<and> primary_of grants (ws, role)"
proof -
  let ?M = "{m \<in> set rules. gm_Group m \<in> present_groups groups}"
  define gs where "gs = fold (\<lambda>r gs. if gm_Group r \<in> present_groups groups then add_grant r gs else gs) rules []"
  have P: "set (filter (\<lambda>g. g \<noteq> '''') (map trim_space groups)) = present_groups groups" by (auto simp: present_groups_def)
  have "grants_of {} []" by (simp add: grants_of_def)
  from fold_grants_of [OF this, of rules "present_groups groups"] have g: "grants_of ?M gs" by (simp add: gs_def)
  show ?thesis
  proof (cases gs)
    case Nil
    then have M: "?M = {}" using g by (simp add: grants_of_def)
    have "resolveGroupMappings groups rules = None"
      using Nil unfolding resolveGroupMappings_def Let_def P gs_def by simp
    then show ?thesis using M by simp
  next
    case (Cons x xs)
    then have "?M \<noteq> {}" using g by (auto simp: grants_of_def)
    then have "present_groups groups \<noteq> {}" "rules \<noteq> []" by auto
    then have ne: "groups \<noteq> []" "rules \<noteq> []" "filter (\<lambda>g. g \<noteq> '''') (map trim_space groups) \<noteq> []"
      unfolding P [symmetric] by (force, simp, metis empty_set)
    have "primary_of [x] x" unfolding primary_of_def by (intro exI [of _ "[]"]) simp
    from fold_better_primary [OF this, of xs] have "primary_of gs (fold better_grant xs x)" using Cons by simp
    moreover have "resolveGroupMappings groups rules =
        Some (fst (fold better_grant xs x), snd (fold better_grant xs x), gs)"
      using ne Cons unfolding resolveGroupMappings_def Let_def P gs_def by simp
    ultimately show ?thesis using g by simp
  qed
qed

text \<open>The granted role is that of a rule.\<close>

lemma resolveGroupMappings_role:
  assumes "resolveGroupMappings groups rules = Some (ws, role, grants)"
  shows "\<exists>m \<in> set rules. gm_Workspace m = ws \<and> gm_Role m = role"
proof -
  have "grants_of {m \<in> set rules. gm_Group m \<in> present_groups groups} grants" "(ws, role) \<in> set grants"
    using resolveGroupMappings_spec [of rules groups] assms by (auto simp: primary_of_def)
  from grants_ofD(3) [OF this] show ?thesis by blast
qed



subsection \<open>A login state is used once\<close>

lemma identityFromToken_pending: "identityFromToken now tok c p = (p', r) \<Longrightarrow> op_pending p' = op_pending p"
  by (auto simp: identityFromToken_def mapped_identity_def Let_def EvictSubject_def split: option.splits prod.splits if_splits)

text \<open>
  A login's state works once: after any callback that named it and was not a report of the provider's own error, whether or not it signed
  in, a second callback with the same state is refused, whatever code, cookie, token or time it comes with.
\<close>

theorem login_state_is_single_use:
  assumes "CompleteLogin now exchange verify q p = (p', r)" and "cb_error q = ''''"
    and "cb_state q' = cb_state q" and "cb_error q' = ''''"
  shows "CompleteLogin now' exchange' verify' q' p' = (p', Inl ErrOIDCLogin)"
proof -
  have t: "take_pending t (cb_state q) p' = (p', None)" for t
  proof (cases "cb_state q = '''' \<or> op_pending p (cb_state q) = None")
    case True
    then have "take_pending now (cb_state q) p = (p, None)" by (auto simp: take_pending_def)
    then have "p' = p" using assms(1,2) by (simp add: CompleteLogin_def)
    then show ?thesis using True by (auto simp: take_pending_def)
  next
    case False
    then have "op_pending p' (cb_state q) = None"
      using assms(1,2)
      by (auto simp: CompleteLogin_def take_pending_def dest!: identityFromToken_pending split: option.splits sum.splits prod.splits if_splits)
    then show ?thesis by (simp add: take_pending_def)
  qed
  show ?thesis using t [of now'] assms(3,4) by (simp add: CompleteLogin_def)
qed

subsection \<open>Divergences\<close>

definition demo_provider :: OIDCProvider where
  "demo_provider =
     \<lparr>op_allowedDomains = [], op_ws = ''default'', op_wsClaim = '''', op_roleClaim = '''', op_groupClaim = ''groups'',
      op_groupMappings = [\<lparr>gm_Group = ''admins'', gm_Workspace = ''acme'', gm_Role = RoleAdmin\<rparr>,
                          \<lparr>gm_Group = ''readers'', gm_Workspace = ''acme'', gm_Role = RoleViewer\<rparr>],
      op_groupCacheTTL = 5 * minute, op_explicitTTL = True, op_groupResolver = Some (\<lambda>_. Some [''readers'']),
      op_mappingVersion = 1, op_groupCache = (\<lambda>_. None), op_stateTTL = 10 * minute,
      op_pending = (\<lambda>s. if s = ''st'' then Some \<lparr>pl_nonce = ''n'', pl_verifier = ''v'', pl_next = ''/'', pl_expires = 700 * second\<rparr> else None)\<rparr>"

definition demo_token :: IDToken where
  "demo_token =
     \<lparr>it_Nonce = ''n'', it_named = Some (''u1'', ''u@x.io'', ''U''),
      it_claims = Some [(''groups'', GList [GStr ''admins'', GStr ''readers'']), (''sorobeacon_scopes'', GStr ''monitors:raed'')]\<rparr>"

definition demo_callback :: callback where
  "demo_callback = \<lparr>cb_error = '''', cb_state = ''st'', cb_code = ''c'', cb_cookie = ''st''\<rparr>"

theorem login_state_is_single_use_witness:
  "(case snd (CompleteLogin (100 * second) (\<lambda>_ _. Some ''t'') (\<lambda>_. Some demo_token) demo_callback demo_provider) of
      Inr (i, nxt) \<Rightarrow> id_Workspace i = ''acme'' \<and> id_Role i = RoleViewer \<and> nxt = ''/'' | Inl _ \<Rightarrow> False) \<and>
   snd (CompleteLogin (101 * second) (\<lambda>_ _. Some ''t'') (\<lambda>_. Some demo_token) demo_callback
     (fst (CompleteLogin (100 * second) (\<lambda>_ _. Some ''t'') (\<lambda>_. Some demo_token) demo_callback demo_provider))) = Inl ErrOIDCLogin"
proof -
  let ?c = "CompleteLogin (100 * second) (\<lambda>_ _. Some ''t'') (\<lambda>_. Some demo_token) demo_callback demo_provider"
  have "cb_error demo_callback = ''''" by (simp add: demo_callback_def)
  with login_state_is_single_use [OF surjective_pairing [of ?c] this refl this]
  have "snd (CompleteLogin (101 * second) (\<lambda>_ _. Some ''t'') (\<lambda>_. Some demo_token) demo_callback (fst ?c)) = Inl ErrOIDCLogin" by simp
  moreover have "case snd ?c of Inr (i, nxt) \<Rightarrow> id_Workspace i = ''acme'' \<and> id_Role i = RoleViewer \<and> nxt = ''/'' | Inl _ \<Rightarrow> False"
    by code_simp
  ultimately show ?thesis by blast
qed

text \<open>
  A group the provider has withdrawn comes back with the second request. The first bearer request asks the resolver, which knows the
  caller as a reader only, and caches that answer; the second, within the cache's lifetime, finds that the cached groups differ from the
  token's own, does not ask again, and grants what the token claims.
\<close>

theorem withdrawn_group_returns_with_the_second_request:
  "let r1 = VerifyBearer (100 * second) (Some demo_token) ''t'' demo_provider;
       r2 = VerifyBearer (101 * second) (Some demo_token) ''t'' (fst r1)
   in map_sum id id_Role (snd r1) = Inr RoleViewer \<and> map_sum id id_Role (snd r2) = Inr RoleAdmin"
  by code_simp

text \<open>A scope claim that names an unknown scope is dropped as a whole, and an identity without scopes is not restricted to any.\<close>

theorem unknown_scope_claim_lifts_the_restriction:
  "map_sum id id_Scopes (snd (VerifyBearer (100 * second) (Some demo_token) ''t'' demo_provider)) = Inr []"
  by code_simp

end
