(* ===== verification/Token_Safety.thy ===== *)
theory Token_Safety
  imports Access_Tokens
begin

text \<open>
  What the scoped tokens of \<open>Access_Tokens\<close> guarantee. A row's digest, scopes and workspace never change and a revocation is
  never undone, whatever calls follow (\<open>evolves\<close>); the stored scope list reads back as it was granted; a caller
  grants at most what it holds. Together: a token never reaches beyond the caller that minted it, and a revoked one never authenticates again.
  Two divergences are theorems of their own: a rotation that asks for a blank scope, and a rotation abandoned twice.
\<close>

subsection \<open>Rows over time\<close>

definition later_row :: "token_row \<Rightarrow> token_row \<Rightarrow> bool" where
  "later_row r r' \<longleftrightarrow>
     tr_id r' = tr_id r \<and> tr_workspace_id r' = tr_workspace_id r \<and> tr_token_hash r' = tr_token_hash r \<and>
     tr_scopes r' = tr_scopes r \<and> (tr_revoked_at r \<noteq> None \<longrightarrow> tr_revoked_at r' = tr_revoked_at r)"

definition evolves :: "token_db \<Rightarrow> token_db \<Rightarrow> bool" where
  "evolves db db' \<longleftrightarrow>
     length (td_rows db) \<le> length (td_rows db') \<and>
     (\<forall>i < length (td_rows db). later_row (td_rows db ! i) (td_rows db' ! i))"

definition wf_tokens :: "token_db \<Rightarrow> bool" where
  "wf_tokens db \<longleftrightarrow>
     distinct (map tr_token_hash (td_rows db)) \<and> distinct (map tr_id (td_rows db)) \<and>
     (\<forall>r \<in> set (td_rows db). tr_id r < td_seq db \<and> tr_revoked_at r \<noteq> Some 0)"

lemma later_row_refl [simp]: "later_row r r"
  by (simp add: later_row_def)

lemma later_row_trans: "later_row a b \<Longrightarrow> later_row b c \<Longrightarrow> later_row a c"
  by (auto simp: later_row_def)

lemma tokens_evolve_refl [simp]: "evolves db db"
  by (simp add: evolves_def)

lemma tokens_evolve_trans: "evolves a b \<Longrightarrow> evolves b c \<Longrightarrow> evolves a c"
  unfolding evolves_def by (meson later_row_trans order.trans order.strict_trans2)

lemma evolves_update: "(\<And>r. later_row r (f r)) \<Longrightarrow> evolves db (update_row i ws f db)"
  by (simp add: evolves_def update_row_def)

lemma map_update_row:
  "(\<And>r. g (f r) = g r) \<Longrightarrow> map g (td_rows (update_row i ws f db)) = map g (td_rows db)"
  by (simp add: update_row_def)

lemma wf_update:
  assumes "wf_tokens db"
    and "\<And>r. tr_id (f r) = tr_id r" "\<And>r. tr_token_hash (f r) = tr_token_hash r"
    and "\<And>r. tr_revoked_at r \<noteq> Some 0 \<Longrightarrow> tr_revoked_at (f r) \<noteq> Some 0"
  shows "wf_tokens (update_row i ws f db)"
proof -
  have "\<forall>r \<in> set (td_rows (update_row i ws f db)). tr_id r < td_seq (update_row i ws f db) \<and> tr_revoked_at r \<noteq> Some 0"
    using assms by (auto simp: wf_tokens_def update_row_def)
  then show ?thesis using assms(1)
    unfolding wf_tokens_def by (simp add: map_update_row [of tr_id f, OF assms(2)] map_update_row [of tr_token_hash f, OF assms(3)])
qed

lemma insert_row_Inr:
  assumes "insert_row dbnow ws t f rot db = Inr (db', row)"
  shows "tk_Hash t \<notin> tr_token_hash ` set (td_rows db)" "td_rows db' = td_rows db @ [row]" "td_seq db' = td_seq db + 1"
    "tr_token_hash row = tk_Hash t" "tr_scopes row = JoinScopes (tk_Scopes t)" "tr_workspace_id row = ws"
    "tr_expires_at row = nullable (tk_ExpiresAt t)" "tr_revoked_at row = None" "tr_id row = td_seq db"
  using assms by (auto simp: insert_row_def Let_def split: if_splits)

lemma insert_row_evolves:
  assumes "insert_row dbnow ws t f rot db = Inr (db', row)"
  shows "evolves db db'"
  using insert_row_Inr(2) [OF assms] by (simp add: evolves_def nth_append)

lemma insert_row_wf:
  assumes "insert_row dbnow ws t f rot db = Inr (db', row)" "wf_tokens db"
  shows "wf_tokens db'"
  using assms(2) insert_row_Inr [OF assms(1)] by (fastforce simp: wf_tokens_def)

text \<open>Both facts of every step.\<close>

definition safe_step :: "token_db \<Rightarrow> token_db \<Rightarrow> bool" where
  "safe_step db db' \<longleftrightarrow> evolves db db' \<and> (wf_tokens db \<longrightarrow> wf_tokens db')"

lemma safe_step_refl [simp]: "safe_step db db"
  by (simp add: safe_step_def)

lemma safe_step_trans: "safe_step a b \<Longrightarrow> safe_step b c \<Longrightarrow> safe_step a c"
  using tokens_evolve_trans by (auto simp: safe_step_def)

lemma safe_insert: "insert_row dbnow ws t f rot db = Inr (db', row) \<Longrightarrow> safe_step db db'"
  using insert_row_evolves insert_row_wf by (auto simp: safe_step_def)

lemma safe_update:
  assumes "\<And>r. tr_id (f r) = tr_id r" "\<And>r. tr_token_hash (f r) = tr_token_hash r" "\<And>r. tr_workspace_id (f r) = tr_workspace_id r"
    "\<And>r. tr_scopes (f r) = tr_scopes r" "\<And>r. tr_revoked_at (f r) = tr_revoked_at r"
  shows "safe_step db (update_row i ws f db)"
  unfolding safe_step_def
  by (intro conjI impI evolves_update wf_update) (simp_all add: later_row_def assms)

lemma safe_revoke:
  assumes "0 < t"
  shows "safe_step db (update_row i ws (\<lambda>r. r\<lparr>tr_revoked_at := Some (case tr_revoked_at r of Some t' \<Rightarrow> t' | None \<Rightarrow> t)\<rparr>) db)"
  unfolding safe_step_def using assms
  by (intro conjI impI evolves_update wf_update) (auto simp: later_row_def split: option.splits)

lemma safe_CreateAPIToken: "CreateAPIToken flt now ws t db = (db', r) \<Longrightarrow> safe_step db db'"
  using safe_insert by (auto simp: CreateAPIToken_def split: option.splits sum.splits prod.splits)

lemma safe_RotateAPIToken: "RotateAPIToken flt now dbnow ws i t ex db = (db', r) \<Longrightarrow> safe_step db db'"
  unfolding RotateAPIToken_def Let_def
  by (auto split: option.splits sum.splits prod.splits if_splits intro!: safe_step_trans [OF safe_insert safe_update])

lemma safe_AbandonAPITokenRotation:
  "0 < dbnow \<Longrightarrow> AbandonAPITokenRotation flt dbnow ws i db = (db', r) \<Longrightarrow> safe_step db db'"
  unfolding AbandonAPITokenRotation_def Let_def
  by (auto split: option.splits prod.splits if_splits intro!: safe_step_trans [OF safe_revoke safe_update])

lemma safe_RevokeAPIToken: "0 < dbnow \<Longrightarrow> RevokeAPIToken flt dbnow ws i db = (db', r) \<Longrightarrow> safe_step db db'"
  unfolding RevokeAPIToken_def by (auto split: option.splits if_splits intro: safe_revoke)

lemma safe_TouchAPIToken: "TouchAPIToken flt ws i t db = (db', r) \<Longrightarrow> safe_step db db'"
  unfolding TouchAPIToken_def by (auto split: option.splits intro: safe_update)

lemma safe_Mint: "Mint e ws n ss ex db = (db', r) \<Longrightarrow> safe_step db db'"
  unfolding Mint_def Let_def by (auto split: option.splits sum.splits prod.splits if_splits dest: safe_CreateAPIToken)

lemma safe_Rotate: "Rotate e ws i n ss ov ex db = (db', r) \<Longrightarrow> safe_step db db'"
  unfolding Rotate_def Let_def by (auto split: option.splits sum.splits prod.splits if_splits dest: safe_RotateAPIToken)

lemma safe_Authenticate: "Authenticate e s db = (db', r) \<Longrightarrow> safe_step db db'"
  unfolding Authenticate_def Let_def
  by (auto split: option.splits sum.splits prod.splits if_splits simp: safe_TouchAPIToken [OF prod.collapse [symmetric]])

lemma safe_createToken: "createToken c e caller ws body db = (db', r) \<Longrightarrow> safe_step db db'"
  unfolding createToken_def Let_def by (auto split: option.splits sum.splits prod.splits if_splits dest: safe_Mint)

lemma safe_rotateToken: "rotateToken c e caller ws i body db = (db', r) \<Longrightarrow> safe_step db db'"
  unfolding rotateToken_def Let_def by (auto split: option.splits sum.splits prod.splits if_splits dest: safe_Rotate)

lemma token_step_safe: "token_step db db' \<Longrightarrow> safe_step db db'"
proof (induction rule: token_step.induct)
  case (abandoned e c ws i db db' r)
  then show ?case
    by (auto simp: abandonTokenRotation_def AbandonRotation_def split: option.splits prod.splits if_splits dest: safe_AbandonAPITokenRotation)
next
  case (revoked e c ws i db db' r)
  then show ?case
    by (auto simp: revokeToken_def Revoke_def split: option.splits prod.splits if_splits dest: safe_RevokeAPIToken)
qed (auto simp: Revoke_def dest: safe_createToken safe_rotateToken safe_Authenticate safe_Mint safe_RevokeAPIToken)

lemma token_steps_safe: "token_step\<^sup>*\<^sup>* db db' \<Longrightarrow> safe_step db db'"
  by (induction rule: rtranclp_induct) (auto dest: token_step_safe intro: safe_step_trans)

text \<open>The row a secret finds, then and later.\<close>

lemma find_nth:
  "List.find P xs = Some x \<longleftrightarrow> (\<exists>i < length xs. xs ! i = x \<and> P x \<and> (\<forall>j < i. \<not> P (xs ! j)))"
  by (auto simp: find_Some_iff)

lemma find_later:
  assumes "evolves db db'" "List.find (\<lambda>r. tr_token_hash r = h) (td_rows db) = Some r"
  obtains r' where "List.find (\<lambda>r. tr_token_hash r = h) (td_rows db') = Some r'" "later_row r r'"
proof -
  obtain i where i: "i < length (td_rows db)" "td_rows db ! i = r" "tr_token_hash r = h"
    "\<forall>j < i. tr_token_hash (td_rows db ! j) \<noteq> h" using assms(2) unfolding find_nth by auto
  let ?r' = "td_rows db' ! i"
  have "later_row r ?r'" "i < length (td_rows db')"
    using assms(1) i by (auto simp: evolves_def)
  moreover have "\<forall>j < i. tr_token_hash (td_rows db' ! j) \<noteq> h"
    using assms(1) i by (auto simp: evolves_def later_row_def)
  ultimately show ?thesis
    using that [of ?r'] i(3) unfolding find_nth by (auto simp: later_row_def)
qed

lemma Authenticate_Some:
  assumes "Authenticate e secret db = (db', Some q)"
  obtains r where "List.find (\<lambda>r. tr_token_hash r = te_digest e secret) (td_rows db) = Some r"
    "Live (scanAPIToken r) (te_clock e 0)" "q = principalFor (scanAPIToken r)"
  using assms by (auto simp: Authenticate_def TokenByHash_def Let_def split: option.splits sum.splits if_splits)

lemma Authenticate_live:
  assumes "List.find (\<lambda>r. tr_token_hash r = te_digest e secret) (td_rows db) = Some r"
    "Live (scanAPIToken r) (te_clock e 0)" "te_fault e 0 = None"
  shows "\<exists>db'. Authenticate e secret db = (db', Some (principalFor (scanAPIToken r)))"
  using assms by (auto simp: Authenticate_def TokenByHash_def Let_def)

subsection \<open>Scope lists read back as they were stored\<close>

definition plain_scope :: "Scope \<Rightarrow> bool" where
  "plain_scope s \<longleftrightarrow> s \<noteq> '''' \<and> CHR '','' \<notin> set s \<and> trim_space s = s"

lemma validScopes_plain: "validScopes s \<Longrightarrow> plain_scope s"
  by (auto simp: validScopes_def AllScopes_def scope_defs plain_scope_def trim_space_def is_space_def)

lemma split_on_no_sep: "c \<notin> set s \<Longrightarrow> split_on c s = [s]"
  by (induction s) auto

lemma split_on_append: "c \<notin> set s \<Longrightarrow> split_on c (s @ c # t) = s # split_on c t"
  by (induction s) auto

lemma split_on_join: "xs \<noteq> [] \<Longrightarrow> (\<And>s. s \<in> set xs \<Longrightarrow> c \<notin> set s) \<Longrightarrow> split_on c (join_with [c] xs) = xs"
proof (induction xs rule: induct_list012)
  case (3 x y zs)
  then show ?case by (simp add: split_on_append)
qed (simp_all add: split_on_no_sep)

lemma all_dropWhile: "(\<forall>c \<in> set (dropWhile P s). P c) \<longleftrightarrow> (\<forall>c \<in> set s. P c)"
  by (induction s) auto

lemma trim_space_empty: "trim_space s = '''' \<longleftrightarrow> (\<forall>c \<in> set s. is_space c)"
  by (simp add: trim_space_def all_dropWhile)

lemma join_with_first: "x \<in> set xs \<Longrightarrow> set x \<subseteq> set (join_with sep xs)"
  by (induction sep xs rule: join_with.induct) auto

lemma SplitScopes_JoinScopes:
  assumes "\<And>s. s \<in> set ss \<Longrightarrow> plain_scope s"
  shows "SplitScopes (JoinScopes ss) = ss"
proof (cases "ss = []")
  case False
  then obtain s where s: "s \<in> set ss" by (cases ss) auto
  then obtain c where "c \<in> set s" "\<not> is_space c" using assms [OF s] trim_space_empty [of s] by (auto simp: plain_scope_def)
  then have "trim_space (JoinScopes ss) \<noteq> ''''"
    using join_with_first [OF s, of "'',''"] unfolding trim_space_empty JoinScopes_def by blast
  moreover have "split_on (CHR '','') (JoinScopes ss) = ss"
    unfolding JoinScopes_def using False assms by (intro split_on_join) (auto simp: plain_scope_def)
  moreover have "map trim_space ss = ss" "filter (\<lambda>p. p \<noteq> '''') ss = ss"
    using assms by (auto simp: plain_scope_def intro!: map_idI filter_True)
  ultimately show ?thesis by (simp add: SplitScopes_def)
qed (simp add: SplitScopes_def JoinScopes_def trim_space_def)

lemma parse_scopes_loop_valid:
  "(\<forall>s \<in> set out. validScopes s) \<Longrightarrow> distinct out \<Longrightarrow>
     (\<forall>s \<in> set (fst (parse_scopes_loop rs out bad)). validScopes s) \<and> distinct (fst (parse_scopes_loop rs out bad))"
proof (induction rs arbitrary: out bad)
  case (Cons r rs)
  show ?case
  proof (cases "trim_space r = '''' \<or> \<not> validScopes (trim_space r) \<or> trim_space r \<in> set out")
    case True
    then show ?thesis using Cons.IH [OF Cons.prems] by (auto simp: Let_def)
  next
    case False
    then have "parse_scopes_loop (r # rs) out bad = parse_scopes_loop rs (out @ [trim_space r]) bad" by (simp add: Let_def)
    moreover have "\<forall>s \<in> set (out @ [trim_space r]). validScopes s" "distinct (out @ [trim_space r])"
      using False Cons.prems by auto
    ultimately show ?thesis using Cons.IH by presburger
  qed
qed simp

lemma ParseScopes_valid: "ParseScopes xs = Inr ss \<Longrightarrow> (\<forall>s \<in> set ss. validScopes s) \<and> distinct ss \<and> sorted ss"
  using parse_scopes_loop_valid [of "[]" xs "[]"]
  by (auto simp: ParseScopes_def split: prod.splits if_splits)

subsection \<open>A grant never widens\<close>

lemma has_prefix_iff: "has_prefix s t \<longleftrightarrow> (\<exists>u. s = t @ u)"
  by (induction s t rule: has_prefix.induct) auto

lemma has_suffix_iff: "has_suffix s t \<longleftrightarrow> (\<exists>u. s = u @ t)"
  unfolding has_suffix_def has_prefix_iff by (metis rev_append rev_rev_ident)

lemma write_not_read: "\<not> has_suffix (u @ '':write'') '':read''"
  by (simp add: has_suffix_def)

lemma scope_covers_trans:
  "scope_covers h w \<Longrightarrow> scope_covers w s \<Longrightarrow> w \<noteq> ScopeAll \<Longrightarrow> scope_covers h s"
  using write_not_read by (auto simp: scope_covers_def)

lemma none_covers_nothing: "scope_covers ScopeNone s \<Longrightarrow> s = ScopeNone"
proof -
  have "ScopeNone \<noteq> u @ '':write''" for u by (simp add: ScopeNone_def append_eq_Cons_conv Cons_eq_append_conv)
  then show "scope_covers ScopeNone s \<Longrightarrow> s = ScopeNone" by (auto simp: scope_covers_def scope_defs)
qed

lemma grant_within_minter:
  assumes "CanGrant p want" "pr_restricted q" "pr_scopes q = want" "Allowed q s"
  shows "Allowed p s"
proof (cases "s = ScopeNone \<or> \<not> pr_restricted p")
  case False
  then obtain w where w: "w \<in> set want" "scope_covers w s" using assms by (auto simp: Allowed_def list_ex_iff)
  then have p: "w \<noteq> ScopeAll" "Allowed p w" using assms(1) False by (auto simp: CanGrant_def list_all_iff)
  have "w \<noteq> ScopeNone" using none_covers_nothing w(2) False by blast
  then obtain h where "h \<in> set (pr_scopes p)" "scope_covers h w" using p(2) False by (auto simp: Allowed_def list_ex_iff)
  then show ?thesis using scope_covers_trans [OF _ w(2) p(1)] by (auto simp: Allowed_def list_ex_iff)
qed (simp add: Allowed_def)

subsection \<open>A token and its minter\<close>

text \<open>What a call that answered with a new token has written.\<close>

definition wrote_token :: "token_env \<Rightarrow> string \<Rightarrow> Scope list \<Rightarrow> string \<Rightarrow> token_db \<Rightarrow> bool" where
  "wrote_token e ws scopes secret db \<longleftrightarrow>
     (\<exists>r. List.find (\<lambda>r. tr_token_hash r = te_digest e secret) (td_rows db) = Some r \<and>
          tr_workspace_id r = ws \<and> tr_scopes r = JoinScopes scopes)"

lemma find_new_row:
  assumes "h \<notin> tr_token_hash ` set rows" "tr_token_hash row = h"
  shows "List.find (\<lambda>r. tr_token_hash r = h) (rows @ [row]) = Some row"
  using assms by (induction rows) auto

lemma wrote_token_evolves: "wrote_token e ws ss secret db \<Longrightarrow> evolves db db' \<Longrightarrow> wrote_token e ws ss secret db'"
proof -
  assume w: "wrote_token e ws ss secret db" and ev: "evolves db db'"
  then obtain r where r: "List.find (\<lambda>r. tr_token_hash r = te_digest e secret) (td_rows db) = Some r"
    "tr_workspace_id r = ws" "tr_scopes r = JoinScopes ss" by (auto simp: wrote_token_def)
  from find_later [OF ev r(1)] r(2,3) show "wrote_token e ws ss secret db'" by (auto simp: wrote_token_def later_row_def)
qed

lemma insert_row_wrote:
  assumes "insert_row now ws t f rot db = Inr (db', row)" "tk_Hash t = te_digest e secret"
  shows "wrote_token e ws (tk_Scopes t) secret db'"
  using insert_row_Inr [OF assms(1)] find_new_row [of "tk_Hash t" "td_rows db" row] assms(2) by (simp add: wrote_token_def)

lemma insert_update_wrote:
  assumes "insert_row now ws t f rot db = Inr (db', row)" "tk_Hash t = te_digest e secret" "\<And>r. later_row r (g r)"
  shows "wrote_token e ws (tk_Scopes t) secret (update_row i ws g db')"
  using wrote_token_evolves [OF insert_row_wrote [OF assms(1,2)] evolves_update [OF assms(3)]] .

lemma CreateAPIToken_wrote:
  "CreateAPIToken flt now ws (fresh_token e secret n ss ex) db = (db', Inr t) \<Longrightarrow> wrote_token e ws ss secret db'"
  using insert_row_wrote [of now ws "fresh_token e secret n ss ex" None None db db' _ e secret]
  by (auto simp: CreateAPIToken_def fresh_token_def split: option.splits sum.splits prod.splits)

lemma RotateAPIToken_wrote:
  assumes "RotateAPIToken flt now dbnow ws i t ex db = (db', Inr t')" "tk_Hash t = te_digest e secret"
  shows "wrote_token e ws (tk_Scopes t) secret db'"
  using assms(1) unfolding RotateAPIToken_def Let_def
  by (auto split: option.splits sum.splits prod.splits if_splits
        intro!: insert_update_wrote [OF _ assms(2)] simp: later_row_def)

lemma Mint_wrote: "Mint e ws n ss ex db = (db', Inr (secret, t)) \<Longrightarrow> wrote_token e ws ss secret db'"
  unfolding Mint_def Let_def
  by (auto split: option.splits sum.splits prod.splits if_splits dest: CreateAPIToken_wrote)

lemma rotated_wrote:
  "RotateAPIToken flt now dbnow ws i ((fresh_token e secret n ss ex)\<lparr>tk_RotatedFromID := x, tk_RotatedAt := y\<rparr>) pe db = (db', Inr t') \<Longrightarrow>
     wrote_token e ws ss secret db'"
  by (drule RotateAPIToken_wrote [where e = e and secret = secret]) (simp_all add: fresh_token_def)

lemma Rotate_wrote:
  "Rotate e ws i n scopes ov ex db = (db', Inr (secret, t)) \<Longrightarrow>
     \<exists>pred. GetAPIToken (te_fault e) ws i db = Inr pred \<and> wrote_token e ws (if scopes = [] then tk_Scopes pred else scopes) secret db'"
  unfolding Rotate_def Let_def
  by (auto split: option.splits sum.splits prod.splits if_splits dest: rotated_wrote)

lemma ParseScopes_plain: "ParseScopes xs = Inr ss \<Longrightarrow> s \<in> set ss \<Longrightarrow> plain_scope s"
  using ParseScopes_valid validScopes_plain by blast

lemma createToken_Created:
  assumes "createToken c e caller ws body db = (db', Created tok secret)"
  shows "\<exists>scopes. callerMayGrant caller scopes \<and> (\<forall>s \<in> set scopes. plain_scope s) \<and> wrote_token e ws scopes secret db'"
proof (cases body)
  case (Some req)
  obtain scopes where p: "ParseScopes (cq_Scopes req) = Inr scopes" "callerMayGrant caller scopes"
    using assms Some by (auto simp: createToken_def Let_def not_configured_def no_escalation_def split: sum.splits if_splits)
  have "\<exists>ex t. Mint e ws (trim_space (cq_Name req)) scopes ex db = (db', Inr (secret, t))"
    using assms Some p by (auto simp: createToken_def Let_def not_configured_def split: option.splits sum.splits prod.splits if_splits)
  then show ?thesis using p ParseScopes_plain Mint_wrote by blast
qed (use assms in \<open>auto simp: createToken_def not_configured_def split: if_splits\<close>)

text \<open>A rotation request whose scope list names nothing.\<close>

definition asks_blank :: "rotateTokenRequest option option \<Rightarrow> bool" where
  "asks_blank body \<longleftrightarrow> (\<exists>req. body = Some (Some req) \<and> rq_Scopes req \<noteq> [] \<and> ParseScopes (rq_Scopes req) = Inr [])"

lemma split_on_chars: "p \<in> set (split_on c s) \<Longrightarrow> c \<notin> set p"
proof (induction s arbitrary: p)
  case (Cons x xs)
  then show ?case by (cases "split_on c xs") (auto split: if_splits)
qed simp

lemma trim_space_set: "set (trim_space s) \<subseteq> set s"
  by (auto simp: trim_space_def dest!: set_dropWhileD)

lemma dropWhile_hd: "dropWhile P s = s \<longleftrightarrow> s = [] \<or> \<not> P (hd s)"
  by (cases s) (auto, metis Cons_eq_filterD dropWhile_eq_Cons_conv dropWhile_idem list.inject)

lemma trim_space_idem: "trim_space (trim_space s) = trim_space s"
proof -
  let ?a = "dropWhile is_space s"
  let ?b = "rev (dropWhile is_space (rev ?a))"
  have "hd ?b = hd ?a" if "?b \<noteq> []"
  proof -
    obtain u where u: "rev ?a = u @ dropWhile is_space (rev ?a)" by (metis takeWhile_dropWhile_id)
    then have "?a = ?b @ rev u" by (metis rev_append rev_rev_ident)
    then show ?thesis using that by (metis hd_append2)
  qed
  moreover have "?b = [] \<or> ?a \<noteq> []" by (metis dropWhile.simps(1) rev.simps(1))
  ultimately have "dropWhile is_space ?b = ?b"
    using hd_dropWhile [of is_space s] unfolding dropWhile_hd by (metis dropWhile_eq_Nil_conv)
  then show ?thesis by (simp add: trim_space_def)
qed

lemma SplitScopes_plain: "s \<in> set (SplitScopes x) \<Longrightarrow> plain_scope s"
  using split_on_chars trim_space_set trim_space_idem
  by (fastforce simp: SplitScopes_def plain_scope_def split: if_splits)

lemma GetAPIToken_scopes: "GetAPIToken flt ws i db = Inr t \<Longrightarrow> s \<in> set (tk_Scopes t) \<Longrightarrow> plain_scope s"
  using SplitScopes_plain by (auto simp: GetAPIToken_def scanAPIToken_def split: option.splits)

lemma rotateToken_Created:
  assumes "rotateToken c e caller ws i body db = (db', Created tok secret)" "\<not> asks_blank body"
  shows "\<exists>scopes. callerMayGrant caller scopes \<and> (\<forall>s \<in> set scopes. plain_scope s) \<and> wrote_token e ws scopes secret db'"
proof -
  obtain k pred where k: "c" "i = Some k" "GetAPIToken (te_fault e) ws k db = Inr pred" "Live pred (te_clock e 0)"
    using assms(1) by (auto simp: rotateToken_def not_configured_def split: option.splits sum.splits if_splits)
  obtain req where req: "(case body of None \<Rightarrow> Some no_rotate_request | Some b \<Rightarrow> b) = Some req"
    using assms(1) k by (auto simp: rotateToken_def split: option.splits)
  obtain scopes where s: "(if rq_Scopes req \<noteq> [] then ParseScopes (rq_Scopes req) else Inr (tk_Scopes pred)) = Inr scopes"
    using assms(1) k req by (auto simp: rotateToken_def Let_def split: sum.splits if_splits)
  have g: "callerMayGrant caller scopes"
    using assms(1) k req s by (auto simp: rotateToken_def Let_def no_escalation_def split: if_splits)
  have "\<exists>n ov ex t. Rotate (later_env 2 1 e) ws k n scopes ov ex db = (db', Inr (secret, t))"
    using assms(1) k req s g unfolding rotateToken_def Let_def
    by (simp split: option.splits sum.splits prod.splits if_splits) blast+
  then obtain n ov ex t where "Rotate (later_env 2 1 e) ws k n scopes ov ex db = (db', Inr (secret, t))" by blast
  from Rotate_wrote [OF this] obtain pred' where
    p': "GetAPIToken (te_fault (later_env 2 1 e)) ws k db = Inr pred'"
    "wrote_token (later_env 2 1 e) ws (if scopes = [] then tk_Scopes pred' else scopes) secret db'" by blast
  have "pred' = pred" using k(3) p'(1) by (auto simp: GetAPIToken_def split: option.splits)
  moreover have "tk_Scopes pred = []" if "scopes = []"
    using that s assms(2) req by (auto simp: asks_blank_def no_rotate_request_def split: if_splits option.splits)
  ultimately have "wrote_token e ws scopes secret db'"
    using p'(2) by (auto simp: wrote_token_def later_env_def split: if_splits)
  moreover have "plain_scope x" if "x \<in> set scopes" for x
    using s that ParseScopes_plain GetAPIToken_scopes [OF k(3)] by (auto split: if_splits)
  ultimately show ?thesis using g by blast
qed

text \<open>
  C7. A token never reaches beyond the caller that minted it. Whatever calls follow, by whomever, a caller that authenticates with
  the secret of a token created by \<open>createToken\<close>, or issued by a rotation that does not ask for a blank scope, acts in the workspace of
  the request that minted it and is allowed nothing its minter was not allowed.
\<close>

theorem token_never_outreaches_its_minter:
  assumes "createToken c e (Some p) ws body db = (db1, Created tok secret) \<or>
           rotateToken c e (Some p) ws i rbody db = (db1, Created tok secret) \<and> \<not> asks_blank rbody"
    and "token_step\<^sup>*\<^sup>* db1 db2" and "te_digest e' = te_digest e"
    and "Authenticate e' secret db2 = (db3, Some q)"
  shows "pr_Workspace q = ws \<and> (\<forall>s. Allowed q s \<longrightarrow> Allowed p s)"
proof -
  obtain scopes where g: "CanGrant p scopes" "\<forall>s \<in> set scopes. plain_scope s" and w: "wrote_token e ws scopes secret db1"
    using assms(1) createToken_Created [of c e "Some p" ws body db db1 tok secret]
      rotateToken_Created [of c e "Some p" ws i rbody db db1 tok secret] by (auto simp: callerMayGrant_def)
  have "wrote_token e ws scopes secret db2"
    using wrote_token_evolves [OF w] token_steps_safe [OF assms(2)] by (simp add: safe_step_def)
  moreover obtain r where r: "List.find (\<lambda>r. tr_token_hash r = te_digest e' secret) (td_rows db2) = Some r"
    "q = principalFor (scanAPIToken r)" using Authenticate_Some [OF assms(4)] by metis
  ultimately have "tr_workspace_id r = ws" "tr_scopes r = JoinScopes scopes" using assms(3) by (auto simp: wrote_token_def)
  then have q: "pr_Workspace q = ws" "pr_restricted q" "pr_scopes q = scopes"
    using r(2) g(2) SplitScopes_JoinScopes [of scopes] by (simp_all add: principalFor_def scanAPIToken_def)
  then show ?thesis using grant_within_minter [OF g(1) q(2,3)] by blast
qed

definition demo_env :: "nat \<Rightarrow> string \<Rightarrow> token_env" where
  "demo_env t rnd =
     \<lparr>te_digest = (\<lambda>s. ''#'' @ s), te_rand = Some rnd, te_clock = (\<lambda>_. int t * second), te_dbnow = int t * second,
      te_fault = (\<lambda>_. None), te_ParseDuration = (\<lambda>_. Some (90 * second))\<rparr>"

definition demo_caller :: "Scope list \<Rightarrow> Principal" where
  "demo_caller ss =
     \<lparr>pr_Workspace = ''acme'', pr_Role = RoleUnknown, pr_Grants = [], pr_restricted = True, pr_scopes = ss,
      pr_tokenID = 9, pr_Name = ''ci'', pr_ActorType = ''automation''\<rparr>"

definition demo_request :: "string list \<Rightarrow> createTokenRequest" where
  "demo_request ss = \<lparr>cq_Name = ''deploy'', cq_Scopes = ss, cq_ExpiresIn = ''90s''\<rparr>"

definition demo_minted :: token_db where
  "demo_minted = fst (createToken True (demo_env 10 ''k'') None ''acme'' (Some (demo_request [''channels:write''])) empty_tokens)"

theorem token_never_outreaches_its_minter_witness:
  "let p = demo_caller [ScopeTokensWrite, ScopeMonitorsWrite];
       db = fst (createToken True (demo_env 10 ''k'') (Some p) ''acme'' (Some (demo_request [''monitors:read''])) empty_tokens);
       q = the (snd (Authenticate (demo_env 20 ''x'') ''sb_aw'' db))
   in pr_Workspace q = ''acme'' \<and> (\<forall>s. Allowed q s \<longrightarrow> Allowed p s)"
proof -
  let ?p = "demo_caller [ScopeTokensWrite, ScopeMonitorsWrite]"
  let ?m = "createToken True (demo_env 10 ''k'') (Some ?p) ''acme'' (Some (demo_request [''monitors:read''])) empty_tokens"
  let ?a = "Authenticate (demo_env 20 ''x'') ''sb_aw'' (fst ?m)"
  obtain tok where m: "?m = (fst ?m, Created tok ''sb_aw'')"
  proof -
    have "case snd ?m of Created tok secret \<Rightarrow> secret = ''sb_aw'' | _ \<Rightarrow> False" by code_simp
    then show ?thesis using that by (cases "snd ?m") (auto simp: prod_eq_iff)
  qed
  have "snd ?a \<noteq> None" by code_simp
  then have a: "?a = (fst ?a, Some (the (snd ?a)))" by (cases ?a) auto
  have "te_digest (demo_env 20 ''x'') = te_digest (demo_env 10 ''k'')" by (simp add: demo_env_def)
  from token_never_outreaches_its_minter [OF disjI1 [OF m] rtranclp.rtrancl_refl this a] show ?thesis by simp
qed

subsection \<open>A revoked token\<close>

text \<open>
  C8. Revocation is final: in any state the token operations can reach, once \<open>Revoke\<close> has answered without error (at a database time
  after Go's zero time, which would read as not revoked), the secret of that token never authenticates again, whatever is
  created, rotated, abandoned or revoked afterwards and whatever statements fail.
\<close>

theorem revoked_token_never_authenticates:
  assumes "token_step\<^sup>*\<^sup>* empty_tokens db" and "find_row i ws db = Some row" and "te_digest e' secret = tr_token_hash row"
    and "0 < te_dbnow e" and "Revoke e ws i db = (db1, None)" and "token_step\<^sup>*\<^sup>* db1 db2"
  shows "Authenticate e' secret db2 = (db2, None)"
proof -
  let ?rev = "\<lambda>r. r\<lparr>tr_revoked_at := Some (case tr_revoked_at r of Some t \<Rightarrow> t | None \<Rightarrow> te_dbnow e)\<rparr>"
  have wf: "wf_tokens db" using token_steps_safe [OF assms(1)] by (auto simp: safe_step_def wf_tokens_def empty_tokens_def)
  have row: "row \<in> set (td_rows db)" "tr_id row = i" "tr_workspace_id row = ws"
    using assms(2) by (auto simp: find_row_def find_Some_iff)
  have db1: "db1 = update_row i ws ?rev db" using assms(5) by (auto simp: Revoke_def RevokeAPIToken_def split: option.splits if_splits)
  obtain k where k: "k < length (td_rows db)" "td_rows db ! k = row" using row(1) by (auto simp: in_set_conv_nth)
  have "List.find (\<lambda>r. tr_token_hash r = te_digest e' secret) (td_rows db1) = Some (?rev row)"
  proof -
    have "tr_token_hash (td_rows db1 ! j) = tr_token_hash (td_rows db ! j)" if "j < length (td_rows db)" for j
      using that by (simp add: db1 update_row_def)
    moreover have "tr_token_hash (td_rows db ! j) \<noteq> tr_token_hash row" if "j < k" for j
      using that k wf nth_eq_iff_index_eq [of "map tr_token_hash (td_rows db)" j k] by (auto simp: wf_tokens_def)
    ultimately show ?thesis unfolding find_nth using k row assms(3) by (intro exI [of _ k]) (auto simp: db1 update_row_def)
  qed
  moreover have "evolves db1 db2" using token_steps_safe [OF assms(6)] by (simp add: safe_step_def)
  ultimately obtain r' where r': "List.find (\<lambda>r. tr_token_hash r = te_digest e' secret) (td_rows db2) = Some r'"
    "later_row (?rev row) r'" using find_later by blast
  have "tr_revoked_at r' = tr_revoked_at (?rev row)" using r'(2) by (simp add: later_row_def)
  moreover have "tr_revoked_at (?rev row) \<noteq> Some 0"
    using wf row(1) assms(4) by (auto simp: wf_tokens_def split: option.splits)
  ultimately have "\<not> Live (scanAPIToken r') t" for t by (auto simp: Live_def scanAPIToken_def time_of_def)
  then show ?thesis using r'(1) by (auto simp: Authenticate_def TokenByHash_def Let_def split: option.splits)
qed

theorem revoked_token_never_authenticates_witness:
  "Authenticate (demo_env 30 ''x'') ''sb_aw'' (fst (Revoke (demo_env 20 ''x'') ''acme'' 1 demo_minted)) =
     (fst (Revoke (demo_env 20 ''x'') ''acme'' 1 demo_minted), None) \<and>
   snd (Authenticate (demo_env 30 ''x'') ''sb_aw'' demo_minted) \<noteq> None"
proof -
  let ?e = "demo_env 20 ''x''"
  have "token_step empty_tokens demo_minted"
    unfolding demo_minted_def by (rule token_step.created [OF _ surjective_pairing]) (simp add: demo_env_def second_def)
  then have s: "token_step\<^sup>*\<^sup>* empty_tokens demo_minted" by simp
  have "find_row 1 ''acme'' demo_minted \<noteq> None" by code_simp
  then obtain row where f: "find_row 1 ''acme'' demo_minted = Some row" by blast
  have "map_option tr_token_hash (find_row 1 ''acme'' demo_minted) = Some (te_digest (demo_env 30 ''x'') ''sb_aw'')" by code_simp
  with f have h: "te_digest (demo_env 30 ''x'') ''sb_aw'' = tr_token_hash row" by simp
  have "snd (Revoke ?e ''acme'' 1 demo_minted) = None" by code_simp
  then have r: "Revoke ?e ''acme'' 1 demo_minted = (fst (Revoke ?e ''acme'' 1 demo_minted), None)" by (simp add: prod_eq_iff)
  have "0 < te_dbnow ?e" by (simp add: demo_env_def second_def)
  from revoked_token_never_authenticates [OF s f h this r rtranclp.rtrancl_refl]
  show ?thesis by (intro conjI) (assumption, code_simp)
qed

subsection \<open>Rotation and its undoing\<close>

text \<open>What a successful rotation leaves: the predecessor points to the new row and may expire earlier; the new row is the last one.\<close>

definition rotation_mark :: "int \<Rightarrow> gtime \<Rightarrow> gtime option \<Rightarrow> token_row \<Rightarrow> token_row" where
  "rotation_mark s now expiry r =
     r\<lparr>tr_successor_id := Some s, tr_rotated_at := Some now, tr_pre_rotation_expires_at := nullable (time_of (tr_expires_at r)),
       tr_expires_at := expiry\<rparr>"

lemma RotateAPIToken_rows:
  assumes "RotateAPIToken flt now dbnow ws i t pe db = (db', Inr t')" "wf_tokens db"
  shows "\<exists>srow. td_rows db' = map (\<lambda>r. if tr_id r = i \<and> tr_workspace_id r = ws then rotation_mark (td_seq db) now (nullable pe) r else r)
                                (td_rows db) @ [srow] \<and>
            tr_id srow = td_seq db \<and> tr_workspace_id srow = ws \<and> tr_rotated_from_id srow = Some i \<and> tr_successor_id srow = None \<and>
            tr_revoked_at srow = None \<and> tk_ID t' = td_seq db \<and> i < td_seq db"
proof -
  obtain row where row: "find_row i ws db = Some row"
    using assms(1) by (auto simp: RotateAPIToken_def split: option.splits)
  then have r: "row \<in> set (td_rows db)" "tr_id row = i" "tr_workspace_id row = ws"
    by (auto simp: find_row_def find_Some_iff)
  have lt: "i < td_seq db" using r assms(2) by (auto simp: wf_tokens_def)
  have only: "r = row" if "r \<in> set (td_rows db)" "tr_id r = i" for r
    using that r assms(2) by (auto simp: wf_tokens_def distinct_map inj_on_def)
  obtain db1 srow where ins: "insert_row dbnow ws t (Some i) (Some now) db = Inr (db1, srow)"
    and db': "db' = update_row i ws (\<lambda>r. r\<lparr>tr_successor_id := Some (tr_id srow), tr_rotated_at := Some now,
                       tr_pre_rotation_expires_at := nullable (time_of (tr_expires_at row)), tr_expires_at := nullable pe\<rparr>) db1"
    and t': "tk_ID t' = tr_id srow"
    using assms(1) row
    by (auto simp: RotateAPIToken_def Let_def scanAPIToken_def split: option.splits sum.splits prod.splits if_splits)
  have s: "tr_id srow = td_seq db" "tr_workspace_id srow = ws" "tr_rotated_from_id srow = Some i" "tr_successor_id srow = None"
    "tr_revoked_at srow = None" "td_rows db1 = td_rows db @ [srow]"
    using ins by (auto simp: insert_row_def Let_def split: if_splits)
  show ?thesis
    using lt s t' only by (intro exI [of _ srow]) (auto simp: db' update_row_def rotation_mark_def)
qed

lemma find_row_unique:
  assumes "wf_tokens db" "r \<in> set (td_rows db)" "tr_workspace_id r = ws" "tr_id r = i"
  shows "find_row i ws db = Some r"
proof -
  obtain x where x: "find_row i ws db = Some x"
    using assms(2-4) by (cases "find_row i ws db") (auto simp: find_row_def find_None_iff)
  then have "x \<in> set (td_rows db)" "tr_id x = i" by (auto simp: find_row_def find_Some_iff)
  then have "x = r" using assms by (auto simp: wf_tokens_def distinct_map inj_on_def)
  with x show ?thesis by simp
qed

definition undo_mark :: "gtime option \<Rightarrow> token_row \<Rightarrow> token_row" where
  "undo_mark expiry r =
     r\<lparr>tr_successor_id := None, tr_rotated_at := None, tr_pre_rotation_expires_at := None, tr_expires_at := expiry\<rparr>"

definition revoke_mark :: "gtime \<Rightarrow> token_row \<Rightarrow> token_row" where
  "revoke_mark now r = r\<lparr>tr_revoked_at := Some (case tr_revoked_at r of Some t \<Rightarrow> t | None \<Rightarrow> now)\<rparr>"

lemma mark_undone:
  assumes wf: "wf_tokens db" and row: "row \<in> set (td_rows db)" "tr_id row = i" "tr_workspace_id row = ws"
    and clean: "tr_successor_id row = None" "tr_rotated_at row = None" "tr_pre_rotation_expires_at row = None"
    and db1: "td_rows db1 =
      map (\<lambda>r. if tr_id r = i \<and> tr_workspace_id r = ws then rotation_mark s now ex r else r) (td_rows db) @ [srow]"
    and srow: "tr_id srow = s" "tr_workspace_id srow = ws" "tr_revoked_at srow = None" and s: "s = td_seq db"
  shows "td_rows (update_row i ws (undo_mark (tr_expires_at row)) (update_row s ws (revoke_mark t) db1)) =
         td_rows db @ [srow\<lparr>tr_revoked_at := Some t\<rparr>]"
proof -
  let ?on = "\<lambda>i f r. if tr_id r = i \<and> tr_workspace_id r = ws then f r else r"
  let ?f = "\<lambda>r. ?on i (undo_mark (tr_expires_at row)) (?on s (revoke_mark t) (?on i (rotation_mark s now ex) r))"
  have lt: "i < s" using row wf s by (auto simp: wf_tokens_def)
  have "?f r = r" if r: "r \<in> set (td_rows db)" for r
  proof (cases "tr_id r = i")
    case True
    then have "r = row" using r row wf by (auto simp: wf_tokens_def distinct_map inj_on_def)
    then show ?thesis using row lt clean by (cases row) (simp add: rotation_mark_def undo_mark_def)
  next
    case False
    have "tr_id r < s" using r wf s by (auto simp: wf_tokens_def)
    then show ?thesis using False by simp
  qed
  then have "map ?f (td_rows db) = td_rows db" by (intro map_idI)
  then show ?thesis using lt srow by (simp add: update_row_def db1 comp_def revoke_mark_def)
qed

lemma AbandonAPITokenRotation_rows:
  assumes "AbandonAPITokenRotation flt dbnow ws j db = (db', None)"
    and "find_row j ws db = Some tok" "find_row p ws db = Some prow"
    and "tr_successor_id tok = Some s \<and> p = tr_id tok \<or> tr_successor_id tok = None \<and> tr_rotated_from_id tok = Some p \<and> s = tr_id tok"
  shows "db' = update_row p ws (undo_mark (tr_pre_rotation_expires_at prow)) (update_row s ws (revoke_mark dbnow) db)"
  using assms unfolding AbandonAPITokenRotation_def Let_def
  by (auto simp: scanAPIToken_def undo_mark_def [abs_def] revoke_mark_def [abs_def] split: option.splits)

text \<open>
  C30. Abandoning undoes a rotation: in any state the token operations can reach, a rotation of a token that carries no mark of another rotation
  and whose expiry, if any, is not Go's zero time, abandoned once through either of its two tokens, leaves every earlier row exactly as it was, and the successor's row revoked.
\<close>

theorem abandon_undoes_rotation:
  assumes "token_step\<^sup>*\<^sup>* empty_tokens db" and "find_row i ws db = Some row"
    and "tr_successor_id row = None" "tr_rotated_at row = None" "tr_pre_rotation_expires_at row = None" "tr_expires_at row \<noteq> Some 0"
    and "Rotate e ws i name scopes overlap expires db = (db1, Inr (secret, succ))"
    and "AbandonRotation e' ws j db1 = (db2, None)" and "j = i \<or> j = tk_ID succ"
  shows "\<exists>srow. td_rows db2 = td_rows db @ [srow] \<and> tr_id srow = tk_ID succ \<and> tr_revoked_at srow = Some (te_dbnow e')"
proof -
  have wf: "wf_tokens db" using token_steps_safe [OF assms(1)] by (auto simp: safe_step_def wf_tokens_def empty_tokens_def)
  have row: "row \<in> set (td_rows db)" "tr_id row = i" "tr_workspace_id row = ws"
    using assms(2) by (auto simp: find_row_def find_Some_iff)
  obtain now pe t flt dbnow where rot: "RotateAPIToken flt now dbnow ws i t pe db = (db1, Inr succ)"
    using assms(7) unfolding Rotate_def Let_def by (auto split: option.splits sum.splits prod.splits if_splits)
  let ?mark = "rotation_mark (td_seq db) now (nullable pe)"
  obtain srow where s: "td_rows db1 = map (\<lambda>r. if tr_id r = i \<and> tr_workspace_id r = ws then ?mark r else r) (td_rows db) @ [srow]"
    "tr_id srow = td_seq db" "tr_workspace_id srow = ws" "tr_rotated_from_id srow = Some i" "tr_successor_id srow = None"
    "tr_revoked_at srow = None" "tk_ID succ = td_seq db" "i < td_seq db"
    using RotateAPIToken_rows [OF rot wf] by blast
  have wf1: "wf_tokens db1" using safe_RotateAPIToken [OF rot] wf by (simp add: safe_step_def)
  have prow: "find_row i ws db1 = Some (?mark row)"
    using row s(1) by (intro find_row_unique [OF wf1]) (auto simp: rotation_mark_def)
  have sf: "find_row (td_seq db) ws db1 = Some srow" using s by (intro find_row_unique [OF wf1]) auto
  have ab: "AbandonAPITokenRotation (te_fault e') (te_dbnow e') ws j db1 = (db2, None)" using assms(8) by (simp add: AbandonRotation_def)
  have pre: "tr_pre_rotation_expires_at (?mark row) = tr_expires_at row"
    using assms(6) by (cases "tr_expires_at row") (auto simp: rotation_mark_def nullable_def time_of_def)
  have db2: "db2 = update_row i ws (undo_mark (tr_expires_at row)) (update_row (td_seq db) ws (revoke_mark (te_dbnow e')) db1)"
    using assms(9)
  proof
    assume "j = i"
    then show ?thesis
      using AbandonAPITokenRotation_rows [OF ab _ prow, of "?mark row" "td_seq db"] prow row(2) pre by (simp add: rotation_mark_def)
  next
    assume "j = tk_ID succ"
    then show ?thesis
      using AbandonAPITokenRotation_rows [OF ab _ prow, of srow "td_seq db"] sf s pre by simp
  qed
  have "td_rows db2 = td_rows db @ [srow\<lparr>tr_revoked_at := Some (te_dbnow e')\<rparr>]"
    unfolding db2 by (rule mark_undone [OF wf row assms(3-5) s(1,2,3,6) refl])
  then show ?thesis using s by auto
qed

definition demo_rotated :: "token_db \<times> (string + string \<times> Token)" where
  "demo_rotated = Rotate (demo_env 20 ''r'') ''acme'' 1 '''' [] 0 0 demo_minted"

theorem abandon_undoes_rotation_witness:
  "\<exists>srow. td_rows (fst (AbandonRotation (demo_env 30 ''x'') ''acme'' 2 (fst demo_rotated))) = td_rows demo_minted @ [srow] \<and>
     tr_id srow = 2 \<and> tr_revoked_at srow = Some (30 * second)"
proof -
  have "token_step empty_tokens demo_minted"
    unfolding demo_minted_def by (rule token_step.created [OF _ surjective_pairing]) (simp add: demo_env_def second_def)
  then have s: "token_step\<^sup>*\<^sup>* empty_tokens demo_minted" by simp
  have "case find_row 1 ''acme'' demo_minted of None \<Rightarrow> False | Some r \<Rightarrow> tr_successor_id r = None \<and> tr_rotated_at r = None \<and>
          tr_pre_rotation_expires_at r = None \<and> tr_expires_at r = Some (100 * second)" by code_simp
  then obtain row where f: "find_row 1 ''acme'' demo_minted = Some row" "tr_successor_id row = None" "tr_rotated_at row = None"
    "tr_pre_rotation_expires_at row = None" "tr_expires_at row \<noteq> Some 0"
    by (auto simp: second_def split: option.splits)
  have "case snd demo_rotated of Inl _ \<Rightarrow> False | Inr (_, t) \<Rightarrow> tk_ID t = 2" by code_simp
  then obtain secret succ where r: "demo_rotated = (fst demo_rotated, Inr (secret, succ))" "tk_ID succ = 2"
    by (cases "snd demo_rotated") (auto simp: prod_eq_iff)
  let ?ab = "AbandonRotation (demo_env 30 ''x'') ''acme'' 2 (fst demo_rotated)"
  have "snd ?ab = None" by code_simp
  then have a: "?ab = (fst ?ab, None)" by (simp add: prod_eq_iff)
  have "te_dbnow (demo_env 30 ''x'') = 30 * second" by (simp add: demo_env_def)
  with abandon_undoes_rotation [OF s f r(1) [unfolded demo_rotated_def] a [unfolded demo_rotated_def]] r(2)
  show ?thesis by (simp add: demo_rotated_def)
qed

subsection \<open>Two divergences\<close>

text \<open>
  The escalation guard of a rotation is asked about the parsed list, and the rotation falls back to the predecessor's scopes when
  that list is empty: a request for the blank scope passes the guard with nothing and is granted everything the predecessor holds. Here a caller that
  holds \<open>tokens:write\<close> only obtains a secret that may write channels.
\<close>

definition blank_rotation :: "token_db \<times> token_response" where
  "blank_rotation =
     rotateToken True (demo_env 20 ''r'') (Some (demo_caller [ScopeTokensWrite])) ''acme'' (Some 1)
       (Some (Some \<lparr>rq_Name = '''', rq_Scopes = ['' ''], rq_Overlap = '''', rq_ExpiresIn = ''''\<rparr>)) demo_minted"

theorem blank_scope_rotation_escalates:
  "\<not> Allowed (demo_caller [ScopeTokensWrite]) ScopeChannelsWrite \<and>
   (case snd blank_rotation of
      Created tok secret \<Rightarrow>
        (case snd (Authenticate (demo_env 30 ''x'') secret (fst blank_rotation)) of
           None \<Rightarrow> False | Some q \<Rightarrow> Allowed q ScopeChannelsWrite)
    | _ \<Rightarrow> False)"
  by code_simp

text \<open>
  Abandoning a rotation a second time through the successor finds no expiry kept for the predecessor and clears its expiry: a
  token that had expired authenticates again, and forever.
\<close>

definition twice_abandoned :: token_db where
  "twice_abandoned =
     fst (AbandonRotation (demo_env 40 ''x'') ''acme'' 2 (fst (AbandonRotation (demo_env 30 ''x'') ''acme'' 2 (fst demo_rotated))))"

theorem second_abandon_revives_an_expired_token:
  "snd (Authenticate (demo_env 200 ''x'') ''sb_aw'' demo_minted) = None \<and>
   snd (Authenticate (demo_env 200 ''x'') ''sb_aw'' twice_abandoned) \<noteq> None"
  by code_simp

end
