(* ===== verification/Authentication.thy ===== *)
theory Authentication
  imports OIDC_Provider Token_Safety
begin

text \<open>
  From a request to its caller and from the caller to the handler: the authenticator of \<open>internal/auth/auth.go\<close> with its static tokens
  and sessions, client certificates (\<open>internal/auth/mtls.go\<close>), the middleware of \<open>internal/api/auth.go\<close> and the role check of
  \<open>internal/auth/roles.go\<close>, in the order \<open>Routes\<close> of \<open>internal/api/api.go\<close> chains them.

  The digest of a static token, the library's answer for an OIDC token and the router's answer whether it has a route are arguments.
\<close>

subsection \<open>Client certificates\<close>

record MTLSBinding =
  mb_Subject :: string
  mb_Workspace :: string
  mb_Role :: Role

text \<open>\<open>URIs\<close> are rendered; a certificate without a common name has the empty one.\<close>

record client_cert =
  cc_URIs :: "string list"
  cc_DNSNames :: "string list"
  cc_EmailAddresses :: "string list"
  cc_CommonName :: string

definition normalizeMTLSSubject :: "string \<Rightarrow> string" where
  "normalizeMTLSSubject s0 =
     (let s = trim_space s0; lower = to_lower s in
      if has_prefix lower ''cn:'' \<or> has_prefix lower ''dns:'' \<or> has_prefix lower ''email:'' then lower else s)"

definition mtls_error :: "string \<Rightarrow> string \<Rightarrow> string" where
  "mtls_error entry what = ''entry '' @ entry @ what"

definition parse_binding :: "string \<Rightarrow> string + MTLSBinding" where
  "parse_binding entry =
     (let i = length (takeWhile (\<lambda>c. c \<noteq> CHR ''='') entry) in
      if CHR ''='' \<notin> set entry \<or> i = 0 \<or> i = length entry - 1
      then Inl (mtls_error entry '' must have the form <subject>=<workspace>[:<role>]'')
      else let subj = trim_space (take i entry); target = trim_space (drop (i + 1) entry) in
      if subj = '''' \<or> target = '''' then Inl (mtls_error entry '' must have a non-empty subject and workspace'')
      else
        let colon = last_index (CHR '':'') target;
            wsPart = (if colon \<noteq> - 1 then trim_space (fst (split_at colon target)) else target);
            parsed = (if colon \<noteq> - 1 then ParseRole (trim_space (snd (split_at colon target))) else (RoleAdmin, True))
        in if \<not> snd parsed then Inl (mtls_error entry '' has invalid role (must be viewer, editor, or admin)'')
           else if \<not> Valid wsPart then Inl (mtls_error entry '' has invalid workspace'')
           else Inr \<lparr>mb_Subject = subj, mb_Workspace = wsPart, mb_Role = fst parsed\<rparr>)"

fun parse_bindings :: "string list \<Rightarrow> string list \<Rightarrow> string + MTLSBinding list" where
  "parse_bindings seen [] = Inr []"
| "parse_bindings seen (part # parts) =
     (let entry = trim_space part in
      if entry = '''' then Inl ''empty entry in principal map''
      else case parse_binding entry of
             Inl e \<Rightarrow> Inl e
           | Inr b \<Rightarrow>
               if normalizeMTLSSubject (mb_Subject b) \<in> set seen then Inl (''duplicate subject '' @ mb_Subject b @ '' in principal map'')
               else case parse_bindings (normalizeMTLSSubject (mb_Subject b) # seen) parts of
                      Inl e \<Rightarrow> Inl e | Inr bs \<Rightarrow> Inr (b # bs))"

definition ParseMTLSPrincipalMap :: "string \<Rightarrow> string + MTLSBinding list" where
  "ParseMTLSPrincipalMap s = (if trim_space s = '''' then Inr [] else parse_bindings [] (split_on (CHR '','') s))"

definition ExtractClientCertIdentities :: "client_cert \<Rightarrow> string list" where
  "ExtractClientCertIdentities cert =
     (let with_prefix = (\<lambda>pre v ids. let d = to_lower (trim_space v) in if d = '''' then ids else add_string d (add_string (pre @ d) ids));
          ids1 = fold add_string (cc_URIs cert) [];
          ids2 = fold (with_prefix ''dns:'') (cc_DNSNames cert) ids1;
          ids3 = fold (with_prefix ''email:'') (cc_EmailAddresses cert) ids2;
          cn = trim_space (cc_CommonName cert)
      in if cn = '''' then ids3 else add_string cn (add_string (''cn:'' @ cn) (add_string (''cn:'' @ to_lower cn) ids3)))"

subsection \<open>The authenticator\<close>

record tokenEntry =
  ten_digest :: string
  ten_role :: Role
  ten_workspace :: string

record Authenticator =
  au_tokens :: "tokenEntry list"
  au_scoped :: bool
  au_oidc :: "OIDCProvider option"
  au_mtlsEnabled :: bool
  au_mtlsBindings :: "MTLSBinding list"
  au_tt :: duration
  au_sessions :: "string \<Rightarrow> sessionInfo option"

record auth_env =
  ae_sha :: "string \<Rightarrow> string"
  ae_token :: token_env
  ae_verify :: "string \<Rightarrow> IDToken option"
  ae_now :: gtime
  ae_oidc_now :: gtime

record Binding =
  bd_Workspace :: string
  bd_Token :: string

definition DefaultSessionTTL :: duration where "DefaultSessionTTL = 12 * 60 * minute"

text \<open>A static token may carry its role after the last colon; a suffix that is no role belongs to the token.\<close>

definition bound_entry :: "(string \<Rightarrow> string) \<Rightarrow> Binding \<Rightarrow> tokenEntry option" where
  "bound_entry sha b =
     (let t = trim_space (bd_Token b) in
      if t = '''' \<or> \<not> Valid (bd_Workspace b) then None
      else let i = last_index (CHR '':'') t;
               parsed = ParseRole (snd (split_at i t));
               (tok, role) = (if i \<noteq> - 1 \<and> snd parsed then (fst (split_at i t), fst parsed) else (t, RoleAdmin))
           in Some \<lparr>ten_digest = sha tok, ten_role = role, ten_workspace = bd_Workspace b\<rparr>)"

definition NewBound :: "(string \<Rightarrow> string) \<Rightarrow> Binding list \<Rightarrow> duration \<Rightarrow> Authenticator" where
  "NewBound sha bindings ttl =
     \<lparr>au_tokens = List.map_filter (bound_entry sha) bindings, au_scoped = False, au_oidc = None, au_mtlsEnabled = False,
      au_mtlsBindings = [], au_tt = (if ttl \<le> 0 then DefaultSessionTTL else ttl), au_sessions = (\<lambda>_. None)\<rparr>"

definition NewAuthenticator :: "(string \<Rightarrow> string) \<Rightarrow> string list \<Rightarrow> duration \<Rightarrow> Authenticator" where
  "NewAuthenticator sha tokens ttl = NewBound sha (map (\<lambda>t. \<lparr>bd_Workspace = Default, bd_Token = t\<rparr>) tokens) ttl"

definition WithMTLS :: "bool \<Rightarrow> MTLSBinding list \<Rightarrow> Authenticator \<Rightarrow> Authenticator" where
  "WithMTLS enabled bindings a = a\<lparr>au_mtlsEnabled := enabled \<or> bindings \<noteq> [], au_mtlsBindings := bindings\<rparr>"

definition MTLSEnabled :: "Authenticator \<Rightarrow> bool" where
  "MTLSEnabled a = (au_mtlsEnabled a \<or> au_mtlsBindings a \<noteq> [])"

definition Enabled :: "Authenticator \<Rightarrow> bool" where
  "Enabled a = (au_tokens a \<noteq> [] \<or> au_oidc a \<noteq> None \<or> MTLSEnabled a)"

text \<open>Every entry is compared; the last match counts.\<close>

definition lookupStatic :: "auth_env \<Rightarrow> string \<Rightarrow> Authenticator \<Rightarrow> tokenEntry option" where
  "lookupStatic e candidate a =
     (if au_tokens a = [] \<or> has_prefix candidate TokenPrefix then None
      else fold (\<lambda>entry m. if ten_digest entry = ae_sha e candidate then Some entry else m) (au_tokens a) None)"

definition Bearer :: "string \<Rightarrow> string option" where
  "Bearer header =
     (if length header < 7 \<or> \<not> equal_fold (take 7 header) ''bearer '' then None
      else let token = trim_space (drop 7 header) in if token = '''' then None else Some token)"

definition sweep_sessions :: "gtime \<Rightarrow> Authenticator \<Rightarrow> Authenticator" where
  "sweep_sessions now a =
     a\<lparr>au_sessions := (\<lambda>i. case au_sessions a i of Some s \<Rightarrow> if now < se_expires s then Some s else None | None \<Rightarrow> None)\<rparr>"

text \<open>\<open>sid\<close> is the fresh random id, \<open>None\<close> when none could be drawn.\<close>

definition put_session :: "gtime \<Rightarrow> string option \<Rightarrow> sessionInfo \<Rightarrow> Authenticator \<Rightarrow> Authenticator \<times> string" where
  "put_session now sid s a =
     (case sid of None \<Rightarrow> (a, '''')
      | Some i \<Rightarrow> (let a1 = sweep_sessions now a in (a1\<lparr>au_sessions := (au_sessions a1)(i \<mapsto> s)\<rparr>, i)))"

definition newSessionFor :: "auth_env \<Rightarrow> string option \<Rightarrow> Role \<Rightarrow> string \<Rightarrow> Authenticator \<Rightarrow> Authenticator \<times> string" where
  "newSessionFor e sid role ws a =
     put_session (ae_now e) sid
       \<lparr>se_expires = ae_now e + au_tt a, se_role = role, se_workspace = (if ws = '''' then Default else ws), se_grants = [],
        se_oidcSubject = '''', se_oidcGroups = [], se_groupCheckedAt = 0, se_mappingVersion = 0\<rparr> a"

definition Login :: "auth_env \<Rightarrow> string option \<Rightarrow> string \<Rightarrow> Authenticator \<Rightarrow> Authenticator \<times> string option" where
  "Login e sid token a =
     (case lookupStatic e token a of
        None \<Rightarrow> (a, None)
      | Some entry \<Rightarrow> (let (a1, i) = newSessionFor e sid (ten_role entry) (ten_workspace entry) a in (a1, Some i)))"

definition LoginOIDC :: "auth_env \<Rightarrow> string option \<Rightarrow> Identity \<Rightarrow> Authenticator \<Rightarrow> Authenticator \<times> string" where
  "LoginOIDC e sid i a =
     (if (case au_oidc a of Some p \<Rightarrow> op_groupMappings p \<noteq> [] | None \<Rightarrow> False) \<and> (id_Role i = RoleUnknown \<or> id_Workspace i = '''')
      then (a, '''')
      else put_session (ae_now e) sid
        \<lparr>se_expires = ae_now e + au_tt a, se_role = (if id_Role i = RoleUnknown then RoleAdmin else id_Role i),
         se_workspace = (if id_Workspace i = '''' then Default else id_Workspace i), se_grants = id_Grants i,
         se_oidcSubject = id_Subject i, se_oidcGroups = id_Groups i,
         se_groupCheckedAt = (case au_oidc a of Some p \<Rightarrow> (if ae_oidc_now e = 0 then ae_now e else ae_oidc_now e) | None \<Rightarrow> ae_now e),
         se_mappingVersion = (case au_oidc a of Some p \<Rightarrow> op_mappingVersion p | None \<Rightarrow> 0)\<rparr> a)"

definition DropSession :: "string \<Rightarrow> Authenticator \<Rightarrow> Authenticator" where
  "DropSession i a = (if i = '''' then a else a\<lparr>au_sessions := (au_sessions a)(i := None)\<rparr>)"

definition getSessionStatus :: "auth_env \<Rightarrow> string \<Rightarrow> Authenticator \<Rightarrow> Authenticator \<times> sessionInfo option \<times> AuthStatus" where
  "getSessionStatus e i a =
     (if i = '''' then (a, None, AuthUnauthenticated)
      else case au_sessions a i of
        None \<Rightarrow> (a, None, AuthUnauthenticated)
      | Some info \<Rightarrow>
          if \<not> ae_now e < se_expires info then (DropSession i a, None, AuthUnauthenticated)
          else case au_oidc a of
                 Some p \<Rightarrow>
                   if se_oidcSubject info = '''' then (a, Some info, AuthOK)
                   else (case revalidateSession (ae_oidc_now e) p info of
                           (updated, AuthOK) \<Rightarrow> (a\<lparr>au_sessions := (au_sessions a)(i \<mapsto> updated)\<rparr>, Some updated, AuthOK)
                         | (_, status) \<Rightarrow> (DropSession i a, None, status))
               | None \<Rightarrow> (a, Some info, AuthOK))"

subsection \<open>The caller of a request\<close>

record http_request =
  hr_Method :: string
  hr_Path :: string
  hr_RoutePath :: string
  hr_Authorization :: string
  hr_Session :: string
  hr_Cert :: "client_cert option"

definition person :: "string \<Rightarrow> Role \<Rightarrow> WorkspaceGrant list \<Rightarrow> string \<Rightarrow> string \<Rightarrow> Principal" where
  "person ws role grants name actor =
     \<lparr>pr_Workspace = ws, pr_Role = role, pr_Grants = grants, pr_restricted = False, pr_scopes = [], pr_tokenID = 0,
      pr_Name = name, pr_ActorType = actor\<rparr>"

definition ResolveClientCertificate :: "Authenticator \<Rightarrow> client_cert \<Rightarrow> Principal option \<times> AuthStatus" where
  "ResolveClientCertificate a cert =
     (if \<not> au_mtlsEnabled a \<and> au_mtlsBindings a = [] then (None, AuthUnauthenticated)
      else
        let candidates = ExtractClientCertIdentities cert in
        if au_mtlsBindings a = []
        then (Some (person Default RoleAdmin [] (case candidates of [] \<Rightarrow> ''mtls'' | c # _ \<Rightarrow> c) ''automation''), AuthOK)
        else
          let hits = filter (\<lambda>b. list_ex (\<lambda>c. c = mb_Subject b \<or> normalizeMTLSSubject c = normalizeMTLSSubject (mb_Subject b)) candidates)
                       (au_mtlsBindings a);
              grants = map (\<lambda>b. (mb_Workspace b, mb_Role b)) hits;
              matched = (case filter (\<lambda>s. s \<noteq> '''') (map mb_Subject hits) of [] \<Rightarrow> '''' | s # _ \<Rightarrow> s)
          in case grants of
               [] \<Rightarrow> (None, AuthForbidden)
             | (ws, role) # _ \<Rightarrow> (Some (person ws role grants matched ''automation''), AuthOK))"

type_synonym auth_state = "Authenticator \<times> token_db"

definition oidc_principal :: "Identity \<Rightarrow> Principal" where
  "oidc_principal i =
     (person (id_Workspace i) (id_Role i) (id_Grants i) (if id_Email i = '''' then id_Subject i else id_Email i)
        (if id_Email i = '''' then ''automation'' else ''person''))
       \<lparr>pr_restricted := id_Scopes i \<noteq> [], pr_scopes := id_Scopes i\<rparr>"

definition AuthenticateRequest :: "auth_env \<Rightarrow> http_request \<Rightarrow> auth_state \<Rightarrow> auth_state \<times> Principal option \<times> AuthStatus" where
  "AuthenticateRequest e req st =
     (case st of (a, db) \<Rightarrow>
      if \<not> Enabled a
      then (st, Some (person Default RoleAdmin [] '''' (if Bearer (hr_Authorization req) \<noteq> None then ''automation'' else ''person'')), AuthOK)
      else case Bearer (hr_Authorization req) of
        Some token \<Rightarrow>
          if has_prefix token TokenPrefix
          then (if \<not> au_scoped a then (st, None, AuthUnauthenticated)
                else case Authenticate (ae_token e) token db of
                       (db1, None) \<Rightarrow> ((a, db1), None, AuthUnauthenticated)
                     | (db1, Some p) \<Rightarrow> ((a, db1), Some (p\<lparr>pr_Role := RoleForScopes (pr_scopes p)\<rparr>), AuthOK))
          else (case lookupStatic e token a of
                  Some entry \<Rightarrow> (st, Some (person (ten_workspace entry) (ten_role entry) [] ''api-token'' ''automation''), AuthOK)
                | None \<Rightarrow>
                    (case au_oidc a of
                       Some p \<Rightarrow>
                         if length (filter (\<lambda>c. c = CHR ''.'') token) \<noteq> 2 then (st, None, AuthUnauthenticated)
                         else (case VerifyBearer (ae_oidc_now e) (ae_verify e token) token p of
                                 (p1, Inl err) \<Rightarrow> ((a\<lparr>au_oidc := Some p1\<rparr>, db), None, if is_account_error err then AuthForbidden else AuthUnauthenticated)
                               | (p1, Inr i) \<Rightarrow> ((a\<lparr>au_oidc := Some p1\<rparr>, db), Some (oidc_principal i), AuthOK))
                     | None \<Rightarrow> (st, None, AuthUnauthenticated)))
      | None \<Rightarrow>
          if hr_Session req = ''''
          then (case hr_Cert req of
                  Some cert \<Rightarrow> if MTLSEnabled a then (st, ResolveClientCertificate a cert) else (st, None, AuthUnauthenticated)
                | None \<Rightarrow> (st, None, AuthUnauthenticated))
          else (case getSessionStatus e (hr_Session req) a of
                  (a1, Some info, AuthOK) \<Rightarrow>
                    ((a1, db), Some (person (se_workspace info) (se_role info) (se_grants info) (se_oidcSubject info) ''person''), AuthOK)
                | (a1, _, status) \<Rightarrow> ((a1, db), None, status)))"

definition RoleForPrincipal :: "Principal \<Rightarrow> Role" where
  "RoleForPrincipal p =
     (if pr_restricted p
      then let scopeRole = RoleForScopes (pr_scopes p) in
           if pr_Role p \<noteq> RoleUnknown \<and> \<not> AtLeast (pr_Role p) scopeRole then pr_Role p else scopeRole
      else pr_Role p)"

subsection \<open>The two gates of the API\<close>

definition isProbePath :: "string \<Rightarrow> bool" where
  "isProbePath path = (has_suffix path ''/health'' \<or> has_suffix path ''/livez'' \<or> has_suffix path ''/readyz'')"

text \<open>What a request that passed carries in its context.\<close>

record request_ctx =
  rc_principal :: "Principal option"
  rc_workspace :: "string option"
  rc_role :: "Role option"

datatype verdict = Denied nat string | Passed request_ctx

definition AuthMiddleware :: "auth_env \<Rightarrow> http_request \<Rightarrow> auth_state \<Rightarrow> auth_state \<times> verdict" where
  "AuthMiddleware e req st =
     (let bare = \<lparr>rc_principal = None, rc_workspace = None, rc_role = None\<rparr> in
      if \<not> Enabled (fst st) then (st, Passed bare)
      else if isProbePath (hr_Path req) then (st, Passed bare)
      else case AuthenticateRequest e req st of
        (st1, caller, status) \<Rightarrow>
          if status = AuthForbidden then (st1, Denied 403 ''forbidden'')
          else case caller of
            None \<Rightarrow> (st1, Denied 401 ''unauthorized'')
          | Some p \<Rightarrow>
              if status \<noteq> AuthOK then (st1, Denied 401 ''unauthorized'')
              else
                let pass = (st1, Passed \<lparr>rc_principal = Some p, rc_workspace = Some (pr_Workspace p), rc_role = Some (RoleForPrincipal p)\<rparr>) in
                if \<not> pr_restricted p then pass
                else (case requiredScopes (hr_Method req) (hr_RoutePath req) of
                        None \<Rightarrow> (st1, Denied 403 ''this route accepts no scoped token'')
                      | Some scopes \<Rightarrow>
                          (case List.find (\<lambda>need. \<not> Allowed p need) scopes of
                             Some need \<Rightarrow> (st1, Denied 403 (''token lacks scope '' @ need))
                           | None \<Rightarrow> pass)))"

text \<open>
  The role check: \<open>exists\<close> is the router's answer whether it has the route. A context without a role is resolved here, which only happens behind an
  authentication step that let the request pass without one.
\<close>

definition RoleCheck :: "auth_env \<Rightarrow> (string \<Rightarrow> string \<Rightarrow> bool) \<Rightarrow> http_request \<Rightarrow> request_ctx \<Rightarrow> auth_state \<Rightarrow> auth_state \<times> verdict" where
  "RoleCheck e exists req rc st =
     (case RT_Lookup routeRoles (hr_Method req) (hr_RoutePath req) of
        None \<Rightarrow> if exists (hr_Method req) (hr_RoutePath req) then (st, Denied 403 ''forbidden'') else (st, Passed rc)
      | Some required \<Rightarrow>
          (case (case rc_role rc of
                   Some role \<Rightarrow> (st, role)
                 | None \<Rightarrow>
                     if \<not> Enabled (fst st) then (st, RoleAdmin)
                     else (case AuthenticateRequest e req st of
                             (st1, Some p, AuthOK) \<Rightarrow> (st1, RoleForPrincipal p)
                           | (st1, _, _) \<Rightarrow> (st1, RoleUnknown))) of
             (st1, role) \<Rightarrow> if AtLeast role required then (st1, Passed rc) else (st1, Denied 403 ''forbidden'')))"

definition api_gates :: "auth_env \<Rightarrow> auth_env \<Rightarrow> (string \<Rightarrow> string \<Rightarrow> bool) \<Rightarrow> http_request \<Rightarrow> auth_state \<Rightarrow> auth_state \<times> verdict" where
  "api_gates e e' exists req st =
     (case AuthMiddleware e req st of
        (st1, Denied code msg) \<Rightarrow> (st1, Denied code msg)
      | (st1, Passed rc) \<Rightarrow> RoleCheck e' exists req rc st1)"

subsection \<open>Every caller has a role\<close>

text \<open>
  \<open>RoleForPrincipal\<close> resolves a request a second time when an unrestricted caller carries no role. That branch is left out of the model because it is
  never taken: whatever is configured, signed in or requested, in any order, an authenticated caller carries a role.
\<close>

inductive reachable_auth :: "Authenticator \<Rightarrow> bool" where
  built: "reachable_auth (NewBound sha bindings ttl)"
| tokens: "reachable_auth a \<Longrightarrow> reachable_auth (a\<lparr>au_scoped := True\<rparr>)"
| mtls: "reachable_auth a \<Longrightarrow> ParseMTLSPrincipalMap s = Inr bs \<Longrightarrow> reachable_auth (WithMTLS enabled bs a)"
| oidc: "reachable_auth a \<Longrightarrow> ValidateGroupMappings ms = Inr v \<Longrightarrow> op_groupMappings p = v \<Longrightarrow> op_groupCache p = (\<lambda>_. None) \<Longrightarrow>
           reachable_auth (a\<lparr>au_oidc := Some p\<rparr>)"
| remapped: "reachable_auth a \<Longrightarrow> au_oidc a = Some p \<Longrightarrow> SetGroupMappings ms p = (p', err) \<Longrightarrow> reachable_auth (a\<lparr>au_oidc := Some p'\<rparr>)"
| signed_in: "reachable_auth a \<Longrightarrow> Login e sid token a = (a', r) \<Longrightarrow> reachable_auth a'"
| signed_in_oidc: "reachable_auth a \<Longrightarrow> LoginOIDC e sid i a = (a', r') \<Longrightarrow> reachable_auth a'"
| signed_out: "reachable_auth a \<Longrightarrow> reachable_auth (DropSession i a)"
| requested: "reachable_auth a \<Longrightarrow> AuthenticateRequest e req (a, db) = ((a', db'), pr, status) \<Longrightarrow> reachable_auth a'"

definition wf_provider :: "OIDCProvider \<Rightarrow> bool" where
  "wf_provider p \<longleftrightarrow>
     (\<forall>m \<in> set (op_groupMappings p). gm_Role m \<noteq> RoleUnknown) \<and>
     (\<forall>s c. op_groupCache p s = Some c \<longrightarrow> cg_role c \<noteq> RoleUnknown)"

definition wf_auth :: "Authenticator \<Rightarrow> bool" where
  "wf_auth a \<longleftrightarrow>
     (\<forall>t \<in> set (au_tokens a). ten_role t \<noteq> RoleUnknown) \<and> (\<forall>b \<in> set (au_mtlsBindings a). mb_Role b \<noteq> RoleUnknown) \<and>
     (\<forall>i s. au_sessions a i = Some s \<longrightarrow> se_role s \<noteq> RoleUnknown) \<and> (\<forall>p. au_oidc a = Some p \<longrightarrow> wf_provider p)"

lemma ParseRole_known: "ParseRole s = (r, True) \<Longrightarrow> r \<noteq> RoleUnknown"
  by (auto simp: ParseRole_def Let_def split: if_splits)

lemma ParseRole_not_unknown [simp]: "ParseRole s \<noteq> (RoleUnknown, True)"
  using ParseRole_known by blast

lemma ParseRole_snd: "snd (ParseRole s) \<Longrightarrow> fst (ParseRole s) \<noteq> RoleUnknown"
  using ParseRole_not_unknown [of s] by (cases "ParseRole s") auto

lemma filter_head: "filter P xs = z # zs \<Longrightarrow> z \<in> set xs"
  by (metis filter_is_subset list.set_intros(1) subsetD)

lemma ValidateGroupMappings_known:
  "ValidateGroupMappings_from i ms = Inr v \<Longrightarrow> m \<in> set v \<Longrightarrow> gm_Role m \<noteq> RoleUnknown"
proof (induction ms arbitrary: i v)
  case (Cons m' ms)
  then show ?case
    by (auto simp: valid_mapping_def Let_def split: sum.splits prod.splits if_splits dest: ParseRole_known)
qed simp

lemma parse_bindings_known: "parse_bindings seen parts = Inr bs \<Longrightarrow> b \<in> set bs \<Longrightarrow> mb_Role b \<noteq> RoleUnknown"
proof (induction parts arbitrary: seen bs)
  case (Cons part parts)
  have role: "parse_binding entry = Inr b' \<Longrightarrow> mb_Role b' \<noteq> RoleUnknown" for entry b'
    using ParseRole_snd by (auto simp: parse_binding_def Let_def split: if_splits)
  from Cons.prems(1) obtain b' bs' where "parse_binding (trim_space part) = Inr b'" "bs = b' # bs'"
    "parse_bindings (normalizeMTLSSubject (mb_Subject b') # seen) parts = Inr bs'"
    by (auto simp: Let_def split: if_splits sum.splits)
  then show ?case using Cons.prems(2) Cons.IH role by auto
qed simp

lemma bound_entry_known: "bound_entry sha b = Some t \<Longrightarrow> ten_role t \<noteq> RoleUnknown"
  using ParseRole_known by (auto simp: bound_entry_def Let_def split: if_splits) (metis prod.collapse)

lemma wf_NewBound: "wf_auth (NewBound sha bindings ttl)"
  using bound_entry_known by (auto simp: wf_auth_def NewBound_def List.map_filter_def)

lemma lookupStatic_mem: "lookupStatic e c a = Some t \<Longrightarrow> t \<in> set (au_tokens a)"
proof -
  have "fold (\<lambda>entry m. if ten_digest entry = h then Some entry else m) ts x = Some t \<Longrightarrow> x = Some t \<or> t \<in> set ts" for h ts x
    by (induction ts arbitrary: x) (auto split: if_splits)
  then show "lookupStatic e c a = Some t \<Longrightarrow> t \<in> set (au_tokens a)" by (fastforce simp: lookupStatic_def split: if_splits)
qed

lemma mapped_identity_known:
  assumes "mapped_identity now c cs i p = (p', r)" "wf_provider p"
  shows "wf_provider p' \<and> (\<forall>i'. r = Inr i' \<longrightarrow> id_Role i' \<noteq> RoleUnknown)"
  using assms resolveGroupMappings_role unfolding mapped_identity_def Let_def
  by (fastforce simp: wf_provider_def EvictSubject_def split: option.splits prod.splits if_splits)

lemma identityFromToken_known:
  assumes "identityFromToken now tok c p = (p', r)" "wf_provider p"
  shows "wf_provider p' \<and> (\<forall>i'. r = Inr i' \<longrightarrow> id_Role i' \<noteq> RoleUnknown)"
proof -
  have "id_Role (claimed_identity cs i p) \<noteq> RoleUnknown" if "id_Role i \<noteq> RoleUnknown" for cs i
    using that ParseRole_known by (auto simp: claimed_identity_def Let_def split: option.splits prod.splits)
  then show ?thesis
    using assms mapped_identity_known by (auto simp: identityFromToken_def Let_def split: option.splits prod.splits if_splits)
qed

lemma revalidateSession_known:
  assumes "revalidateSession now p s = (s', AuthOK)" "wf_provider p" "se_role s \<noteq> RoleUnknown"
  shows "se_role s' \<noteq> RoleUnknown"
  using assms resolveGroupMappings_role unfolding revalidateSession_def Let_def
  by (fastforce simp: wf_provider_def split: option.splits prod.splits if_splits)

lemma put_session_wf: "put_session now sid s a = (a', i) \<Longrightarrow> wf_auth a \<Longrightarrow> se_role s \<noteq> RoleUnknown \<Longrightarrow> wf_auth a'"
  by (auto simp: put_session_def sweep_sessions_def wf_auth_def Let_def split: option.splits if_splits)

lemma getSessionStatus_wf:
  assumes "getSessionStatus e i a = (a', s, status)" "wf_auth a"
  shows "wf_auth a' \<and> (\<forall>info. s = Some info \<longrightarrow> se_role info \<noteq> RoleUnknown)"
  using assms revalidateSession_known unfolding getSessionStatus_def
  by (fastforce simp: wf_auth_def DropSession_def split: option.splits prod.splits if_splits AuthStatus.splits)

lemma AuthenticateRequest_wf:
  assumes "AuthenticateRequest e req (a, db) = ((a', db'), pr, status)" "wf_auth a"
  shows "wf_auth a' \<and> (\<forall>p. pr = Some p \<longrightarrow> pr_Role p \<noteq> RoleUnknown)"
proof -
  have scopes: "role_loop r ss \<noteq> RoleUnknown" if "r \<noteq> RoleUnknown" for r ss
    using that by (induction ss arbitrary: r) auto
  have cert: "pr_Role p \<noteq> RoleUnknown" if "ResolveClientCertificate a cert = (Some p, status)" for cert p status
    using that assms(2)
    by (auto simp: ResolveClientCertificate_def person_def wf_auth_def Let_def split: if_splits list.splits dest!: filter_head)
  have bearer: "wf_provider p' \<and> (\<forall>i. r = Inr i \<longrightarrow> id_Role i \<noteq> RoleUnknown)"
    if "VerifyBearer now v s p = (p', r)" "au_oidc a = Some p" for now v s p p' r
    using that assms(2) identityFromToken_known by (auto simp: VerifyBearer_def wf_auth_def split: if_splits option.splits)
  have oidc: "wf_auth (a\<lparr>au_oidc := Some p'\<rparr>)" if "wf_provider p'" for p' using that assms(2) by (auto simp: wf_auth_def)
  have static: "ten_role t \<noteq> RoleUnknown" if "lookupStatic e c a = Some t" for c t
    using lookupStatic_mem [OF that] assms(2) by (auto simp: wf_auth_def)
  show ?thesis
  proof (cases "Enabled a")
    case False
    then show ?thesis using assms by (auto simp: AuthenticateRequest_def person_def)
  next
    case en: True
    show ?thesis
    proof (cases "Bearer (hr_Authorization req)")
      case (Some token)
      show ?thesis
      proof (cases "has_prefix token TokenPrefix")
        case True
        then show ?thesis using assms en Some scopes
          by (auto simp: AuthenticateRequest_def RoleForScopes_def split: if_splits prod.splits option.splits)
      next
        case False
        then show ?thesis using assms en Some static bearer oidc
          by (auto simp: AuthenticateRequest_def person_def oidc_principal_def split: if_splits prod.splits option.splits sum.splits)
      qed
    next
      case None
      show ?thesis
      proof (cases "hr_Session req = ''''")
        case True
        then show ?thesis using assms en None cert
          by (auto simp: AuthenticateRequest_def split: if_splits option.splits)
      next
        case False
        obtain a1 s st where g: "getSessionStatus e (hr_Session req) a = (a1, s, st)" by (metis prod.collapse)
        then show ?thesis using assms en None False getSessionStatus_wf [OF g assms(2)]
          by (auto simp: AuthenticateRequest_def person_def split: option.splits AuthStatus.splits)
      qed
    qed
  qed
qed

lemma reachable_auth_wf: "reachable_auth a \<Longrightarrow> wf_auth a"
proof (induction rule: reachable_auth.induct)
  case (mtls a s bs enabled)
  then show ?case using parse_bindings_known
    by (auto simp: wf_auth_def WithMTLS_def ParseMTLSPrincipalMap_def split: if_splits)
next
  case (oidc a ms v p)
  then show ?case using ValidateGroupMappings_known by (auto simp: wf_auth_def wf_provider_def ValidateGroupMappings_def)
next
  case (remapped a p ms p' err)
  then show ?case using ValidateGroupMappings_known
    by (auto simp: wf_auth_def wf_provider_def SetGroupMappings_def ValidateGroupMappings_def split: sum.splits)
next
  case (signed_in a e sid token a' r)
  show ?case
  proof (cases "lookupStatic e token a")
    case None
    then show ?thesis using signed_in by (simp add: Login_def)
  next
    case (Some t)
    then have "ten_role t \<noteq> RoleUnknown" using lookupStatic_mem [OF Some] signed_in.IH by (simp add: wf_auth_def)
    then show ?thesis using signed_in Some
      by (auto simp: Login_def newSessionFor_def split: prod.splits elim!: put_session_wf)
  qed
next
  case (signed_in_oidc a e sid i a' r')
  then show ?case by (auto simp: LoginOIDC_def split: if_splits elim!: put_session_wf)
next
  case (signed_out a i)
  then show ?case by (auto simp: wf_auth_def DropSession_def)
next
  case (requested a e req db a' db' pr status)
  then show ?case using AuthenticateRequest_wf by blast
qed (auto simp: wf_NewBound, auto simp: wf_auth_def)

text \<open>
  An authenticated caller always carries a role, whichever credential it presented: in every state the authenticator can reach through its configuration, sign-ins,
  sign-outs, reloads of the group mappings and earlier requests, no request resolves to a caller whose role is unknown.
\<close>

theorem authenticated_caller_has_a_role:
  assumes "reachable_auth a" and "AuthenticateRequest e req (a, db) = (st, Some p, AuthOK)"
  shows "pr_Role p \<noteq> RoleUnknown"
proof -
  obtain a' db' where "st = (a', db')" by (cases st)
  with AuthenticateRequest_wf [of e req a db a' db' "Some p" AuthOK] assms reachable_auth_wf show ?thesis by simp
qed

definition demo_auth_env :: auth_env where
  "demo_auth_env =
     \<lparr>ae_sha = (\<lambda>s. ''%'' @ s), ae_token = demo_env 20 ''x'', ae_verify = (\<lambda>_. None), ae_now = 20 * second, ae_oidc_now = 20 * second\<rparr>"

definition demo_auth :: Authenticator where
  "demo_auth = (NewBound (\<lambda>s. ''%'' @ s) [\<lparr>bd_Workspace = ''acme'', bd_Token = ''s3cret:editor''\<rparr>] 0)\<lparr>au_scoped := True\<rparr>"

definition demo_http :: "string \<Rightarrow> string \<Rightarrow> string \<Rightarrow> http_request" where
  "demo_http method path token =
     \<lparr>hr_Method = method, hr_Path = ''/api/v1'' @ path, hr_RoutePath = path, hr_Authorization = ''Bearer '' @ token,
      hr_Session = '''', hr_Cert = None\<rparr>"

theorem authenticated_caller_has_a_role_witness:
  "pr_Role (the (fst (snd (AuthenticateRequest demo_auth_env (demo_http ''GET'' ''/monitors'' ''s3cret'') (demo_auth, demo_minted))))) \<noteq> RoleUnknown"
proof -
  let ?r = "AuthenticateRequest demo_auth_env (demo_http ''GET'' ''/monitors'' ''s3cret'') (demo_auth, demo_minted)"
  have "fst (snd ?r) \<noteq> None \<and> snd (snd ?r) = AuthOK" by code_simp
  then have "?r = (fst ?r, Some (the (fst (snd ?r))), AuthOK)" by (simp add: prod_eq_iff)
  moreover have "reachable_auth demo_auth" unfolding demo_auth_def by (intro reachable_auth.tokens reachable_auth.built)
  ultimately show ?thesis using authenticated_caller_has_a_role by blast
qed

subsection \<open>What reaches a handler\<close>

lemma AuthMiddleware_Passed:
  assumes "AuthMiddleware e req st = (st1, Passed rc)" "Enabled (fst st)" "\<not> isProbePath (hr_Path req)"
  obtains p where "AuthenticateRequest e req st = (st1, Some p, AuthOK)"
    "rc = \<lparr>rc_principal = Some p, rc_workspace = Some (pr_Workspace p), rc_role = Some (RoleForPrincipal p)\<rparr>"
    "pr_restricted p \<Longrightarrow> \<exists>scopes. requiredScopes (hr_Method req) (hr_RoutePath req) = Some scopes \<and> (\<forall>s \<in> set scopes. Allowed p s)"
  using assms unfolding AuthMiddleware_def Let_def
  by (auto simp: find_None_iff split: prod.splits option.splits if_splits)

text \<open>
  C6. When a credential is required, a request for an existing route outside the probe paths reaches its handler only within its caller's
  grant: the caller was authenticated from the request's own credential, the
  handler sees that caller and its workspace, a scoped caller holds every scope the route asks for, the caller's role is at least the
  route's, and a caller below editor reaches only routes that read.
\<close>

theorem served_request_is_within_its_grant:
  assumes "Enabled (fst st)" and "\<not> isProbePath (hr_Path req)" and "api_gates e e' exists req st = (st', Passed rc)"
    and "exists (hr_Method req) (hr_RoutePath req)"
  shows "\<exists>p st1. AuthenticateRequest e req st = (st1, Some p, AuthOK) \<and> rc_principal rc = Some p \<and> rc_workspace rc = Some (pr_Workspace p) \<and>
           (pr_restricted p \<longrightarrow>
              (\<exists>scopes. requiredScopes (hr_Method req) (hr_RoutePath req) = Some scopes \<and> (\<forall>s \<in> set scopes. Allowed p s))) \<and>
           (\<exists>required. RT_Lookup routeRoles (hr_Method req) (hr_RoutePath req) = Some required \<and> AtLeast (RoleForPrincipal p) required) \<and>
           (AtLeast (RoleForPrincipal p) RoleEditor \<or> (\<exists>k. answers (hr_Method req) (hr_RoutePath req) k \<and> is_read_row k))"
proof -
  obtain st1 where m: "AuthMiddleware e req st = (st1, Passed rc)" and c: "RoleCheck e' exists req rc st1 = (st', Passed rc)"
    using assms(3) by (auto simp: api_gates_def RoleCheck_def split: prod.splits verdict.splits option.splits if_splits)
  obtain p where p: "AuthenticateRequest e req st = (st1, Some p, AuthOK)"
    "rc = \<lparr>rc_principal = Some p, rc_workspace = Some (pr_Workspace p), rc_role = Some (RoleForPrincipal p)\<rparr>"
    "pr_restricted p \<Longrightarrow> \<exists>scopes. requiredScopes (hr_Method req) (hr_RoutePath req) = Some scopes \<and> (\<forall>s \<in> set scopes. Allowed p s)"
    using AuthMiddleware_Passed [OF m assms(1,2)] by blast
  obtain required where r: "RT_Lookup routeRoles (hr_Method req) (hr_RoutePath req) = Some required"
    "AtLeast (RoleForPrincipal p) required"
    using c assms(4) p(2) by (auto simp: RoleCheck_def split: option.splits if_splits)
  have "\<exists>k. answers (hr_Method req) (hr_RoutePath req) k \<and> is_read_row k" if "\<not> AtLeast (RoleForPrincipal p) RoleEditor"
    using below_editor_reads [OF r(1)] r(2) that AtLeast_trans by blast
  then show ?thesis using p r by auto
qed

lemma channels_route:
  "requiredScopes ''POST'' ''/channels'' = Some [ScopeChannelsWrite]" "RT_Lookup routeRoles ''POST'' ''/channels'' = Some RoleEditor"
proof -
  have "map_of scope_entries (route_key ''POST'' ''/channels'') = Some [ScopeChannelsWrite]"
    "map_of role_entries (route_key ''POST'' ''/channels'') = Some RoleEditor" by code_simp+
  then show "requiredScopes ''POST'' ''/channels'' = Some [ScopeChannelsWrite]" "RT_Lookup routeRoles ''POST'' ''/channels'' = Some RoleEditor"
    unfolding requiredScopes_def routeScopes_def routeRoles_def by (simp_all add: RT_Lookup_exact)
qed

theorem served_request_is_within_its_grant_witness:
  "\<exists>p st1. AuthenticateRequest demo_auth_env (demo_http ''POST'' ''/channels'' ''sb_aw'') (demo_auth, demo_minted) = (st1, Some p, AuthOK) \<and>
     pr_restricted p \<and> Allowed p ScopeChannelsWrite \<and> AtLeast (RoleForPrincipal p) RoleEditor"
proof -
  let ?req = "demo_http ''POST'' ''/channels'' ''sb_aw''"
  let ?r = "AuthenticateRequest demo_auth_env ?req (demo_auth, demo_minted)"
  have req: "hr_Method ?req = ''POST''" "hr_RoutePath ?req = ''/channels''" "\<not> isProbePath (hr_Path ?req)" "Enabled demo_auth" by code_simp+
  have "case fst (snd ?r) of None \<Rightarrow> False | Some p \<Rightarrow> snd (snd ?r) = AuthOK \<and> pr_restricted p \<and> Allowed p ScopeChannelsWrite \<and>
          AtLeast (RoleForPrincipal p) RoleEditor" by code_simp
  then obtain st1 p where r: "?r = (st1, Some p, AuthOK)" and q: "pr_restricted p" "Allowed p ScopeChannelsWrite" "AtLeast (RoleForPrincipal p) RoleEditor"
    by (cases ?r) (auto split: option.splits)
  let ?rc = "\<lparr>rc_principal = Some p, rc_workspace = Some (pr_Workspace p), rc_role = Some (RoleForPrincipal p)\<rparr>"
  have "AuthMiddleware demo_auth_env ?req (demo_auth, demo_minted) = (st1, Passed ?rc)"
    using q by (simp add: AuthMiddleware_def r req channels_route)
  moreover have "RoleCheck demo_auth_env (\<lambda>_ _. True) ?req ?rc st1 = (st1, Passed ?rc)"
    using q req channels_route by (simp add: RoleCheck_def)
  ultimately have g: "api_gates demo_auth_env demo_auth_env (\<lambda>_ _. True) ?req (demo_auth, demo_minted) = (st1, Passed ?rc)"
    by (simp add: api_gates_def)
  have "Enabled (fst (demo_auth, demo_minted))" using req(4) by simp
  from served_request_is_within_its_grant [OF this req(3) g TrueI] show ?thesis
    using q r by (auto simp: req channels_route)
qed

subsection \<open>Divergences\<close>

text \<open>
  The exemption of the probes looks at the end of the path only: a request for any route whose path ends like a probe's skips the scope gate and carries no
  workspace. Whoever authenticates with a sufficient role reaches it, whatever scopes the route asks for.
\<close>

theorem probe_suffix_skips_the_scope_gate:
  assumes "Enabled (fst st)" and "isProbePath (hr_Path req)" and "AuthenticateRequest e' req st = (st1, Some p, AuthOK)"
    and "RT_Lookup routeRoles (hr_Method req) (hr_RoutePath req) = Some required" and "AtLeast (RoleForPrincipal p) required"
  shows "api_gates e e' exists req st = (st1, Passed \<lparr>rc_principal = None, rc_workspace = None, rc_role = None\<rparr>)"
  using assms by (simp add: api_gates_def AuthMiddleware_def RoleCheck_def)

text \<open>
  A token with the scope \<open>tokens:read\<close> alone cannot read tokens: the scope table lets it pass, but the role it is given is a viewer's and the route asks for an admin.
\<close>

theorem tokens_read_cannot_read_tokens:
  "requiredScopes ''GET'' ''/tokens'' = Some [ScopeTokensRead] \<and> RT_Lookup routeRoles ''GET'' ''/tokens'' = Some RoleAdmin \<and>
   \<not> AtLeast (RoleForScopes [ScopeTokensRead]) RoleAdmin"
proof -
  have "map_of scope_entries (route_key ''GET'' ''/tokens'') = Some [ScopeTokensRead]"
    "map_of role_entries (route_key ''GET'' ''/tokens'') = Some RoleAdmin" by code_simp+
  moreover have "\<not> AtLeast (RoleForScopes [ScopeTokensRead]) RoleAdmin" by code_simp
  ultimately show ?thesis
    unfolding requiredScopes_def routeScopes_def routeRoles_def by (simp add: RT_Lookup_exact)
qed

end
