(* ===== verification/Spec2Isabelle.thy ===== *)
theory Spec2Isabelle
  imports Store_Resilience Channel_Breaker Monitor_Budget Fairness Channel_Health Failover Escalation Alert_Decisions Alert_Lifecycle
    Poll_Schedule Frequency_Rule Digest Rule_Isolation Composite_Rule Lease Poll_Handling Backfill Rule_Registry Authentication
begin

text \<open>
  SoroBeacon, a monitor for Soroban contracts.

  The program (Go, under \<open>src/internal\<close> and \<open>src/cmd\<close>) has four stages. A poller (\<open>poller\<close>) asks a Stellar RPC
  node (\<open>stellar\<close>) for the events of the watched contracts; rules (\<open>rules\<close>) decide which events raise an
  alert; alerts are stored (\<open>store\<close>), grouped, inhibited, acknowledged and resolved (\<open>alerts\<close>); a
  dispatcher (\<open>notify\<close>) delivers them to channels and escalates those nobody acknowledges. The HTTP API (\<open>api\<close>), the web pages
  and the command line read and edit the stored rows; \<open>auth\<close> decides which caller of the API may do what.

  Conventions. An operation is a HOL function of the state it changes, the clock, and what the environment answers: random
  numbers, results of network calls, failing statements, an ended context. A method that runs under a mutex is one atomic
  step; concurrent executions are sequences of such steps, and where goroutines wait the steps form an inductive relation.
  Times and durations are integers in nanoseconds (\<open>Beacon_Prelude\<close> has the 64-bit saturation and wrap-around where the code
  relies on it). Errors are values of a sum or option type. Names are the ones of the code, prefixed
  where two types share a name. Where a theorem speaks of what happened on the way, the state carries a history (the answers of
  the evaluators, the notifications handed on, the events replayed) that the definitions only append to.

  The theories, and the code they model:

  \<^item> \<open>Beacon_Prelude\<close>: clock arithmetic, decimal formatting, slices that keep their newest entries, list lemmas.
  \<^item> \<open>Circuit_Breaker\<close>: the contract of a circuit breaker as a locale. \<open>Channel_Breaker\<close> (\<open>notify/breaker.go\<close>) and
    \<open>Store_Resilience\<close> (\<open>store/breaker.go\<close>) interpret it.
  \<^item> \<open>Store_Resilience\<close>: \<open>store/resilience.go\<close>, \<open>store/breaker.go\<close> and the read path of \<open>store/postgres.go\<close>: classification
    of errors, backoff with jitter, the retry loop (total: it counts attempts down), the breaker with one probe and a
    growing cooldown, and the degradation log.
  \<^item> \<open>Notify_Types\<close>: severities, priorities, channels (\<open>store/store.go\<close>), workspace identity (\<open>workspace/workspace.go\<close>), alerts.
  \<^item> \<open>Monitor_Budget\<close>: \<open>notify/monitor_budget.go\<close>. The locale \<open>sliding_window\<close> proves once that a pruned log of
    admissions bounds every window; it is interpreted for the normal and the critical alerts.
  \<^item> \<open>Fairness_Gates\<close>, \<open>Fairness\<close>: \<open>notify/fairness.go\<close>. The two gates share the step relation \<open>gate_step\<close> and the locale
    \<open>slot_gate\<close>: whatever arrives, is released, woken or cancelled, in any order, slots are neither exceeded nor lost. Above
    them the pools, the submission queue with its workers, and the teardown of a workspace.
  \<^item> \<open>Channel_Health\<close>: \<open>notify/health.go\<close>: outcome classes, the score of a channel, probes, retry predicates.
  \<^item> \<open>Failover\<close>: \<open>stellar/failover.go\<close>: the rotation of RPC endpoints with quarantine.
  \<^item> \<open>Escalation\<close>: \<open>notify/escalation.go\<close> over the statements of \<open>store/escalation.go\<close>: rows of escalations, the due list,
    passes over it, acknowledgement, with any statement failing. \<open>scheduler_step\<close> splits a pass into its due read, its checks and its
    deliveries, so that acknowledgements fall between them.
  \<^item> \<open>Alert_Decisions\<close>: \<open>alerts/flapping.go\<close>, \<open>alerts/group.go\<close>, \<open>alerts/inhibit.go\<close>. \<open>Alert_Lifecycle\<close>:
    \<open>alerts/lifecycle.go\<close> on the tables of \<open>Escalation\<close>, with restarts, which forget the resolutions.
  \<^item> \<open>Poll_Schedule\<close>: \<open>poller/schedule.go\<close>: the weighted round robin over contract priorities; its loop terminates because
    every round that emits shrinks a queue.
  \<^item> \<open>Frequency_Rule\<close>: \<open>rules/frequency_threshold.go\<close>: the stateful rule that counts matches in a window.
  \<^item> \<open>Delivery\<close>, \<open>Delivery_Control\<close>, \<open>Dispatch\<close>, \<open>Digest\<close>: \<open>notify/dispatcher.go\<close>. One delivery with its attempts, breaker,
    dead letter and health update; stop and resume of a workspace, manual retry and redrive; the checks that may
    suppress an alert and the fan-out over its channels; the digest queue and text.
  \<^item> \<open>Ingest_Store\<close>: the statements of \<open>store/postgres.go\<close> the poller writes with: checkpoint, contract cursors, ledger hashes,
    retraction. Statements draw from a stream of faults, so any of them may fail; the locale \<open>hash_window\<close> is the contract of
    the hash table.
  \<^item> \<open>Reorg\<close>: \<open>poller/reorg.go\<close> and the rewind in \<open>Poll\<close>. \<open>Stellar_Event\<close>: decoded events and the rows of monitors and
    rules. \<open>Watch_Topics\<close>: \<open>poller/topics.go\<close> and the watch list of a cycle.
  \<^item> \<open>Poll_Cycle\<close>: \<open>Poll\<close> of \<open>poller/poller.go\<close> with \<open>checkRetention\<close>, and \<open>poller/upstream.go\<close>. The paging loop has fuel: it counts
    the fetches of one group, and \<open>N + 2\<close> of them are shown to suffice when the source stops continuing after \<open>N\<close>.
  \<^item> \<open>Rule_Isolation\<close>: \<open>rules/isolation.go\<close>: failure attribution, roll-back, quarantine; the evaluation
    itself is an argument. \<open>Composite_Rule\<close>:
    \<open>rules/composite.go\<close> with the field errors of \<open>rules/errors.go\<close>: validation, depth bound and short-circuit evaluation.
  \<^item> \<open>Alert_Store\<close>: the transaction of \<open>store/postgres.go\<close> that creates an alert. Seen through \<open>abs_gate\<close> it implements \<open>gate_create\<close>, the
    abstract gate of a rule (dedup keys, end of the cooldown, suppressed count), whichever statements fail.
  \<^item> \<open>Absence_Rule\<close>: \<open>rules/absence.go\<close>, \<open>rules/cooldown.go\<close> and the sweep of \<open>poller/poller.go\<close> over the last-seen rows.
  \<^item> \<open>Event_Handling\<close>: \<open>handleEvent\<close> and \<open>fireAlert\<close> of \<open>poller/poller.go\<close> on the registry of \<open>Rule_Isolation\<close> and the store of
    \<open>Alert_Store\<close>; the order of the monitors is a loop that may not end, so it is a \<open>partial_function\<close> and its end is proved.
  \<^item> \<open>Poll_Handling\<close>: the poll cycle with this handler in it. The locale \<open>event_handler\<close> is what the cycle relies on; its
    interpretation on \<open>handleEvent\<close> carries the guarantee from the source's pages to the stored alerts.
  \<^item> \<open>Ingestor\<close>: \<open>poller/ingest.go\<close>. \<open>Backfill\<close>: \<open>backfill/backfill.go\<close> with its progress row; the page loop has fuel,
    and fuel for the number of pages is shown to suffice.
  \<^item> \<open>Text_Codec\<close>: base 64, decimal numbers and \<open>strings.Cut\<close>. \<open>RPC_Source\<close>: \<open>poller/rpcsource.go\<close>: the cursor codec, the
    packing of the watch list into requests, paging (the number of pages bounds the fetches) and ledger hashes.
  \<^item> \<open>Lease\<close>: \<open>lease/lease.go\<close>: every instance's campaign loop and the advisory lock as one step relation.

  \<^item> \<open>Event_Values\<close>: \<open>stellar/values.go\<close> and the parts of Go's number and string libraries that rule parameters are read with.
    \<open>Path_Match\<close>: \<open>path.Match\<close> on one-byte characters, with the language of a pattern as its specification.
  \<^item> \<open>Rule_Evaluators\<close>, \<open>Rule_Caches\<close>: the twelve stateless evaluators of \<open>rules\<close>, three of them with a memo of parsed
    parameters. \<open>Rule_Registry\<close>: \<open>rules/rules.go\<close>, the table of the evaluators and what the poller and the API call through it.
  \<^item> \<open>Route_Table\<close>: \<open>auth/roles.go\<close>, \<open>auth/route_table.go\<close> and the two tables of \<open>api/scopes.go\<close> and \<open>api/roles.go\<close>.
    \<open>Access_Tokens\<close>, \<open>Token_Safety\<close>: \<open>auth/tokens.go\<close>, \<open>api/tokens.go\<close> and the statements on \<open>api_tokens\<close>; what a
    token can do in any reachable state.
  \<^item> \<open>OIDC_Provider\<close>: \<open>auth/oidc.go\<close>. \<open>Authentication\<close>: \<open>auth/auth.go\<close>, \<open>auth/mtls.go\<close>, \<open>api/auth.go\<close>: from a request to its
    caller and through the scope gate and the role gate to the handler.

  What is shown: the limits hold in every interleaving (gates, budgets, queue, schedule, leadership); an event behind the stored cursor
  was put to every rule of every monitor that watches it, and the alerts are exactly those of the rules that answered yes; alerts in the
  queue, slots and contracts are neither lost nor stranded; retries and quarantines end and stay within their bounds; once an acknowledgement
  is stored no pass that checks the alert afterwards in its workspace, with the read succeeding, delivers a step; a served request is within the
  grant of the credential it carried, and a token reaches no further than its minter. Each rule or decision function computes what its
  comment says, except for the divergences recorded as theorems of their own: a half-open probe answered by a permanent error, the
  acknowledgement check of another workspace, a failed policy read, a count above the retained matches, the re-arm time, a
  reorganisation hidden by a failed prune, an upstream rewind undone in the same cycle, two pollers after a lost session, a suppressed
  event counted again when it is replayed, channels that cannot be read, a blank scope in a rotation, a rotation abandoned twice, a
  withdrawn group, an unreadable scopes claim, a path that ends in \<open>health\<close>.

  Not modelled: SQL beyond the statements named above, HTTP, SMTP, TLS and XDR (libraries outside the repository or plain
  input and output), JSON and duration parsing (arguments of the definitions that use them), metrics and logging. Of the
  program's own code: \<open>baseline_deviation\<close> (an argument of the registry), quotas, idempotency keys and the rate limiter, the web pages and the
  command line. Of what is modelled, three limits: an evaluation that outlives its deadline is abandoned by the code and may still write to
  its rule's state, and a full frequency state evicts another rule's, neither of which \<open>Rule_Isolation\<close> follows;
  manual retries and redrives do not pass the register of active deliveries, so the stop guarantee is about
  deliveries that do; \<open>path.Match\<close> is byte by byte.
\<close>

end
